(* ===== verification/Pandora_Prelude.thy ===== *)
theory Pandora_Prelude
  imports
    Main
    "HOL-Library.Word"
    "HOL-Library.List_Lexorder"
    "HOL-Library.Product_Lexorder"
    "HOL-Library.Char_ord"
begin

text \<open>
  Shared vocabulary of the development: Rust's \<open>Result\<close> with its \<open>?\<close> operator, the
  fixed-width integers and the checked and saturating arithmetic the code uses, decimal and
  hexadecimal formatting, big-endian byte encodings, and the generic lemmas about them.
  A Rust \<open>String\<close> is the list of its UTF-8 bytes, so \<open>length\<close> is Rust's \<open>len()\<close> and
  the lexicographic order of \<open>List_Lexorder\<close> over \<open>Char_ord\<close> is Rust's order on strings.
\<close>

named_theorems outcome_simps \<open>inversion of the Result combinators\<close>
named_theorems word_bounds \<open>unat of the checked and saturating operations\<close>

type_synonym u8 = "8 word"
type_synonym u16 = "16 word"
type_synonym u32 = "32 word"
type_synonym u64 = "64 word"

text \<open>A \<open>Result<'a, 'e>\<close>: \<open>Inl\<close> is \<open>Err\<close>, \<open>Inr\<close> is \<open>Ok\<close>.\<close>

type_synonym ('e, 'a) outcome = "'e + 'a"


section \<open>Result\<close>

definition and_then :: "('e, 'a) outcome \<Rightarrow> ('a \<Rightarrow> ('e, 'b) outcome) \<Rightarrow> ('e, 'b) outcome" where
  "and_then r f = (case r of Inl e \<Rightarrow> Inl e | Inr x \<Rightarrow> f x)"

definition ensure :: "bool \<Rightarrow> 'e \<Rightarrow> ('e, unit) outcome" where
  "ensure b e = (if b then Inr () else Inl e)"

definition ok_or :: "'a option \<Rightarrow> 'e \<Rightarrow> ('e, 'a) outcome" where
  "ok_or x e = (case x of None \<Rightarrow> Inl e | Some v \<Rightarrow> Inr v)"

definition map_err :: "('e \<Rightarrow> 'f) \<Rightarrow> ('e, 'a) outcome \<Rightarrow> ('f, 'a) outcome" where
  "map_err g r = (case r of Inl e \<Rightarrow> Inl (g e) | Inr x \<Rightarrow> Inr x)"

definition is_ok :: "('e, 'a) outcome \<Rightarrow> bool" where
  "is_ok r = (case r of Inl _ \<Rightarrow> False | Inr _ \<Rightarrow> True)"

definition ok :: "('e, 'a) outcome \<Rightarrow> 'a option" where
  "ok r = (case r of Inl _ \<Rightarrow> None | Inr x \<Rightarrow> Some x)"

text \<open>\<open>Option::transpose\<close> after a fallible map, and collecting a sequence of results.\<close>

definition opt_try :: "('a \<Rightarrow> ('e, 'b) outcome) \<Rightarrow> 'a option \<Rightarrow> ('e, 'b option) outcome" where
  "opt_try f x = (case x of None \<Rightarrow> Inr None | Some v \<Rightarrow> and_then (f v) (\<lambda>w. Inr (Some w)))"

fun try_map :: "('a \<Rightarrow> ('e, 'b) outcome) \<Rightarrow> 'a list \<Rightarrow> ('e, 'b list) outcome" where
  "try_map f [] = Inr []"
| "try_map f (x # xs) =
     (case f x of
        Inl e \<Rightarrow> Inl e
      | Inr y \<Rightarrow> (case try_map f xs of Inl e \<Rightarrow> Inl e | Inr ys \<Rightarrow> Inr (y # ys)))"

text \<open>A \<open>for\<close> loop whose body may return early with an error.\<close>

fun try_all :: "('a \<Rightarrow> ('e, unit) outcome) \<Rightarrow> 'a list \<Rightarrow> ('e, unit) outcome" where
  "try_all f [] = Inr ()"
| "try_all f (x # xs) = (case f x of Inl e \<Rightarrow> Inl e | Inr _ \<Rightarrow> try_all f xs)"

lemma and_then_simps [simp]:
  "and_then (Inl e) f = Inl e" "and_then (Inr x) f = f x"
  by (simp_all add: and_then_def)

lemma and_then_Inr_iff [simp, outcome_simps]:
  "and_then r f = Inr y \<longleftrightarrow> (\<exists>x. r = Inr x \<and> f x = Inr y)"
  by (cases r) (auto simp: and_then_def)

lemma and_then_Inl_iff [outcome_simps]:
  "and_then r f = Inl e \<longleftrightarrow> r = Inl e \<or> (\<exists>x. r = Inr x \<and> f x = Inl e)"
  by (cases r) (auto simp: and_then_def)

lemma ensure_simps [simp]:
  "ensure True e = Inr ()" "ensure False e = Inl e"
  by (simp_all add: ensure_def)

lemma ensure_Inr_iff [simp, outcome_simps]: "ensure b e = Inr u \<longleftrightarrow> b"
  by (simp add: ensure_def)

lemma ensure_Inl_iff [simp, outcome_simps]: "ensure b e = Inl e' \<longleftrightarrow> \<not> b \<and> e' = e"
  by (auto simp: ensure_def)

lemma ok_or_simps [simp]:
  "ok_or None e = Inl e" "ok_or (Some x) e = Inr x"
  by (simp_all add: ok_or_def)

lemma ok_or_Inr_iff [simp, outcome_simps]: "ok_or x e = Inr y \<longleftrightarrow> x = Some y"
  by (cases x) auto

lemma ok_or_Inl_iff [outcome_simps]: "ok_or x e = Inl e' \<longleftrightarrow> x = None \<and> e' = e"
  by (cases x) auto

lemma map_err_simps [simp]:
  "map_err g (Inl e) = Inl (g e)" "map_err g (Inr x) = Inr x"
  by (simp_all add: map_err_def)

lemma map_err_Inr_iff [simp, outcome_simps]: "map_err g r = Inr x \<longleftrightarrow> r = Inr x"
  by (cases r) auto

lemma map_err_Inl_iff [outcome_simps]: "map_err g r = Inl e \<longleftrightarrow> (\<exists>e'. r = Inl e' \<and> e = g e')"
  by (cases r) auto

lemma is_ok_simps [simp]: "\<not> is_ok (Inl e)" "is_ok (Inr x)"
  by (simp_all add: is_ok_def)

lemma is_ok_iff: "is_ok r \<longleftrightarrow> (\<exists>x. r = Inr x)"
  by (cases r) auto

lemma is_ok_fst_cases:
  assumes "is_ok (fst x)"
  obtains a s where "x = (Inr a, s)"
  using assms by (cases x; cases "fst x") auto

lemma ok_simps [simp]: "ok (Inl e) = None" "ok (Inr x) = Some x"
  by (simp_all add: ok_def)

lemma opt_try_simps [simp]:
  "opt_try f None = Inr None" "opt_try f (Some v) = and_then (f v) (\<lambda>w. Inr (Some w))"
  by (simp_all add: opt_try_def)

lemma try_all_Inr_iff [simp, outcome_simps]:
  "try_all f xs = Inr u \<longleftrightarrow> (\<forall>x \<in> set xs. f x = Inr ())"
  by (induction xs) (auto split: sum.splits)

lemma try_all_InlD: "try_all f xs = Inl e \<Longrightarrow> \<exists>x \<in> set xs. f x = Inl e"
  by (induction xs) (auto split: sum.splits)

lemma try_map_length: "try_map f xs = Inr ys \<Longrightarrow> length ys = length xs"
  by (induction xs arbitrary: ys) (auto split: sum.splits)

lemma try_map_ok_all: "(\<And>x. x \<in> set xs \<Longrightarrow> f x = Inr (g x)) \<Longrightarrow> try_map f xs = Inr (map g xs)"
  by (induction xs) auto

lemma try_map_set:
  "try_map f xs = Inr ys \<Longrightarrow> y \<in> set ys \<Longrightarrow> \<exists>x \<in> set xs. f x = Inr y"
  by (induction xs arbitrary: ys) (auto split: sum.splits)


lemma append_split_at:
  assumes "c @ b = xs @ i # ys"
  shows "(\<exists>zs. c = xs @ i # zs) \<or> (\<exists>zs. xs = c @ zs \<and> b = zs @ i # ys)"
  using assms by (auto simp: append_eq_append_conv2 append_eq_Cons_conv)


section \<open>Fixed-width arithmetic\<close>

definition checked_add :: "'a::len word \<Rightarrow> 'a word \<Rightarrow> 'a word option" where
  "checked_add a b = (if unat a + unat b < 2 ^ LENGTH('a) then Some (a + b) else None)"

definition saturating_add :: "'a::len word \<Rightarrow> 'a word \<Rightarrow> 'a word" where
  "saturating_add a b = (if unat a + unat b < 2 ^ LENGTH('a) then a + b else - 1)"

definition saturating_sub :: "'a::len word \<Rightarrow> 'a word \<Rightarrow> 'a word" where
  "saturating_sub a b = (if a < b then 0 else a - b)"

text \<open>\<open>i64::try_from(u64)\<close>, \<open>u64::try_from(i64)\<close> and \<open>u32::try_from(i64)\<close>; a signed value is
  an \<open>int\<close>.\<close>

definition i64_of_u64 :: "u64 \<Rightarrow> int option" where
  "i64_of_u64 x = (if uint x < 2 ^ 63 then Some (uint x) else None)"

definition u64_of_i64 :: "int \<Rightarrow> u64 option" where
  "u64_of_i64 i = (if 0 \<le> i \<and> i < 2 ^ 63 then Some (word_of_int i) else None)"

definition u32_of_i64 :: "int \<Rightarrow> u32 option" where
  "u32_of_i64 i = (if 0 \<le> i \<and> i < 2 ^ 32 then Some (word_of_int i) else None)"

definition u16_of_i64 :: "int \<Rightarrow> u16 option" where
  "u16_of_i64 i = (if 0 \<le> i \<and> i < 2 ^ 16 then Some (word_of_int i) else None)"

definition u8_of_i64 :: "int \<Rightarrow> u8 option" where
  "u8_of_i64 i = (if 0 \<le> i \<and> i < 2 ^ 8 then Some (word_of_int i) else None)"

lemma unat_less_2p: "unat (w :: 'a::len word) < 2 ^ LENGTH('a)"
  by (rule unsigned_less)

lemma unat_add_no_overflow:
  fixes a b :: "'a::len word"
  shows "unat a + unat b < 2 ^ LENGTH('a) \<Longrightarrow> unat (a + b) = unat a + unat b"
  by (simp add: unat_word_ariths)

lemma checked_add_Some_iff [word_bounds]:
  fixes a b c :: "'a::len word"
  shows "checked_add a b = Some c \<longleftrightarrow> unat c = unat a + unat b"
proof
  assume "checked_add a b = Some c"
  then show "unat c = unat a + unat b"
    by (auto simp: checked_add_def unat_add_no_overflow split: if_splits)
next
  assume c: "unat c = unat a + unat b"
  then have lt: "unat a + unat b < 2 ^ LENGTH('a)"
    using unat_less_2p [of c] by simp
  then have "unat (a + b) = unat c"
    using c by (simp add: unat_add_no_overflow)
  then have "a + b = c" by (simp add: word_unat_eq_iff)
  with lt show "checked_add a b = Some c" by (simp add: checked_add_def)
qed

lemma checked_add_None_iff [word_bounds]:
  fixes a b :: "'a::len word"
  shows "checked_add a b = None \<longleftrightarrow> 2 ^ LENGTH('a) \<le> unat a + unat b"
  by (auto simp: checked_add_def)

lemma unat_saturating_add [word_bounds]:
  fixes a b :: "'a::len word"
  shows "unat (saturating_add a b) = min (unat a + unat b) (2 ^ LENGTH('a) - 1)"
proof (cases "unat a + unat b < 2 ^ LENGTH('a)")
  case True
  then show ?thesis by (simp add: saturating_add_def unat_add_no_overflow)
next
  case False
  then have "saturating_add a b = - 1" by (simp add: saturating_add_def)
  moreover have "unat (- 1 :: 'a word) = 2 ^ LENGTH('a) - 1"
    by (simp add: unsigned_minus_1_eq_mask mask_eq_exp_minus_1)
  ultimately show ?thesis using False by simp
qed

lemma unat_saturating_sub [word_bounds]:
  "unat (saturating_sub a b) = unat a - unat b"
  by (auto simp: saturating_sub_def unat_sub word_less_nat_alt word_le_nat_alt)

lemma saturating_add_ge:
  fixes a b :: "'a::len word"
  shows "a \<le> saturating_add a b"
proof -
  have "unat a \<le> 2 ^ LENGTH('a) - 1" using unat_less_2p [of a] by linarith
  then show ?thesis by (simp add: word_le_nat_alt unat_saturating_add)
qed

lemma i64_of_u64_Some_iff: "i64_of_u64 x = Some i \<longleftrightarrow> uint x < 2 ^ 63 \<and> i = uint x"
  by (auto simp: i64_of_u64_def)

lemma i64_roundtrip [simp]: "i64_of_u64 x = Some i \<Longrightarrow> u64_of_i64 i = Some x"
  by (auto simp: i64_of_u64_def u64_of_i64_def split: if_splits)

lemma u32_roundtrip [simp]: "u32_of_i64 (uint x) = Some x"
  using uint_bounded [of x] by (auto simp: u32_of_i64_def)

lemma u16_roundtrip [simp]: "u16_of_i64 (uint x) = Some x"
  using uint_bounded [of x] by (auto simp: u16_of_i64_def)

lemma u8_roundtrip [simp]: "u8_of_i64 (uint x) = Some x"
  using uint_bounded [of x] by (auto simp: u8_of_i64_def)


section \<open>Decimal, hexadecimal and big-endian formatting\<close>

definition digit_char :: "nat \<Rightarrow> char" where
  "digit_char d = char_of (48 + d)"

fun show_nat :: "nat \<Rightarrow> string" where
  "show_nat n = (if n < 10 then [digit_char n] else show_nat (n div 10) @ [digit_char (n mod 10)])"

declare show_nat.simps [simp del]

definition read_nat :: "string \<Rightarrow> nat" where
  "read_nat s = foldl (\<lambda>acc c. 10 * acc + (of_char c - 48)) 0 s"

lemma of_char_digit [simp]: "d < 10 \<Longrightarrow> of_char (digit_char d) = 48 + d"
  by (simp add: digit_char_def of_char_of)

lemma read_show_nat [simp]: "read_nat (show_nat n) = n"
proof (induction n rule: show_nat.induct)
  case (1 n)
  show ?case
  proof (cases "n < 10")
    case True
    then show ?thesis by (simp add: show_nat.simps [of n] read_nat_def)
  next
    case False
    with 1 have "read_nat (show_nat (n div 10)) = n div 10" by simp
    with False show ?thesis by (simp add: show_nat.simps [of n] read_nat_def)
  qed
qed

lemma show_nat_inject [simp]: "show_nat m = show_nat n \<longleftrightarrow> m = n"
  by (metis read_show_nat)

lemma show_nat_not_Nil [simp]: "show_nat n \<noteq> []"
  by (simp add: show_nat.simps [of n])

lemma length_show_nat: "n < 10 ^ k \<Longrightarrow> 0 < k \<Longrightarrow> length (show_nat n) \<le> k"
proof (induction k arbitrary: n)
  case 0
  then show ?case by simp
next
  case (Suc k)
  show ?case
  proof (cases "n < 10")
    case True
    then show ?thesis by (simp add: show_nat.simps [of n])
  next
    case False
    with Suc.prems have "n div 10 < 10 ^ k" and "0 < k"
      by (auto simp: div_less_iff_less_mult mult.commute intro: Nat.gr0I)
    with Suc.IH [of "n div 10"] False show ?thesis
      by (simp add: show_nat.simps [of n])
  qed
qed

lemma show_nat_u64_length: "length (show_nat (unat (x :: u64))) \<le> 20"
proof -
  have "unat x < 2 ^ 64" using unat_less_2p [of x] by simp
  also have "(2 ^ 64 :: nat) \<le> 10 ^ 20" by simp
  finally show ?thesis by (intro length_show_nat) auto
qed

definition hex_digit :: "nat \<Rightarrow> char" where
  "hex_digit d = (if d < 10 then char_of (48 + d) else char_of (87 + d))"

definition hex_byte :: "char \<Rightarrow> string" where
  "hex_byte c = [hex_digit (of_char c div 16), hex_digit (of_char c mod 16)]"

definition hex_encode :: "string \<Rightarrow> string" where
  "hex_encode bs = concat (map hex_byte bs)"

definition unhex :: "char \<Rightarrow> nat" where
  "unhex c = (if of_char c < (58 :: nat) then of_char c - 48 else of_char c - 87)"

lemma unhex_hex_digit [simp]: "d < 16 \<Longrightarrow> unhex (hex_digit d) = d"
  by (auto simp: unhex_def hex_digit_def of_char_of)

lemma of_char_less_256 [simp]: "(of_char c :: nat) < 256"
  using nat_of_char_less_256 by simp

lemma hex_byte_inject [simp]: "hex_byte c = hex_byte d \<longleftrightarrow> c = d"
proof
  assume "hex_byte c = hex_byte d"
  then have "unhex (hex_digit (of_char c div 16)) = unhex (hex_digit (of_char d div 16))"
    and "unhex (hex_digit (of_char c mod 16)) = unhex (hex_digit (of_char d mod 16))"
    by (simp_all add: hex_byte_def)
  moreover have "(of_char c :: nat) div 16 < 16" "(of_char d :: nat) div 16 < 16"
    by (simp_all add: div_less_iff_less_mult)
  ultimately have "(of_char c :: nat) div 16 = of_char d div 16"
    and "(of_char c :: nat) mod 16 = of_char d mod 16"
    by simp_all
  then have "(of_char c :: nat) = of_char d" by (metis div_mult_mod_eq)
  then show "c = d" by simp
qed simp

lemma hex_encode_simps [simp]:
  "hex_encode [] = []" "hex_encode (c # cs) = hex_byte c @ hex_encode cs"
  by (simp_all add: hex_encode_def)

lemma length_hex_byte [simp]: "length (hex_byte c) = 2"
  by (simp add: hex_byte_def)

lemma hex_encode_inject [simp]: "hex_encode xs = hex_encode ys \<longleftrightarrow> xs = ys"
proof (induction xs arbitrary: ys)
  case Nil
  show ?case by (cases ys) (auto simp: hex_byte_def)
next
  case (Cons x xs)
  show ?case
  proof (cases ys)
    case Nil
    then show ?thesis by (simp add: hex_byte_def)
  next
    case ys: (Cons z zs)
    have "hex_encode (x # xs) = hex_encode (z # zs) \<longleftrightarrow>
        hex_byte x = hex_byte z \<and> hex_encode xs = hex_encode zs"
      by (simp add: append_eq_append_conv)
    with ys Cons.IH show ?thesis by simp
  qed
qed

lemma length_hex_encode [simp]: "length (hex_encode bs) = 2 * length bs"
  by (induction bs) auto

text \<open>\<open>to_be_bytes\<close> of a \<open>k\<close>-byte unsigned value.\<close>

fun be_bytes :: "nat \<Rightarrow> nat \<Rightarrow> string" where
  "be_bytes 0 n = []"
| "be_bytes (Suc k) n = be_bytes k (n div 256) @ [char_of (n mod 256)]"

lemma length_be_bytes [simp]: "length (be_bytes k n) = k"
  by (induction k arbitrary: n) auto

lemma char_of_byte_inject: "a < 256 \<Longrightarrow> b < 256 \<Longrightarrow> (char_of a :: char) = char_of b \<Longrightarrow> a = (b :: nat)"
  by (metis mod_less of_char_of)

lemma be_bytes_inject:
  "m < 256 ^ k \<Longrightarrow> n < 256 ^ k \<Longrightarrow> be_bytes k m = be_bytes k n \<Longrightarrow> m = n"
proof (induction k arbitrary: m n)
  case 0
  then show ?case by simp
next
  case (Suc k)
  have "m div 256 < 256 ^ k" "n div 256 < 256 ^ k"
    using Suc.prems by (simp_all add: div_less_iff_less_mult mult.commute)
  moreover have "be_bytes k (m div 256) = be_bytes k (n div 256)"
    and "(char_of (m mod 256) :: char) = char_of (n mod 256)"
    using Suc.prems(3) by simp_all
  ultimately have "m div 256 = n div 256" and "m mod 256 = n mod 256"
    by (auto intro: Suc.IH char_of_byte_inject)
  then show ?case by (metis div_mult_mod_eq)
qed

end
