(* ===== verification/Rust_Text.thy ===== *)
theory Rust_Text
  imports Pandora_Prelude
begin

text \<open>
  The string operations of Rust's standard library that the contracts are written with:
  \<open>trim\<close>, \<open>split_whitespace\<close>, \<open>to_ascii_lowercase\<close>, \<open>contains\<close>, \<open>starts_with\<close>,
  \<open>replace\<close> of one character and \<open>join\<close>. Strings are lists of UTF-8 bytes; white space
  is Unicode's \<open>White_Space\<close> property, given by the UTF-8 encodings of its 25 characters.
\<close>

section \<open>White space\<close>

definition ws_seqs :: "nat list list" where
  "ws_seqs =
     [[9], [10], [11], [12], [13], [32],
      [0xC2, 0x85], [0xC2, 0xA0], [0xE1, 0x9A, 0x80],
      [0xE2, 0x80, 0x80], [0xE2, 0x80, 0x81], [0xE2, 0x80, 0x82], [0xE2, 0x80, 0x83],
      [0xE2, 0x80, 0x84], [0xE2, 0x80, 0x85], [0xE2, 0x80, 0x86], [0xE2, 0x80, 0x87],
      [0xE2, 0x80, 0x88], [0xE2, 0x80, 0x89], [0xE2, 0x80, 0x8A],
      [0xE2, 0x80, 0xA8], [0xE2, 0x80, 0xA9], [0xE2, 0x80, 0xAF],
      [0xE2, 0x81, 0x9F], [0xE3, 0x80, 0x80]]"

text \<open>Whether the byte codes \<open>w\<close> open the string, and the length of the first that does.\<close>

fun opens :: "nat list \<Rightarrow> string \<Rightarrow> bool" where
  "opens [] s = True"
| "opens (w # ws) [] = False"
| "opens (w # ws) (c # cs) = (of_char c = w \<and> opens ws cs)"

fun head_len :: "nat list list \<Rightarrow> string \<Rightarrow> nat" where
  "head_len [] s = 0"
| "head_len (w # ws) s = (if opens w s then length w else head_len ws s)"

lemma opens_length: "opens w s \<Longrightarrow> length w \<le> length s"
  by (induction w s rule: opens.induct) auto

lemma head_len_le: "head_len ws s \<le> length s"
  by (induction ws) (auto dest: opens_length)

function strip_start :: "nat list list \<Rightarrow> string \<Rightarrow> string" where
  "strip_start ws s = (if head_len ws s = 0 then s else strip_start ws (drop (head_len ws s) s))"
  by pat_completeness auto
termination
proof (relation "measure (\<lambda>(ws, s). length s)")
  fix ws s
  assume "head_len ws s \<noteq> 0"
  moreover have "head_len ws s \<le> length s" by (rule head_len_le)
  ultimately have "length s - head_len ws s < length s" by linarith
  then show "((ws, drop (head_len ws s) s), ws, s) \<in> measure (\<lambda>(ws, s). length s)" by simp
qed simp

declare strip_start.simps [simp del]

definition trim_start :: "string \<Rightarrow> string" where
  "trim_start s = strip_start ws_seqs s"

definition trim_end :: "string \<Rightarrow> string" where
  "trim_end s = rev (strip_start (map rev ws_seqs) (rev s))"

definition trim :: "string \<Rightarrow> string" where
  "trim s = trim_end (trim_start s)"

definition blank :: "string \<Rightarrow> bool" where
  "blank s \<longleftrightarrow> trim s = []"

text \<open>The words of a text, separated by white space.\<close>

function split_ws :: "string \<Rightarrow> string \<Rightarrow> string list" where
  "split_ws acc s =
     (case s of
        [] \<Rightarrow> (if acc = [] then [] else [rev acc])
      | c # cs \<Rightarrow>
          (if head_len ws_seqs s = 0 then split_ws (c # acc) cs
           else (if acc = [] then [] else [rev acc]) @ split_ws [] (drop (head_len ws_seqs s) s)))"
  by pat_completeness auto
termination
proof (relation "measure (\<lambda>(acc, s). length s)")
  fix acc s and c :: char and cs
  assume s: "s = c # cs" and n: "head_len ws_seqs s \<noteq> 0"
  have "head_len ws_seqs s \<le> length s" by (rule head_len_le)
  with n have "length s - head_len ws_seqs s < length s" by linarith
  then show "(([], drop (head_len ws_seqs s) s), acc, s) \<in> measure (\<lambda>(acc, s). length s)" by simp
qed auto

declare split_ws.simps [simp del]

definition split_whitespace :: "string \<Rightarrow> string list" where
  "split_whitespace s = split_ws [] s"


section \<open>Characters and substrings\<close>

definition ascii_lower :: "char \<Rightarrow> char" where
  "ascii_lower c = (if (65 :: nat) \<le> of_char c \<and> of_char c \<le> (90 :: nat) then char_of (of_char c + 32 :: nat) else c)"

definition to_ascii_lowercase :: "string \<Rightarrow> string" where
  "to_ascii_lowercase s = map ascii_lower s"

definition is_ascii_digit :: "char \<Rightarrow> bool" where
  "is_ascii_digit c \<longleftrightarrow> (48 :: nat) \<le> of_char c \<and> of_char c \<le> (57 :: nat)"

definition is_ascii_alphanumeric :: "char \<Rightarrow> bool" where
  "is_ascii_alphanumeric c \<longleftrightarrow>
     is_ascii_digit c \<or> ((65 :: nat) \<le> of_char c \<and> of_char c \<le> (90 :: nat))
       \<or> ((97 :: nat) \<le> of_char c \<and> of_char c \<le> (122 :: nat))"

fun starts_with :: "string \<Rightarrow> string \<Rightarrow> bool" where
  "starts_with s [] = True"
| "starts_with [] (p # ps) = False"
| "starts_with (c # cs) (p # ps) = (c = p \<and> starts_with cs ps)"

fun contains_str :: "string \<Rightarrow> string \<Rightarrow> bool" where
  "contains_str [] p = starts_with [] p"
| "contains_str (c # cs) p = (starts_with (c # cs) p \<or> contains_str cs p)"

definition replace_char :: "char \<Rightarrow> char \<Rightarrow> string \<Rightarrow> string" where
  "replace_char a b s = map (\<lambda>c. if c = a then b else c) s"

fun join_with :: "string \<Rightarrow> string list \<Rightarrow> string" where
  "join_with sep [] = []"
| "join_with sep [x] = x"
| "join_with sep (x # y # ys) = x @ sep @ join_with sep (y # ys)"

text \<open>
  \<open>char::is_control\<close>: the C0 controls and DEL are one byte, the C1 controls
  \<open>U+0080\<close> to \<open>U+009F\<close> are \<open>C2 80\<close> to \<open>C2 9F\<close>.
\<close>

fun has_control :: "string \<Rightarrow> bool" where
  "has_control [] = False"
| "has_control (c # cs) =
     (of_char c < (32 :: nat) \<or> of_char c = (127 :: nat)
      \<or> (of_char c = (0xC2 :: nat)
         \<and> (case cs of [] \<Rightarrow> False | d # _ \<Rightarrow> (0x80 :: nat) \<le> of_char d \<and> of_char d \<le> (0x9F :: nat)))
      \<or> has_control cs)"

text \<open>\<open>str::from_utf8\<close>: well-formed UTF-8, without overlong forms, surrogates or values above
  \<open>U+10FFFF\<close>.\<close>

definition utf8_cont :: "char \<Rightarrow> bool" where
  "utf8_cont c \<longleftrightarrow> 128 \<le> (of_char c :: nat) \<and> (of_char c :: nat) < 192"

fun utf8_valid :: "string \<Rightarrow> bool" where
  "utf8_valid [] = True"
| "utf8_valid (a # s) =
     (let x = of_char a :: nat in
      if x < 128 then utf8_valid s
      else if 194 \<le> x \<and> x \<le> 223 then
        (case s of b # s1 \<Rightarrow> utf8_cont b \<and> utf8_valid s1 | [] \<Rightarrow> False)
      else if 224 \<le> x \<and> x \<le> 239 then
        (case s of
           b # c # s2 \<Rightarrow> utf8_cont b \<and> utf8_cont c
             \<and> (x = 224 \<longrightarrow> 160 \<le> (of_char b :: nat)) \<and> (x = 237 \<longrightarrow> (of_char b :: nat) < 160)
             \<and> utf8_valid s2
         | _ \<Rightarrow> False)
      else if 240 \<le> x \<and> x \<le> 244 then
        (case s of
           b # c # d # s3 \<Rightarrow> utf8_cont b \<and> utf8_cont c \<and> utf8_cont d
             \<and> (x = 240 \<longrightarrow> 144 \<le> (of_char b :: nat)) \<and> (x = 244 \<longrightarrow> (of_char b :: nat) < 144)
             \<and> utf8_valid s3
         | _ \<Rightarrow> False)
      else False)"

lemma blank_Nil [simp]: "blank []"
  by (simp add: blank_def trim_def trim_start_def trim_end_def ws_seqs_def strip_start.simps)

lemma starts_with_iff: "starts_with s p \<longleftrightarrow> (\<exists>t. s = p @ t)"
  by (induction s p rule: starts_with.induct) auto

lemma contains_str_iff: "contains_str s p \<longleftrightarrow> (\<exists>a b. s = a @ p @ b)"
proof (induction s)
  case Nil
  show ?case by (auto simp: starts_with_iff)
next
  case (Cons c cs)
  have "(\<exists>a b. c # cs = a @ p @ b) \<longleftrightarrow> (\<exists>b. c # cs = p @ b) \<or> (\<exists>a b. cs = a @ p @ b)"
    (is "?L \<longleftrightarrow> ?R")
  proof
    assume ?L
    then obtain a b where "c # cs = a @ p @ b" by blast
    then show ?R by (cases a) auto
  next
    assume ?R
    then show ?L by (metis append_Cons append_Nil)
  qed
  then show ?case using Cons.IH by (simp add: starts_with_iff)
qed

text \<open>
  A string that opens with a printable ASCII character and ends with one is not blank; this is
  how the identifiers the program formats itself are seen to be valid.
\<close>

definition visible :: "char \<Rightarrow> bool" where
  "visible c \<longleftrightarrow> (32 :: nat) < of_char c \<and> of_char c < (128 :: nat)"

lemma head_len_visible:
  assumes "visible c"
  shows "head_len ws_seqs (c # cs) = 0" "head_len (map rev ws_seqs) (c # cs) = 0"
  using assms by (auto simp: visible_def ws_seqs_def)

lemma trim_visible_id:
  assumes "s \<noteq> []" "visible (hd s)" "visible (last s)"
  shows "trim s = s"
proof -
  obtain c cs where s: "s = c # cs" using assms(1) by (cases s) auto
  have start: "trim_start s = s"
    unfolding trim_start_def
    by (subst strip_start.simps) (use assms(2) s in \<open>simp add: head_len_visible\<close>)
  obtain d ds where r: "rev s = d # ds" using assms(1) by (cases "rev s") auto
  then have "d = last s" by (metis hd_rev list.sel(1))
  then have "head_len (map rev ws_seqs) (rev s) = 0"
    unfolding r using assms(3) by (simp only: head_len_visible)
  then have "strip_start (map rev ws_seqs) (rev s) = rev s"
    by (subst strip_start.simps) simp
  then show ?thesis using start by (simp add: trim_def trim_end_def)
qed

lemma blank_visible:
  "s \<noteq> [] \<Longrightarrow> visible (hd s) \<Longrightarrow> visible (last s) \<Longrightarrow> \<not> blank s"
  by (simp add: blank_def trim_visible_id)

lemma visible_digit [simp]: "d < 10 \<Longrightarrow> visible (digit_char d)"
  by (simp add: visible_def)

lemma last_show_nat_visible [simp]: "visible (last (show_nat n))"
  by (simp add: show_nat.simps [of n])

lemma visible_hex_digit [simp]: "d < 16 \<Longrightarrow> visible (hex_digit d)"
  by (auto simp: visible_def hex_digit_def of_char_of)

lemma last_hex_encode_visible [simp]: "bs \<noteq> [] \<Longrightarrow> visible (last (hex_encode bs))"
  by (induction bs rule: rev_induct) (simp_all add: hex_encode_def hex_byte_def)

lemma split_ws_no_empty: "[] \<notin> set (split_ws acc s)"
proof (induction acc s rule: split_ws.induct)
  case (1 acc s)
  show ?case
  proof (cases s)
    case Nil
    then show ?thesis by (subst split_ws.simps) simp
  next
    case (Cons c cs)
    with 1 show ?thesis by (subst split_ws.simps) auto
  qed
qed

lemma opens_codes: "opens w s \<Longrightarrow> of_char ` set (take (length w) s) \<subseteq> set w"
  by (induction w s rule: opens.induct) auto

lemma head_len_opens: "head_len ws s \<noteq> 0 \<Longrightarrow> \<exists>w \<in> set ws. opens w s \<and> head_len ws s = length w"
  by (induction ws) (auto split: if_splits)

lemma strip_keeps:
  assumes "\<forall>w \<in> set ws. \<forall>n \<in> set w. of_char c \<noteq> n" "c \<in> set s"
  shows "c \<in> set (strip_start ws s)"
  using assms
proof (induction ws s rule: strip_start.induct)
  case (1 ws s)
  show ?case
  proof (cases "head_len ws s = 0")
    case True
    then show ?thesis using 1 by (simp add: strip_start.simps [of ws s])
  next
    case False
    then obtain w where w: "w \<in> set ws" "opens w s" "head_len ws s = length w" using head_len_opens by blast
    then have "c \<notin> set (take (length w) s)" using opens_codes [of w s] 1(2) by auto
    then have "c \<in> set (drop (length w) s)" using 1(3) by (metis Un_iff append_take_drop_id set_append)
    with 1 False w show ?thesis by (simp add: strip_start.simps [of ws s])
  qed
qed

lemma not_blank_visible: "visible c \<Longrightarrow> c \<in> set s \<Longrightarrow> \<not> blank s"
proof -
  assume c: "visible c" "c \<in> set s"
  then have "\<forall>w \<in> set ws_seqs. \<forall>n \<in> set w. of_char c \<noteq> n" by (auto simp: ws_seqs_def visible_def)
  with c have "c \<in> set (trim s)"
    by (simp add: trim_def trim_end_def trim_start_def strip_keeps)
  then show ?thesis by (auto simp: blank_def)
qed

section \<open>Trimming\<close>


lemma strip_start_fixed: "head_len ws s = 0 \<Longrightarrow> strip_start ws s = s"
  by (subst strip_start.simps) simp

lemma strip_start_head [simp]: "head_len ws (strip_start ws s) = 0"
  by (induction ws s rule: strip_start.induct) (subst strip_start.simps, auto simp: Let_def)

lemma strip_start_idem [simp]: "strip_start ws (strip_start ws s) = strip_start ws s"
  by (simp add: strip_start_fixed)

lemma strip_start_suffix: "\<exists>p. s = p @ strip_start ws s"
proof (induction ws s rule: strip_start.induct)
  case (1 ws s)
  show ?case
  proof (cases "head_len ws s = 0")
    case True
    then show ?thesis by (simp add: strip_start_fixed)
  next
    case False
    then obtain p where "drop (head_len ws s) s = p @ strip_start ws (drop (head_len ws s) s)" using 1 by blast
    then have "s = (take (head_len ws s) s @ p) @ strip_start ws (drop (head_len ws s) s)" by (metis append.assoc append_take_drop_id)
    moreover have "strip_start ws s = strip_start ws (drop (head_len ws s) s)" using False by (subst strip_start.simps) simp
    ultimately show ?thesis by metis
  qed
qed

lemma opens_prefix: "opens w s \<Longrightarrow> opens w (s @ t)"
  by (induction w s rule: opens.induct) auto

lemma head_len_prefix: "[] \<notin> set ws \<Longrightarrow> head_len ws (s @ t) = 0 \<Longrightarrow> head_len ws s = 0"
  using opens_prefix by (induction ws) (auto split: if_splits)

lemma trim_trim [simp]: "trim (trim s) = trim s"
proof -
  obtain q where q: "trim_start s = trim s @ q"
    using strip_start_suffix [of "rev (trim_start s)" "map rev ws_seqs"]
    by (metis rev_append rev_rev_ident trim_def trim_end_def)
  have "head_len ws_seqs (trim s) = 0"
    by (rule head_len_prefix [of _ _ q]) (simp_all add: q [symmetric] trim_start_def, simp add: ws_seqs_def)
  then have "trim_start (trim s) = trim s" by (simp add: trim_start_def strip_start_fixed)
  then show ?thesis by (simp add: trim_def trim_end_def)
qed

lemma has_control_append1: "has_control s \<Longrightarrow> has_control (s @ t)"
proof (induction s)
  case step: (Cons c cs)
  show ?case
  proof (cases cs)
    case Nil
    then show ?thesis using step.prems by auto
  next
    case (Cons d ds)
    have "has_control (c # cs) \<longleftrightarrow> has_control [c] \<or> (of_char c = (0xC2 :: nat) \<and> 0x80 \<le> (of_char d :: nat) \<and> (of_char d :: nat) \<le> 0x9F) \<or> has_control cs"
      by (subst has_control.simps) (auto simp: Cons)
    moreover have "has_control (c # cs @ t) \<longleftrightarrow> has_control [c] \<or> (of_char c = (0xC2 :: nat) \<and> 0x80 \<le> (of_char d :: nat) \<and> (of_char d :: nat) \<le> 0x9F) \<or> has_control (cs @ t)"
      by (subst has_control.simps) (auto simp: Cons)
    ultimately show ?thesis using step.prems step.IH by (simp only: append_Cons) blast
  qed
qed simp

lemma has_control_append2: "has_control t \<Longrightarrow> has_control (s @ t)"
  by (induction s) auto

lemma trim_within: "\<exists>p q. s = p @ trim s @ q"
proof -
  obtain q where q: "trim_start s = trim s @ q"
    using strip_start_suffix [of "rev (trim_start s)" "map rev ws_seqs"]
    by (metis rev_append rev_rev_ident trim_def trim_end_def)
  moreover obtain p where "s = p @ trim_start s" using strip_start_suffix [of s ws_seqs] by (auto simp: trim_start_def)
  ultimately show ?thesis by metis
qed

lemma trim_no_control [simp]: "\<not> has_control s \<Longrightarrow> \<not> has_control (trim s)"
  using trim_within [of s] has_control_append1 has_control_append2 by metis

lemma length_trim: "length (trim s) \<le> length s"
proof -
  obtain p q where "s = p @ trim s @ q" using trim_within by blast
  then have "length s = length p + length (trim s) + length q" by (metis add.assoc length_append)
  then show ?thesis by simp
qed

end
