(* ===== verification/Identifiers.thy ===== *)
theory Identifiers
  imports Rust_Text
begin

text \<open>
  Identifiers and the capability vocabulary: \<open>pandora-types/src/ids.rs\<close> and
  \<open>pandora-types/src/capability.rs\<close>. The 25 identifier types of the \<open>define_id!\<close> macro are
  all newtypes over \<open>String\<close> with the same constructor \<open>new\<close>, so each is a synonym of
  \<open>string\<close> and \<open>new_id\<close> models the shared constructor.
\<close>

section \<open>Identifiers\<close>

type_synonym execution_id = string
type_synonym session_id = string
type_synonym principal_id = string
type_synonym gene_id = string
type_synonym harness_id = string
type_synonym artifact_id = string
type_synonym permit_id = string
type_synonym receipt_id = string
type_synonym request_digest = string
type_synonym plan_id = string
type_synonym role_id = string
type_synonym run_loop_id = string

datatype id_error = Empty | TooLong

definition new_id :: "string \<Rightarrow> (id_error, string) outcome" where
  "new_id value =
     (if blank value then Inl Empty
      else if length value > 256 then Inl TooLong
      else Inr value)"

definition valid_id :: "string \<Rightarrow> bool" where
  "valid_id v \<longleftrightarrow> \<not> blank v \<and> length v \<le> 256"

lemma new_id_Inr_iff [simp]: "new_id v = Inr w \<longleftrightarrow> valid_id v \<and> w = v"
  by (auto simp: new_id_def valid_id_def)

lemma new_id_Inl_iff: "new_id v = Inl e \<longleftrightarrow> (blank v \<and> e = Empty) \<or> (\<not> blank v \<and> 256 < length v \<and> e = TooLong)"
  by (auto simp: new_id_def)

lemma valid_id_visible:
  "s \<noteq> [] \<Longrightarrow> visible (hd s) \<Longrightarrow> visible (last s) \<Longrightarrow> length s \<le> 256 \<Longrightarrow> valid_id s"
  by (simp add: valid_id_def blank_visible)


section \<open>Capabilities and operations\<close>

datatype capability =
  FilesystemRead
| FilesystemWrite
| ProcessExecute
| NetworkConnect
| ProviderInvoke
| McpInvoke
| WasmExecute
| PackageInstall

fun capability_str :: "capability \<Rightarrow> string" where
  "capability_str FilesystemRead = ''filesystem.read''"
| "capability_str FilesystemWrite = ''filesystem.write''"
| "capability_str ProcessExecute = ''process.execute''"
| "capability_str NetworkConnect = ''network.connect''"
| "capability_str ProviderInvoke = ''provider.invoke''"
| "capability_str McpInvoke = ''mcp.invoke''"
| "capability_str WasmExecute = ''wasm.execute''"
| "capability_str PackageInstall = ''package.install''"

datatype operation = Read | Write | Execute | Connect | Invoke | Install

fun operation_str :: "operation \<Rightarrow> string" where
  "operation_str Read = ''read''"
| "operation_str Write = ''write''"
| "operation_str Execute = ''execute''"
| "operation_str Connect = ''connect''"
| "operation_str Invoke = ''invoke''"
| "operation_str Install = ''install''"

lemma capability_str_inject [simp]: "capability_str a = capability_str b \<longleftrightarrow> a = b"
  by (cases a; cases b) simp_all

lemma operation_str_inject [simp]: "operation_str a = operation_str b \<longleftrightarrow> a = b"
  by (cases a; cases b) simp_all

end
