(* ===== verification/Execution_Profile.thy ===== *)
theory Execution_Profile
  imports Identifiers "HOL-Library.Multiset"
begin

text \<open>
  The immutable execution profile a request is bound to:
  \<open>pandora-types/src/execution_profile.rs\<close>. SHA-256 is the \<open>sha2\<close> crate's and is the
  parameter \<open>sha\<close> of every definition that hashes; the bytes that are fed to it are modelled
  exactly, so the injectivity of the encoding is a theorem and only the absence of a collision
  is a hypothesis.
\<close>

section \<open>Data\<close>

definition EXECUTION_PROFILE_VERSION :: u16 where
  "EXECUTION_PROFILE_VERSION = 1"

definition MAX_ID_BYTES :: nat where
  "MAX_ID_BYTES = 256"

definition MAX_VERSION_BYTES :: nat where
  "MAX_VERSION_BYTES = 128"

definition MAX_WORKSPACE_IDENTITY_BYTES :: nat where
  "MAX_WORKSPACE_IDENTITY_BYTES = 4096"

datatype binding_kind =
  Executor | Harness | Gene | Provider | Model | ToolCatalog | Artifact | Configuration

fun binding_kind_str :: "binding_kind \<Rightarrow> string" where
  "binding_kind_str Executor = ''executor''"
| "binding_kind_str Harness = ''harness''"
| "binding_kind_str Gene = ''gene''"
| "binding_kind_str Provider = ''provider''"
| "binding_kind_str Model = ''model''"
| "binding_kind_str ToolCatalog = ''tool_catalog''"
| "binding_kind_str Artifact = ''artifact''"
| "binding_kind_str Configuration = ''configuration''"

text \<open>The derived \<open>Ord\<close> of a field-less enum is the order of declaration.\<close>

fun binding_kind_rank :: "binding_kind \<Rightarrow> nat" where
  "binding_kind_rank Executor = 0"
| "binding_kind_rank Harness = 1"
| "binding_kind_rank Gene = 2"
| "binding_kind_rank Provider = 3"
| "binding_kind_rank Model = 4"
| "binding_kind_rank ToolCatalog = 5"
| "binding_kind_rank Artifact = 6"
| "binding_kind_rank Configuration = 7"

lemma binding_kind_rank_inject [simp]: "binding_kind_rank a = binding_kind_rank b \<longleftrightarrow> a = b"
  by (cases a; cases b) simp_all

lemma binding_kind_str_inject [simp]: "binding_kind_str a = binding_kind_str b \<longleftrightarrow> a = b"
  by (cases a; cases b) simp_all

instantiation binding_kind :: linorder
begin

definition less_eq_binding_kind :: "binding_kind \<Rightarrow> binding_kind \<Rightarrow> bool" where
  "less_eq_binding_kind a b \<longleftrightarrow> binding_kind_rank a \<le> binding_kind_rank b"

definition less_binding_kind :: "binding_kind \<Rightarrow> binding_kind \<Rightarrow> bool" where
  "less_binding_kind a b \<longleftrightarrow> binding_kind_rank a < binding_kind_rank b"

instance
  by standard (auto simp: less_eq_binding_kind_def less_binding_kind_def)

end

datatype profile_error =
  EmptyField string
| FieldTooLong string
| InvalidField string
| InvalidDigest string
| MissingExecutor
| MultipleExecutors
| DuplicateBinding binding_kind string

record profile_binding =
  bd_kind :: binding_kind
  bd_id :: string
  bd_version :: "string option"
  bd_digest :: string

record execution_profile =
  ep_version :: u16
  ep_authority :: string
  ep_runtime_version :: string
  ep_platform_os :: string
  ep_platform_architecture :: string
  ep_policy_version :: u32
  ep_workspace_digest :: string
  ep_containment_digest :: string
  ep_bindings :: "profile_binding list"
  ep_digest :: string


section \<open>Validation\<close>

definition validate_text :: "string \<Rightarrow> string \<Rightarrow> nat \<Rightarrow> (profile_error, string) outcome" where
  "validate_text field value max_bytes =
     (if blank value \<or> CHR 0x00 \<in> set value then Inl (EmptyField field)
      else if length value > max_bytes then Inl (FieldTooLong field)
      else Inr value)"

definition identifier_byte :: "char \<Rightarrow> bool" where
  "identifier_byte c \<longleftrightarrow> is_ascii_alphanumeric c \<or> c \<in> set ''_-./:+''"

definition validate_identifier :: "string \<Rightarrow> string \<Rightarrow> nat \<Rightarrow> (profile_error, string) outcome" where
  "validate_identifier field value max_bytes =
     and_then (validate_text field value max_bytes) (\<lambda>v.
       if list_all identifier_byte v then Inr v else Inl (InvalidField field))"

definition validate_digest :: "string \<Rightarrow> string \<Rightarrow> (profile_error, string) outcome" where
  "validate_digest field value =
     (if length value = 71 \<and> starts_with value ''sha256:''
         \<and> list_all (\<lambda>c. is_ascii_digit c \<or> ((97 :: nat) \<le> of_char c \<and> of_char c \<le> (102 :: nat)))
             (drop 7 value)
      then Inr value else Inl (InvalidDigest field))"

definition new_binding ::
  "binding_kind \<Rightarrow> string \<Rightarrow> string option \<Rightarrow> string \<Rightarrow> (profile_error, profile_binding) outcome" where
  "new_binding kind i ver dig =
     and_then (validate_identifier ''binding ID'' i MAX_ID_BYTES) (\<lambda>i.
     and_then (opt_try (\<lambda>v. validate_identifier ''binding version'' v MAX_VERSION_BYTES) ver) (\<lambda>ver.
     and_then (validate_digest ''binding digest'' dig) (\<lambda>dig.
       Inr \<lparr>bd_kind = kind, bd_id = i, bd_version = ver, bd_digest = dig\<rparr>)))"


section \<open>Digests\<close>

text \<open>\<open>digest_text\<close> feeds the length as eight big-endian bytes and then the bytes.\<close>

definition digest_text :: "string \<Rightarrow> string" where
  "digest_text value = be_bytes 8 (min (length value) (2 ^ 64 - 1)) @ value"

definition digest_value :: "(string \<Rightarrow> string) \<Rightarrow> string \<Rightarrow> string \<Rightarrow> string" where
  "digest_value sha domain value = ''sha256:'' @ hex_encode (sha (digest_text domain @ digest_text value))"

definition binding_bytes :: "profile_binding \<Rightarrow> string" where
  "binding_bytes b =
     digest_text (binding_kind_str (bd_kind b)) @ digest_text (bd_id b) @
     (case bd_version b of Some v \<Rightarrow> CHR 0x01 # digest_text v | None \<Rightarrow> [CHR 0x00]) @
     digest_text (bd_digest b)"

definition profile_bytes ::
  "string \<Rightarrow> string \<Rightarrow> string \<Rightarrow> u32 \<Rightarrow> string \<Rightarrow> string \<Rightarrow> profile_binding list \<Rightarrow> string" where
  "profile_bytes rv os arch pv wd cd bs =
     digest_text ''pandora-execution-profile-v1'' @ digest_text rv @ digest_text os @
     digest_text arch @ be_bytes 4 (unat pv) @ digest_text wd @ digest_text cd @
     concat (map binding_bytes bs)"

definition profile_digest ::
  "(string \<Rightarrow> string) \<Rightarrow> string \<Rightarrow> string \<Rightarrow> string \<Rightarrow> u32 \<Rightarrow> string \<Rightarrow> string
     \<Rightarrow> profile_binding list \<Rightarrow> string" where
  "profile_digest sha rv os arch pv wd cd bs =
     ''pandora-execution-profile-v1:sha256:'' @ hex_encode (sha (profile_bytes rv os arch pv wd cd bs))"


section \<open>Construction\<close>

abbreviation binding_key :: "profile_binding \<Rightarrow> binding_kind \<times> string" where
  "binding_key b \<equiv> (bd_kind b, bd_id b)"

text \<open>The first pair of neighbours, in order, with the same kind and identifier.\<close>

fun find_duplicate :: "profile_binding list \<Rightarrow> profile_error option" where
  "find_duplicate (a # b # bs) =
     (if bd_kind a = bd_kind b \<and> bd_id a = bd_id b then Some (DuplicateBinding (bd_kind a) (bd_id a))
      else find_duplicate (b # bs))"
| "find_duplicate _ = None"

definition from_digests ::
  "(string \<Rightarrow> string) \<Rightarrow> string \<Rightarrow> string \<Rightarrow> string \<Rightarrow> u32 \<Rightarrow> string \<Rightarrow> string
     \<Rightarrow> profile_binding list \<Rightarrow> (profile_error, execution_profile) outcome" where
  "from_digests sha rv os arch pv wd cd bs =
     and_then (validate_identifier ''runtime version'' rv MAX_VERSION_BYTES) (\<lambda>rv.
     and_then (validate_identifier ''platform OS'' os MAX_ID_BYTES) (\<lambda>os.
     and_then (validate_identifier ''platform architecture'' arch MAX_ID_BYTES) (\<lambda>arch.
     and_then (validate_digest ''workspace digest'' wd) (\<lambda>wd.
     and_then (validate_digest ''containment digest'' cd) (\<lambda>cd.
       let bs = sort_key binding_key bs in
       case find_duplicate bs of
         Some e \<Rightarrow> Inl e
       | None \<Rightarrow>
           let n = length (filter (\<lambda>b. bd_kind b = Executor) bs) in
           if n = 0 then Inl MissingExecutor
           else if n = 1 then
             Inr \<lparr>ep_version = EXECUTION_PROFILE_VERSION, ep_authority = ''evidence_only'',
                  ep_runtime_version = rv, ep_platform_os = os, ep_platform_architecture = arch,
                  ep_policy_version = pv, ep_workspace_digest = wd, ep_containment_digest = cd,
                  ep_bindings = bs, ep_digest = profile_digest sha rv os arch pv wd cd bs\<rparr>
           else Inl MultipleExecutors)))))"

definition new_profile ::
  "(string \<Rightarrow> string) \<Rightarrow> string \<Rightarrow> string \<Rightarrow> string \<Rightarrow> u32 \<Rightarrow> string \<Rightarrow> string
     \<Rightarrow> profile_binding list \<Rightarrow> (profile_error, execution_profile) outcome" where
  "new_profile sha rv os arch pv workspace_identity cd bs =
     and_then (validate_text ''workspace identity'' workspace_identity MAX_WORKSPACE_IDENTITY_BYTES) (\<lambda>wi.
       from_digests sha rv os arch pv (digest_value sha ''pandora-workspace-identity-v1'' wi) cd bs)"


section \<open>The serialized form\<close>

text \<open>
  \<open>SerializedExecutionProfile\<close> after serde has decoded the JSON fields; the custom
  \<open>Deserialize\<close> re-validates every field and recomputes the digest.
\<close>

record serialized_profile =
  sp_version :: u16
  sp_authority :: string
  sp_runtime_version :: string
  sp_platform_os :: string
  sp_platform_architecture :: string
  sp_policy_version :: u32
  sp_workspace_digest :: string
  sp_containment_digest :: string
  sp_bindings :: "profile_binding list"
  sp_execution_profile_digest :: string

datatype profile_decode_error =
  UnsupportedExecutionProfile | InvalidExecutionProfileBinding | InvalidExecutionProfile
| ExecutionProfileDigestMismatch

definition serialize_profile :: "execution_profile \<Rightarrow> serialized_profile" where
  "serialize_profile p =
     \<lparr>sp_version = ep_version p, sp_authority = ep_authority p,
      sp_runtime_version = ep_runtime_version p, sp_platform_os = ep_platform_os p,
      sp_platform_architecture = ep_platform_architecture p,
      sp_policy_version = ep_policy_version p, sp_workspace_digest = ep_workspace_digest p,
      sp_containment_digest = ep_containment_digest p, sp_bindings = ep_bindings p,
      sp_execution_profile_digest = ep_digest p\<rparr>"

definition deserialize_profile ::
  "(string \<Rightarrow> string) \<Rightarrow> serialized_profile \<Rightarrow> (profile_decode_error, execution_profile) outcome" where
  "deserialize_profile sha s =
     (if sp_version s \<noteq> EXECUTION_PROFILE_VERSION \<or> sp_authority s \<noteq> ''evidence_only''
      then Inl UnsupportedExecutionProfile
      else
        and_then (map_err (\<lambda>_. InvalidExecutionProfileBinding)
          (try_map (\<lambda>b. new_binding (bd_kind b) (bd_id b) (bd_version b) (bd_digest b)) (sp_bindings s)))
          (\<lambda>bs.
        and_then (map_err (\<lambda>_. InvalidExecutionProfile)
          (from_digests sha (sp_runtime_version s) (sp_platform_os s) (sp_platform_architecture s)
             (sp_policy_version s) (sp_workspace_digest s) (sp_containment_digest s) bs))
          (\<lambda>p.
        if ep_digest p \<noteq> sp_execution_profile_digest s then Inl ExecutionProfileDigestMismatch
        else Inr p)))"


section \<open>Well-formedness\<close>

definition valid_binding :: "profile_binding \<Rightarrow> bool" where
  "valid_binding b \<longleftrightarrow> new_binding (bd_kind b) (bd_id b) (bd_version b) (bd_digest b) = Inr b"

lemma validate_text_ok: "validate_text f v m = Inr w \<Longrightarrow> w = v \<and> length v \<le> m \<and> \<not> blank v"
  by (auto simp: validate_text_def split: if_splits)

lemma validate_identifier_ok: "validate_identifier f v m = Inr w \<Longrightarrow> w = v \<and> length v \<le> m"
  by (auto simp: validate_identifier_def dest: validate_text_ok split: if_splits)

lemma validate_digest_ok: "validate_digest f v = Inr w \<Longrightarrow> w = v \<and> length v = 71"
  by (auto simp: validate_digest_def split: if_splits)

lemmas validate_ok = validate_text_ok validate_identifier_ok validate_digest_ok

lemma new_binding_ok:
  assumes "new_binding k i v d = Inr b"
  shows "b = \<lparr>bd_kind = k, bd_id = i, bd_version = v, bd_digest = d\<rparr>"
    and "length i \<le> 256" and "length d = 71" and "v = Some w \<Longrightarrow> length w \<le> 128"
  using assms
  by (cases v; auto simp: new_binding_def MAX_ID_BYTES_def MAX_VERSION_BYTES_def dest!: validate_ok)+

lemma new_binding_valid: "new_binding k i v d = Inr b \<Longrightarrow> valid_binding b"
  using new_binding_ok(1) by (fastforce simp: valid_binding_def)

lemma valid_binding_lengths:
  assumes "valid_binding b"
  shows "length (bd_id b) \<le> 256" and "length (bd_digest b) = 71"
    and "bd_version b = Some w \<Longrightarrow> length w \<le> 128"
  using assms new_binding_ok [of "bd_kind b" "bd_id b" "bd_version b" "bd_digest b" b]
  by (auto simp: valid_binding_def)


subsection \<open>Sorting and duplicates\<close>

lemma find_duplicate_sorted:
  "sorted (map binding_key bs) \<Longrightarrow> find_duplicate bs = None \<longleftrightarrow> distinct (map binding_key bs)"
proof (induction bs rule: find_duplicate.induct)
  case (1 a b bs)
  have "binding_key a \<notin> set (map binding_key (b # bs)) \<longleftrightarrow> binding_key a \<noteq> binding_key b"
  proof
    assume "binding_key a \<noteq> binding_key b"
    then have lt: "binding_key a < binding_key b" using 1(2) by (simp add: order.strict_iff_order)
    have "\<forall>x \<in> set (map binding_key (b # bs)). binding_key b \<le> x"
      using 1(2) by auto
    with lt show "binding_key a \<notin> set (map binding_key (b # bs))" by (meson not_le)
  qed auto
  with 1 show ?case by auto
qed auto

lemma sort_key_distinct_perm:
  fixes f :: "'a \<Rightarrow> 'b::linorder"
  assumes "mset xs = mset ys" and "distinct (map f xs)"
  shows "sort_key f xs = sort_key f ys"
proof -
  have "inj_on f (set xs)" using assms(2) by (simp add: distinct_map)
  moreover have "mset xs = mset (sort_key f ys)" using assms(1) by simp
  ultimately show ?thesis by (intro sort_key_inj_key_eq) auto
qed

lemma distinct_keys_perm: "mset xs = mset ys \<Longrightarrow> distinct (map f xs) \<longleftrightarrow> distinct (map f ys)"
  by (metis mset_eq_imp_distinct_iff mset_map)

lemma from_digests_ok:
  assumes "from_digests sha rv os arch pv wd cd bs = Inr p"
  shows "p = \<lparr>ep_version = EXECUTION_PROFILE_VERSION, ep_authority = ''evidence_only'',
              ep_runtime_version = rv, ep_platform_os = os, ep_platform_architecture = arch,
              ep_policy_version = pv, ep_workspace_digest = wd, ep_containment_digest = cd,
              ep_bindings = sort_key binding_key bs,
              ep_digest = profile_digest sha rv os arch pv wd cd (sort_key binding_key bs)\<rparr>"
    and "length rv \<le> 128" and "length os \<le> 256" and "length arch \<le> 256"
    and "length wd = 71" and "length cd = 71"
    and "distinct (map binding_key bs)"
    and "length (filter (\<lambda>b. bd_kind b = Executor) (sort_key binding_key bs)) = 1"
proof -
  let ?bs = "sort_key binding_key bs"
  from assms have nodup: "find_duplicate ?bs = None"
    by (auto simp: from_digests_def Let_def split: option.splits)
  have "mset ?bs = mset bs" by simp
  with nodup show "distinct (map binding_key bs)"
    using find_duplicate_sorted [of ?bs] distinct_keys_perm [of ?bs bs binding_key] by simp
  from assms nodup show "p = \<lparr>ep_version = EXECUTION_PROFILE_VERSION, ep_authority = ''evidence_only'',
      ep_runtime_version = rv, ep_platform_os = os, ep_platform_architecture = arch,
      ep_policy_version = pv, ep_workspace_digest = wd, ep_containment_digest = cd,
      ep_bindings = ?bs, ep_digest = profile_digest sha rv os arch pv wd cd ?bs\<rparr>"
    and "length rv \<le> 128" and "length os \<le> 256" and "length arch \<le> 256"
    and "length wd = 71" and "length cd = 71"
    and "length (filter (\<lambda>b. bd_kind b = Executor) ?bs) = 1"
    by (auto simp: from_digests_def Let_def MAX_ID_BYTES_def MAX_VERSION_BYTES_def
          dest!: validate_ok split: if_splits)
qed

lemma from_digests_cong_sort:
  assumes "sort_key binding_key bs = sort_key binding_key bs'"
  shows "from_digests sha rv os arch pv wd cd bs = from_digests sha rv os arch pv wd cd bs'"
  by (simp only: from_digests_def assms)


subsection \<open>The hashed encoding is injective\<close>

text \<open>A text whose length fits the eight-byte prefix.\<close>

definition fits64 :: "string \<Rightarrow> bool" where
  "fits64 s \<longleftrightarrow> length s < 2 ^ 64"

lemma digest_text_append_eq:
  assumes "fits64 a" and "fits64 b"
  shows "digest_text a @ x = digest_text b @ y \<longleftrightarrow> a = b \<and> x = y"
proof
  assume eq: "digest_text a @ x = digest_text b @ y"
  have "be_bytes 8 (length a) @ a @ x = be_bytes 8 (length b) @ b @ y"
    using eq assms by (simp add: digest_text_def min_def fits64_def)
  then have "be_bytes 8 (length a) = be_bytes 8 (length b)" and rest: "a @ x = b @ y"
    by (simp_all add: append_eq_append_conv)
  then have "length a = length b" using be_bytes_inject [of "length a" 8 "length b"] assms by (simp add: fits64_def)
  with rest show "a = b \<and> x = y" by simp
qed simp

lemma digest_text_not_Nil [simp]: "digest_text a \<noteq> []"
proof -
  have "0 < length (digest_text a)" by (simp add: digest_text_def)
  then show ?thesis by auto
qed

lemma binding_kind_str_short: "fits64 (binding_kind_str k)"
  by (cases k) (simp_all add: fits64_def)

lemma binding_bytes_append_eq:
  assumes "valid_binding a" and "valid_binding b"
  shows "binding_bytes a @ x = binding_bytes b @ y \<longleftrightarrow> a = b \<and> x = y"
proof
  assume eq: "binding_bytes a @ x = binding_bytes b @ y"
  note la = valid_binding_lengths [OF assms(1)] and lb = valid_binding_lengths [OF assms(2)]
  define ver where "ver = (\<lambda>v. case v of Some v \<Rightarrow> CHR 0x01 # digest_text v | None \<Rightarrow> [CHR 0x00])"
  have bb: "binding_bytes c = digest_text (binding_kind_str (bd_kind c)) @ digest_text (bd_id c) @
      ver (bd_version c) @ digest_text (bd_digest c)" for c
    by (simp add: binding_bytes_def ver_def)
  have short: "fits64 (bd_id a)" "fits64 (bd_id b)" "fits64 (bd_digest a)" "fits64 (bd_digest b)"
    "bd_version a = Some v \<Longrightarrow> fits64 v" "bd_version b = Some v \<Longrightarrow> fits64 v" for v
    using la(1,2) lb(1,2) la(3) [of v] lb(3) [of v] by (simp_all add: fits64_def)
  have k: "bd_kind a = bd_kind b" and i: "bd_id a = bd_id b"
    and rest: "ver (bd_version a) @ digest_text (bd_digest a) @ x
             = ver (bd_version b) @ digest_text (bd_digest b) @ y"
    using eq short(1-4) by (simp_all add: bb digest_text_append_eq binding_kind_str_short)
  have "bd_version a = bd_version b \<and> bd_digest a = bd_digest b \<and> x = y"
    using rest short
    by (cases "bd_version a"; cases "bd_version b") (simp_all add: ver_def digest_text_append_eq)
  with k i show "a = b \<and> x = y" by simp
qed simp

lemma binding_bytes_not_Nil [simp]: "binding_bytes b \<noteq> []"
  by (simp add: binding_bytes_def)

lemma bindings_bytes_inject:
  assumes "\<forall>b \<in> set as. valid_binding b" and "\<forall>b \<in> set bs. valid_binding b"
    and "concat (map binding_bytes as) = concat (map binding_bytes bs)"
  shows "as = bs"
  using assms
proof (induction as arbitrary: bs)
  case Nil
  then show ?case by (cases bs) auto
next
  case (Cons a as)
  from Cons.prems(3) have "bs \<noteq> []" by auto
  then obtain b bs' where bs: "bs = b # bs'" by (cases bs) auto
  with Cons.prems have "a = b \<and> concat (map binding_bytes as) = concat (map binding_bytes bs')"
    using binding_bytes_append_eq [of a b] by simp
  with bs Cons.IH [of bs'] Cons.prems show ?case by simp
qed

definition profile_preimage :: "execution_profile \<Rightarrow> string" where
  "profile_preimage p =
     profile_bytes (ep_runtime_version p) (ep_platform_os p) (ep_platform_architecture p)
       (ep_policy_version p) (ep_workspace_digest p) (ep_containment_digest p) (ep_bindings p)"

text \<open>A profile as the constructor leaves it.\<close>

definition wf_profile :: "(string \<Rightarrow> string) \<Rightarrow> execution_profile \<Rightarrow> bool" where
  "wf_profile sha p \<longleftrightarrow>
     (\<forall>b \<in> set (ep_bindings p). valid_binding b) \<and>
     from_digests sha (ep_runtime_version p) (ep_platform_os p) (ep_platform_architecture p)
       (ep_policy_version p) (ep_workspace_digest p) (ep_containment_digest p) (ep_bindings p) = Inr p"

lemma from_digests_wf:
  assumes "from_digests sha rv os arch pv wd cd bs = Inr p" and "\<forall>b \<in> set bs. valid_binding b"
  shows "wf_profile sha p"
proof -
  note p = from_digests_ok(1) [OF assms(1)]
  have "from_digests sha rv os arch pv wd cd (ep_bindings p) = Inr p"
    using from_digests_cong_sort [of "ep_bindings p" bs] assms(1) p by (simp add: sort_key_id_if_sorted)
  with p assms(2) show ?thesis by (simp add: wf_profile_def)
qed

lemma wf_profile_digest:
  assumes "wf_profile sha p"
  shows "ep_digest p = ''pandora-execution-profile-v1:sha256:'' @ hex_encode (sha (profile_preimage p))"
    and "ep_version p = EXECUTION_PROFILE_VERSION" and "ep_authority p = ''evidence_only''"
proof -
  from assms have ok: "from_digests sha (ep_runtime_version p) (ep_platform_os p)
      (ep_platform_architecture p) (ep_policy_version p) (ep_workspace_digest p)
      (ep_containment_digest p) (ep_bindings p) = Inr p"
    by (simp add: wf_profile_def)
  note p = from_digests_ok(1) [OF ok]
  have bs: "sort_key binding_key (ep_bindings p) = ep_bindings p"
    using arg_cong [OF p, of ep_bindings] by simp
  show "ep_digest p = ''pandora-execution-profile-v1:sha256:'' @ hex_encode (sha (profile_preimage p))"
    using arg_cong [OF p, of ep_digest] by (simp add: bs profile_digest_def profile_preimage_def)
  show "ep_version p = EXECUTION_PROFILE_VERSION" "ep_authority p = ''evidence_only''"
    using arg_cong [OF p, of ep_version] arg_cong [OF p, of ep_authority] by simp_all
qed

lemma profile_preimage_inject:
  assumes "wf_profile sha p" and "wf_profile sha q" and "profile_preimage p = profile_preimage q"
  shows "p = q"
proof -
  have lens: "fits64 (ep_runtime_version r)" "fits64 (ep_platform_os r)"
    "fits64 (ep_platform_architecture r)" "fits64 (ep_workspace_digest r)"
    "fits64 (ep_containment_digest r)" if "wf_profile sha r" for r
    using that from_digests_ok(2-6) [of sha "ep_runtime_version r" "ep_platform_os r"
        "ep_platform_architecture r" "ep_policy_version r" "ep_workspace_digest r"
        "ep_containment_digest r" "ep_bindings r" r]
    by (simp_all add: wf_profile_def fits64_def)
  note lp = lens [OF assms(1)] and lq = lens [OF assms(2)]
  have pv: "be_bytes 4 (unat a) @ x = be_bytes 4 (unat b) @ y \<longleftrightarrow> a = b \<and> x = y" for a b :: u32 and x y
  proof -
    have "unat a < 256 ^ 4" "unat b < 256 ^ 4" using unat_less_2p [of a] unat_less_2p [of b] by simp_all
    then show ?thesis
      using be_bytes_inject [of "unat a" 4 "unat b"] by (auto simp: append_eq_append_conv word_unat_eq_iff)
  qed
  have eqs: "ep_runtime_version p = ep_runtime_version q" "ep_platform_os p = ep_platform_os q"
    "ep_platform_architecture p = ep_platform_architecture q"
    "ep_policy_version p = ep_policy_version q" "ep_workspace_digest p = ep_workspace_digest q"
    "ep_containment_digest p = ep_containment_digest q"
    "concat (map binding_bytes (ep_bindings p)) = concat (map binding_bytes (ep_bindings q))"
    using assms(3) lp lq by (simp_all add: profile_preimage_def profile_bytes_def digest_text_append_eq pv)
  have "ep_bindings p = ep_bindings q"
    using bindings_bytes_inject [OF _ _ eqs(7)] assms(1,2) by (simp add: wf_profile_def)
  with eqs assms(1,2) show ?thesis by (simp add: wf_profile_def)
qed

lemma valid_bindings_decode:
  "\<forall>b \<in> set bs. valid_binding b \<Longrightarrow>
     try_map (\<lambda>b. new_binding (bd_kind b) (bd_id b) (bd_version b) (bd_digest b)) bs = Inr bs"
  by (rule try_map_ok_all [where g = "\<lambda>b. b", simplified]) (simp add: valid_binding_def)

section \<open>Properties\<close>

text \<open>The profile does not depend on the order in which its bindings are given: a successful
  construction from any permutation of the bindings yields the very same profile, digest included.\<close>

lemma from_digests_order_independent:
  assumes "from_digests sha rv os arch pv wd cd bs = Inr p" and "mset bs' = mset bs"
  shows "from_digests sha rv os arch pv wd cd bs' = Inr p"
proof -
  have "distinct (map binding_key bs)" by (rule from_digests_ok(7) [OF assms(1)])
  then have "sort_key binding_key bs = sort_key binding_key bs'"
    using assms(2) by (intro sort_key_distinct_perm) auto
  with assms(1) from_digests_cong_sort show ?thesis by metis
qed

definition demo_digest :: string where
  "demo_digest = ''sha256:'' @ replicate 64 (CHR ''0'')"

definition demo_binding :: "binding_kind \<Rightarrow> string \<Rightarrow> profile_binding" where
  "demo_binding k i = \<lparr>bd_kind = k, bd_id = i, bd_version = None, bd_digest = demo_digest\<rparr>"

definition demo_profile :: "string \<Rightarrow> execution_profile" where
  "demo_profile gene =
     \<lparr>ep_version = 1, ep_authority = ''evidence_only'', ep_runtime_version = ''3.0.3'',
      ep_platform_os = ''linux'', ep_platform_architecture = ''x86_64'', ep_policy_version = 1,
      ep_workspace_digest = demo_digest, ep_containment_digest = demo_digest,
      ep_bindings = [demo_binding Executor ''fs'', demo_binding Gene gene],
      ep_digest = profile_digest id ''3.0.3'' ''linux'' ''x86_64'' 1 demo_digest demo_digest
        [demo_binding Executor ''fs'', demo_binding Gene gene]\<rparr>"

lemma validate_digest_demo: "validate_digest f demo_digest = Inr demo_digest"
  by (simp add: validate_digest_def demo_digest_def is_ascii_digit_def list_all_iff)

lemma validate_identifier_visible:
  assumes "v \<noteq> []" and "list_all identifier_byte v" and "list_all visible v" and "length v \<le> m"
  shows "validate_identifier f v m = Inr v"
proof -
  have "visible (hd v)" "visible (last v)" using assms(1,3) by (auto simp: list_all_iff)
  then have "\<not> blank v" using assms(1) by (intro blank_visible)
  moreover have "CHR 0x00 \<notin> set v" using assms(3) by (auto simp: list_all_iff visible_def)
  ultimately show ?thesis using assms(2,4) by (simp add: validate_identifier_def validate_text_def)
qed

lemma demo_profile_built:
  assumes "gene \<in> {''read'', ''write''}"
  shows "from_digests id ''3.0.3'' ''linux'' ''x86_64'' 1 demo_digest demo_digest
           [demo_binding Gene gene, demo_binding Executor ''fs''] = Inr (demo_profile gene)"
    and "valid_binding (demo_binding Gene gene)" and "valid_binding (demo_binding Executor ''fs'')"
proof -
  have ident: "validate_identifier f v m = Inr v"
    if "v \<in> {''3.0.3'', ''linux'', ''x86_64'', ''fs'', ''read'', ''write''}" and "10 \<le> m" for f v m
    using that by (intro validate_identifier_visible)
      (auto simp: identifier_byte_def visible_def is_ascii_alphanumeric_def is_ascii_digit_def)
  show "valid_binding (demo_binding Gene gene)" "valid_binding (demo_binding Executor ''fs'')"
    using assms
    by (auto simp: valid_binding_def new_binding_def demo_binding_def ident validate_digest_demo MAX_ID_BYTES_def)
  show "from_digests id ''3.0.3'' ''linux'' ''x86_64'' 1 demo_digest demo_digest
      [demo_binding Gene gene, demo_binding Executor ''fs''] = Inr (demo_profile gene)"
    by (simp add: from_digests_def ident validate_digest_demo MAX_ID_BYTES_def MAX_VERSION_BYTES_def
        demo_profile_def demo_binding_def less_eq_binding_kind_def less_binding_kind_def
        EXECUTION_PROFILE_VERSION_def Let_def)
qed

lemma from_digests_order_independent_witness:
  "from_digests id ''3.0.3'' ''linux'' ''x86_64'' 1 demo_digest demo_digest
     [demo_binding Executor ''fs'', demo_binding Gene ''read''] = Inr (demo_profile ''read'')"
  by (rule from_digests_order_independent [OF demo_profile_built(1)]) simp_all

text \<open>The profile digest identifies the profile: between two profiles built by the constructor,
  equal digests mean equal profiles, unless SHA-256 collides on the two encoded profiles. The
  length-prefixed encoding itself loses nothing.\<close>

lemma profile_digest_identifies:
  assumes "from_digests sha rv os arch pv wd cd bs = Inr p" and "\<forall>b \<in> set bs. valid_binding b"
    and "from_digests sha rv' os' arch' pv' wd' cd' bs' = Inr q" and "\<forall>b \<in> set bs'. valid_binding b"
    and no_collision: "profile_preimage p \<noteq> profile_preimage q \<Longrightarrow>
      sha (profile_preimage p) \<noteq> sha (profile_preimage q)"
  shows "ep_digest p = ep_digest q \<longleftrightarrow> p = q"
proof -
  have p: "wf_profile sha p" and q: "wf_profile sha q" using assms(1-4) from_digests_wf by blast+
  have "profile_preimage p = profile_preimage q" if "ep_digest p = ep_digest q"
    using that no_collision by (auto simp: wf_profile_digest(1) [OF p] wf_profile_digest(1) [OF q])
  then show ?thesis using profile_preimage_inject [OF p q] by blast
qed

lemma profile_digest_identifies_witness:
  "ep_digest (demo_profile ''read'') \<noteq> ep_digest (demo_profile ''write'')"
proof -
  have "ep_digest (demo_profile ''read'') = ep_digest (demo_profile ''write'')
      \<longleftrightarrow> demo_profile ''read'' = demo_profile ''write''"
    by (rule profile_digest_identifies [OF demo_profile_built(1) _ demo_profile_built(1)])
       (simp_all add: demo_profile_built(2) demo_profile_built(3) [of "''read''"])
  then show ?thesis by (simp add: demo_profile_def demo_binding_def)
qed

text \<open>What the runtime serializes it reads back: deserializing the serialized form of a
  constructed profile passes every check, the digest comparison included, and returns that profile.\<close>

lemma deserialize_serialize_profile:
  assumes "from_digests sha rv os arch pv wd cd bs = Inr p" and "\<forall>b \<in> set bs. valid_binding b"
  shows "deserialize_profile sha (serialize_profile p) = Inr p"
proof -
  have p: "wf_profile sha p" using from_digests_wf assms by blast
  then show ?thesis
    using wf_profile_digest(2,3) [OF p]
    by (simp add: deserialize_profile_def serialize_profile_def wf_profile_def valid_bindings_decode)
qed

lemma deserialize_serialize_profile_witness:
  "deserialize_profile id (serialize_profile (demo_profile ''read'')) = Inr (demo_profile ''read'')"
  by (rule deserialize_serialize_profile [OF demo_profile_built(1)])
     (simp_all add: demo_profile_built(2) demo_profile_built(3) [of "''read''"])

end
