(* ===== verification/Effects.thy ===== *)
theory Effects
  imports Execution_Profile
begin

text \<open>
  Effect requests, permits and receipts: \<open>pandora-types/src/effect.rs\<close>. SHA-256 (\<open>sha\<close>)
  and \<open>serde_json::to_string\<close> on the canonical request (\<open>js\<close>) belong to third-party crates
  and are parameters; the canonical request that is serialized and hashed is modelled field
  by field.
\<close>

section \<open>Requests\<close>

definition REQUEST_PROTOCOL_VERSION :: u16 where
  "REQUEST_PROTOCOL_VERSION = 2"

datatype request_error = InvalidId id_error | EmptyField string

type_synonym timestamp = u64

text \<open>A \<open>SecretReference\<close> is a newtype over a non-blank \<open>String\<close>.\<close>

type_synonym secret_reference = string

datatype effect_target =
  Path string
| Process string
| Network string u16
| ProviderTarget string secret_reference
| Mcp string string
| Wasm string string
| Package string string

datatype resource_scope =
  NoScope
| Workspace string
| ScopePath string
| Host string

record operation_request =
  rq_protocol_version :: u16
  rq_execution_id :: execution_id
  rq_session_id :: session_id
  rq_principal_id :: principal_id
  rq_execution_profile :: execution_profile
  rq_gene_id :: gene_id
  rq_artifact_id :: "artifact_id option"
  rq_capability :: capability
  rq_operation :: operation
  rq_target :: effect_target
  rq_resource_scope :: resource_scope
  rq_payload_digest :: "request_digest option"
  rq_request_digest :: request_digest

definition validate_field :: "string \<Rightarrow> string \<Rightarrow> (request_error, unit) outcome" where
  "validate_field field value = (if blank value then Inl (EmptyField field) else Inr ())"

definition new_secret_reference :: "string \<Rightarrow> (request_error, secret_reference) outcome" where
  "new_secret_reference value =
     and_then (validate_field ''secret reference'' value) (\<lambda>_. Inr value)"

fun validate_target :: "effect_target \<Rightarrow> (request_error, unit) outcome" where
  "validate_target (Path path) = validate_field ''path'' path"
| "validate_target (Process program) = validate_field ''program'' program"
| "validate_target (Network host port) = validate_field ''host'' host"
| "validate_target (ProviderTarget provider credential) =
     and_then (validate_field ''provider'' provider) (\<lambda>_.
       validate_field ''credential reference'' credential)"
| "validate_target (Mcp server tool) =
     and_then (validate_field ''MCP server'' server) (\<lambda>_. validate_field ''MCP tool'' tool)"
| "validate_target (Wasm package_id version) =
     and_then (validate_field ''Wasm package ID'' package_id) (\<lambda>_.
       validate_field ''Wasm package version'' version)"
| "validate_target (Package package_id version) =
     and_then (validate_field ''package ID'' package_id) (\<lambda>_.
       validate_field ''package version'' version)"

fun validate_scope :: "resource_scope \<Rightarrow> (request_error, unit) outcome" where
  "validate_scope NoScope = Inr ()"
| "validate_scope (Workspace workspace_id) = validate_field ''workspace ID'' workspace_id"
| "validate_scope (ScopePath root) = validate_field ''scope root'' root"
| "validate_scope (Host host) = validate_field ''scope host'' host"


section \<open>The canonical form\<close>

record canonical_target =
  ct_kind :: string
  ct_value :: string
  ct_port :: "u16 option"
  ct_secondary :: "string option"

record canonical_scope =
  cs_kind :: string
  cs_value :: "string option"

fun canonical_target_of :: "effect_target \<Rightarrow> canonical_target" where
  "canonical_target_of (Path path) =
     \<lparr>ct_kind = ''path'', ct_value = path, ct_port = None, ct_secondary = None\<rparr>"
| "canonical_target_of (Process program) =
     \<lparr>ct_kind = ''process'', ct_value = program, ct_port = None, ct_secondary = None\<rparr>"
| "canonical_target_of (Network host port) =
     \<lparr>ct_kind = ''network'', ct_value = host, ct_port = Some port, ct_secondary = None\<rparr>"
| "canonical_target_of (ProviderTarget provider credential) =
     \<lparr>ct_kind = ''provider'', ct_value = provider, ct_port = None, ct_secondary = Some credential\<rparr>"
| "canonical_target_of (Mcp server tool) =
     \<lparr>ct_kind = ''mcp'', ct_value = server, ct_port = None, ct_secondary = Some tool\<rparr>"
| "canonical_target_of (Wasm package_id version) =
     \<lparr>ct_kind = ''wasm'', ct_value = package_id, ct_port = None, ct_secondary = Some version\<rparr>"
| "canonical_target_of (Package package_id version) =
     \<lparr>ct_kind = ''package'', ct_value = package_id, ct_port = None, ct_secondary = Some version\<rparr>"

fun canonical_scope_of :: "resource_scope \<Rightarrow> canonical_scope" where
  "canonical_scope_of NoScope = \<lparr>cs_kind = ''none'', cs_value = None\<rparr>"
| "canonical_scope_of (Workspace workspace_id) = \<lparr>cs_kind = ''workspace'', cs_value = Some workspace_id\<rparr>"
| "canonical_scope_of (ScopePath root) = \<lparr>cs_kind = ''path'', cs_value = Some root\<rparr>"
| "canonical_scope_of (Host host) = \<lparr>cs_kind = ''host'', cs_value = Some host\<rparr>"

record canonical_request =
  cr_protocol_version :: u16
  cr_execution_id :: string
  cr_session_id :: string
  cr_principal_id :: string
  cr_execution_profile_digest :: string
  cr_gene_id :: string
  cr_artifact_id :: "string option"
  cr_capability :: string
  cr_operation :: string
  cr_target :: canonical_target
  cr_resource_scope :: canonical_scope
  cr_payload_digest :: "string option"

definition canonical_of :: "operation_request \<Rightarrow> canonical_request" where
  "canonical_of r =
     \<lparr>cr_protocol_version = rq_protocol_version r,
      cr_execution_id = rq_execution_id r,
      cr_session_id = rq_session_id r,
      cr_principal_id = rq_principal_id r,
      cr_execution_profile_digest = ep_digest (rq_execution_profile r),
      cr_gene_id = rq_gene_id r,
      cr_artifact_id = rq_artifact_id r,
      cr_capability = capability_str (rq_capability r),
      cr_operation = operation_str (rq_operation r),
      cr_target = canonical_target_of (rq_target r),
      cr_resource_scope = canonical_scope_of (rq_resource_scope r),
      cr_payload_digest = rq_payload_digest r\<rparr>"

definition calculate_digest ::
  "(string \<Rightarrow> string) \<Rightarrow> (canonical_request \<Rightarrow> string) \<Rightarrow> operation_request
     \<Rightarrow> (request_error, request_digest) outcome" where
  "calculate_digest sha js r =
     map_err InvalidId
       (new_id (''pandora-request-v2:sha256:'' @ hex_encode (sha (js (canonical_of r)))))"

definition digest_bytes ::
  "(string \<Rightarrow> string) \<Rightarrow> string \<Rightarrow> string \<Rightarrow> (request_error, request_digest) outcome" where
  "digest_bytes sha prefix bytes =
     map_err InvalidId (new_id (prefix @ '':sha256:'' @ hex_encode (sha bytes)))"

definition new_request ::
  "(string \<Rightarrow> string) \<Rightarrow> (canonical_request \<Rightarrow> string)
     \<Rightarrow> execution_id \<Rightarrow> session_id \<Rightarrow> principal_id \<Rightarrow> execution_profile \<Rightarrow> gene_id
     \<Rightarrow> artifact_id option \<Rightarrow> capability \<Rightarrow> operation \<Rightarrow> effect_target \<Rightarrow> resource_scope
     \<Rightarrow> (request_error, operation_request) outcome" where
  "new_request sha js eid sid pid prof gid aid cap oper target scope =
     and_then (validate_target target) (\<lambda>_.
     and_then (validate_scope scope) (\<lambda>_.
     and_then (map_err InvalidId (new_id ''pending'')) (\<lambda>pending.
       let r = \<lparr>rq_protocol_version = REQUEST_PROTOCOL_VERSION, rq_execution_id = eid,
                rq_session_id = sid, rq_principal_id = pid, rq_execution_profile = prof,
                rq_gene_id = gid, rq_artifact_id = aid, rq_capability = cap,
                rq_operation = oper, rq_target = target, rq_resource_scope = scope,
                rq_payload_digest = None, rq_request_digest = pending\<rparr> in
       and_then (calculate_digest sha js r) (\<lambda>d. Inr (r\<lparr>rq_request_digest := d\<rparr>)))))"

definition with_payload_digest ::
  "(string \<Rightarrow> string) \<Rightarrow> (canonical_request \<Rightarrow> string) \<Rightarrow> operation_request \<Rightarrow> string
     \<Rightarrow> (request_error, operation_request) outcome" where
  "with_payload_digest sha js r payload =
     and_then (digest_bytes sha ''pandora-payload-v1'' payload) (\<lambda>pd.
       let r' = r\<lparr>rq_payload_digest := Some pd\<rparr> in
       and_then (calculate_digest sha js r') (\<lambda>d. Inr (r'\<lparr>rq_request_digest := d\<rparr>)))"

definition payload_digest_matches :: "(string \<Rightarrow> string) \<Rightarrow> operation_request \<Rightarrow> string \<Rightarrow> bool" where
  "payload_digest_matches sha r payload =
     (case (rq_payload_digest r, ok (digest_bytes sha ''pandora-payload-v1'' payload)) of
        (Some expected, Some actual) \<Rightarrow> expected = actual
      | _ \<Rightarrow> False)"


section \<open>Permits and receipts\<close>

record effect_permit =
  pm_permit_id :: permit_id
  pm_request_digest :: request_digest
  pm_execution_id :: execution_id
  pm_session_id :: session_id
  pm_principal_id :: principal_id
  pm_policy_version :: u32
  pm_nonce :: u64
  pm_issued_at :: timestamp
  pm_expires_at :: timestamp

definition issue ::
  "permit_id \<Rightarrow> operation_request \<Rightarrow> u32 \<Rightarrow> u64 \<Rightarrow> timestamp \<Rightarrow> timestamp \<Rightarrow> effect_permit" where
  "issue pid r policy_version nonce issued_at expires_at =
     \<lparr>pm_permit_id = pid, pm_request_digest = rq_request_digest r,
      pm_execution_id = rq_execution_id r, pm_session_id = rq_session_id r,
      pm_principal_id = rq_principal_id r, pm_policy_version = policy_version,
      pm_nonce = nonce, pm_issued_at = issued_at, pm_expires_at = expires_at\<rparr>"

datatype effect_outcome = Succeeded | Failed string | OutcomeDenied string

record effect_receipt =
  rc_receipt_id :: receipt_id
  rc_permit_id :: permit_id
  rc_request_digest :: request_digest
  rc_completed_at :: timestamp
  rc_outcome :: effect_outcome


section \<open>Facts about the canonical form\<close>

lemma canonical_target_inject [simp]: "canonical_target_of a = canonical_target_of b \<longleftrightarrow> a = b"
  by (cases a; cases b) auto

lemma canonical_scope_inject [simp]: "canonical_scope_of a = canonical_scope_of b \<longleftrightarrow> a = b"
  by (cases a; cases b) auto

text \<open>Two requests that agree on everything the digest is meant to bind.\<close>

definition same_effect :: "operation_request \<Rightarrow> operation_request \<Rightarrow> bool" where
  "same_effect a b \<longleftrightarrow>
     rq_protocol_version a = rq_protocol_version b
   \<and> rq_execution_id a = rq_execution_id b
   \<and> rq_session_id a = rq_session_id b
   \<and> rq_principal_id a = rq_principal_id b
   \<and> ep_digest (rq_execution_profile a) = ep_digest (rq_execution_profile b)
   \<and> rq_gene_id a = rq_gene_id b
   \<and> rq_artifact_id a = rq_artifact_id b
   \<and> rq_capability a = rq_capability b
   \<and> rq_operation a = rq_operation b
   \<and> rq_target a = rq_target b
   \<and> rq_resource_scope a = rq_resource_scope b
   \<and> rq_payload_digest a = rq_payload_digest b"

lemma canonical_of_eq_iff: "canonical_of a = canonical_of b \<longleftrightarrow> same_effect a b"
  by (auto simp: canonical_of_def same_effect_def)

lemma same_effect_refl [simp]: "same_effect a a"
  by (simp add: same_effect_def)

text \<open>A request whose digest field is the digest of its canonical form.\<close>

definition sealed :: "(string \<Rightarrow> string) \<Rightarrow> (canonical_request \<Rightarrow> string) \<Rightarrow> operation_request \<Rightarrow> bool" where
  "sealed sha js r \<longleftrightarrow> calculate_digest sha js r = Inr (rq_request_digest r)"

lemma canonical_of_digest_update [simp]: "canonical_of (r\<lparr>rq_request_digest := d\<rparr>) = canonical_of r"
  by (simp add: canonical_of_def)

lemma calculate_digest_digest_update [simp]:
  "calculate_digest sha js (r\<lparr>rq_request_digest := d\<rparr>) = calculate_digest sha js r"
  by (simp add: calculate_digest_def)

lemma new_request_sealed:
  "new_request sha js eid sid pid prof gid aid cap oper target scope = Inr r \<Longrightarrow> sealed sha js r"
  by (auto simp: new_request_def Let_def sealed_def calculate_digest_def canonical_of_def)

lemma with_payload_sealed:
  "with_payload_digest sha js r payload = Inr r' \<Longrightarrow> sealed sha js r'"
  by (auto simp: with_payload_digest_def Let_def sealed_def)

lemma sealed_digest:
  "sealed sha js r \<Longrightarrow>
     rq_request_digest r = ''pandora-request-v2:sha256:'' @ hex_encode (sha (js (canonical_of r)))"
  by (auto simp: sealed_def calculate_digest_def)

lemma digest_bytes_ok:
  "digest_bytes sha prefix bytes = Inr d \<Longrightarrow> d = prefix @ '':sha256:'' @ hex_encode (sha bytes)"
  by (simp add: digest_bytes_def)

text \<open>With 32-byte digests the formatted digest is always a valid identifier.\<close>

lemma hex_id_valid:
  assumes "length bs = 32" and "p \<noteq> []" and "visible (hd p)" and "length p \<le> 192"
  shows "valid_id (p @ hex_encode bs)"
proof -
  have "bs \<noteq> []" using assms(1) by auto
  then have "hex_encode bs \<noteq> []" by (cases bs) (auto simp: hex_byte_def)
  then have "last (p @ hex_encode bs) = last (hex_encode bs)" by simp
  then show ?thesis using assms \<open>bs \<noteq> []\<close> by (intro valid_id_visible) simp_all
qed

lemma calculate_digest_total:
  assumes "\<And>x. length (sha x) = 32"
  shows "calculate_digest sha js r
       = Inr (''pandora-request-v2:sha256:'' @ hex_encode (sha (js (canonical_of r))))"
  using hex_id_valid [of "sha (js (canonical_of r))" "''pandora-request-v2:sha256:''"] assms
  by (simp add: calculate_digest_def visible_def)

lemma digest_bytes_total:
  assumes "\<And>x. length (sha x) = 32" and "p \<noteq> []" and "visible (hd p)" and "length p \<le> 100"
  shows "digest_bytes sha p bytes = Inr (p @ '':sha256:'' @ hex_encode (sha bytes))"
  using hex_id_valid [of "sha bytes" "p @ '':sha256:''"] assms
  by (simp add: digest_bytes_def)

section \<open>Properties\<close>

text \<open>C33: the request digest binds the effect: when the JSON serializer and SHA-256 do not
  identify the two canonical requests, two requests made by the constructors have the same digest
  exactly when they agree on every bound field: identities, profile digest, gene, artifact,
  capability, operation, target, scope and payload digest.\<close>

theorem request_digest_binds_effect:
  assumes "sealed sha js a" and "sealed sha js b"
    and json: "js (canonical_of a) = js (canonical_of b) \<Longrightarrow> canonical_of a = canonical_of b"
    and hash: "sha (js (canonical_of a)) = sha (js (canonical_of b)) \<Longrightarrow>
      js (canonical_of a) = js (canonical_of b)"
  shows "rq_request_digest a = rq_request_digest b \<longleftrightarrow> same_effect a b"
proof -
  have "rq_request_digest a = rq_request_digest b
      \<longleftrightarrow> sha (js (canonical_of a)) = sha (js (canonical_of b))"
    by (simp add: sealed_digest [OF assms(1)] sealed_digest [OF assms(2)])
  also have "\<dots> \<longleftrightarrow> canonical_of a = canonical_of b" using json hash by auto
  finally show ?thesis by (simp add: canonical_of_eq_iff)
qed

definition demo_sha :: "string \<Rightarrow> string" where
  "demo_sha s = take 32 (s @ replicate 32 (CHR 0x00))"

definition demo_json :: "canonical_request \<Rightarrow> string" where
  "demo_json c = ct_value (cr_target c) @ (case cr_payload_digest c of None \<Rightarrow> [] | Some d \<Rightarrow> d)"

definition demo_request :: "string \<Rightarrow> operation_request" where
  "demo_request path =
     (let r = \<lparr>rq_protocol_version = 2, rq_execution_id = ''execution-1'', rq_session_id = ''session-1'',
               rq_principal_id = ''principal-1'', rq_execution_profile = demo_profile ''read'',
               rq_gene_id = ''workspace.read'', rq_artifact_id = None, rq_capability = FilesystemRead,
               rq_operation = Read, rq_target = Path path, rq_resource_scope = Workspace ''workspace-1'',
               rq_payload_digest = None, rq_request_digest = []\<rparr> in
      r\<lparr>rq_request_digest := ''pandora-request-v2:sha256:'' @ hex_encode (demo_sha path)\<rparr>)"

lemma length_demo_sha [simp]: "length (demo_sha s) = 32"
  by (simp add: demo_sha_def)

lemma demo_request_sealed: "sealed demo_sha demo_json (demo_request path)"
  unfolding sealed_def calculate_digest_total [OF length_demo_sha]
  by (simp add: demo_request_def demo_json_def canonical_of_def Let_def)

theorem request_digest_binds_effect_witness:
  "rq_request_digest (demo_request ''a'') \<noteq> rq_request_digest (demo_request ''b'')"
proof -
  have "rq_request_digest (demo_request ''a'') = rq_request_digest (demo_request ''b'')
      \<longleftrightarrow> same_effect (demo_request ''a'') (demo_request ''b'')"
    by (rule request_digest_binds_effect [OF demo_request_sealed demo_request_sealed])
       (simp_all add: canonical_of_def demo_request_def demo_json_def demo_sha_def Let_def)
  then show ?thesis by (simp add: same_effect_def demo_request_def Let_def)
qed

text \<open>A payload digest accepts exactly the payload it was taken from: with 32-byte digests and
  no collision between the two payloads, attaching a payload never fails and the request then
  matches a payload if and only if it is the same bytes.\<close>

lemma payload_digest_exact:
  assumes "\<And>x. length (sha x) = 32"
    and no_collision: "sha payload = sha other \<Longrightarrow> payload = other"
  shows "\<exists>r'. with_payload_digest sha js r payload = Inr r' \<and> sealed sha js r'
           \<and> (payload_digest_matches sha r' other \<longleftrightarrow> other = payload)"
proof -
  have db: "digest_bytes sha ''pandora-payload-v1'' bytes
      = Inr (''pandora-payload-v1:sha256:'' @ hex_encode (sha bytes))" for bytes
    using digest_bytes_total [OF assms(1), where p = "''pandora-payload-v1''" and bytes = bytes]
    by (simp add: visible_def)
  obtain r' where r': "with_payload_digest sha js r payload = Inr r'"
    by (simp add: with_payload_digest_def db Let_def calculate_digest_total [OF assms(1)])
  then have "rq_payload_digest r' = Some (''pandora-payload-v1:sha256:'' @ hex_encode (sha payload))"
    by (auto simp: with_payload_digest_def db Let_def)
  then have "payload_digest_matches sha r' other \<longleftrightarrow> sha payload = sha other"
    by (simp add: payload_digest_matches_def db)
  with r' with_payload_sealed [OF r'] no_collision show ?thesis by auto
qed

theorem payload_digest_exact_witness:
  "\<exists>r'. with_payload_digest demo_sha demo_json (demo_request ''a'') ''first patch'' = Inr r'
      \<and> sealed demo_sha demo_json r'
      \<and> (payload_digest_matches demo_sha r' ''second patch'' \<longleftrightarrow> ''second patch'' = ''first patch'')"
  by (rule payload_digest_exact) (simp_all add: demo_sha_def)

end
