(* ===== verification/Governance.thy ===== *)
theory Governance
  imports Effects
begin

text \<open>
  Policy and constitutional decisions: \<open>pandora-types/src/governance.rs\<close> and
  \<open>pandora-runtime/src/parliament.rs\<close>. A \<open>BTreeSet\<close> is a \<open>set\<close>: the code only builds,
  compares and queries these sets. The locale \<open>policy_authority\<close> is the contract the reference
  monitor relies on; Parliament is its interpretation.
\<close>

section \<open>Policy\<close>

datatype governance_mode = Autonomous | Supervised | ReadOnly

definition parse_mode :: "string \<Rightarrow> governance_mode option" where
  "parse_mode value =
     (let v = to_ascii_lowercase (trim value) in
      if v \<in> {''autonomous'', ''auto'', ''2'', ''full''} then Some Autonomous
      else if v \<in> {''supervised'', ''super'', ''1'', ''safe'', ''default''} then Some Supervised
      else if v \<in> {''read-only'', ''readonly'', ''ro'', ''0'', ''read''} then Some ReadOnly
      else None)"

fun mode_str :: "governance_mode \<Rightarrow> string" where
  "mode_str Autonomous = ''autonomous''"
| "mode_str Supervised = ''supervised''"
| "mode_str ReadOnly = ''read-only''"

fun level :: "governance_mode \<Rightarrow> u8" where
  "level ReadOnly = 0"
| "level Supervised = 1"
| "level Autonomous = 2"

record policy_context =
  pc_policy_version :: u32
  pc_allowed_capabilities :: "capability set"
  pc_approval_operations :: "operation set"

definition new_policy :: "u32 \<Rightarrow> capability list \<Rightarrow> operation list \<Rightarrow> policy_context" where
  "new_policy v caps ops =
     \<lparr>pc_policy_version = v, pc_allowed_capabilities = set caps, pc_approval_operations = set ops\<rparr>"

definition read_only_workspace :: policy_context where
  "read_only_workspace =
     new_policy 1 [FilesystemRead, ProviderInvoke] [Write, Execute, Connect, Install]"

definition supervised_workspace :: policy_context where
  "supervised_workspace =
     new_policy 1
       [FilesystemRead, FilesystemWrite, ProcessExecute, NetworkConnect, ProviderInvoke,
        WasmExecute, McpInvoke]
       [Write, Execute, Connect]"

definition autonomous_workspace :: policy_context where
  "autonomous_workspace =
     new_policy 1
       [FilesystemRead, FilesystemWrite, ProcessExecute, NetworkConnect, ProviderInvoke,
        WasmExecute, McpInvoke]
       []"

fun for_mode :: "governance_mode \<Rightarrow> policy_context" where
  "for_mode ReadOnly = read_only_workspace"
| "for_mode Supervised = supervised_workspace"
| "for_mode Autonomous = autonomous_workspace"

definition allows :: "policy_context \<Rightarrow> capability \<Rightarrow> bool" where
  "allows ctx c \<longleftrightarrow> c \<in> pc_allowed_capabilities ctx"

definition requires_approval :: "policy_context \<Rightarrow> operation \<Rightarrow> bool" where
  "requires_approval ctx oper \<longleftrightarrow> oper \<in> pc_approval_operations ctx"

definition mode_of :: "policy_context \<Rightarrow> governance_mode" where
  "mode_of ctx =
     (if pc_approval_operations ctx = {} then Autonomous
      else if allows ctx FilesystemWrite then Supervised
      else ReadOnly)"

definition default_policy :: policy_context where
  "default_policy = new_policy 1 [] []"


section \<open>Decisions\<close>

datatype parliament_decision =
  Allow (pd_request_digest: request_digest) (pd_policy_version: u32) (pd_reason: string)
| Deny (pd_request_digest: request_digest) (pd_policy_version: u32) (pd_reason: string)
| RequireApproval (pd_request_digest: request_digest) (pd_policy_version: u32) (pd_reason: string)

definition decision_allow :: "operation_request \<Rightarrow> policy_context \<Rightarrow> string \<Rightarrow> parliament_decision" where
  "decision_allow r ctx reason = Allow (rq_request_digest r) (pc_policy_version ctx) reason"

definition decision_deny :: "operation_request \<Rightarrow> policy_context \<Rightarrow> string \<Rightarrow> parliament_decision" where
  "decision_deny r ctx reason = Deny (rq_request_digest r) (pc_policy_version ctx) reason"

definition decision_require_approval ::
  "operation_request \<Rightarrow> policy_context \<Rightarrow> string \<Rightarrow> parliament_decision" where
  "decision_require_approval r ctx reason =
     RequireApproval (rq_request_digest r) (pc_policy_version ctx) reason"

fun decision_requires_approval :: "parliament_decision \<Rightarrow> bool" where
  "decision_requires_approval (RequireApproval _ _ _) = True"
| "decision_requires_approval _ = False"

text \<open>A \<open>Parliament\<close> is its \<open>policy_version\<close>.\<close>

record parliament =
  pl_policy_version :: u32

definition decide :: "parliament \<Rightarrow> operation_request \<Rightarrow> policy_context \<Rightarrow> parliament_decision" where
  "decide p r ctx =
     (if pc_policy_version ctx \<noteq> pl_policy_version p then
        decision_deny r ctx ''policy version does not match the active Parliament''
      else if \<not> allows ctx (rq_capability r) then
        decision_deny r ctx ''capability is not enabled by policy''
      else if requires_approval ctx (rq_operation r) then
        decision_require_approval r ctx ''operation requires explicit approval''
      else decision_allow r ctx ''capability and operation are allowed'')"

lemmas decision_defs = decision_allow_def decision_deny_def decision_require_approval_def
lemmas workspace_defs =
  read_only_workspace_def supervised_workspace_def autonomous_workspace_def new_policy_def
lemmas policy_query_defs = allows_def requires_approval_def mode_of_def


section \<open>The contract of a deciding authority\<close>

text \<open>
  What a client of the decision procedure may rely on: the decision names the request's digest
  and the context's policy version, and its constructor is determined by the policy.
\<close>

locale policy_authority =
  fixes adjudicate :: "'p \<Rightarrow> operation_request \<Rightarrow> policy_context \<Rightarrow> parliament_decision"
    and version :: "'p \<Rightarrow> u32"
  assumes decision_digest: "pd_request_digest (adjudicate p r ctx) = rq_request_digest r"
    and decision_version: "pd_policy_version (adjudicate p r ctx) = pc_policy_version ctx"
    and allow_iff: "(\<exists>d v x. adjudicate p r ctx = Allow d v x) \<longleftrightarrow>
      pc_policy_version ctx = version p \<and> allows ctx (rq_capability r)
        \<and> \<not> requires_approval ctx (rq_operation r)"
    and approval_iff: "decision_requires_approval (adjudicate p r ctx) \<longleftrightarrow>
      pc_policy_version ctx = version p \<and> allows ctx (rq_capability r)
        \<and> requires_approval ctx (rq_operation r)"
begin

lemma denied_iff:
  "(\<exists>d v x. adjudicate p r ctx = Deny d v x) \<longleftrightarrow>
     pc_policy_version ctx \<noteq> version p \<or> \<not> allows ctx (rq_capability r)"
  using allow_iff [of p r ctx] approval_iff [of p r ctx]
  by (cases "adjudicate p r ctx") auto

lemma allow_or_approval_enabled:
  "\<not> (\<exists>d v x. adjudicate p r ctx = Deny d v x) \<Longrightarrow> allows ctx (rq_capability r)"
  using denied_iff by blast

end

interpretation parliament_authority: policy_authority decide pl_policy_version
  by unfold_locales (auto simp: decide_def decision_defs)

lemma parse_mode_str [simp]: "parse_mode (mode_str m) = Some m"
proof -
  have "trim (mode_str m) = mode_str m"
    by (cases m; rule trim_visible_id) (simp_all add: visible_def)
  moreover have "to_ascii_lowercase (mode_str m) = mode_str m"
    by (cases m) (simp_all add: to_ascii_lowercase_def ascii_lower_def)
  ultimately show ?thesis by (cases m) (simp_all add: parse_mode_def)
qed

lemma mode_of_for_mode [simp]: "mode_of (for_mode m) = m"
  by (cases m) (auto simp: policy_query_defs workspace_defs)

lemma for_mode_version [simp]: "pc_policy_version (for_mode m) = 1"
  by (cases m) (simp_all add: workspace_defs)

lemma no_mode_installs: "PackageInstall \<notin> pc_allowed_capabilities (for_mode m)"
  by (cases m) (simp_all add: workspace_defs)

lemma modes_ordered:
  assumes "level a \<le> level b"
  shows "pc_allowed_capabilities (for_mode a) \<subseteq> pc_allowed_capabilities (for_mode b)"
    and "pc_approval_operations (for_mode b) \<subseteq> pc_approval_operations (for_mode a)"
proof -
  have "pc_allowed_capabilities (for_mode a) \<subseteq> pc_allowed_capabilities (for_mode b)
      \<and> pc_approval_operations (for_mode b) \<subseteq> pc_approval_operations (for_mode a)"
    using assms by (cases a; cases b) (simp_all add: workspace_defs word_le_nat_alt)
  then show "pc_allowed_capabilities (for_mode a) \<subseteq> pc_allowed_capabilities (for_mode b)"
    "pc_approval_operations (for_mode b) \<subseteq> pc_approval_operations (for_mode a)"
    by blast+
qed

section \<open>Properties\<close>

text \<open>Parliament decides exactly by the policy: a request is allowed when the versions agree,
  its capability is enabled and its operation needs no approval; it waits for approval when only
  the last fails; otherwise it is denied. Every decision carries the request's digest and the
  policy's version.\<close>

lemma parliament_decides_by_policy:
  "((\<exists>d v x. decide p r ctx = Allow d v x) \<longleftrightarrow>
      pc_policy_version ctx = pl_policy_version p \<and> allows ctx (rq_capability r)
        \<and> \<not> requires_approval ctx (rq_operation r))
   \<and> ((\<exists>d v x. decide p r ctx = RequireApproval d v x) \<longleftrightarrow>
      pc_policy_version ctx = pl_policy_version p \<and> allows ctx (rq_capability r)
        \<and> requires_approval ctx (rq_operation r))
   \<and> ((\<exists>d v x. decide p r ctx = Deny d v x) \<longleftrightarrow>
      \<not> (pc_policy_version ctx = pl_policy_version p \<and> allows ctx (rq_capability r)))
   \<and> pd_request_digest (decide p r ctx) = rq_request_digest r
   \<and> pd_policy_version (decide p r ctx) = pc_policy_version ctx"
proof -
  have "(\<exists>d v x. decide p r ctx = RequireApproval d v x) \<longleftrightarrow> decision_requires_approval (decide p r ctx)"
    by (cases "decide p r ctx") auto
  then show ?thesis
    using parliament_authority.allow_iff parliament_authority.approval_iff
      parliament_authority.denied_iff parliament_authority.decision_digest
      parliament_authority.decision_version
    by (simp only: simp_thms de_Morgan_conj)
qed

text \<open>Governance modes are ordered by authority: what a mode allows outright, every mode of a
  higher level allows outright; what a mode does not deny, no higher mode denies; and no mode lets
  a request with the package-install capability through.\<close>

lemma governance_modes_monotone:
  assumes "level a \<le> level b"
  shows "((\<exists>d v x. decide \<lparr>pl_policy_version = 1\<rparr> r (for_mode a) = Allow d v x) \<longrightarrow>
           (\<exists>d v x. decide \<lparr>pl_policy_version = 1\<rparr> r (for_mode b) = Allow d v x))
       \<and> ((\<exists>d v x. decide \<lparr>pl_policy_version = 1\<rparr> r (for_mode b) = Deny d v x) \<longrightarrow>
           (\<exists>d v x. decide \<lparr>pl_policy_version = 1\<rparr> r (for_mode a) = Deny d v x))
       \<and> (rq_capability r = PackageInstall \<longrightarrow>
           (\<exists>d v x. decide \<lparr>pl_policy_version = 1\<rparr> r (for_mode b) = Deny d v x))"
  unfolding parliament_authority.allow_iff parliament_authority.denied_iff
  using modes_ordered [OF assms] for_mode_version [of a] for_mode_version [of b] no_mode_installs [of b]
  by (auto simp: allows_def requires_approval_def)

lemma governance_modes_monotone_witness:
  "(\<exists>d v x. decide \<lparr>pl_policy_version = 1\<rparr> (demo_request ''a'') (for_mode Autonomous) = Allow d v x)"
  using governance_modes_monotone [of ReadOnly Autonomous "demo_request ''a''"]
  by (simp add: demo_request_def decide_def decision_defs policy_query_defs workspace_defs Let_def)

text \<open>The printed name of a governance mode parses back to it, and the policy built for a mode
  is recognised as that mode.\<close>

lemma governance_mode_roundtrip:
  "parse_mode (mode_str m) = Some m \<and> mode_of (for_mode m) = m"
  by simp

end
