(* ===== verification/One_Shot.thy ===== *)
theory One_Shot
  imports Pandora_Prelude
begin

text \<open>
  The contract shared by the permit store and the approval store: a ticket, named by a key, can
  be redeemed once. Every call on such a store is one critical section (a mutex, or an immediate
  transaction), so a concurrent execution is a sequence of operations in some order and the
  statement quantifies over all sequences.
\<close>

text \<open>The keys redeemed along a sequence of operations, in order.\<close>

fun redemptions ::
  "('op \<Rightarrow> 's \<Rightarrow> 's) \<Rightarrow> ('op \<Rightarrow> 's \<Rightarrow> 'k option) \<Rightarrow> 'op list \<Rightarrow> 's \<Rightarrow> 'k list" where
  "redemptions exec redeems [] s = []"
| "redemptions exec redeems (x # xs) s =
     (case redeems x s of None \<Rightarrow> [] | Some k \<Rightarrow> [k]) @ redemptions exec redeems xs (exec x s)"

text \<open>The state after a sequence of operations.\<close>

fun run_ops :: "('op \<Rightarrow> 's \<Rightarrow> 's) \<Rightarrow> 'op list \<Rightarrow> 's \<Rightarrow> 's" where
  "run_ops exec [] s = s"
| "run_ops exec (x # xs) s = run_ops exec xs (exec x s)"

lemma run_ops_append: "run_ops exec (xs @ ys) s = run_ops exec ys (run_ops exec xs s)"
  by (induction xs arbitrary: s) auto

lemma run_ops_invariant:
  assumes "\<And>x s. I s \<Longrightarrow> I (exec x s)" and "I s"
  shows "I (run_ops exec xs s)"
  using assms(2) by (induction xs arbitrary: s) (auto intro: assms(1))

locale one_shot_store =
  fixes exec :: "'op \<Rightarrow> 's \<Rightarrow> 's"
    and redeems :: "'op \<Rightarrow> 's \<Rightarrow> 'k option"
    and spent :: "'s \<Rightarrow> 'k \<Rightarrow> bool"
  assumes redeem_fresh: "redeems x s = Some k \<Longrightarrow> \<not> spent s k"
    and redeem_spends: "redeems x s = Some k \<Longrightarrow> spent (exec x s) k"
    and spent_kept: "spent s k \<Longrightarrow> spent (exec x s) k"
begin

lemma redeemed_not_spent: "k \<in> set (redemptions exec redeems xs s) \<Longrightarrow> \<not> spent s k"
proof (induction xs arbitrary: s)
  case Nil
  then show ?case by simp
next
  case (Cons x xs)
  then show ?case using redeem_fresh spent_kept by (force split: option.splits)
qed

lemma redeemed_once: "distinct (redemptions exec redeems xs s)"
proof (induction xs arbitrary: s)
  case Nil
  then show ?case by simp
next
  case (Cons x xs)
  then show ?case using redeem_spends redeemed_not_spent by (force split: option.splits)
qed

lemma spent_stays: "spent s k \<Longrightarrow> spent (run_ops exec xs s) k"
  by (induction xs arbitrary: s) (auto intro: spent_kept)

lemma redeemed_spent: "k \<in> set (redemptions exec redeems xs s) \<Longrightarrow> spent (run_ops exec xs s) k"
proof (induction xs arbitrary: s)
  case Nil
  then show ?case by simp
next
  case (Cons x xs)
  then show ?case using redeem_spends spent_stays by (force split: option.splits)
qed

lemma redeem_after_spent: "spent s k \<Longrightarrow> redeems x (run_ops exec xs s) \<noteq> Some k"
  using spent_stays redeem_fresh by blast

end


text \<open>The same contract for a store whose laws hold only where an invariant does.\<close>

locale guarded_one_shot =
  fixes exec :: "'op \<Rightarrow> 's \<Rightarrow> 's"
    and redeems :: "'op \<Rightarrow> 's \<Rightarrow> 'k option"
    and spent :: "'s \<Rightarrow> 'k \<Rightarrow> bool"
    and inv :: "'s \<Rightarrow> bool"
  assumes inv_kept: "inv s \<Longrightarrow> inv (exec x s)"
    and guarded_fresh: "inv s \<Longrightarrow> redeems x s = Some k \<Longrightarrow> \<not> spent s k"
    and guarded_spends: "inv s \<Longrightarrow> redeems x s = Some k \<Longrightarrow> spent (exec x s) k"
    and guarded_kept: "inv s \<Longrightarrow> spent s k \<Longrightarrow> spent (exec x s) k"
begin

lemma inv_run: "inv s \<Longrightarrow> inv (run_ops exec xs s)"
  by (rule run_ops_invariant [where I = inv]) (auto intro: inv_kept)

lemma guarded_not_spent: "inv s \<Longrightarrow> k \<in> set (redemptions exec redeems xs s) \<Longrightarrow> \<not> spent s k"
proof (induction xs arbitrary: s)
  case Nil
  then show ?case by simp
next
  case (Cons x xs)
  then show ?case using guarded_fresh guarded_kept inv_kept by (force split: option.splits)
qed

lemma guarded_once: "inv s \<Longrightarrow> distinct (redemptions exec redeems xs s)"
proof (induction xs arbitrary: s)
  case Nil
  then show ?case by simp
next
  case (Cons x xs)
  then show ?case using guarded_spends guarded_not_spent inv_kept by (force split: option.splits)
qed

end

sublocale one_shot_store \<subseteq> guarded: guarded_one_shot exec redeems spent "\<lambda>_. True"
  by unfold_locales (auto dest: redeem_fresh intro: redeem_spends spent_kept)

end
