(* ===== verification/Permit_Store.thy ===== *)
theory Permit_Store
  imports Governance One_Shot
begin

text \<open>
  The store of issued permits, \<open>pandora-runtime/src/permit_store.rs\<close>. The \<open>HashMap\<close> behind
  the mutex is a map from permit identifiers; an operation returns its result and the new map.
\<close>

datatype permit_state = Active | Consumed

record stored_permit =
  st_permit :: effect_permit
  st_state :: permit_state

type_synonym permit_store = "permit_id \<rightharpoonup> stored_permit"

datatype permit_error =
  AlreadyRegistered | UnknownPermit | InvalidPermit | NotYetValid | Expired | RequestMismatch
| AlreadyConsumed

record consumed_permit =
  cp_permit :: effect_permit
  cp_request :: operation_request
  cp_consumed_at :: timestamp

definition new_permit_store :: permit_store where
  "new_permit_store = Map.empty"

definition register ::
  "effect_permit \<Rightarrow> permit_store \<Rightarrow> (permit_error, unit) outcome \<times> permit_store" where
  "register p permits =
     (if permits (pm_permit_id p) \<noteq> None then (Inl AlreadyRegistered, permits)
      else (Inr (), permits(pm_permit_id p \<mapsto> \<lparr>st_permit = p, st_state = Active\<rparr>)))"

definition consume ::
  "effect_permit \<Rightarrow> operation_request \<Rightarrow> timestamp \<Rightarrow> permit_store
     \<Rightarrow> (permit_error, consumed_permit) outcome \<times> permit_store" where
  "consume p r now permits =
     (case permits (pm_permit_id p) of
        None \<Rightarrow> (Inl UnknownPermit, permits)
      | Some stored \<Rightarrow>
          if st_permit stored \<noteq> p then (Inl InvalidPermit, permits)
          else if st_state stored = Consumed then (Inl AlreadyConsumed, permits)
          else if now < pm_issued_at (st_permit stored) then (Inl NotYetValid, permits)
          else if now \<ge> pm_expires_at (st_permit stored) then (Inl Expired, permits)
          else if rq_request_digest r \<noteq> pm_request_digest (st_permit stored)
            then (Inl RequestMismatch, permits)
          else (Inr \<lparr>cp_permit = st_permit stored, cp_request = r, cp_consumed_at = now\<rparr>,
                permits(pm_permit_id p \<mapsto> stored\<lparr>st_state := Consumed\<rparr>)))"


section \<open>Behaviour of the operations\<close>

lemma register_Inr:
  "register p s = (Inr u, s') \<longleftrightarrow>
     s (pm_permit_id p) = None \<and> s' = s(pm_permit_id p \<mapsto> \<lparr>st_permit = p, st_state = Active\<rparr>)"
  by (auto simp: register_def)

lemma register_Inl: "register p s = (Inl e, s') \<longleftrightarrow> s (pm_permit_id p) \<noteq> None \<and> e = AlreadyRegistered \<and> s' = s"
  by (auto simp: register_def)

text \<open>A permit is redeemable for a request at a time.\<close>

definition redeemable :: "permit_store \<Rightarrow> effect_permit \<Rightarrow> operation_request \<Rightarrow> timestamp \<Rightarrow> bool" where
  "redeemable s p r now \<longleftrightarrow>
     s (pm_permit_id p) = Some \<lparr>st_permit = p, st_state = Active\<rparr>
   \<and> pm_issued_at p \<le> now \<and> now < pm_expires_at p
   \<and> rq_request_digest r = pm_request_digest p"

lemma stored_permit_eq_iff: "(x :: stored_permit) = \<lparr>st_permit = p, st_state = b\<rparr> \<longleftrightarrow> st_permit x = p \<and> st_state x = b"
  by auto

lemma consume_Inr_iff:
  "consume p r now s = (Inr c, s') \<longleftrightarrow>
     redeemable s p r now \<and> c = \<lparr>cp_permit = p, cp_request = r, cp_consumed_at = now\<rparr>
   \<and> s' = s(pm_permit_id p \<mapsto> \<lparr>st_permit = p, st_state = Consumed\<rparr>)"
proof (cases "s (pm_permit_id p)")
  case None
  then show ?thesis by (simp add: consume_def redeemable_def)
next
  case (Some x)
  then show ?thesis
    by (cases x; cases "st_state x")
       (auto simp: consume_def redeemable_def stored_permit_eq_iff not_less not_le)
qed

lemma consume_Inl_unchanged: "consume p r now s = (Inl e, s') \<Longrightarrow> s' = s"
  by (auto simp: consume_def split: option.splits if_splits)

lemma consume_fails_unchanged: "\<not> redeemable s p r now \<Longrightarrow> snd (consume p r now s) = s"
  by (cases "consume p r now s"; cases "fst (consume p r now s)")
     (auto simp: consume_Inr_iff dest: consume_Inl_unchanged)

lemma snd_consume:
  "snd (consume p r now s) =
     (if redeemable s p r now then s(pm_permit_id p \<mapsto> \<lparr>st_permit = p, st_state = Consumed\<rparr>) else s)"
proof (cases "redeemable s p r now")
  case True
  then have "consume p r now s = (Inr \<lparr>cp_permit = p, cp_request = r, cp_consumed_at = now\<rparr>,
      s(pm_permit_id p \<mapsto> \<lparr>st_permit = p, st_state = Consumed\<rparr>))"
    by (simp add: consume_Inr_iff)
  with True show ?thesis by simp
qed (simp add: consume_fails_unchanged)


section \<open>One-shot use\<close>

datatype permit_op =
  RegisterOp effect_permit
| ConsumeOp effect_permit operation_request timestamp

fun exec_permit_op :: "permit_op \<Rightarrow> permit_store \<Rightarrow> permit_store" where
  "exec_permit_op (RegisterOp p) s = snd (register p s)"
| "exec_permit_op (ConsumeOp p r now) s = snd (consume p r now s)"

fun redeems_permit :: "permit_op \<Rightarrow> permit_store \<Rightarrow> permit_id option" where
  "redeems_permit (RegisterOp p) s = None"
| "redeems_permit (ConsumeOp p r now) s =
     (if is_ok (fst (consume p r now s)) then Some (pm_permit_id p) else None)"

definition permit_spent :: "permit_store \<Rightarrow> permit_id \<Rightarrow> bool" where
  "permit_spent s k \<longleftrightarrow> (\<exists>x. s k = Some x \<and> st_state x = Consumed)"

lemma consume_ok_iff: "is_ok (fst (consume p r now s)) \<longleftrightarrow> redeemable s p r now"
proof -
  obtain res s' where c: "consume p r now s = (res, s')" by fastforce
  show ?thesis
  proof (cases res)
    case (Inl e)
    then have "\<not> redeemable s p r now" using c consume_Inr_iff [of p r now s] by fastforce
    with c Inl show ?thesis by simp
  next
    case (Inr x)
    with c have "redeemable s p r now" by (simp add: consume_Inr_iff)
    with c Inr show ?thesis by simp
  qed
qed

interpretation permits: one_shot_store exec_permit_op redeems_permit permit_spent
proof
  fix x s k
  assume "redeems_permit x s = Some k"
  then obtain p r now where x: "x = ConsumeOp p r now" and k: "k = pm_permit_id p"
    and red: "redeemable s p r now"
    by (cases x) (auto simp: consume_ok_iff split: if_splits)
  then show "\<not> permit_spent s k" by (auto simp: permit_spent_def redeemable_def)
  show "permit_spent (exec_permit_op x s) k"
    using x k red by (simp add: snd_consume permit_spent_def)
next
  fix x s k
  assume "permit_spent s k"
  then show "permit_spent (exec_permit_op x s) k"
    by (cases x) (auto simp: snd_consume permit_spent_def register_def)
qed

section \<open>Properties\<close>

text \<open>A permit is consumed exactly when the store holds it, unaltered and active, the clock is
  inside its validity window and the request has its digest; success marks it consumed and leaves
  every other permit alone, failure changes nothing.\<close>

lemma consume_exactly_when_redeemable:
  "(is_ok (fst (consume p r now s)) \<longleftrightarrow>
      s (pm_permit_id p) = Some \<lparr>st_permit = p, st_state = Active\<rparr>
    \<and> pm_issued_at p \<le> now \<and> now < pm_expires_at p \<and> rq_request_digest r = pm_request_digest p)
   \<and> snd (consume p r now s) =
      (if is_ok (fst (consume p r now s))
       then s(pm_permit_id p \<mapsto> \<lparr>st_permit = p, st_state = Consumed\<rparr>) else s)"
  by (simp add: consume_ok_iff redeemable_def snd_consume)

text \<open>In every sequence of registrations and consumptions, from any store, each permit is
  consumed at most once, so two consumers never both succeed.\<close>

lemma permit_consumed_at_most_once:
  "distinct (redemptions exec_permit_op redeems_permit xs s)"
  by (rule permits.redeemed_once)

end
