(* ===== verification/Sql_Table.thy ===== *)
theory Sql_Table
  imports Pandora_Prelude
begin

text \<open>
  A SQLite table with a primary key, as the stores of the runtime use it: a list of rows in
  insertion order. The statements the code issues are \<open>INSERT\<close> (refused when the key is
  present), \<open>SELECT ... WHERE key = ?\<close>, \<open>UPDATE ... WHERE key = ? AND cond\<close> with the number of
  changed rows, \<open>DELETE ... WHERE key = ?\<close> and \<open>SELECT ... WHERE cond ORDER BY ...\<close>.
  A failing database call is a \<open>faults\<close> value: \<open>f k\<close> says that the \<open>k\<close>-th database call
  of the operation returns an error.
\<close>

type_synonym faults = "nat \<Rightarrow> bool"

definition no_faults :: faults where
  "no_faults = (\<lambda>_. False)"

definition row_lookup :: "('r \<Rightarrow> 'k) \<Rightarrow> 'k \<Rightarrow> 'r list \<Rightarrow> 'r option" where
  "row_lookup key k t = find (\<lambda>r. key r = k) t"

definition row_insert :: "'r \<Rightarrow> 'r list \<Rightarrow> 'r list" where
  "row_insert r t = t @ [r]"

definition row_update :: "('r \<Rightarrow> bool) \<Rightarrow> ('r \<Rightarrow> 'r) \<Rightarrow> 'r list \<Rightarrow> 'r list" where
  "row_update cond u t = map (\<lambda>r. if cond r then u r else r) t"

definition rows_changed :: "('r \<Rightarrow> bool) \<Rightarrow> 'r list \<Rightarrow> nat" where
  "rows_changed cond t = length (filter cond t)"

definition row_delete :: "('r \<Rightarrow> 'k) \<Rightarrow> 'k \<Rightarrow> 'r list \<Rightarrow> 'r list" where
  "row_delete key k t = filter (\<lambda>r. key r \<noteq> k) t"

definition keyed :: "('r \<Rightarrow> 'k) \<Rightarrow> 'r list \<Rightarrow> bool" where
  "keyed key t \<longleftrightarrow> distinct (map key t)"

lemma row_lookup_Some: "row_lookup key k t = Some r \<Longrightarrow> r \<in> set t \<and> key r = k"
  by (auto simp: row_lookup_def find_Some_iff)

lemma row_lookup_None_iff: "row_lookup key k t = None \<longleftrightarrow> k \<notin> key ` set t"
  by (auto simp: row_lookup_def find_None_iff)

lemma row_lookup_Some_iff:
  "keyed key t \<Longrightarrow> row_lookup key k t = Some r \<longleftrightarrow> r \<in> set t \<and> key r = k"
proof
  assume k: "keyed key t" and r: "r \<in> set t \<and> key r = k"
  then obtain r' where r': "row_lookup key k t = Some r'"
    using row_lookup_None_iff [of key k t] by (cases "row_lookup key k t") auto
  then have "r' \<in> set t" "key r' = key r" using r by (auto dest: row_lookup_Some)
  then have "r' = r" using k r by (auto simp: keyed_def distinct_map inj_on_def)
  with r' show "row_lookup key k t = Some r" by simp
qed (rule row_lookup_Some)

lemma row_lookup_insert [simp]:
  "row_lookup key k (row_insert r t) =
     (case row_lookup key k t of Some x \<Rightarrow> Some x | None \<Rightarrow> if key r = k then Some r else None)"
  by (induction t) (auto simp: row_lookup_def row_insert_def)

lemma row_lookup_update:
  assumes "\<And>r. cond r \<Longrightarrow> key (u r) = key r"
  shows "row_lookup key k (row_update cond u t) =
     map_option (\<lambda>r. if cond r then u r else r) (row_lookup key k t)"
  by (induction t) (auto simp: row_lookup_def row_update_def assms)

lemma row_lookup_delete [simp]:
  "row_lookup key k (row_delete key k' t) = (if k = k' then None else row_lookup key k t)"
  by (induction t) (auto simp: row_lookup_def row_delete_def)

lemma keyed_Nil [simp]: "keyed key []"
  by (simp add: keyed_def)

lemma keyed_insert: "keyed key t \<Longrightarrow> row_lookup key (key r) t = None \<Longrightarrow> keyed key (row_insert r t)"
  by (auto simp: keyed_def row_insert_def row_lookup_None_iff)

lemma keyed_update:
  assumes "\<And>r. cond r \<Longrightarrow> key (u r) = key r" and "keyed key t"
  shows "keyed key (row_update cond u t)"
proof -
  have "map key (row_update cond u t) = map key t"
    using assms(1) by (simp add: row_update_def)
  with assms(2) show ?thesis by (simp add: keyed_def)
qed

lemma keyed_delete: "keyed key t \<Longrightarrow> keyed key (row_delete key k t)"
  by (auto simp: keyed_def row_delete_def distinct_map inj_on_def)

lemma rows_changed_keyed:
  assumes "keyed key t" and "row_lookup key k t = Some r"
  shows "rows_changed (\<lambda>x. key x = k \<and> cond x) t = (if cond r then 1 else 0)"
  using assms
proof (induction t)
  case Nil
  then show ?case by (simp add: row_lookup_def)
next
  case (Cons x t)
  have kt: "keyed key t" using Cons.prems(1) by (simp add: keyed_def)
  show ?case
  proof (cases "key x = k")
    case True
    then have "x = r" using Cons.prems(2) by (simp add: row_lookup_def)
    moreover have "k \<notin> key ` set t" using True Cons.prems(1) by (simp add: keyed_def)
    then have "filter (\<lambda>y. key y = k \<and> cond y) t = []" by (fastforce simp: filter_empty_conv)
    ultimately show ?thesis using True by (simp add: rows_changed_def)
  next
    case False
    then have "row_lookup key k t = Some r" using Cons.prems(2) by (simp add: row_lookup_def)
    with Cons.IH [OF kt] False show ?thesis by (simp add: rows_changed_def)
  qed
qed


section \<open>The interface\<close>

text \<open>
  What a client relies on: lookup after each statement, and a key invariant that every statement
  keeps. The client's lemma is that a conditional update addressed to one key leaves every
  other row alone and is seen by the next lookup.
\<close>

locale keyed_table =
  fixes lookup :: "'k \<Rightarrow> 't \<Rightarrow> 'r option"
    and insert :: "'r \<Rightarrow> 't \<Rightarrow> 't"
    and update :: "('r \<Rightarrow> bool) \<Rightarrow> ('r \<Rightarrow> 'r) \<Rightarrow> 't \<Rightarrow> 't"
    and delete :: "'k \<Rightarrow> 't \<Rightarrow> 't"
    and key :: "'r \<Rightarrow> 'k"
    and invar :: "'t \<Rightarrow> bool"
  assumes lookup_key: "lookup k t = Some r \<Longrightarrow> key r = k"
    and lookup_insert: "lookup (key r) t = None \<Longrightarrow>
      lookup k (insert r t) = (if k = key r then Some r else lookup k t)"
    and lookup_update: "(\<And>r. cond r \<Longrightarrow> key (u r) = key r) \<Longrightarrow>
      lookup k (update cond u t) = map_option (\<lambda>r. if cond r then u r else r) (lookup k t)"
    and lookup_delete: "lookup k (delete k' t) = (if k = k' then None else lookup k t)"
    and invar_insert: "invar t \<Longrightarrow> lookup (key r) t = None \<Longrightarrow> invar (insert r t)"
    and invar_update: "(\<And>r. cond r \<Longrightarrow> key (u r) = key r) \<Longrightarrow> invar t \<Longrightarrow> invar (update cond u t)"
    and invar_delete: "invar t \<Longrightarrow> invar (delete k t)"
begin

lemma update_one:
  assumes "\<And>r. key (u r) = key r"
  shows "lookup k (update (\<lambda>r. key r = k' \<and> cond r) u t) =
    (if k = k' then map_option (\<lambda>r. if cond r then u r else r) (lookup k t) else lookup k t)"
proof -
  have eq: "lookup k (update (\<lambda>r. key r = k' \<and> cond r) u t)
      = map_option (\<lambda>r. if key r = k' \<and> cond r then u r else r) (lookup k t)"
    by (rule lookup_update) (use assms in auto)
  show ?thesis
  proof (cases "lookup k t")
    case (Some r)
    then have "key r = k" by (rule lookup_key)
    with Some eq show ?thesis by (cases "k = k'") simp_all
  qed (use eq in auto)
qed

end

interpretation sql: keyed_table "row_lookup key" row_insert row_update "row_delete key" key "keyed key"
  for key :: "'r \<Rightarrow> 'k"
proof
  fix k t r assume "row_lookup key k t = Some r" then show "key r = k" by (auto dest: row_lookup_Some)
next
  fix r t k assume "row_lookup key (key r) t = None"
  then show "row_lookup key k (row_insert r t) = (if k = key r then Some r else row_lookup key k t)"
    by (auto split: option.splits)
next
  fix cond u k and t :: "'r list" assume "\<And>r. cond r \<Longrightarrow> key (u r) = key r"
  then show "row_lookup key k (row_update cond u t)
      = map_option (\<lambda>r. if cond r then u r else r) (row_lookup key k t)"
    by (rule row_lookup_update)
qed (simp_all add: keyed_insert keyed_update keyed_delete)

end
