(* ===== verification/Approvals.thy ===== *)
theory Approvals
  imports Effects Sql_Table One_Shot
begin

text \<open>
  Durable human approvals, \<open>pandora-runtime/src/approvals.rs\<close>. The \<open>approvals\<close> table is a list
  of raw rows; an operation takes the table and returns its result with the new table. Database
  calls can fail: \<open>f k\<close> is the failure of the \<open>k\<close>-th call of the operation (the mutex, the
  start of the transaction, each statement, the commit), and an uncommitted transaction is rolled
  back when it is dropped. The clock of \<open>create\<close> is an argument.
\<close>

section \<open>Data\<close>

definition MAX_SUMMARY_BYTES :: nat where
  "MAX_SUMMARY_BYTES = 4096"

datatype approval_status = Pending | Approved | Denied | Consumed | Expired

fun approval_status_str :: "approval_status \<Rightarrow> string" where
  "approval_status_str Pending = ''pending''"
| "approval_status_str Approved = ''approved''"
| "approval_status_str Denied = ''denied''"
| "approval_status_str Consumed = ''consumed''"
| "approval_status_str Expired = ''expired''"

datatype approval_error =
  Database | Io | CorruptRecord | InvalidSummary | LockPoisoned | AlreadyExists | NotFound
| ScopeMismatch | DigestMismatch | ApprovalExpired | Terminal

definition parse_approval_status :: "string \<Rightarrow> (approval_error, approval_status) outcome" where
  "parse_approval_status value =
     (if value = ''pending'' then Inr Pending
      else if value = ''approved'' then Inr Approved
      else if value = ''denied'' then Inr Denied
      else if value = ''consumed'' then Inr Consumed
      else if value = ''expired'' then Inr Expired
      else Inl CorruptRecord)"

record approval_request =
  ar_id :: string
  ar_session_id :: session_id
  ar_execution_id :: execution_id
  ar_principal_id :: principal_id
  ar_gene_id :: gene_id
  ar_request_digest :: request_digest
  ar_request_summary :: string
  ar_policy_version :: u32
  ar_expires_at :: timestamp

record pending_approval =
  pa_id :: string
  pa_session_id :: session_id
  pa_execution_id :: execution_id
  pa_principal_id :: principal_id
  pa_gene_id :: gene_id
  pa_request_digest :: request_digest
  pa_request_summary :: string
  pa_policy_version :: u32
  pa_expires_at :: timestamp
  pa_status :: approval_status
  pa_approver_id :: "principal_id option"
  pa_created_at :: timestamp

text \<open>A row of the table: \<open>INTEGER\<close> columns are \<open>int\<close>, \<open>TEXT\<close> columns strings.\<close>

record raw_approval =
  ra_id :: string
  ra_session_id :: string
  ra_execution_id :: string
  ra_principal_id :: string
  ra_gene_id :: string
  ra_request_digest :: string
  ra_request_summary :: string
  ra_policy_version :: int
  ra_expires_at :: int
  ra_status :: string
  ra_approver_id :: "string option"
  ra_resolved_at :: "int option"
  ra_created_at :: int

type_synonym approval_table = "raw_approval list"

text \<open>An \<open>ApprovalGrant\<close> wraps the consumed approval.\<close>

record approval_grant =
  ag_approval :: pending_approval


section \<open>Requests\<close>

definition sensitive_token :: "string \<Rightarrow> bool" where
  "sensitive_token token \<longleftrightarrow>
     (let l = to_ascii_lowercase token in
      contains_str l ''sk-'' \<or> contains_str l ''token='' \<or> contains_str l ''api_key=''
      \<or> contains_str l ''apikey='' \<or> l = ''bearer'')"

definition redact_summary :: "string \<Rightarrow> string" where
  "redact_summary summary =
     join_with '' '' (map (\<lambda>t. if sensitive_token t then ''[redacted]'' else t) (split_whitespace summary))"

definition new_approval_request ::
  "string \<Rightarrow> session_id \<Rightarrow> execution_id \<Rightarrow> principal_id \<Rightarrow> gene_id \<Rightarrow> request_digest \<Rightarrow> string \<Rightarrow> u32
     \<Rightarrow> timestamp \<Rightarrow> (approval_error, approval_request) outcome" where
  "new_approval_request i sid eid pid gid dig summary pv expires =
     (let summary = redact_summary summary in
      if blank i \<or> blank summary \<or> length summary > MAX_SUMMARY_BYTES then Inl InvalidSummary
      else Inr \<lparr>ar_id = i, ar_session_id = sid, ar_execution_id = eid, ar_principal_id = pid,
                ar_gene_id = gid, ar_request_digest = dig, ar_request_summary = summary,
                ar_policy_version = pv, ar_expires_at = expires\<rparr>)"

definition status_at :: "pending_approval \<Rightarrow> timestamp \<Rightarrow> approval_status" where
  "status_at a now =
     (if (pa_status a = Pending \<or> pa_status a = Approved) \<and> now \<ge> pa_expires_at a
      then Expired else pa_status a)"

definition grant_matches :: "approval_grant \<Rightarrow> operation_request \<Rightarrow> u32 \<Rightarrow> bool" where
  "grant_matches g r policy_version \<longleftrightarrow>
     (let a = ag_approval g in
      pa_session_id a = rq_session_id r
      \<and> pa_execution_id a = rq_execution_id r
      \<and> pa_principal_id a = rq_principal_id r
      \<and> pa_gene_id a = rq_gene_id r
      \<and> pa_request_digest a = rq_request_digest r
      \<and> pa_policy_version a = policy_version)"


section \<open>Rows\<close>

definition to_i64 :: "timestamp \<Rightarrow> (approval_error, int) outcome" where
  "to_i64 t = ok_or (i64_of_u64 t) CorruptRecord"

abbreviation corrupt :: "('e, 'a) outcome \<Rightarrow> (approval_error, 'a) outcome" where
  "corrupt r \<equiv> map_err (\<lambda>_. CorruptRecord) r"

definition decode_raw :: "raw_approval \<Rightarrow> (approval_error, pending_approval) outcome" where
  "decode_raw raw =
     and_then (corrupt (new_id (ra_session_id raw))) (\<lambda>sid.
     and_then (corrupt (new_id (ra_execution_id raw))) (\<lambda>eid.
     and_then (corrupt (new_id (ra_principal_id raw))) (\<lambda>pid.
     and_then (corrupt (new_id (ra_gene_id raw))) (\<lambda>gid.
     and_then (corrupt (new_id (ra_request_digest raw))) (\<lambda>dig.
     and_then (ok_or (u32_of_i64 (ra_policy_version raw)) CorruptRecord) (\<lambda>pv.
     and_then (ok_or (u64_of_i64 (ra_expires_at raw)) CorruptRecord) (\<lambda>expires.
     and_then (parse_approval_status (ra_status raw)) (\<lambda>status.
     and_then (opt_try (\<lambda>v. corrupt (new_id v)) (ra_approver_id raw)) (\<lambda>approver.
     and_then (ok_or (u64_of_i64 (ra_created_at raw)) CorruptRecord) (\<lambda>created.
       Inr \<lparr>pa_id = ra_id raw, pa_session_id = sid, pa_execution_id = eid, pa_principal_id = pid,
            pa_gene_id = gid, pa_request_digest = dig, pa_request_summary = ra_request_summary raw,
            pa_policy_version = pv, pa_expires_at = expires, pa_status = status,
            pa_approver_id = approver, pa_created_at = created\<rparr>))))))))))"

definition load_approval ::
  "bool \<Rightarrow> approval_table \<Rightarrow> string \<Rightarrow> (approval_error, pending_approval option) outcome" where
  "load_approval fault t i =
     (if fault then Inl Database else opt_try decode_raw (row_lookup ra_id i t))"

definition ensure_principal :: "pending_approval \<Rightarrow> principal_id \<Rightarrow> (approval_error, unit) outcome" where
  "ensure_principal a pid = (if pa_principal_id a = pid then Inr () else Inl ScopeMismatch)"


section \<open>Operations of the store\<close>

text \<open>\<open>k\<close> is the index of the first database call an inner query makes.\<close>

definition inspect_unscoped ::
  "faults \<Rightarrow> nat \<Rightarrow> string \<Rightarrow> approval_table \<Rightarrow> (approval_error, pending_approval) outcome" where
  "inspect_unscoped f k i t =
     (if f k then Inl LockPoisoned
      else and_then (load_approval (f (k + 1)) t i) (\<lambda>a. ok_or a NotFound))"

definition inspect ::
  "faults \<Rightarrow> nat \<Rightarrow> string \<Rightarrow> principal_id \<Rightarrow> approval_table \<Rightarrow> (approval_error, pending_approval) outcome" where
  "inspect f k i pid t =
     and_then (inspect_unscoped f k i t) (\<lambda>a.
       if pa_principal_id a \<noteq> pid then Inl NotFound else Inr a)"

definition list_approvals ::
  "faults \<Rightarrow> principal_id \<Rightarrow> approval_table \<Rightarrow> (approval_error, pending_approval list) outcome" where
  "list_approvals f pid t =
     (if f 0 then Inl LockPoisoned
      else if f 1 \<or> f 2 \<or> f 3 then Inl Database
      else try_map decode_raw
             (sort_key (\<lambda>r. (ra_created_at r, ra_id r)) (filter (\<lambda>r. ra_principal_id r = pid) t)))"

definition create ::
  "faults \<Rightarrow> approval_request \<Rightarrow> timestamp \<Rightarrow> approval_table
     \<Rightarrow> (approval_error, pending_approval) outcome \<times> approval_table" where
  "create f q created_at t =
     (if f 0 then (Inl LockPoisoned, t)
      else case to_i64 (ar_expires_at q) of Inl e \<Rightarrow> (Inl e, t) | Inr expires \<Rightarrow>
      case to_i64 created_at of Inl e \<Rightarrow> (Inl e, t) | Inr created \<Rightarrow>
      if f 1 then (Inl Database, t)
      else if row_lookup ra_id (ar_id q) t \<noteq> None then (Inl AlreadyExists, t)
      else
        let t' = row_insert
          \<lparr>ra_id = ar_id q, ra_session_id = ar_session_id q, ra_execution_id = ar_execution_id q,
           ra_principal_id = ar_principal_id q, ra_gene_id = ar_gene_id q,
           ra_request_digest = ar_request_digest q, ra_request_summary = ar_request_summary q,
           ra_policy_version = uint (ar_policy_version q), ra_expires_at = expires,
           ra_status = ''pending'', ra_approver_id = None, ra_resolved_at = None,
           ra_created_at = created\<rparr> t in
        (inspect_unscoped f 2 (ar_id q) t', t'))"

definition resolve ::
  "faults \<Rightarrow> string \<Rightarrow> principal_id \<Rightarrow> principal_id \<Rightarrow> bool \<Rightarrow> timestamp \<Rightarrow> approval_table
     \<Rightarrow> (approval_error, pending_approval) outcome \<times> approval_table" where
  "resolve f i pid approver allow now t =
     (if f 0 then (Inl LockPoisoned, t)
      else if f 1 then (Inl Database, t)
      else case load_approval (f 2) t i of
        Inl e \<Rightarrow> (Inl e, t)
      | Inr None \<Rightarrow> (Inl NotFound, t)
      | Inr (Some current) \<Rightarrow>
          (case ensure_principal current pid of
             Inl e \<Rightarrow> (Inl e, t)
           | Inr _ \<Rightarrow>
               if status_at current now = Expired then
                 if f 3 \<or> f 4 then (Inl Database, t)
                 else (Inl ApprovalExpired,
                       row_update (\<lambda>r. ra_id r = i \<and> ra_status r \<in> {''pending'', ''approved''})
                         (\<lambda>r. r\<lparr>ra_status := ''expired''\<rparr>) t)
               else if pa_status current \<noteq> Pending then (Inl Terminal, t)
               else case to_i64 now of
                 Inl e \<Rightarrow> (Inl e, t)
               | Inr n \<Rightarrow>
                   let cond = (\<lambda>r. ra_id r = i \<and> (ra_status r = ''pending'' \<and> ra_expires_at r > n)) in
                   if f 3 then (Inl Database, t)
                   else if rows_changed cond t \<noteq> 1 then (Inl Terminal, t)
                   else if f 4 then (Inl Database, t)
                   else
                     let t' = row_update cond
                       (\<lambda>r. r\<lparr>ra_status := (if allow then ''approved'' else ''denied''),
                             ra_approver_id := Some approver, ra_resolved_at := Some n\<rparr>) t in
                     (inspect f 5 i pid t', t')))"

definition consume_grant ::
  "faults \<Rightarrow> string \<Rightarrow> principal_id \<Rightarrow> session_id \<Rightarrow> execution_id \<Rightarrow> gene_id \<Rightarrow> request_digest
     \<Rightarrow> timestamp \<Rightarrow> approval_table \<Rightarrow> (approval_error, approval_grant) outcome \<times> approval_table" where
  "consume_grant f i pid sid eid gid dig now t =
     (if f 0 then (Inl LockPoisoned, t)
      else if f 1 then (Inl Database, t)
      else case load_approval (f 2) t i of
        Inl e \<Rightarrow> (Inl e, t)
      | Inr None \<Rightarrow> (Inl NotFound, t)
      | Inr (Some current) \<Rightarrow>
          (case ensure_principal current pid of
             Inl e \<Rightarrow> (Inl e, t)
           | Inr _ \<Rightarrow>
               if status_at current now = Expired then
                 if f 3 \<or> f 4 then (Inl Database, t)
                 else (Inl ApprovalExpired,
                       row_update (\<lambda>r. ra_id r = i \<and> ra_status r = ''approved'')
                         (\<lambda>r. r\<lparr>ra_status := ''expired''\<rparr>) t)
               else if pa_status current \<noteq> Approved then (Inl Terminal, t)
               else if pa_session_id current \<noteq> sid \<or> pa_execution_id current \<noteq> eid
                       \<or> pa_gene_id current \<noteq> gid then (Inl ScopeMismatch, t)
               else if pa_request_digest current \<noteq> dig then (Inl DigestMismatch, t)
               else case to_i64 now of
                 Inl e \<Rightarrow> (Inl e, t)
               | Inr n \<Rightarrow>
                   let cond = (\<lambda>r. ra_id r = i \<and> (ra_status r = ''approved'' \<and> ra_expires_at r > n)) in
                   if f 3 then (Inl Database, t)
                   else if rows_changed cond t \<noteq> 1 then (Inl Terminal, t)
                   else if f 4 then (Inl Database, t)
                   else
                     let t' = row_update cond (\<lambda>r. r\<lparr>ra_status := ''consumed''\<rparr>) t in
                     (and_then (inspect f 5 i pid t') (\<lambda>a. Inr \<lparr>ag_approval = a\<rparr>), t')))"

definition consume_approval ::
  "faults \<Rightarrow> string \<Rightarrow> principal_id \<Rightarrow> session_id \<Rightarrow> execution_id \<Rightarrow> gene_id \<Rightarrow> request_digest
     \<Rightarrow> timestamp \<Rightarrow> approval_table \<Rightarrow> (approval_error, pending_approval) outcome \<times> approval_table" where
  "consume_approval f i pid sid eid gid dig now t =
     (case consume_grant f i pid sid eid gid dig now t of
        (r, t') \<Rightarrow> (and_then r (\<lambda>g. Inr (ag_approval g)), t'))"


section \<open>The life of an approval\<close>

inductive approval_step :: "approval_status \<Rightarrow> approval_status \<Rightarrow> bool" where
  approve: "approval_step Pending Approved"
| deny: "approval_step Pending Denied"
| expire_pending: "approval_step Pending Expired"
| redeem: "approval_step Approved Consumed"
| expire_approved: "approval_step Approved Expired"

inductive_simps approval_step_from:
  "approval_step Pending s" "approval_step Approved s" "approval_step Denied s"
  "approval_step Consumed s" "approval_step Expired s"

code_pred approval_step .

text \<open>A row evolves by keeping its value or by one step of its status; only the status and the
  resolution columns change.\<close>

definition row_evolves :: "raw_approval \<Rightarrow> raw_approval \<Rightarrow> bool" where
  "row_evolves r r' \<longleftrightarrow>
     r' = r \<or> (\<exists>s s' ap at. approval_step s s' \<and> ra_status r = approval_status_str s
       \<and> r' = r\<lparr>ra_status := approval_status_str s', ra_approver_id := ap, ra_resolved_at := at\<rparr>)"

datatype approval_op =
  CreateOp faults approval_request timestamp
| ResolveOp faults string principal_id principal_id bool timestamp
| ConsumeGrantOp faults string principal_id session_id execution_id gene_id request_digest timestamp

fun exec_approval_op :: "approval_op \<Rightarrow> approval_table \<Rightarrow> approval_table" where
  "exec_approval_op (CreateOp f q now) t = snd (create f q now t)"
| "exec_approval_op (ResolveOp f i pid approver allow now) t = snd (resolve f i pid approver allow now t)"
| "exec_approval_op (ConsumeGrantOp f i pid sid eid gid dig now) t =
     snd (consume_grant f i pid sid eid gid dig now t)"

fun redeems_approval :: "approval_op \<Rightarrow> approval_table \<Rightarrow> string option" where
  "redeems_approval (ConsumeGrantOp f i pid sid eid gid dig now) t =
     (if is_ok (fst (consume_grant f i pid sid eid gid dig now t)) then Some i else None)"
| "redeems_approval _ t = None"

text \<open>The rows that resolution and redemption address, and what they write.\<close>

definition open_before :: "string \<Rightarrow> string \<Rightarrow> int \<Rightarrow> raw_approval \<Rightarrow> bool" where
  "open_before st i n r \<longleftrightarrow> ra_id r = i \<and> (ra_status r = st \<and> ra_expires_at r > n)"

definition write_resolution :: "bool \<Rightarrow> principal_id \<Rightarrow> int \<Rightarrow> raw_approval \<Rightarrow> raw_approval" where
  "write_resolution allow approver n r =
     r\<lparr>ra_status := (if allow then ''approved'' else ''denied''),
       ra_approver_id := Some approver, ra_resolved_at := Some n\<rparr>"

definition write_status :: "string \<Rightarrow> raw_approval \<Rightarrow> raw_approval" where
  "write_status st r = r\<lparr>ra_status := st\<rparr>"

lemma resolve_table:
  "snd (resolve f i pid approver allow now t) = t
   \<or> snd (resolve f i pid approver allow now t) =
       row_update (\<lambda>r. ra_id r = i \<and> ra_status r \<in> {''pending'', ''approved''}) (write_status ''expired'') t
   \<or> (\<exists>n. snd (resolve f i pid approver allow now t) =
       row_update (open_before ''pending'' i n) (write_resolution allow approver n) t)"
  unfolding resolve_def Let_def open_before_def [abs_def] write_resolution_def [abs_def] write_status_def [abs_def]
  by (auto split: sum.splits option.splits if_splits)

lemma consume_grant_table:
  "snd (consume_grant f i pid sid eid gid dig now t) = t
   \<or> snd (consume_grant f i pid sid eid gid dig now t) =
       row_update (\<lambda>r. ra_id r = i \<and> ra_status r = ''approved'') (write_status ''expired'') t
   \<or> (\<exists>n. snd (consume_grant f i pid sid eid gid dig now t) =
       row_update (open_before ''approved'' i n) (write_status ''consumed'') t)"
  unfolding consume_grant_def Let_def open_before_def [abs_def] write_status_def [abs_def]
  by (auto split: sum.splits option.splits if_splits)

lemma create_table:
  "snd (create f q now t) = t
   \<or> (\<exists>r. snd (create f q now t) = row_insert r t \<and> ra_id r = ar_id q \<and> ra_status r = ''pending''
        \<and> row_lookup ra_id (ra_id r) t = None)"
  by (auto simp: create_def Let_def split: sum.splits if_splits)

lemma write_id [simp]:
  "ra_id (write_resolution a b c r) = ra_id r" "ra_id (write_status s r) = ra_id r"
  by (simp_all add: write_resolution_def write_status_def)

lemma row_evolves_refl [simp]: "row_evolves r r"
  by (simp add: row_evolves_def)

lemma row_evolves_step:
  assumes "approval_step s s'" and "ra_status r = approval_status_str s"
  shows "row_evolves r (r\<lparr>ra_status := approval_status_str s', ra_approver_id := ap, ra_resolved_at := at\<rparr>)"
    and "row_evolves r (write_status (approval_status_str s') r)"
proof -
  show first: "row_evolves r (r\<lparr>ra_status := approval_status_str s', ra_approver_id := ap, ra_resolved_at := at\<rparr>)" for ap at
    using assms unfolding row_evolves_def by blast
  have eq: "write_status (approval_status_str s') r
      = r\<lparr>ra_status := approval_status_str s', ra_approver_id := ra_approver_id r, ra_resolved_at := ra_resolved_at r\<rparr>"
    by (simp add: write_status_def)
  show "row_evolves r (write_status (approval_status_str s') r)"
    unfolding eq by (rule first)
qed

lemma write_evolves:
  "ra_status r \<in> {''pending'', ''approved''} \<Longrightarrow> row_evolves r (write_status ''expired'' r)"
  "ra_status r = ''approved'' \<Longrightarrow> row_evolves r (write_status ''consumed'' r)"
  "ra_status r = ''pending'' \<Longrightarrow> row_evolves r (write_resolution allow approver n r)"
  using row_evolves_step [OF approval_step.expire_pending, of r]
    row_evolves_step [OF approval_step.expire_approved, of r]
    row_evolves_step [OF approval_step.redeem, of r]
    row_evolves_step [OF approval_step.approve, of r]
    row_evolves_step [OF approval_step.deny, of r]
  by (auto simp: write_resolution_def)

lemma row_update_evolves:
  assumes "row_lookup ra_id i t = Some r"
    and "\<And>r. ra_id (u r) = ra_id r" and "\<And>r. cond r \<Longrightarrow> row_evolves r (u r)"
  shows "\<exists>r'. row_lookup ra_id i (row_update cond u t) = Some r' \<and> row_evolves r r'"
proof -
  have "row_lookup ra_id i (row_update cond u t) = Some (if cond r then u r else r)"
    using assms(1,2) by (subst row_lookup_update) auto
  then show ?thesis using assms(3) by auto
qed

lemma exec_approval_evolves:
  assumes "row_lookup ra_id i t = Some r"
  shows "\<exists>r'. row_lookup ra_id i (exec_approval_op x t) = Some r' \<and> row_evolves r r'"
proof (cases x)
  case (CreateOp f q now)
  then show ?thesis using create_table [of f q now t] assms by auto
next
  case (ResolveOp f j pid approver allow now)
  then show ?thesis
    using resolve_table [of f j pid approver allow now t] assms
    by (auto simp: open_before_def intro!: row_update_evolves write_evolves)
next
  case (ConsumeGrantOp f j pid sid eid gid dig now)
  then show ?thesis
    using consume_grant_table [of f j pid sid eid gid dig now t] assms
    by (auto simp: open_before_def intro!: row_update_evolves write_evolves)
qed


section \<open>Redemption\<close>

lemma parse_status_Inr_iff [simp]:
  "parse_approval_status v = Inr s \<longleftrightarrow> v = approval_status_str s"
  by (cases s) (auto simp: parse_approval_status_def)

lemma approval_status_str_inject [simp]: "approval_status_str a = approval_status_str b \<longleftrightarrow> a = b"
  by (cases a; cases b) simp_all

lemma decode_raw_ok:
  assumes "decode_raw r = Inr a"
  shows "pa_id a = ra_id r" "pa_session_id a = ra_session_id r" "pa_execution_id a = ra_execution_id r"
    "pa_principal_id a = ra_principal_id r" "pa_gene_id a = ra_gene_id r"
    "pa_request_digest a = ra_request_digest r" "pa_approver_id a = ra_approver_id r"
    "ra_status r = approval_status_str (pa_status a)"
    "u64_of_i64 (ra_expires_at r) = Some (pa_expires_at a)"
    "u32_of_i64 (ra_policy_version r) = Some (pa_policy_version a)"
  using assms by (cases "ra_approver_id r"; auto simp: decode_raw_def)+

lemma u64_of_i64_uint: "u64_of_i64 i = Some x \<Longrightarrow> uint x = i"
  by (auto simp: u64_of_i64_def word_of_int_inverse uint_word_of_int_eq split: if_splits)

text \<open>What a successful redemption tells about the row before and after.\<close>

lemma consume_grant_ok:
  assumes "consume_grant f i pid sid eid gid dig now t = (Inr g, t')"
  obtains r a n where
    "row_lookup ra_id i t = Some r" "decode_raw r = Inr a" "pa_status a = Approved"
    "pa_principal_id a = pid" "pa_session_id a = sid" "pa_execution_id a = eid" "pa_gene_id a = gid"
    "pa_request_digest a = dig" "now < pa_expires_at a" "i64_of_u64 now = Some n"
    "t' = row_update (open_before ''approved'' i n) (write_status ''consumed'') t"
    "inspect f 5 i pid t' = Inr (ag_approval g)"
proof -
  from assms obtain a n where
    load: "load_approval (f 2) t i = Inr (Some a)" and
    facts: "ensure_principal a pid = Inr ()" "status_at a now \<noteq> Expired" "pa_status a = Approved"
      "pa_session_id a = sid" "pa_execution_id a = eid" "pa_gene_id a = gid" "pa_request_digest a = dig"
      "to_i64 now = Inr n"
      "t' = row_update (open_before ''approved'' i n) (write_status ''consumed'') t"
      "inspect f 5 i pid t' = Inr (ag_approval g)"
    unfolding consume_grant_def Let_def open_before_def [abs_def] write_status_def [abs_def]
    by (auto split: sum.splits option.splits if_splits)
  from load obtain r where "row_lookup ra_id i t = Some r" "decode_raw r = Inr a"
    by (cases "row_lookup ra_id i t") (auto simp: load_approval_def split: if_splits)
  moreover have "now < pa_expires_at a" "pa_principal_id a = pid" "i64_of_u64 now = Some n"
    using facts by (auto simp: status_at_def ensure_principal_def to_i64_def not_le split: if_splits)
  ultimately show thesis using that facts by blast
qed

lemma redeemed_row_consumed:
  assumes "row_lookup ra_id i t = Some r" "decode_raw r = Inr a" "pa_status a = Approved"
    and "now < pa_expires_at a" and "i64_of_u64 now = Some n"
  shows "row_lookup ra_id i (row_update (open_before ''approved'' i n) (write_status ''consumed'') t)
       = Some (write_status ''consumed'' r)"
proof -
  have "ra_id r = i" using assms(1) by (auto dest: row_lookup_Some)
  moreover have "ra_status r = ''approved''" using decode_raw_ok(8) [OF assms(2)] assms(3) by simp
  moreover have "n < ra_expires_at r"
    using assms(4,5) u64_of_i64_uint [OF decode_raw_ok(9) [OF assms(2)]]
    by (auto simp: i64_of_u64_Some_iff word_less_def)
  ultimately have "open_before ''approved'' i n r" by (simp add: open_before_def)
  then show ?thesis using assms(1) by (subst row_lookup_update) simp_all
qed

definition approval_spent :: "approval_table \<Rightarrow> string \<Rightarrow> bool" where
  "approval_spent t i \<longleftrightarrow> (\<exists>r. row_lookup ra_id i t = Some r \<and> ra_status r = ''consumed'')"

lemma row_evolves_terminal:
  assumes "row_evolves r r'" and "ra_status r = approval_status_str s"
    and "s \<in> {Denied, Consumed, Expired}"
  shows "r' = r"
  using assms unfolding row_evolves_def by (auto simp: approval_step_from)

interpretation approvals: one_shot_store exec_approval_op redeems_approval approval_spent
proof
  fix x t k
  assume "redeems_approval x t = Some k"
  then obtain f pid sid eid gid dig now where x: "x = ConsumeGrantOp f k pid sid eid gid dig now"
    and ok: "is_ok (fst (consume_grant f k pid sid eid gid dig now t))"
    by (cases x) (auto split: if_splits)
  then obtain g t' where c: "consume_grant f k pid sid eid gid dig now t = (Inr g, t')"
    by (auto elim: is_ok_fst_cases)
  obtain r a n where row: "row_lookup ra_id k t = Some r" "decode_raw r = Inr a" "pa_status a = Approved"
    "now < pa_expires_at a" "i64_of_u64 now = Some n"
    and t': "t' = row_update (open_before ''approved'' k n) (write_status ''consumed'') t"
    by (rule consume_grant_ok [OF c])
  have "ra_status r = ''approved''" using decode_raw_ok(8) [OF row(2)] row(3) by simp
  with row(1) show "\<not> approval_spent t k" by (simp add: approval_spent_def)
  show "approval_spent (exec_approval_op x t) k"
    using x c t' redeemed_row_consumed [OF row] by (simp add: approval_spent_def write_status_def)
next
  fix x t k
  assume "approval_spent t k"
  then obtain r where r: "row_lookup ra_id k t = Some r" "ra_status r = approval_status_str Consumed"
    by (auto simp: approval_spent_def)
  then obtain r' where "row_lookup ra_id k (exec_approval_op x t) = Some r'" "row_evolves r r'"
    using exec_approval_evolves by blast
  with r row_evolves_terminal [of r r' Consumed] show "approval_spent (exec_approval_op x t) k"
    by (auto simp: approval_spent_def)
qed


section \<open>An approval needs a resolution\<close>

definition granted :: "approval_table \<Rightarrow> string \<Rightarrow> bool" where
  "granted t i \<longleftrightarrow> (\<exists>r. row_lookup ra_id i t = Some r \<and> ra_status r \<in> {''approved'', ''consumed''})"

fun approves :: "string \<Rightarrow> approval_op \<Rightarrow> bool" where
  "approves i (ResolveOp f j pid approver allow now) \<longleftrightarrow> j = i \<and> allow"
| "approves i _ \<longleftrightarrow> False"

text \<open>An approving resolution that takes effect: the approval was pending before it and is approved after it.\<close>

definition approval_given :: "string \<Rightarrow> approval_op \<Rightarrow> approval_table \<Rightarrow> bool" where
  "approval_given i x t \<longleftrightarrow>
     approves i x \<and> (\<exists>r. row_lookup ra_id i t = Some r \<and> ra_status r = ''pending'')
   \<and> (\<exists>r. row_lookup ra_id i (exec_approval_op x t) = Some r \<and> ra_status r = ''approved'')"

lemma granted_update:
  assumes "granted (row_update cond u t) i" and "\<And>r. ra_id (u r) = ra_id r"
  shows "granted t i \<or> (\<exists>r. row_lookup ra_id i t = Some r \<and> cond r \<and> ra_status (u r) \<in> {''approved'', ''consumed''})"
proof -
  have "row_lookup ra_id i (row_update cond u t) = map_option (\<lambda>r. if cond r then u r else r) (row_lookup ra_id i t)"
    using assms(2) by (intro row_lookup_update) auto
  with assms(1) show ?thesis by (auto simp: granted_def split: if_splits)
qed

lemma granted_step: "granted (exec_approval_op x t) i \<Longrightarrow> granted t i \<or> approval_given i x t"
proof (cases x)
  case (CreateOp f q now)
  assume "granted (exec_approval_op x t) i"
  then show ?thesis
    using create_table [of f q now t] CreateOp
    by (auto simp: granted_def split: option.splits if_splits)
next
  case (ResolveOp f j pid approver allow now)
  assume g: "granted (exec_approval_op x t) i"
  show ?thesis
    using resolve_table [of f j pid approver allow now t]
  proof (elim disjE exE)
    fix n
    assume "snd (resolve f j pid approver allow now t)
        = row_update (open_before ''pending'' j n) (write_resolution allow approver n) t"
    then have t': "exec_approval_op x t = row_update (open_before ''pending'' j n) (write_resolution allow approver n) t"
      using ResolveOp by simp
    have look: "row_lookup ra_id i (exec_approval_op x t)
        = map_option (\<lambda>r. if open_before ''pending'' j n r then write_resolution allow approver n r else r) (row_lookup ra_id i t)"
      unfolding t' by (intro row_lookup_update) (auto simp: write_resolution_def)
    obtain r where r: "row_lookup ra_id i t = Some r" "ra_id r = i" using g look by (auto simp: granted_def dest: row_lookup_Some)
    show ?thesis
    proof (cases "open_before ''pending'' j n r")
      case True
      then have "row_lookup ra_id i (exec_approval_op x t) = Some (write_resolution allow approver n r)" using look r by simp
      then have "approval_given i x t"
        using g r True ResolveOp by (auto simp: granted_def approval_given_def open_before_def write_resolution_def split: if_splits)
      then show ?thesis ..
    next
      case False
      then have "row_lookup ra_id i (exec_approval_op x t) = Some r" using look r by simp
      then show ?thesis using g r by (simp add: granted_def)
    qed
  qed (use g ResolveOp in \<open>auto dest!: granted_update simp: write_status_def\<close>)
next
  case (ConsumeGrantOp f j pid sid eid gid dig now)
  assume g: "granted (exec_approval_op x t) i"
  show ?thesis
    using consume_grant_table [of f j pid sid eid gid dig now t]
  proof (elim disjE exE)
    fix n
    assume "snd (consume_grant f j pid sid eid gid dig now t)
        = row_update (open_before ''approved'' j n) (write_status ''consumed'') t"
    with g ConsumeGrantOp have "granted (row_update (open_before ''approved'' j n) (write_status ''consumed'') t) i"
      by simp
    from granted_update [OF this] show ?thesis by (auto simp: open_before_def granted_def)
  qed (use g ConsumeGrantOp in \<open>auto dest!: granted_update simp: write_status_def\<close>)
qed

lemma granted_run:
  "granted (run_ops exec_approval_op xs t) i \<Longrightarrow>
     granted t i \<or> (\<exists>ys x zs. xs = ys @ x # zs \<and> approval_given i x (run_ops exec_approval_op ys t))"
proof (induction xs arbitrary: t)
  case Nil
  then show ?case by simp
next
  case (Cons x xs)
  consider "granted (exec_approval_op x t) i"
    | ys y zs where "xs = ys @ y # zs" "approval_given i y (run_ops exec_approval_op ys (exec_approval_op x t))"
    using Cons.IH [of "exec_approval_op x t"] Cons.prems by (auto simp del: exec_approval_op.simps)
  then show ?case
  proof cases
    case 1
    from granted_step [OF this] show ?thesis
    proof
      assume "approval_given i x t"
      then have "x # xs = [] @ x # xs \<and> approval_given i x (run_ops exec_approval_op [] t)" by simp
      then show ?thesis by blast
    qed simp
  next
    case 2
    then have "x # xs = (x # ys) @ y # zs \<and> approval_given i y (run_ops exec_approval_op (x # ys) t)" by simp
    then show ?thesis by blast
  qed
qed

lemma approval_keyed_step: "keyed ra_id t \<Longrightarrow> keyed ra_id (exec_approval_op x t)"
proof (cases x)
  case (CreateOp f q now)
  assume "keyed ra_id t"
  then show ?thesis using create_table [of f q now t] CreateOp by (auto simp: keyed_insert)
next
  case (ResolveOp f j pid approver allow now)
  assume "keyed ra_id t"
  then show ?thesis using resolve_table [of f j pid approver allow now t] ResolveOp
    by (auto intro!: keyed_update)
next
  case (ConsumeGrantOp f j pid sid eid gid dig now)
  assume "keyed ra_id t"
  then show ?thesis using consume_grant_table [of f j pid sid eid gid dig now t] ConsumeGrantOp
    by (auto intro!: keyed_update)
qed

section \<open>Properties\<close>

text \<open>Whatever operation is run and whichever database calls fail, an existing approval is
  never deleted, its identity, scope, digest, policy version and expiry never change, and its status
  moves at most one step along pending to approved, denied or expired, and approved to consumed or
  expired; a denied, consumed or expired approval is frozen.\<close>

lemma approval_life_cycle:
  assumes "row_lookup ra_id i t = Some r"
  shows "\<exists>r'. row_lookup ra_id i (exec_approval_op x t) = Some r' \<and> row_evolves r r'
    \<and> (ra_status r \<in> {''denied'', ''consumed'', ''expired''} \<longrightarrow> r' = r)"
proof -
  obtain r' where r': "row_lookup ra_id i (exec_approval_op x t) = Some r'" "row_evolves r r'"
    using exec_approval_evolves [OF assms] by blast
  have "r' = r" if "ra_status r \<in> {''denied'', ''consumed'', ''expired''}"
    using that row_evolves_terminal [OF r'(2), of Denied] row_evolves_terminal [OF r'(2), of Consumed]
      row_evolves_terminal [OF r'(2), of Expired]
    by auto
  with r' show ?thesis by blast
qed

definition demo_row :: "string \<Rightarrow> raw_approval" where
  "demo_row st =
     \<lparr>ra_id = ''approval-1'', ra_session_id = ''session-1'', ra_execution_id = ''execution-1'',
      ra_principal_id = ''principal-1'', ra_gene_id = ''gene-1'', ra_request_digest = ''digest-1'',
      ra_request_summary = ''write a file'', ra_policy_version = 1, ra_expires_at = 100,
      ra_status = st, ra_approver_id = None, ra_resolved_at = None, ra_created_at = 5\<rparr>"

lemma demo_lookup: "row_lookup ra_id ''approval-1'' [demo_row st] = Some (demo_row st)"
  by (simp add: row_lookup_def demo_row_def)

lemma approval_life_cycle_witness:
  "\<exists>r'. row_lookup ra_id ''approval-1''
         (exec_approval_op (ResolveOp no_faults ''approval-1'' ''principal-1'' ''boss'' True 10)
           [demo_row ''denied'']) = Some r' \<and> r' = demo_row ''denied''"
  using approval_life_cycle [OF demo_lookup [of "''denied''"],
      of "ResolveOp no_faults ''approval-1'' ''principal-1'' ''boss'' True 10"]
  by (auto simp: demo_row_def)

text \<open>C32: an approval is redeemed at most once in every sequence of operations on the store, even
  when database calls fail at arbitrary points.\<close>

theorem approval_redeemed_at_most_once:
  "distinct (redemptions exec_approval_op redeems_approval xs t)"
  by (rule approvals.redeemed_once)

text \<open>C4: nothing is redeemed without a human decision: if, in a store that started empty, an
  approval is redeemed, then an approving resolution of that very approval was among the
  operations before, and it took effect: the approval was pending when it was decided and approved then.\<close>

theorem redeemed_approval_was_approved:
  assumes "redeems_approval x (run_ops exec_approval_op xs []) = Some i"
  shows "\<exists>ys y zs. xs = ys @ y # zs \<and> approval_given i y (run_ops exec_approval_op ys [])"
proof -
  let ?t = "run_ops exec_approval_op xs []"
  from assms obtain f pid sid eid gid dig now where x: "x = ConsumeGrantOp f i pid sid eid gid dig now"
    and ok: "is_ok (fst (consume_grant f i pid sid eid gid dig now ?t))"
    by (cases x) (auto split: if_splits)
  then obtain g t' where c: "consume_grant f i pid sid eid gid dig now ?t = (Inr g, t')"
    by (auto elim: is_ok_fst_cases)
  obtain r a where "row_lookup ra_id i ?t = Some r" "decode_raw r = Inr a" "pa_status a = Approved"
    by (rule consume_grant_ok [OF c])
  then have "granted ?t i" using decode_raw_ok(8) by (auto simp: granted_def)
  then show ?thesis using granted_run [of xs "[]" i] by (auto simp: granted_def row_lookup_def)
qed

definition demo_approval_request :: approval_request where
  "demo_approval_request =
     \<lparr>ar_id = ''approval-1'', ar_session_id = ''session-1'', ar_execution_id = ''execution-1'',
      ar_principal_id = ''principal-1'', ar_gene_id = ''gene-1'', ar_request_digest = ''digest-1'',
      ar_request_summary = ''write a file'', ar_policy_version = 1, ar_expires_at = 100\<rparr>"

lemma demo_resolve:
  "snd (resolve no_faults ''approval-1'' ''principal-1'' ''boss'' True 10 [demo_row ''pending''])
     = [(demo_row ''approved'')\<lparr>ra_approver_id := Some ''boss'', ra_resolved_at := Some 10\<rparr>]"
  by code_simp

lemma demo_consume:
  "is_ok (fst (consume_grant no_faults ''approval-1'' ''principal-1'' ''session-1'' ''execution-1'' ''gene-1''
     ''digest-1'' 11 [(demo_row ''approved'')\<lparr>ra_approver_id := Some ''boss'', ra_resolved_at := Some 10\<rparr>]))"
  by code_simp

theorem redeemed_approval_was_approved_witness:
  "\<exists>ys y zs. [CreateOp no_faults demo_approval_request 5, ResolveOp no_faults ''approval-1'' ''principal-1'' ''boss'' True 10]
      = ys @ y # zs \<and> approval_given ''approval-1'' y (run_ops exec_approval_op ys [])"
proof (rule redeemed_approval_was_approved [of "ConsumeGrantOp no_faults ''approval-1'' ''principal-1''
      ''session-1'' ''execution-1'' ''gene-1'' ''digest-1'' 11"])
  have "snd (create no_faults demo_approval_request 5 []) = [demo_row ''pending'']"
    by (simp add: create_def no_faults_def demo_approval_request_def demo_row_def to_i64_def i64_of_u64_def
        row_lookup_def row_insert_def Let_def)
  then show "redeems_approval (ConsumeGrantOp no_faults ''approval-1'' ''principal-1'' ''session-1''
      ''execution-1'' ''gene-1'' ''digest-1'' 11)
     (run_ops exec_approval_op
       [CreateOp no_faults demo_approval_request 5,
        ResolveOp no_faults ''approval-1'' ''principal-1'' ''boss'' True 10] []) = Some ''approval-1''"
    using demo_consume by (simp add: demo_resolve)
qed

text \<open>A grant carries the consumed approval itself: the redeemed approval belongs to the calling
  principal, session, execution and gene, has the request digest asked for and an expiry after the
  time of redemption, and its status is consumed.\<close>

lemma grant_is_scoped:
  assumes "consume_grant f i pid sid eid gid dig now t = (Inr g, t')"
  shows "pa_id (ag_approval g) = i \<and> pa_principal_id (ag_approval g) = pid
       \<and> pa_session_id (ag_approval g) = sid \<and> pa_execution_id (ag_approval g) = eid
       \<and> pa_gene_id (ag_approval g) = gid \<and> pa_request_digest (ag_approval g) = dig
       \<and> now < pa_expires_at (ag_approval g) \<and> pa_status (ag_approval g) = Consumed"
proof -
  obtain r a n where row: "row_lookup ra_id i t = Some r" "decode_raw r = Inr a" "pa_status a = Approved"
    "now < pa_expires_at a" "i64_of_u64 now = Some n"
    and scope: "pa_principal_id a = pid" "pa_session_id a = sid" "pa_execution_id a = eid"
      "pa_gene_id a = gid" "pa_request_digest a = dig"
    and t': "t' = row_update (open_before ''approved'' i n) (write_status ''consumed'') t"
    and ins: "inspect f 5 i pid t' = Inr (ag_approval g)"
    by (rule consume_grant_ok [OF assms])
  have "row_lookup ra_id i t' = Some (write_status ''consumed'' r)"
    using redeemed_row_consumed [OF row] t' by simp
  with ins have dec: "decode_raw (write_status ''consumed'' r) = Inr (ag_approval g)"
    by (auto simp: inspect_def inspect_unscoped_def load_approval_def split: if_splits)
  have "ra_id r = i" using row(1) by (auto dest: row_lookup_Some)
  moreover have "pa_status (ag_approval g) = Consumed"
    using decode_raw_ok(8) [OF dec] by (cases "pa_status (ag_approval g)") (simp_all add: write_status_def)
  ultimately show ?thesis
    using decode_raw_ok [OF dec] decode_raw_ok [OF row(2)] scope row(4)
    by (simp add: write_status_def)
qed

lemma grant_is_scoped_witness:
  "\<exists>g :: approval_grant. pa_id (ag_approval g) = ''approval-1'' \<and> pa_principal_id (ag_approval g) = ''principal-1''
     \<and> pa_session_id (ag_approval g) = ''session-1'' \<and> pa_execution_id (ag_approval g) = ''execution-1''
     \<and> pa_gene_id (ag_approval g) = ''gene-1'' \<and> pa_request_digest (ag_approval g) = ''digest-1''
     \<and> 11 < pa_expires_at (ag_approval g) \<and> pa_status (ag_approval g) = Consumed"
proof -
  obtain g t' where "consume_grant no_faults ''approval-1'' ''principal-1'' ''session-1'' ''execution-1'' ''gene-1''
      ''digest-1'' 11 [(demo_row ''approved'')\<lparr>ra_approver_id := Some ''boss'', ra_resolved_at := Some 10\<rparr>]
      = (Inr g, t')"
    by (rule is_ok_fst_cases [OF demo_consume])
  from grant_is_scoped [OF this] show ?thesis by (rule exI [where x = g])
qed

text \<open>The summary filter hides the word \<open>Bearer\<close> and leaves the credential that follows it
  in the stored summary, because it tests white-space separated words one at a time.\<close>

lemma redact_summary_keeps_bearer_credential:
  "redact_summary ''Authorization: Bearer abc123'' = ''Authorization: [redacted] abc123''"
  by code_simp

end
