(* ===== verification/Reference_Monitor.thy ===== *)
theory Reference_Monitor
  imports Permit_Store Approvals
begin

text \<open>
  The sole issuer of permits, \<open>pandora-runtime/src/reference_monitor.rs\<close>. The atomic nonce
  counter and the shared permit store are fields of the monitor's state; an operation returns
  its result and the new state. The nonce is taken before the expiry is computed, so a failing
  call may still advance the counter, as in the code.
\<close>

section \<open>State and operations\<close>

record reference_monitor =
  rm_parliament :: parliament
  rm_policy :: policy_context
  rm_policy_version :: u32
  rm_permit_ttl_seconds :: u64
  rm_next_nonce :: u64
  rm_store :: permit_store

datatype authorization_error =
  RequestMismatch
| DecisionMismatch
| PolicyMismatch
| Denied string
| ApprovalRequired string
| ApprovalEvidenceRequired
| ApprovalNotRequired
| ExpiryOverflow
| NonceExhausted
| InvalidPermitId
| Store permit_error

definition new_with_policy :: "policy_context \<Rightarrow> u64 \<Rightarrow> reference_monitor" where
  "new_with_policy policy ttl =
     \<lparr>rm_parliament = \<lparr>pl_policy_version = pc_policy_version policy\<rparr>,
      rm_policy = policy, rm_policy_version = pc_policy_version policy,
      rm_permit_ttl_seconds = ttl, rm_next_nonce = 1, rm_store = new_permit_store\<rparr>"

definition new_monitor :: "u32 \<Rightarrow> u64 \<Rightarrow> reference_monitor" where
  "new_monitor policy_version ttl =
     new_with_policy
       (new_policy policy_version [FilesystemRead, ProviderInvoke] [Write, Execute, Connect, Install])
       ttl"

definition update_policy :: "policy_context \<Rightarrow> reference_monitor \<Rightarrow> reference_monitor" where
  "update_policy policy m =
     m\<lparr>rm_parliament := \<lparr>pl_policy_version = pc_policy_version policy\<rparr>,
       rm_policy := policy, rm_policy_version := pc_policy_version policy\<rparr>"

definition governance_mode_of :: "reference_monitor \<Rightarrow> governance_mode" where
  "governance_mode_of m = mode_of (rm_policy m)"

definition validate_decision ::
  "reference_monitor \<Rightarrow> operation_request \<Rightarrow> parliament_decision \<Rightarrow> (authorization_error, unit) outcome" where
  "validate_decision m r d =
     (if decide (rm_parliament m) r (rm_policy m) \<noteq> d then Inl DecisionMismatch
      else if pd_request_digest d \<noteq> rq_request_digest r then Inl RequestMismatch
      else if pd_policy_version d \<noteq> rm_policy_version m then Inl PolicyMismatch
      else Inr ())"

definition permit_name :: "u64 \<Rightarrow> string" where
  "permit_name nonce = ''permit-'' @ show_nat (unat nonce)"

definition issue_permit ::
  "operation_request \<Rightarrow> timestamp \<Rightarrow> reference_monitor
     \<Rightarrow> (authorization_error, effect_permit) outcome \<times> reference_monitor" where
  "issue_permit r now m =
     (let nonce = rm_next_nonce m in
      case checked_add nonce 1 of
        None \<Rightarrow> (Inl NonceExhausted, m)
      | Some nxt \<Rightarrow>
          let m = m\<lparr>rm_next_nonce := nxt\<rparr> in
          (case checked_add now (rm_permit_ttl_seconds m) of
             None \<Rightarrow> (Inl ExpiryOverflow, m)
           | Some expires_at \<Rightarrow>
               (case new_id (permit_name nonce) of
                  Inl _ \<Rightarrow> (Inl InvalidPermitId, m)
                | Inr pid \<Rightarrow>
                    let p = issue pid r (rm_policy_version m) nonce now expires_at in
                    (case register p (rm_store m) of
                       (Inl e, s) \<Rightarrow> (Inl (Store e), m\<lparr>rm_store := s\<rparr>)
                     | (Inr _, s) \<Rightarrow> (Inr p, m\<lparr>rm_store := s\<rparr>)))))"

definition authorize ::
  "operation_request \<Rightarrow> parliament_decision \<Rightarrow> timestamp \<Rightarrow> reference_monitor
     \<Rightarrow> (authorization_error, effect_permit) outcome \<times> reference_monitor" where
  "authorize r d now m =
     (case validate_decision m r d of
        Inl e \<Rightarrow> (Inl e, m)
      | Inr _ \<Rightarrow>
          (case d of
             Allow _ _ _ \<Rightarrow> issue_permit r now m
           | Deny _ _ reason \<Rightarrow> (Inl (Denied reason), m)
           | RequireApproval _ _ reason \<Rightarrow> (Inl (ApprovalRequired reason), m)))"

definition authorize_after_approval ::
  "operation_request \<Rightarrow> parliament_decision \<Rightarrow> timestamp \<Rightarrow> reference_monitor
     \<Rightarrow> (authorization_error, effect_permit) outcome \<times> reference_monitor" where
  "authorize_after_approval r d now m =
     (if \<not> decision_requires_approval d then (Inl ApprovalNotRequired, m)
      else case validate_decision m r d of
        Inl e \<Rightarrow> (Inl e, m)
      | Inr _ \<Rightarrow> (Inl ApprovalEvidenceRequired, m))"

definition authorize_after_approval_with_grant ::
  "operation_request \<Rightarrow> parliament_decision \<Rightarrow> approval_grant \<Rightarrow> timestamp \<Rightarrow> reference_monitor
     \<Rightarrow> (authorization_error, effect_permit) outcome \<times> reference_monitor" where
  "authorize_after_approval_with_grant r d g now m =
     (if \<not> decision_requires_approval d then (Inl ApprovalNotRequired, m)
      else case validate_decision m r d of
        Inl e \<Rightarrow> (Inl e, m)
      | Inr _ \<Rightarrow>
          if \<not> grant_matches g r (rm_policy_version m) then (Inl RequestMismatch, m)
          else issue_permit r now m)"

definition consume_permit ::
  "effect_permit \<Rightarrow> operation_request \<Rightarrow> timestamp \<Rightarrow> reference_monitor
     \<Rightarrow> (permit_error, consumed_permit) outcome \<times> reference_monitor" where
  "consume_permit p r now m =
     (case consume p r now (rm_store m) of (res, s) \<Rightarrow> (res, m\<lparr>rm_store := s\<rparr>))"


section \<open>The monitor's invariant\<close>

definition monitor_inv :: "reference_monitor \<Rightarrow> bool" where
  "monitor_inv m \<longleftrightarrow>
     pl_policy_version (rm_parliament m) = rm_policy_version m
   \<and> pc_policy_version (rm_policy m) = rm_policy_version m
   \<and> 0 < rm_next_nonce m
   \<and> (\<forall>k x. rm_store m k = Some x \<longrightarrow>
        k = permit_name (pm_nonce (st_permit x)) \<and> pm_permit_id (st_permit x) = k
      \<and> 0 < pm_nonce (st_permit x) \<and> pm_nonce (st_permit x) < rm_next_nonce m
      \<and> pm_issued_at (st_permit x) \<le> pm_expires_at (st_permit x))"

lemma permit_name_inject [simp]: "permit_name a = permit_name b \<longleftrightarrow> a = b"
  by (simp add: permit_name_def word_unat_eq_iff)

lemma permit_name_valid [simp]: "valid_id (permit_name n)"
proof (rule valid_id_visible)
  show "permit_name n \<noteq> []" "visible (hd (permit_name n))"
    by (simp_all add: permit_name_def visible_def)
  show "visible (last (permit_name n))" by (simp add: permit_name_def)
  show "length (permit_name n) \<le> 256" using show_nat_u64_length [of n] by (simp add: permit_name_def)
qed

lemma new_with_policy_inv: "monitor_inv (new_with_policy policy ttl)"
  by (simp add: monitor_inv_def new_with_policy_def new_permit_store_def)

lemma new_with_policy_store: "rm_store (new_with_policy policy ttl) = Map.empty"
  by (simp add: new_with_policy_def new_permit_store_def)

lemma update_policy_inv: "monitor_inv m \<Longrightarrow> monitor_inv (update_policy policy m)"
  by (simp add: monitor_inv_def update_policy_def)

lemma monitor_inv_stored:
  assumes "monitor_inv m" and "rm_store m k = Some x"
  shows "k = permit_name (pm_nonce (st_permit x))" and "pm_permit_id (st_permit x) = k"
    and "0 < pm_nonce (st_permit x)" and "pm_nonce (st_permit x) < rm_next_nonce m"
    and "pm_issued_at (st_permit x) \<le> pm_expires_at (st_permit x)"
  using assms unfolding monitor_inv_def by blast+

lemma fresh_nonce:
  assumes "monitor_inv m"
  shows "rm_store m (permit_name (rm_next_nonce m)) = None"
proof (cases "rm_store m (permit_name (rm_next_nonce m))")
  case (Some x)
  then show ?thesis using monitor_inv_stored(1,4) [OF assms Some] by simp
qed

lemma new_id_permit_name [simp]: "new_id (permit_name n) = Inr (permit_name n)"
  by simp

text \<open>Under the invariant a permit fails to be issued only by exhaustion of the two counters.\<close>

lemma issue_permit_cases:
  assumes "monitor_inv m"
  shows "issue_permit r now m =
    (case checked_add (rm_next_nonce m) 1 of
       None \<Rightarrow> (Inl NonceExhausted, m)
     | Some nxt \<Rightarrow>
         (case checked_add now (rm_permit_ttl_seconds m) of
            None \<Rightarrow> (Inl ExpiryOverflow, m\<lparr>rm_next_nonce := nxt\<rparr>)
          | Some expires \<Rightarrow>
              let p = issue (permit_name (rm_next_nonce m)) r (rm_policy_version m) (rm_next_nonce m) now expires
              in (Inr p, m\<lparr>rm_next_nonce := nxt,
                   rm_store := (rm_store m)(pm_permit_id p \<mapsto> \<lparr>st_permit = p, st_state = permit_state.Active\<rparr>)\<rparr>)))"
  using fresh_nonce [OF assms]
  by (auto simp: issue_permit_def Let_def register_def issue_def
      split: option.splits if_splits)

lemma issue_permit_inv:
  assumes "monitor_inv m"
  shows "monitor_inv (snd (issue_permit r now m))"
proof (cases "checked_add (rm_next_nonce m) 1")
  case None
  then show ?thesis using assms by (simp add: issue_permit_cases)
next
  case (Some nxt)
  then have nxt: "unat nxt = unat (rm_next_nonce m) + 1" by (simp add: word_bounds)
  then have lt: "rm_next_nonce m < nxt" by (simp add: word_less_nat_alt)
  have inv': "monitor_inv (m\<lparr>rm_next_nonce := nxt\<rparr>)"
    using assms lt by (force simp: monitor_inv_def)
  show ?thesis
  proof (cases "checked_add now (rm_permit_ttl_seconds m)")
    case None
    with Some inv' assms show ?thesis by (simp add: issue_permit_cases)
  next
    case exp: (Some expires)
    then have "now \<le> expires" by (simp add: word_bounds word_le_nat_alt)
    with Some exp inv' assms lt show ?thesis
      by (auto simp: issue_permit_cases monitor_inv_def issue_def Let_def)
  qed
qed


lemma issue_permit_is_ok:
  assumes "monitor_inv m"
  shows "is_ok (fst (issue_permit r now m)) \<longleftrightarrow>
    unat (rm_next_nonce m) + 1 < 2 ^ 64 \<and> unat now + unat (rm_permit_ttl_seconds m) < 2 ^ 64"
  by (simp add: issue_permit_cases [OF assms] checked_add_def Let_def)


section \<open>Every operation of the monitor\<close>

datatype monitor_op =
  UpdatePolicyOp policy_context
| AuthorizeOp operation_request parliament_decision timestamp
| AuthorizeAfterApprovalOp operation_request parliament_decision timestamp
| AuthorizeWithGrantOp operation_request parliament_decision approval_grant timestamp
| ConsumePermitOp effect_permit operation_request timestamp

fun exec_monitor_op :: "monitor_op \<Rightarrow> reference_monitor \<Rightarrow> reference_monitor" where
  "exec_monitor_op (UpdatePolicyOp policy) m = update_policy policy m"
| "exec_monitor_op (AuthorizeOp r d now) m = snd (authorize r d now m)"
| "exec_monitor_op (AuthorizeAfterApprovalOp r d now) m = snd (authorize_after_approval r d now m)"
| "exec_monitor_op (AuthorizeWithGrantOp r d g now) m =
     snd (authorize_after_approval_with_grant r d g now m)"
| "exec_monitor_op (ConsumePermitOp p r now) m = snd (consume_permit p r now m)"

text \<open>The permit an operation hands out, if any, and the request it is for.\<close>

fun issued_by :: "monitor_op \<Rightarrow> reference_monitor \<Rightarrow> effect_permit option" where
  "issued_by (AuthorizeOp r d now) m = ok (fst (authorize r d now m))"
| "issued_by (AuthorizeAfterApprovalOp r d now) m = ok (fst (authorize_after_approval r d now m))"
| "issued_by (AuthorizeWithGrantOp r d g now) m =
     ok (fst (authorize_after_approval_with_grant r d g now m))"
| "issued_by _ m = None"

fun op_request :: "monitor_op \<Rightarrow> operation_request option" where
  "op_request (AuthorizeOp r d now) = Some r"
| "op_request (AuthorizeAfterApprovalOp r d now) = Some r"
| "op_request (AuthorizeWithGrantOp r d g now) = Some r"
| "op_request _ = None"

fun redeems_monitor :: "monitor_op \<Rightarrow> reference_monitor \<Rightarrow> permit_id option" where
  "redeems_monitor (ConsumePermitOp p r now) m =
     (if is_ok (fst (consume_permit p r now m)) then Some (pm_permit_id p) else None)"
| "redeems_monitor _ m = None"

lemma snd_consume_permit: "snd (consume_permit p r now m) = m\<lparr>rm_store := snd (consume p r now (rm_store m))\<rparr>"
  by (simp add: consume_permit_def split: prod.splits)

lemma fst_consume_permit: "fst (consume_permit p r now m) = fst (consume p r now (rm_store m))"
  by (simp add: consume_permit_def split: prod.splits)

lemma snd_authorize:
  "snd (authorize r d now m) = m \<or> snd (authorize r d now m) = snd (issue_permit r now m)"
  by (auto simp: authorize_def split: sum.splits parliament_decision.splits)

lemma snd_authorize_with_grant:
  "snd (authorize_after_approval_with_grant r d g now m) = m
   \<or> snd (authorize_after_approval_with_grant r d g now m) = snd (issue_permit r now m)"
  by (auto simp: authorize_after_approval_with_grant_def split: sum.splits)

lemma snd_authorize_after_approval [simp]: "snd (authorize_after_approval r d now m) = m"
  by (auto simp: authorize_after_approval_def split: sum.splits)

lemma consume_permit_inv:
  assumes "monitor_inv m"
  shows "monitor_inv (snd (consume_permit p r now m))"
proof (cases "redeemable (rm_store m) p r now")
  case True
  then have "rm_store m (pm_permit_id p) = Some \<lparr>st_permit = p, st_state = permit_state.Active\<rparr>"
    by (simp add: redeemable_def)
  from monitor_inv_stored [OF assms this] True assms show ?thesis
    by (simp add: snd_consume_permit snd_consume monitor_inv_def)
qed (use assms in \<open>simp add: snd_consume_permit snd_consume\<close>)

lemma exec_monitor_inv: "monitor_inv m \<Longrightarrow> monitor_inv (exec_monitor_op x m)"
proof (cases x)
  case (AuthorizeOp r d now)
  assume "monitor_inv m"
  then show ?thesis using AuthorizeOp snd_authorize [of r d now m] issue_permit_inv by auto
next
  case (AuthorizeWithGrantOp r d g now)
  assume "monitor_inv m"
  then show ?thesis
    using AuthorizeWithGrantOp snd_authorize_with_grant [of r d g now m] issue_permit_inv by auto
qed (auto intro: update_policy_inv consume_permit_inv)

lemma monitor_run_inv: "monitor_inv m \<Longrightarrow> monitor_inv (run_ops exec_monitor_op xs m)"
  by (rule run_ops_invariant [where I = monitor_inv]) (auto intro: exec_monitor_inv)


section \<open>What authorization requires\<close>

lemma validate_decision_ok:
  "validate_decision m r d = Inr u \<longleftrightarrow>
     d = decide (rm_parliament m) r (rm_policy m) \<and> pc_policy_version (rm_policy m) = rm_policy_version m"
  using parliament_authority.decision_digest [of "rm_parliament m" r "rm_policy m"]
    parliament_authority.decision_version [of "rm_parliament m" r "rm_policy m"]
  by (auto simp: validate_decision_def)

text \<open>The policy in force lets the request's effect happen, with or without an approval.\<close>

definition enabled :: "reference_monitor \<Rightarrow> operation_request \<Rightarrow> bool" where
  "enabled m r \<longleftrightarrow>
     pc_policy_version (rm_policy m) = pl_policy_version (rm_parliament m)
   \<and> allows (rm_policy m) (rq_capability r)"

lemma authorize_ok:
  assumes "authorize r d now m = (Inr p, m')"
  shows "d = decide (rm_parliament m) r (rm_policy m)" and "enabled m r"
    and "\<not> requires_approval (rm_policy m) (rq_operation r)"
    and "issue_permit r now m = (Inr p, m')"
proof -
  from assms show d: "d = decide (rm_parliament m) r (rm_policy m)"
    and "issue_permit r now m = (Inr p, m')"
    by (auto simp: authorize_def validate_decision_ok split: sum.splits parliament_decision.splits)
  have "\<exists>a b c. d = Allow a b c"
    using assms by (auto simp: authorize_def split: sum.splits parliament_decision.splits)
  with d parliament_authority.allow_iff [of "rm_parliament m" r "rm_policy m"]
  show "enabled m r" "\<not> requires_approval (rm_policy m) (rq_operation r)"
    by (auto simp: enabled_def)
qed

lemma authorize_with_grant_ok:
  assumes "authorize_after_approval_with_grant r d g now m = (Inr p, m')"
  shows "d = decide (rm_parliament m) r (rm_policy m)" and "enabled m r"
    and "requires_approval (rm_policy m) (rq_operation r)"
    and "grant_matches g r (rm_policy_version m)"
    and "issue_permit r now m = (Inr p, m')"
proof -
  from assms have req: "decision_requires_approval d"
    and d: "d = decide (rm_parliament m) r (rm_policy m)"
    and g: "grant_matches g r (rm_policy_version m)"
    and i: "issue_permit r now m = (Inr p, m')"
    by (auto simp: authorize_after_approval_with_grant_def validate_decision_ok split: sum.splits if_splits)
  show "d = decide (rm_parliament m) r (rm_policy m)" "grant_matches g r (rm_policy_version m)"
    "issue_permit r now m = (Inr p, m')"
    by (fact d g i)+
  show "enabled m r" "requires_approval (rm_policy m) (rq_operation r)"
    using req d parliament_authority.approval_iff [of "rm_parliament m" r "rm_policy m"]
    by (auto simp: enabled_def)
qed

lemma issue_permit_ok:
  assumes "monitor_inv m" and "issue_permit r now m = (Inr p, m')"
  shows "pm_request_digest p = rq_request_digest r" and "pm_issued_at p = now"
    and "unat (pm_expires_at p) = unat now + unat (rm_permit_ttl_seconds m)"
    and "pm_policy_version p = rm_policy_version m"
    and "rm_store m (pm_permit_id p) = None"
    and "rm_store m' = (rm_store m)(pm_permit_id p \<mapsto> \<lparr>st_permit = p, st_state = permit_state.Active\<rparr>)"
  using assms(2) fresh_nonce [OF assms(1)]
  by (auto simp: issue_permit_cases [OF assms(1)] issue_def Let_def word_bounds split: option.splits)

lemma authorize_after_approval_no_permit: "issued_by (AuthorizeAfterApprovalOp r d now) m = None"
  by (auto simp: authorize_after_approval_def split: sum.splits)

text \<open>An operation that issues a permit, and the conditions it met.\<close>

definition justified :: "monitor_op \<Rightarrow> reference_monitor \<Rightarrow> effect_permit \<Rightarrow> bool" where
  "justified x m p \<longleftrightarrow>
     (\<exists>r. op_request x = Some r \<and> pm_request_digest p = rq_request_digest r \<and> enabled m r
        \<and> unat (pm_expires_at p) = unat (pm_issued_at p) + unat (rm_permit_ttl_seconds m)
        \<and> (requires_approval (rm_policy m) (rq_operation r) \<longrightarrow>
             (\<exists>d g now. x = AuthorizeWithGrantOp r d g now \<and> grant_matches g r (rm_policy_version m))))"

lemma issued_justified:
  assumes "monitor_inv m" and "issued_by x m = Some p"
  shows "justified x m p"
proof (cases x)
  case (AuthorizeOp r d now)
  with assms(2) obtain m' where a: "authorize r d now m = (Inr p, m')"
    by (cases "authorize r d now m"; cases "fst (authorize r d now m)") auto
  show ?thesis
    using authorize_ok [OF a] issue_permit_ok [OF assms(1) authorize_ok(4) [OF a]] AuthorizeOp
    by (simp add: justified_def)
next
  case (AuthorizeAfterApprovalOp r d now)
  with assms(2) show ?thesis by (simp only: authorize_after_approval_no_permit) simp
next
  case (AuthorizeWithGrantOp r d g now)
  with assms(2) obtain m' where a: "authorize_after_approval_with_grant r d g now m = (Inr p, m')"
    by (cases "authorize_after_approval_with_grant r d g now m";
        cases "fst (authorize_after_approval_with_grant r d g now m)") auto
  show ?thesis
    using authorize_with_grant_ok [OF a] issue_permit_ok [OF assms(1) authorize_with_grant_ok(5) [OF a]]
      AuthorizeWithGrantOp
    by (simp add: justified_def)
qed (use assms in auto)

text \<open>A permit in the store after an operation was there before or is the one just issued.\<close>

lemma stored_permit_origin:
  assumes "monitor_inv m" and "rm_store (exec_monitor_op x m) k = Some y"
  shows "(\<exists>z. rm_store m k = Some z \<and> st_permit z = st_permit y) \<or> issued_by x m = Some (st_permit y)"
proof -
  have issue: "(\<exists>z. rm_store m k = Some z \<and> st_permit z = st_permit y)
      \<or> fst (issue_permit r now m) = Inr (st_permit y)"
    if "rm_store (snd (issue_permit r now m)) k = Some y" for r now
    using that by (auto simp: issue_permit_cases [OF assms(1)] Let_def split: option.splits if_splits)
  show ?thesis
  proof (cases x)
    case (AuthorizeOp r d now)
    then show ?thesis using assms(2) issue [of r now]
      by (auto simp: authorize_def split: sum.splits parliament_decision.splits)
  next
    case (AuthorizeWithGrantOp r d g now)
    then show ?thesis using assms(2) issue [of r now]
      by (auto simp: authorize_after_approval_with_grant_def split: sum.splits if_splits)
  next
    case (ConsumePermitOp p r now)
    then show ?thesis using assms(2)
      by (auto simp: snd_consume_permit snd_consume redeemable_def split: if_splits)
  qed (use assms(2) in \<open>auto simp: update_policy_def\<close>)
qed

lemma stored_permit_justified:
  assumes "monitor_inv m" and "rm_store m = Map.empty"
    and "rm_store (run_ops exec_monitor_op xs m) k = Some y"
  shows "\<exists>ys x zs. xs = ys @ x # zs \<and> issued_by x (run_ops exec_monitor_op ys m) = Some (st_permit y)"
  using assms(3)
proof (induction xs arbitrary: y rule: rev_induct)
  case Nil
  then show ?case using assms(2) by simp
next
  case (snoc x xs)
  let ?m = "run_ops exec_monitor_op xs m"
  have inv: "monitor_inv ?m" by (rule monitor_run_inv [OF assms(1)])
  have "rm_store (exec_monitor_op x ?m) k = Some y" using snoc.prems by (simp add: run_ops_append)
  from stored_permit_origin [OF inv this] show ?case
  proof
    assume "\<exists>z. rm_store ?m k = Some z \<and> st_permit z = st_permit y"
    then obtain z where "rm_store ?m k = Some z" "st_permit z = st_permit y" by blast
    with snoc.IH obtain ys v zs where "xs = ys @ v # zs"
      "issued_by v (run_ops exec_monitor_op ys m) = Some (st_permit y)" by metis
    then show ?thesis by (metis append_Cons append_assoc)
  next
    assume "issued_by x ?m = Some (st_permit y)"
    then show ?thesis by blast
  qed
qed

definition monitor_spent :: "reference_monitor \<Rightarrow> permit_id \<Rightarrow> bool" where
  "monitor_spent m k \<longleftrightarrow> permit_spent (rm_store m) k"

section \<open>Properties\<close>

lemma monitor_spent_kept_issue:
  "permit_spent (rm_store m) k \<Longrightarrow> permit_spent (rm_store (snd (issue_permit r now m))) k"
  by (auto simp: issue_permit_def Let_def register_def permit_spent_def split: option.splits sum.splits if_splits)

interpretation monitor: one_shot_store exec_monitor_op redeems_monitor monitor_spent
proof
  fix x m k
  assume "redeems_monitor x m = Some k"
  then obtain p r now where x: "x = ConsumePermitOp p r now" and k: "k = pm_permit_id p"
    and red: "redeemable (rm_store m) p r now"
    by (cases x) (auto simp: fst_consume_permit consume_ok_iff split: if_splits)
  then show "\<not> monitor_spent m k" by (auto simp: monitor_spent_def permit_spent_def redeemable_def)
  show "monitor_spent (exec_monitor_op x m) k"
    using x k red by (simp add: monitor_spent_def snd_consume_permit snd_consume permit_spent_def)
next
  fix x m k
  assume s: "monitor_spent m k"
  show "monitor_spent (exec_monitor_op x m) k"
  proof (cases x)
    case (AuthorizeOp r d now)
    then show ?thesis using s snd_authorize [of r d now m] monitor_spent_kept_issue [of m k r now]
      by (auto simp: monitor_spent_def)
  next
    case (AuthorizeWithGrantOp r d g now)
    then show ?thesis using s snd_authorize_with_grant [of r d g now m] monitor_spent_kept_issue [of m k r now]
      by (auto simp: monitor_spent_def)
  next
    case (ConsumePermitOp p r now)
    then show ?thesis using s by (auto simp: monitor_spent_def snd_consume_permit snd_consume permit_spent_def)
  qed (use s in \<open>auto simp: monitor_spent_def update_policy_def\<close>)
qed

text \<open>C2: complete mediation. In every run of the monitor from its initial state, a permit can be
  consumed for a request only if an earlier operation of the run issued that very permit for a
  request with the same digest; at that moment the policy in force enabled the capability, and if
  the operation needed approval the issuing call presented a matching approval grant; the clock at
  consumption is inside the permit's window, whose length is the configured lifetime.\<close>

theorem consumed_permit_was_authorized:
  assumes "consume_permit p r now (run_ops exec_monitor_op xs (new_with_policy policy ttl)) = (Inr c, m')"
  shows "\<exists>ys x zs r0. xs = ys @ x # zs
    \<and> issued_by x (run_ops exec_monitor_op ys (new_with_policy policy ttl)) = Some p
    \<and> justified x (run_ops exec_monitor_op ys (new_with_policy policy ttl)) p
    \<and> op_request x = Some r0 \<and> rq_request_digest r0 = rq_request_digest r
    \<and> pm_issued_at p \<le> now \<and> now < pm_expires_at p"
proof -
  let ?init = "new_with_policy policy ttl"
  let ?m = "run_ops exec_monitor_op xs ?init"
  have red: "redeemable (rm_store ?m) p r now"
    unfolding consume_ok_iff [symmetric] fst_consume_permit [symmetric] by (simp add: assms)
  then have st: "rm_store ?m (pm_permit_id p) = Some \<lparr>st_permit = p, st_state = permit_state.Active\<rparr>"
    by (simp add: redeemable_def)
  obtain ys x zs where split: "xs = ys @ x # zs"
    and iss: "issued_by x (run_ops exec_monitor_op ys ?init) = Some p"
    using stored_permit_justified [OF new_with_policy_inv new_with_policy_store st]
    unfolding stored_permit.select_convs by (elim exE conjE)
  have just: "justified x (run_ops exec_monitor_op ys ?init) p"
    by (rule issued_justified [OF monitor_run_inv [OF new_with_policy_inv] iss])
  then obtain r0 where req: "op_request x = Some r0" and dig: "pm_request_digest p = rq_request_digest r0"
    unfolding justified_def by blast
  have "rq_request_digest r0 = rq_request_digest r" "pm_issued_at p \<le> now" "now < pm_expires_at p"
    using red dig by (simp_all add: redeemable_def)
  with split iss just req show ?thesis by blast
qed

definition demo_decision :: "operation_request \<Rightarrow> parliament_decision" where
  "demo_decision r = Allow (rq_request_digest r) 1 ''capability and operation are allowed''"

definition demo_permit :: effect_permit where
  "demo_permit = issue ''permit-1'' (demo_request ''a'') 1 1 10 70"

lemma permit_name_1: "permit_name 1 = ''permit-1''"
  by code_simp

lemma demo_authorize:
  "authorize (demo_request ''a'') (demo_decision (demo_request ''a'')) 10 (new_monitor 1 60)
     = (Inr demo_permit,
        (new_monitor 1 60)\<lparr>rm_next_nonce := 2,
          rm_store := [''permit-1'' \<mapsto> \<lparr>st_permit = demo_permit, st_state = permit_state.Active\<rparr>]\<rparr>)"
proof -
  let ?m = "new_monitor 1 60"
  have inv: "monitor_inv ?m" by (simp add: new_monitor_def new_with_policy_inv)
  have "validate_decision ?m (demo_request ''a'') (demo_decision (demo_request ''a'')) = Inr ()"
    by (simp add: validate_decision_ok demo_decision_def new_monitor_def new_with_policy_def decide_def
        decision_defs policy_query_defs new_policy_def demo_request_def Let_def)
  moreover have "issue_permit (demo_request ''a'') 10 ?m = (Inr demo_permit,
        ?m\<lparr>rm_next_nonce := 2,
          rm_store := [''permit-1'' \<mapsto> \<lparr>st_permit = demo_permit, st_state = permit_state.Active\<rparr>]\<rparr>)"
    unfolding issue_permit_cases [OF inv]
    by (simp add: new_monitor_def new_with_policy_def checked_add_def permit_name_1 new_policy_def
        demo_permit_def issue_def new_permit_store_def Let_def)
  ultimately show ?thesis by (simp add: authorize_def demo_decision_def)
qed

theorem consumed_permit_was_authorized_witness:
  "\<exists>c m' ys x zs r0.
     consume_permit demo_permit (demo_request ''a'') 11
       (run_ops exec_monitor_op [AuthorizeOp (demo_request ''a'') (demo_decision (demo_request ''a'')) 10]
         (new_monitor 1 60)) = (Inr c, m')
   \<and> [AuthorizeOp (demo_request ''a'') (demo_decision (demo_request ''a'')) 10] = ys @ x # zs
   \<and> issued_by x (run_ops exec_monitor_op ys (new_monitor 1 60)) = Some demo_permit
   \<and> op_request x = Some r0 \<and> rq_request_digest r0 = rq_request_digest (demo_request ''a'')"
proof -
  let ?xs = "[AuthorizeOp (demo_request ''a'') (demo_decision (demo_request ''a'')) 10]"
  let ?m = "run_ops exec_monitor_op ?xs (new_monitor 1 60)"
  have "redeemable (rm_store ?m) demo_permit (demo_request ''a'') 11"
    by (simp add: demo_authorize redeemable_def demo_permit_def issue_def)
  then obtain c m' where c: "consume_permit demo_permit (demo_request ''a'') 11 ?m = (Inr c, m')"
    unfolding consume_ok_iff [symmetric] fst_consume_permit [symmetric] by (rule is_ok_fst_cases)
  have "\<exists>ys x zs r0. ?xs = ys @ x # zs
    \<and> issued_by x (run_ops exec_monitor_op ys (new_monitor 1 60)) = Some demo_permit
    \<and> justified x (run_ops exec_monitor_op ys (new_monitor 1 60)) demo_permit
    \<and> op_request x = Some r0 \<and> rq_request_digest r0 = rq_request_digest (demo_request ''a'')
    \<and> pm_issued_at demo_permit \<le> 11 \<and> 11 < pm_expires_at demo_permit"
    using consumed_permit_was_authorized c unfolding new_monitor_def by blast
  with c show ?thesis by blast
qed

text \<open>C3: no forged authority. In a state satisfying the monitor's invariant (every reachable state
  does), a call to \<open>authorize\<close> yields a permit exactly when the presented decision is the one
  Parliament reaches under the monitor's own policy and that decision is an allowance, the nonce
  counter is not exhausted and the expiry does not overflow; and the call with no evidence after
  approval never yields one.\<close>

theorem authorize_exactly_when_allowed:
  assumes "monitor_inv m"
  shows "(is_ok (fst (authorize r d now m)) \<longleftrightarrow>
       d = decide (rm_parliament m) r (rm_policy m)
     \<and> allows (rm_policy m) (rq_capability r) \<and> \<not> requires_approval (rm_policy m) (rq_operation r)
     \<and> unat (rm_next_nonce m) + 1 < 2 ^ 64
     \<and> unat now + unat (rm_permit_ttl_seconds m) < 2 ^ 64)
    \<and> \<not> is_ok (fst (authorize_after_approval r d now m))"
proof -
  have vers: "pc_policy_version (rm_policy m) = pl_policy_version (rm_parliament m)"
    using assms by (simp add: monitor_inv_def)
  have "is_ok (fst (authorize r d now m)) \<longleftrightarrow>
      is_ok (validate_decision m r d) \<and> (\<exists>a b c. d = Allow a b c) \<and> is_ok (fst (issue_permit r now m))"
    by (simp add: authorize_def split: sum.splits parliament_decision.splits)
  also have "is_ok (validate_decision m r d) \<longleftrightarrow> d = decide (rm_parliament m) r (rm_policy m)"
    using assms by (auto simp: is_ok_iff validate_decision_ok monitor_inv_def)
  also have "d = decide (rm_parliament m) r (rm_policy m) \<and> (\<exists>a b c. d = Allow a b c) \<and> is_ok (fst (issue_permit r now m))
      \<longleftrightarrow> d = decide (rm_parliament m) r (rm_policy m)
        \<and> (allows (rm_policy m) (rq_capability r) \<and> \<not> requires_approval (rm_policy m) (rq_operation r))
        \<and> is_ok (fst (issue_permit r now m))"
    using parliament_authority.allow_iff [of "rm_parliament m" r "rm_policy m"] vers
    by (cases "d = decide (rm_parliament m) r (rm_policy m)") simp_all
  finally have "is_ok (fst (authorize r d now m)) \<longleftrightarrow> \<dots>" .
  moreover have "\<not> is_ok (fst (authorize_after_approval r d now m))"
    by (simp add: authorize_after_approval_def split: sum.splits)
  ultimately show ?thesis by (simp only: issue_permit_is_ok [OF assms] conj_assoc simp_thms)
qed

theorem authorize_exactly_when_allowed_witness:
  "monitor_inv (new_monitor 1 60)
   \<and> demo_decision (demo_request ''a'')
       = decide (rm_parliament (new_monitor 1 60)) (demo_request ''a'') (rm_policy (new_monitor 1 60))"
proof -
  have inv: "monitor_inv (new_monitor 1 60)" by (simp add: new_monitor_def new_with_policy_inv)
  have "is_ok (fst (authorize (demo_request ''a'') (demo_decision (demo_request ''a'')) 10 (new_monitor 1 60)))"
    by (simp add: demo_authorize)
  then show ?thesis using inv by (simp only: authorize_exactly_when_allowed [OF inv] simp_thms)
qed

text \<open>The monitor's invariant holds in every reachable state, and there the identifiers it hands
  out are fresh and well formed: issuing can fail only because the nonce counter or the clock range
  is exhausted, never with a duplicate or invalid permit identifier.\<close>

lemma issue_fails_only_by_exhaustion:
  "monitor_inv (run_ops exec_monitor_op xs (new_with_policy policy ttl))
   \<and> fst (issue_permit r now (run_ops exec_monitor_op xs (new_with_policy policy ttl)))
       \<notin> {Inl InvalidPermitId, Inl (Store AlreadyRegistered)}"
proof -
  let ?m = "run_ops exec_monitor_op xs (new_with_policy policy ttl)"
  have inv: "monitor_inv ?m" by (rule monitor_run_inv [OF new_with_policy_inv])
  then show ?thesis by (auto simp: issue_permit_cases [OF inv] Let_def split: option.splits)
qed

text \<open>Across a whole run of the monitor, policy updates and re-authorizations included, no permit
  identifier is consumed twice.\<close>

lemma monitor_permits_are_one_shot:
  "distinct (redemptions exec_monitor_op redeems_monitor xs m)"
  by (rule monitor.redeemed_once)

end
