(* ===== verification/Events.thy ===== *)
theory Events
  imports Effects
begin

text \<open>
  Runtime events and sessions: \<open>pandora-types/src/events.rs\<close> and the \<open>Session\<close> of
  \<open>pandora-types/src/session.rs\<close>. The \<open>with_\<close> builders of \<open>EventContext\<close> are record updates.
\<close>

type_synonym event_id = string
type_synonym tenant_id = string
type_synonym workspace_id = string

record session =
  se_id :: session_id
  se_principal_id :: principal_id
  se_tenant_id :: tenant_id
  se_workspace_id :: workspace_id
  se_created_at :: timestamp

datatype event_type =
  SessionStarted
| EffectRequested
| EffectCompleted
| PolicyApproved
| PolicyDenied
| ApprovalRequiredEvent
| ExecutionFailed
| ProviderCall
| McpEraSelected

record event_context =
  ec_tenant_id :: tenant_id
  ec_workspace_id :: workspace_id
  ec_session_id :: "session_id option"
  ec_execution_id :: "execution_id option"
  ec_harness_id :: "harness_id option"
  ec_gene_id :: "gene_id option"
  ec_policy_version :: "u32 option"
  ec_receipt_id :: "receipt_id option"

definition new_event_context :: "tenant_id \<Rightarrow> workspace_id \<Rightarrow> event_context" where
  "new_event_context tenant workspace =
     \<lparr>ec_tenant_id = tenant, ec_workspace_id = workspace, ec_session_id = None, ec_execution_id = None,
      ec_harness_id = None, ec_gene_id = None, ec_policy_version = None, ec_receipt_id = None\<rparr>"

datatype event_payload =
  EmptyPayload
| EffectPayload (ep_capability: string) (ep_request_digest: request_digest)
| PolicyPayload string
| FailurePayload string
| ProviderCallPayload string string request_digest
| McpEraPayload string string bool

record runtime_event =
  ev_protocol_version :: u16
  ev_event_id :: event_id
  ev_event_type :: event_type
  ev_context :: event_context
  ev_payload :: event_payload

definition event_protocol_version :: u16 where
  "event_protocol_version = 1"

definition new_runtime_event ::
  "event_id \<Rightarrow> event_type \<Rightarrow> event_context \<Rightarrow> event_payload \<Rightarrow> runtime_event" where
  "new_runtime_event i ty ctx payload =
     \<lparr>ev_protocol_version = event_protocol_version, ev_event_id = i, ev_event_type = ty,
      ev_context = ctx, ev_payload = payload\<rparr>"

end
