(* ===== verification/Hooks.thy ===== *)
theory Hooks
  imports Effects
begin

text \<open>
  Lifecycle hooks, \<open>pandora-runtime/src/hooks.rs\<close>: ordered veto rules evaluated before
  authorization. Reading the file and parsing its JSON are parameters of \<open>hooks_from_file\<close>.
\<close>

section \<open>Rules\<close>

datatype hook_point = BeforeAuthorization

datatype hook_selector = AnyRequest | ForCapability capability | ForGene gene_id

fun selector_matches :: "hook_selector \<Rightarrow> operation_request \<Rightarrow> bool" where
  "selector_matches AnyRequest r = True"
| "selector_matches (ForCapability c) r = (rq_capability r = c)"
| "selector_matches (ForGene g) r = (rq_gene_id r = g)"

record lifecycle_hook =
  hk_id :: string
  hk_point :: hook_point
  hk_selector :: hook_selector
  hk_reason :: string

definition deny_hook :: "string \<Rightarrow> hook_point \<Rightarrow> hook_selector \<Rightarrow> string \<Rightarrow> lifecycle_hook" where
  "deny_hook i point selector reason =
     \<lparr>hk_id = i, hk_point = point, hk_selector = selector, hk_reason = reason\<rparr>"

datatype hook_decision = Continue | DenyHook string string

type_synonym lifecycle_hooks = "lifecycle_hook list"

definition new_hooks :: lifecycle_hooks where
  "new_hooks = []"

definition with_hook :: "lifecycle_hook \<Rightarrow> lifecycle_hooks \<Rightarrow> lifecycle_hooks" where
  "with_hook h hs = hs @ [h]"

definition evaluate_hooks :: "hook_point \<Rightarrow> operation_request \<Rightarrow> lifecycle_hooks \<Rightarrow> hook_decision" where
  "evaluate_hooks point r hs =
     (case find (\<lambda>h. hk_point h = point \<and> selector_matches (hk_selector h) r) hs of
        None \<Rightarrow> Continue
      | Some h \<Rightarrow> DenyHook (hk_id h) (hk_reason h))"


section \<open>Validation and loading\<close>

definition validate_hook :: "lifecycle_hook \<Rightarrow> (string, unit) outcome" where
  "validate_hook h =
     (if blank (hk_id h) then Inl ''lifecycle hook id must not be empty''
      else if blank (hk_reason h) then Inl ''lifecycle hook reason must not be empty''
      else Inr ())"

definition validate_hooks :: "lifecycle_hooks \<Rightarrow> (string, unit) outcome" where
  "validate_hooks hs = try_all validate_hook hs"

datatype hooks_load_error =
  HooksNotFound string
| HooksIo string
| HooksJson string
| HooksValidation string string

definition hooks_from_file ::
  "(string \<Rightarrow> bool) \<Rightarrow> (string \<Rightarrow> string option) \<Rightarrow> (string \<Rightarrow> lifecycle_hooks option) \<Rightarrow> string
     \<Rightarrow> (hooks_load_error, lifecycle_hooks) outcome" where
  "hooks_from_file present read parse path =
     (if \<not> present path then Inl (HooksNotFound path)
      else
        and_then (ok_or (read path) (HooksIo path)) (\<lambda>content.
        and_then (ok_or (parse content) (HooksJson path)) (\<lambda>hs.
        and_then (map_err (HooksValidation path) (validate_hooks hs)) (\<lambda>_.
        Inr hs))))"


section \<open>Properties\<close>

lemma evaluate_Continue_iff:
  "evaluate_hooks point r hs = Continue \<longleftrightarrow>
     (\<forall>h \<in> set hs. \<not> (hk_point h = point \<and> selector_matches (hk_selector h) r))"
  by (induction hs) (auto simp: evaluate_hooks_def)

lemma evaluate_append:
  "evaluate_hooks point r (hs @ gs) =
     (case evaluate_hooks point r hs of Continue \<Rightarrow> evaluate_hooks point r gs | d \<Rightarrow> d)"
  by (induction hs) (auto simp: evaluate_hooks_def)

text \<open>Hooks only take authority away, in registration order. A request passes exactly when no
  rule at the point matches it; the decision is that of the first matching rule; appending a rule
  never turns a denial into a pass nor changes who denied.\<close>

lemma hooks_only_restrict:
  "(evaluate_hooks point r hs = Continue \<longleftrightarrow>
      (\<forall>h. h \<in> set hs \<longrightarrow> hk_point h \<noteq> point \<or> \<not> selector_matches (hk_selector h) r))
   \<and> evaluate_hooks point r (with_hook h hs) =
      (if evaluate_hooks point r hs \<noteq> Continue then evaluate_hooks point r hs
       else if hk_point h = point \<and> selector_matches (hk_selector h) r then DenyHook (hk_id h) (hk_reason h)
       else Continue)"
proof -
  have "evaluate_hooks point r [h] =
      (if hk_point h = point \<and> selector_matches (hk_selector h) r then DenyHook (hk_id h) (hk_reason h) else Continue)"
    by (simp add: evaluate_hooks_def)
  then have "evaluate_hooks point r (with_hook h hs) =
      (if evaluate_hooks point r hs \<noteq> Continue then evaluate_hooks point r hs
       else if hk_point h = point \<and> selector_matches (hk_selector h) r then DenyHook (hk_id h) (hk_reason h)
       else Continue)"
    by (simp add: with_hook_def evaluate_append split: hook_decision.splits)
  moreover have "evaluate_hooks point r hs = Continue \<longleftrightarrow>
      (\<forall>h. h \<in> set hs \<longrightarrow> hk_point h \<noteq> point \<or> \<not> selector_matches (hk_selector h) r)"
    using evaluate_Continue_iff by blast
  ultimately show ?thesis by blast
qed

text \<open>The witness of the direction with a hypothesis: a matching rule denies.\<close>

definition demo_hook :: lifecycle_hook where
  "demo_hook = deny_hook ''no-reads'' BeforeAuthorization (ForCapability FilesystemRead) ''frozen''"

lemma hooks_only_restrict_witness:
  "evaluate_hooks BeforeAuthorization (demo_request ''a'') [demo_hook] \<noteq> Continue
   \<and> evaluate_hooks BeforeAuthorization (demo_request ''a'') [] = Continue"
proof -
  have "hk_point demo_hook = BeforeAuthorization \<and> selector_matches (hk_selector demo_hook) (demo_request ''a'')"
    by (simp add: demo_hook_def deny_hook_def demo_request_def)
  then show ?thesis
    using hooks_only_restrict [of BeforeAuthorization "demo_request ''a''" "[demo_hook]" demo_hook]
      hooks_only_restrict [of BeforeAuthorization "demo_request ''a''" "[]" demo_hook] by auto
qed

end
