(* ===== verification/Json_Value.thy ===== *)
theory Json_Value
  imports Pandora_Prelude
begin

text \<open>
  A JSON value as \<open>serde_json::Value\<close> has it: a number is its printed text, an object its list of
  entries.
\<close>

datatype json =
  JNull
| JBool bool
| JNumber string
| JString string
| JArray "json list"
| JObject "(string \<times> json) list"

end
