(* ===== verification/Mcp_Catalog.thy ===== *)
theory Mcp_Catalog
  imports Execution_Profile One_Shot Json_Value
begin

text \<open>
  The catalog of tool servers, \<open>pandora-runtime/src/mcp_catalog.rs\<close>: reservations of server
  names by generation, activation of a revision, and the digests that identify a schema and a
  catalog. The mutex-protected maps are explicit state; dropping a reservation is the operation
  \<open>release\<close>. SHA-256 is the parameter \<open>sha\<close>.
\<close>

section \<open>Errors and protocol data of \<open>mcp.rs\<close>\<close>

datatype mcp_error =
  McpInvalidConfig | McpPermissionDenied | McpSpawnFailed | McpIo | McpFrameTooLarge
| McpStderrTooLarge | McpTimedOut | McpUnexpectedEof | McpInvalidUtf8 | McpMalformedFrame
| McpMalformedMessage | McpUnexpectedServerMessage | McpUnexpectedResponseId | McpDuplicateResponseId
| McpRpc int string "string option"
| McpUnsupportedProtocolVersion | McpToolsCapabilityMissing | McpUnsupportedPagination
| McpInvalidToolList | McpInvalidToolName | McpUnsupportedSchema | McpDuplicateTool | McpDuplicateServer
| McpUnknownTool | McpInvalidArguments | McpInvalidResult | McpProcessExited | McpRequestRejected
| McpPolicyDenied | McpApprovalRequired | McpAuthorizationFailed | McpPermitFailed | McpToolEngine

fun mcp_error_code :: "mcp_error \<Rightarrow> string" where
  "mcp_error_code McpInvalidConfig = ''invalid_config''"
| "mcp_error_code McpPermissionDenied = ''permission_denied''"
| "mcp_error_code McpSpawnFailed = ''spawn_failed''"
| "mcp_error_code McpIo = ''mcp_io''"
| "mcp_error_code McpFrameTooLarge = ''frame_too_large''"
| "mcp_error_code McpStderrTooLarge = ''stderr_too_large''"
| "mcp_error_code McpTimedOut = ''timed_out''"
| "mcp_error_code McpUnexpectedEof = ''unexpected_eof''"
| "mcp_error_code McpInvalidUtf8 = ''invalid_utf8''"
| "mcp_error_code McpMalformedFrame = ''malformed_frame''"
| "mcp_error_code McpMalformedMessage = ''malformed_message''"
| "mcp_error_code McpUnexpectedServerMessage = ''unexpected_server_message''"
| "mcp_error_code McpUnexpectedResponseId = ''unexpected_response_id''"
| "mcp_error_code McpDuplicateResponseId = ''duplicate_response_id''"
| "mcp_error_code (McpRpc _ _ _) = ''rpc_error''"
| "mcp_error_code McpUnsupportedProtocolVersion = ''unsupported_protocol_version''"
| "mcp_error_code McpToolsCapabilityMissing = ''tools_capability_missing''"
| "mcp_error_code McpUnsupportedPagination = ''unsupported_pagination''"
| "mcp_error_code McpInvalidToolList = ''invalid_tool_list''"
| "mcp_error_code McpInvalidToolName = ''invalid_tool_name''"
| "mcp_error_code McpUnsupportedSchema = ''unsupported_schema''"
| "mcp_error_code McpDuplicateTool = ''duplicate_tool''"
| "mcp_error_code McpDuplicateServer = ''duplicate_server''"
| "mcp_error_code McpUnknownTool = ''unknown_tool''"
| "mcp_error_code McpInvalidArguments = ''invalid_arguments''"
| "mcp_error_code McpInvalidResult = ''invalid_result''"
| "mcp_error_code McpProcessExited = ''process_exited''"
| "mcp_error_code McpRequestRejected = ''request_rejected''"
| "mcp_error_code McpPolicyDenied = ''policy_denied''"
| "mcp_error_code McpApprovalRequired = ''approval_required''"
| "mcp_error_code McpAuthorizationFailed = ''authorization_failed''"
| "mcp_error_code McpPermitFailed = ''permit_failed''"
| "mcp_error_code McpToolEngine = ''tool_engine''"

datatype mcp_wire_era = ModernEra | LegacyEra

fun wire_era_str :: "mcp_wire_era \<Rightarrow> string" where
  "wire_era_str ModernEra = ''modern''"
| "wire_era_str LegacyEra = ''legacy''"

datatype catalog_error = AlreadyActive | AlreadyActivated | InvalidIdentity | GenerationExhausted | ReservationLost

fun map_catalog_error :: "catalog_error \<Rightarrow> mcp_error" where
  "map_catalog_error AlreadyActive = McpDuplicateServer"
| "map_catalog_error AlreadyActivated = McpRequestRejected"
| "map_catalog_error InvalidIdentity = McpRequestRejected"
| "map_catalog_error GenerationExhausted = McpRequestRejected"
| "map_catalog_error ReservationLost = McpRequestRejected"


section \<open>Digests\<close>

definition catalog_text :: "string \<Rightarrow> string" where
  "catalog_text value = be_bytes 8 (length value) @ value"

lemma size_snd_entry: "(k, v) \<in> set kvs \<Longrightarrow> size v < Suc (size_list (size_prod (\<lambda>_. 0) size) kvs)"
  by (induction kvs) auto

text \<open>The bytes fed to the hasher. A length is a \<open>usize\<close> of eight bytes.\<close>

function (sequential) hash_json :: "json \<Rightarrow> string" where
  "hash_json JNull = [CHR 0x00]"
| "hash_json (JBool b) = [CHR 0x01, if b then CHR 0x01 else CHR 0x00]"
| "hash_json (JNumber n) = CHR 0x02 # catalog_text n"
| "hash_json (JString s) = CHR 0x03 # catalog_text s"
| "hash_json (JArray vs) = CHR 0x04 # be_bytes 8 (length vs) @ concat (map hash_json vs)"
| "hash_json (JObject kvs) =
     CHR 0x05 # be_bytes 8 (length kvs)
       @ concat (map (\<lambda>kv. catalog_text (fst kv) @ hash_json (snd kv)) (sort_key fst kvs))"
  by pat_completeness auto

termination
proof (relation "measure size")
  fix kvs :: "(string \<times> json) list" and kv
  assume "kv \<in> set (sort_key fst kvs)"
  then show "(snd kv, JObject kvs) \<in> measure size"
    using size_snd_entry [of "fst kv" "snd kv" kvs] by simp
qed (auto simp: less_Suc_eq_le size_list_estimation')

definition digest_json :: "(string \<Rightarrow> string) \<Rightarrow> json \<Rightarrow> string" where
  "digest_json sha v = hex_encode (sha (hash_json v))"

definition catalog_digest_bytes :: "(string \<Rightarrow> string) \<Rightarrow> string \<Rightarrow> string" where
  "catalog_digest_bytes sha bytes = hex_encode (sha bytes)"

record catalog_tool =
  tl_local_id :: string
  tl_remote_name :: string
  tl_schema_digest :: string

definition validate_identity :: "string \<Rightarrow> (catalog_error, string) outcome" where
  "validate_identity value =
     (if value = [] \<or> length value > 4096 \<or> has_control value then Inl InvalidIdentity else Inr value)"

definition new_catalog_tool ::
  "(string \<Rightarrow> string) \<Rightarrow> string \<Rightarrow> string \<Rightarrow> json \<Rightarrow> (catalog_error, catalog_tool) outcome" where
  "new_catalog_tool sha local_id remote_name schema =
     and_then (validate_identity local_id) (\<lambda>l.
     and_then (validate_identity remote_name) (\<lambda>r.
     Inr \<lparr>tl_local_id = l, tl_remote_name = r, tl_schema_digest = digest_json sha schema\<rparr>))"

definition tool_bytes :: "catalog_tool \<Rightarrow> string" where
  "tool_bytes t = catalog_text (tl_local_id t) @ catalog_text (tl_remote_name t) @ catalog_text (tl_schema_digest t)"

definition catalog_bytes :: "catalog_tool list \<Rightarrow> string" where
  "catalog_bytes tools =
     catalog_text ''pandora.mcp.catalog.v1''
       @ concat (map tool_bytes (sort_key (\<lambda>t. (tl_local_id t, tl_remote_name t)) tools))"

definition catalog_digest :: "(string \<Rightarrow> string) \<Rightarrow> catalog_tool list \<Rightarrow> string" where
  "catalog_digest sha tools = hex_encode (sha (catalog_bytes tools))"


section \<open>The supervisor\<close>

record catalog_state =
  cs_next_generation :: u64
  cs_active :: "string \<rightharpoonup> u64"

record catalog_revision =
  rv_server_id :: string
  rv_generation :: u64
  rv_protocol_era :: mcp_wire_era
  rv_process_id :: u32
  rv_config_digest :: string
  rv_catalog_digest :: string
  rv_tools :: "catalog_tool list"

record reservation =
  rs_server_id :: string
  rs_generation :: u64
  rs_config_digest :: string
  rs_revision :: "catalog_revision option"

definition new_supervisor :: catalog_state where
  "new_supervisor = \<lparr>cs_next_generation = 0, cs_active = Map.empty\<rparr>"

definition reserve :: "string \<Rightarrow> string \<Rightarrow> catalog_state \<Rightarrow> (catalog_error, reservation) outcome \<times> catalog_state" where
  "reserve server config st =
     (case and_then (validate_identity server) (\<lambda>s. and_then (validate_identity config) (\<lambda>c. Inr (s, c))) of
        Inl e \<Rightarrow> (Inl e, st)
      | Inr (s, c) \<Rightarrow>
          if cs_active st s \<noteq> None then (Inl AlreadyActive, st)
          else case checked_add (cs_next_generation st) 1 of
            None \<Rightarrow> (Inl GenerationExhausted, st)
          | Some g \<Rightarrow>
              (Inr \<lparr>rs_server_id = s, rs_generation = g, rs_config_digest = c, rs_revision = None\<rparr>,
               st\<lparr>cs_next_generation := g, cs_active := (cs_active st)(s \<mapsto> g)\<rparr>))"

definition is_active :: "string \<Rightarrow> catalog_state \<Rightarrow> bool" where
  "is_active server st \<longleftrightarrow> cs_active st server \<noteq> None"

definition release :: "string \<Rightarrow> u64 \<Rightarrow> catalog_state \<Rightarrow> bool \<times> catalog_state" where
  "release server g st =
     (if cs_active st server \<noteq> Some g then (False, st)
      else (True, st\<lparr>cs_active := (cs_active st)(server := None)\<rparr>))"

definition activate ::
  "(string \<Rightarrow> string) \<Rightarrow> mcp_wire_era \<Rightarrow> u32 \<Rightarrow> catalog_tool list \<Rightarrow> catalog_state \<Rightarrow> reservation
     \<Rightarrow> (catalog_error, catalog_revision) outcome \<times> reservation" where
  "activate sha era pid tools st r =
     (if pid = 0 then (Inl InvalidIdentity, r)
      else if cs_active st (rs_server_id r) \<noteq> Some (rs_generation r) then (Inl ReservationLost, r)
      else
        let tools = sort_key tl_local_id tools;
            revision = \<lparr>rv_server_id = rs_server_id r, rv_generation = rs_generation r, rv_protocol_era = era,
                        rv_process_id = pid, rv_config_digest = rs_config_digest r,
                        rv_catalog_digest = catalog_digest sha tools, rv_tools = tools\<rparr>
        in if rs_revision r \<noteq> None then (Inl AlreadyActivated, r)
           else (Inr revision, r\<lparr>rs_revision := Some revision\<rparr>))"

definition revision_tool :: "string \<Rightarrow> catalog_revision \<Rightarrow> catalog_tool option" where
  "revision_tool local_id rv = find (\<lambda>t. tl_local_id t = local_id) (rv_tools rv)"

section \<open>The encodings lose nothing\<close>

text \<open>Every length fits its eight-byte prefix, as it does for any value in memory.\<close>

function (sequential) json_fits :: "json \<Rightarrow> bool" where
  "json_fits (JNumber n) = fits64 n"
| "json_fits (JString s) = fits64 s"
| "json_fits (JArray vs) = (length vs < 2 ^ 64 \<and> (\<forall>v \<in> set vs. json_fits v))"
| "json_fits (JObject kvs) = (length kvs < 2 ^ 64 \<and> (\<forall>kv \<in> set kvs. fits64 (fst kv) \<and> json_fits (snd kv)))"
| "json_fits _ = True"
  by pat_completeness auto

termination
proof (relation "measure size")
  fix kvs :: "(string \<times> json) list" and kv
  assume "kv \<in> set kvs"
  then show "(snd kv, JObject kvs) \<in> measure size"
    using size_snd_entry [of "fst kv" "snd kv" kvs] by simp
qed (auto simp: less_Suc_eq_le size_list_estimation')

text \<open>The value with the entries of every object in the order of their keys.\<close>

function (sequential) canonical :: "json \<Rightarrow> json" where
  "canonical (JArray vs) = JArray (map canonical vs)"
| "canonical (JObject kvs) = JObject (map (\<lambda>kv. (fst kv, canonical (snd kv))) (sort_key fst kvs))"
| "canonical v = v"
  by pat_completeness auto

termination
proof (relation "measure size")
  fix kvs :: "(string \<times> json) list" and kv
  assume "kv \<in> set (sort_key fst kvs)"
  then show "(snd kv, JObject kvs) \<in> measure size"
    using size_snd_entry [of "fst kv" "snd kv" kvs] by simp
qed (auto simp: less_Suc_eq_le size_list_estimation')

lemma catalog_text_append_eq:
  assumes "fits64 a" and "fits64 b"
  shows "catalog_text a @ x = catalog_text b @ y \<longleftrightarrow> a = b \<and> x = y"
proof -
  have "catalog_text s = digest_text s" if "fits64 s" for s
    using that by (simp add: catalog_text_def digest_text_def fits64_def min_def)
  then show ?thesis using assms digest_text_append_eq by simp
qed

text \<open>A concatenation of prefix-free codes is decoded item by item.\<close>

lemma concat_prefix_free:
  assumes "\<And>a b x y. a \<in> set as \<Longrightarrow> b \<in> set bs \<Longrightarrow> f a @ x = f b @ y \<Longrightarrow> c a = c b \<and> x = y"
    and "length as = length bs" and "concat (map f as) @ x = concat (map f bs) @ y"
  shows "map c as = map c bs \<and> x = y"
  using assms(2,1,3)
proof (induction as bs rule: list_induct2)
  case (Cons a as b bs)
  have "c a = c b" and rest: "concat (map f as) @ x = concat (map f bs) @ y"
    using Cons.prems(1) [of a b] Cons.prems(2) by auto
  have "map c as = map c bs \<and> x = y"
    by (rule Cons.IH [OF _ rest]) (use Cons.prems(1) in auto)
  with \<open>c a = c b\<close> show ?case by simp
qed simp

lemma counted_append_eq:
  assumes "m < 2 ^ 64" and "n < 2 ^ 64" and "be_bytes 8 m @ x = be_bytes 8 n @ y"
  shows "m = n \<and> x = y"
proof -
  have "be_bytes 8 m = be_bytes 8 n" and "x = y" using assms(3) by (simp_all add: append_eq_append_conv)
  then show ?thesis using be_bytes_inject [of m 8 n] assms(1,2) by simp
qed

lemma hash_json_prefix_free:
  "hash_json a @ x = hash_json b @ y \<Longrightarrow> json_fits a \<Longrightarrow> json_fits b \<Longrightarrow> canonical a = canonical b \<and> x = y"
proof (induction a arbitrary: b x y rule: hash_json.induct)
  case 1
  then show ?case by (cases b) auto
next
  case (2 p)
  then show ?case by (cases b) (auto split: if_splits)
next
  case (3 n)
  then show ?case by (cases b) (auto simp: catalog_text_append_eq)
next
  case (4 s)
  then show ?case by (cases b) (auto simp: catalog_text_append_eq)
next
  case (5 vs)
  then obtain ws where b: "b = JArray ws" by (cases b) auto
  have "be_bytes 8 (length vs) @ concat (map hash_json vs) @ x = be_bytes 8 (length ws) @ concat (map hash_json ws) @ y"
    and fits: "length vs < 2 ^ 64" "length ws < 2 ^ 64" "\<forall>v \<in> set vs. json_fits v" "\<forall>v \<in> set ws. json_fits v"
    using 5(2-4) b by simp_all
  from counted_append_eq [OF fits(1,2) this(1)] have len: "length vs = length ws"
    and eq: "concat (map hash_json vs) @ x = concat (map hash_json ws) @ y" by simp_all
  have "map canonical vs = map canonical ws \<and> x = y"
  proof (rule concat_prefix_free [OF _ len eq])
    fix v w u z
    assume "v \<in> set vs" "w \<in> set ws" "hash_json v @ u = hash_json w @ z"
    with 5(1) [of v u w z] fits(3,4) show "canonical v = canonical w \<and> u = z" by blast
  qed
  then show ?case by (simp add: b)
next
  case (6 kvs)
  then obtain lws where b: "b = JObject lws" by (cases b) auto
  let ?code = "\<lambda>kv. catalog_text (fst kv) @ hash_json (snd kv)" and ?canon = "\<lambda>kv. (fst kv, canonical (snd kv))"
  have "be_bytes 8 (length kvs) @ concat (map ?code (sort_key fst kvs)) @ x
      = be_bytes 8 (length lws) @ concat (map ?code (sort_key fst lws)) @ y"
    and fits: "length kvs < 2 ^ 64" "length lws < 2 ^ 64"
      "\<forall>kv \<in> set kvs. fits64 (fst kv) \<and> json_fits (snd kv)" "\<forall>kv \<in> set lws. fits64 (fst kv) \<and> json_fits (snd kv)"
    using 6(2-4) b by simp_all
  from counted_append_eq [OF fits(1,2) this(1)] have len: "length kvs = length lws"
    and eq: "concat (map ?code (sort_key fst kvs)) @ x = concat (map ?code (sort_key fst lws)) @ y" by simp_all
  have "map ?canon (sort_key fst kvs) = map ?canon (sort_key fst lws) \<and> x = y"
  proof (rule concat_prefix_free [OF _ _ eq])
    fix p q u v
    assume p: "p \<in> set (sort_key fst kvs)" and q: "q \<in> set (sort_key fst lws)" and e: "?code p @ u = ?code q @ v"
    then have f: "fits64 (fst p)" "fits64 (fst q)" "json_fits (snd p)" "json_fits (snd q)" using fits(3,4) by auto
    have "fst p = fst q" "hash_json (snd p) @ u = hash_json (snd q) @ v"
      using e catalog_text_append_eq [OF f(1,2)] by simp_all
    with 6(1) [OF p _ f(3,4)] show "?canon p = ?canon q \<and> u = v" by simp
  qed (simp add: len)
  then show ?case by (simp add: b)
qed

lemma hash_json_canonical: "hash_json (canonical v) = hash_json v"
proof (induction v rule: hash_json.induct)
  case (5 vs)
  then show ?case by (simp add: comp_def cong: map_cong)
next
  case (6 kvs)
  let ?canon = "\<lambda>kv. (fst kv, canonical (snd kv))"
  have "map fst (map ?canon (sort_key fst kvs)) = map fst (sort_key fst kvs)" by simp
  then have "sort_key fst (map ?canon (sort_key fst kvs)) = map ?canon (sort_key fst kvs)"
    by (intro sort_key_id_if_sorted) (simp only: sorted_sort_key)
  moreover have "map (\<lambda>kv. catalog_text (fst kv) @ hash_json (canonical (snd kv))) (sort_key fst kvs)
      = map (\<lambda>kv. catalog_text (fst kv) @ hash_json (snd kv)) (sort_key fst kvs)"
    using 6 by simp
  ultimately show ?case
    by (simp only: canonical.simps hash_json.simps length_map length_sort map_map comp_def fst_conv snd_conv)
qed simp_all

lemma hash_json_eq_iff:
  assumes "json_fits a" and "json_fits b"
  shows "hash_json a = hash_json b \<longleftrightarrow> canonical a = canonical b"
  using hash_json_prefix_free [of a "[]" b "[]"] assms hash_json_canonical [of a] hash_json_canonical [of b] by auto

definition tool_fits :: "catalog_tool \<Rightarrow> bool" where
  "tool_fits t \<longleftrightarrow> fits64 (tl_local_id t) \<and> fits64 (tl_remote_name t) \<and> fits64 (tl_schema_digest t)"

lemma tool_bytes_append_eq:
  assumes "tool_fits a" and "tool_fits b" and "tool_bytes a @ x = tool_bytes b @ y"
  shows "a = b \<and> x = y"
proof -
  have f: "fits64 (tl_local_id a)" "fits64 (tl_local_id b)" "fits64 (tl_remote_name a)" "fits64 (tl_remote_name b)"
    "fits64 (tl_schema_digest a)" "fits64 (tl_schema_digest b)" using assms(1,2) by (simp_all add: tool_fits_def)
  have "tl_local_id a = tl_local_id b \<and> tl_remote_name a = tl_remote_name b
      \<and> tl_schema_digest a = tl_schema_digest b \<and> x = y"
    using assms(3) unfolding tool_bytes_def append_assoc
      catalog_text_append_eq [OF f(1,2)] catalog_text_append_eq [OF f(3,4)] catalog_text_append_eq [OF f(5,6)] .
  then show ?thesis by simp
qed

lemma tool_bytes_not_Nil: "tool_bytes t \<noteq> []"
proof -
  have "0 < length (tool_bytes t)" by (simp add: tool_bytes_def catalog_text_def)
  then show ?thesis by auto
qed

lemma concat_tool_bytes_inject:
  assumes "concat (map tool_bytes as) = concat (map tool_bytes bs)"
    and "\<forall>t \<in> set as. tool_fits t" and "\<forall>t \<in> set bs. tool_fits t"
  shows "as = bs"
  using assms
proof (induction as arbitrary: bs)
  case Nil
  then show ?case by (cases bs) (simp_all add: tool_bytes_not_Nil)
next
  case (Cons a as)
  from Cons.prems(1) obtain b bs' where bs: "bs = b # bs'" by (cases bs) (auto simp: tool_bytes_not_Nil)
  have "a = b \<and> concat (map tool_bytes as) = concat (map tool_bytes bs')"
    by (rule tool_bytes_append_eq) (use Cons.prems bs in simp_all)
  with Cons.IH [of bs'] Cons.prems(2,3) bs show ?case by auto
qed

abbreviation tool_key :: "catalog_tool \<Rightarrow> string \<times> string" where
  "tool_key t \<equiv> (tl_local_id t, tl_remote_name t)"

lemma catalog_bytes_eq_iff:
  assumes "\<forall>t \<in> set as. tool_fits t" and "\<forall>t \<in> set bs. tool_fits t" and "distinct (map tool_key as)"
  shows "catalog_bytes as = catalog_bytes bs \<longleftrightarrow> mset as = mset bs"
proof
  assume "catalog_bytes as = catalog_bytes bs"
  then have "sort_key tool_key as = sort_key tool_key bs"
    using concat_tool_bytes_inject [of "sort_key tool_key as" "sort_key tool_key bs"] assms(1,2)
    by (simp add: catalog_bytes_def)
  then show "mset as = mset bs" by (metis mset_sort)
next
  assume "mset as = mset bs"
  then have "sort_key tool_key as = sort_key tool_key bs" by (rule sort_key_distinct_perm [OF _ assms(3)])
  then show "catalog_bytes as = catalog_bytes bs" by (simp add: catalog_bytes_def)
qed


section \<open>Generations\<close>

lemma reserve_Inr:
  "reserve server config st = (Inr r, st') \<longleftrightarrow>
     is_ok (validate_identity server) \<and> is_ok (validate_identity config) \<and> cs_active st server = None
   \<and> (\<exists>g. checked_add (cs_next_generation st) 1 = Some g
        \<and> r = \<lparr>rs_server_id = server, rs_generation = g, rs_config_digest = config, rs_revision = None\<rparr>
        \<and> st' = st\<lparr>cs_next_generation := g, cs_active := (cs_active st)(server \<mapsto> g)\<rparr>)"
  by (auto simp: reserve_def validate_identity_def split: option.splits)

lemma reserve_Inl: "reserve server config st = (Inl e, st') \<Longrightarrow> st' = st"
  by (auto simp: reserve_def split: option.splits sum.splits if_splits)

text \<open>An active generation was handed out, and no two servers share one.\<close>

definition catalog_inv :: "catalog_state \<Rightarrow> bool" where
  "catalog_inv st \<longleftrightarrow>
     (\<forall>s g. cs_active st s = Some g \<longrightarrow> 0 < g \<and> g \<le> cs_next_generation st)
   \<and> (\<forall>s t g. cs_active st s = Some g \<longrightarrow> cs_active st t = Some g \<longrightarrow> s = t)"

datatype catalog_op = ReserveOp string string | ReleaseOp string u64

fun exec_catalog_op :: "catalog_op \<Rightarrow> catalog_state \<Rightarrow> catalog_state" where
  "exec_catalog_op (ReserveOp s c) st = snd (reserve s c st)"
| "exec_catalog_op (ReleaseOp s g) st = snd (release s g st)"

fun generation_of :: "catalog_op \<Rightarrow> catalog_state \<Rightarrow> u64 option" where
  "generation_of (ReserveOp s c) st = map_option rs_generation (ok (fst (reserve s c st)))"
| "generation_of (ReleaseOp s g) st = None"

lemma snd_reserve_cases:
  "snd (reserve s c st) = st
   \<or> (\<exists>g. checked_add (cs_next_generation st) 1 = Some g \<and> cs_active st s = None
        \<and> snd (reserve s c st) = st\<lparr>cs_next_generation := g, cs_active := (cs_active st)(s \<mapsto> g)\<rparr>)"
proof (cases "reserve s c st")
  case (Pair res st')
  with reserve_Inr [of s c st] reserve_Inl [of s c st] show ?thesis by (cases res) auto
qed

lemma generation_step: "checked_add (cs_next_generation st) 1 = Some g \<Longrightarrow> cs_next_generation st < g"
  by (simp add: word_bounds word_less_nat_alt)

lemma exec_catalog_inv: "catalog_inv st \<Longrightarrow> catalog_inv (exec_catalog_op x st)"
proof (cases x)
  case (ReserveOp s c)
  assume inv: "catalog_inv st"
  from snd_reserve_cases [of s c st] show ?thesis
  proof (elim disjE exE conjE)
    fix g
    assume g: "checked_add (cs_next_generation st) 1 = Some g" and st': "snd (reserve s c st) = st\<lparr>cs_next_generation := g, cs_active := (cs_active st)(s \<mapsto> g)\<rparr>"
    from generation_step [OF g] inv have "\<And>t h. cs_active st t = Some h \<Longrightarrow> 0 < h \<and> h < g"
      unfolding catalog_inv_def by (meson le_less_trans)
    moreover have "0 < g" using generation_step [OF g] word_gt_0 by fastforce
    ultimately show ?thesis using inv ReserveOp st' by (auto simp: catalog_inv_def less_imp_le)
  qed (use inv ReserveOp in simp)
qed (auto simp: catalog_inv_def release_def)

interpretation generations: one_shot_store exec_catalog_op generation_of "\<lambda>(st :: catalog_state) g. g \<le> cs_next_generation st"
proof
  fix x st g
  assume "generation_of x st = Some g"
  then obtain s c where x: "x = ReserveOp s c" and ok: "map_option rs_generation (ok (fst (reserve s c st))) = Some g"
    by (cases x) auto
  then obtain r st' where r: "reserve s c st = (Inr r, st')" "rs_generation r = g"
    by (cases "reserve s c st"; cases "fst (reserve s c st)") auto
  then have "cs_next_generation st < g" "cs_next_generation st' = g"
    by (auto simp: reserve_Inr generation_step)
  with x r show "\<not> g \<le> cs_next_generation st" "g \<le> cs_next_generation (exec_catalog_op x st)" by simp_all
next
  fix x and st :: catalog_state and g
  assume g: "g \<le> cs_next_generation st"
  show "g \<le> cs_next_generation (exec_catalog_op x st)"
  proof (cases x)
    case (ReserveOp s c)
    with g snd_reserve_cases [of s c st] generation_step [of st] show ?thesis by (auto intro: order.trans less_imp_le)
  qed (use g in \<open>simp add: release_def\<close>)
qed

lemma reservation_kept:
  assumes "cs_active st s = Some g" and "ReleaseOp s g \<notin> set zs"
  shows "cs_active (run_ops exec_catalog_op zs st) s = Some g"
  using assms
proof (induction zs arbitrary: st)
  case (Cons z zs)
  have "cs_active (exec_catalog_op z st) s = Some g"
  proof (cases z)
    case (ReserveOp t c)
    with snd_reserve_cases [of t c st] Cons.prems(1) show ?thesis by (cases "t = s") auto
  qed (use Cons.prems in \<open>auto simp: release_def\<close>)
  with Cons show ?case by simp
qed simp


section \<open>Properties\<close>

text \<open>A reservation is exclusive. Whatever reservations and drops came before, a granted reservation
  has a generation that was never handed out, the server had none, and the server stays bound to
  this generation through every later sequence of reservations and drops until this very
  reservation is dropped; a stale drop takes nothing away.\<close>

lemma catalog_reservation_exclusive:
  assumes "reserve s c (run_ops exec_catalog_op xs new_supervisor) = (Inr r, st')"
    and "ReleaseOp s (rs_generation r) \<notin> set zs"
  shows "rs_generation r \<notin> set (redemptions exec_catalog_op generation_of xs new_supervisor)
    \<and> \<not> is_active s (run_ops exec_catalog_op xs new_supervisor)
    \<and> cs_active (run_ops exec_catalog_op zs st') s = Some (rs_generation r)"
proof -
  let ?st = "run_ops exec_catalog_op xs new_supervisor"
  have "generation_of (ReserveOp s c) ?st = Some (rs_generation r)" using assms(1) by simp
  from generations.redeem_fresh [OF this] generations.redeemed_spent [of "rs_generation r" xs new_supervisor]
  have fresh: "rs_generation r \<notin> set (redemptions exec_catalog_op generation_of xs new_supervisor)" by blast
  from assms(1) have "cs_active ?st s = None" and act: "cs_active st' s = Some (rs_generation r)"
    by (auto simp: reserve_Inr)
  with fresh reservation_kept [OF act assms(2)] show ?thesis by (simp add: is_active_def)
qed

lemma catalog_reservation_exclusive_witness:
  "\<exists>r st'. reserve ''files'' ''cfg'' (run_ops exec_catalog_op [ReserveOp ''files'' ''cfg'', ReleaseOp ''files'' 1] new_supervisor)
        = (Inr r, st')
     \<and> cs_active (run_ops exec_catalog_op [ReleaseOp ''files'' 1, ReserveOp ''files'' ''cfg''] st') ''files'' = Some (rs_generation r)"
proof -
  let ?xs = "[ReserveOp ''files'' ''cfg'', ReleaseOp ''files'' 1]"
  have one: "reserve ''files'' ''cfg'' new_supervisor
      = (Inr \<lparr>rs_server_id = ''files'', rs_generation = 1, rs_config_digest = ''cfg'', rs_revision = None\<rparr>,
         \<lparr>cs_next_generation = 1, cs_active = [''files'' \<mapsto> 1]\<rparr>)"
    by (simp add: reserve_def new_supervisor_def validate_identity_def checked_add_def)
  have st: "run_ops exec_catalog_op ?xs new_supervisor = \<lparr>cs_next_generation = 1, cs_active = Map.empty\<rparr>"
    by (simp add: one release_def)
  have two: "\<exists>r st'. reserve ''files'' ''cfg'' (run_ops exec_catalog_op ?xs new_supervisor) = (Inr r, st') \<and> rs_generation r = 2"
    unfolding st by (simp add: reserve_def validate_identity_def checked_add_def)
  then obtain r st' where r: "reserve ''files'' ''cfg'' (run_ops exec_catalog_op ?xs new_supervisor) = (Inr r, st')"
    and g: "rs_generation r = 2" by blast
  have "ReleaseOp ''files'' (rs_generation r) \<notin> set [ReleaseOp ''files'' 1, ReserveOp ''files'' ''cfg'']"
    by (simp add: g)
  from catalog_reservation_exclusive [OF r this] r show ?thesis by blast
qed

text \<open>The digests identify what they digest. Two schemas have the same digest exactly when they
  are the same JSON value up to the order of object keys, and two catalogs with distinct tool keys
  have the same digest exactly when they hold the same tools in any order, unless SHA-256 collides
  on the two encodings.\<close>

lemma catalog_digests_identify:
  assumes "json_fits a" and "json_fits b"
    and "\<forall>t \<in> set ts. tool_fits t" and "\<forall>t \<in> set us. tool_fits t" and "distinct (map tool_key ts)"
    and "hash_json a \<noteq> hash_json b \<Longrightarrow> sha (hash_json a) \<noteq> sha (hash_json b)"
    and "catalog_bytes ts \<noteq> catalog_bytes us \<Longrightarrow> sha (catalog_bytes ts) \<noteq> sha (catalog_bytes us)"
  shows "(digest_json sha a = digest_json sha b \<longleftrightarrow> canonical a = canonical b)
    \<and> (catalog_digest sha ts = catalog_digest sha us \<longleftrightarrow> mset ts = mset us)"
proof -
  have "digest_json sha a = digest_json sha b \<longleftrightarrow> hash_json a = hash_json b"
    using assms(6) by (auto simp: digest_json_def)
  moreover have "catalog_digest sha ts = catalog_digest sha us \<longleftrightarrow> catalog_bytes ts = catalog_bytes us"
    using assms(7) by (auto simp: catalog_digest_def)
  ultimately show ?thesis by (simp only: hash_json_eq_iff [OF assms(1,2)] catalog_bytes_eq_iff [OF assms(3-5)])
qed

definition demo_tool :: "string \<Rightarrow> catalog_tool" where
  "demo_tool s = \<lparr>tl_local_id = s, tl_remote_name = s, tl_schema_digest = ''d''\<rparr>"

lemma catalog_digests_identify_witness:
  "digest_json id (JObject [(''b'', JNull), (''a'', JBool True)]) = digest_json id (JObject [(''a'', JBool True), (''b'', JNull)])
   \<and> catalog_digest id [demo_tool ''b'', demo_tool ''a''] = catalog_digest id [demo_tool ''a'', demo_tool ''b'']
   \<and> digest_json id (JString ''1'') \<noteq> digest_json id (JNumber ''1'')"
proof -
  have tools: "\<forall>t \<in> set [demo_tool ''a'', demo_tool ''b'']. tool_fits t" "\<forall>t \<in> set [demo_tool ''b'', demo_tool ''a'']. tool_fits t"
    "distinct (map tool_key [demo_tool ''b'', demo_tool ''a''])"
    by (simp_all add: demo_tool_def tool_fits_def fits64_def)
  have sorted: "sort_key fst [(''b'', JNull), (''a'', JBool True)] = [(''a'', JBool True), (''b'', JNull)]"
    "sort_key fst [(''a'', JBool True), (''b'', JNull)] = [(''a'', JBool True), (''b'', JNull)]"
    by code_simp+
  have "(digest_json id (JObject [(''b'', JNull), (''a'', JBool True)]) = digest_json id (JObject [(''a'', JBool True), (''b'', JNull)])
      \<longleftrightarrow> canonical (JObject [(''b'', JNull), (''a'', JBool True)]) = canonical (JObject [(''a'', JBool True), (''b'', JNull)]))
    \<and> (catalog_digest id [demo_tool ''b'', demo_tool ''a''] = catalog_digest id [demo_tool ''a'', demo_tool ''b'']
      \<longleftrightarrow> mset [demo_tool ''b'', demo_tool ''a''] = mset [demo_tool ''a'', demo_tool ''b''])"
    by (rule catalog_digests_identify [OF _ _ tools(2,1,3)]) (simp_all add: fits64_def)
  moreover have "(digest_json id (JString ''1'') = digest_json id (JNumber ''1'') \<longleftrightarrow> canonical (JString ''1'') = canonical (JNumber ''1''))
    \<and> (catalog_digest id [] = catalog_digest id [] \<longleftrightarrow> mset ([] :: catalog_tool list) = mset [])"
    by (rule catalog_digests_identify) (simp_all add: fits64_def)
  ultimately show ?thesis by (simp add: sorted)
qed

end
