(* ===== verification/Effect_Execution.thy ===== *)
theory Effect_Execution
  imports Reference_Monitor Events Hooks Mcp_Catalog
begin

text \<open>
  The effectful half of \<open>pandora-runtime/src/execution_controller.rs\<close>: the controller's state, the
  run summary, events, and \<open>execute_request\<close>, which hands a consumed permit to an executor. The
  executors themselves (workspace files, processes, network, WebAssembly) act on the outside
  world: they are the fields of an \<open>executors\<close> record over a world type, and an error of theirs
  is named by a string. The field \<open>ct_executed\<close> of the controller is a history variable: it
  lists the permits handed to \<open>execute_request\<close> and no operation reads it.
\<close>

section \<open>Errors and summaries\<close>

datatype runtime_error =
  InvalidIntent string
| NoDefaultHarness
| AmbiguousHarnessRoute "harness_id list"
| UnsupportedHarness harness_id
| NonExecutableHarness harness_id string
| UnknownGene
| Planning string
| DeniedFailure string
| ApprovalRequiredFailure string
| ApprovalFailure approval_error
| ApprovalNotRequiredFailure
| AuthorizationFailure authorization_error
| PermitFailure permit_error
| ProviderFailure string
| RequestFailure request_error
| FilesystemFailure string
| NetworkFailure string
| ProcessFailure string
| WasmFailure string
| ExecutionProfileFailure profile_error
| UnsupportedOperation capability

fun runtime_error_code :: "runtime_error \<Rightarrow> string" where
  "runtime_error_code (InvalidIntent _) = ''invalid_intent''"
| "runtime_error_code NoDefaultHarness = ''no_default_harness''"
| "runtime_error_code (AmbiguousHarnessRoute _) = ''ambiguous_harness_route''"
| "runtime_error_code (UnsupportedHarness _) = ''unsupported_harness''"
| "runtime_error_code (NonExecutableHarness _ _) = ''non_executable_harness''"
| "runtime_error_code UnknownGene = ''unknown_gene''"
| "runtime_error_code (Planning _) = ''planning_failed''"
| "runtime_error_code (DeniedFailure _) = ''denied''"
| "runtime_error_code (ApprovalRequiredFailure _) = ''approval_required''"
| "runtime_error_code (ApprovalFailure _) = ''approval_failed''"
| "runtime_error_code ApprovalNotRequiredFailure = ''approval_not_required''"
| "runtime_error_code (AuthorizationFailure _) = ''authorization_failed''"
| "runtime_error_code (PermitFailure _) = ''permit_failed''"
| "runtime_error_code (ProviderFailure _) = ''provider_failed''"
| "runtime_error_code (RequestFailure _) = ''request_failed''"
| "runtime_error_code (FilesystemFailure _) = ''filesystem_failed''"
| "runtime_error_code (NetworkFailure _) = ''network_failed''"
| "runtime_error_code (ProcessFailure _) = ''process_failed''"
| "runtime_error_code (WasmFailure _) = ''wasm_failed''"
| "runtime_error_code (ExecutionProfileFailure _) = ''execution_profile_failed''"
| "runtime_error_code (UnsupportedOperation _) = ''unsupported_operation''"

datatype run_status =
  RunCompleted
| RunDenied string
| RunApprovalRequired string
| RunFailed string

record run_summary =
  sm_execution_id :: execution_id
  sm_selected_harness :: harness_id
  sm_selected_gene :: gene_id
  sm_status :: run_status
  sm_output :: "string option"
  sm_receipts :: "effect_receipt list"
  sm_events :: "runtime_event list"


section \<open>The controller\<close>

record 'w controller =
  ct_parliament :: parliament
  ct_policy :: policy_context
  ct_monitor :: reference_monitor
  ct_hooks :: lifecycle_hooks
  ct_next_execution :: u64
  ct_next_event :: u64
  ct_mcp_catalogs :: catalog_state
  ct_approvals :: approval_table
  ct_world :: 'w
  ct_executed :: "consumed_permit list"

definition new_controller :: "policy_context \<Rightarrow> lifecycle_hooks \<Rightarrow> approval_table \<Rightarrow> 'w \<Rightarrow> 'w controller" where
  "new_controller policy hooks approvals w =
     \<lparr>ct_parliament = \<lparr>pl_policy_version = pc_policy_version policy\<rparr>, ct_policy = policy,
      ct_monitor = new_with_policy policy 60, ct_hooks = hooks, ct_next_execution = 1, ct_next_event = 1,
      ct_mcp_catalogs = new_supervisor, ct_approvals = approvals, ct_world = w, ct_executed = []\<rparr>"

definition update_controller_policy :: "policy_context \<Rightarrow> 'w controller \<Rightarrow> 'w controller" where
  "update_controller_policy policy ct =
     ct\<lparr>ct_parliament := \<lparr>pl_policy_version = pc_policy_version policy\<rparr>, ct_policy := policy,
        ct_monitor := update_policy policy (ct_monitor ct)\<rparr>"

definition event_context_for ::
  "session \<Rightarrow> execution_id \<Rightarrow> harness_id option \<Rightarrow> gene_id option \<Rightarrow> effect_receipt option \<Rightarrow> 'w controller
     \<Rightarrow> event_context" where
  "event_context_for ses eid harness gene receipt ct =
     (let c = (new_event_context (se_tenant_id ses) (se_workspace_id ses))
                \<lparr>ec_session_id := Some (se_id ses), ec_execution_id := Some eid,
                 ec_policy_version := Some (pc_policy_version (ct_policy ct))\<rparr>;
          c = (case harness of None \<Rightarrow> c | Some h \<Rightarrow> c\<lparr>ec_harness_id := Some h\<rparr>);
          c = (case gene of None \<Rightarrow> c | Some g \<Rightarrow> c\<lparr>ec_gene_id := Some g\<rparr>)
      in case receipt of None \<Rightarrow> c | Some r \<Rightarrow> c\<lparr>ec_receipt_id := Some (rc_receipt_id r)\<rparr>)"

text \<open>The event counter is an atomic \<open>fetch_add\<close>, which wraps.\<close>

definition new_event ::
  "event_type \<Rightarrow> event_context \<Rightarrow> event_payload \<Rightarrow> 'w controller \<Rightarrow> runtime_event \<times> 'w controller" where
  "new_event ty ctx payload ct =
     (new_runtime_event (''event-'' @ show_nat (unat (ct_next_event ct))) ty ctx payload,
      ct\<lparr>ct_next_event := ct_next_event ct + 1\<rparr>)"

text \<open>Pushing an event with the harness and gene of the run.\<close>

definition emit ::
  "session \<Rightarrow> execution_id \<Rightarrow> effect_receipt option \<Rightarrow> event_type \<Rightarrow> event_payload
     \<Rightarrow> run_summary \<times> 'w controller \<Rightarrow> run_summary \<times> 'w controller" where
  "emit ses eid receipt ty payload sc =
     (case sc of (s, ct) \<Rightarrow>
        let ctx = event_context_for ses eid (Some (sm_selected_harness s)) (Some (sm_selected_gene s)) receipt ct
        in case new_event ty ctx payload ct of (e, ct) \<Rightarrow> (s\<lparr>sm_events := sm_events s @ [e]\<rparr>, ct))"

definition last_receipt :: "run_summary \<Rightarrow> effect_receipt option" where
  "last_receipt s = (if sm_receipts s = [] then None else Some (last (sm_receipts s)))"

definition record_failure ::
  "session \<Rightarrow> execution_id \<Rightarrow> runtime_error \<Rightarrow> run_summary \<times> 'w controller \<Rightarrow> run_summary \<times> 'w controller" where
  "record_failure ses eid err sc =
     (case sc of (s, ct) \<Rightarrow>
        let s = s\<lparr>sm_status := RunFailed (runtime_error_code err)\<rparr>
        in emit ses eid (last_receipt s) ExecutionFailed (FailurePayload (runtime_error_code err)) (s, ct))"

definition effect_payload :: "operation_request \<Rightarrow> event_payload" where
  "effect_payload r = EffectPayload (capability_str (rq_capability r)) (rq_request_digest r)"


section \<open>Executors\<close>

record 'w executors =
  ex_path :: "string \<Rightarrow> (string, string) outcome"
  ex_inventory :: "consumed_permit \<Rightarrow> string \<Rightarrow> timestamp \<Rightarrow> 'w \<Rightarrow> (effect_receipt \<times> (string, string list) outcome) \<times> 'w"
  ex_search :: "consumed_permit \<Rightarrow> string \<Rightarrow> string \<Rightarrow> timestamp \<Rightarrow> 'w \<Rightarrow> (effect_receipt \<times> (string, string list) outcome) \<times> 'w"
  ex_read :: "consumed_permit \<Rightarrow> string \<Rightarrow> timestamp \<Rightarrow> 'w \<Rightarrow> (effect_receipt \<times> (string, string) outcome) \<times> 'w"
  ex_command :: "string \<Rightarrow> (string, string) outcome"
  ex_process :: "consumed_permit \<Rightarrow> string \<Rightarrow> timestamp \<Rightarrow> 'w \<Rightarrow> (effect_receipt \<times> (string, string) outcome) \<times> 'w"
  ex_write :: "consumed_permit \<Rightarrow> string \<Rightarrow> string \<Rightarrow> timestamp \<Rightarrow> 'w \<Rightarrow> (effect_receipt \<times> (string, unit) outcome) \<times> 'w"
  ex_fetch :: "consumed_permit \<Rightarrow> string \<Rightarrow> timestamp \<Rightarrow> 'w \<Rightarrow> (effect_receipt \<times> (string, string) outcome) \<times> 'w"
  ex_evidence :: "string \<Rightarrow> string option"
  ex_wasm :: "consumed_permit \<Rightarrow> string \<Rightarrow> timestamp \<Rightarrow> 'w \<Rightarrow> (effect_receipt \<times> (string, string) outcome) \<times> 'w"

definition inventory_genes :: "string list" where
  "inventory_genes = [''daedalus.audit'', ''evidence.inventory'', ''design.inventory'',
     ''operations.inventory'', ''debugging.inventory'', ''data.inventory'']"

definition evidence_genes :: "string list" where
  "evidence_genes = [''security.assess'', ''security.audit'', ''security.scan'', ''security.deep-scan'',
     ''security.diff-scan'', ''security.dependencies'', ''security.threat-model'', ''security.discovery'',
     ''security.triage'', ''security.attack-path'', ''security.validation'', ''security.fix'',
     ''security.verify-fix'', ''security.writeup'', ''security.track'', ''security.hardening'',
     ''security.policy'', ''debugging.failures'', ''debugging.tests'', ''debugging.regressions'',
     ''debugging.diagnostics'', ''data.schema'', ''data.quality'', ''data.lineage'', ''data.analysis'']"

definition search_genes :: "string list" where
  "search_genes = [''workspace.search'', ''ariadne.debt'', ''evidence.search'', ''citation.inventory'',
     ''design.tokens'', ''accessibility.evidence'', ''operations.search'', ''deployment.evidence'']
     @ evidence_genes"

definition labelled_genes :: "string list" where
  "labelled_genes = [''ariadne.debt'', ''source.compare'', ''citation.inventory'', ''design.tokens'',
     ''design.compare'', ''accessibility.evidence'', ''config.compare'', ''deployment.evidence'']
     @ evidence_genes"

definition status_genes :: "string list" where
  "status_genes = [''workspace.status'', ''workspace.diff'', ''workspace.log'', ''workspace.refs'']"

definition append_labeled_output :: "string \<Rightarrow> string \<Rightarrow> run_summary \<Rightarrow> run_summary" where
  "append_labeled_output label bytes s =
     (let out = (case sm_output s of None \<Rightarrow> [] | Some b \<Rightarrow> b);
          out = (if out \<noteq> [] then out @ [CHR 0x0A] else out)
      in s\<lparr>sm_output := Some (out @ label @ [CHR '':'', CHR 0x0A] @ bytes)\<rparr>)"

text \<open>Recording the receipt and the completion event of an effect.\<close>

definition complete_effect ::
  "session \<Rightarrow> execution_id \<Rightarrow> consumed_permit \<Rightarrow> effect_receipt \<Rightarrow> run_summary \<times> 'w controller
     \<Rightarrow> run_summary \<times> 'w controller" where
  "complete_effect ses eid c receipt sc =
     (case sc of (s, ct) \<Rightarrow>
        emit ses eid (Some receipt) EffectCompleted (effect_payload (cp_request c))
          (s\<lparr>sm_receipts := sm_receipts s @ [receipt]\<rparr>, ct))"

section \<open>Executing a consumed permit\<close>

text \<open>Each branch of \<open>execute_request\<close> by capability. Reading chooses between an inventory, a search
  and a plain read by the gene.\<close>

definition read_effect ::
  "'w executors \<Rightarrow> consumed_permit \<Rightarrow> string \<Rightarrow> timestamp \<Rightarrow> 'w
     \<Rightarrow> (runtime_error, (effect_receipt \<times> (string, string) outcome) \<times> 'w) outcome" where
  "read_effect ex c path now w =
     (let gene = rq_gene_id (cp_request c) in
      if gene \<in> set inventory_genes then
        and_then (map_err FilesystemFailure (ex_path ex path)) (\<lambda>target.
        case ex_inventory ex c target now w of ((receipt, result), w) \<Rightarrow>
          Inr ((receipt, and_then result (\<lambda>files. Inr (join_with [CHR 0x0A] files))), w))
      else if gene \<in> set search_genes then
        and_then (map_err FilesystemFailure (ex_path ex ''.'')) (\<lambda>target.
        case ex_search ex c target path now w of ((receipt, result), w) \<Rightarrow>
          Inr ((receipt, and_then result (\<lambda>found. Inr (join_with [CHR 0x0A] found))), w))
      else
        and_then (map_err FilesystemFailure (ex_path ex path)) (\<lambda>target.
        Inr (ex_read ex c target now w)))"

definition execute_read ::
  "'w executors \<Rightarrow> session \<Rightarrow> execution_id \<Rightarrow> consumed_permit \<Rightarrow> timestamp \<Rightarrow> run_summary \<times> 'w controller
     \<Rightarrow> (runtime_error, unit) outcome \<times> run_summary \<times> 'w controller" where
  "execute_read ex ses eid c now sc =
     (case rq_target (cp_request c) of
        Path path \<Rightarrow>
          (case read_effect ex c path now (ct_world (snd sc)) of
             Inl e \<Rightarrow> (Inl e, sc)
           | Inr ((receipt, result), w) \<Rightarrow>
               (case complete_effect ses eid c receipt (fst sc, (snd sc)\<lparr>ct_world := w\<rparr>) of (s, ct) \<Rightarrow>
                  (case result of
                     Inl e \<Rightarrow> (Inl (FilesystemFailure e), s, ct)
                   | Inr bytes \<Rightarrow>
                       if rq_gene_id (cp_request c) \<in> set labelled_genes
                       then (Inr (), append_labeled_output path bytes s, ct)
                       else (Inr (), s\<lparr>sm_output := Some bytes\<rparr>, ct))))
      | _ \<Rightarrow> (Inl (UnsupportedOperation FilesystemRead), sc))"

definition execute_process ::
  "'w executors \<Rightarrow> session \<Rightarrow> execution_id \<Rightarrow> consumed_permit \<Rightarrow> timestamp \<Rightarrow> run_summary \<times> 'w controller
     \<Rightarrow> (runtime_error, unit) outcome \<times> run_summary \<times> 'w controller" where
  "execute_process ex ses eid c now sc =
     (case rq_target (cp_request c) of
        Process program \<Rightarrow>
          (case ex_command ex program of
             Inl e \<Rightarrow> (Inl (ProcessFailure e), sc)
           | Inr command \<Rightarrow>
               (case ex_process ex c command now (ct_world (snd sc)) of ((receipt, result), w) \<Rightarrow>
                  let s = (if sm_selected_gene (fst sc) \<in> set status_genes
                           then (case result of Inr out \<Rightarrow> (fst sc)\<lparr>sm_output := Some out\<rparr> | Inl _ \<Rightarrow> fst sc)
                           else fst sc) in
                  (case complete_effect ses eid c receipt (s, (snd sc)\<lparr>ct_world := w\<rparr>) of (s, ct) \<Rightarrow>
                     (and_then (map_err ProcessFailure result) (\<lambda>_. Inr ()), s, ct))))
      | _ \<Rightarrow> (Inl (UnsupportedOperation ProcessExecute), sc))"

definition execute_write ::
  "'w executors \<Rightarrow> session \<Rightarrow> execution_id \<Rightarrow> consumed_permit \<Rightarrow> string option \<Rightarrow> timestamp
     \<Rightarrow> run_summary \<times> 'w controller \<Rightarrow> (runtime_error, unit) outcome \<times> run_summary \<times> 'w controller" where
  "execute_write ex ses eid c payload now sc =
     (case rq_target (cp_request c) of
        Path path \<Rightarrow>
          (case ex_path ex path of
             Inl e \<Rightarrow> (Inl (FilesystemFailure e), sc)
           | Inr target \<Rightarrow>
               (case payload of
                  None \<Rightarrow> (Inl (FilesystemFailure ''PermissionDenied''), sc)
                | Some content \<Rightarrow>
                    (case ex_write ex c target content now (ct_world (snd sc)) of ((receipt, result), w) \<Rightarrow>
                       (case complete_effect ses eid c receipt (fst sc, (snd sc)\<lparr>ct_world := w\<rparr>) of (s, ct) \<Rightarrow>
                          (map_err FilesystemFailure result, s, ct)))))
      | _ \<Rightarrow> (Inl (UnsupportedOperation FilesystemWrite), sc))"

definition execute_network ::
  "'w executors \<Rightarrow> session \<Rightarrow> execution_id \<Rightarrow> consumed_permit \<Rightarrow> string option \<Rightarrow> timestamp
     \<Rightarrow> run_summary \<times> 'w controller \<Rightarrow> (runtime_error, unit) outcome \<times> run_summary \<times> 'w controller" where
  "execute_network ex ses eid c payload now sc =
     (case payload of
        None \<Rightarrow> (Inl (NetworkFailure ''PermissionDenied''), sc)
      | Some source \<Rightarrow>
          if \<not> utf8_valid source then (Inl (NetworkFailure ''InvalidUrl''), sc)
          else
            (case ex_fetch ex c source now (ct_world (snd sc)) of ((receipt, result), w) \<Rightarrow>
               (case complete_effect ses eid c receipt (fst sc, (snd sc)\<lparr>ct_world := w\<rparr>) of (s, ct) \<Rightarrow>
                  (case result of
                     Inl e \<Rightarrow> (Inl (NetworkFailure e), s, ct)
                   | Inr evidence \<Rightarrow>
                       (case ex_evidence ex evidence of
                          None \<Rightarrow> (Inl (InvalidIntent ''browser evidence could not be encoded''), s, ct)
                        | Some bytes \<Rightarrow> (Inr (), s\<lparr>sm_output := Some bytes\<rparr>, ct))))))"

definition execute_wasm ::
  "'w executors \<Rightarrow> session \<Rightarrow> execution_id \<Rightarrow> consumed_permit \<Rightarrow> string option \<Rightarrow> timestamp
     \<Rightarrow> run_summary \<times> 'w controller \<Rightarrow> (runtime_error, unit) outcome \<times> run_summary \<times> 'w controller" where
  "execute_wasm ex ses eid c payload now sc =
     (case payload of
        None \<Rightarrow> (Inl (WasmFailure ''InvalidInput''), sc)
      | Some input \<Rightarrow>
          (case ex_wasm ex c input now (ct_world (snd sc)) of ((receipt, result), w) \<Rightarrow>
             (case complete_effect ses eid c receipt (fst sc, (snd sc)\<lparr>ct_world := w\<rparr>) of (s, ct) \<Rightarrow>
                (case result of
                   Inl e \<Rightarrow> (Inl (WasmFailure e), s, ct)
                 | Inr bytes \<Rightarrow> (Inr (), s\<lparr>sm_output := Some bytes\<rparr>, ct)))))"

definition execute_request ::
  "'w executors \<Rightarrow> session \<Rightarrow> execution_id \<Rightarrow> consumed_permit \<Rightarrow> string option \<Rightarrow> timestamp
     \<Rightarrow> run_summary \<times> 'w controller \<Rightarrow> (runtime_error, unit) outcome \<times> run_summary \<times> 'w controller" where
  "execute_request ex ses eid c payload now sc =
     (case rq_capability (cp_request c) of
        FilesystemRead \<Rightarrow> execute_read ex ses eid c now sc
      | ProcessExecute \<Rightarrow> execute_process ex ses eid c now sc
      | FilesystemWrite \<Rightarrow> execute_write ex ses eid c payload now sc
      | NetworkConnect \<Rightarrow> execute_network ex ses eid c payload now sc
      | WasmExecute \<Rightarrow> execute_wasm ex ses eid c payload now sc
      | capability \<Rightarrow> (Inl (UnsupportedOperation capability), sc))"


section \<open>What execution leaves alone\<close>

text \<open>The parts of the state that decide authority. An executor reaches only the world, the event
  counter and the summary.\<close>

definition same_authority :: "'w controller \<Rightarrow> 'w controller \<Rightarrow> bool" where
  "same_authority a b \<longleftrightarrow>
     ct_parliament a = ct_parliament b \<and> ct_policy a = ct_policy b \<and> ct_hooks a = ct_hooks b
   \<and> ct_monitor a = ct_monitor b \<and> ct_approvals a = ct_approvals b \<and> ct_executed a = ct_executed b"

lemma same_authority_refl [simp]: "same_authority a a"
  by (simp add: same_authority_def)

lemma same_authority_trans: "same_authority a b \<Longrightarrow> same_authority b c \<Longrightarrow> same_authority a c"
  by (simp add: same_authority_def)

lemma same_authority_world [simp]: "same_authority (a\<lparr>ct_world := w\<rparr>) b = same_authority a b"
  by (simp add: same_authority_def)

lemma emit_facts:
  "same_authority (snd (emit ses eid receipt ty payload sc)) (snd sc)"
  "sm_status (fst (emit ses eid receipt ty payload sc)) = sm_status (fst sc)"
  "sm_receipts (fst (emit ses eid receipt ty payload sc)) = sm_receipts (fst sc)"
  by (simp_all add: emit_def new_event_def same_authority_def Let_def split: prod.splits)

lemma emit_authority [simp]: "same_authority (snd (emit ses eid receipt ty payload (s, ct))) ct"
  using emit_facts(1) [of ses eid receipt ty payload "(s, ct)"] by simp

lemma record_failure_facts:
  "same_authority (snd (record_failure ses eid e sc)) (snd sc)"
  "sm_status (fst (record_failure ses eid e sc)) = RunFailed (runtime_error_code e)"
  by (simp_all add: record_failure_def Let_def emit_facts split: prod.splits)

lemma complete_effect_facts:
  "same_authority (snd (complete_effect ses eid c receipt sc)) (snd sc)"
  "sm_status (fst (complete_effect ses eid c receipt sc)) = sm_status (fst sc)"
  "sm_receipts (fst (complete_effect ses eid c receipt sc)) = sm_receipts (fst sc) @ [receipt]"
  by (simp_all add: complete_effect_def emit_facts split: prod.splits)

lemma append_labeled_output_facts [simp]:
  "sm_status (append_labeled_output label bytes s) = sm_status s"
  "sm_receipts (append_labeled_output label bytes s) = sm_receipts s"
  by (simp_all add: append_labeled_output_def Let_def)

text \<open>What one branch may do: keep authority and status, and add at most one receipt, exactly one
  when it succeeds.\<close>

definition effect_step ::
  "run_summary \<times> 'w controller \<Rightarrow> (runtime_error, unit) outcome \<times> run_summary \<times> 'w controller \<Rightarrow> bool" where
  "effect_step sc res \<longleftrightarrow>
     same_authority (snd (snd res)) (snd sc) \<and> sm_status (fst (snd res)) = sm_status (fst sc)
   \<and> (\<exists>new. sm_receipts (fst (snd res)) = sm_receipts (fst sc) @ new \<and> length new \<le> 1
        \<and> (is_ok (fst res) \<longrightarrow> length new = 1))"

lemma effect_step_none [simp]: "effect_step sc (Inl e, sc)"
  by (simp add: effect_step_def)

lemma effect_step_done:
  assumes "complete_effect ses eid c receipt (s0, ct0) = (s, ct)"
    and "same_authority ct0 (snd sc)" and "sm_status s0 = sm_status (fst sc)" and "sm_receipts s0 = sm_receipts (fst sc)"
    and "sm_status s' = sm_status s" and "sm_receipts s' = sm_receipts s"
  shows "effect_step sc (r, s', ct)"
proof -
  have "same_authority ct ct0" "sm_status s = sm_status s0" "sm_receipts s = sm_receipts s0 @ [receipt]"
    using complete_effect_facts [of ses eid c receipt "(s0, ct0)"] assms(1) by simp_all
  with assms(2-6) show ?thesis
    by (auto simp: effect_step_def intro: same_authority_trans)
qed

lemma effect_step_complete:
  assumes "same_authority ct0 (snd sc)" and "sm_status s0 = sm_status (fst sc)" and "sm_receipts s0 = sm_receipts (fst sc)"
  shows "effect_step sc (r, complete_effect ses eid c receipt (s0, ct0))"
  using effect_step_done [OF _ assms, of ses eid c receipt] by (metis prod.collapse)

lemma execute_read_step: "effect_step sc (execute_read ex ses eid c now sc)"
  unfolding execute_read_def
  by (auto split: effect_target.splits sum.splits prod.splits elim!: effect_step_done)

lemma execute_process_step: "effect_step sc (execute_process ex ses eid c now sc)"
  unfolding execute_process_def Let_def
  by (auto split: effect_target.splits sum.splits prod.splits intro!: effect_step_complete)

lemma execute_write_step: "effect_step sc (execute_write ex ses eid c payload now sc)"
  unfolding execute_write_def
  by (auto split: effect_target.splits sum.splits prod.splits option.splits intro!: effect_step_complete)

lemma execute_network_step: "effect_step sc (execute_network ex ses eid c payload now sc)"
  unfolding execute_network_def
  by (auto split: sum.splits prod.splits option.splits elim!: effect_step_done)

lemma execute_wasm_step: "effect_step sc (execute_wasm ex ses eid c payload now sc)"
  unfolding execute_wasm_def
  by (auto split: sum.splits prod.splits option.splits elim!: effect_step_done)

lemma execute_request_step: "effect_step sc (execute_request ex ses eid c payload now sc)"
  unfolding execute_request_def
  by (simp add: execute_read_step execute_process_step execute_write_step execute_network_step
      execute_wasm_step split: capability.splits)

end
