(* ===== verification/Execution_Controller.thy ===== *)
theory Execution_Controller
  imports Effect_Execution
begin

text \<open>
  The mediating half of \<open>pandora-runtime/src/execution_controller.rs\<close>: the loop of \<open>run_internal\<close>
  that takes every planned request through hooks, Parliament, approval, the reference monitor and
  the permit store before it is executed, and the two other gates, for MCP requests and for
  provider calls. An early return of the summary is \<open>Halt\<close>, an early return of an error is
  \<open>Abort\<close>. Choosing the harness and planning its gene is a parameter of \<open>run_internal\<close>.
\<close>

section \<open>The gate of a run\<close>

datatype 'a progress = Proceed 'a | Halt | Abort runtime_error

type_synonym approval_execution = "(faults \<times> string) option"

definition hook_denial :: "operation_request \<Rightarrow> 'w controller \<Rightarrow> string option" where
  "hook_denial r ct =
     (case evaluate_hooks BeforeAuthorization r (ct_hooks ct) of
        Continue \<Rightarrow> None
      | DenyHook i reason \<Rightarrow> Some (''lifecycle hook '' @ i @ '' denied request: '' @ reason))"

definition halt_with ::
  "session \<Rightarrow> execution_id \<Rightarrow> event_type \<Rightarrow> run_status \<Rightarrow> string \<Rightarrow> run_summary \<times> 'w controller
     \<Rightarrow> 'a progress \<times> run_summary \<times> 'w controller" where
  "halt_with ses eid ty status reason sc =
     (case emit ses eid None ty (PolicyPayload reason) sc of (s, ct) \<Rightarrow> (Halt, s\<lparr>sm_status := status\<rparr>, ct))"

text \<open>The permit of an authorization, or the recorded failure.\<close>

definition permit_or_fail ::
  "session \<Rightarrow> execution_id \<Rightarrow> (authorization_error, effect_permit) outcome \<times> reference_monitor
     \<Rightarrow> run_summary \<times> 'w controller \<Rightarrow> effect_permit progress \<times> run_summary \<times> 'w controller" where
  "permit_or_fail ses eid res sc =
     (case res of
        (Inr p, m) \<Rightarrow> (Proceed p, fst sc, (snd sc)\<lparr>ct_monitor := m\<rparr>)
      | (Inl e, m) \<Rightarrow> (Halt, record_failure ses eid (AuthorizationFailure e) (fst sc, (snd sc)\<lparr>ct_monitor := m\<rparr>)))"

definition authorize_step ::
  "session \<Rightarrow> execution_id \<Rightarrow> approval_execution \<Rightarrow> bool \<Rightarrow> timestamp \<Rightarrow> operation_request
     \<Rightarrow> run_summary \<times> 'w controller \<Rightarrow> effect_permit progress \<times> run_summary \<times> 'w controller" where
  "authorize_step ses eid approval allow_unrequired now r sc =
     (let d = decide (ct_parliament (snd sc)) r (ct_policy (snd sc)) in
      case d of
        Allow _ _ reason \<Rightarrow>
          if approval \<noteq> None \<and> \<not> allow_unrequired
          then (Halt, record_failure ses eid ApprovalNotRequiredFailure sc)
          else
            let sc = emit ses eid None PolicyApproved (PolicyPayload reason) sc
            in permit_or_fail ses eid (authorize r d now (ct_monitor (snd sc))) sc
      | Deny _ _ reason \<Rightarrow> halt_with ses eid PolicyDenied (RunDenied reason) reason sc
      | RequireApproval _ _ reason \<Rightarrow>
          (case approval of
             Some (f, i) \<Rightarrow>
               (case consume_grant f i (rq_principal_id r) (rq_session_id r) (rq_execution_id r)
                       (rq_gene_id r) (rq_request_digest r) now (ct_approvals (snd sc)) of
                  (Inl e, t) \<Rightarrow> (Abort (ApprovalFailure e), fst sc, (snd sc)\<lparr>ct_approvals := t\<rparr>)
                | (Inr g, t) \<Rightarrow>
                    let sc = emit ses eid None PolicyApproved
                               (PolicyPayload (''explicit approval consumed: '' @ reason))
                               (fst sc, (snd sc)\<lparr>ct_approvals := t\<rparr>)
                    in permit_or_fail ses eid
                         (authorize_after_approval_with_grant r d g now (ct_monitor (snd sc))) sc)
           | None \<Rightarrow> halt_with ses eid ApprovalRequiredEvent (RunApprovalRequired reason) reason sc))"

text \<open>Consuming the permit and executing the effect.\<close>

definition spend_permit ::
  "'w executors \<Rightarrow> session \<Rightarrow> execution_id \<Rightarrow> string option \<Rightarrow> timestamp \<Rightarrow> operation_request
     \<Rightarrow> effect_permit \<Rightarrow> run_summary \<times> 'w controller \<Rightarrow> unit progress \<times> run_summary \<times> 'w controller" where
  "spend_permit ex ses eid payload now r p sc =
     (case consume_permit p r now (ct_monitor (snd sc)) of
        (Inl e, m) \<Rightarrow> (Halt, record_failure ses eid (PermitFailure e) (fst sc, (snd sc)\<lparr>ct_monitor := m\<rparr>))
      | (Inr c, m) \<Rightarrow>
          (case execute_request ex ses eid c payload now
                  (fst sc, (snd sc)\<lparr>ct_monitor := m, ct_executed := ct_executed (snd sc) @ [c]\<rparr>) of
             (Inl e, sc) \<Rightarrow> (Halt, record_failure ses eid e sc)
           | (Inr _, sc) \<Rightarrow> (Proceed (), sc)))"

definition step_request ::
  "'w executors \<Rightarrow> session \<Rightarrow> execution_id \<Rightarrow> approval_execution \<Rightarrow> bool \<Rightarrow> string option \<Rightarrow> timestamp
     \<Rightarrow> operation_request \<Rightarrow> run_summary \<times> 'w controller \<Rightarrow> unit progress \<times> run_summary \<times> 'w controller" where
  "step_request ex ses eid approval allow_unrequired payload now r sc =
     (let sc = emit ses eid None EffectRequested (effect_payload r) sc in
      case hook_denial r (snd sc) of
        Some reason \<Rightarrow> halt_with ses eid PolicyDenied (RunDenied reason) reason sc
      | None \<Rightarrow>
          (case authorize_step ses eid approval allow_unrequired now r sc of
             (Proceed p, sc) \<Rightarrow> spend_permit ex ses eid payload now r p sc
           | (Halt, sc) \<Rightarrow> (Halt, sc)
           | (Abort e, sc) \<Rightarrow> (Abort e, sc)))"

text \<open>The database calls of the next request come after the seven of \<open>consume_grant\<close>.\<close>

definition later_faults :: "approval_execution \<Rightarrow> approval_execution" where
  "later_faults approval = map_option (\<lambda>(f, i). (\<lambda>k. f (k + 7), i)) approval"

fun run_requests ::
  "'w executors \<Rightarrow> session \<Rightarrow> execution_id \<Rightarrow> approval_execution \<Rightarrow> bool \<Rightarrow> string option \<Rightarrow> timestamp
     \<Rightarrow> operation_request list \<Rightarrow> run_summary \<times> 'w controller
     \<Rightarrow> (runtime_error, run_summary) outcome \<times> 'w controller" where
  "run_requests ex ses eid approval allow_unrequired payload now [] sc = (Inr (fst sc), snd sc)"
| "run_requests ex ses eid approval allow_unrequired payload now (r # rs) sc =
     (case step_request ex ses eid approval allow_unrequired payload now r sc of
        (Proceed _, sc) \<Rightarrow> run_requests ex ses eid (later_faults approval) allow_unrequired payload now rs sc
      | (Halt, sc) \<Rightarrow> (Inr (fst sc), snd sc)
      | (Abort e, sc) \<Rightarrow> (Inl e, snd sc))"

record planned_run =
  pr_harness :: harness_id
  pr_gene :: gene_id
  pr_requests :: "operation_request list"
  pr_payload :: "string option"
  pr_output :: "string option"

definition run_internal ::
  "'w executors \<Rightarrow> (execution_id \<Rightarrow> (runtime_error, planned_run) outcome) \<Rightarrow> session \<Rightarrow> timestamp
     \<Rightarrow> execution_id option \<Rightarrow> approval_execution \<Rightarrow> bool \<Rightarrow> 'w controller
     \<Rightarrow> (runtime_error, run_summary) outcome \<times> 'w controller" where
  "run_internal ex plan ses now override approval allow_unrequired ct =
     (let fresh = ''execution-'' @ show_nat (unat (ct_next_execution ct));
          ct = ct\<lparr>ct_next_execution := ct_next_execution ct + 1\<rparr>;
          eid = (case override of Some e \<Rightarrow> e | None \<Rightarrow> fresh)
      in case plan eid of
           Inl e \<Rightarrow> (Inl e, ct)
         | Inr p \<Rightarrow>
             (case new_event SessionStarted (event_context_for ses eid None None None ct) EmptyPayload ct of
                (started, ct) \<Rightarrow>
                  run_requests ex ses eid approval allow_unrequired (pr_payload p) now (pr_requests p)
                    (\<lparr>sm_execution_id = eid, sm_selected_harness = pr_harness p, sm_selected_gene = pr_gene p,
                      sm_status = RunCompleted, sm_output = pr_output p, sm_receipts = [],
                      sm_events = [started]\<rparr>, ct)))"

definition run_at ::
  "'w executors \<Rightarrow> (execution_id \<Rightarrow> (runtime_error, planned_run) outcome) \<Rightarrow> session \<Rightarrow> timestamp
     \<Rightarrow> 'w controller \<Rightarrow> (runtime_error, run_summary) outcome \<times> 'w controller" where
  "run_at ex plan ses now ct = run_internal ex plan ses now None None False ct"

text \<open>\<open>run_with_approval\<close> and \<open>run_agent_with_approval\<close> differ in the last flag only.\<close>

definition run_approved ::
  "bool \<Rightarrow> 'w executors \<Rightarrow> (execution_id \<Rightarrow> (runtime_error, planned_run) outcome) \<Rightarrow> session \<Rightarrow> faults
     \<Rightarrow> string \<Rightarrow> timestamp \<Rightarrow> 'w controller \<Rightarrow> (runtime_error, run_summary) outcome \<times> 'w controller" where
  "run_approved allow_unrequired ex plan ses f i now ct =
     (case inspect f 0 i (se_principal_id ses) (ct_approvals ct) of
        Inl e \<Rightarrow> (Inl (ApprovalFailure e), ct)
      | Inr a \<Rightarrow>
          if pa_session_id a \<noteq> se_id ses then (Inl (ApprovalFailure ScopeMismatch), ct)
          else run_internal ex plan ses now (Some (pa_execution_id a)) (Some (\<lambda>k. f (k + 2), i)) allow_unrequired ct)"

definition run_with_approval where
  "run_with_approval = run_approved False"

definition run_agent_with_approval where
  "run_agent_with_approval = run_approved True"


section \<open>The gates of MCP requests and provider calls\<close>

definition mcp_event ::
  "session \<Rightarrow> operation_request \<Rightarrow> event_type \<Rightarrow> event_payload \<Rightarrow> runtime_event list \<times> 'w controller
     \<Rightarrow> runtime_event list \<times> 'w controller" where
  "mcp_event ses r ty payload ec =
     (case new_event ty (event_context_for ses (rq_execution_id r) None (Some (rq_gene_id r)) None (snd ec)) payload (snd ec) of
        (e, ct) \<Rightarrow> (fst ec @ [e], ct))"

definition authorize_mcp_request ::
  "operation_request \<Rightarrow> session \<Rightarrow> timestamp \<Rightarrow> runtime_event list \<times> 'w controller
     \<Rightarrow> (mcp_error, consumed_permit) outcome \<times> runtime_event list \<times> 'w controller" where
  "authorize_mcp_request r ses now ec =
     (let ec = mcp_event ses r EffectRequested (effect_payload r) ec in
      case hook_denial r (snd ec) of
        Some reason \<Rightarrow> (Inl McpPolicyDenied, mcp_event ses r PolicyDenied (PolicyPayload reason) ec)
      | None \<Rightarrow>
          let d = decide (ct_parliament (snd ec)) r (ct_policy (snd ec)) in
          (case d of
             Allow _ _ reason \<Rightarrow>
               let ec = mcp_event ses r PolicyApproved (PolicyPayload reason) ec in
               (case authorize r d now (ct_monitor (snd ec)) of
                  (Inl _, m) \<Rightarrow> (Inl McpAuthorizationFailed, fst ec, (snd ec)\<lparr>ct_monitor := m\<rparr>)
                | (Inr p, m) \<Rightarrow>
                    (case consume_permit p r now m of
                       (Inl _, m) \<Rightarrow> (Inl McpPermitFailed, fst ec, (snd ec)\<lparr>ct_monitor := m\<rparr>)
                     | (Inr c, m) \<Rightarrow> (Inr c, fst ec, (snd ec)\<lparr>ct_monitor := m\<rparr>)))
           | Deny _ _ reason \<Rightarrow> (Inl McpPolicyDenied, mcp_event ses r PolicyDenied (PolicyPayload reason) ec)
           | RequireApproval _ _ reason \<Rightarrow>
               (Inl McpApprovalRequired, mcp_event ses r ApprovalRequiredEvent (PolicyPayload reason) ec)))"

text \<open>The part of \<open>invoke_provider_once\<close> between the construction of its request and the call of
  the provider.\<close>

definition authorize_provider_request ::
  "operation_request \<Rightarrow> timestamp \<Rightarrow> 'w controller \<Rightarrow> (runtime_error, consumed_permit) outcome \<times> 'w controller" where
  "authorize_provider_request r now ct =
     (case hook_denial r ct of
        Some reason \<Rightarrow> (Inl (DeniedFailure reason), ct)
      | None \<Rightarrow>
          let d = decide (ct_parliament ct) r (ct_policy ct) in
          (case d of
             Allow _ _ _ \<Rightarrow>
               (case authorize r d now (ct_monitor ct) of
                  (Inl e, m) \<Rightarrow> (Inl (AuthorizationFailure e), ct\<lparr>ct_monitor := m\<rparr>)
                | (Inr p, m) \<Rightarrow>
                    (case consume_permit p r now m of
                       (Inl e, m) \<Rightarrow> (Inl (PermitFailure e), ct\<lparr>ct_monitor := m\<rparr>)
                     | (Inr c, m) \<Rightarrow> (Inr c, ct\<lparr>ct_monitor := m\<rparr>)))
           | Deny _ _ reason \<Rightarrow> (Inl (DeniedFailure reason), ct)
           | RequireApproval _ _ reason \<Rightarrow> (Inl (ApprovalRequiredFailure reason), ct)))"

section \<open>What passes the gate\<close>

text \<open>The approval \<open>i\<close> of the table covers a request at a time and under a policy version.\<close>

definition approved_for :: "approval_table \<Rightarrow> string \<Rightarrow> operation_request \<Rightarrow> timestamp \<Rightarrow> u32 \<Rightarrow> bool" where
  "approved_for t i r now v \<longleftrightarrow>
     (\<exists>row a. row_lookup ra_id i t = Some row \<and> decode_raw row = Inr a \<and> pa_status a = Approved
        \<and> pa_principal_id a = rq_principal_id r \<and> pa_session_id a = rq_session_id r
        \<and> pa_execution_id a = rq_execution_id r \<and> pa_gene_id a = rq_gene_id r
        \<and> pa_request_digest a = rq_request_digest r \<and> pa_policy_version a = v \<and> now < pa_expires_at a)"

text \<open>The policy of the controller and that of its monitor agree that the request needs approval.\<close>

definition needs_approval :: "'w controller \<Rightarrow> operation_request \<Rightarrow> bool" where
  "needs_approval ct r \<longleftrightarrow> requires_approval (rm_policy (ct_monitor ct)) (rq_operation r)"

text \<open>Everything the controller, its hooks and its monitor demand of a request, before its effect.\<close>

definition governed :: "approval_execution \<Rightarrow> timestamp \<Rightarrow> 'w controller \<Rightarrow> operation_request \<Rightarrow> bool" where
  "governed approval now ct r \<longleftrightarrow>
     evaluate_hooks BeforeAuthorization r (ct_hooks ct) = Continue
   \<and> decide (ct_parliament ct) r (ct_policy ct) = decide (rm_parliament (ct_monitor ct)) r (rm_policy (ct_monitor ct))
   \<and> allows (ct_policy ct) (rq_capability r) \<and> enabled (ct_monitor ct) r
   \<and> (needs_approval ct r \<longrightarrow>
        (\<exists>f i. approval = Some (f, i) \<and> approved_for (ct_approvals ct) i r now (rm_policy_version (ct_monitor ct))))"

text \<open>The parts of the controller that no request of a run changes.\<close>

definition same_rules :: "'w controller \<Rightarrow> 'w controller \<Rightarrow> bool" where
  "same_rules a b \<longleftrightarrow>
     ct_parliament a = ct_parliament b \<and> ct_policy a = ct_policy b \<and> ct_hooks a = ct_hooks b
   \<and> rm_parliament (ct_monitor a) = rm_parliament (ct_monitor b) \<and> rm_policy (ct_monitor a) = rm_policy (ct_monitor b)
   \<and> rm_policy_version (ct_monitor a) = rm_policy_version (ct_monitor b)"

lemma same_authority_rules: "same_authority a b \<Longrightarrow> same_rules a b"
  by (simp add: same_authority_def same_rules_def)

lemma same_rules_trans: "same_rules a b \<Longrightarrow> same_rules b c \<Longrightarrow> same_rules a c"
  by (simp add: same_rules_def)

lemma needs_approval_same: "same_rules a b \<Longrightarrow> needs_approval a = needs_approval b"
  by (rule ext) (simp add: same_rules_def needs_approval_def)

lemma hook_denial_None: "hook_denial r ct = None \<longleftrightarrow> evaluate_hooks BeforeAuthorization r (ct_hooks ct) = Continue"
  by (simp add: hook_denial_def split: hook_decision.splits)

lemma governed_same:
  assumes "same_rules a b" and "ct_approvals a = ct_approvals b"
  shows "governed approval now a r = governed approval now b r"
  using assms by (simp add: governed_def same_rules_def needs_approval_def enabled_def)

text \<open>Issuing and consuming touch only the nonce and the store of the monitor.\<close>

lemma issue_permit_rules:
  "rm_parliament (snd (issue_permit r now m)) = rm_parliament m"
  "rm_policy (snd (issue_permit r now m)) = rm_policy m"
  "rm_policy_version (snd (issue_permit r now m)) = rm_policy_version m"
  by (auto simp: issue_permit_def Let_def split: option.splits sum.splits prod.splits)

lemma consume_grant_approved_for:
  assumes "consume_grant f i (rq_principal_id r) (rq_session_id r) (rq_execution_id r) (rq_gene_id r)
             (rq_request_digest r) now t = (Inr g, t')"
    and "grant_matches g r v"
  shows "approved_for t i r now v" and "\<not> approval_spent t i" and "approval_spent t' i"
proof -
  let ?op = "ConsumeGrantOp f i (rq_principal_id r) (rq_session_id r) (rq_execution_id r) (rq_gene_id r) (rq_request_digest r) now"
  have red: "redeems_approval ?op t = Some i" using assms(1) by simp
  show "\<not> approval_spent t i" by (rule approvals.redeem_fresh [OF red])
  show "approval_spent t' i" using approvals.redeem_spends [OF red] assms(1) by simp
  obtain row a n where row: "row_lookup ra_id i t = Some row" "decode_raw row = Inr a" "pa_status a = Approved"
    and scope: "pa_principal_id a = rq_principal_id r" "pa_session_id a = rq_session_id r"
      "pa_execution_id a = rq_execution_id r" "pa_gene_id a = rq_gene_id r" "pa_request_digest a = rq_request_digest r"
    and exp: "now < pa_expires_at a" and n: "i64_of_u64 now = Some n"
    and t': "t' = row_update (open_before ''approved'' i n) (write_status ''consumed'') t"
    and ins: "inspect f 5 i (rq_principal_id r) t' = Inr (ag_approval g)"
    by (rule consume_grant_ok [OF assms(1)])
  have look: "row_lookup ra_id i t' = Some (write_status ''consumed'' row)"
    unfolding t' by (rule redeemed_row_consumed [OF row exp n])
  have "decode_raw (write_status ''consumed'' row) = Inr (ag_approval g)"
    using ins look by (auto simp: inspect_def inspect_unscoped_def load_approval_def split: if_splits sum.splits option.splits)
  then have "pa_policy_version (ag_approval g) = pa_policy_version a"
    using decode_raw_ok(10) [OF row(2)] decode_raw_ok(10) [of "write_status ''consumed'' row"]
    by (simp add: write_status_def)
  with assms(2) row scope exp show "approved_for t i r now v"
    by (auto simp: approved_for_def grant_matches_def Let_def)
qed

text \<open>A permit that \<open>authorize_step\<close> hands on: the gate was passed and the permit is fresh.\<close>

lemma permit_or_fail_Proceed:
  "permit_or_fail ses eid res sc = (Proceed p, s', ct') \<longleftrightarrow>
     (\<exists>m. res = (Inr p, m) \<and> s' = fst sc \<and> ct' = (snd sc)\<lparr>ct_monitor := m\<rparr>)"
  by (auto simp: permit_or_fail_def split: prod.splits sum.splits)

lemma authorize_step_Proceed:
  assumes "authorize_step ses eid approval au now r (s, ct) = (Proceed p, s', ct')"
    and "evaluate_hooks BeforeAuthorization r (ct_hooks ct) = Continue"
  shows "governed approval now ct r"
    and "issue_permit r now (ct_monitor ct) = (Inr p, ct_monitor ct')"
    and "ct_executed ct' = ct_executed ct" and "same_rules ct' ct"
    and "sm_status s' = sm_status s" and "sm_receipts s' = sm_receipts s"
    and "if needs_approval ct r
         then \<exists>f i. approval = Some (f, i) \<and> \<not> approval_spent (ct_approvals ct) i \<and> approval_spent (ct_approvals ct') i
         else ct_approvals ct' = ct_approvals ct"
proof -
  let ?d = "decide (ct_parliament ct) r (ct_policy ct)"
  have base: "same_authority (snd (emit ses eid receipt ty payload (s0, ct0))) ct0"
    "sm_status (fst (emit ses eid receipt ty payload (s0, ct0))) = sm_status s0"
    "sm_receipts (fst (emit ses eid receipt ty payload (s0, ct0))) = sm_receipts s0"
    for receipt ty payload s0 and ct0 :: "'a controller"
    using emit_facts [of ses eid receipt ty payload "(s0, ct0)"] by simp_all
  have "\<not> (\<exists>dg v x. ?d = Deny dg v x)"
    using assms(1) by (auto simp: authorize_step_def halt_with_def split: prod.splits)
  then have allowed: "allows (ct_policy ct) (rq_capability r)"
    by (rule parliament_authority.allow_or_approval_enabled)
  have "(governed approval now ct r \<and> issue_permit r now (ct_monitor ct) = (Inr p, ct_monitor ct')
      \<and> ct_executed ct' = ct_executed ct \<and> same_rules ct' ct
      \<and> sm_status s' = sm_status s \<and> sm_receipts s' = sm_receipts s)
      \<and> (if needs_approval ct r
         then \<exists>f i. approval = Some (f, i) \<and> \<not> approval_spent (ct_approvals ct) i \<and> approval_spent (ct_approvals ct') i
         else ct_approvals ct' = ct_approvals ct)"
  proof (cases ?d)
    case (Allow dg v reason)
    let ?e = "emit ses eid None PolicyApproved (PolicyPayload reason) (s, ct)"
    from assms(1) Allow obtain m where a: "authorize r ?d now (ct_monitor ct) = (Inr p, m)"
      and s': "s' = fst ?e" and ct': "ct' = (snd ?e)\<lparr>ct_monitor := m\<rparr>"
      using base(1) [of None PolicyApproved "PolicyPayload reason" s ct]
      by (auto simp: authorize_step_def Let_def permit_or_fail_Proceed same_authority_def split: if_splits)
    show ?thesis
      using authorize_ok [OF a] allowed assms(2) issue_permit_rules [of r now "ct_monitor ct"]
        base [of None PolicyApproved "PolicyPayload reason" s ct]
      by (simp add: governed_def needs_approval_def s' ct' same_authority_def same_rules_def)
  next
    case (Deny dg v reason)
    with assms(1) show ?thesis by (simp add: authorize_step_def halt_with_def Let_def split: prod.splits)
  next
    case (RequireApproval dg v reason)
    from assms(1) RequireApproval obtain f i g t where ap: "approval = Some (f, i)"
      and c: "consume_grant f i (rq_principal_id r) (rq_session_id r) (rq_execution_id r) (rq_gene_id r)
          (rq_request_digest r) now (ct_approvals ct) = (Inr g, t)"
      by (auto simp: authorize_step_def Let_def halt_with_def split: option.splits sum.splits prod.splits)
    let ?e = "emit ses eid None PolicyApproved (PolicyPayload (''explicit approval consumed: '' @ reason))
      (s, ct\<lparr>ct_approvals := t\<rparr>)"
    note e = base [of None PolicyApproved "PolicyPayload (''explicit approval consumed: '' @ reason)" s
        "ct\<lparr>ct_approvals := t\<rparr>"]
    from assms(1) RequireApproval ap c obtain m
      where a: "authorize_after_approval_with_grant r ?d g now (ct_monitor ct) = (Inr p, m)"
      and s': "s' = fst ?e" and ct': "ct' = (snd ?e)\<lparr>ct_monitor := m\<rparr>"
      using e(1) by (auto simp: authorize_step_def Let_def permit_or_fail_Proceed same_authority_def)
    note g = consume_grant_approved_for [OF c authorize_with_grant_ok(4) [OF a]]
    show ?thesis
      using authorize_with_grant_ok [OF a] allowed assms(2) issue_permit_rules [of r now "ct_monitor ct"] e g ap
      by (simp add: governed_def needs_approval_def s' ct' same_authority_def same_rules_def)
  qed
  then show "governed approval now ct r" "issue_permit r now (ct_monitor ct) = (Inr p, ct_monitor ct')"
    "ct_executed ct' = ct_executed ct" "same_rules ct' ct" "sm_status s' = sm_status s" "sm_receipts s' = sm_receipts s"
    "if needs_approval ct r
     then \<exists>f i. approval = Some (f, i) \<and> \<not> approval_spent (ct_approvals ct) i \<and> approval_spent (ct_approvals ct') i
     else ct_approvals ct' = ct_approvals ct"
    by blast+
qed

section \<open>A run drives the monitor and the approval store through their own operations\<close>

text \<open>The operations a run may use: of the monitor those that authorize and consume, so that no policy is set on the way,
  and of the approval store only the redemption of a grant, so that a run neither requests nor decides an approval.\<close>

fun gate_op :: "monitor_op \<Rightarrow> bool" where
  "gate_op (AuthorizeOp _ _ _) = True"
| "gate_op (AuthorizeWithGrantOp _ _ _ _) = True"
| "gate_op (ConsumePermitOp _ _ _) = True"
| "gate_op _ = False"

fun redeem_op :: "approval_op \<Rightarrow> bool" where
  "redeem_op (ConsumeGrantOp _ _ _ _ _ _ _ _) = True"
| "redeem_op _ = False"

definition evolves :: "'w controller \<Rightarrow> 'w controller \<Rightarrow> bool" where
  "evolves a b \<longleftrightarrow>
     same_rules b a
   \<and> (\<exists>xs. list_all gate_op xs \<and> ct_monitor b = run_ops exec_monitor_op xs (ct_monitor a))
   \<and> (\<exists>ys. list_all redeem_op ys \<and> ct_approvals b = run_ops exec_approval_op ys (ct_approvals a))"

lemma evolves_authority: "same_authority b a \<Longrightarrow> evolves a b"
  unfolding evolves_def
  by (auto intro: same_authority_rules exI [of _ "[]"] simp: same_authority_def)

lemma evolves_trans: "evolves a b \<Longrightarrow> evolves b c \<Longrightarrow> evolves a c"
  unfolding evolves_def by (metis run_ops_append same_rules_trans list_all_append)

lemma evolves_monitor:
  assumes "m = exec_monitor_op x (ct_monitor a)" and "gate_op x"
  shows "evolves a (a\<lparr>ct_monitor := m\<rparr>)"
proof -
  have "rm_parliament m = rm_parliament (ct_monitor a) \<and> rm_policy m = rm_policy (ct_monitor a)
      \<and> rm_policy_version m = rm_policy_version (ct_monitor a)"
  proof (cases x)
    case (AuthorizeOp r d now)
    then show ?thesis using assms(1) snd_authorize [of r d now "ct_monitor a"] issue_permit_rules by auto
  next
    case (AuthorizeWithGrantOp r d g now)
    then show ?thesis
      using assms(1) snd_authorize_with_grant [of r d g now "ct_monitor a"] issue_permit_rules by auto
  qed (use assms in \<open>simp_all add: snd_consume_permit\<close>)
  moreover have "\<exists>xs. list_all gate_op xs \<and> m = run_ops exec_monitor_op xs (ct_monitor a)"
    using assms by (intro exI [of _ "[x]"]) simp
  moreover have "\<exists>ys. list_all redeem_op ys \<and> ct_approvals a = run_ops exec_approval_op ys (ct_approvals a)"
    by (intro exI [of _ "[]"]) simp
  ultimately show ?thesis by (simp add: evolves_def same_rules_def)
qed

lemma evolves_approvals:
  assumes "t = exec_approval_op y (ct_approvals a)" "redeem_op y"
  shows "evolves a (a\<lparr>ct_approvals := t\<rparr>)"
proof -
  have "\<exists>ys. list_all redeem_op ys \<and> t = run_ops exec_approval_op ys (ct_approvals a)"
    using assms by (intro exI [of _ "[y]"]) simp
  moreover have "\<exists>xs. list_all gate_op xs \<and> ct_monitor a = run_ops exec_monitor_op xs (ct_monitor a)" by (intro exI [of _ "[]"]) simp
  ultimately show ?thesis by (simp add: evolves_def same_rules_def)
qed

lemma evolves_executed [simp]: "evolves a (b\<lparr>ct_executed := cs\<rparr>) = evolves a b"
  by (simp add: evolves_def same_rules_def)

lemma emit_evolves: "evolves a (snd sc) \<Longrightarrow> evolves a (snd (emit ses eid receipt ty payload sc))"
  by (rule evolves_trans [OF _ evolves_authority [OF emit_facts(1)]])

lemma record_failure_evolves: "evolves a (snd sc) \<Longrightarrow> evolves a (snd (record_failure ses eid e sc))"
  by (rule evolves_trans [OF _ evolves_authority [OF record_failure_facts(1)]])

lemma evolves_refl [simp]: "evolves a a"
  by (rule evolves_authority) simp

lemma halt_with_evolves: "evolves a (snd sc) \<Longrightarrow> evolves a (snd (snd (halt_with ses eid ty status reason sc)))"
  using emit_evolves [of a sc ses eid None ty "PolicyPayload reason"]
  by (auto simp: halt_with_def split: prod.splits)

lemma permit_or_fail_evolves:
  assumes "evolves a ((snd sc)\<lparr>ct_monitor := snd res\<rparr>)"
  shows "evolves a (snd (snd (permit_or_fail ses eid res sc)))"
  using assms record_failure_evolves [of a "(fst sc, (snd sc)\<lparr>ct_monitor := snd res\<rparr>)"]
  by (auto simp: permit_or_fail_def split: prod.splits sum.splits)

lemma authorize_evolves:
  "evolves a b \<Longrightarrow> evolves a (b\<lparr>ct_monitor := snd (authorize r d now (ct_monitor b))\<rparr>)"
  "evolves a b \<Longrightarrow> evolves a (b\<lparr>ct_monitor := snd (authorize_after_approval_with_grant r d g now (ct_monitor b))\<rparr>)"
  "evolves a b \<Longrightarrow> evolves a (b\<lparr>ct_monitor := snd (consume_permit p r now (ct_monitor b))\<rparr>)"
  by (erule evolves_trans, rule evolves_monitor [where x = "AuthorizeOp r d now"], simp_all)
     (erule evolves_trans, rule evolves_monitor [where x = "AuthorizeWithGrantOp r d g now"], simp_all,
      erule evolves_trans, rule evolves_monitor [where x = "ConsumePermitOp p r now"], simp_all)

lemma consume_grant_evolves:
  "evolves a b \<Longrightarrow> evolves a (b\<lparr>ct_approvals := snd (consume_grant f i pid sid eid gid dig now (ct_approvals b))\<rparr>)"
  by (erule evolves_trans, rule evolves_approvals [where y = "ConsumeGrantOp f i pid sid eid gid dig now"]) simp_all

lemma authorize_step_evolves: "evolves (snd sc) (snd (snd (authorize_step ses eid approval au now r sc)))"
proof (cases "decide (ct_parliament (snd sc)) r (ct_policy (snd sc))")
  case (Allow dg v reason)
  then show ?thesis
    by (auto simp: authorize_step_def Let_def
        intro!: permit_or_fail_evolves record_failure_evolves authorize_evolves emit_evolves)
next
  case (Deny dg v reason)
  then show ?thesis by (simp add: authorize_step_def Let_def halt_with_evolves)
next
  case (RequireApproval dg v reason)
  show ?thesis
  proof (cases approval)
    case None
    with RequireApproval show ?thesis by (simp add: authorize_step_def Let_def halt_with_evolves)
  next
    case (Some fi)
    obtain f i where fi: "fi = (f, i)" by fastforce
    obtain res t where c: "consume_grant f i (rq_principal_id r) (rq_session_id r) (rq_execution_id r)
        (rq_gene_id r) (rq_request_digest r) now (ct_approvals (snd sc)) = (res, t)" by fastforce
    have "evolves (snd sc) ((snd sc)\<lparr>ct_approvals := t\<rparr>)"
      using consume_grant_evolves [OF evolves_refl, of "snd sc" f i "rq_principal_id r" "rq_session_id r"
          "rq_execution_id r" "rq_gene_id r" "rq_request_digest r" now] c by simp
    with c RequireApproval Some fi show ?thesis
      by (cases res) (auto simp: authorize_step_def Let_def
          intro!: permit_or_fail_evolves authorize_evolves emit_evolves)
  qed
qed

lemma same_authority_executed: "same_authority a b \<Longrightarrow> ct_executed a = ct_executed b"
  by (simp add: same_authority_def)

lemmas record_facts =
  same_authority_executed [OF record_failure_facts(1)] record_failure_facts(2) same_authority_executed [OF emit_facts(1)]

lemma halt_with_facts:
  "ct_executed (snd (snd (halt_with ses eid ty status reason sc))) = ct_executed (snd sc)"
  "fst (halt_with ses eid ty status reason sc) = Halt"
  "sm_status (fst (snd (halt_with ses eid ty status reason sc))) = status"
  using emit_facts(1) [of ses eid None ty "PolicyPayload reason" sc]
  by (auto simp: halt_with_def same_authority_def split: prod.splits)

lemma permit_or_fail_facts:
  "ct_executed (snd (snd (permit_or_fail ses eid res sc))) = ct_executed (snd sc)"
  "fst (permit_or_fail ses eid res sc) = Halt \<Longrightarrow> sm_status (fst (snd (permit_or_fail ses eid res sc))) \<noteq> RunCompleted"
  by (auto simp: permit_or_fail_def record_facts split: prod.splits sum.splits)

lemma authorize_step_facts:
  shows "ct_executed (snd (snd (authorize_step ses eid approval au now r sc))) = ct_executed (snd sc)"
    and "fst (authorize_step ses eid approval au now r sc) = Halt
       \<Longrightarrow> sm_status (fst (snd (authorize_step ses eid approval au now r sc))) \<noteq> RunCompleted"
  by (auto simp: authorize_step_def Let_def halt_with_facts permit_or_fail_facts record_facts
      split: parliament_decision.splits option.splits prod.splits sum.splits if_splits)

text \<open>What one executed request leaves behind: the permit is for this request, passed the gate in
  the state before, was unknown then and is spent now, and an approval it needed is spent with it.\<close>

definition executed_step ::
  "approval_execution \<Rightarrow> timestamp \<Rightarrow> 'w controller \<Rightarrow> 'w controller \<Rightarrow> operation_request \<Rightarrow> consumed_permit \<Rightarrow> bool" where
  "executed_step approval now ct ct' r c \<longleftrightarrow>
     cp_request c = r \<and> cp_consumed_at c = now \<and> governed approval now ct r
   \<and> rm_store (ct_monitor ct) (pm_permit_id (cp_permit c)) = None
   \<and> permit_spent (rm_store (ct_monitor ct')) (pm_permit_id (cp_permit c))
   \<and> pm_request_digest (cp_permit c) = rq_request_digest r
   \<and> (if needs_approval ct r
      then \<exists>f i. approval = Some (f, i) \<and> \<not> approval_spent (ct_approvals ct) i \<and> approval_spent (ct_approvals ct') i
      else ct_approvals ct' = ct_approvals ct)"

lemma issue_permit_fresh:
  assumes "issue_permit r now m = (Inr p, m')"
  shows "rm_store m (pm_permit_id p) = None" and "pm_request_digest p = rq_request_digest r"
  using assms by (auto simp: issue_permit_def issue_def Let_def register_def split: option.splits sum.splits if_splits)

lemma consume_permit_Inr:
  assumes "consume_permit p r now m = (Inr c, m')"
  shows "c = \<lparr>cp_permit = p, cp_request = r, cp_consumed_at = now\<rparr>" and "permit_spent (rm_store m') (pm_permit_id p)"
  using assms by (auto simp: consume_permit_def consume_Inr_iff permit_spent_def split: prod.splits)

lemma spend_permit_evolves: "evolves (snd sc) (snd (snd (spend_permit ex ses eid payload now r p sc)))"
proof -
  obtain res m where c: "consume_permit p r now (ct_monitor (snd sc)) = (res, m)" by fastforce
  have ev: "evolves (snd sc) ((snd sc)\<lparr>ct_monitor := m\<rparr>)"
    using authorize_evolves(3) [OF evolves_refl, of "snd sc" p r now] c by simp
  show ?thesis
  proof (cases res)
    case (Inl e)
    with c ev show ?thesis by (simp add: spend_permit_def record_failure_evolves)
  next
    case (Inr k)
    let ?sc = "(fst sc, (snd sc)\<lparr>ct_monitor := m, ct_executed := ct_executed (snd sc) @ [k]\<rparr>)"
    have "same_authority (snd (snd (execute_request ex ses eid k payload now ?sc))) (snd ?sc)"
      using execute_request_step [of ?sc ex ses eid k payload now] by (simp add: effect_step_def)
    with ev have "evolves (snd sc) (snd (snd (execute_request ex ses eid k payload now ?sc)))"
      using evolves_trans [OF _ evolves_authority, of "snd sc" "snd ?sc"] by simp
    with c Inr show ?thesis
      by (auto simp: spend_permit_def record_failure_evolves split: prod.splits sum.splits)
  qed
qed

lemma spend_permit_facts:
  assumes "spend_permit ex ses eid payload now r p (s, ct) = (pr, s', ct')"
  shows "pr = Halt \<and> ct_executed ct' = ct_executed ct \<and> sm_status s' \<noteq> RunCompleted
       \<or> (\<exists>c m. consume_permit p r now (ct_monitor ct) = (Inr c, m) \<and> ct_executed ct' = ct_executed ct @ [c]
            \<and> ct_monitor ct' = m \<and> ct_approvals ct' = ct_approvals ct
            \<and> (pr = Halt \<and> sm_status s' \<noteq> RunCompleted
             \<or> pr = Proceed () \<and> sm_status s' = sm_status s \<and> length (sm_receipts s') = Suc (length (sm_receipts s))))"
proof (cases "consume_permit p r now (ct_monitor ct)")
  case (Pair res m)
  show ?thesis
  proof (cases res)
    case (Inl e)
    let ?f = "record_failure ses eid (PermitFailure e) (s, ct\<lparr>ct_monitor := m\<rparr>)"
    from Inl Pair assms have "pr = Halt" "s' = fst ?f" "ct' = snd ?f" by (simp_all add: spend_permit_def)
    then show ?thesis by (simp add: record_facts)
  next
    case (Inr c)
    let ?sc = "(s, ct\<lparr>ct_monitor := m, ct_executed := ct_executed ct @ [c]\<rparr>)"
    obtain o1 s1 ct1 where e: "execute_request ex ses eid c payload now ?sc = (o1, s1, ct1)" by (metis prod.collapse)
    note st = execute_request_step [of ?sc ex ses eid c payload now, unfolded e effect_step_def]
    show ?thesis
    proof (cases o1)
      case (Inl err)
      with assms Pair Inr e have "pr = Halt" "s' = fst (record_failure ses eid err (s1, ct1))"
        "ct' = snd (record_failure ses eid err (s1, ct1))"
        by (simp_all add: spend_permit_def)
      with Pair Inr st show ?thesis
        using record_failure_facts [of ses eid err "(s1, ct1)"] by (simp add: same_authority_def)
    next
      case (Inr u)
      with assms Pair \<open>res = Inr c\<close> e have "pr = Proceed ()" "s' = s1" "ct' = ct1"
        by (simp_all add: spend_permit_def)
      with Pair \<open>res = Inr c\<close> st Inr show ?thesis by (auto simp: same_authority_def)
    qed
  qed
qed

text \<open>The first event of a step does not change the gate, so a step is authorization followed by
  spending, or it stops before anything is executed.\<close>

lemma step_request_cases:
  assumes "step_request ex ses eid approval au payload now r (s, ct) = (pr, s', ct')"
  obtains
    (stopped) "pr \<noteq> Proceed ()" "ct_executed ct' = ct_executed ct" "pr = Halt \<Longrightarrow> sm_status s' \<noteq> RunCompleted" "evolves ct ct'"
  | (spent) p s1 ct1 s2 ct2 where "same_authority ct1 ct" "sm_status s1 = sm_status s" "sm_receipts s1 = sm_receipts s"
      "evaluate_hooks BeforeAuthorization r (ct_hooks ct1) = Continue"
      "authorize_step ses eid approval au now r (s1, ct1) = (Proceed p, s2, ct2)"
      "spend_permit ex ses eid payload now r p (s2, ct2) = (pr, s', ct')"
proof -
  obtain s1 ct1 where e: "emit ses eid None EffectRequested (effect_payload r) (s, ct) = (s1, ct1)" by fastforce
  have e1: "same_authority ct1 ct" "sm_status s1 = sm_status s" "sm_receipts s1 = sm_receipts s"
    using emit_facts [of ses eid None EffectRequested "effect_payload r" "(s, ct)"] e by simp_all
  note ev1 = evolves_authority [OF e1(1)]
  show thesis
  proof (cases "hook_denial r ct1")
    case (Some reason)
    let ?h = "halt_with ses eid PolicyDenied (RunDenied reason) reason (s1, ct1) :: unit progress \<times> run_summary \<times> 'a controller"
    from Some assms e have "pr = fst ?h" "s' = fst (snd ?h)" "ct' = snd (snd ?h)"
      by (simp_all add: step_request_def Let_def)
    with ev1 e1(1) show thesis
      by (intro stopped) (simp_all add: halt_with_facts halt_with_evolves same_authority_executed)
  next
    case None
    obtain q s2 ct2 where a: "authorize_step ses eid approval au now r (s1, ct1) = (q, s2, ct2)" by (metis prod.collapse)
    have ev2: "evolves ct ct2"
      using evolves_trans [OF ev1, of ct2] authorize_step_evolves [of "(s1, ct1)" ses eid approval au now r] a by simp
    note f = authorize_step_facts [of ses eid approval au now r "(s1, ct1)", unfolded a, simplified]
    show thesis
    proof (cases q)
      case (Proceed p)
      with None assms e a have "spend_permit ex ses eid payload now r p (s2, ct2) = (pr, s', ct')"
        by (simp add: step_request_def Let_def)
      with None Proceed a e1 show thesis by (intro spent [of ct1 s1 p s2 ct2]) (simp_all add: hook_denial_None)
    qed (use None assms e a f ev2 e1(1) stopped in \<open>auto simp: step_request_def Let_def same_authority_executed\<close>)
  qed
qed

lemma step_request_executed:
  assumes "step_request ex ses eid approval au payload now r (s, ct) = (pr, s', ct')"
  shows "evolves ct ct'
     \<and> (pr \<noteq> Proceed () \<and> ct_executed ct' = ct_executed ct
        \<or> (\<exists>c. ct_executed ct' = ct_executed ct @ [c] \<and> executed_step approval now ct ct' r c))
     \<and> (pr = Halt \<longrightarrow> sm_status s' \<noteq> RunCompleted)
     \<and> (pr = Proceed () \<longrightarrow> sm_status s' = sm_status s \<and> length (sm_receipts s') = Suc (length (sm_receipts s)))"
  using assms
proof (cases rule: step_request_cases)
  case stopped
  then show ?thesis by simp
next
  case (spent p s1 ct1 s2 ct2)
  note ok = authorize_step_Proceed [OF spent(5,4)]
  have ev: "evolves ct ct'"
    using evolves_trans [OF evolves_authority [OF spent(1)]] evolves_trans
      authorize_step_evolves [of "(s1, ct1)" ses eid approval au now r] spent(5)
      spend_permit_evolves [of "(s2, ct2)" ex ses eid payload now r p] spent(6)
    by (metis snd_conv)
  have exec: "ct_executed ct2 = ct_executed ct" using ok(3) same_authority_executed [OF spent(1)] by simp
  have step: "executed_step approval now ct ct' r c"
    if "consume_permit p r now (ct_monitor ct2) = (Inr c, m)" "ct_monitor ct' = m" "ct_approvals ct' = ct_approvals ct2" for c m
    using consume_permit_Inr [OF that(1)] issue_permit_fresh [OF ok(2)] ok(1,7) that(2,3) spent(1)
      governed_same [OF same_authority_rules [OF spent(1)], of approval now r]
      needs_approval_same [OF same_authority_rules [OF spent(1)]]
    by (auto simp: executed_step_def same_authority_def)
  show ?thesis
    using spend_permit_facts [OF spent(6)] ev exec step ok(5,6) spent(2,3) by auto
qed

section \<open>A whole run\<close>

lemma evolves_permit_spent:
  assumes "evolves a b" and "permit_spent (rm_store (ct_monitor a)) k"
  shows "permit_spent (rm_store (ct_monitor b)) k"
  using assms monitor.spent_stays unfolding evolves_def monitor_spent_def by metis

lemma evolves_approval_spent:
  "evolves a b \<Longrightarrow> approval_spent (ct_approvals a) i \<Longrightarrow> approval_spent (ct_approvals b) i"
  unfolding evolves_def using approvals.spent_stays by metis

lemma evolves_monitor_inv: "evolves a b \<Longrightarrow> monitor_inv (ct_monitor a) \<Longrightarrow> monitor_inv (ct_monitor b)"
  unfolding evolves_def using monitor_run_inv by metis

definition permit_id_of :: "consumed_permit \<Rightarrow> permit_id" where
  "permit_id_of c = pm_permit_id (cp_permit c)"

text \<open>The permits \<open>cs\<close> were executed, in this order, from the state \<open>ct\<close> on.\<close>

definition mediated :: "approval_execution \<Rightarrow> timestamp \<Rightarrow> 'w controller \<Rightarrow> consumed_permit list \<Rightarrow> bool" where
  "mediated approval now ct cs \<longleftrightarrow>
     (\<forall>c \<in> set cs. governed approval now ct (cp_request c) \<and> cp_consumed_at c = now
        \<and> pm_request_digest (cp_permit c) = rq_request_digest (cp_request c)
        \<and> \<not> permit_spent (rm_store (ct_monitor ct)) (permit_id_of c))
   \<and> distinct (map permit_id_of cs)
   \<and> length (filter (\<lambda>c. needs_approval ct (cp_request c)) cs) \<le> 1
   \<and> (\<forall>f i. approval = Some (f, i) \<and> approval_spent (ct_approvals ct) i \<longrightarrow>
        (\<forall>c \<in> set cs. \<not> needs_approval ct (cp_request c)))"

lemma mediated_Nil [simp]: "mediated approval now ct []"
  by (simp add: mediated_def)

lemma governed_later:
  assumes "governed (later_faults approval) now b r" and "same_rules b a"
    and "needs_approval a r \<Longrightarrow> ct_approvals b = ct_approvals a"
  shows "governed approval now a r"
proof -
  have "needs_approval b r = needs_approval a r" using needs_approval_same [OF assms(2)] by simp
  then show ?thesis
    using assms by (cases approval) (auto simp: governed_def same_rules_def enabled_def later_faults_def)
qed

lemma later_faults_Some: "approval = Some (f, i) \<Longrightarrow> later_faults approval = Some (\<lambda>k. f (k + 7), i)"
  by (simp add: later_faults_def)

lemma mediated_Cons:
  assumes step: "executed_step approval now ct ct1 r c" and ev: "evolves ct ct1"
    and rest: "mediated (later_faults approval) now ct1 cs"
  shows "mediated approval now ct (c # cs)"
proof -
  have rules: "same_rules ct1 ct" using ev by (simp add: evolves_def)
  note na = needs_approval_same [OF rules]
  have c: "cp_request c = r" "cp_consumed_at c = now" "governed approval now ct r"
    "pm_request_digest (cp_permit c) = rq_request_digest r"
    "rm_store (ct_monitor ct) (permit_id_of c) = None" "permit_spent (rm_store (ct_monitor ct1)) (permit_id_of c)"
    using step by (simp_all add: executed_step_def permit_id_of_def)
  have once: "\<not> needs_approval ct (cp_request d)" if "needs_approval ct r" "d \<in> set cs" for d
    using that step rest na by (auto simp: executed_step_def mediated_def later_faults_Some)
  have "governed approval now ct (cp_request d)" if "d \<in> set cs" for d
  proof (rule governed_later [OF _ rules])
    show "governed (later_faults approval) now ct1 (cp_request d)" using rest that by (simp add: mediated_def)
    assume "needs_approval ct (cp_request d)"
    with once that have "\<not> needs_approval ct r" by blast
    with step show "ct_approvals ct1 = ct_approvals ct" by (simp add: executed_step_def)
  qed
  moreover have "\<not> permit_spent (rm_store (ct_monitor ct)) (permit_id_of d)" if "d \<in> set cs" for d
    using rest that evolves_permit_spent [OF ev] by (auto simp: mediated_def)
  moreover have "permit_id_of c \<notin> permit_id_of ` set cs" "\<not> permit_spent (rm_store (ct_monitor ct)) (permit_id_of c)"
    using rest c(5,6) by (auto simp: mediated_def permit_spent_def)
  moreover have "length (filter (\<lambda>c. needs_approval ct (cp_request c)) (c # cs)) \<le> 1"
    using rest once na c(1) by (auto simp: mediated_def filter_empty_conv)
  moreover have "\<forall>d \<in> set (c # cs). \<not> needs_approval ct (cp_request d)"
    if "approval = Some (f, i)" "approval_spent (ct_approvals ct) i" for f i
    using that step rest na c(1) evolves_approval_spent [OF ev that(2)]
    by (auto simp: executed_step_def mediated_def later_faults_Some)
  ultimately show ?thesis using rest c by (auto simp: mediated_def)
qed

lemma run_requests_mediated:
  assumes "run_requests ex ses eid approval au payload now rs (s, ct) = (res, ct')"
  shows "\<exists>cs. ct_executed ct' = ct_executed ct @ cs \<and> map cp_request cs = take (length cs) rs
    \<and> mediated approval now ct cs \<and> evolves ct ct'
    \<and> (\<forall>s'. res = Inr s' \<longrightarrow> sm_status s' = RunCompleted \<longrightarrow>
         length cs = length rs \<and> length (sm_receipts s') = length (sm_receipts s) + length rs)"
  using assms
proof (induction rs arbitrary: approval s ct)
  case Nil
  then show ?case by (intro exI [of _ "[]"]) auto
next
  case (Cons r rs)
  obtain pr s1 ct1 where st: "step_request ex ses eid approval au payload now r (s, ct) = (pr, s1, ct1)"
    by (metis prod.collapse)
  note facts = step_request_executed [OF st]
  show ?case
  proof (cases "pr = Proceed ()")
    case True
    then obtain c where c: "ct_executed ct1 = ct_executed ct @ [c]" "executed_step approval now ct ct1 r c"
      using facts by blast
    from Cons.prems st True have "run_requests ex ses eid (later_faults approval) au payload now rs (s1, ct1) = (res, ct')"
      by simp
    from Cons.IH [OF this] obtain cs where cs: "ct_executed ct' = ct_executed ct1 @ cs"
      "map cp_request cs = take (length cs) rs" "mediated (later_faults approval) now ct1 cs" "evolves ct1 ct'"
      and fin: "\<And>s'. res = Inr s' \<Longrightarrow> sm_status s' = RunCompleted \<Longrightarrow>
         length cs = length rs \<and> length (sm_receipts s') = length (sm_receipts s1) + length rs" by blast
    have "cp_request c = r" using c(2) by (simp add: executed_step_def)
    with c cs facts True fin show ?thesis
      by (intro exI [of _ "c # cs"]) (auto intro: mediated_Cons evolves_trans)
  next
    case False
    with Cons.prems st have res: "ct' = ct1" "\<And>s'. res = Inr s' \<Longrightarrow> pr = Halt \<and> s' = s1"
      by (cases pr; auto)+
    from facts False consider "ct_executed ct1 = ct_executed ct"
      | c where "ct_executed ct1 = ct_executed ct @ [c]" "executed_step approval now ct ct1 r c" by blast
    then show ?thesis
    proof cases
      case 1
      with res facts show ?thesis by (intro exI [of _ "[]"]) auto
    next
      case (2 c)
      with res facts mediated_Cons [OF 2(2)] show ?thesis
        by (intro exI [of _ "[c]"]) (auto simp: executed_step_def)
    qed
  qed
qed

lemma mediated_same:
  assumes "same_authority a b"
  shows "mediated approval now a = mediated approval now b"
proof -
  have rules: "same_rules a b" by (rule same_authority_rules [OF assms])
  have eq: "ct_approvals a = ct_approvals b" "ct_monitor a = ct_monitor b"
    using assms by (simp_all add: same_authority_def)
  show ?thesis
    by (rule ext) (simp add: mediated_def governed_same [OF rules eq(1)] needs_approval_same [OF rules] eq)
qed

definition run_id :: "execution_id option \<Rightarrow> 'w controller \<Rightarrow> execution_id" where
  "run_id override ct =
     (case override of Some e \<Rightarrow> e | None \<Rightarrow> ''execution-'' @ show_nat (unat (ct_next_execution ct)))"

text \<open>After planning, a run is its loop from a fresh summary.\<close>

lemma run_internal_loop:
  assumes "plan (run_id override ct) = Inr p"
  shows "\<exists>s ct1. run_internal ex plan ses now override approval au ct
      = run_requests ex ses (run_id override ct) approval au (pr_payload p) now (pr_requests p) (s, ct1)
    \<and> sm_receipts s = [] \<and> sm_status s = RunCompleted \<and> same_authority ct1 ct"
proof -
  let ?ct = "ct\<lparr>ct_next_execution := ct_next_execution ct + 1\<rparr>"
  obtain e ct1 where e: "new_event SessionStarted (event_context_for ses (run_id override ct) None None None ?ct) EmptyPayload ?ct
      = (e, ct1)" by fastforce
  then have "same_authority ct1 ct" by (auto simp: new_event_def same_authority_def)
  moreover have "run_internal ex plan ses now override approval au ct
      = run_requests ex ses (run_id override ct) approval au (pr_payload p) now (pr_requests p)
          (\<lparr>sm_execution_id = run_id override ct, sm_selected_harness = pr_harness p, sm_selected_gene = pr_gene p,
            sm_status = RunCompleted, sm_output = pr_output p, sm_receipts = [], sm_events = [e]\<rparr>, ct1)"
    unfolding run_internal_def Let_def run_id_def [symmetric] by (simp add: assms e)
  ultimately show ?thesis by (metis run_summary.select_convs(4,6))
qed

lemma run_internal_unplanned:
  "plan (run_id override ct) = Inl e \<Longrightarrow> run_internal ex plan ses now override approval au ct
     = (Inl e, ct\<lparr>ct_next_execution := ct_next_execution ct + 1\<rparr>)"
  unfolding run_internal_def Let_def run_id_def [symmetric] by simp

lemma run_internal_mediated:
  assumes "run_internal ex plan ses now override approval au ct = (res, ct')"
  shows "\<exists>cs. ct_executed ct' = ct_executed ct @ cs \<and> mediated approval now ct cs \<and> evolves ct ct'
    \<and> (\<forall>s'. res = Inr s' \<longrightarrow>
         (\<exists>p. plan (run_id override ct) = Inr p \<and> map cp_request cs = take (length cs) (pr_requests p)
            \<and> (sm_status s' = RunCompleted \<longrightarrow>
                 map cp_request cs = pr_requests p \<and> length (sm_receipts s') = length cs)))"
proof (cases "plan (run_id override ct)")
  case (Inl e)
  have "same_authority ct' ct" "res = Inl e"
    using assms unfolding run_internal_unplanned [of plan, OF Inl] by (auto simp: same_authority_def)
  then show ?thesis by (intro exI [of _ "[]"]) (simp add: same_authority_executed evolves_authority)
next
  case (Inr p)
  from run_internal_loop [of plan, OF Inr] assms obtain s ct1 where
    run: "run_requests ex ses (run_id override ct) approval au (pr_payload p) now (pr_requests p) (s, ct1) = (res, ct')"
    and s: "sm_receipts s = []" and same: "same_authority ct1 ct" by metis
  from run_requests_mediated [OF run] s obtain cs where
    cs: "ct_executed ct' = ct_executed ct1 @ cs" "map cp_request cs = take (length cs) (pr_requests p)"
      "mediated approval now ct1 cs" "evolves ct1 ct'"
    and fin: "\<And>s'. res = Inr s' \<Longrightarrow> sm_status s' = RunCompleted \<Longrightarrow>
      length cs = length (pr_requests p) \<and> length (sm_receipts s') = length (pr_requests p)" by auto
  have "mediated approval now ct cs" using cs(3) mediated_same [OF same] by simp
  with cs fin Inr same show ?thesis
    by (intro exI [of _ cs]) (auto simp: same_authority_executed intro: evolves_trans evolves_authority)
qed


section \<open>The contract of a gate\<close>

text \<open>
  What the client of a gate relies on: the gate drives the monitor only through its operations,
  and it yields a consumed permit only for a request that passes the rules with no approval. The
  permits it yields are then spent once each, by the contract of a one-shot store.
\<close>

locale effect_gate =
  fixes admit :: "'x \<Rightarrow> operation_request \<Rightarrow> timestamp \<Rightarrow> 'w controller \<Rightarrow> consumed_permit option \<times> 'w controller"
  assumes admit_evolves: "evolves ct (snd (admit x r now ct))"
    and admit_step: "fst (admit x r now ct) = Some c \<Longrightarrow> executed_step None now ct (snd (admit x r now ct)) r c"
begin

lemma admitted_without_approval:
  assumes "fst (admit x r now ct) = Some c"
  shows "governed None now ct r" and "\<not> needs_approval ct r" and "cp_request c = r"
    and "ct_approvals (snd (admit x r now ct)) = ct_approvals ct"
  using admit_step [OF assms] by (auto simp: executed_step_def split: if_splits)

end

sublocale effect_gate \<subseteq> gate: one_shot_store
  "\<lambda>(x, r, now) ct. snd (admit x r now ct)"
  "\<lambda>(x, r, now) ct. map_option permit_id_of (fst (admit x r now ct))"
  "\<lambda>ct. permit_spent (rm_store (ct_monitor ct))"
proof
  fix q :: "'x \<times> operation_request \<times> timestamp" and ct :: "'w controller" and k
  obtain x r now where q: "q = (x, r, now)" by (metis prod_cases3)
  assume "(case q of (x, r, now) \<Rightarrow> \<lambda>ct. map_option permit_id_of (fst (admit x r now ct))) ct = Some k"
  with q obtain c where c: "fst (admit x r now ct) = Some c" and k: "k = permit_id_of c" by auto
  from admit_step [OF c] k q
  show "\<not> permit_spent (rm_store (ct_monitor ct)) k"
    "permit_spent (rm_store (ct_monitor ((case q of (x, r, now) \<Rightarrow> \<lambda>ct. snd (admit x r now ct)) ct))) k"
    by (auto simp: executed_step_def permit_id_of_def permit_spent_def)
next
  fix q :: "'x \<times> operation_request \<times> timestamp" and ct :: "'w controller" and k
  assume "permit_spent (rm_store (ct_monitor ct)) k"
  then show "permit_spent (rm_store (ct_monitor ((case q of (x, r, now) \<Rightarrow> \<lambda>ct. snd (admit x r now ct)) ct))) k"
    by (cases q) (simp add: evolves_permit_spent [OF admit_evolves])
qed

definition mcp_admit ::
  "session \<times> runtime_event list \<Rightarrow> operation_request \<Rightarrow> timestamp \<Rightarrow> 'w controller \<Rightarrow> consumed_permit option \<times> 'w controller" where
  "mcp_admit x r now ct = (case authorize_mcp_request r (fst x) now (snd x, ct) of (res, evs, ct') \<Rightarrow> (ok res, ct'))"

definition provider_admit ::
  "unit \<Rightarrow> operation_request \<Rightarrow> timestamp \<Rightarrow> 'w controller \<Rightarrow> consumed_permit option \<times> 'w controller" where
  "provider_admit x r now ct = (case authorize_provider_request r now ct of (res, ct') \<Rightarrow> (ok res, ct'))"

lemma mcp_event_authority: "same_authority (snd (mcp_event ses r ty payload ec)) (snd ec)"
  by (simp add: mcp_event_def new_event_def same_authority_def)

text \<open>Both gates authorize and consume in the same way.\<close>

lemma authorize_consume_step:
  assumes "same_authority ct1 ct" and "evaluate_hooks BeforeAuthorization r (ct_hooks ct) = Continue"
    and "decide (ct_parliament ct) r (ct_policy ct) = Allow dg v x"
    and "authorize r (Allow dg v x) now (ct_monitor ct) = (Inr p, m)" and "consume_permit p r now m = (Inr c, m')"
  shows "executed_step None now ct (ct1\<lparr>ct_monitor := m'\<rparr>) r c"
proof -
  have d: "authorize r (decide (ct_parliament ct) r (ct_policy ct)) now (ct_monitor ct) = (Inr p, m)"
    using assms(3,4) by simp
  have "allows (ct_policy ct) (rq_capability r)"
    using parliament_authority.allow_or_approval_enabled [of "ct_parliament ct" r "ct_policy ct"] assms(3) by simp
  with authorize_ok [OF d] assms(2) have "governed None now ct r" "\<not> needs_approval ct r"
    by (simp_all add: governed_def needs_approval_def)
  moreover have "ct_approvals ct1 = ct_approvals ct" using assms(1) by (simp add: same_authority_def)
  ultimately show ?thesis
    using consume_permit_Inr [OF assms(5)] issue_permit_fresh [OF authorize_ok(4) [OF d]]
    by (simp add: executed_step_def)
qed

lemma authorize_consume_evolves:
  assumes "same_authority ct1 ct"
  shows "evolves ct (ct1\<lparr>ct_monitor := snd (authorize r d now (ct_monitor ct))\<rparr>)"
    and "evolves ct (ct1\<lparr>ct_monitor := snd (consume_permit p r now (snd (authorize r d now (ct_monitor ct))))\<rparr>)"
proof -
  have "ct_monitor ct1 = ct_monitor ct" using assms by (simp add: same_authority_def)
  then show a: "evolves ct (ct1\<lparr>ct_monitor := snd (authorize r d now (ct_monitor ct))\<rparr>)"
    using authorize_evolves(1) [OF evolves_authority [OF assms], of r d now] by simp
  from authorize_evolves(3) [OF this, of p r now]
  show "evolves ct (ct1\<lparr>ct_monitor := snd (consume_permit p r now (snd (authorize r d now (ct_monitor ct))))\<rparr>)"
    by simp
qed

lemma provider_admit_gate:
  "evolves ct (snd (provider_admit x r now ct))"
  "fst (provider_admit x r now ct) = Some c \<Longrightarrow> executed_step None now ct (snd (provider_admit x r now ct)) r c"
proof -
  let ?d = "decide (ct_parliament ct) r (ct_policy ct)"
  have ev: "authorize r ?d now (ct_monitor ct) = (res, m) \<Longrightarrow> evolves ct (ct\<lparr>ct_monitor := m\<rparr>)"
    "authorize r ?d now (ct_monitor ct) = (res, m) \<Longrightarrow> consume_permit p r now m = (res', m') \<Longrightarrow> evolves ct (ct\<lparr>ct_monitor := m'\<rparr>)"
    for res m p res' m'
    using authorize_consume_evolves(1) [OF same_authority_refl, of ct r ?d now]
      authorize_consume_evolves(2) [OF same_authority_refl [of ct], where d = ?d and r = r and now = now and p = p] by auto
  show "evolves ct (snd (provider_admit x r now ct))"
    using ev
    by (auto simp: provider_admit_def authorize_provider_request_def Let_def
        split: option.splits parliament_decision.splits prod.splits sum.splits)
  assume "fst (provider_admit x r now ct) = Some c"
  then show "executed_step None now ct (snd (provider_admit x r now ct)) r c"
    by (cases "hook_denial r ct")
      (auto simp: provider_admit_def authorize_provider_request_def Let_def
        split: parliament_decision.splits prod.splits sum.splits
        intro: authorize_consume_step [OF same_authority_refl hook_denial_None [THEN iffD1]])
qed

text \<open>The MCP gate is the provider gate between events that change no authority.\<close>

lemma mcp_event_keeps [simp]:
  "ct_parliament (snd (mcp_event ses r ty payload ec)) = ct_parliament (snd ec)"
  "ct_policy (snd (mcp_event ses r ty payload ec)) = ct_policy (snd ec)"
  "ct_hooks (snd (mcp_event ses r ty payload ec)) = ct_hooks (snd ec)"
  "ct_monitor (snd (mcp_event ses r ty payload ec)) = ct_monitor (snd ec)"
  "ct_approvals (snd (mcp_event ses r ty payload ec)) = ct_approvals (snd ec)"
  "ct_executed (snd (mcp_event ses r ty payload ec)) = ct_executed (snd ec)"
  "hook_denial r' (snd (mcp_event ses r ty payload ec)) = hook_denial r' (snd ec)"
  by (simp_all add: mcp_event_def new_event_def hook_denial_def)

lemma snd_case_pair: "snd (case p of (res, evs, ct) \<Rightarrow> (f res, ct)) = snd (snd p)"
  "fst (case p of (res, evs, ct) \<Rightarrow> (f res, ct)) = f (fst p)"
  by (simp_all split: prod.splits)

lemma mcp_admit_as_provider:
  "fst (mcp_admit x r now ct) = fst (provider_admit () r now ct)"
  "same_authority (snd (mcp_admit x r now ct)) (snd (provider_admit () r now ct))"
  unfolding mcp_admit_def snd_case_pair
  by (cases "hook_denial r ct"; cases "decide (ct_parliament ct) r (ct_policy ct)";
      simp add: authorize_mcp_request_def authorize_provider_request_def provider_admit_def same_authority_def Let_def
        split: prod.splits sum.splits)+

lemma executed_step_same:
  "same_authority a b \<Longrightarrow> executed_step approval now ct a r c = executed_step approval now ct b r c"
  by (simp add: executed_step_def same_authority_def)

lemma mcp_admit_gate:
  "evolves ct (snd (mcp_admit x r now ct))"
  "fst (mcp_admit x r now ct) = Some c \<Longrightarrow> executed_step None now ct (snd (mcp_admit x r now ct)) r c"
proof -
  show "evolves ct (snd (mcp_admit x r now ct))"
    by (rule evolves_trans [OF provider_admit_gate(1) evolves_authority [OF mcp_admit_as_provider(2)]])
  assume "fst (mcp_admit x r now ct) = Some c"
  then show "executed_step None now ct (snd (mcp_admit x r now ct)) r c"
    unfolding executed_step_same [OF mcp_admit_as_provider(2)] mcp_admit_as_provider(1) by (rule provider_admit_gate(2))
qed

interpretation provider_gate: effect_gate provider_admit
  by unfold_locales (fact provider_admit_gate)+

interpretation mcp_gate: effect_gate mcp_admit
  by unfold_locales (fact mcp_admit_gate)+

section \<open>Interleaved runs, gates and policy changes\<close>

datatype 'w controller_op =
  StepOp "'w executors" session execution_id approval_execution bool "string option" timestamp operation_request run_summary
| McpOp session "runtime_event list" operation_request timestamp
| ProviderOp operation_request timestamp
| PolicyOp policy_context

fun exec_controller_op :: "'w controller_op \<Rightarrow> 'w controller \<Rightarrow> 'w controller" where
  "exec_controller_op (StepOp ex ses eid approval au payload now r s) ct =
     snd (snd (step_request ex ses eid approval au payload now r (s, ct)))"
| "exec_controller_op (McpOp ses evs r now) ct = snd (mcp_admit (ses, evs) r now ct)"
| "exec_controller_op (ProviderOp r now) ct = snd (provider_admit () r now ct)"
| "exec_controller_op (PolicyOp policy) ct = update_controller_policy policy ct"

text \<open>The permit an operation hands to an executor.\<close>

fun hands_out :: "'w controller_op \<Rightarrow> 'w controller \<Rightarrow> consumed_permit option" where
  "hands_out (StepOp ex ses eid approval au payload now r s) ct =
     (let ct' = snd (snd (step_request ex ses eid approval au payload now r (s, ct))) in
      if ct_executed ct' = ct_executed ct then None else Some (last (ct_executed ct')))"
| "hands_out (McpOp ses evs r now) ct = fst (mcp_admit (ses, evs) r now ct)"
| "hands_out (ProviderOp r now) ct = fst (provider_admit () r now ct)"
| "hands_out (PolicyOp policy) ct = None"

text \<open>The approval and the clock an operation runs with.\<close>

fun op_approval :: "'w controller_op \<Rightarrow> approval_execution" where
  "op_approval (StepOp ex ses eid approval au payload now r s) = approval"
| "op_approval _ = None"

fun op_clock :: "'w controller_op \<Rightarrow> timestamp" where
  "op_clock (StepOp ex ses eid approval au payload now r s) = now"
| "op_clock (McpOp ses evs r now) = now"
| "op_clock (ProviderOp r now) = now"
| "op_clock (PolicyOp policy) = 0"

lemma hands_out_step:
  assumes "hands_out x ct = Some c"
  shows "executed_step (op_approval x) (op_clock x) ct (exec_controller_op x ct) (cp_request c) c"
proof (cases x)
  case (StepOp ex ses eid approval au payload now r s)
  obtain pr s' ct' where st: "step_request ex ses eid approval au payload now r (s, ct) = (pr, s', ct')"
    by (metis prod.collapse)
  from step_request_executed [OF st] assms StepOp st have "executed_step approval now ct ct' r c"
    by (auto simp: Let_def split: if_splits)
  moreover from this have "cp_request c = r" by (simp add: executed_step_def)
  ultimately show ?thesis using StepOp st by simp
next
  case (McpOp ses evs r now)
  with mcp_gate.admit_step [of "(ses, evs)" r now ct c] mcp_gate.admitted_without_approval(3) [of "(ses, evs)" r now ct c] assms
  show ?thesis by simp
next
  case (ProviderOp r now)
  with provider_gate.admit_step [of "()" r now ct c] provider_gate.admitted_without_approval(3) [of "()" r now ct c] assms
  show ?thesis by simp
qed (use assms in simp)

lemma exec_controller_evolves:
  assumes "\<And>policy. x \<noteq> PolicyOp policy"
  shows "evolves ct (exec_controller_op x ct)"
proof (cases x)
  case (StepOp ex ses eid approval au payload now r s)
  then show ?thesis
    using step_request_executed [of ex ses eid approval au payload now r s ct] by (metis exec_controller_op.simps(1) prod.collapse)
qed (use assms mcp_gate.admit_evolves provider_gate.admit_evolves in auto)

lemma controller_spent_kept:
  assumes "permit_spent (rm_store (ct_monitor ct)) k"
  shows "permit_spent (rm_store (ct_monitor (exec_controller_op x ct))) k"
proof (cases "\<exists>policy. x = PolicyOp policy")
  case True
  with assms show ?thesis by (auto simp: update_controller_policy_def update_policy_def)
next
  case False
  with evolves_permit_spent [OF exec_controller_evolves assms] show ?thesis by blast
qed

interpretation controller_store: one_shot_store exec_controller_op
  "\<lambda>x ct. map_option permit_id_of (hands_out x ct)" "\<lambda>ct. permit_spent (rm_store (ct_monitor ct))"
proof
  fix x :: "'a controller_op" and ct k
  assume "map_option permit_id_of (hands_out x ct) = Some k"
  then obtain c where c: "hands_out x ct = Some c" "k = permit_id_of c" by auto
  from hands_out_step [OF c(1)] c(2)
  show "\<not> permit_spent (rm_store (ct_monitor ct)) k" "permit_spent (rm_store (ct_monitor (exec_controller_op x ct))) k"
    by (auto simp: executed_step_def permit_id_of_def permit_spent_def)
qed (rule controller_spent_kept)


section \<open>The invariant of the controller\<close>

definition controller_inv :: "'w controller \<Rightarrow> bool" where
  "controller_inv ct \<longleftrightarrow>
     monitor_inv (ct_monitor ct) \<and> ct_parliament ct = rm_parliament (ct_monitor ct)
   \<and> ct_policy ct = rm_policy (ct_monitor ct) \<and> rm_permit_ttl_seconds (ct_monitor ct) = 60"

lemma new_controller_inv: "controller_inv (new_controller policy hooks approvals w)"
  by (simp add: controller_inv_def new_controller_def new_with_policy_inv) (simp add: new_with_policy_def)

lemma exec_monitor_ttl: "rm_permit_ttl_seconds (exec_monitor_op x m) = rm_permit_ttl_seconds m"
proof -
  have issue: "rm_permit_ttl_seconds (snd (issue_permit r now m)) = rm_permit_ttl_seconds m" for r now
    by (auto simp: issue_permit_def Let_def split: option.splits sum.splits prod.splits)
  show ?thesis
  proof (cases x)
    case (AuthorizeOp r d now)
    then show ?thesis using issue snd_authorize [of r d now m] by auto
  next
    case (AuthorizeWithGrantOp r d g now)
    then show ?thesis using issue snd_authorize_with_grant [of r d g now m] by auto
  qed (simp_all add: update_policy_def snd_consume_permit)
qed

lemma run_monitor_ttl: "rm_permit_ttl_seconds (run_ops exec_monitor_op xs m) = rm_permit_ttl_seconds m"
  by (induction xs arbitrary: m) (simp_all add: exec_monitor_ttl)

lemma evolves_controller_inv: "evolves a b \<Longrightarrow> controller_inv a \<Longrightarrow> controller_inv b"
  using evolves_monitor_inv [of a b] run_monitor_ttl
  by (fastforce simp: controller_inv_def evolves_def same_rules_def)

lemma exec_controller_inv: "controller_inv ct \<Longrightarrow> controller_inv (exec_controller_op x ct)"
proof (cases "\<exists>policy. x = PolicyOp policy")
  case True
  assume "controller_inv ct"
  with True show ?thesis
    by (auto simp: controller_inv_def update_controller_policy_def update_policy_inv) (simp_all add: update_policy_def)
next
  case False
  assume "controller_inv ct"
  with False evolves_controller_inv [OF exec_controller_evolves] show ?thesis by blast
qed

section \<open>What the rules allow goes through\<close>

lemma issue_then_consume:
  assumes "monitor_inv m" and "issue_permit r now m = (Inr p, m')" and "0 < rm_permit_ttl_seconds m"
  shows "\<exists>m''. consume_permit p r now m' = (Inr \<lparr>cp_permit = p, cp_request = r, cp_consumed_at = now\<rparr>, m'')
    \<and> rm_next_nonce m'' = rm_next_nonce m'"
proof -
  have "redeemable (rm_store m') p r now"
    using issue_permit_ok [OF assms(1,2)] assms(3) by (simp add: redeemable_def word_less_nat_alt)
  then have "consume p r now (rm_store m') = (Inr \<lparr>cp_permit = p, cp_request = r, cp_consumed_at = now\<rparr>,
      (rm_store m')(pm_permit_id p \<mapsto> \<lparr>st_permit = p, st_state = permit_state.Consumed\<rparr>))"
    by (simp add: consume_Inr_iff)
  then show ?thesis by (simp add: consume_permit_def)
qed

text \<open>A request that no hook vetoes and the policy allows outright.\<close>

definition permitted :: "'w controller \<Rightarrow> operation_request \<Rightarrow> bool" where
  "permitted ct r \<longleftrightarrow>
     evaluate_hooks BeforeAuthorization r (ct_hooks ct) = Continue
   \<and> allows (ct_policy ct) (rq_capability r) \<and> \<not> requires_approval (ct_policy ct) (rq_operation r)"

definition capacity :: "nat \<Rightarrow> timestamp \<Rightarrow> 'w controller \<Rightarrow> bool" where
  "capacity n now ct \<longleftrightarrow> unat (rm_next_nonce (ct_monitor ct)) + n < 2 ^ 64 \<and> unat now + 60 < 2 ^ 64"

lemma decide_Allow_iff:
  assumes "controller_inv ct"
  shows "(\<exists>dg v x. decide (ct_parliament ct) r (ct_policy ct) = Allow dg v x) \<longleftrightarrow>
    allows (ct_policy ct) (rq_capability r) \<and> \<not> requires_approval (ct_policy ct) (rq_operation r)"
  using assms parliament_authority.allow_iff [of "ct_parliament ct" r "ct_policy ct"]
  by (simp add: controller_inv_def monitor_inv_def)

lemma authorize_allowed:
  assumes "controller_inv ct" and "decide (ct_parliament ct) r (ct_policy ct) = Allow dg v x"
  shows "authorize r (Allow dg v x) now (ct_monitor ct) = issue_permit r now (ct_monitor ct)"
  using assms validate_decision_ok [of "ct_monitor ct" r "Allow dg v x"]
  by (simp add: authorize_def controller_inv_def monitor_inv_def)

lemma issue_capacity:
  assumes "controller_inv ct"
  shows "is_ok (fst (issue_permit r now (ct_monitor ct))) \<longleftrightarrow> capacity 1 now ct"
  using assms issue_permit_is_ok [of "ct_monitor ct" r now] by (simp add: capacity_def controller_inv_def)

lemma issue_permit_nonce:
  assumes "monitor_inv m" and "issue_permit r now m = (Inr p, m')"
  shows "unat (rm_next_nonce m') = unat (rm_next_nonce m) + 1"
  using assms(2) by (auto simp: issue_permit_cases [OF assms(1)] Let_def word_bounds split: option.splits)

lemma authorize_then_consume:
  assumes "controller_inv ct" and "decide (ct_parliament ct) r (ct_policy ct) = Allow dg v x" and "capacity 1 now ct"
  shows "\<exists>p m m'. authorize r (Allow dg v x) now (ct_monitor ct) = (Inr p, m)
    \<and> consume_permit p r now m = (Inr \<lparr>cp_permit = p, cp_request = r, cp_consumed_at = now\<rparr>, m')
    \<and> unat (rm_next_nonce m') = unat (rm_next_nonce (ct_monitor ct)) + 1"
proof -
  obtain p m where i: "issue_permit r now (ct_monitor ct) = (Inr p, m)"
    using issue_capacity [OF assms(1), of r now] assms(3) by (auto elim: is_ok_fst_cases)
  have inv: "monitor_inv (ct_monitor ct)" "0 < rm_permit_ttl_seconds (ct_monitor ct)"
    using assms(1) by (simp_all add: controller_inv_def)
  from issue_then_consume [OF inv(1) i inv(2)] issue_permit_nonce [OF inv(1) i] authorize_allowed [OF assms(1,2)] i
  show ?thesis by auto
qed

lemma provider_admit_iff:
  assumes "controller_inv ct"
  shows "fst (provider_admit x r now ct) \<noteq> None \<longleftrightarrow> permitted ct r \<and> capacity 1 now ct"
proof (cases "evaluate_hooks BeforeAuthorization r (ct_hooks ct) = Continue
    \<and> (\<exists>dg v x. decide (ct_parliament ct) r (ct_policy ct) = Allow dg v x)")
  case True
  then obtain dg v y where d: "decide (ct_parliament ct) r (ct_policy ct) = Allow dg v y" and h: "hook_denial r ct = None"
    by (auto simp: hook_denial_None)
  have perm: "permitted ct r" using True decide_Allow_iff [OF assms] by (auto simp: permitted_def)
  show ?thesis
  proof (cases "capacity 1 now ct")
    case True
    with authorize_then_consume [OF assms d True] h d perm show ?thesis
      by (auto simp: provider_admit_def authorize_provider_request_def)
  next
    case False
    then have "\<not> is_ok (fst (issue_permit r now (ct_monitor ct)))" using issue_capacity [OF assms] by simp
    then obtain e m where "authorize r (Allow dg v y) now (ct_monitor ct) = (Inl e, m)"
      unfolding authorize_allowed [OF assms d]
      by (cases "issue_permit r now (ct_monitor ct)"; cases "fst (issue_permit r now (ct_monitor ct))") auto
    with False h d show ?thesis by (simp add: provider_admit_def authorize_provider_request_def)
  qed
next
  case False
  then have "\<not> permitted ct r" using decide_Allow_iff [OF assms] by (auto simp: permitted_def)
  with False show ?thesis
    by (cases "hook_denial r ct"; cases "decide (ct_parliament ct) r (ct_policy ct)")
       (auto simp: provider_admit_def authorize_provider_request_def hook_denial_None [symmetric])
qed

lemma step_request_goes_through:
  assumes "controller_inv ct" and "permitted ct r" and "capacity (Suc n) now ct"
    and "\<And>c sc. cp_request c = r \<Longrightarrow> is_ok (fst (execute_request ex ses eid c payload now sc))"
  shows "\<exists>s' ct'. step_request ex ses eid None au payload now r (s, ct) = (Proceed (), s', ct') \<and> capacity n now ct'"
proof -
  obtain s1 ct1 where e: "emit ses eid None EffectRequested (effect_payload r) (s, ct) = (s1, ct1)" by fastforce
  have a1: "same_authority ct1 ct"
    using emit_facts(1) [of ses eid None EffectRequested "effect_payload r" "(s, ct)"] e by simp
  obtain dg v x where d: "decide (ct_parliament ct) r (ct_policy ct) = Allow dg v x"
    using decide_Allow_iff [OF assms(1)] assms(2) unfolding permitted_def by blast
  obtain s2 ct2 where e2: "emit ses eid None PolicyApproved (PolicyPayload x) (s1, ct1) = (s2, ct2)" by fastforce
  have a2: "same_authority ct2 ct1"
    using emit_facts(1) [of ses eid None PolicyApproved "PolicyPayload x" "(s1, ct1)"] e2 by simp
  have mon: "ct_monitor ct2 = ct_monitor ct" using a1 a2 by (simp add: same_authority_def)
  have "capacity 1 now ct" using assms(3) by (simp add: capacity_def)
  then obtain p m m' where au: "authorize r (Allow dg v x) now (ct_monitor ct) = (Inr p, m)"
    and co: "consume_permit p r now m = (Inr \<lparr>cp_permit = p, cp_request = r, cp_consumed_at = now\<rparr>, m')"
    and nonce: "unat (rm_next_nonce m') = unat (rm_next_nonce (ct_monitor ct)) + 1"
    using authorize_then_consume [OF assms(1) d] by blast
  let ?c = "\<lparr>cp_permit = p, cp_request = r, cp_consumed_at = now\<rparr>"
  let ?sc = "(s2, ct2\<lparr>ct_monitor := m', ct_executed := ct_executed ct2 @ [?c]\<rparr>)"
  obtain s' ct' where ex: "execute_request ex ses eid ?c payload now ?sc = (Inr (), s', ct')"
    using assms(4) [of ?c ?sc] by (auto elim: is_ok_fst_cases)
  have "ct_monitor ct' = m'"
    using execute_request_step [of ?sc ex ses eid ?c payload now] ex by (simp add: effect_step_def same_authority_def)
  moreover have "hook_denial r ct1 = None"
    using assms(2) a1 by (simp add: hook_denial_None permitted_def same_authority_def)
  moreover have "authorize_step ses eid None au now r (s1, ct1) = (Proceed p, s2, ct2\<lparr>ct_monitor := m\<rparr>)"
    using d a1 e2 mon au by (simp add: authorize_step_def permit_or_fail_def same_authority_def)
  ultimately show ?thesis
    using assms(3) nonce e co ex by (auto simp: step_request_def spend_permit_def capacity_def)
qed

lemma permitted_same_rules: "same_rules a b \<Longrightarrow> permitted a r = permitted b r"
  by (simp add: permitted_def same_rules_def)

lemma run_requests_goes_through:
  assumes "controller_inv ct" and "\<forall>r \<in> set rs. permitted ct r" and "capacity (length rs) now ct"
    and "\<And>c sc. cp_request c \<in> set rs \<Longrightarrow> is_ok (fst (execute_request ex ses eid c payload now sc))"
  shows "\<exists>s' ct'. run_requests ex ses eid None au payload now rs (s, ct) = (Inr s', ct') \<and> sm_status s' = sm_status s"
  using assms
proof (induction rs arbitrary: s ct)
  case Nil
  then show ?case by simp
next
  case (Cons r rs)
  obtain s1 ct1 where st: "step_request ex ses eid None au payload now r (s, ct) = (Proceed (), s1, ct1)"
    and cap: "capacity (length rs) now ct1"
    using step_request_goes_through [of ct r "length rs" now ex ses eid payload au s] Cons.prems by auto
  note facts = step_request_executed [OF st]
  have inv: "controller_inv ct1" using evolves_controller_inv Cons.prems(1) facts by blast
  have "\<forall>r \<in> set rs. permitted ct1 r"
    using Cons.prems(2) facts permitted_same_rules [of ct1 ct] by (simp add: evolves_def)
  then obtain s' ct' where "run_requests ex ses eid None au payload now rs (s1, ct1) = (Inr s', ct')" "sm_status s' = sm_status s1"
    using Cons.IH [OF inv _ cap, of s1] Cons.prems(4) by auto
  with st facts show ?case by (simp add: later_faults_def)
qed

lemma run_internal_goes_through:
  assumes "controller_inv ct" and "plan (run_id override ct) = Inr p" and "\<forall>r \<in> set (pr_requests p). permitted ct r"
    and "capacity (length (pr_requests p)) now ct"
    and "\<And>c sc. cp_request c \<in> set (pr_requests p)
           \<Longrightarrow> is_ok (fst (execute_request ex ses (run_id override ct) c (pr_payload p) now sc))"
  shows "\<exists>s' ct'. run_internal ex plan ses now override None au ct = (Inr s', ct') \<and> sm_status s' = RunCompleted"
proof -
  obtain s ct1 where run: "run_internal ex plan ses now override None au ct
      = run_requests ex ses (run_id override ct) None au (pr_payload p) now (pr_requests p) (s, ct1)"
    and s: "sm_status s = RunCompleted" and same: "same_authority ct1 ct"
    using run_internal_loop [of plan override ct p, OF assms(2)] by metis
  have "controller_inv ct1" by (rule evolves_controller_inv [OF evolves_authority [OF same] assms(1)])
  moreover have "\<forall>r \<in> set (pr_requests p). permitted ct1 r"
    using assms(3) permitted_same_rules [OF same_authority_rules [OF same]] by simp
  moreover have "capacity (length (pr_requests p)) now ct1"
    using assms(4) same by (simp add: capacity_def same_authority_def)
  ultimately show ?thesis
    using run_requests_goes_through [of ct1 "pr_requests p" now ex ses "run_id override ct" "pr_payload p" au s] assms(5) run s
    by simp
qed


section \<open>Properties\<close>

text \<open>C1: complete mediation of a run. Whatever the harness planned, whichever executors are used and
  whichever database calls fail, the effects a run executes are exactly those whose permits it
  appended to the history, and each of them passed the whole gate as it stood when the run began:
  no hook vetoed it, Parliament and the reference monitor agreed on it and enable its capability,
  its permit carries its digest, and if its operation needs approval the run was given an approval
  that the store holds as approved and unexpired for exactly this principal, session, execution,
  gene, digest and policy version. No permit is used twice, and at most one effect rests on the
  approval.\<close>

theorem run_effects_governed:
  "\<exists>cs. ct_executed (snd (run_internal ex plan ses now override approval au ct)) = ct_executed ct @ cs
    \<and> (\<forall>c \<in> set cs. governed approval now ct (cp_request c)
         \<and> pm_request_digest (cp_permit c) = rq_request_digest (cp_request c)
         \<and> \<not> permit_spent (rm_store (ct_monitor ct)) (permit_id_of c))
    \<and> distinct (map permit_id_of cs)
    \<and> length (filter (\<lambda>c. needs_approval ct (cp_request c)) cs) \<le> 1"
proof -
  obtain res ct' where "run_internal ex plan ses now override approval au ct = (res, ct')" by fastforce
  with run_internal_mediated [OF this] show ?thesis unfolding mediated_def by auto
qed

definition demo_receipt :: "consumed_permit \<Rightarrow> effect_receipt" where
  "demo_receipt c = \<lparr>rc_receipt_id = ''receipt-1'', rc_permit_id = permit_id_of c,
     rc_request_digest = rq_request_digest (cp_request c), rc_completed_at = cp_consumed_at c, rc_outcome = Succeeded\<rparr>"

text \<open>A run that reads one file with an executor that always succeeds.\<close>

definition demo_executors :: "unit executors" where
  "demo_executors =
     \<lparr>ex_path = Inr,
      ex_inventory = (\<lambda>c t now w. ((demo_receipt c, Inr []), w)),
      ex_search = (\<lambda>c t q now w. ((demo_receipt c, Inr []), w)),
      ex_read = (\<lambda>c t now w. ((demo_receipt c, Inr ''content''), w)),
      ex_command = Inr,
      ex_process = (\<lambda>c t now w. ((demo_receipt c, Inr []), w)),
      ex_write = (\<lambda>c t b now w. ((demo_receipt c, Inr ()), w)),
      ex_fetch = (\<lambda>c t now w. ((demo_receipt c, Inr []), w)),
      ex_evidence = Some,
      ex_wasm = (\<lambda>c t now w. ((demo_receipt c, Inr []), w))\<rparr>"

definition reading_plan :: "execution_id \<Rightarrow> (runtime_error, planned_run) outcome" where
  "reading_plan eid = Inr \<lparr>pr_harness = ''coding'', pr_gene = ''workspace.read'', pr_requests = [demo_request ''a''],
     pr_payload = None, pr_output = None\<rparr>"

definition demo_session :: session where
  "demo_session = \<lparr>se_id = ''session-1'', se_principal_id = ''principal-1'', se_tenant_id = ''tenant-1'',
     se_workspace_id = ''workspace-1'', se_created_at = 0\<rparr>"

definition demo_controller :: "unit controller" where
  "demo_controller = new_controller read_only_workspace [] [] ()"

lemma demo_controller_inv: "controller_inv demo_controller"
  by (simp add: demo_controller_def new_controller_inv)

lemma demo_permitted: "permitted demo_controller (demo_request ''a'')"
  by (simp add: permitted_def demo_controller_def new_controller_def demo_request_def evaluate_hooks_def Let_def
      policy_query_defs workspace_defs)

lemma demo_capacity: "capacity 1 10 demo_controller"
  by (simp add: capacity_def demo_controller_def new_controller_def new_with_policy_def)

lemma demo_execution:
  assumes "cp_request c \<in> set [demo_request ''a'']"
  shows "is_ok (fst (execute_request demo_executors ses eid c payload now sc))"
proof -
  have r: "cp_request c = demo_request ''a''" using assms by simp
  have "rq_gene_id (demo_request ''a'') \<notin> set inventory_genes" "rq_gene_id (demo_request ''a'') \<notin> set search_genes"
    by (simp_all add: demo_request_def inventory_genes_def search_genes_def evidence_genes_def Let_def)
  moreover have "rq_capability (demo_request ''a'') = FilesystemRead" "rq_target (demo_request ''a'') = Path ''a''"
    by (simp_all add: demo_request_def Let_def)
  ultimately show ?thesis
    by (simp add: execute_request_def execute_read_def read_effect_def r demo_executors_def split: prod.splits)
qed

lemma reading_run:
  "\<exists>s' ct'. run_internal demo_executors reading_plan demo_session 10 None None False demo_controller = (Inr s', ct')
     \<and> sm_status s' = RunCompleted"
  by (rule run_internal_goes_through [OF demo_controller_inv, of reading_plan None
        "\<lparr>pr_harness = ''coding'', pr_gene = ''workspace.read'', pr_requests = [demo_request ''a''], pr_payload = None, pr_output = None\<rparr>"])
     (use demo_permitted demo_capacity demo_execution in \<open>simp_all add: reading_plan_def\<close>)

lemma reading_run_executes:
  "\<exists>c. ct_executed (snd (run_internal demo_executors reading_plan demo_session 10 None None False demo_controller)) = [c]"
proof -
  obtain s' ct' where run: "run_internal demo_executors reading_plan demo_session 10 None None False demo_controller = (Inr s', ct')"
    "sm_status s' = RunCompleted" using reading_run by blast
  from run_internal_mediated [OF run(1)] run(2) obtain cs where "ct_executed ct' = ct_executed demo_controller @ cs"
    "map cp_request cs = [demo_request ''a'']" by (auto simp: reading_plan_def)
  moreover have "ct_executed demo_controller = []" by (simp add: demo_controller_def new_controller_def)
  ultimately show ?thesis using run(1) by auto
qed

theorem run_effects_governed_witness:
  "\<exists>c. ct_executed (snd (run_internal demo_executors reading_plan demo_session 10 None None False demo_controller)) = [c]
     \<and> governed None 10 demo_controller (cp_request c)"
proof -
  obtain c where c: "ct_executed (snd (run_internal demo_executors reading_plan demo_session 10 None None False demo_controller)) = [c]"
    using reading_run_executes by blast
  have "ct_executed demo_controller = []" by (simp add: demo_controller_def new_controller_def)
  with c run_effects_governed [of demo_executors reading_plan demo_session 10 None None False demo_controller]
  have "governed None 10 demo_controller (cp_request c)" by auto
  with c show ?thesis by blast
qed

text \<open>A run reports completion only when it executed every planned request, in the planned order,
  and collected one receipt for each.\<close>

lemma completed_run_executed_plan:
  assumes "run_internal ex plan ses now override approval au ct = (Inr s', ct')" and "sm_status s' = RunCompleted"
  shows "\<exists>p cs. plan (run_id override ct) = Inr p \<and> ct_executed ct' = ct_executed ct @ cs
    \<and> map cp_request cs = pr_requests p \<and> length (sm_receipts s') = length (pr_requests p)"
proof -
  from run_internal_mediated [OF assms(1)] assms(2) obtain cs p where
    "ct_executed ct' = ct_executed ct @ cs" "plan (run_id override ct) = Inr p"
    "map cp_request cs = pr_requests p" "length (sm_receipts s') = length cs" by blast
  then show ?thesis by (metis length_map)
qed

lemma completed_run_executed_plan_witness:
  "\<exists>s' ct' cs. run_internal demo_executors reading_plan demo_session 10 None None False demo_controller = (Inr s', ct')
     \<and> ct_executed ct' = ct_executed demo_controller @ cs \<and> map cp_request cs = [demo_request ''a'']
     \<and> length (sm_receipts s') = 1"
proof -
  obtain s' ct' where run: "run_internal demo_executors reading_plan demo_session 10 None None False demo_controller = (Inr s', ct')"
    "sm_status s' = RunCompleted" using reading_run by blast
  from completed_run_executed_plan [OF run] run(1) show ?thesis by (auto simp: reading_plan_def)
qed

text \<open>C5: what the rules allow goes through. In every reachable state of the controller, a run whose
  planned requests are all unvetoed and allowed outright completes, provided the executors succeed on
  them, the nonce counter has room for one permit each and the clock is at least a permit's lifetime
  below its maximum.\<close>

theorem permitted_run_completes:
  assumes "plan (run_id override (run_ops exec_controller_op xs (new_controller policy hooks approvals w))) = Inr p"
    and "\<forall>r \<in> set (pr_requests p). permitted (run_ops exec_controller_op xs (new_controller policy hooks approvals w)) r"
    and "capacity (length (pr_requests p)) now (run_ops exec_controller_op xs (new_controller policy hooks approvals w))"
    and "\<forall>eid c sc. cp_request c \<in> set (pr_requests p) \<longrightarrow> is_ok (fst (execute_request ex ses eid c (pr_payload p) now sc))"
  shows "\<exists>s' ct'. run_internal ex plan ses now override None au
      (run_ops exec_controller_op xs (new_controller policy hooks approvals w)) = (Inr s', ct')
    \<and> sm_status s' = RunCompleted"
proof (rule run_internal_goes_through [where plan = plan, OF _ assms(1-3)])
  show "controller_inv (run_ops exec_controller_op xs (new_controller policy hooks approvals w))"
    by (rule run_ops_invariant [where I = controller_inv]) (auto intro: exec_controller_inv new_controller_inv)
qed (use assms(4) in blast)

theorem permitted_run_completes_witness:
  "\<exists>s' ct'. run_internal demo_executors reading_plan demo_session 10 None None False demo_controller = (Inr s', ct')
     \<and> sm_status s' = RunCompleted"
proof -
  let ?p = "\<lparr>pr_harness = ''coding'', pr_gene = ''workspace.read'', pr_requests = [demo_request ''a''],
     pr_payload = None, pr_output = None\<rparr>"
  show ?thesis
    using permitted_run_completes [of reading_plan None "[]" read_only_workspace "[]" "[]" "()" ?p 10 demo_executors demo_session False]
      demo_permitted demo_capacity demo_execution
    by (simp add: reading_plan_def demo_controller_def)
qed

text \<open>C7: a run is a refinement of the components below it: whatever it does to the reference monitor
  is a sequence of authorizations and redemptions of permits, and what it does to the approval store a sequence of
  redemptions of grants; so no policy is set on the way, not even to be restored later, no approval is requested or
  decided, and every guarantee about such sequences carries over to runs. Hooks, Parliament and policy are
  left as they are, and the invariant of the controller is kept.\<close>

theorem run_refines_components:
  "(\<exists>xs. list_all gate_op xs
      \<and> ct_monitor (snd (run_internal ex plan ses now override approval au ct)) = run_ops exec_monitor_op xs (ct_monitor ct))
   \<and> (\<exists>ys. list_all redeem_op ys
      \<and> ct_approvals (snd (run_internal ex plan ses now override approval au ct)) = run_ops exec_approval_op ys (ct_approvals ct))
   \<and> rm_policy (ct_monitor (snd (run_internal ex plan ses now override approval au ct))) = rm_policy (ct_monitor ct)
   \<and> ct_hooks (snd (run_internal ex plan ses now override approval au ct)) = ct_hooks ct
   \<and> ct_policy (snd (run_internal ex plan ses now override approval au ct)) = ct_policy ct
   \<and> ct_parliament (snd (run_internal ex plan ses now override approval au ct)) = ct_parliament ct
   \<and> (if controller_inv ct then controller_inv (snd (run_internal ex plan ses now override approval au ct)) else True)"
proof -
  obtain res ct' where run: "run_internal ex plan ses now override approval au ct = (res, ct')" by fastforce
  then have "evolves ct ct'" using run_internal_mediated [OF run] by blast
  then show ?thesis
    using evolves_controller_inv [of ct ct'] unfolding run snd_conv by (simp add: evolves_def same_rules_def)
qed

text \<open>C6: however runs, MCP requests, provider calls and policy changes are interleaved, request by
  request, no permit is handed to an executor twice.\<close>

theorem controller_permits_one_shot:
  "distinct (redemptions exec_controller_op (\<lambda>x ct. map_option permit_id_of (hands_out x ct)) xs ct)"
  by (rule controller_store.redeemed_once)

text \<open>In every reachable state of the controller the MCP gate and the provider gate admit exactly
  the requests that no hook vetoes and the policy allows without approval, while the nonce counter and
  the clock have room; the two gates always agree.\<close>

lemma gates_admit_exactly_permitted:
  "(fst (provider_admit () r now (run_ops exec_controller_op xs (new_controller policy hooks approvals w))) \<noteq> None \<longleftrightarrow>
      permitted (run_ops exec_controller_op xs (new_controller policy hooks approvals w)) r
    \<and> capacity 1 now (run_ops exec_controller_op xs (new_controller policy hooks approvals w)))
   \<and> fst (mcp_admit x r now (run_ops exec_controller_op xs (new_controller policy hooks approvals w)))
       = fst (provider_admit () r now (run_ops exec_controller_op xs (new_controller policy hooks approvals w)))"
proof -
  have "controller_inv (run_ops exec_controller_op xs (new_controller policy hooks approvals w))"
    by (rule run_ops_invariant [where I = controller_inv]) (auto intro: exec_controller_inv new_controller_inv)
  from provider_admit_iff [OF this] mcp_admit_as_provider(1) show ?thesis by blast
qed

text \<open>An approval that is not needed is refused and kept: when a run is started with an approval of
  the session and its first planned request is allowed outright, the run fails with
  \<open>approval_not_required\<close>, executes nothing and leaves the approval store unchanged.\<close>

lemma unneeded_approval_refused:
  assumes "controller_inv ct" and "inspect f 0 i (se_principal_id ses) (ct_approvals ct) = Inr a"
    and "pa_session_id a = se_id ses" and "plan (pa_execution_id a) = Inr p" and "pr_requests p = r # rs"
    and "permitted ct r"
  shows "\<exists>s' ct'. run_with_approval ex plan ses f i now ct = (Inr s', ct')
    \<and> sm_status s' = RunFailed ''approval_not_required''
    \<and> ct_executed ct' = ct_executed ct \<and> ct_approvals ct' = ct_approvals ct"
proof -
  let ?ap = "Some (\<lambda>k. f (k + 2), i)" and ?e = "pa_execution_id a"
  have id: "run_id (Some ?e) ct = ?e" by (simp add: run_id_def)
  obtain s ct1 where run: "run_internal ex plan ses now (Some ?e) ?ap False ct
      = run_requests ex ses ?e ?ap False (pr_payload p) now (r # rs) (s, ct1)" and same: "same_authority ct1 ct"
    using run_internal_loop [of plan "Some ?e" ct p ex ses now ?ap False] assms(4,5) unfolding id by auto
  obtain s2 ct2 where e: "emit ses ?e None EffectRequested (effect_payload r) (s, ct1) = (s2, ct2)" by fastforce
  have "same_authority ct2 ct1"
    using emit_facts(1) [of ses ?e None EffectRequested "effect_payload r" "(s, ct1)"] e by simp
  then have same2: "same_authority ct2 ct" by (rule same_authority_trans [OF _ same])
  obtain dg v x where "decide (ct_parliament ct) r (ct_policy ct) = Allow dg v x"
    using decide_Allow_iff [OF assms(1)] assms(6) unfolding permitted_def by blast
  with same2 have "authorize_step ses ?e ?ap False now r (s2, ct2)
      = (Halt, record_failure ses ?e ApprovalNotRequiredFailure (s2, ct2))"
    by (simp add: authorize_step_def same_authority_def)
  moreover have "hook_denial r ct2 = None"
    using assms(6) same2 by (simp add: hook_denial_None permitted_def same_authority_def)
  ultimately have "run_with_approval ex plan ses f i now ct
      = (case record_failure ses ?e ApprovalNotRequiredFailure (s2, ct2) of (s', ct') \<Rightarrow> (Inr s', ct'))"
    using assms(2,3) run e by (simp add: run_with_approval_def run_approved_def step_request_def split: prod.splits)
  then show ?thesis
    using record_failure_facts [of ses ?e ApprovalNotRequiredFailure "(s2, ct2)"] same2
    by (auto simp: same_authority_def split: prod.splits)
qed

lemma unneeded_approval_refused_witness:
  "\<exists>s' ct'. run_with_approval demo_executors reading_plan demo_session no_faults ''approval-1'' 10
       (new_controller read_only_workspace [] [demo_row ''approved''] ()) = (Inr s', ct')
     \<and> ct_approvals ct' = [demo_row ''approved'']"
proof -
  let ?ct = "new_controller read_only_workspace [] [demo_row ''approved''] ()"
  let ?p = "\<lparr>pr_harness = ''coding'', pr_gene = ''workspace.read'', pr_requests = [demo_request ''a''],
     pr_payload = None, pr_output = None\<rparr>"
  have "is_ok (inspect no_faults 0 ''approval-1'' ''principal-1'' [demo_row ''approved''])" by code_simp
  then obtain a where a: "inspect no_faults 0 ''approval-1'' ''principal-1'' [demo_row ''approved''] = Inr a"
    by (auto simp: is_ok_iff)
  then have "decode_raw (demo_row ''approved'') = Inr a"
    by (auto simp: inspect_def inspect_unscoped_def load_approval_def demo_lookup no_faults_def split: if_splits)
  from decode_raw_ok(2) [OF this] have sid: "pa_session_id a = ''session-1''" by (simp add: demo_row_def)
  have perm: "permitted ?ct (demo_request ''a'')"
    using demo_permitted by (simp add: permitted_def demo_controller_def new_controller_def)
  show ?thesis
    using unneeded_approval_refused [OF new_controller_inv, of no_faults "''approval-1''" demo_session
        read_only_workspace "[]" "[demo_row ''approved'']" "()" a reading_plan ?p "demo_request ''a''" "[]" demo_executors 10]
      a sid perm
    by (auto simp: reading_plan_def demo_session_def new_controller_def)
qed

end
