(* ===== verification/Mcp_Start.thy ===== *)
theory Mcp_Start
  imports Execution_Controller
begin

text \<open>
  Starting a tool server and invoking its tools: \<open>start_mcp\<close>, \<open>start_mcp_http\<close> and \<open>invoke_mcp\<close> of
  \<open>execution_controller.rs\<close>. The two ways to start differ in how the request of an attempt is built
  and which executor runs it, so these are arguments: \<open>build\<close> makes the request of a purpose from
  a fresh execution identifier, the \<open>mcp_executors\<close> spawn a process, and the \<open>http_executors\<close> open a
  connection with a token. Both functions are written out as the code has them, and one is shown to be the
  other with the token applied. A server is a value of an arbitrary type. Dropping the reservation on a
  failed start releases it.
\<close>

section \<open>Protocol negotiation\<close>

datatype protocol_mode = ModernOnly | LegacyOnly | AutoMode

datatype spawn_purpose = Modern | ModernProbe | Legacy

fun spawn_purpose_str :: "spawn_purpose \<Rightarrow> string" where
  "spawn_purpose_str Modern = ''modern''"
| "spawn_purpose_str ModernProbe = ''modern_probe''"
| "spawn_purpose_str Legacy = ''legacy''"

datatype 'srv start_outcome = Connected 'srv | LegacyIdentified

record ('w, 'srv) mcp_executors =
  mx_modern :: "consumed_permit \<Rightarrow> reservation \<Rightarrow> spawn_purpose \<Rightarrow> bool \<Rightarrow> timestamp \<Rightarrow> 'w
     \<Rightarrow> ((mcp_error, 'srv start_outcome) outcome \<times> effect_receipt) \<times> 'w"
  mx_legacy :: "consumed_permit \<Rightarrow> reservation \<Rightarrow> timestamp \<Rightarrow> 'w
     \<Rightarrow> ((mcp_error, 'srv) outcome \<times> effect_receipt) \<times> 'w"

record 'srv mcp_start =
  ms_server :: 'srv
  ms_selected_era :: mcp_wire_era
  ms_downgraded :: bool
  ms_receipts :: "effect_receipt list"
  ms_events :: "runtime_event list"

record mcp_failure =
  mf_error :: mcp_error
  mf_receipts :: "effect_receipt list"
  mf_events :: "runtime_event list"

text \<open>Receipts and events so far, and the controller.\<close>

type_synonym 'w mcp_log = "effect_receipt list \<times> runtime_event list \<times> 'w controller"

type_synonym request_builder = "spawn_purpose \<Rightarrow> execution_id \<Rightarrow> session \<Rightarrow> (mcp_error, operation_request) outcome"

definition next_mcp_execution_id :: "'w controller \<Rightarrow> execution_id \<times> 'w controller" where
  "next_mcp_execution_id ct =
     (''mcp-execution-'' @ show_nat (unat (ct_next_execution ct)), ct\<lparr>ct_next_execution := ct_next_execution ct + 1\<rparr>)"

definition record_mcp_completion ::
  "operation_request \<Rightarrow> session \<Rightarrow> effect_receipt \<Rightarrow> mcp_error option \<Rightarrow> runtime_event list \<times> 'w controller
     \<Rightarrow> runtime_event list \<times> 'w controller" where
  "record_mcp_completion r ses receipt error ec =
     (case ec of (events, ct) \<Rightarrow>
        let ctx = event_context_for ses (rq_execution_id r) None (Some (rq_gene_id r)) (Some receipt) ct in
        case new_event EffectCompleted ctx (effect_payload r) ct of (done, ct) \<Rightarrow>
          (case error of
             None \<Rightarrow> (events @ [done], ct)
           | Some e \<Rightarrow>
               (case new_event ExecutionFailed ctx (FailurePayload (mcp_error_code e)) ct of (failed, ct) \<Rightarrow>
                  (events @ [done, failed], ct))))"

text \<open>One attempt: request, gate, executor, completion. A failure before the executor leaves no
  receipt.\<close>

definition attempt ::
  "request_builder \<Rightarrow> spawn_purpose \<Rightarrow> (consumed_permit \<Rightarrow> 'w \<Rightarrow> ((mcp_error, 'a) outcome \<times> effect_receipt) \<times> 'w)
     \<Rightarrow> session \<Rightarrow> timestamp \<Rightarrow> 'w mcp_log \<Rightarrow> (mcp_error, 'a \<times> operation_request) outcome \<times> 'w mcp_log" where
  "attempt build purpose run ses now log =
     (case log of (receipts, events, ct) \<Rightarrow>
      case next_mcp_execution_id ct of (eid, ct) \<Rightarrow>
      case build purpose eid ses of
        Inl e \<Rightarrow> (Inl e, receipts, events, ct)
      | Inr r \<Rightarrow>
          (case authorize_mcp_request r ses now (events, ct) of
             (Inl e, events, ct) \<Rightarrow> (Inl e, receipts, events, ct)
           | (Inr c, events, ct) \<Rightarrow>
               (case run c (ct_world ct) of ((result, receipt), w) \<Rightarrow>
                case record_mcp_completion r ses receipt
                       (case result of Inl e \<Rightarrow> Some e | Inr _ \<Rightarrow> None)
                       (events, ct\<lparr>ct_world := w, ct_executed := ct_executed ct @ [c]\<rparr>) of (events, ct) \<Rightarrow>
                  (and_then result (\<lambda>x. Inr (x, r)), receipts @ [receipt], events, ct))))"

definition negotiate ::
  "protocol_mode \<Rightarrow> request_builder \<Rightarrow> ('w, 'srv) mcp_executors \<Rightarrow> reservation \<Rightarrow> session \<Rightarrow> timestamp \<Rightarrow> 'w mcp_log
     \<Rightarrow> (mcp_error, 'srv \<times> mcp_wire_era \<times> bool \<times> operation_request) outcome \<times> 'w mcp_log" where
  "negotiate mode build ex rsv ses now log =
     (let modern = (\<lambda>purpose probe. attempt build purpose (\<lambda>c. mx_modern ex c rsv purpose probe now) ses now);
          legacy = (\<lambda>downgraded log.
            case attempt build Legacy (\<lambda>c. mx_legacy ex c rsv now) ses now log of
              (Inl e, log) \<Rightarrow> (Inl e, log)
            | (Inr (srv, r), log) \<Rightarrow> (Inr (srv, LegacyEra, downgraded, r), log)) in
      case mode of
        ModernOnly \<Rightarrow>
          (case modern Modern False log of
             (Inl e, log) \<Rightarrow> (Inl e, log)
           | (Inr (Connected srv, r), log) \<Rightarrow> (Inr (srv, ModernEra, False, r), log)
           | (Inr (LegacyIdentified, r), log) \<Rightarrow> (Inl McpRequestRejected, log))
      | LegacyOnly \<Rightarrow> legacy False log
      | AutoMode \<Rightarrow>
          (case modern ModernProbe True log of
             (Inl e, log) \<Rightarrow> (Inl e, log)
           | (Inr (Connected srv, r), log) \<Rightarrow> (Inr (srv, ModernEra, False, r), log)
           | (Inr (LegacyIdentified, r), log) \<Rightarrow> legacy True log))"

definition start_mcp ::
  "protocol_mode \<Rightarrow> string \<Rightarrow> (mcp_error, string) outcome \<Rightarrow> request_builder \<Rightarrow> ('w, 'srv) mcp_executors \<Rightarrow> session
     \<Rightarrow> timestamp \<Rightarrow> 'w controller \<Rightarrow> (mcp_failure, 'srv mcp_start) outcome \<times> 'w controller" where
  "start_mcp mode server config_digest build ex ses now ct =
     (case config_digest of
        Inl e \<Rightarrow> (Inl \<lparr>mf_error = e, mf_receipts = [], mf_events = []\<rparr>, ct)
      | Inr digest \<Rightarrow>
          (case reserve server digest (ct_mcp_catalogs ct) of
             (Inl e, cat) \<Rightarrow>
               (Inl \<lparr>mf_error = map_catalog_error e, mf_receipts = [], mf_events = []\<rparr>, ct\<lparr>ct_mcp_catalogs := cat\<rparr>)
           | (Inr rsv, cat) \<Rightarrow>
               (case negotiate mode build ex rsv ses now ([], [], ct\<lparr>ct_mcp_catalogs := cat\<rparr>) of
                  (Inl e, receipts, events, ct) \<Rightarrow>
                    (Inl \<lparr>mf_error = e, mf_receipts = receipts, mf_events = events\<rparr>,
                     ct\<lparr>ct_mcp_catalogs := snd (release (rs_server_id rsv) (rs_generation rsv) (ct_mcp_catalogs ct))\<rparr>)
                | (Inr (srv, era, downgraded, r), receipts, events, ct) \<Rightarrow>
                    let ctx = event_context_for ses (rq_execution_id r) None (Some (rq_gene_id r))
                                (if receipts = [] then None else Some (last receipts)) ct in
                    (case new_event McpEraSelected ctx (McpEraPayload server (wire_era_str era) downgraded) ct of
                       (e, ct) \<Rightarrow>
                         (Inr \<lparr>ms_server = srv, ms_selected_era = era, ms_downgraded = downgraded,
                               ms_receipts = receipts, ms_events = events @ [e]\<rparr>, ct)))))"

text \<open>The HTTP transport: its executors also take the token.\<close>

record ('w, 'srv) http_executors =
  hx_modern :: "consumed_permit \<Rightarrow> string option \<Rightarrow> reservation \<Rightarrow> spawn_purpose \<Rightarrow> bool \<Rightarrow> timestamp \<Rightarrow> 'w
     \<Rightarrow> ((mcp_error, 'srv start_outcome) outcome \<times> effect_receipt) \<times> 'w"
  hx_legacy :: "consumed_permit \<Rightarrow> string option \<Rightarrow> reservation \<Rightarrow> timestamp \<Rightarrow> 'w
     \<Rightarrow> ((mcp_error, 'srv) outcome \<times> effect_receipt) \<times> 'w"

definition negotiate_http ::
  "protocol_mode \<Rightarrow> request_builder \<Rightarrow> ('w, 'srv) http_executors \<Rightarrow> string option \<Rightarrow> reservation \<Rightarrow> session \<Rightarrow> timestamp
     \<Rightarrow> 'w mcp_log \<Rightarrow> (mcp_error, 'srv \<times> mcp_wire_era \<times> bool \<times> operation_request) outcome \<times> 'w mcp_log" where
  "negotiate_http mode build hx token rsv ses now log =
     (case mode of
        ModernOnly \<Rightarrow>
          (case attempt build Modern (\<lambda>c. hx_modern hx c token rsv Modern False now) ses now log of
             (Inl e, log) \<Rightarrow> (Inl e, log)
           | (Inr (Connected srv, r), log) \<Rightarrow> (Inr (srv, ModernEra, False, r), log)
           | (Inr (LegacyIdentified, r), log) \<Rightarrow> (Inl McpRequestRejected, log))
      | LegacyOnly \<Rightarrow>
          (case attempt build Legacy (\<lambda>c. hx_legacy hx c token rsv now) ses now log of
             (Inl e, log) \<Rightarrow> (Inl e, log)
           | (Inr (srv, r), log) \<Rightarrow> (Inr (srv, LegacyEra, False, r), log))
      | AutoMode \<Rightarrow>
          (case attempt build ModernProbe (\<lambda>c. hx_modern hx c token rsv ModernProbe True now) ses now log of
             (Inl e, log) \<Rightarrow> (Inl e, log)
           | (Inr (Connected srv, r), log) \<Rightarrow> (Inr (srv, ModernEra, False, r), log)
           | (Inr (LegacyIdentified, _), log) \<Rightarrow>
               (case attempt build Legacy (\<lambda>c. hx_legacy hx c token rsv now) ses now log of
                  (Inl e, log) \<Rightarrow> (Inl e, log)
                | (Inr (srv, r), log) \<Rightarrow> (Inr (srv, LegacyEra, True, r), log))))"

definition start_mcp_http ::
  "protocol_mode \<Rightarrow> string \<Rightarrow> (mcp_error, string) outcome \<Rightarrow> request_builder \<Rightarrow> ('w, 'srv) http_executors
     \<Rightarrow> string option \<Rightarrow> session \<Rightarrow> timestamp \<Rightarrow> 'w controller \<Rightarrow> (mcp_failure, 'srv mcp_start) outcome \<times> 'w controller" where
  "start_mcp_http mode server config_digest build hx token ses now ct =
     (case config_digest of
        Inl e \<Rightarrow> (Inl \<lparr>mf_error = e, mf_receipts = [], mf_events = []\<rparr>, ct)
      | Inr digest \<Rightarrow>
          (case reserve server digest (ct_mcp_catalogs ct) of
             (Inl e, cat) \<Rightarrow>
               (Inl \<lparr>mf_error = map_catalog_error e, mf_receipts = [], mf_events = []\<rparr>, ct\<lparr>ct_mcp_catalogs := cat\<rparr>)
           | (Inr rsv, cat) \<Rightarrow>
               (case negotiate_http mode build hx token rsv ses now ([], [], ct\<lparr>ct_mcp_catalogs := cat\<rparr>) of
                  (Inl e, receipts, events, ct) \<Rightarrow>
                    (Inl \<lparr>mf_error = e, mf_receipts = receipts, mf_events = events\<rparr>,
                     ct\<lparr>ct_mcp_catalogs := snd (release (rs_server_id rsv) (rs_generation rsv) (ct_mcp_catalogs ct))\<rparr>)
                | (Inr (srv, era, downgraded, r), receipts, events, ct) \<Rightarrow>
                    let ctx = event_context_for ses (rq_execution_id r) None (Some (rq_gene_id r))
                                (if receipts = [] then None else Some (last receipts)) ct in
                    (case new_event McpEraSelected ctx (McpEraPayload server (wire_era_str era) downgraded) ct of
                       (e, ct) \<Rightarrow>
                         (Inr \<lparr>ms_server = srv, ms_selected_era = era, ms_downgraded = downgraded,
                               ms_receipts = receipts, ms_events = events @ [e]\<rparr>, ct)))))"

definition with_token :: "('w, 'srv) http_executors \<Rightarrow> string option \<Rightarrow> ('w, 'srv) mcp_executors" where
  "with_token hx token = \<lparr>mx_modern = (\<lambda>c. hx_modern hx c token), mx_legacy = (\<lambda>c. hx_legacy hx c token)\<rparr>"

lemma start_mcp_http_start:
  "start_mcp_http mode server config_digest build hx token ses now ct
     = start_mcp mode server config_digest build (with_token hx token) ses now ct"
proof -
  have eq: "negotiate_http mode build hx token = negotiate mode build (with_token hx token)"
    by (intro ext) (simp add: negotiate_http_def negotiate_def with_token_def Let_def split: protocol_mode.splits)
  show ?thesis unfolding start_mcp_http_def start_mcp_def eq ..
qed

datatype ('w, 'srv) server_target =
  Stdio (st_mode: protocol_mode) (st_server: string) (st_digest: "(mcp_error, string) outcome") (st_build: request_builder)
    "('w, 'srv) mcp_executors"
| Http (st_mode: protocol_mode) (st_server: string) (st_digest: "(mcp_error, string) outcome") (st_build: request_builder)
    "('w, 'srv) http_executors"

definition start_mcp_target ::
  "('w, 'srv) server_target \<Rightarrow> string option \<Rightarrow> session \<Rightarrow> timestamp \<Rightarrow> 'w controller
     \<Rightarrow> (mcp_failure, 'srv mcp_start) outcome \<times> 'w controller" where
  "start_mcp_target target token ses now ct =
     (case target of
        Stdio mode server config_digest build ex \<Rightarrow> start_mcp mode server config_digest build ex ses now ct
      | Http mode server config_digest build hx \<Rightarrow> start_mcp_http mode server config_digest build hx token ses now ct)"

record 'a mcp_invocation =
  mi_result :: 'a
  mi_receipts :: "effect_receipt list"
  mi_events :: "runtime_event list"

text \<open>Invoking a tool: \<open>resolved\<close> is the lookup of the remote tool and the encoding of its payload,
  \<open>plan\<close> the request of the tool engine.\<close>

definition invoke_mcp ::
  "(mcp_error, unit) outcome \<Rightarrow> (execution_id \<Rightarrow> session \<Rightarrow> (mcp_error, operation_request) outcome)
     \<Rightarrow> (consumed_permit \<Rightarrow> 'w \<Rightarrow> ((mcp_error, 'a) outcome \<times> effect_receipt) \<times> 'w) \<Rightarrow> session \<Rightarrow> timestamp
     \<Rightarrow> 'w controller \<Rightarrow> (mcp_failure, 'a mcp_invocation) outcome \<times> 'w controller" where
  "invoke_mcp resolved plan run ses now ct =
     (case resolved of
        Inl e \<Rightarrow> (Inl \<lparr>mf_error = e, mf_receipts = [], mf_events = []\<rparr>, ct)
      | Inr _ \<Rightarrow>
          (case attempt (\<lambda>_. plan) Modern run ses now ([], [], ct) of
             (Inl e, receipts, events, ct) \<Rightarrow> (Inl \<lparr>mf_error = e, mf_receipts = receipts, mf_events = events\<rparr>, ct)
           | (Inr (x, _), receipts, events, ct) \<Rightarrow>
               (Inr \<lparr>mi_result = x, mi_receipts = receipts, mi_events = events\<rparr>, ct)))"


section \<open>What an attempt does\<close>

lemma executed_step_left:
  assumes "same_authority a b"
  shows "executed_step approval now a ct r c = executed_step approval now b ct r c"
  using assms governed_same [OF same_authority_rules [OF assms], of approval now r]
    needs_approval_same [OF same_authority_rules [OF assms]]
  by (simp add: executed_step_def same_authority_def)

lemma executed_step_cong:
  assumes "ct_monitor a = ct_monitor b" and "ct_approvals a = ct_approvals b"
  shows "executed_step approval now ct a r c = executed_step approval now ct b r c"
  using assms by (simp add: executed_step_def)

lemma record_mcp_completion_facts:
  "same_authority (snd (record_mcp_completion r ses receipt e ec)) (snd ec)"
  "ct_mcp_catalogs (snd (record_mcp_completion r ses receipt e ec)) = ct_mcp_catalogs (snd ec)"
  by (simp_all add: record_mcp_completion_def new_event_def same_authority_def Let_def split: prod.splits option.splits)

lemma authorize_mcp_catalogs:
  "ct_mcp_catalogs (snd (snd (authorize_mcp_request r ses now ec))) = ct_mcp_catalogs (snd ec)"
  by (auto simp: authorize_mcp_request_def mcp_event_def new_event_def Let_def
      split: option.splits parliament_decision.splits prod.splits sum.splits)

lemma authorize_mcp_request_facts:
  assumes "authorize_mcp_request r ses now (events, ct) = (res, events', ct')"
  shows "evolves ct ct'" and "res = Inr c \<Longrightarrow> executed_step None now ct ct' r c"
    and "ct_executed ct' = ct_executed ct"
proof -
  have a: "mcp_admit (ses, events) r now ct = (ok res, ct')" by (simp add: mcp_admit_def assms)
  show "evolves ct ct'" using mcp_gate.admit_evolves [of ct "(ses, events)" r now] a by simp
  show "executed_step None now ct ct' r c" if "res = Inr c"
    using mcp_gate.admit_step [of "(ses, events)" r now ct c] a that by simp
  show "ct_executed ct' = ct_executed ct"
    using assms by (auto simp: authorize_mcp_request_def Let_def mcp_event_def new_event_def
        split: option.splits parliament_decision.splits prod.splits sum.splits)
qed

lemma attempt_world:
  "ct_world (snd (snd (authorize_mcp_request r ses now ec))) = ct_world (snd ec)"
  "ct_world (snd (record_mcp_completion r ses receipt e ec)) = ct_world (snd ec)"
  by (auto simp: authorize_mcp_request_def record_mcp_completion_def mcp_event_def new_event_def Let_def
      split: option.splits parliament_decision.splits prod.splits sum.splits)

definition attempt_result ::
  "request_builder \<Rightarrow> spawn_purpose \<Rightarrow> (consumed_permit \<Rightarrow> 'w \<Rightarrow> ((mcp_error, 'a) outcome \<times> effect_receipt) \<times> 'w) \<Rightarrow> session
     \<Rightarrow> timestamp \<Rightarrow> 'w mcp_log \<Rightarrow> (mcp_error, 'a \<times> operation_request) outcome \<Rightarrow> 'w mcp_log \<Rightarrow> bool" where
  "attempt_result build purpose run ses now log res log' \<longleftrightarrow>
     (case (log, log') of ((receipts, events, ct), (receipts', events', ct')) \<Rightarrow>
        evolves ct ct' \<and> ct_mcp_catalogs ct' = ct_mcp_catalogs ct
      \<and> (\<not> is_ok res \<and> receipts' = receipts \<and> ct_executed ct' = ct_executed ct \<and> ct_world ct' = ct_world ct
         \<or> (\<exists>c result receipt. receipts' = receipts @ [receipt] \<and> ct_executed ct' = ct_executed ct @ [c]
              \<and> run c (ct_world ct) = ((result, receipt), ct_world ct') \<and> res = and_then result (\<lambda>x. Inr (x, cp_request c))
              \<and> executed_step None now ct ct' (cp_request c) c
              \<and> (\<exists>eid. build purpose eid ses = Inr (cp_request c)))))"

lemma attempt_attempts:
  "attempt_result build purpose run ses now log (fst (attempt build purpose run ses now log))
     (snd (attempt build purpose run ses now log))"
proof -
  obtain receipts events ct where log: "log = (receipts, events, ct)" by (metis prod.collapse)
  obtain eid ct1 where id: "next_mcp_execution_id ct = (eid, ct1)" by fastforce
  then have same1: "same_authority ct1 ct" and cat1: "ct_mcp_catalogs ct1 = ct_mcp_catalogs ct"
    and w1: "ct_world ct1 = ct_world ct"
    by (auto simp: next_mcp_execution_id_def same_authority_def)
  show ?thesis
  proof (cases "build purpose eid ses")
    case (Inl e)
    then show ?thesis
      using same1 cat1 w1 by (simp add: attempt_def log id attempt_result_def evolves_authority same_authority_executed)
  next
    case (Inr r)
    obtain res events2 ct2 where au: "authorize_mcp_request r ses now (events, ct1) = (res, events2, ct2)"
      by (metis prod.collapse)
    note f = authorize_mcp_request_facts [OF au]
    have cat2: "ct_mcp_catalogs ct2 = ct_mcp_catalogs ct"
      using authorize_mcp_catalogs [of r ses now "(events, ct1)"] au cat1 by simp
    have ev2: "evolves ct ct2" by (rule evolves_trans [OF evolves_authority [OF same1] f(1)])
    have ex2: "ct_executed ct2 = ct_executed ct" using f(3) same1 by (simp add: same_authority_executed)
    have w2: "ct_world ct2 = ct_world ct" using attempt_world(1) [of r ses now "(events, ct1)"] au w1 by simp
    show ?thesis
    proof (cases res)
      case (Inl e)
      with Inr au ev2 cat2 ex2 w2 show ?thesis by (simp add: attempt_def log id attempt_result_def)
    next
      case res: (Inr c)
      obtain result receipt w where run: "run c (ct_world ct2) = ((result, receipt), w)" by (metis prod.collapse)
      let ?ec = "(events2, ct2\<lparr>ct_world := w, ct_executed := ct_executed ct2 @ [c]\<rparr>)"
      obtain events3 ct3 where rec: "record_mcp_completion r ses receipt (case result of Inl e \<Rightarrow> Some e | Inr _ \<Rightarrow> None) ?ec
          = (events3, ct3)" by fastforce
      have s3: "same_authority ct3 (snd ?ec)" "ct_mcp_catalogs ct3 = ct_mcp_catalogs ct2"
        using record_mcp_completion_facts [of r ses receipt "case result of Inl e \<Rightarrow> Some e | Inr _ \<Rightarrow> None" ?ec] rec by simp_all
      have w3: "ct_world ct3 = w"
        using attempt_world(2) [of r ses receipt "case result of Inl e \<Rightarrow> Some e | Inr _ \<Rightarrow> None" ?ec] rec by simp
      have st: "executed_step None now ct ct2 r c" using f(2) [OF res] executed_step_left [OF same1] by simp
      have "ct_monitor ct3 = ct_monitor ct2" "ct_approvals ct3 = ct_approvals ct2"
        using s3(1) by (simp_all add: same_authority_def)
      with st have "executed_step None now ct ct3 r c" by (simp add: executed_step_cong [of ct3 ct2])
      moreover from this have "cp_request c = r" by (simp add: executed_step_def)
      moreover have "evolves ct ct3"
        using evolves_trans [OF _ evolves_authority [OF s3(1)], of ct] ev2 same_authority_world
        by (simp add: evolves_def same_rules_def)
      ultimately show ?thesis
        using Inr au res run rec s3 ex2 cat2 w2 w3
        by (cases result) (auto simp: attempt_def log id attempt_result_def same_authority_def)
    qed
  qed
qed

lemma attempt_permits:
  assumes "attempt build purpose run ses now (receipts, events, ct) = (res, receipts', events', ct')"
  shows "evolves ct ct'" and "ct_mcp_catalogs ct' = ct_mcp_catalogs ct"
    and "\<not> is_ok res \<and> receipts' = receipts \<and> ct_executed ct' = ct_executed ct \<and> ct_world ct' = ct_world ct
      \<or> (\<exists>c result receipt. receipts' = receipts @ [receipt] \<and> ct_executed ct' = ct_executed ct @ [c]
           \<and> run c (ct_world ct) = ((result, receipt), ct_world ct') \<and> res = and_then result (\<lambda>x. Inr (x, cp_request c))
           \<and> (\<exists>eid. build purpose eid ses = Inr (cp_request c))
           \<and> (\<forall>ds. mediated None now ct' ds \<longrightarrow> mediated None now ct (c # ds)))"
proof -
  have a: "attempt_result build purpose run ses now (receipts, events, ct) res (receipts', events', ct')"
    using attempt_attempts [of build purpose run ses now "(receipts, events, ct)"] assms by simp
  then show ev: "evolves ct ct'" and "ct_mcp_catalogs ct' = ct_mcp_catalogs ct" by (simp_all add: attempt_result_def)
  have "mediated None now ct (c # ds)" if "executed_step None now ct ct' (cp_request c) c" "mediated None now ct' ds" for c ds
    by (rule mediated_Cons [OF that(1) ev]) (simp add: later_faults_def that(2))
  with a show "\<not> is_ok res \<and> receipts' = receipts \<and> ct_executed ct' = ct_executed ct \<and> ct_world ct' = ct_world ct
      \<or> (\<exists>c result receipt. receipts' = receipts @ [receipt] \<and> ct_executed ct' = ct_executed ct @ [c]
           \<and> run c (ct_world ct) = ((result, receipt), ct_world ct') \<and> res = and_then result (\<lambda>x. Inr (x, cp_request c))
           \<and> (\<exists>eid. build purpose eid ses = Inr (cp_request c))
           \<and> (\<forall>ds. mediated None now ct' ds \<longrightarrow> mediated None now ct (c # ds)))"
    unfolding attempt_result_def prod.case by blast
qed

section \<open>The calls of a start\<close>

text \<open>A call of an executor: what for, under which permit, and what it answered. Calls in a row are served by the
  executors of a reservation, each in the world the one before it left.\<close>

record 'srv server_call =
  sc_purpose :: spawn_purpose
  sc_permit :: consumed_permit
  sc_answer :: "(mcp_error, 'srv start_outcome) outcome"
  sc_receipt :: effect_receipt

definition run_purpose ::
  "('w, 'srv) mcp_executors \<Rightarrow> reservation \<Rightarrow> timestamp \<Rightarrow> spawn_purpose \<Rightarrow> consumed_permit \<Rightarrow> 'w
     \<Rightarrow> ((mcp_error, 'srv start_outcome) outcome \<times> effect_receipt) \<times> 'w" where
  "run_purpose ex rsv now purpose c w =
     (if purpose = Legacy
      then (case mx_legacy ex c rsv now w of ((answer, receipt), w') \<Rightarrow> ((and_then answer (\<lambda>srv. Inr (Connected srv)), receipt), w'))
      else mx_modern ex c rsv purpose (purpose = ModernProbe) now w)"

primrec served ::
  "('w, 'srv) mcp_executors \<Rightarrow> reservation \<Rightarrow> timestamp \<Rightarrow> 'w \<Rightarrow> 'srv server_call list \<Rightarrow> 'w \<Rightarrow> bool" where
  "served ex rsv now w [] w' \<longleftrightarrow> w' = w"
| "served ex rsv now w (a # as) w' \<longleftrightarrow>
     (case run_purpose ex rsv now (sc_purpose a) (sc_permit a) w of
        (answer, w1) \<Rightarrow> answer = (sc_answer a, sc_receipt a) \<and> served ex rsv now w1 as w')"

definition requested :: "request_builder \<Rightarrow> session \<Rightarrow> 'srv server_call \<Rightarrow> bool" where
  "requested build ses a \<longleftrightarrow> (\<exists>eid. build (sc_purpose a) eid ses = Inr (cp_request (sc_permit a)))"

definition first_purpose :: "protocol_mode \<Rightarrow> spawn_purpose" where
  "first_purpose mode = (case mode of ModernOnly \<Rightarrow> Modern | LegacyOnly \<Rightarrow> Legacy | AutoMode \<Rightarrow> ModernProbe)"

text \<open>At most one call, of the purpose the mode asks for, or a probe that answered that the server is a legacy one
  and then a legacy call.\<close>

definition call_order :: "protocol_mode \<Rightarrow> 'srv server_call list \<Rightarrow> bool" where
  "call_order mode calls \<longleftrightarrow>
     (case calls of
        [] \<Rightarrow> True
      | [a] \<Rightarrow> sc_purpose a = first_purpose mode
      | [a, b] \<Rightarrow> mode = AutoMode \<and> sc_purpose a = ModernProbe \<and> sc_answer a = Inr LegacyIdentified \<and> sc_purpose b = Legacy
      | _ \<Rightarrow> False)"

definition era_of_call :: "'srv server_call \<Rightarrow> mcp_wire_era" where
  "era_of_call a = (if sc_purpose a = Legacy then LegacyEra else ModernEra)"

lemma attempt_call:
  assumes "attempt build purpose run ses now (receipts, events, ct) = (res, receipts', events', ct')"
    and "\<And>c w. run_purpose ex rsv now purpose c w
      = (case run c w of ((answer, receipt), w') \<Rightarrow> ((and_then answer (\<lambda>x. Inr (f x)), receipt), w'))"
  shows "\<not> is_ok res \<and> receipts' = receipts \<and> ct_executed ct' = ct_executed ct \<and> ct_world ct' = ct_world ct
      \<or> (\<exists>a result. receipts' = receipts @ [sc_receipt a] \<and> ct_executed ct' = ct_executed ct @ [sc_permit a]
           \<and> served ex rsv now (ct_world ct) [a] (ct_world ct') \<and> sc_purpose a = purpose \<and> requested build ses a
           \<and> res = and_then result (\<lambda>x. Inr (x, cp_request (sc_permit a))) \<and> sc_answer a = and_then result (\<lambda>x. Inr (f x))
           \<and> (\<forall>ds. mediated None now ct' ds \<longrightarrow> mediated None now ct (sc_permit a # ds)))"
  using attempt_permits(3) [OF assms(1)]
proof (elim disjE exE conjE)
  fix c result receipt eid
  assume c: "receipts' = receipts @ [receipt]" "ct_executed ct' = ct_executed ct @ [c]" "run c (ct_world ct) = ((result, receipt), ct_world ct')"
    "res = and_then result (\<lambda>x. Inr (x, cp_request c))" "build purpose eid ses = Inr (cp_request c)"
    "\<forall>ds. mediated None now ct' ds \<longrightarrow> mediated None now ct (c # ds)"
  let ?a = "\<lparr>sc_purpose = purpose, sc_permit = c, sc_answer = and_then result (\<lambda>x. Inr (f x)), sc_receipt = receipt\<rparr>"
  from c show ?thesis by (intro disjI2 exI [of _ ?a] exI [of _ result]) (auto simp: assms(2) requested_def)
qed simp

lemma run_purpose_modern:
  "purpose \<noteq> Legacy \<Longrightarrow> run_purpose ex rsv now purpose c w
     = (case mx_modern ex c rsv purpose (purpose = ModernProbe) now w of
          ((answer, receipt), w') \<Rightarrow> ((and_then answer (\<lambda>x. Inr x), receipt), w'))"
  by (simp add: run_purpose_def and_then_def split: prod.splits sum.splits)

lemma run_purpose_legacy:
  "run_purpose ex rsv now Legacy c w
     = (case mx_legacy ex c rsv now w of ((answer, receipt), w') \<Rightarrow> ((and_then answer (\<lambda>x. Inr (Connected x)), receipt), w'))"
  by (simp add: run_purpose_def)

definition negotiated :: "'srv server_call list \<Rightarrow> (mcp_error, 'srv \<times> mcp_wire_era \<times> bool \<times> operation_request) outcome \<Rightarrow> bool" where
  "negotiated calls res \<longleftrightarrow>
     (case res of
        Inl _ \<Rightarrow> \<forall>a \<in> set calls. \<forall>srv. sc_answer a \<noteq> Inr (Connected srv)
      | Inr (srv, era, downgraded, _) \<Rightarrow>
          calls \<noteq> [] \<and> sc_answer (last calls) = Inr (Connected srv) \<and> era = era_of_call (last calls)
        \<and> downgraded = (length calls = 2))"

lemma negotiate_single:
  assumes "negotiate mode build ex rsv ses now log = (res, log')"
  obtains (modern) purpose res1 where "purpose = first_purpose mode" "purpose \<noteq> Legacy"
      "attempt build purpose (\<lambda>c. mx_modern ex c rsv purpose (purpose = ModernProbe) now) ses now log = (res1, log')"
      "res = (case res1 of Inl e \<Rightarrow> Inl e | Inr (Connected srv, r) \<Rightarrow> Inr (srv, ModernEra, False, r)
         | Inr (LegacyIdentified, r) \<Rightarrow> Inl McpRequestRejected)"
  | (legacy) res1 where "mode = LegacyOnly"
      "attempt build Legacy (\<lambda>c. mx_legacy ex c rsv now) ses now log = (res1, log')"
      "res = (case res1 of Inl e \<Rightarrow> Inl e | Inr (srv, r) \<Rightarrow> Inr (srv, LegacyEra, False, r))"
  | (downgrade) q log1 res2 where "mode = AutoMode"
      "attempt build ModernProbe (\<lambda>c. mx_modern ex c rsv ModernProbe (ModernProbe = ModernProbe) now) ses now log
         = (Inr (LegacyIdentified, q), log1)"
      "attempt build Legacy (\<lambda>c. mx_legacy ex c rsv now) ses now log1 = (res2, log')"
      "res = (case res2 of Inl e \<Rightarrow> Inl e | Inr (srv, r) \<Rightarrow> Inr (srv, LegacyEra, True, r))"
proof (cases mode)
  case ModernOnly
  obtain res1 log1 where a: "attempt build Modern (\<lambda>c. mx_modern ex c rsv Modern False now) ses now log = (res1, log1)" by (metis surj_pair)
  with assms ModernOnly show thesis
    by (intro modern [of Modern res1]) (auto simp: negotiate_def first_purpose_def split: sum.splits start_outcome.splits)
next
  case LegacyOnly
  obtain res1 log1 where a: "attempt build Legacy (\<lambda>c. mx_legacy ex c rsv now) ses now log = (res1, log1)" by (metis surj_pair)
  with assms LegacyOnly show thesis
    by (intro legacy [of res1]) (auto simp: negotiate_def split: sum.splits)
next
  case AutoMode
  obtain res1 log1 where a: "attempt build ModernProbe (\<lambda>c. mx_modern ex c rsv ModernProbe True now) ses now log = (res1, log1)" by (metis surj_pair)
  show thesis
  proof (cases "\<exists>r. res1 = Inr (LegacyIdentified, r)")
    case True
    then obtain q where q: "res1 = Inr (LegacyIdentified, q)" ..
    obtain res2 log2 where b: "attempt build Legacy (\<lambda>c. mx_legacy ex c rsv now) ses now log1 = (res2, log2)" by (metis surj_pair)
    with q assms AutoMode a show thesis
      by (intro downgrade [of q log1 res2]) (auto simp: negotiate_def split: sum.splits)
  next
    case False
    with assms AutoMode a show thesis
      by (intro modern [of ModernProbe res1]) (auto simp: negotiate_def first_purpose_def split: sum.splits start_outcome.splits)
  qed
qed

definition start_calls ::
  "protocol_mode \<Rightarrow> request_builder \<Rightarrow> ('w, 'srv) mcp_executors \<Rightarrow> reservation \<Rightarrow> session \<Rightarrow> timestamp \<Rightarrow> 'w controller
     \<Rightarrow> effect_receipt list \<Rightarrow> 'w controller \<Rightarrow> 'srv server_call list \<Rightarrow> bool" where
  "start_calls mode build ex rsv ses now ct receipts ct' calls \<longleftrightarrow>
     receipts = map sc_receipt calls \<and> ct_executed ct' = ct_executed ct @ map sc_permit calls
   \<and> served ex rsv now (ct_world ct) calls (ct_world ct') \<and> list_all (requested build ses) calls
   \<and> mediated None now ct (map sc_permit calls) \<and> call_order mode calls"

lemma single_calls:
  assumes "attempt build purpose run ses now ([], [], ct) = (res1, receipts, events, ct')"
    and "\<And>c w. run_purpose ex rsv now purpose c w
      = (case run c w of ((answer, receipt), w') \<Rightarrow> ((and_then answer (\<lambda>x. Inr (f x)), receipt), w'))"
    and "purpose = first_purpose mode" and "\<not> is_ok res1 \<Longrightarrow> negotiated [] res"
    and "\<And>a result. sc_purpose a = purpose \<Longrightarrow> res1 = and_then result (\<lambda>x. Inr (x, cp_request (sc_permit a)))
      \<Longrightarrow> sc_answer a = and_then result (\<lambda>x. Inr (f x)) \<Longrightarrow> negotiated [a] res"
  shows "\<exists>calls. start_calls mode build ex rsv ses now ct receipts ct' calls \<and> negotiated calls res"
  using attempt_call [OF assms(1,2)]
proof (elim disjE exE conjE)
  fix a result
  assume a: "receipts = [] @ [sc_receipt a]" "ct_executed ct' = ct_executed ct @ [sc_permit a]"
    "served ex rsv now (ct_world ct) [a] (ct_world ct')" "sc_purpose a = purpose" "requested build ses a"
    "res1 = and_then result (\<lambda>x. Inr (x, cp_request (sc_permit a)))" "sc_answer a = and_then result (\<lambda>x. Inr (f x))"
    "\<forall>ds. mediated None now ct' ds \<longrightarrow> mediated None now ct (sc_permit a # ds)"
  then have "start_calls mode build ex rsv ses now ct receipts ct' [a]"
    using assms(3) by (simp add: start_calls_def mediated_Nil call_order_def)
  with assms(5) [OF a(4,6,7)] show ?thesis by blast
next
  assume n: "\<not> is_ok res1" and "receipts = []" "ct_executed ct' = ct_executed ct" "ct_world ct' = ct_world ct"
  then have "start_calls mode build ex rsv ses now ct receipts ct' []"
    by (simp add: start_calls_def mediated_Nil call_order_def)
  with assms(4) [OF n] show ?thesis by blast
qed

lemma downgrade_calls:
  assumes "attempt build ModernProbe (\<lambda>c. mx_modern ex c rsv ModernProbe (ModernProbe = ModernProbe) now) ses now ([], [], ct)
      = (Inr (LegacyIdentified, q), r1, e1, ct1)"
    and "attempt build Legacy (\<lambda>c. mx_legacy ex c rsv now) ses now (r1, e1, ct1) = (res2, receipts, events, ct')"
    and "res = (case res2 of Inl e \<Rightarrow> Inl e | Inr (srv, r) \<Rightarrow> Inr (srv, LegacyEra, True, r))"
  shows "\<exists>calls. start_calls AutoMode build ex rsv ses now ct receipts ct' calls \<and> negotiated calls res"
proof -
  obtain a result where raw: "r1 = [] @ [sc_receipt a]" "ct_executed ct1 = ct_executed ct @ [sc_permit a]"
      "served ex rsv now (ct_world ct) [a] (ct_world ct1)" "sc_purpose a = ModernProbe" "requested build ses a"
      "Inr (LegacyIdentified, q) = and_then result (\<lambda>x. Inr (x, cp_request (sc_permit a)))" "sc_answer a = and_then result (\<lambda>x. Inr x)"
      "\<forall>ds. mediated None now ct1 ds \<longrightarrow> mediated None now ct (sc_permit a # ds)"
    using attempt_call [OF assms(1) run_purpose_modern] by fastforce
  moreover from raw(6,7) have "sc_answer a = Inr LegacyIdentified" by (cases result) (simp_all add: and_then_def)
  ultimately have a: "r1 = [sc_receipt a]" "ct_executed ct1 = ct_executed ct @ [sc_permit a]"
      "served ex rsv now (ct_world ct) [a] (ct_world ct1)" "sc_purpose a = ModernProbe" "requested build ses a"
      "sc_answer a = Inr LegacyIdentified" "\<And>ds. mediated None now ct1 ds \<Longrightarrow> mediated None now ct (sc_permit a # ds)"
    by simp_all
  from attempt_call [OF assms(2) run_purpose_legacy] show ?thesis
  proof (elim disjE exE conjE)
    fix b result
    assume b: "receipts = r1 @ [sc_receipt b]" "ct_executed ct' = ct_executed ct1 @ [sc_permit b]"
      "served ex rsv now (ct_world ct1) [b] (ct_world ct')" "sc_purpose b = Legacy" "requested build ses b"
      "res2 = and_then result (\<lambda>x. Inr (x, cp_request (sc_permit b)))" "sc_answer b = and_then result (\<lambda>x. Inr (Connected x))"
      "\<forall>ds. mediated None now ct' ds \<longrightarrow> mediated None now ct1 (sc_permit b # ds)"
    have "start_calls AutoMode build ex rsv ses now ct receipts ct' [a, b]"
      using a b by (auto simp: start_calls_def mediated_Nil call_order_def split: prod.splits)
    moreover have "negotiated [a, b] res"
      using a(6) b(4,6,7) assms(3) by (cases result) (simp_all add: negotiated_def era_of_call_def and_then_def)
    ultimately show ?thesis by blast
  next
    assume "\<not> is_ok res2" "receipts = r1" "ct_executed ct' = ct_executed ct1" "ct_world ct' = ct_world ct1"
    then have "start_calls AutoMode build ex rsv ses now ct receipts ct' [a]" "negotiated [a] res"
      using a assms(3) by (auto simp: start_calls_def mediated_Nil call_order_def negotiated_def first_purpose_def split: sum.splits)
    then show ?thesis by blast
  qed
qed

lemma negotiate_calls:
  assumes "negotiate mode build ex rsv ses now ([], [], ct) = (res, receipts, events, ct')"
  shows "\<exists>calls. start_calls mode build ex rsv ses now ct receipts ct' calls \<and> negotiated calls res"
    and "ct_mcp_catalogs ct' = ct_mcp_catalogs ct"
proof -
  have "(\<exists>calls. start_calls mode build ex rsv ses now ct receipts ct' calls \<and> negotiated calls res) \<and> ct_mcp_catalogs ct' = ct_mcp_catalogs ct"
    using assms
  proof (cases rule: negotiate_single)
    case (modern purpose res1)
    have "\<exists>calls. start_calls mode build ex rsv ses now ct receipts ct' calls \<and> negotiated calls res"
      by (rule single_calls [OF modern(3) run_purpose_modern [OF modern(2)] modern(1)])
        (use modern(2,4) in \<open>auto simp: negotiated_def era_of_call_def and_then_def split: sum.splits start_outcome.splits\<close>)
    with attempt_permits(2) [OF modern(3)] show ?thesis by simp
  next
    case (legacy res1)
    have "\<exists>calls. start_calls mode build ex rsv ses now ct receipts ct' calls \<and> negotiated calls res"
      by (rule single_calls [OF legacy(2) run_purpose_legacy])
        (use legacy(1,3) in \<open>auto simp: negotiated_def era_of_call_def and_then_def first_purpose_def split: sum.splits\<close>)
    with attempt_permits(2) [OF legacy(2)] show ?thesis by simp
  next
    case (downgrade q log1 res2)
    obtain r1 e1 ct1 where log1: "log1 = (r1, e1, ct1)" by (metis prod.collapse)
    note at = downgrade(2,3) [unfolded log1]
    show ?thesis using downgrade_calls [OF at downgrade(4)] attempt_permits(2) [OF at(1)] attempt_permits(2) [OF at(2)] downgrade(1) by simp
  qed
  then show "\<exists>calls. start_calls mode build ex rsv ses now ct receipts ct' calls \<and> negotiated calls res"
    and "ct_mcp_catalogs ct' = ct_mcp_catalogs ct" by simp_all
qed

text \<open>A tool invocation has a receipt for its effect and none when it is stopped before.\<close>

lemma invoke_mcp_permits:
  assumes "invoke_mcp resolved plan run ses now ct = (res, ct')"
  shows "\<exists>cs. ct_executed ct' = ct_executed ct @ cs \<and> mediated None now ct cs \<and> length cs \<le> 1
    \<and> (case res of Inl f \<Rightarrow> length (mf_receipts f) | Inr i \<Rightarrow> length (mi_receipts i)) = length cs"
proof (cases resolved)
  case (Inl e)
  with assms show ?thesis by (intro exI [of _ "[]"]) (auto simp: invoke_mcp_def)
next
  case (Inr u)
  obtain out receipts events ct1 where a: "attempt (\<lambda>_. plan) Modern run ses now ([], [], ct) = (out, receipts, events, ct1)"
    by (metis prod.collapse)
  from attempt_permits(3) [OF a] consider (ran) c receipt where "receipts = [receipt]" "ct_executed ct1 = ct_executed ct @ [c]"
      "mediated None now ct1 [] \<longrightarrow> mediated None now ct [c]"
    | (stopped) "receipts = []" "ct_executed ct1 = ct_executed ct" by auto
  then show ?thesis
  proof cases
    case ran
    with assms Inr a show ?thesis by (intro exI [of _ "[c]"]) (cases out; auto simp: invoke_mcp_def mediated_Nil)
  next
    case stopped
    with assms Inr a show ?thesis by (intro exI [of _ "[]"]) (cases out; auto simp: invoke_mcp_def mediated_Nil)
  qed
qed


section \<open>Properties\<close>

lemma start_mcp_calls:
  "\<exists>rsv calls. rs_server_id rsv = server
    \<and> (case start_mcp mode server config_digest build ex ses now ct of (res, ct') \<Rightarrow>
         start_calls mode build ex rsv ses now ct (case res of Inl f \<Rightarrow> mf_receipts f | Inr m \<Rightarrow> ms_receipts m) ct' calls
       \<and> (case res of
            Inl f \<Rightarrow> (\<forall>a \<in> set calls. \<forall>srv. sc_answer a \<noteq> Inr (Connected srv)) \<and> cs_active (ct_mcp_catalogs ct') = cs_active (ct_mcp_catalogs ct)
          | Inr m \<Rightarrow> calls \<noteq> [] \<and> sc_answer (last calls) = Inr (Connected (ms_server m))
              \<and> ms_selected_era m = era_of_call (last calls) \<and> ms_downgraded m = (length calls = 2)
              \<and> \<not> is_active server (ct_mcp_catalogs ct) \<and> is_active server (ct_mcp_catalogs ct')))"
proof -
  let ?rsv = "\<lparr>rs_server_id = server, rs_generation = 0, rs_config_digest = [], rs_revision = None\<rparr>"
  show ?thesis
  proof (cases config_digest)
    case (Inl e)
    then show ?thesis
      by (intro exI [of _ ?rsv] exI [of _ "[]"]) (simp add: start_mcp_def start_calls_def mediated_Nil call_order_def)
  next
    case (Inr digest)
    obtain res cat where rsv: "reserve server digest (ct_mcp_catalogs ct) = (res, cat)" by fastforce
    show ?thesis
    proof (cases res)
      case (Inl e)
      with Inr rsv reserve_Inl [of server digest "ct_mcp_catalogs ct" e cat] show ?thesis
        by (intro exI [of _ ?rsv] exI [of _ "[]"]) (simp add: start_mcp_def start_calls_def mediated_Nil call_order_def)
    next
      case res: (Inr r)
      let ?ct = "ct\<lparr>ct_mcp_catalogs := cat\<rparr>"
      have free: "cs_active (ct_mcp_catalogs ct) server = None" "rs_server_id r = server"
        "cs_active cat = (cs_active (ct_mcp_catalogs ct))(server \<mapsto> rs_generation r)"
        using rsv res by (auto simp: reserve_Inr)
      then have undo: "(cs_active cat)(server := None) = cs_active (ct_mcp_catalogs ct)" by (simp add: fun_upd_idem)
      obtain out receipts events ct' where neg: "negotiate mode build ex r ses now ([], [], ?ct) = (out, receipts, events, ct')"
        by (metis prod.collapse)
      from negotiate_calls(1) [OF neg] obtain calls where
        calls: "start_calls mode build ex r ses now ?ct receipts ct' calls" "negotiated calls out" by blast
      have sc: "start_calls mode build ex r ses now ct receipts ct' calls"
        using calls(1) mediated_same [of ?ct ct] by (simp add: start_calls_def same_authority_def)
      have cat: "ct_mcp_catalogs ct' = cat" using negotiate_calls(2) [OF neg] by simp
      show ?thesis
      proof (cases out)
        case (Inl e)
        with Inr rsv res neg sc cat calls(2) free undo show ?thesis
          by (intro exI [of _ r] exI [of _ calls]) (simp add: start_mcp_def start_calls_def negotiated_def release_def)
      next
        case o: (Inr q)
        obtain srv era dg request where q: "q = (srv, era, dg, request)" by (metis prod.collapse)
        from Inr rsv res neg sc cat calls(2) free o q show ?thesis
          by (intro exI [of _ r] exI [of _ calls])
            (simp add: start_mcp_def start_calls_def negotiated_def Let_def new_event_def is_active_def)
      qed
    qed
  qed
qed

definition target_executors :: "('w, 'srv) server_target \<Rightarrow> string option \<Rightarrow> ('w, 'srv) mcp_executors" where
  "target_executors target token = (case target of Stdio _ _ _ _ ex \<Rightarrow> ex | Http _ _ _ _ hx \<Rightarrow> with_token hx token)"

lemma start_mcp_target_start:
  "start_mcp_target target token ses now ct
     = start_mcp (st_mode target) (st_server target) (st_digest target) (st_build target) (target_executors target token) ses now ct"
  by (cases target) (simp_all add: start_mcp_target_def target_executors_def start_mcp_http_start)

text \<open>C31: starting a tool server, over either transport, is mediated like a run. The world changes by the executor calls
  listed and by nothing else; each call was requested for its purpose, admitted by the gate as it stood at the
  start, without any approval, and made with a permit of its own; the receipts reported, also by a failed start,
  are the ones those calls returned, in order. A call is of the purpose the mode asks for, and there is a second
  one only in automatic mode, after the probe answered that the server is a legacy one. The start succeeds with
  the server the last call connected, its era and whether it was a downgrade, and fails only when no call connected.
  A successful start binds the server's name, which was free, and a failed one leaves the catalog's names as
  they were.\<close>

theorem mcp_start_governed:
  "\<exists>rsv calls. rs_server_id rsv = st_server target
    \<and> (case start_mcp_target target token ses now ct of (res, ct') \<Rightarrow>
         served (target_executors target token) rsv now (ct_world ct) calls (ct_world ct')
       \<and> ct_executed ct' = ct_executed ct @ map sc_permit calls
       \<and> (\<forall>a \<in> set calls. requested (st_build target) ses a \<and> governed None now ct (cp_request (sc_permit a)))
       \<and> distinct (map (permit_id_of \<circ> sc_permit) calls)
       \<and> call_order (st_mode target) calls
       \<and> (case res of
            Inl f \<Rightarrow> mf_receipts f = map sc_receipt calls \<and> (\<forall>a \<in> set calls. \<forall>srv. sc_answer a \<noteq> Inr (Connected srv))
              \<and> cs_active (ct_mcp_catalogs ct') = cs_active (ct_mcp_catalogs ct)
          | Inr m \<Rightarrow> ms_receipts m = map sc_receipt calls \<and> calls \<noteq> [] \<and> sc_answer (last calls) = Inr (Connected (ms_server m))
              \<and> ms_selected_era m = era_of_call (last calls) \<and> ms_downgraded m = (length calls = 2)
              \<and> \<not> is_active (st_server target) (ct_mcp_catalogs ct) \<and> is_active (st_server target) (ct_mcp_catalogs ct')))"
  unfolding start_mcp_target_start
  using start_mcp_calls [where server = "st_server target" and mode = "st_mode target" and config_digest = "st_digest target"
      and build = "st_build target" and ex = "target_executors target token" and ses = ses and now = now and ct = ct]
  by (elim ex_forward conj_forward) (auto simp: start_calls_def list_all_iff mediated_def split: prod.splits sum.splits)

text \<open>A server that a probe identifies as a legacy one.\<close>

definition demo_mcp :: "(unit, unit) mcp_executors" where
  "demo_mcp =
     \<lparr>mx_modern = (\<lambda>c rsv purpose probe now w. ((Inr LegacyIdentified, demo_receipt c), w)),
      mx_legacy = (\<lambda>c rsv now w. ((Inr (), demo_receipt c), w))\<rparr>"

definition demo_build :: request_builder where
  "demo_build purpose eid ses = Inr (demo_request ''a'')"

lemma mcp_request_goes_through:
  assumes "controller_inv ct" and "permitted ct r" and "capacity (Suc n) now ct"
  shows "\<exists>c events' ct'. authorize_mcp_request r ses now (events, ct) = (Inr c, events', ct') \<and> capacity n now ct'"
proof -
  obtain dg v x where d: "decide (ct_parliament ct) r (ct_policy ct) = Allow dg v x"
    using decide_Allow_iff [OF assms(1)] assms(2) unfolding permitted_def by blast
  have "capacity 1 now ct" using assms(3) by (simp add: capacity_def)
  from authorize_then_consume [OF assms(1) d this] obtain p m c m' where "authorize r (Allow dg v x) now (ct_monitor ct) = (Inr p, m)"
    "consume_permit p r now m = (Inr c, m')" "unat (rm_next_nonce m') = unat (rm_next_nonce (ct_monitor ct)) + 1" by blast
  moreover have "hook_denial r ct = None" using assms(2) by (simp add: hook_denial_None permitted_def)
  ultimately show ?thesis
    using d assms(3) by (simp add: authorize_mcp_request_def mcp_event_def new_event_def hook_denial_def capacity_def Let_def)
qed

lemma attempt_admitted:
  assumes "controller_inv ct" and "permitted ct (demo_request ''a'')" and "capacity (Suc n) now ct"
    and "\<And>c w. fst (fst (run c w)) = Inr x"
  shows "\<exists>receipts' events' ct'. attempt demo_build purpose run ses now (receipts, events, ct)
      = (Inr (x, demo_request ''a''), receipts', events', ct')
    \<and> controller_inv ct' \<and> permitted ct' (demo_request ''a'') \<and> capacity n now ct'"
proof -
  obtain eid ct1 where id: "next_mcp_execution_id ct = (eid, ct1)" by fastforce
  then have same: "same_authority ct1 ct" by (auto simp: next_mcp_execution_id_def same_authority_def)
  have "controller_inv ct1" by (rule evolves_controller_inv [OF evolves_authority [OF same] assms(1)])
  moreover have "permitted ct1 (demo_request ''a'')" "capacity (Suc n) now ct1"
    using assms(2,3) same permitted_same_rules [OF same_authority_rules [OF same]] by (simp_all add: capacity_def same_authority_def)
  ultimately obtain c events2 ct2 where
    au: "authorize_mcp_request (demo_request ''a'') ses now (events, ct1) = (Inr c, events2, ct2)" "capacity n now ct2"
    using mcp_request_goes_through by blast
  obtain receipt w where run: "run c (ct_world ct2) = ((Inr x, receipt), w)" using assms(4) [of c "ct_world ct2"] by (metis prod.collapse)
  obtain events3 ct3 where rec: "record_mcp_completion (demo_request ''a'') ses receipt None
      (events2, ct2\<lparr>ct_world := w, ct_executed := ct_executed ct2 @ [c]\<rparr>) = (events3, ct3)" by fastforce
  have at: "attempt demo_build purpose run ses now (receipts, events, ct) = (Inr (x, demo_request ''a''), receipts @ [receipt], events3, ct3)"
    using id au(1) run rec by (simp add: attempt_def demo_build_def)
  have "ct_monitor ct3 = ct_monitor ct2"
    using record_mcp_completion_facts(1) [of "demo_request ''a''" ses receipt None "(events2, ct2\<lparr>ct_world := w, ct_executed := ct_executed ct2 @ [c]\<rparr>)"] rec
    by (simp add: same_authority_def)
  then have "capacity n now ct3" using au(2) by (simp add: capacity_def)
  moreover have "controller_inv ct3" by (rule evolves_controller_inv [OF attempt_permits(1) [OF at] assms(1)])
  moreover have "permitted ct3 (demo_request ''a'')"
    using attempt_permits(1) [OF at] assms(2) permitted_same_rules by (auto simp: evolves_def)
  ultimately show ?thesis using at by blast
qed

theorem mcp_start_governed_witness:
  "\<exists>calls. ct_executed (snd (start_mcp_target (Stdio AutoMode ''files'' (Inr ''cfg'') demo_build demo_mcp) None demo_session 10 demo_controller))
      = map sc_permit calls
    \<and> map sc_purpose calls = [ModernProbe, Legacy] \<and> sc_answer (hd calls) = Inr LegacyIdentified
    \<and> (\<forall>a \<in> set calls. governed None 10 demo_controller (cp_request (sc_permit (a :: unit server_call))))"
proof -
  let ?r = "\<lparr>rs_server_id = ''files'', rs_generation = 1, rs_config_digest = ''cfg'', rs_revision = None\<rparr>"
  let ?cat = "\<lparr>cs_next_generation = 1, cs_active = [''files'' \<mapsto> 1]\<rparr>"
  let ?ct = "demo_controller\<lparr>ct_mcp_catalogs := ?cat\<rparr>"
  let ?target = "Stdio AutoMode ''files'' (Inr ''cfg'') demo_build demo_mcp"
  have rsv: "reserve ''files'' ''cfg'' (ct_mcp_catalogs demo_controller) = (Inr ?r, ?cat)"
    by (simp add: reserve_def demo_controller_def new_controller_def new_supervisor_def validate_identity_def checked_add_def)
  have empty: "ct_executed demo_controller = []" by (simp add: demo_controller_def new_controller_def)
  have pre: "controller_inv ?ct" "permitted ?ct (demo_request ''a'')" "capacity (Suc 1) 10 ?ct"
    using demo_controller_inv demo_permitted
    by (simp_all add: controller_inv_def permitted_def capacity_def demo_controller_def new_controller_def new_with_policy_def)
  obtain r1 e1 ct1 where
    at1: "attempt demo_build ModernProbe (\<lambda>c. mx_modern demo_mcp c ?r ModernProbe True 10) demo_session 10 ([], [], ?ct)
      = (Inr (LegacyIdentified, demo_request ''a''), r1, e1, ct1)"
    and pre1: "controller_inv ct1" "permitted ct1 (demo_request ''a'')" "capacity (Suc 0) 10 ct1"
    using attempt_admitted [OF pre, of "\<lambda>c. mx_modern demo_mcp c ?r ModernProbe True 10" LegacyIdentified ModernProbe demo_session "[]" "[]"]
    by (auto simp: demo_mcp_def)
  obtain r2 e2 ct2 where
    at2: "attempt demo_build Legacy (\<lambda>c. mx_legacy demo_mcp c ?r 10) demo_session 10 (r1, e1, ct1) = (Inr ((), demo_request ''a''), r2, e2, ct2)"
    using attempt_admitted [OF pre1, of "\<lambda>c. mx_legacy demo_mcp c ?r 10" "()" Legacy demo_session r1 e1] by (auto simp: demo_mcp_def)
  obtain m ct' where m: "start_mcp_target ?target None demo_session 10 demo_controller = (Inr m, ct')" "ms_downgraded m"
    by (simp add: start_mcp_target_def start_mcp_def rsv negotiate_def at1 at2 Let_def new_event_def)
  have "\<exists>calls. ct_executed ct' = map sc_permit calls \<and> call_order AutoMode calls \<and> length calls = 2
    \<and> (\<forall>a \<in> set calls. governed None 10 demo_controller (cp_request (sc_permit (a :: unit server_call))))"
    using mcp_start_governed [where target = ?target and token = None and ses = demo_session and now = 10 and ct = demo_controller]
    unfolding m(1) prod.case sum.case by (elim exE conjE, intro exI conjI) (simp_all add: m(2) empty, blast)
  then obtain calls :: "unit server_call list" where c: "ct_executed ct' = map sc_permit calls" "call_order AutoMode calls" "length calls = 2"
    "\<forall>a \<in> set calls. governed None 10 demo_controller (cp_request (sc_permit a))" by blast
  then obtain a b where "calls = [a, b]" by (auto simp: numeral_2_eq_2 length_Suc_conv)
  with c m(1) show ?thesis by (intro exI [of _ calls]) (auto simp: call_order_def)
qed

end
