(* ===== verification/Orchestration.thy ===== *)
theory Orchestration
  imports Identifiers
begin

text \<open>
  Orchestration plans, \<open>pandora-types/src/orchestration.rs\<close>: role assignments, handoffs, the
  validated plan with its dependency-cycle check and its ready set, the JSON plan, and domain
  agent profiles. The \<open>BTreeSet\<close> of completed roles is a set, the \<open>BTreeMap\<close> from role
  identifiers to roles an association list with distinct keys; a \<open>usize\<close> is a 64-bit word and the
  cast \<open>handoffs.len() as u32\<close> truncates as in the code.
\<close>

section \<open>Roles, topologies and errors\<close>

datatype orchestration_role = Planner | Maker | Critic | Verifier | Custom string

fun role_str :: "orchestration_role \<Rightarrow> string" where
  "role_str Planner = ''planner''"
| "role_str Maker = ''maker''"
| "role_str Critic = ''critic''"
| "role_str Verifier = ''verifier''"
| "role_str (Custom value) = value"

definition standard_roles :: "orchestration_role list" where
  "standard_roles = [Planner, Maker, Critic, Verifier]"

datatype execution_topology = Chain | Diamond | Router

fun topology_str :: "execution_topology \<Rightarrow> string" where
  "topology_str Chain = ''chain''"
| "topology_str Diamond = ''diamond''"
| "topology_str Router = ''router''"

datatype orchestration_error =
  InvalidId id_error
| EmptyField string
| InvalidLimit string
| LimitExceeded string
| DuplicateRole role_id
| UnknownDependency role_id
| SelfDependency role_id
| DependencyCycle
| UnknownHandoffRole role_id
| InvalidHandoff
| UncoordinatedCrossDomain harness_id harness_id
| MetaDomainNotAllowed harness_id
| MetaHandoffLimitExceeded u32
| DomainRoleOutsideHarness harness_id harness_id
| InvalidSwarmWorkers
| SwarmExceedsParallelism u64 u64
| InvalidSubagentDepth
| SpecialistRoleNotInPlan orchestration_role
| TooManyHandoffs

definition max_orchestration_roles :: nat where
  "max_orchestration_roles = 64"

definition max_orchestration_handoffs :: u32 where
  "max_orchestration_handoffs = 64"


section \<open>Role assignments and handoffs\<close>

record role_assignment =
  as_id :: role_id
  as_role :: orchestration_role
  as_harness_id :: harness_id
  as_depends_on :: "role_id list"

definition new_role_assignment ::
  "role_id \<Rightarrow> orchestration_role \<Rightarrow> harness_id \<Rightarrow> role_id list \<Rightarrow> (orchestration_error, role_assignment) outcome" where
  "new_role_assignment i role harness depends_on =
     (if blank i then Inl (EmptyField ''role ID'')
      else if blank harness then Inl (EmptyField ''harness ID'')
      else if \<not> distinct depends_on then Inl (DuplicateRole i)
      else Inr \<lparr>as_id = i, as_role = role, as_harness_id = harness, as_depends_on = depends_on\<rparr>)"

text \<open>The loop over the dependencies with its set of dependencies seen so far.\<close>

fun validate_dependencies :: "role_id \<Rightarrow> role_id set \<Rightarrow> role_id list \<Rightarrow> (orchestration_error, unit) outcome" where
  "validate_dependencies i seen [] = Inr ()"
| "validate_dependencies i seen (d # ds) =
     (case new_id d of
        Inl e \<Rightarrow> Inl (InvalidId e)
      | Inr _ \<Rightarrow>
          if d \<in> seen then Inl (DuplicateRole i)
          else validate_dependencies i (insert d seen) ds)"

definition valid_custom_role :: "orchestration_role \<Rightarrow> bool" where
  "valid_custom_role role =
     (case role of
        Custom value \<Rightarrow> \<not> (blank value \<or> length value > 64 \<or> has_control value)
      | _ \<Rightarrow> True)"

definition validate_assignment :: "role_assignment \<Rightarrow> (orchestration_error, unit) outcome" where
  "validate_assignment a =
     and_then (map_err InvalidId (new_id (as_id a))) (\<lambda>_.
     and_then (map_err InvalidId (new_id (as_harness_id a))) (\<lambda>_.
     and_then (ensure (valid_custom_role (as_role a)) (EmptyField ''custom role'')) (\<lambda>_.
     validate_dependencies (as_id a) {} (as_depends_on a))))"

record handoff =
  ho_from :: role_id
  ho_to :: role_id
  ho_meta_harness :: "harness_id option"

definition validate_handoff :: "handoff \<Rightarrow> (orchestration_error, unit) outcome" where
  "validate_handoff h =
     and_then (map_err InvalidId (new_id (ho_from h))) (\<lambda>_.
     and_then (map_err InvalidId (new_id (ho_to h))) (\<lambda>_.
     case ho_meta_harness h of
       None \<Rightarrow> Inr ()
     | Some meta \<Rightarrow> and_then (map_err InvalidId (new_id meta)) (\<lambda>_. Inr ())))"


section \<open>The dependency-cycle check\<close>

text \<open>One pass of the inner \<open>for\<close> loop, with the flag \<open>changed\<close>.\<close>

fun complete_pass :: "role_assignment list \<Rightarrow> role_id set \<Rightarrow> bool \<Rightarrow> role_id set \<times> bool" where
  "complete_pass [] completed changed = (completed, changed)"
| "complete_pass (r # rs) completed changed =
     (if as_id r \<notin> completed \<and> list_all (\<lambda>d. d \<in> completed) (as_depends_on r)
      then complete_pass rs (insert (as_id r) completed) True
      else complete_pass rs completed changed)"

lemma complete_pass_bounds:
  "completed \<subseteq> fst (complete_pass rs completed changed)"
  "fst (complete_pass rs completed changed) \<subseteq> completed \<union> as_id ` set rs"
  by (induction rs completed changed rule: complete_pass.induct) auto

lemma complete_pass_changed:
  "snd (complete_pass rs completed changed) \<longleftrightarrow> changed \<or> completed \<subset> fst (complete_pass rs completed changed)"
proof (induction rs completed changed rule: complete_pass.induct)
  case (2 r rs completed changed)
  then show ?case
    using complete_pass_bounds(1) [of "insert (as_id r) completed" rs True] by auto
qed simp

text \<open>The outer \<open>loop\<close>: it runs until a pass changes nothing, and every pass that changes something
  completes a role, so it ends.\<close>

function complete_all :: "role_assignment list \<Rightarrow> role_id set \<Rightarrow> role_id set" where
  "complete_all rs completed =
     (case complete_pass rs completed False of
        (completed', changed) \<Rightarrow> if changed then complete_all rs completed' else completed')"
  by pat_completeness auto
termination
proof (relation "measure (\<lambda>(rs, c). card (as_id ` set rs - c))", goal_cases)
  case (2 rs completed completed' changed)
  then have "complete_pass rs completed False = (completed', True)" by simp
  then have "completed \<subset> completed'" "completed' \<subseteq> completed \<union> as_id ` set rs"
    using complete_pass_changed [of rs completed False] complete_pass_bounds(2) [of rs completed False]
    by simp_all
  then have "as_id ` set rs - completed' \<subset> as_id ` set rs - completed" by blast
  then show ?case by (simp add: psubset_card_mono)
qed simp

declare complete_all.simps [simp del]

definition has_dependency_cycle :: "role_assignment list \<Rightarrow> (role_id \<times> role_assignment) list \<Rightarrow> bool" where
  "has_dependency_cycle roles by_id \<longleftrightarrow> card (complete_all roles {}) \<noteq> length by_id"


section \<open>Plans\<close>

record orchestration_plan =
  pn_id :: plan_id
  pn_roles :: "role_assignment list"
  pn_max_parallelism :: u64
  pn_max_handoffs :: u32
  pn_handoffs :: "handoff list"

text \<open>The loop that fills the map \<open>by_id\<close> and rejects a repeated identifier.\<close>

fun index_roles ::
  "role_assignment list \<Rightarrow> (role_id \<times> role_assignment) list
     \<Rightarrow> (orchestration_error, (role_id \<times> role_assignment) list) outcome" where
  "index_roles [] by_id = Inr by_id"
| "index_roles (r # rs) by_id =
     (if map_of by_id (as_id r) \<noteq> None then Inl (DuplicateRole (as_id r))
      else index_roles rs ((as_id r, r) # by_id))"

definition check_dependency ::
  "(role_id \<times> role_assignment) list \<Rightarrow> role_assignment \<Rightarrow> role_id \<Rightarrow> (orchestration_error, unit) outcome" where
  "check_dependency by_id r d =
     (if map_of by_id d = None then Inl (UnknownDependency d)
      else if d = as_id r then Inl (SelfDependency (as_id r))
      else Inr ())"

definition check_handoff ::
  "(role_id \<times> role_assignment) list \<Rightarrow> handoff \<Rightarrow> (orchestration_error, unit) outcome" where
  "check_handoff by_id h =
     (if ho_from h = ho_to h then Inl InvalidHandoff
      else
        and_then (ok_or (map_of by_id (ho_from h)) (UnknownHandoffRole (ho_from h))) (\<lambda>src.
        and_then (ok_or (map_of by_id (ho_to h)) (UnknownHandoffRole (ho_to h))) (\<lambda>dst.
        ensure (\<not> (as_harness_id src \<noteq> as_harness_id dst \<and> ho_meta_harness h = None))
          (UncoordinatedCrossDomain (as_harness_id src) (as_harness_id dst)))))"

definition new_plan ::
  "plan_id \<Rightarrow> role_assignment list \<Rightarrow> u64 \<Rightarrow> u32 \<Rightarrow> handoff list \<Rightarrow> (orchestration_error, orchestration_plan) outcome" where
  "new_plan i roles max_parallelism max_handoffs handoffs =
     and_then (map_err InvalidId (new_id i)) (\<lambda>_.
     and_then (ensure (roles \<noteq> []) (EmptyField ''roles'')) (\<lambda>_.
     and_then (ensure (\<not> length roles > max_orchestration_roles) (LimitExceeded ''roles'')) (\<lambda>_.
     and_then (ensure (max_parallelism \<noteq> 0) (InvalidLimit ''max parallelism'')) (\<lambda>_.
     and_then (ensure (\<not> (unat max_parallelism > length roles \<or> unat max_parallelism > max_orchestration_roles))
                 (LimitExceeded ''max parallelism'')) (\<lambda>_.
     and_then (ensure (\<not> max_handoffs > max_orchestration_handoffs) (LimitExceeded ''max handoffs'')) (\<lambda>_.
     and_then (ensure (\<not> (of_nat (length handoffs) :: u32) > max_handoffs) TooManyHandoffs) (\<lambda>_.
     and_then (try_all validate_assignment roles) (\<lambda>_.
     and_then (try_all validate_handoff handoffs) (\<lambda>_.
     and_then (index_roles roles []) (\<lambda>by_id.
     and_then (try_all (\<lambda>r. try_all (check_dependency by_id r) (as_depends_on r)) roles) (\<lambda>_.
     and_then (ensure (\<not> has_dependency_cycle roles by_id) DependencyCycle) (\<lambda>_.
     and_then (try_all (check_handoff by_id) handoffs) (\<lambda>_.
     Inr \<lparr>pn_id = i, pn_roles = roles, pn_max_parallelism = max_parallelism,
          pn_max_handoffs = max_handoffs, pn_handoffs = handoffs\<rparr>)))))))))))))"

definition plan_role :: "role_id \<Rightarrow> orchestration_plan \<Rightarrow> role_assignment option" where
  "plan_role i p = List.find (\<lambda>r. as_id r = i) (pn_roles p)"

definition role_ready :: "role_id set \<Rightarrow> role_assignment \<Rightarrow> bool" where
  "role_ready completed r \<longleftrightarrow>
     as_id r \<notin> completed \<and> list_all (\<lambda>d. d \<in> completed) (as_depends_on r)"

definition ready_roles :: "role_id list \<Rightarrow> orchestration_plan \<Rightarrow> role_assignment list" where
  "ready_roles completed p =
     take (unat (pn_max_parallelism p)) (filter (role_ready (set completed)) (pn_roles p))"

definition plan_handoff :: "role_id \<Rightarrow> role_id \<Rightarrow> orchestration_plan \<Rightarrow> handoff option" where
  "plan_handoff src dst p = List.find (\<lambda>h. ho_from h = src \<and> ho_to h = dst) (pn_handoffs p)"

section \<open>The cycle check decides acyclicity\<close>

text \<open>An edge of the dependency graph runs from a dependency to the role that waits for it.\<close>

definition depends :: "role_assignment list \<Rightarrow> (role_id \<times> role_id) set" where
  "depends roles = set (concat (map (\<lambda>r. map (\<lambda>d. (d, as_id r)) (as_depends_on r)) roles))"

lemma depends_iff: "(d, i) \<in> depends roles \<longleftrightarrow> (\<exists>r \<in> set roles. as_id r = i \<and> d \<in> set (as_depends_on r))"
  by (auto simp: depends_def)

lemma finite_depends [simp]: "finite (depends roles)"
  by (simp add: depends_def)

text \<open>A rank witnesses that the completed roles are closed under dependencies without a cycle.\<close>

definition ranked :: "role_assignment list \<Rightarrow> role_id set \<Rightarrow> (role_id \<Rightarrow> nat) \<Rightarrow> bool" where
  "ranked roles c rank \<longleftrightarrow> (\<forall>d i. (d, i) \<in> depends roles \<longrightarrow> i \<in> c \<longrightarrow> d \<in> c \<and> rank d < rank i)"

lemma ranked_insert:
  assumes "distinct (map as_id roles)" and "r \<in> set roles" and "ranked roles c rank"
    and "as_id r \<notin> c" and "set (as_depends_on r) \<subseteq> c"
  shows "ranked roles (insert (as_id r) c) (rank (as_id r := Suc (Max (insert 0 (rank ` set (as_depends_on r))))))"
proof -
  have only: "d \<in> set (as_depends_on r)" if "(d, as_id r) \<in> depends roles" for d
    using that assms(1,2) by (auto simp: depends_iff distinct_map inj_on_def)
  have le: "rank d \<le> Max (insert 0 (rank ` set (as_depends_on r)))" if "d \<in> set (as_depends_on r)" for d
    using that by (intro Max_ge) auto
  show ?thesis
    using assms(3-5) only le unfolding ranked_def by (fastforce simp: less_Suc_eq_le)
qed

lemma complete_pass_ranked:
  assumes "distinct (map as_id roles)" and "set rs \<subseteq> set roles" and "ranked roles c rank"
  shows "\<exists>rank'. ranked roles (fst (complete_pass rs c ch)) rank'"
  using assms(2,3)
proof (induction rs c ch arbitrary: rank rule: complete_pass.induct)
  case (2 r rs c ch)
  show ?case
  proof (cases "as_id r \<notin> c \<and> list_all (\<lambda>d. d \<in> c) (as_depends_on r)")
    case True
    then have "set (as_depends_on r) \<subseteq> c" by (auto simp: list_all_iff)
    with True 2 ranked_insert [OF assms(1), of r c rank] show ?thesis by auto
  qed (use 2 in auto)
qed auto

lemma complete_pass_unchanged:
  "complete_pass rs c False = (c', False) \<Longrightarrow> r \<in> set rs \<Longrightarrow> \<not> role_ready c r"
proof (induction rs c False rule: complete_pass.induct)
  case (2 q rs c)
  then show ?case
    using complete_pass_changed [of rs "insert (as_id q) c" True]
    by (auto simp: role_ready_def split: if_splits)
qed auto

lemma complete_all_facts:
  assumes "distinct (map as_id roles)" and "ranked roles c rank"
  shows "(\<exists>rank'. ranked roles (complete_all roles c) rank')
    \<and> complete_all roles c \<subseteq> c \<union> as_id ` set roles
    \<and> (\<forall>r \<in> set roles. \<not> role_ready (complete_all roles c) r)"
  using assms
proof (induction roles c arbitrary: rank rule: complete_all.induct)
  case (1 roles c)
  obtain c' ch where pass: "complete_pass roles c False = (c', ch)" by fastforce
  have grow: "c' \<subseteq> c \<union> as_id ` set roles" using complete_pass_bounds(2) [of roles c False] pass by simp
  obtain rank' where rank': "ranked roles c' rank'"
    using complete_pass_ranked [OF 1(2) order_refl 1(3), of False] pass by auto
  show ?case
  proof (cases ch)
    case True
    then have "complete_all roles c = complete_all roles c'"
      using pass by (subst complete_all.simps) simp
    with 1(1) [OF pass [symmetric] True 1(2) rank'] grow show ?thesis by auto
  next
    case False
    have "c' = c" using complete_pass_changed [of roles c False] complete_pass_bounds(1) [of c roles False]
        pass False by auto
    moreover have "complete_all roles c = c'" using pass False by (subst complete_all.simps) simp
    ultimately show ?thesis using pass False rank' grow complete_pass_unchanged [of roles c c'] by auto
  qed
qed

text \<open>The graph argument shared by the check and the scheduler: a set of roles that is stuck while
  roles are missing has a cycle outside it.\<close>

lemma stuck_complete:
  assumes "acyclic (depends roles)" and closed: "\<forall>r \<in> set roles. set (as_depends_on r) \<subseteq> as_id ` set roles"
    and stuck: "\<forall>r \<in> set roles. \<not> role_ready c r"
  shows "as_id ` set roles \<subseteq> c"
proof (rule ccontr)
  let ?missing = "as_id ` set roles - c"
  assume "\<not> as_id ` set roles \<subseteq> c"
  then obtain i0 where "i0 \<in> ?missing" by blast
  moreover have "wf (depends roles)" using assms(1) by (simp add: finite_acyclic_wf)
  ultimately obtain i where i: "i \<in> ?missing" and least: "\<And>d. (d, i) \<in> depends roles \<Longrightarrow> d \<notin> ?missing"
    by (elim wfE_min [where Q = ?missing]) blast+
  then obtain r where r: "r \<in> set roles" "as_id r = i" by auto
  have "d \<in> c" if "d \<in> set (as_depends_on r)" for d
    using that r least [of d] closed by (auto simp: depends_iff)
  with r i have "role_ready c r" by (auto simp: role_ready_def list_all_iff)
  with stuck r show False by blast
qed

lemma ranked_acyclic:
  assumes "ranked roles c rank" and "as_id ` set roles \<subseteq> c"
  shows "acyclic (depends roles)"
proof -
  have "depends roles \<subseteq> measure rank"
    using assms by (force simp: ranked_def depends_iff)
  then show ?thesis using wf_acyclic wf_subset [OF wf_measure] by blast
qed

lemma has_dependency_cycle_iff:
  assumes "distinct (map as_id roles)" and "\<forall>r \<in> set roles. set (as_depends_on r) \<subseteq> as_id ` set roles"
    and "length by_id = length roles"
  shows "has_dependency_cycle roles by_id \<longleftrightarrow> \<not> acyclic (depends roles)"
proof -
  let ?c = "complete_all roles {}"
  have "ranked roles {} (\<lambda>_. 0)" by (simp add: ranked_def)
  from complete_all_facts [OF assms(1) this] obtain rank where rank: "ranked roles ?c rank"
    and sub: "?c \<subseteq> as_id ` set roles" and stuck: "\<forall>r \<in> set roles. \<not> role_ready ?c r" by auto
  have "card (as_id ` set roles) = length by_id"
    using assms(1,3) distinct_card [of "map as_id roles"] by simp
  moreover have "card ?c = card (as_id ` set roles) \<longleftrightarrow> ?c = as_id ` set roles"
    using sub card_subset_eq [of "as_id ` set roles" ?c] by auto
  ultimately have "\<not> has_dependency_cycle roles by_id \<longleftrightarrow> as_id ` set roles \<subseteq> ?c"
    using sub by (auto simp: has_dependency_cycle_def)
  then show ?thesis using ranked_acyclic [OF rank] stuck_complete [OF _ assms(2) stuck] by blast
qed

lemma index_roles_ok:
  "index_roles rs acc = Inr by_id \<longleftrightarrow>
     by_id = rev (map (\<lambda>r. (as_id r, r)) rs) @ acc \<and> distinct (map as_id rs)
   \<and> as_id ` set rs \<inter> fst ` set acc = {}"
proof (induction rs arbitrary: acc)
  case (Cons r rs)
  then show ?case by (auto simp: map_of_eq_None_iff)
qed auto

lemma validate_dependencies_ok:
  "validate_dependencies i seen ds = Inr u \<longleftrightarrow> (\<forall>d \<in> set ds. valid_id d) \<and> distinct ds \<and> set ds \<inter> seen = {}"
  by (induction ds arbitrary: seen) (auto split: sum.splits simp: new_id_Inl_iff valid_id_def)


section \<open>What a valid plan is\<close>

definition assignment_wf :: "role_assignment \<Rightarrow> bool" where
  "assignment_wf a \<longleftrightarrow> valid_id (as_id a) \<and> valid_id (as_harness_id a) \<and> valid_custom_role (as_role a)
     \<and> (\<forall>d \<in> set (as_depends_on a). valid_id d) \<and> distinct (as_depends_on a)"

definition handoff_wf :: "role_assignment list \<Rightarrow> handoff \<Rightarrow> bool" where
  "handoff_wf roles h \<longleftrightarrow>
     valid_id (ho_from h) \<and> valid_id (ho_to h) \<and> (\<forall>m. ho_meta_harness h = Some m \<longrightarrow> valid_id m)
   \<and> ho_from h \<noteq> ho_to h
   \<and> (\<exists>a b. a \<in> set roles \<and> as_id a = ho_from h \<and> b \<in> set roles \<and> as_id b = ho_to h
        \<and> (as_harness_id a = as_harness_id b \<or> ho_meta_harness h \<noteq> None))"

definition plan_wf :: "orchestration_plan \<Rightarrow> bool" where
  "plan_wf p \<longleftrightarrow>
     valid_id (pn_id p) \<and> pn_roles p \<noteq> [] \<and> length (pn_roles p) \<le> max_orchestration_roles
   \<and> 0 < unat (pn_max_parallelism p) \<and> unat (pn_max_parallelism p) \<le> length (pn_roles p)
   \<and> pn_max_handoffs p \<le> max_orchestration_handoffs
   \<and> length (pn_handoffs p) mod 2 ^ 32 \<le> unat (pn_max_handoffs p)
   \<and> list_all assignment_wf (pn_roles p) \<and> distinct (map as_id (pn_roles p))
   \<and> (\<forall>r \<in> set (pn_roles p). set (as_depends_on r) \<subseteq> as_id ` set (pn_roles p))
   \<and> acyclic (depends (pn_roles p))
   \<and> list_all (handoff_wf (pn_roles p)) (pn_handoffs p)"

lemma validate_assignment_ok: "validate_assignment a = Inr u \<longleftrightarrow> assignment_wf a"
  by (auto simp: validate_assignment_def assignment_wf_def validate_dependencies_ok)

lemma validate_handoff_ok:
  "validate_handoff h = Inr u \<longleftrightarrow>
     valid_id (ho_from h) \<and> valid_id (ho_to h) \<and> (\<forall>m. ho_meta_harness h = Some m \<longrightarrow> valid_id m)"
  by (cases "ho_meta_harness h") (auto simp: validate_handoff_def)

lemma map_of_index:
  assumes "distinct (map as_id roles)"
  shows "map_of (rev (map (\<lambda>r. (as_id r, r)) roles)) i = Some r \<longleftrightarrow> r \<in> set roles \<and> as_id r = i"
  using assms by (subst map_of_eq_Some_iff) (auto simp: rev_map [symmetric] comp_def image_iff)

lemma map_of_index_None:
  "map_of (rev (map (\<lambda>r. (as_id r, r)) roles)) i = None \<longleftrightarrow> i \<notin> as_id ` set roles"
  by (auto simp: map_of_eq_None_iff image_image)

lemma check_handoff_ok:
  assumes "distinct (map as_id roles)"
  shows "check_handoff (rev (map (\<lambda>r. (as_id r, r)) roles)) h = Inr u \<longleftrightarrow>
     ho_from h \<noteq> ho_to h
   \<and> (\<exists>a b. a \<in> set roles \<and> as_id a = ho_from h \<and> b \<in> set roles \<and> as_id b = ho_to h
        \<and> (as_harness_id a = as_harness_id b \<or> ho_meta_harness h \<noteq> None))"
  by (auto simp: check_handoff_def map_of_index [OF assms])

lemma check_dependencies_ok:
  "(\<forall>d \<in> set (as_depends_on r). check_dependency (rev (map (\<lambda>r. (as_id r, r)) roles)) r d = Inr ()) \<longleftrightarrow>
     set (as_depends_on r) \<subseteq> as_id ` set roles \<and> as_id r \<notin> set (as_depends_on r)"
  by (auto simp: check_dependency_def map_of_index_None split: if_splits)

lemma acyclic_no_self: "acyclic (depends roles) \<Longrightarrow> r \<in> set roles \<Longrightarrow> as_id r \<notin> set (as_depends_on r)"
  unfolding acyclic_def using depends_iff by blast

lemma handoff_count:
  "\<not> (of_nat (length hs) :: u32) > m \<longleftrightarrow> length hs mod 2 ^ 32 \<le> unat m"
  by (simp add: not_less word_le_nat_alt unat_of_nat)

lemma parallelism_range:
  "m \<noteq> 0 \<and> length roles \<le> max_orchestration_roles
     \<and> \<not> (unat m > length roles \<or> unat m > max_orchestration_roles)
   \<longleftrightarrow> length roles \<le> max_orchestration_roles \<and> 0 < unat m \<and> unat m \<le> length roles"
  by (auto simp: unat_gt_0)


section \<open>JSON plans and domain profiles\<close>

record plan_json =
  pj_id :: string
  pj_intent :: string
  pj_topology :: execution_topology
  pj_roles :: "role_assignment list"
  pj_max_parallelism :: u64
  pj_max_handoffs :: u32
  pj_handoffs :: "handoff list"

definition new_plan_json ::
  "string \<Rightarrow> string \<Rightarrow> execution_topology \<Rightarrow> role_assignment list \<Rightarrow> u64 \<Rightarrow> u32 \<Rightarrow> handoff list
     \<Rightarrow> (orchestration_error, plan_json) outcome" where
  "new_plan_json i intent topology roles max_parallelism max_handoffs handoffs =
     and_then (map_err InvalidId (new_id i)) (\<lambda>plan_id.
     and_then (new_plan plan_id roles max_parallelism max_handoffs handoffs) (\<lambda>plan.
     Inr \<lparr>pj_id = pn_id plan, pj_intent = intent, pj_topology = topology, pj_roles = roles,
          pj_max_parallelism = max_parallelism, pj_max_handoffs = max_handoffs, pj_handoffs = handoffs\<rparr>))"

definition to_orchestration_plan :: "plan_json \<Rightarrow> (orchestration_error, orchestration_plan) outcome" where
  "to_orchestration_plan j =
     and_then (map_err InvalidId (new_id (pj_id j))) (\<lambda>plan_id.
     new_plan plan_id (pj_roles j) (pj_max_parallelism j) (pj_max_handoffs j) (pj_handoffs j))"

datatype domain_profile_mode =
  Agent
| Subagent u64
| Swarm u64
| Specialist orchestration_role

datatype loop_termination = GoalReached | NoProgress | ExplicitStop

record run_loop_config =
  rc_max_iterations :: u32
  rc_max_tokens :: u64
  rc_max_tools :: u32
  rc_max_duration_seconds :: u64
  rc_max_cost_micros :: u64
  rc_max_retries :: u32
  rc_termination :: loop_termination

definition new_run_loop_config ::
  "u32 \<Rightarrow> u64 \<Rightarrow> u32 \<Rightarrow> u64 \<Rightarrow> u64 \<Rightarrow> u32 \<Rightarrow> loop_termination \<Rightarrow> (orchestration_error, run_loop_config) outcome" where
  "new_run_loop_config iterations tokens tools duration cost retries term =
     (if iterations = 0 then Inl (InvalidLimit ''max iterations'')
      else if tokens = 0 then Inl (InvalidLimit ''max tokens'')
      else if tools = 0 then Inl (InvalidLimit ''max tools'')
      else if duration = 0 then Inl (InvalidLimit ''max duration seconds'')
      else if cost = 0 then Inl (InvalidLimit ''max cost micros'')
      else Inr \<lparr>rc_max_iterations = iterations, rc_max_tokens = tokens, rc_max_tools = tools,
                rc_max_duration_seconds = duration, rc_max_cost_micros = cost,
                rc_max_retries = retries, rc_termination = term\<rparr>)"

record domain_agent_profile =
  dp_harness_id :: harness_id
  dp_plan :: orchestration_plan
  dp_loop_config :: run_loop_config
  dp_mode :: domain_profile_mode

definition check_mode :: "orchestration_plan \<Rightarrow> domain_profile_mode \<Rightarrow> (orchestration_error, unit) outcome" where
  "check_mode plan mode =
     (case mode of
        Agent \<Rightarrow> Inr ()
      | Subagent max_depth \<Rightarrow> if max_depth = 0 then Inl InvalidSubagentDepth else Inr ()
      | Swarm workers \<Rightarrow>
          if workers < 2 then Inl InvalidSwarmWorkers
          else if workers > pn_max_parallelism plan
          then Inl (SwarmExceedsParallelism workers (pn_max_parallelism plan))
          else Inr ()
      | Specialist role \<Rightarrow>
          if \<not> list_ex (\<lambda>r. as_role r = role) (pn_roles plan) then Inl (SpecialistRoleNotInPlan role)
          else Inr ())"

definition new_domain_profile ::
  "harness_id \<Rightarrow> orchestration_plan \<Rightarrow> run_loop_config \<Rightarrow> domain_profile_mode
     \<Rightarrow> (orchestration_error, domain_agent_profile) outcome" where
  "new_domain_profile harness plan loop_config mode =
     (case List.find (\<lambda>r. as_harness_id r \<noteq> harness) (pn_roles plan) of
        Some r \<Rightarrow> Inl (DomainRoleOutsideHarness harness (as_harness_id r))
      | None \<Rightarrow>
          and_then (check_mode plan mode) (\<lambda>_.
          Inr \<lparr>dp_harness_id = harness, dp_plan = plan, dp_loop_config = loop_config, dp_mode = mode\<rparr>))"

definition new_agent where
  "new_agent harness plan loop_config = new_domain_profile harness plan loop_config Agent"

definition new_subagent where
  "new_subagent harness plan loop_config depth = new_domain_profile harness plan loop_config (Subagent depth)"

definition new_swarm where
  "new_swarm harness plan loop_config n = new_domain_profile harness plan loop_config (Swarm n)"

definition new_specialist where
  "new_specialist harness plan loop_config role = new_domain_profile harness plan loop_config (Specialist role)"

definition subagent_depth :: "domain_agent_profile \<Rightarrow> u64 option" where
  "subagent_depth p = (case dp_mode p of Subagent d \<Rightarrow> Some d | _ \<Rightarrow> None)"

definition swarm_workers :: "domain_agent_profile \<Rightarrow> u64 option" where
  "swarm_workers p = (case dp_mode p of Swarm n \<Rightarrow> Some n | _ \<Rightarrow> None)"

definition specialist_role :: "domain_agent_profile \<Rightarrow> orchestration_role option" where
  "specialist_role p = (case dp_mode p of Specialist r \<Rightarrow> Some r | _ \<Rightarrow> None)"


section \<open>Driving a plan by its ready set\<close>

text \<open>The client's loop: complete every role of the ready set, ask again.\<close>

fun schedule :: "nat \<Rightarrow> orchestration_plan \<Rightarrow> role_id list \<Rightarrow> role_id list" where
  "schedule 0 p completed = completed"
| "schedule (Suc n) p completed = schedule n p (completed @ map as_id (ready_roles completed p))"

lemma ready_roles_member:
  "r \<in> set (ready_roles completed p) \<Longrightarrow> r \<in> set (pn_roles p) \<and> role_ready (set completed) r"
  by (auto simp: ready_roles_def dest: in_set_takeD)

lemma ready_roles_Nil_iff:
  assumes "plan_wf p"
  shows "ready_roles completed p = [] \<longleftrightarrow> as_id ` set (pn_roles p) \<subseteq> set completed"
proof
  assume "ready_roles completed p = []"
  then have "\<forall>r \<in> set (pn_roles p). \<not> role_ready (set completed) r"
    using assms by (auto simp: ready_roles_def plan_wf_def filter_empty_conv)
  then show "as_id ` set (pn_roles p) \<subseteq> set completed"
    using assms stuck_complete by (auto simp: plan_wf_def)
next
  assume "as_id ` set (pn_roles p) \<subseteq> set completed"
  then have "\<not> role_ready (set completed) r" if "r \<in> set (pn_roles p)" for r
    using that by (auto simp: role_ready_def)
  then show "ready_roles completed p = []" by (simp add: ready_roles_def filter_empty_conv)
qed

text \<open>In an order of completion every role comes after its dependencies and no role twice.\<close>

definition in_dependency_order :: "orchestration_plan \<Rightarrow> role_id list \<Rightarrow> bool" where
  "in_dependency_order p order \<longleftrightarrow> distinct order \<and> set order \<subseteq> as_id ` set (pn_roles p)
     \<and> (\<forall>xs i ys d. order = xs @ i # ys \<longrightarrow> (d, i) \<in> depends (pn_roles p) \<longrightarrow> d \<in> set xs)"

lemma dependency_order_step:
  assumes "plan_wf p" and "in_dependency_order p c"
  shows "in_dependency_order p (c @ map as_id (ready_roles c p))"
proof -
  let ?b = "map as_id (ready_roles c p)"
  have dist: "distinct (map as_id (pn_roles p))" using assms(1) by (simp add: plan_wf_def)
  then have "distinct ?b"
    unfolding ready_roles_def
    by (auto simp: distinct_map intro!: inj_on_subset [of as_id "set (pn_roles p)"] dest: in_set_takeD)
  moreover have "set ?b \<inter> set c = {}" "set ?b \<subseteq> as_id ` set (pn_roles p)"
    using ready_roles_member [of _ c p] by (auto simp: role_ready_def)
  moreover have "d \<in> set xs" if split: "c @ ?b = xs @ i # ys" and dep: "(d, i) \<in> depends (pn_roles p)" for xs i ys d
    using append_split_at [OF split]
  proof (elim disjE exE conjE)
    fix zs assume "c = xs @ i # zs"
    with assms(2) dep show ?thesis by (auto simp: in_dependency_order_def)
  next
    fix zs assume xs: "xs = c @ zs" and "?b = zs @ i # ys"
    then have "i \<in> set ?b" by simp
    then obtain r where r: "r \<in> set (ready_roles c p)" "as_id r = i" by auto
    from dep obtain q where "q \<in> set (pn_roles p)" "as_id q = i" "d \<in> set (as_depends_on q)"
      by (auto simp: depends_iff)
    with r dist ready_roles_member [OF r(1)] have "d \<in> set (as_depends_on r)"
      by (auto simp: distinct_map inj_on_def)
    with ready_roles_member [OF r(1)] xs show ?thesis by (auto simp: role_ready_def list_all_iff)
  qed
  ultimately show ?thesis using assms(2) unfolding in_dependency_order_def by auto
qed

lemma schedule_order:
  "plan_wf p \<Longrightarrow> in_dependency_order p c \<Longrightarrow> in_dependency_order p (schedule n p c)"
  by (induction n arbitrary: c) (auto intro: dependency_order_step)

lemma schedule_prefix: "\<exists>zs. schedule n p c = c @ zs"
  by (induction n arbitrary: c) (auto, metis append_assoc)

lemma schedule_grows:
  assumes "plan_wf p"
  shows "as_id ` set (pn_roles p) \<subseteq> set (schedule n p c) \<or> length c + n \<le> length (schedule n p c)"
proof (induction n arbitrary: c)
  case (Suc n)
  show ?case
  proof (cases "ready_roles c p = []")
    case True
    then have "as_id ` set (pn_roles p) \<subseteq> set c" using ready_roles_Nil_iff [OF assms] by simp
    moreover obtain zs where "schedule (Suc n) p c = c @ zs" using schedule_prefix by blast
    ultimately show ?thesis by auto
  next
    case False
    then have "0 < length (ready_roles c p)" by (rule length_greater_0_conv [THEN iffD2])
    then have "length c + Suc n \<le> length (c @ map as_id (ready_roles c p)) + n"
      unfolding length_append length_map by arith
    then show ?thesis
      using Suc [of "c @ map as_id (ready_roles c p)"] unfolding schedule.simps(2) by (elim disjE) simp_all
  qed
qed simp


lemma new_plan_ok_iff:
  "new_plan i roles mp mh hs = Inr p \<longleftrightarrow>
     p = \<lparr>pn_id = i, pn_roles = roles, pn_max_parallelism = mp, pn_max_handoffs = mh, pn_handoffs = hs\<rparr>
   \<and> plan_wf p"
proof -
  let ?by = "rev (map (\<lambda>r. (as_id r, r)) roles)"
  have cyc: "has_dependency_cycle roles ?by \<longleftrightarrow> \<not> acyclic (depends roles)"
    if "distinct (map as_id roles)" "\<forall>r \<in> set roles. set (as_depends_on r) \<subseteq> as_id ` set roles"
    using has_dependency_cycle_iff [OF that] by simp
  have deps: "(\<forall>r \<in> set roles. \<forall>d \<in> set (as_depends_on r). check_dependency ?by r d = Inr ())
        \<and> \<not> has_dependency_cycle roles ?by \<longleftrightarrow>
      (\<forall>r \<in> set roles. set (as_depends_on r) \<subseteq> as_id ` set roles) \<and> acyclic (depends roles)"
    if "distinct (map as_id roles)"
    using cyc [OF that] acyclic_no_self [of roles] unfolding check_dependencies_ok by blast
  have hand: "(\<forall>h \<in> set hs. validate_handoff h = Inr ()) \<and> (\<forall>h \<in> set hs. check_handoff ?by h = Inr ()) \<longleftrightarrow>
      list_all (handoff_wf roles) hs"
    if "distinct (map as_id roles)"
    unfolding check_handoff_ok [OF that] validate_handoff_ok list_all_iff handoff_wf_def by blast
  have main: "new_plan i roles mp mh hs = Inr p \<longleftrightarrow>
     p = \<lparr>pn_id = i, pn_roles = roles, pn_max_parallelism = mp, pn_max_handoffs = mh, pn_handoffs = hs\<rparr>
   \<and> valid_id i \<and> roles \<noteq> []
   \<and> (mp \<noteq> 0 \<and> length roles \<le> max_orchestration_roles
        \<and> \<not> (unat mp > length roles \<or> unat mp > max_orchestration_roles))
   \<and> mh \<le> max_orchestration_handoffs \<and> \<not> (of_nat (length hs) :: u32) > mh
   \<and> (\<forall>r \<in> set roles. assignment_wf r) \<and> distinct (map as_id roles)
   \<and> ((\<forall>r \<in> set roles. \<forall>d \<in> set (as_depends_on r). check_dependency ?by r d = Inr ())
        \<and> \<not> has_dependency_cycle roles ?by)
   \<and> ((\<forall>h \<in> set hs. validate_handoff h = Inr ()) \<and> (\<forall>h \<in> set hs. check_handoff ?by h = Inr ()))"
    unfolding new_plan_def
    by (simp add: index_roles_ok validate_assignment_ok not_less linorder_not_less) blast
  show ?thesis
  proof (cases "distinct (map as_id roles)")
    case True
    show ?thesis
      unfolding main deps [OF True] hand [OF True] parallelism_range handoff_count
      by (cases "p = \<lparr>pn_id = i, pn_roles = roles, pn_max_parallelism = mp, pn_max_handoffs = mh, pn_handoffs = hs\<rparr>")
        (simp_all add: plan_wf_def list_all_iff)
  next
    case False
    then show ?thesis unfolding main by (auto simp: plan_wf_def)
  qed
qed


section \<open>Properties\<close>

text \<open>C36: the constructor of a plan accepts exactly the well-formed plans: bounded sizes and
  parallelism, valid and distinct role identifiers, known dependencies without a cycle (found by
  the fixpoint loop), and handoffs between two distinct known roles that stay within one harness
  or name a Meta Harness. The accepted plan holds the arguments unchanged.\<close>

theorem new_plan_accepts_exactly_wf:
  "new_plan i roles mp mh hs = Inr p \<longleftrightarrow>
     p = \<lparr>pn_id = i, pn_roles = roles, pn_max_parallelism = mp, pn_max_handoffs = mh, pn_handoffs = hs\<rparr>
   \<and> plan_wf p"
  by (rule new_plan_ok_iff)

text \<open>Progress of a plan. On a valid plan the ready set never exceeds the parallelism bound,
  holds only roles of the plan that are not completed and whose dependencies all are, and it is
  empty only when every role has completed.\<close>

lemma ready_roles_progress:
  assumes "new_plan i roles mp mh hs = Inr p"
  shows "length (ready_roles completed p) \<le> unat mp
    \<and> (\<forall>r \<in> set (ready_roles completed p). r \<in> set roles \<and> as_id r \<notin> set completed
          \<and> set (as_depends_on r) \<subseteq> set completed)
    \<and> (ready_roles completed p = [] \<longleftrightarrow> as_id ` set roles \<subseteq> set completed)"
proof -
  from assms have p: "p = \<lparr>pn_id = i, pn_roles = roles, pn_max_parallelism = mp, pn_max_handoffs = mh, pn_handoffs = hs\<rparr>"
    and wf: "plan_wf p" using new_plan_ok_iff [of i roles mp mh hs p] by blast+
  have roles: "pn_roles p = roles" "pn_max_parallelism p = mp" by (simp_all add: p)
  have "length (ready_roles completed p) \<le> unat mp" by (simp add: ready_roles_def roles)
  moreover have "r \<in> set roles \<and> as_id r \<notin> set completed \<and> set (as_depends_on r) \<subseteq> set completed"
    if "r \<in> set (ready_roles completed p)" for r
    using ready_roles_member [OF that] by (auto simp: role_ready_def list_all_iff roles)
  moreover have "ready_roles completed p = [] \<longleftrightarrow> as_id ` set roles \<subseteq> set completed"
    using ready_roles_Nil_iff [OF wf] by (simp add: roles)
  ultimately show ?thesis by blast
qed

definition demo_roles :: "role_assignment list" where
  "demo_roles =
     [\<lparr>as_id = ''make'', as_role = Maker, as_harness_id = ''coding'', as_depends_on = [''plan'']\<rparr>,
      \<lparr>as_id = ''plan'', as_role = Planner, as_harness_id = ''coding'', as_depends_on = []\<rparr>,
      \<lparr>as_id = ''check'', as_role = Verifier, as_harness_id = ''coding'', as_depends_on = [''make'', ''plan'']\<rparr>]"

definition demo_plan :: orchestration_plan where
  "demo_plan = \<lparr>pn_id = ''plan-1'', pn_roles = demo_roles, pn_max_parallelism = 2, pn_max_handoffs = 4,
     pn_handoffs = [\<lparr>ho_from = ''plan'', ho_to = ''make'', ho_meta_harness = None\<rparr>]\<rparr>"

lemma demo_plan_new:
  "new_plan ''plan-1'' demo_roles 2 4 [\<lparr>ho_from = ''plan'', ho_to = ''make'', ho_meta_harness = None\<rparr>] = Inr demo_plan"
  by code_simp

lemma ready_roles_progress_witness:
  "new_plan ''plan-1'' demo_roles 2 4 [\<lparr>ho_from = ''plan'', ho_to = ''make'', ho_meta_harness = None\<rparr>] = Inr demo_plan
   \<and> length (ready_roles [''plan''] demo_plan) \<le> unat (2 :: u64)
   \<and> (ready_roles [''plan''] demo_plan = [] \<longleftrightarrow> as_id ` set demo_roles \<subseteq> set [''plan''])"
  using ready_roles_progress [OF demo_plan_new, of "[''plan'']"] demo_plan_new by blast

text \<open>C37: a valid plan runs to completion. Completing the ready set again and again completes every
  role within as many rounds as the plan has roles, no role twice, and each after all the roles
  it depends on.\<close>

theorem schedule_completes:
  assumes "new_plan i roles mp mh hs = Inr p"
  shows "set (schedule (length roles) p []) = as_id ` set roles
    \<and> in_dependency_order p (schedule (length roles) p [])"
proof -
  have wf: "plan_wf p" and roles: "pn_roles p = roles" using assms by (simp_all only: new_plan_ok_iff) auto
  have order: "in_dependency_order p (schedule (length roles) p [])"
    by (rule schedule_order [OF wf]) (simp add: in_dependency_order_def)
  then have sub: "set (schedule (length roles) p []) \<subseteq> as_id ` set roles"
    and dist: "distinct (schedule (length roles) p [])" by (auto simp: in_dependency_order_def roles)
  have "as_id ` set roles \<subseteq> set (schedule (length roles) p [])"
    using schedule_grows [OF wf, of "length roles" "[]"] unfolding roles
  proof
    assume "length ([] :: role_id list) + length roles \<le> length (schedule (length roles) p [])"
    then have "card (as_id ` set roles) \<le> card (set (schedule (length roles) p []))"
      using distinct_card [OF dist] card_image_le [of "set roles" as_id] card_length [of roles] by simp
    then have "set (schedule (length roles) p []) = as_id ` set roles"
      by (intro card_seteq [OF _ sub]) simp_all
    then show ?thesis by simp
  qed
  with sub order show ?thesis by blast
qed

theorem schedule_completes_witness:
  "new_plan ''plan-1'' demo_roles 2 4 [\<lparr>ho_from = ''plan'', ho_to = ''make'', ho_meta_harness = None\<rparr>] = Inr demo_plan
   \<and> set (schedule (length demo_roles) demo_plan []) = as_id ` set demo_roles"
  using schedule_completes [OF demo_plan_new] demo_plan_new by blast

text \<open>The JSON form of a plan and the plan convert without loss: a JSON plan is built exactly when
  the plan itself is valid, converting it back gives that very plan, and the intent and topology
  are kept.\<close>

lemma plan_json_roundtrip:
  "new_plan_json i intent topology roles mp mh hs = Inr j \<longleftrightarrow>
     j = \<lparr>pj_id = i, pj_intent = intent, pj_topology = topology, pj_roles = roles,
          pj_max_parallelism = mp, pj_max_handoffs = mh, pj_handoffs = hs\<rparr>
   \<and> is_ok (new_plan i roles mp mh hs) \<and> to_orchestration_plan j = new_plan i roles mp mh hs"
proof (cases "valid_id i")
  case True
  moreover have "pn_id x = i" if "new_plan i roles mp mh hs = Inr x" for x
    using that by (auto simp: new_plan_ok_iff)
  ultimately show ?thesis
    by (auto simp: new_plan_json_def to_orchestration_plan_def is_ok_iff)
next
  case False
  then have "\<not> is_ok (new_plan i roles mp mh hs)" by (auto simp: is_ok_iff new_plan_ok_iff plan_wf_def)
  with False show ?thesis by (simp add: new_plan_json_def)
qed

text \<open>A domain profile is accepted exactly when every role of its plan belongs to its harness and
  its mode fits: a subagent has positive depth, a swarm at least two workers and no more than the
  plan's parallelism, a specialist a role of the plan.\<close>

lemma domain_profile_accepted_iff:
  "new_domain_profile harness plan config mode = Inr p \<longleftrightarrow>
     p = \<lparr>dp_harness_id = harness, dp_plan = plan, dp_loop_config = config, dp_mode = mode\<rparr>
   \<and> as_harness_id ` set (pn_roles plan) \<subseteq> {harness}
   \<and> (case mode of
         Agent \<Rightarrow> True
       | Subagent depth \<Rightarrow> 0 < depth
       | Swarm n \<Rightarrow> 2 \<le> n \<and> n \<le> pn_max_parallelism plan
       | Specialist role \<Rightarrow> role \<in> as_role ` set (pn_roles plan))"
proof -
  have find: "List.find (\<lambda>r. as_harness_id r \<noteq> harness) (pn_roles plan) = None \<longleftrightarrow>
      as_harness_id ` set (pn_roles plan) \<subseteq> {harness}"
    by (auto simp: find_None_iff)
  have mode: "check_mode plan mode = Inr () \<longleftrightarrow> (case mode of
         Agent \<Rightarrow> True
       | Subagent depth \<Rightarrow> 0 < depth
       | Swarm n \<Rightarrow> 2 \<le> n \<and> n \<le> pn_max_parallelism plan
       | Specialist role \<Rightarrow> role \<in> as_role ` set (pn_roles plan))"
    by (cases mode) (auto simp: check_mode_def not_less list_ex_iff word_neq_0_conv)
  show ?thesis
    unfolding new_domain_profile_def mode [symmetric] find [symmetric] by (auto split: option.splits)
qed

end
