(* ===== verification/Bounded_Runs.thy ===== *)
theory Bounded_Runs
  imports One_Shot
begin

text \<open>
  The contract of a component that promises to do a thing a bounded number of times: some
  operations count (an accepted iteration, an attempt, a retry), the count never passes a bound
  that no operation moves, and so no sequence of operations counts more often than the bound.
\<close>

fun ticked :: "('op \<Rightarrow> 's \<Rightarrow> 's) \<Rightarrow> ('op \<Rightarrow> 's \<Rightarrow> bool) \<Rightarrow> 'op list \<Rightarrow> 's \<Rightarrow> nat" where
  "ticked exec ticks [] s = 0"
| "ticked exec ticks (x # xs) s = (if ticks x s then 1 else 0) + ticked exec ticks xs (exec x s)"

locale bounded_counter =
  fixes exec :: "'op \<Rightarrow> 's \<Rightarrow> 's"
    and ticks :: "'op \<Rightarrow> 's \<Rightarrow> bool"
    and count :: "'s \<Rightarrow> nat"
    and bound :: "'s \<Rightarrow> nat"
    and inv :: "'s \<Rightarrow> bool"
  assumes inv_kept: "inv s \<Longrightarrow> inv (exec x s)"
    and counted: "inv s \<Longrightarrow> count (exec x s) = (if ticks x s then Suc (count s) else count s)"
    and bound_kept: "inv s \<Longrightarrow> bound (exec x s) = bound s"
    and within: "inv s \<Longrightarrow> count s \<le> bound s"
begin

lemma inv_run: "inv s \<Longrightarrow> inv (run_ops exec xs s)"
  by (rule run_ops_invariant [where I = inv]) (auto intro: inv_kept)

lemma bound_run: "inv s \<Longrightarrow> bound (run_ops exec xs s) = bound s"
  by (induction xs arbitrary: s) (auto simp: inv_kept bound_kept)

lemma count_run: "inv s \<Longrightarrow> count (run_ops exec xs s) = count s + ticked exec ticks xs s"
  by (induction xs arbitrary: s) (auto simp: inv_kept counted)

lemma ticked_bounded: "inv s \<Longrightarrow> count s + ticked exec ticks xs s \<le> bound s"
  using count_run [of s xs] within [OF inv_run, of s xs] bound_run [of s xs] by simp

end

end
