(* ===== verification/Run_Loop.thy ===== *)
theory Run_Loop
  imports Orchestration Bounded_Runs
begin

text \<open>
  Bounded run loops: the state, usage and snapshot types of \<open>pandora-types/src/orchestration.rs\<close>
  and the controller \<open>pandora-runtime/src/run_loop.rs\<close>. An operation returns its result and the
  loop after it.
\<close>

section \<open>State\<close>

datatype run_loop_state = Ready | Running | Paused | Completed | Cancelled | Exhausted

datatype loop_decision =
  ContinueLoop
| RetryLoop
| CompletedLoop
| ExhaustedLoop
| CancelledLoop

record usage =
  us_tokens :: u64
  us_tools :: u32
  us_duration_seconds :: u64
  us_cost_micros :: u64

record iteration_outcome =
  io_usage :: usage
  io_progress :: bool
  io_goal_reached :: bool
  io_failed :: bool
  io_retryable :: bool

record run_loop =
  rl_id :: run_loop_id
  rl_plan_id :: plan_id
  rl_config :: run_loop_config
  rl_state :: run_loop_state
  rl_iterations :: u32
  rl_retries :: u32
  rl_used_tokens :: u64
  rl_used_tools :: u32
  rl_used_duration_seconds :: u64
  rl_used_cost_micros :: u64

record run_loop_snapshot =
  sn_id :: run_loop_id
  sn_plan_id :: plan_id
  sn_config :: run_loop_config
  sn_state :: run_loop_state
  sn_iterations :: u32
  sn_retries :: u32
  sn_used_tokens :: u64
  sn_used_tools :: u32
  sn_used_duration_seconds :: u64
  sn_used_cost_micros :: u64

datatype run_loop_error =
  ContractError orchestration_error
| InvalidTransition run_loop_state string
| InvalidSnapshot


section \<open>Operations\<close>

definition new_run_loop :: "run_loop_id \<Rightarrow> plan_id \<Rightarrow> run_loop_config \<Rightarrow> (run_loop_error, run_loop) outcome" where
  "new_run_loop i plan config =
     (if blank i \<or> blank plan then Inl InvalidSnapshot
      else Inr \<lparr>rl_id = i, rl_plan_id = plan, rl_config = config, rl_state = Ready,
                rl_iterations = 0, rl_retries = 0, rl_used_tokens = 0, rl_used_tools = 0,
                rl_used_duration_seconds = 0, rl_used_cost_micros = 0\<rparr>)"

definition transition ::
  "run_loop_state \<Rightarrow> run_loop_state \<Rightarrow> string \<Rightarrow> run_loop \<Rightarrow> (run_loop_error, unit) outcome \<times> run_loop" where
  "transition expected nxt action l =
     (if rl_state l \<noteq> expected then (Inl (InvalidTransition (rl_state l) action), l)
      else (Inr (), l\<lparr>rl_state := nxt\<rparr>))"

definition start :: "run_loop \<Rightarrow> (run_loop_error, unit) outcome \<times> run_loop" where
  "start = transition Ready Running ''start''"

definition pause :: "run_loop \<Rightarrow> (run_loop_error, unit) outcome \<times> run_loop" where
  "pause = transition Running Paused ''pause''"

definition resume :: "run_loop \<Rightarrow> (run_loop_error, unit) outcome \<times> run_loop" where
  "resume = transition Paused Running ''resume''"

definition cancel :: "run_loop \<Rightarrow> (run_loop_error, unit) outcome \<times> run_loop" where
  "cancel l =
     (if rl_state l \<in> {Ready, Running, Paused} then (Inr (), l\<lparr>rl_state := Cancelled\<rparr>)
      else (Inl (InvalidTransition (rl_state l) ''cancel''), l))"

definition budget_exhausted :: "run_loop \<Rightarrow> bool" where
  "budget_exhausted l \<longleftrightarrow>
     rl_used_tokens l > rc_max_tokens (rl_config l)
   \<or> rl_used_tools l > rc_max_tools (rl_config l)
   \<or> rl_used_duration_seconds l > rc_max_duration_seconds (rl_config l)
   \<or> rl_used_cost_micros l > rc_max_cost_micros (rl_config l)"

text \<open>The accounting at the start of an iteration.\<close>

definition charge :: "usage \<Rightarrow> run_loop \<Rightarrow> run_loop" where
  "charge u l =
     l\<lparr>rl_iterations := saturating_add (rl_iterations l) 1,
       rl_used_tokens := saturating_add (rl_used_tokens l) (us_tokens u),
       rl_used_tools := saturating_add (rl_used_tools l) (us_tools u),
       rl_used_duration_seconds := saturating_add (rl_used_duration_seconds l) (us_duration_seconds u),
       rl_used_cost_micros := saturating_add (rl_used_cost_micros l) (us_cost_micros u)\<rparr>"

definition record_iteration ::
  "iteration_outcome \<Rightarrow> run_loop \<Rightarrow> (run_loop_error, loop_decision) outcome \<times> run_loop" where
  "record_iteration outcome l0 =
     (if rl_state l0 \<noteq> Running then (Inl (InvalidTransition (rl_state l0) ''record iteration''), l0)
      else
        let l = charge (io_usage outcome) l0 in
        if budget_exhausted l then (Inr ExhaustedLoop, l\<lparr>rl_state := Exhausted\<rparr>)
        else if io_goal_reached outcome then (Inr CompletedLoop, l\<lparr>rl_state := Completed\<rparr>)
        else if io_failed outcome then
          (if io_retryable outcome \<and> rl_retries l < rc_max_retries (rl_config l)
              \<and> rl_iterations l < rc_max_iterations (rl_config l)
           then (Inr RetryLoop, l\<lparr>rl_retries := rl_retries l + 1\<rparr>)
           else (Inr ExhaustedLoop, l\<lparr>rl_state := Exhausted\<rparr>))
        else if \<not> io_progress outcome \<and> rc_termination (rl_config l) = NoProgress
        then (Inr CompletedLoop, l\<lparr>rl_state := Completed\<rparr>)
        else if rl_iterations l \<ge> rc_max_iterations (rl_config l)
        then (Inr ExhaustedLoop, l\<lparr>rl_state := Exhausted\<rparr>)
        else (Inr ContinueLoop, l))"

definition snapshot :: "run_loop \<Rightarrow> run_loop_snapshot" where
  "snapshot l =
     \<lparr>sn_id = rl_id l, sn_plan_id = rl_plan_id l, sn_config = rl_config l, sn_state = rl_state l,
      sn_iterations = rl_iterations l, sn_retries = rl_retries l, sn_used_tokens = rl_used_tokens l,
      sn_used_tools = rl_used_tools l, sn_used_duration_seconds = rl_used_duration_seconds l,
      sn_used_cost_micros = rl_used_cost_micros l\<rparr>"

definition from_snapshot :: "run_loop_snapshot \<Rightarrow> (run_loop_error, run_loop) outcome" where
  "from_snapshot s =
     (if blank (sn_id s) \<or> blank (sn_plan_id s) then Inl InvalidSnapshot
      else if sn_iterations s > rc_max_iterations (sn_config s)
        \<or> sn_used_tokens s > rc_max_tokens (sn_config s)
        \<or> sn_used_tools s > rc_max_tools (sn_config s)
        \<or> sn_used_duration_seconds s > rc_max_duration_seconds (sn_config s)
        \<or> sn_used_cost_micros s > rc_max_cost_micros (sn_config s)
        \<or> sn_retries s > rc_max_retries (sn_config s)
      then Inl InvalidSnapshot
      else Inr \<lparr>rl_id = sn_id s, rl_plan_id = sn_plan_id s, rl_config = sn_config s, rl_state = sn_state s,
                rl_iterations = sn_iterations s, rl_retries = sn_retries s,
                rl_used_tokens = sn_used_tokens s, rl_used_tools = sn_used_tools s,
                rl_used_duration_seconds = sn_used_duration_seconds s,
                rl_used_cost_micros = sn_used_cost_micros s\<rparr>)"


section \<open>Runs of a loop\<close>

datatype loop_op = StartOp | PauseOp | ResumeOp | CancelOp | IterationOp iteration_outcome

fun exec_loop_op :: "loop_op \<Rightarrow> run_loop \<Rightarrow> run_loop" where
  "exec_loop_op StartOp l = snd (start l)"
| "exec_loop_op PauseOp l = snd (pause l)"
| "exec_loop_op ResumeOp l = snd (resume l)"
| "exec_loop_op CancelOp l = snd (cancel l)"
| "exec_loop_op (IterationOp outcome) l = snd (record_iteration outcome l)"

fun accepted :: "loop_op \<Rightarrow> run_loop \<Rightarrow> bool" where
  "accepted StartOp l = is_ok (fst (start l))"
| "accepted PauseOp l = is_ok (fst (pause l))"
| "accepted ResumeOp l = is_ok (fst (resume l))"
| "accepted CancelOp l = is_ok (fst (cancel l))"
| "accepted (IterationOp outcome) l = is_ok (fst (record_iteration outcome l))"

text \<open>The operations that record an iteration.\<close>

fun records :: "loop_op \<Rightarrow> run_loop \<Rightarrow> bool" where
  "records (IterationOp outcome) l = accepted (IterationOp outcome) l"
| "records _ l = False"

definition live :: "run_loop_state \<Rightarrow> bool" where
  "live s \<longleftrightarrow> s \<in> {Ready, Running, Paused}"

text \<open>The life cycle the operations follow.\<close>

inductive loop_step :: "run_loop_state \<Rightarrow> run_loop_state \<Rightarrow> bool" where
  begin_loop: "loop_step Ready Running"
| pause_loop: "loop_step Running Paused"
| resume_loop: "loop_step Paused Running"
| cancel_loop: "live s \<Longrightarrow> loop_step s Cancelled"
| iterate_loop: "loop_step Running Running"
| complete_loop: "loop_step Running Completed"
| exhaust_loop: "loop_step Running Exhausted"

inductive_cases loop_step_from: "loop_step s s'"

text \<open>The invariant of a loop: a live loop has budget and iterations left; retries stay within
  their bound; an ended loop is at most one iteration over.\<close>

definition loop_inv :: "run_loop \<Rightarrow> bool" where
  "loop_inv l \<longleftrightarrow>
     \<not> blank (rl_id l) \<and> \<not> blank (rl_plan_id l)
   \<and> rl_iterations l \<le> rc_max_iterations (rl_config l)
   \<and> rl_retries l \<le> rc_max_retries (rl_config l)
   \<and> rl_retries l \<le> rl_iterations l
   \<and> (live (rl_state l) \<longrightarrow> rl_iterations l < rc_max_iterations (rl_config l) \<and> \<not> budget_exhausted l)
   \<and> (rl_state l \<noteq> Exhausted \<longrightarrow> \<not> budget_exhausted l)"

lemmas loop_defs = start_def pause_def resume_def cancel_def transition_def

lemma record_iteration_config [simp]:
  "rl_config (snd (record_iteration out l)) = rl_config l"
  "rl_id (snd (record_iteration out l)) = rl_id l" "rl_plan_id (snd (record_iteration out l)) = rl_plan_id l"
  by (simp_all add: record_iteration_def charge_def Let_def)

lemma exec_loop_config [simp]: "rl_config (exec_loop_op x l) = rl_config l"
  by (cases x) (simp_all add: loop_defs)

lemma saturating_Suc:
  assumes "(a :: 'a::len word) < b"
  shows "unat (saturating_add a 1) = Suc (unat a)"
proof -
  have "unat a < unat b" using assms by (simp add: word_less_nat_alt)
  then have "Suc (unat a) \<le> 2 ^ LENGTH('a) - 1" using unat_less_2p [of b] by linarith
  then show ?thesis using unat_saturating_add [of a 1] by simp
qed

lemma retry_Suc:
  assumes "(a :: 'a::len word) < b"
  shows "unat (a + 1) = Suc (unat a)"
  using saturating_Suc [OF assms] assms
  by (metis Suc_eq_plus1 unat_1 unat_add_no_overflow unat_less_2p saturating_add_def)

section \<open>The invariant is kept\<close>

lemma record_not_running [simp]:
  "rl_state l \<noteq> Running \<Longrightarrow> record_iteration out l = (Inl (InvalidTransition (rl_state l) ''record iteration''), l)"
  by (simp add: record_iteration_def)

lemma record_iteration_count:
  "rl_state l = Running \<Longrightarrow> rl_iterations (snd (record_iteration out l)) = saturating_add (rl_iterations l) 1"
  by (simp add: record_iteration_def charge_def Let_def)

lemma record_iteration_accepts: "is_ok (fst (record_iteration out l)) \<longleftrightarrow> rl_state l = Running"
  by (simp add: record_iteration_def Let_def)

lemma budget_exhausted_state [simp]:
  "budget_exhausted (l\<lparr>rl_state := s\<rparr>) = budget_exhausted l"
  "budget_exhausted (l\<lparr>rl_retries := k\<rparr>) = budget_exhausted l"
  by (simp_all add: budget_exhausted_def)

lemma charge_simps [simp]:
  "rl_config (charge u l) = rl_config l" "rl_retries (charge u l) = rl_retries l"
  "rl_id (charge u l) = rl_id l" "rl_plan_id (charge u l) = rl_plan_id l" "rl_state (charge u l) = rl_state l"
  "rl_iterations (charge u l) = saturating_add (rl_iterations l) 1"
  by (simp_all add: charge_def)

lemma record_iteration_inv:
  assumes "loop_inv l"
  shows "loop_inv (snd (record_iteration out l))"
proof (cases "rl_state l = Running")
  case True
  let ?l = "charge (io_usage out) l"
  have lt: "rl_iterations l < rc_max_iterations (rl_config l)" using assms True by (simp add: loop_inv_def live_def)
  from saturating_Suc [OF lt] have it: "rl_iterations ?l \<le> rc_max_iterations (rl_config l)"
      "rl_iterations l < rl_iterations ?l"
    using lt by (auto simp: word_le_nat_alt word_less_nat_alt)
  have re: "rl_retries l + 1 \<le> rc_max_retries (rl_config l)" "rl_retries l + 1 \<le> rl_iterations ?l"
    if "rl_retries l < rc_max_retries (rl_config l)"
    using retry_Suc [OF that] that saturating_Suc [OF lt] assms
    by (auto simp: word_le_nat_alt word_less_nat_alt loop_inv_def)
  have inv: "\<not> blank (rl_id l)" "\<not> blank (rl_plan_id l)" "rl_retries l \<le> rc_max_retries (rl_config l)"
    "rl_retries l \<le> rl_iterations ?l" using assms it by (auto simp: loop_inv_def)
  show ?thesis
    unfolding record_iteration_def Let_def using True inv it re
    by (auto simp: loop_inv_def live_def not_le)
qed (use assms in simp)

lemma exec_loop_inv:
  assumes "loop_inv l"
  shows "loop_inv (exec_loop_op x l)"
proof (cases x)
  case (IterationOp out)
  then show ?thesis using record_iteration_inv [OF assms] by simp
qed (use assms in \<open>auto simp: loop_defs loop_inv_def live_def\<close>)

lemma new_run_loop_inv:
  assumes "new_run_loop i plan c = Inr l" and "0 < rc_max_iterations c"
  shows "loop_inv l \<and> rl_config l = c \<and> rl_iterations l = 0 \<and> rl_state l = Ready"
  using assms by (auto simp: new_run_loop_def loop_inv_def live_def budget_exhausted_def split: if_splits)

lemma new_config_positive:
  "new_run_loop_config a b c d e f g = Inr config \<Longrightarrow> rc_max_iterations config = a \<and> 0 < a \<and> rc_max_retries config = f"
  by (auto simp: new_run_loop_config_def word_neq_0_conv split: if_splits)

lemma unaccepted_unchanged: "\<not> accepted x l \<Longrightarrow> exec_loop_op x l = l"
  by (cases x) (auto simp: loop_defs record_iteration_accepts split: if_splits)

lemma accepted_steps: "accepted x l \<Longrightarrow> loop_step (rl_state l) (rl_state (exec_loop_op x l))"
proof (cases x)
  case (IterationOp out)
  assume "accepted x l"
  with IterationOp have "rl_state l = Running" by (simp add: record_iteration_accepts)
  then show ?thesis using IterationOp by (auto simp: record_iteration_def Let_def intro: loop_step.intros)
qed (auto simp: loop_defs live_def split: if_splits intro: loop_step.intros)

lemma terminal_unaccepted: "\<not> live (rl_state l) \<Longrightarrow> \<not> accepted x l"
  by (cases x) (auto simp: loop_defs live_def record_iteration_accepts split: if_splits)

interpretation iterations: bounded_counter exec_loop_op records
  "\<lambda>l. unat (rl_iterations l)" "\<lambda>l. unat (rc_max_iterations (rl_config l))" loop_inv
proof
  fix l x
  assume inv: "loop_inv l"
  show "loop_inv (exec_loop_op x l)" by (rule exec_loop_inv [OF inv])
  show "unat (rc_max_iterations (rl_config (exec_loop_op x l))) = unat (rc_max_iterations (rl_config l))" by simp
  show "unat (rl_iterations l) \<le> unat (rc_max_iterations (rl_config l))"
    using inv by (simp add: loop_inv_def word_le_nat_alt)
  show "unat (rl_iterations (exec_loop_op x l)) =
      (if records x l then Suc (unat (rl_iterations l)) else unat (rl_iterations l))"
  proof (cases x)
    case (IterationOp out)
    show ?thesis
    proof (cases "rl_state l = Running")
      case True
      then have "rl_iterations l < rc_max_iterations (rl_config l)" using inv by (simp add: loop_inv_def live_def)
      with IterationOp True show ?thesis
        by (simp add: record_iteration_accepts record_iteration_count saturating_Suc)
    qed (simp add: IterationOp)
  qed (simp_all add: loop_defs)
qed


section \<open>Properties\<close>

text \<open>C38: a run loop is bounded. In any sequence of operations on a new loop at most
  \<open>max_iterations\<close> iterations are recorded; when that many have been, the loop has ended; the
  retries stay within their bound; and while the loop is live every budget is kept.\<close>

theorem run_loop_bounded:
  assumes "new_run_loop_config iterations tokens tools duration cost retries term = Inr config"
    and "new_run_loop i plan config = Inr l"
  shows "ticked exec_loop_op records xs l \<le> unat iterations
    \<and> (ticked exec_loop_op records xs l = unat iterations \<longrightarrow> \<not> live (rl_state (run_ops exec_loop_op xs l)))
    \<and> rl_retries (run_ops exec_loop_op xs l) \<le> retries
    \<and> (live (rl_state (run_ops exec_loop_op xs l)) \<longrightarrow> \<not> budget_exhausted (run_ops exec_loop_op xs l))"
proof -
  note c = new_config_positive [OF assms(1)]
  then have l: "loop_inv l" "rl_config l = config" "rl_iterations l = 0"
    using new_run_loop_inv [OF assms(2)] by auto
  let ?l = "run_ops exec_loop_op xs l"
  have inv: "loop_inv ?l" by (rule iterations.inv_run [OF l(1)])
  have cfg: "rl_config ?l = config"
    using run_ops_invariant [where I = "\<lambda>l. rl_config l = config" and exec = exec_loop_op] l(2) by simp
  have count: "unat (rl_iterations ?l) = ticked exec_loop_op records xs l"
    using iterations.count_run [OF l(1)] l(3) by simp
  have "ticked exec_loop_op records xs l \<le> unat iterations"
    using iterations.ticked_bounded [OF l(1), of xs] l c by simp
  moreover have "rl_retries ?l \<le> retries" using inv c cfg by (simp add: loop_inv_def)
  moreover have "ticked exec_loop_op records xs l < unat iterations \<and> \<not> budget_exhausted ?l" if "live (rl_state ?l)"
    using inv that c cfg count by (simp add: loop_inv_def word_less_nat_alt)
  ultimately show ?thesis by auto
qed

definition demo_config :: run_loop_config where
  "demo_config = \<lparr>rc_max_iterations = 1, rc_max_tokens = 10, rc_max_tools = 5, rc_max_duration_seconds = 60,
     rc_max_cost_micros = 100, rc_max_retries = 1, rc_termination = GoalReached\<rparr>"

definition demo_loop :: run_loop where
  "demo_loop = \<lparr>rl_id = ''loop-1'', rl_plan_id = ''plan-1'', rl_config = demo_config, rl_state = Ready,
     rl_iterations = 0, rl_retries = 0, rl_used_tokens = 0, rl_used_tools = 0,
     rl_used_duration_seconds = 0, rl_used_cost_micros = 0\<rparr>"

definition demo_iteration :: "u64 \<Rightarrow> loop_op" where
  "demo_iteration tokens = IterationOp \<lparr>io_usage = \<lparr>us_tokens = tokens, us_tools = 0,
     us_duration_seconds = 1, us_cost_micros = 1\<rparr>, io_progress = True, io_goal_reached = False,
     io_failed = False, io_retryable = False\<rparr>"

lemmas loop_demo_defs = demo_config_def demo_loop_def demo_iteration_def

lemma demo_config_new: "new_run_loop_config 1 10 5 60 100 1 GoalReached = Inr demo_config"
  by code_simp

lemma demo_loop_new: "new_run_loop ''loop-1'' ''plan-1'' demo_config = Inr demo_loop"
  by code_simp

theorem run_loop_bounded_witness:
  "new_run_loop_config 1 10 5 60 100 1 GoalReached = Inr demo_config
   \<and> new_run_loop ''loop-1'' ''plan-1'' demo_config = Inr demo_loop
   \<and> ticked exec_loop_op records [StartOp, demo_iteration 1, demo_iteration 1] demo_loop = 1
   \<and> \<not> live (rl_state (run_ops exec_loop_op [StartOp, demo_iteration 1, demo_iteration 1] demo_loop))"
proof -
  have "ticked exec_loop_op records [StartOp, demo_iteration 1, demo_iteration 1] demo_loop
      = unat (1 :: u32)"
    by (simp add: loop_demo_defs record_iteration_def charge_def saturating_add_def budget_exhausted_def loop_defs)
  with run_loop_bounded [OF demo_config_new demo_loop_new,
      of "[StartOp, demo_iteration 1, demo_iteration 1]"]
  show ?thesis using demo_config_new demo_loop_new by simp
qed

text \<open>The life cycle. An accepted operation takes one step of the life cycle; a refused one leaves
  the loop as it was; and a completed, cancelled or exhausted loop refuses every operation, so no
  sequence of operations changes it.\<close>

lemma run_loop_life_cycle:
  "(if accepted x l then loop_step (rl_state l) (rl_state (exec_loop_op x l)) else exec_loop_op x l = l)
   \<and> (live (rl_state l) \<or> run_ops exec_loop_op xs l = l)"
proof -
  have "run_ops exec_loop_op xs l = l" if "\<not> live (rl_state l)"
    using that by (induction xs) (auto simp: terminal_unaccepted unaccepted_unchanged)
  then show ?thesis using accepted_steps unaccepted_unchanged by auto
qed

text \<open>C39: snapshots. Restoring the snapshot of a loop that any sequence of operations produced gives
  that loop back, unless the last iteration ran over a budget: such a loop is exhausted, and its
  snapshot is refused.\<close>

theorem snapshot_roundtrip:
  assumes "new_run_loop_config iterations tokens tools duration cost retries term = Inr config"
    and "new_run_loop i plan config = Inr l"
    and "l' = run_ops exec_loop_op xs l"
  shows "from_snapshot (snapshot l') = (if budget_exhausted l' then Inl InvalidSnapshot else Inr l')
    \<and> (budget_exhausted l' \<longrightarrow> rl_state l' = Exhausted)"
proof -
  note c = new_config_positive [OF assms(1)]
  then have "loop_inv l" using new_run_loop_inv [OF assms(2)] by auto
  then have inv: "loop_inv l'" unfolding assms(3) by (rule iterations.inv_run)
  then have "budget_exhausted l' \<longrightarrow> rl_state l' = Exhausted" by (auto simp: loop_inv_def)
  moreover have "\<not> rl_iterations l' > rc_max_iterations (rl_config l')" "\<not> rl_retries l' > rc_max_retries (rl_config l')"
    "\<not> blank (rl_id l')" "\<not> blank (rl_plan_id l')"
    using inv by (auto simp: loop_inv_def)
  then have "from_snapshot (snapshot l') = (if budget_exhausted l' then Inl InvalidSnapshot else Inr l')"
    by (auto simp: from_snapshot_def snapshot_def budget_exhausted_def)
  ultimately show ?thesis by blast
qed

theorem snapshot_roundtrip_witness:
  "\<exists>l'. l' = run_ops exec_loop_op [StartOp, demo_iteration 11] demo_loop
     \<and> rl_state l' = Exhausted \<and> from_snapshot (snapshot l') = Inl InvalidSnapshot"
proof -
  have "budget_exhausted (run_ops exec_loop_op [StartOp, demo_iteration 11] demo_loop)"
    by (simp add: loop_demo_defs record_iteration_def charge_def saturating_add_def budget_exhausted_def loop_defs)
  with snapshot_roundtrip [OF demo_config_new demo_loop_new refl, of "[StartOp, demo_iteration 11]"]
  show ?thesis by auto
qed

end
