(* ===== verification/Kanban.thy ===== *)
theory Kanban
  imports Rust_Text Sql_Table One_Shot
begin

text \<open>
  The durable task board: \<open>pandora-types/src/kanban.rs\<close> and the engine
  \<open>pandora-runtime/src/kanban_engine.rs\<close>. The table \<open>kanban_tasks\<close> is a list of raw rows;
  integers in a row are SQLite's signed 64-bit integers, so a \<open>u64\<close> or \<open>usize\<close> that does not
  fit is refused by the database layer. The JSON text of a list of strings is written and read by
  \<open>serde_json\<close>, which is a parameter (\<open>json_codec\<close>). The clock is an argument, and \<open>f k\<close> says
  whether the \<open>k\<close>-th database call of an operation fails. The text of a database error is not
  modelled. The engine opens a connection for each statement and holds neither a lock nor a transaction across
  the statements of an operation; an operation is modelled as it runs when no other one interleaves.
\<close>

section \<open>Tasks\<close>

datatype kanban_status = Backlog | Todo | InProgress | Blocked | Review | Done

definition parse_kanban_status :: "string \<Rightarrow> kanban_status option" where
  "parse_kanban_status s =
     (let v = replace_char (CHR ''-'') (CHR ''_'') (to_ascii_lowercase s) in
      if v = ''backlog'' then Some Backlog
      else if v = ''todo'' \<or> v = ''to_do'' then Some Todo
      else if v = ''in_progress'' \<or> v = ''inprogress'' then Some InProgress
      else if v = ''blocked'' then Some Blocked
      else if v = ''review'' then Some Review
      else if v = ''done'' \<or> v = ''completed'' then Some Done
      else None)"

fun kanban_status_str :: "kanban_status \<Rightarrow> string" where
  "kanban_status_str Backlog = ''backlog''"
| "kanban_status_str Todo = ''todo''"
| "kanban_status_str InProgress = ''in_progress''"
| "kanban_status_str Blocked = ''blocked''"
| "kanban_status_str Review = ''review''"
| "kanban_status_str Done = ''done''"

text \<open>The derived \<open>Debug\<close> text of a status.\<close>

fun kanban_status_debug :: "kanban_status \<Rightarrow> string" where
  "kanban_status_debug Backlog = ''Backlog''"
| "kanban_status_debug Todo = ''Todo''"
| "kanban_status_debug InProgress = ''InProgress''"
| "kanban_status_debug Blocked = ''Blocked''"
| "kanban_status_debug Review = ''Review''"
| "kanban_status_debug Done = ''Done''"

record kanban_task =
  kt_id :: string
  kt_board_id :: string
  kt_title :: string
  kt_description :: string
  kt_status :: kanban_status
  kt_priority :: u8
  kt_assignee :: "string option"
  kt_dependencies :: "string list"
  kt_retry_count :: u64
  kt_max_retries :: u64
  kt_last_heartbeat :: "u64 option"
  kt_created_at :: u64
  kt_updated_at :: u64
  kt_labels :: "string list"

definition new_task ::
  "string \<Rightarrow> string \<Rightarrow> string \<Rightarrow> string \<Rightarrow> u8 \<Rightarrow> string option \<Rightarrow> string list \<Rightarrow> u64 \<Rightarrow> kanban_task" where
  "new_task i board title description priority assignee dependencies now =
     \<lparr>kt_id = i, kt_board_id = board, kt_title = title, kt_description = description,
      kt_status = Todo, kt_priority = max 1 (min 5 priority), kt_assignee = assignee,
      kt_dependencies = dependencies, kt_retry_count = 0, kt_max_retries = 3,
      kt_last_heartbeat = None, kt_created_at = now, kt_updated_at = now, kt_labels = []\<rparr>"

definition can_start :: "string list \<Rightarrow> kanban_task \<Rightarrow> bool" where
  "can_start completed_tasks t \<longleftrightarrow> list_all (\<lambda>d. List.member completed_tasks d) (kt_dependencies t)"

definition is_zombie :: "u64 \<Rightarrow> u64 \<Rightarrow> kanban_task \<Rightarrow> bool" where
  "is_zombie now timeout t =
     (if kt_status t \<noteq> InProgress then False
      else case kt_last_heartbeat t of
        Some seen \<Rightarrow> saturating_sub now seen \<ge> timeout
      | None \<Rightarrow> saturating_sub now (kt_updated_at t) \<ge> timeout)"

record kanban_board =
  kb_id :: string
  kb_name :: string
  kb_description :: string
  kb_tasks :: "kanban_task list"
  kb_created_at :: u64

record reclaim_report =
  rp_reclaimed :: "string list"
  rp_blocked :: "string list"

datatype kanban_error =
  Database
| TaskNotFound string
| InvalidDependency string
| Validation string


section \<open>Rows\<close>

record json_codec =
  js_write :: "string list \<Rightarrow> string option"
  js_read :: "string \<Rightarrow> string list option"

text \<open>What the engine relies on: a list of strings is read back as it was written.\<close>

definition json_faithful :: "json_codec \<Rightarrow> bool" where
  "json_faithful c \<longleftrightarrow> (\<forall>xs. \<exists>s. js_write c xs = Some s \<and> js_read c s = Some xs)"

record raw_task =
  rt_id :: string
  rt_board_id :: string
  rt_title :: string
  rt_description :: string
  rt_status :: string
  rt_priority :: int
  rt_assignee :: "string option"
  rt_dependencies_json :: string
  rt_retry_count :: int
  rt_max_retries :: int
  rt_last_heartbeat :: "int option"
  rt_created_at :: int
  rt_updated_at :: int
  rt_labels_json :: string

type_synonym kanban_table = "raw_task list"

definition write_list :: "json_codec \<Rightarrow> string list \<Rightarrow> string" where
  "write_list c xs = (case js_write c xs of Some s \<Rightarrow> s | None \<Rightarrow> ''[]'')"

definition read_list :: "json_codec \<Rightarrow> string \<Rightarrow> string list" where
  "read_list c s = (case js_read c s of Some xs \<Rightarrow> xs | None \<Rightarrow> [])"

definition opt_i64 :: "u64 option \<Rightarrow> int option option" where
  "opt_i64 v = (case v of None \<Rightarrow> Some None | Some x \<Rightarrow> map_option Some (i64_of_u64 x))"

definition opt_u64 :: "int option \<Rightarrow> u64 option option" where
  "opt_u64 v = (case v of None \<Rightarrow> Some None | Some x \<Rightarrow> map_option Some (u64_of_i64 x))"

text \<open>The parameters of the \<open>INSERT\<close>; \<open>None\<close> when a number does not fit.\<close>

definition encode_task :: "json_codec \<Rightarrow> kanban_task \<Rightarrow> raw_task option" where
  "encode_task c t =
     (case (i64_of_u64 (kt_retry_count t), i64_of_u64 (kt_max_retries t), opt_i64 (kt_last_heartbeat t),
            i64_of_u64 (kt_created_at t), i64_of_u64 (kt_updated_at t)) of
        (Some retry, Some retries, Some hb, Some created, Some updated) \<Rightarrow>
          Some \<lparr>rt_id = kt_id t, rt_board_id = kt_board_id t, rt_title = kt_title t,
                rt_description = kt_description t, rt_status = kanban_status_str (kt_status t),
                rt_priority = uint (kt_priority t), rt_assignee = kt_assignee t,
                rt_dependencies_json = write_list c (kt_dependencies t),
                rt_retry_count = retry, rt_max_retries = retries, rt_last_heartbeat = hb,
                rt_created_at = created, rt_updated_at = updated,
                rt_labels_json = write_list c (kt_labels t)\<rparr>
      | _ \<Rightarrow> None)"

definition map_row :: "json_codec \<Rightarrow> raw_task \<Rightarrow> kanban_task option" where
  "map_row c r =
     (let status = (case parse_kanban_status (rt_status r) of Some s \<Rightarrow> s | None \<Rightarrow> Todo) in
      case (u8_of_i64 (rt_priority r), u64_of_i64 (rt_retry_count r), u64_of_i64 (rt_max_retries r),
            opt_u64 (rt_last_heartbeat r), u64_of_i64 (rt_created_at r), u64_of_i64 (rt_updated_at r)) of
        (Some priority, Some retry, Some retries, Some hb, Some created, Some updated) \<Rightarrow>
          Some \<lparr>kt_id = rt_id r, kt_board_id = rt_board_id r, kt_title = rt_title r,
                kt_description = rt_description r, kt_status = status, kt_priority = priority,
                kt_assignee = rt_assignee r, kt_dependencies = read_list c (rt_dependencies_json r),
                kt_retry_count = retry, kt_max_retries = retries, kt_last_heartbeat = hb,
                kt_created_at = created, kt_updated_at = updated,
                kt_labels = read_list c (rt_labels_json r)\<rparr>
      | _ \<Rightarrow> None)"


section \<open>The engine\<close>

definition create_task ::
  "json_codec \<Rightarrow> faults \<Rightarrow> kanban_task \<Rightarrow> kanban_table \<Rightarrow> (kanban_error, kanban_task) outcome \<times> kanban_table" where
  "create_task c f task t =
     (if blank (kt_id task) then (Inl (Validation ''task id cannot be empty''), t)
      else if blank (kt_title task) then (Inl (Validation ''task title cannot be empty''), t)
      else if f 0 then (Inl Database, t)
      else case encode_task c task of
        None \<Rightarrow> (Inl Database, t)
      | Some row \<Rightarrow>
          if f 1 \<or> row_lookup rt_id (rt_id row) t \<noteq> None then (Inl Database, t)
          else (Inr task, row_insert row t))"

text \<open>\<open>failed\<close>: opening, preparing, querying or stepping failed.\<close>

definition get_task ::
  "json_codec \<Rightarrow> bool \<Rightarrow> string \<Rightarrow> kanban_table \<Rightarrow> (kanban_error, kanban_task option) outcome" where
  "get_task c failed i t =
     (if failed then Inl Database
      else case row_lookup rt_id i t of
        None \<Rightarrow> Inr None
      | Some row \<Rightarrow> and_then (ok_or (map_row c row) Database) (\<lambda>task. Inr (Some task)))"

definition list_tasks ::
  "json_codec \<Rightarrow> bool \<Rightarrow> string \<Rightarrow> kanban_status option \<Rightarrow> kanban_table
     \<Rightarrow> (kanban_error, kanban_task list) outcome" where
  "list_tasks c failed board status_filter t =
     (if failed then Inl Database
      else
        let rows = filter (\<lambda>r. rt_board_id r = board
              \<and> (case status_filter of None \<Rightarrow> True | Some s \<Rightarrow> rt_status r = kanban_status_str s)) t
        in try_map (\<lambda>r. ok_or (map_row c r) Database)
             (sort_key (\<lambda>r. (rt_priority r, rt_created_at r)) rows))"

definition quoted :: "string \<Rightarrow> string" where
  "quoted s = CHR 0x27 # s @ [CHR 0x27]"

text \<open>The loop over the dependencies of a task that is being started.\<close>

fun check_dependencies ::
  "json_codec \<Rightarrow> faults \<Rightarrow> nat \<Rightarrow> string list \<Rightarrow> kanban_table \<Rightarrow> (kanban_error, unit) outcome" where
  "check_dependencies c f k [] t = Inr ()"
| "check_dependencies c f k (dep # deps) t =
     and_then (get_task c (f k) dep t) (\<lambda>dep_task.
     case dep_task of
       Some d \<Rightarrow>
         if kt_status d = Done then check_dependencies c f (Suc k) deps t
         else Inl (InvalidDependency (''dependency task '' @ quoted dep @ '' is not completed yet''))
     | None \<Rightarrow> Inl (InvalidDependency (''dependency task '' @ quoted dep @ '' does not exist'')))"

definition update_status ::
  "json_codec \<Rightarrow> faults \<Rightarrow> string \<Rightarrow> kanban_status \<Rightarrow> string option \<Rightarrow> u64 \<Rightarrow> kanban_table
     \<Rightarrow> (kanban_error, kanban_task) outcome \<times> kanban_table" where
  "update_status c f i new_status worker now t =
     (case get_task c (f 0) i t of
        Inl e \<Rightarrow> (Inl e, t)
      | Inr None \<Rightarrow> (Inl (TaskNotFound i), t)
      | Inr (Some task) \<Rightarrow>
          (case (if new_status = InProgress \<and> kt_dependencies task \<noteq> []
                 then check_dependencies c f 2 (kt_dependencies task) t else Inr ()) of
             Inl e \<Rightarrow> (Inl e, t)
           | Inr _ \<Rightarrow>
               let task = task\<lparr>kt_status := new_status, kt_updated_at := now\<rparr>;
                   task = (case worker of Some w \<Rightarrow> task\<lparr>kt_assignee := Some w\<rparr> | None \<Rightarrow> task);
                   task = (if new_status = InProgress then task\<lparr>kt_last_heartbeat := Some now\<rparr> else task)
               in (case (opt_i64 (kt_last_heartbeat task), i64_of_u64 (kt_updated_at task)) of
                     (Some hb, Some updated) \<Rightarrow>
                       if f 1 then (Inl Database, t)
                       else (Inr task,
                             row_update (\<lambda>r. rt_id r = kt_id task)
                               (\<lambda>r. r\<lparr>rt_status := kanban_status_str (kt_status task),
                                     rt_assignee := kt_assignee task, rt_last_heartbeat := hb,
                                     rt_updated_at := updated\<rparr>) t)
                   | _ \<Rightarrow> (Inl Database, t))))"

definition heartbeat ::
  "json_codec \<Rightarrow> faults \<Rightarrow> string \<Rightarrow> string \<Rightarrow> u64 \<Rightarrow> kanban_table
     \<Rightarrow> (kanban_error, kanban_task) outcome \<times> kanban_table" where
  "heartbeat c f i worker now t =
     (case get_task c (f 0) i t of
        Inl e \<Rightarrow> (Inl e, t)
      | Inr None \<Rightarrow> (Inl (TaskNotFound i), t)
      | Inr (Some task) \<Rightarrow>
          if kt_status task \<noteq> InProgress
          then (Inl (Validation (''cannot heartbeat task '' @ quoted i @ '' with status ''
                   @ quoted (kanban_status_debug (kt_status task)) @ '' (must be in_progress)'')), t)
          else
            let task = task\<lparr>kt_last_heartbeat := Some now, kt_updated_at := now, kt_assignee := Some worker\<rparr>
            in (case i64_of_u64 now of
                  None \<Rightarrow> (Inl Database, t)
                | Some n \<Rightarrow>
                    if f 1 then (Inl Database, t)
                    else (Inr task,
                          row_update (\<lambda>r. rt_id r = kt_id task)
                            (\<lambda>r. r\<lparr>rt_last_heartbeat := Some n, rt_updated_at := n,
                                  rt_assignee := kt_assignee task\<rparr>) t)))"

text \<open>The new state of a task that is found dead.\<close>

definition bury :: "u64 \<Rightarrow> kanban_task \<Rightarrow> kanban_task" where
  "bury now task =
     (let task = task\<lparr>kt_retry_count := kt_retry_count task + 1, kt_updated_at := now,
                      kt_last_heartbeat := None\<rparr> in
      if kt_retry_count task \<ge> kt_max_retries task
      then task\<lparr>kt_status := Blocked,
                kt_labels := (if List.member (kt_labels task) ''zombie_exhausted'' then kt_labels task
                              else kt_labels task @ [''zombie_exhausted''])\<rparr>
      else task\<lparr>kt_status := Todo\<rparr>)"

fun reclaim_loop ::
  "json_codec \<Rightarrow> faults \<Rightarrow> nat \<Rightarrow> u64 \<Rightarrow> u64 \<Rightarrow> kanban_task list \<Rightarrow> reclaim_report \<Rightarrow> kanban_table
     \<Rightarrow> (kanban_error, reclaim_report) outcome \<times> kanban_table" where
  "reclaim_loop c f k timeout now [] rep t = (Inr rep, t)"
| "reclaim_loop c f k timeout now (task # tasks) rep t =
     (if is_zombie now timeout task then
        let task = bury now task;
            rep = (if kt_status task = Blocked then rep\<lparr>rp_blocked := rp_blocked rep @ [kt_id task]\<rparr>
                   else rep\<lparr>rp_reclaimed := rp_reclaimed rep @ [kt_id task]\<rparr>)
        in (case (i64_of_u64 (kt_retry_count task), i64_of_u64 (kt_updated_at task)) of
              (Some retry, Some updated) \<Rightarrow>
                if f k then (Inl Database, t)
                else reclaim_loop c f (Suc k) timeout now tasks rep
                       (row_update (\<lambda>r. rt_id r = kt_id task)
                         (\<lambda>r. r\<lparr>rt_status := kanban_status_str (kt_status task), rt_retry_count := retry,
                               rt_last_heartbeat := None, rt_updated_at := updated,
                               rt_labels_json := write_list c (kt_labels task)\<rparr>) t)
            | _ \<Rightarrow> (Inl Database, t))
      else reclaim_loop c f k timeout now tasks rep t)"

definition reclaim_zombies ::
  "json_codec \<Rightarrow> faults \<Rightarrow> string \<Rightarrow> u64 \<Rightarrow> u64 \<Rightarrow> kanban_table
     \<Rightarrow> (kanban_error, reclaim_report) outcome \<times> kanban_table" where
  "reclaim_zombies c f board timeout now t =
     (case list_tasks c (f 0) board (Some InProgress) t of
        Inl e \<Rightarrow> (Inl e, t)
      | Inr tasks \<Rightarrow>
          if f 1 then (Inl Database, t)
          else reclaim_loop c f 2 timeout now tasks \<lparr>rp_reclaimed = [], rp_blocked = []\<rparr> t)"

definition delete_task :: "faults \<Rightarrow> string \<Rightarrow> kanban_table \<Rightarrow> (kanban_error, bool) outcome \<times> kanban_table" where
  "delete_task f i t =
     (if f 0 then (Inl Database, t)
      else (Inr (rows_changed (\<lambda>r. rt_id r = i) t > 0), row_delete rt_id i t))"

definition get_board :: "json_codec \<Rightarrow> bool \<Rightarrow> string \<Rightarrow> u64 \<Rightarrow> kanban_table \<Rightarrow> (kanban_error, kanban_board) outcome" where
  "get_board c failed board now t =
     and_then (list_tasks c failed board None t) (\<lambda>tasks.
     Inr \<lparr>kb_id = board, kb_name = ''Board '' @ board,
          kb_description = ''Durable multi-agent task execution board'',
          kb_tasks = tasks, kb_created_at = now\<rparr>)"

section \<open>Rows and tasks\<close>

lemma parse_kanban_status_str [simp]: "parse_kanban_status (kanban_status_str s) = Some s"
  by (cases s; hypsubst; code_simp)

lemma kanban_status_str_inject [simp]: "kanban_status_str a = kanban_status_str b \<longleftrightarrow> a = b"
  by (metis option.inject parse_kanban_status_str)

lemma opt_roundtrip: "opt_i64 v = Some w \<Longrightarrow> opt_u64 w = Some v"
  by (cases v) (auto simp: opt_i64_def opt_u64_def)

lemma read_write_list [simp]: "json_faithful c \<Longrightarrow> read_list c (write_list c xs) = xs"
  unfolding json_faithful_def read_list_def write_list_def by (metis option.simps(5))

lemma map_row_encode:
  "json_faithful c \<Longrightarrow> encode_task c t = Some r \<Longrightarrow> map_row c r = Some t"
  by (auto simp: encode_task_def map_row_def opt_roundtrip split: option.splits)

lemma encode_task_id: "encode_task c t = Some r \<Longrightarrow> rt_id r = kt_id t \<and> rt_status r = kanban_status_str (kt_status t)"
  by (auto simp: encode_task_def split: option.splits)

lemma map_row_fields:
  "map_row c r = Some t \<Longrightarrow> kt_id t = rt_id r \<and> kt_board_id t = rt_board_id r
     \<and> kt_status t = (case parse_kanban_status (rt_status r) of Some s \<Rightarrow> s | None \<Rightarrow> Todo)
     \<and> opt_u64 (rt_last_heartbeat r) = Some (kt_last_heartbeat t)"
  by (auto simp: map_row_def Let_def split: option.splits prod.splits)

text \<open>Writing columns of a row is seen as an update of the task it stands for.\<close>

lemma map_row_status:
  assumes "map_row c r = Some t" and "opt_i64 hb = Some h" and "i64_of_u64 now = Some n"
  shows "map_row c (r\<lparr>rt_status := kanban_status_str s, rt_assignee := w, rt_last_heartbeat := h, rt_updated_at := n\<rparr>)
    = Some (t\<lparr>kt_status := s, kt_updated_at := now, kt_assignee := w, kt_last_heartbeat := hb\<rparr>)"
  using assms opt_roundtrip [OF assms(2)] by (auto simp: map_row_def Let_def split: option.splits)

lemma map_row_heartbeat:
  assumes "map_row c r = Some t" and "i64_of_u64 now = Some n"
  shows "map_row c (r\<lparr>rt_last_heartbeat := Some n, rt_updated_at := n, rt_assignee := w\<rparr>)
    = Some (t\<lparr>kt_last_heartbeat := Some now, kt_updated_at := now, kt_assignee := w\<rparr>)"
  using assms by (auto simp: map_row_def Let_def opt_u64_def split: option.splits)

lemma map_row_reclaim:
  assumes "map_row c r = Some t" and "json_faithful c"
    and "i64_of_u64 retry = Some k" and "i64_of_u64 now = Some n"
  shows "map_row c (r\<lparr>rt_status := kanban_status_str s, rt_retry_count := k, rt_last_heartbeat := None,
      rt_updated_at := n, rt_labels_json := write_list c ls\<rparr>)
    = Some (t\<lparr>kt_status := s, kt_retry_count := retry, kt_last_heartbeat := None,
      kt_updated_at := now, kt_labels := ls\<rparr>)"
  using assms by (auto simp: map_row_def Let_def opt_u64_def split: option.splits)

lemma get_task_Some_iff:
  "get_task c b i t = Inr (Some task) \<longleftrightarrow> \<not> b \<and> (\<exists>r. row_lookup rt_id i t = Some r \<and> map_row c r = Some task)"
  by (auto simp: get_task_def split: option.splits)

lemma get_task_id: "get_task c b i t = Inr (Some task) \<Longrightarrow> kt_id task = i"
  by (auto simp: get_task_Some_iff dest: row_lookup_Some map_row_fields)

text \<open>A write addressed to one row, and what the readers see of it.\<close>

lemma row_write_one:
  assumes "\<And>r. rt_id (u r) = rt_id r"
  shows "row_lookup rt_id j (row_update (\<lambda>r. rt_id r = i) u t) =
    (if j = i then map_option u (row_lookup rt_id j t) else row_lookup rt_id j t)"
  using sql.update_one [where key = rt_id and cond = "\<lambda>_. True" and u = u and k = j and k' = i and t = t] assms
  by simp

lemma get_task_write:
  assumes "\<And>r. rt_id (u r) = rt_id r" and "j \<noteq> i"
  shows "get_task c b j (row_update (\<lambda>r. rt_id r = i) u t) = get_task c b j t"
  using assms by (simp add: get_task_def row_write_one)

lemma kanban_dependencies_done:
  "check_dependencies c f k deps t = Inr u \<Longrightarrow> d \<in> set deps \<Longrightarrow>
     \<exists>e. get_task c False d t = Inr (Some e) \<and> kt_status e = Done"
proof (induction deps arbitrary: k)
  case (Cons x deps)
  then show ?case by (auto simp: get_task_Some_iff split: option.splits if_splits)
qed simp

section \<open>The table invariant\<close>

datatype kanban_op =
  CreateTaskOp faults kanban_task
| UpdateStatusOp faults string kanban_status "string option" u64
| HeartbeatOp faults string string u64
| ReclaimOp faults string u64 u64
| DeleteTaskOp faults string

fun exec_kanban_op :: "json_codec \<Rightarrow> kanban_op \<Rightarrow> kanban_table \<Rightarrow> kanban_table" where
  "exec_kanban_op c (CreateTaskOp f task) t = snd (create_task c f task t)"
| "exec_kanban_op c (UpdateStatusOp f i s w now) t = snd (update_status c f i s w now t)"
| "exec_kanban_op c (HeartbeatOp f i w now) t = snd (heartbeat c f i w now t)"
| "exec_kanban_op c (ReclaimOp f board timeout now) t = snd (reclaim_zombies c f board timeout now t)"
| "exec_kanban_op c (DeleteTaskOp f i) t = snd (delete_task f i t)"

text \<open>Identifiers are unique and every status is one the engine writes.\<close>

definition board_ok :: "kanban_table \<Rightarrow> bool" where
  "board_ok t \<longleftrightarrow> keyed rt_id t \<and> (\<forall>r \<in> set t. \<exists>s. rt_status r = kanban_status_str s)"

lemma board_ok_update:
  assumes "board_ok t" and "\<And>r. rt_id (u r) = rt_id r"
    and "\<And>r. r \<in> set t \<Longrightarrow> \<exists>s. rt_status (u r) = kanban_status_str s"
  shows "board_ok (row_update cond u t)"
proof -
  have "keyed rt_id (row_update cond u t)" using assms(1,2) by (intro keyed_update) (auto simp: board_ok_def)
  moreover have "\<exists>s. rt_status r = kanban_status_str s" if "r \<in> set (row_update cond u t)" for r
    using that assms(1,3) by (auto simp: row_update_def board_ok_def)
  ultimately show ?thesis by (simp add: board_ok_def)
qed

lemma create_task_ok: "board_ok t \<Longrightarrow> board_ok (snd (create_task c f task t))"
  unfolding create_task_def board_ok_def
  by (auto simp: row_insert_def dest: encode_task_id intro: keyed_insert [unfolded row_insert_def] split: option.splits)

lemma update_status_table:
  "snd (update_status c f i s w now t) = t
   \<or> (\<exists>a h n. snd (update_status c f i s w now t) = row_update (\<lambda>r. rt_id r = i)
        (\<lambda>r. r\<lparr>rt_status := kanban_status_str s, rt_assignee := a, rt_last_heartbeat := h, rt_updated_at := n\<rparr>) t)"
proof (cases "fst (update_status c f i s w now t)")
  case (Inl e)
  then show ?thesis unfolding update_status_def Let_def by (auto split: sum.splits option.splits if_splits)
next
  case (Inr task)
  then show ?thesis unfolding update_status_def Let_def
    by (auto dest!: get_task_id split: sum.splits option.splits if_splits)
qed

lemma reclaim_loop_board_ok:
  "board_ok t \<Longrightarrow> board_ok (snd (reclaim_loop c f k timeout now tasks rep t))"
proof (induction tasks arbitrary: k rep t)
  case (Cons task tasks)
  then show ?case
    by (auto simp: Let_def simp del: kanban_status_str.simps intro!: Cons.IH board_ok_update split: option.splits)
qed simp

lemma exec_kanban_ok:
  assumes "board_ok t"
  shows "board_ok (exec_kanban_op c x t)"
proof (cases x)
  case (UpdateStatusOp f i s w now)
  then show ?thesis using update_status_table [of c f i s w now t] assms by (auto intro!: board_ok_update)
next
  case (HeartbeatOp f i w now)
  then show ?thesis using assms
    by (auto simp: heartbeat_def Let_def board_ok_def [THEN iffD1] intro!: board_ok_update
        split: sum.splits option.splits)
next
  case (ReclaimOp f board timeout now)
  then show ?thesis using assms by (auto simp: reclaim_zombies_def intro: reclaim_loop_board_ok split: sum.splits)
next
  case (DeleteTaskOp f i)
  then show ?thesis using assms
    by (auto simp: delete_task_def board_ok_def intro: keyed_delete) (auto simp: row_delete_def)
qed (use assms create_task_ok in auto)

lemma kanban_run_ok: "board_ok (run_ops (exec_kanban_op c) xs [])"
proof (rule run_ops_invariant [where I = board_ok])
  show "board_ok []" by (simp add: board_ok_def)
qed (rule exec_kanban_ok)


section \<open>A reclaim pass\<close>

fun on_task ::
  "(kanban_task \<Rightarrow> kanban_task) \<Rightarrow> (kanban_error, kanban_task option) outcome
     \<Rightarrow> (kanban_error, kanban_task option) outcome" where
  "on_task g (Inr (Some task)) = Inr (Some (g task))"
| "on_task g r = r"

lemma on_task_id: "(\<And>task. r = Inr (Some task) \<Longrightarrow> g task = task) \<Longrightarrow> on_task g r = r"
  by (cases "(g, r)" rule: on_task.cases) auto

lemma on_task_cong:
  "(\<And>task. r = Inr (Some task) \<Longrightarrow> g task = h task) \<Longrightarrow> on_task g r = on_task h r"
  by (cases "(g, r)" rule: on_task.cases) auto

lemma bury_fields [simp]: "kt_id (bury now task) = kt_id task" "kt_updated_at (bury now task) = now"
  "kt_retry_count (bury now task) = kt_retry_count task + 1"
  by (simp_all add: bury_def Let_def)

lemma bury_as_update:
  "bury now task = task\<lparr>kt_status := kt_status (bury now task), kt_retry_count := kt_retry_count task + 1,
     kt_last_heartbeat := None, kt_updated_at := now, kt_labels := kt_labels (bury now task)\<rparr>"
  by (simp add: bury_def Let_def)

lemma bury_status: "kt_status (bury now task) \<in> {Todo, Blocked}"
  "kt_status (bury now task) = Blocked \<longleftrightarrow> kt_max_retries task \<le> kt_retry_count task + 1"
  by (auto simp: bury_def Let_def)

text \<open>One write of the loop turns the stored task into the buried one.\<close>

lemma bury_write:
  assumes "json_faithful c" and "get_task c False (kt_id task) t = Inr (Some task)"
    and "i64_of_u64 (kt_retry_count (bury now task)) = Some retry" and "i64_of_u64 now = Some n"
  shows "get_task c False (kt_id task) (row_update (\<lambda>r. rt_id r = kt_id task)
      (\<lambda>r. r\<lparr>rt_status := kanban_status_str (kt_status (bury now task)), rt_retry_count := retry,
            rt_last_heartbeat := None, rt_updated_at := n,
            rt_labels_json := write_list c (kt_labels (bury now task))\<rparr>) t) = Inr (Some (bury now task))"
proof -
  from assms(2) obtain r where r: "row_lookup rt_id (kt_id task) t = Some r" "map_row c r = Some task"
    by (auto simp: get_task_Some_iff)
  show ?thesis
    using r(1) map_row_reclaim [OF r(2) assms(1,3,4), where s = "kt_status (bury now task)" and ls = "kt_labels (bury now task)"]
    by (simp add: get_task_Some_iff row_write_one flip: bury_as_update)
qed

lemma reclaim_loop_effect:
  assumes "json_faithful c" and "distinct (map kt_id tasks)"
    and "\<forall>task \<in> set tasks. get_task c False (kt_id task) t = Inr (Some task)"
    and "reclaim_loop c f k timeout now tasks rep t = (Inr rep', t')"
  shows "get_task c False j t' =
      on_task (\<lambda>task. if task \<in> set tasks \<and> is_zombie now timeout task then bury now task else task)
        (get_task c False j t)
    \<and> rp_reclaimed rep' = rp_reclaimed rep
        @ map kt_id (filter (\<lambda>task. is_zombie now timeout task \<and> kt_status (bury now task) \<noteq> Blocked) tasks)
    \<and> rp_blocked rep' = rp_blocked rep
        @ map kt_id (filter (\<lambda>task. is_zombie now timeout task \<and> kt_status (bury now task) = Blocked) tasks)"
  using assms(2-4)
proof (induction tasks arbitrary: k rep t)
  case Nil
  then show ?case by (simp add: on_task_id)
next
  case (Cons task tasks)
  have stored: "get_task c False (kt_id task) t = Inr (Some task)" using Cons.prems(2) by simp
  have fresh: "task' \<noteq> task" if "kt_id task' \<noteq> kt_id task" for task' using that by auto
  show ?case
  proof (cases "is_zombie now timeout task")
    case False
    then have loop: "reclaim_loop c f k timeout now tasks rep t = (Inr rep', t')" using Cons.prems(3) by simp
    have "distinct (map kt_id tasks)" "\<forall>x \<in> set tasks. get_task c False (kt_id x) t = Inr (Some x)"
      using Cons.prems(1,2) by auto
    note Cons.IH [OF this loop]
    moreover have "on_task (\<lambda>x. if x \<in> set tasks \<and> is_zombie now timeout x then bury now x else x)
          (get_task c False j t)
        = on_task (\<lambda>x. if x \<in> set (task # tasks) \<and> is_zombie now timeout x then bury now x else x)
          (get_task c False j t)"
      using False by (intro on_task_cong) auto
    ultimately show ?thesis using False by auto
  next
    case True
    let ?rep = "if kt_status (bury now task) = Blocked then rep\<lparr>rp_blocked := rp_blocked rep @ [kt_id task]\<rparr>
                   else rep\<lparr>rp_reclaimed := rp_reclaimed rep @ [kt_id task]\<rparr>"
    from True Cons.prems(3) obtain retry n where
      nums: "i64_of_u64 (kt_retry_count (bury now task)) = Some retry" "i64_of_u64 now = Some n"
      by (auto simp: Let_def split: option.splits)
    let ?t = "row_update (\<lambda>r. rt_id r = kt_id task)
      (\<lambda>r. r\<lparr>rt_status := kanban_status_str (kt_status (bury now task)), rt_retry_count := retry,
            rt_last_heartbeat := None, rt_updated_at := n,
            rt_labels_json := write_list c (kt_labels (bury now task))\<rparr>) t"
    have loop: "reclaim_loop c f (Suc k) timeout now tasks ?rep ?t = (Inr rep', t')"
      using True Cons.prems(3) nums by (auto simp: Let_def split: if_splits)
    have here: "get_task c False (kt_id task) ?t = Inr (Some (bury now task))"
      by (rule bury_write [OF assms(1) stored nums])
    have other: "get_task c False i ?t = get_task c False i t" if "i \<noteq> kt_id task" for i
      by (rule get_task_write) (use that in auto)
    have "get_task c False (kt_id x) ?t = Inr (Some x)" if "x \<in> set tasks" for x
    proof -
      have "kt_id x \<noteq> kt_id task" using that Cons.prems(1) imageI [of x "set tasks" kt_id] by fastforce
      then show ?thesis using other Cons.prems(2) that by simp
    qed
    then have tasks: "\<forall>x \<in> set tasks. get_task c False (kt_id x) ?t = Inr (Some x)" by blast
    have dist: "distinct (map kt_id tasks)" using Cons.prems(1) by simp
    note IH = Cons.IH [OF dist tasks loop]
    have "get_task c False j t' =
      on_task (\<lambda>x. if x \<in> set (task # tasks) \<and> is_zombie now timeout x then bury now x else x) (get_task c False j t)"
    proof (cases "j = kt_id task")
      case j: True
      have "bury now task \<notin> set tasks" using Cons.prems(1) by (metis bury_fields(1) distinct.simps(2) image_eqI list.set_map list.simps(9))
      then show ?thesis using IH Cons.prems(1) here stored j True by simp
    next
      case False
      then show ?thesis using IH Cons.prems(1) other
        by (auto intro!: on_task_cong dest: get_task_id)
    qed
    then show ?thesis using IH Cons.prems(1) True by auto
  qed
qed

lemma list_tasks_rows:
  assumes "list_tasks c b board flt t = Inr tasks"
  shows "\<exists>rows. set rows = {r \<in> set t. rt_board_id r = board
      \<and> (case flt of None \<Rightarrow> True | Some s \<Rightarrow> rt_status r = kanban_status_str s)}
    \<and> try_map (\<lambda>r. ok_or (map_row c r) Database) rows = Inr tasks
    \<and> (distinct (map rt_id t) \<longrightarrow> distinct (map rt_id rows))
    \<and> sorted (map (\<lambda>r. (rt_priority r, rt_created_at r)) rows)"
proof -
  let ?rows = "filter (\<lambda>r. rt_board_id r = board
      \<and> (case flt of None \<Rightarrow> True | Some s \<Rightarrow> rt_status r = kanban_status_str s)) t"
  let ?sorted = "sort_key (\<lambda>r. (rt_priority r, rt_created_at r)) ?rows"
  have "distinct (map rt_id ?sorted)" if "distinct (map rt_id t)"
    using distinct_map_filter [OF that] by (simp add: distinct_map)
  then show ?thesis using assms by (intro exI [of _ ?sorted]) (auto simp: list_tasks_def split: if_splits)
qed

lemma try_map_map_row:
  "try_map (\<lambda>r. ok_or (map_row c r) Database) rows = Inr tasks \<Longrightarrow>
     map kt_id tasks = map rt_id rows
   \<and> (\<forall>task. task \<in> set tasks \<longleftrightarrow> (\<exists>r \<in> set rows. map_row c r = Some task))"
  by (induction rows arbitrary: tasks) (auto split: sum.splits simp: ok_or_Inl_iff dest: map_row_fields)

lemma in_progress_listed:
  assumes "board_ok t" and "list_tasks c b board (Some InProgress) t = Inr tasks"
  shows "distinct (map kt_id tasks)"
    and "task \<in> set tasks \<longleftrightarrow> get_task c False (kt_id task) t = Inr (Some task)
      \<and> kt_board_id task = board \<and> kt_status task = InProgress"
proof -
  from list_tasks_rows [OF assms(2)] obtain rows where
    rows: "set rows = {r \<in> set t. rt_board_id r = board \<and> rt_status r = kanban_status_str InProgress}"
    and tasks: "try_map (\<lambda>r. ok_or (map_row c r) Database) rows = Inr tasks"
    and dist: "distinct (map rt_id rows)" using assms(1) by (auto simp: board_ok_def keyed_def)
  note m = try_map_map_row [OF tasks]
  show "distinct (map kt_id tasks)" using m dist by simp
  have key: "keyed rt_id t" using assms(1) by (simp add: board_ok_def)
  have status: "kt_status task = InProgress \<longleftrightarrow> rt_status r = kanban_status_str InProgress"
    if "r \<in> set t" "map_row c r = Some task" for r
    using that assms(1) map_row_fields [OF that(2)] by (auto simp: board_ok_def simp del: kanban_status_str.simps)
  have stored: "get_task c False (kt_id task) t = Inr (Some task) \<longleftrightarrow> (\<exists>r \<in> set t. map_row c r = Some task)"
    unfolding get_task_Some_iff row_lookup_Some_iff [OF key] using map_row_fields by metis
  have board: "kt_board_id task = board \<longleftrightarrow> rt_board_id r = board" if "map_row c r = Some task" for r
    using map_row_fields [OF that] by simp
  have "(\<exists>r \<in> set rows. map_row c r = Some task) \<longleftrightarrow>
      (\<exists>r \<in> set t. map_row c r = Some task) \<and> kt_board_id task = board \<and> kt_status task = InProgress"
    unfolding rows mem_Collect_eq using board status by blast
  then show "task \<in> set tasks \<longleftrightarrow> get_task c False (kt_id task) t = Inr (Some task)
      \<and> kt_board_id task = board \<and> kt_status task = InProgress"
    using m stored by simp
qed

lemma zombie_in_progress: "is_zombie now timeout task \<Longrightarrow> kt_status task = InProgress"
  by (auto simp: is_zombie_def split: if_splits)

lemma reclaim_loop_untouched:
  assumes "\<forall>task \<in> set tasks. is_zombie now timeout task \<longrightarrow> kt_id task \<noteq> i"
  shows "row_lookup rt_id i (snd (reclaim_loop c f k timeout now tasks rep t)) = row_lookup rt_id i t"
  using assms
proof (induction tasks arbitrary: k rep t)
  case (Cons task tasks)
  then show ?case by (auto simp: Let_def row_write_one split: option.splits)
qed simp

lemma heartbeat_ok:
  assumes "heartbeat c f i worker now t = (Inr task, t')"
  shows "\<exists>old n. get_task c False i t = Inr (Some old) \<and> kt_status old = InProgress \<and> i64_of_u64 now = Some n
    \<and> task = old\<lparr>kt_last_heartbeat := Some now, kt_updated_at := now, kt_assignee := Some worker\<rparr>
    \<and> t' = row_update (\<lambda>r. rt_id r = i) (\<lambda>r. r\<lparr>rt_last_heartbeat := Some n, rt_updated_at := n,
          rt_assignee := Some worker\<rparr>) t"
proof -
  from assms obtain old where old: "get_task c (f 0) i t = Inr (Some old)"
    by (auto simp: heartbeat_def split: sum.splits option.splits)
  moreover from old have "kt_id old = i" "get_task c False i t = Inr (Some old)"
    using get_task_id [OF old] by (auto simp: get_task_Some_iff)
  ultimately show ?thesis using assms
    by (auto simp: heartbeat_def Let_def split: option.splits if_splits)
qed


section \<open>Properties\<close>

text \<open>Creating a task and reading it gives the task back, on any table: when the engine accepts a
  task, \<open>get_task\<close> returns exactly it, numbers, lists and status included, and every other task
  reads as before.\<close>

lemma create_get_roundtrip:
  assumes "json_faithful c" and "create_task c f task t = (Inr task', t')"
  shows "task' = task \<and> get_task c False (kt_id task) t' = Inr (Some task)
    \<and> (j \<noteq> kt_id task \<longrightarrow> get_task c False j t' = get_task c False j t)"
proof -
  from assms(2) obtain row where row: "encode_task c task = Some row" "row_lookup rt_id (rt_id row) t = None"
    "t' = row_insert row t" "task' = task"
    by (auto simp: create_task_def split: if_splits option.splits)
  with encode_task_id [OF row(1)] map_row_encode [OF assms(1) row(1)] show ?thesis
    by (auto simp: get_task_def split: option.splits)
qed

text \<open>A concrete writer and reader for lists of strings: every character is preceded by a dot, every
  string ends with a comma.\<close>

definition demo_write :: "string list \<Rightarrow> string option" where
  "demo_write xs = Some (concat (map (\<lambda>x. concat (map (\<lambda>ch. [CHR ''.'', ch]) x) @ [CHR '','']) xs))"

fun demo_read_from :: "string \<Rightarrow> string \<Rightarrow> string list option" where
  "demo_read_from acc [] = (if acc = [] then Some [] else None)"
| "demo_read_from acc (a # s) =
     (if a = CHR '','' then map_option (\<lambda>xs. rev acc # xs) (demo_read_from [] s)
      else case s of [] \<Rightarrow> None | ch # s' \<Rightarrow> demo_read_from (ch # acc) s')"

definition demo_codec :: json_codec where
  "demo_codec = \<lparr>js_write = demo_write, js_read = demo_read_from []\<rparr>"

lemma demo_read_string:
  "demo_read_from acc (concat (map (\<lambda>ch. [CHR ''.'', ch]) x) @ CHR '','' # s)
     = map_option (\<lambda>xs. (rev acc @ x) # xs) (demo_read_from [] s)"
  by (induction x arbitrary: acc) auto

lemma demo_codec_faithful: "json_faithful demo_codec"
proof -
  have "demo_read_from [] (concat (map (\<lambda>x. concat (map (\<lambda>ch. [CHR ''.'', ch]) x) @ [CHR '','']) xs)) = Some xs" for xs
    by (induction xs) (auto simp: demo_read_string)
  then show ?thesis by (simp add: json_faithful_def demo_codec_def demo_write_def)
qed

definition demo_task :: kanban_task where
  "demo_task = new_task ''t-1'' ''b-main'' ''Plan migration'' ''design'' 9 None [] 100"

lemma demo_create:
  "\<exists>t'. create_task demo_codec no_faults demo_task [] = (Inr demo_task, t')"
  by (simp add: create_task_def demo_task_def new_task_def encode_task_def opt_i64_def no_faults_def
      i64_of_u64_def row_lookup_def blank_visible visible_def)

lemma create_get_roundtrip_witness:
  "json_faithful demo_codec \<and> (\<exists>t'. create_task demo_codec no_faults demo_task [] = (Inr demo_task, t')
     \<and> get_task demo_codec False ''t-1'' t' = Inr (Some demo_task))"
proof -
  obtain t' where t': "create_task demo_codec no_faults demo_task [] = (Inr demo_task, t')"
    using demo_create by blast
  have "kt_id demo_task = ''t-1''" by (simp add: demo_task_def new_task_def)
  with create_get_roundtrip [OF demo_codec_faithful t'] t' demo_codec_faithful show ?thesis by auto
qed

text \<open>A change of status. When \<open>update_status\<close> succeeds, the task reads with the new status, the
  clock as its update time and the worker as its assignee, all other tasks read as before, and a
  task that was started has a fresh heartbeat and only dependencies that exist and are done.\<close>

lemma update_status_effect:
  assumes "update_status c f i s worker now t = (Inr task, t')"
  shows "get_task c False i t' = Inr (Some task) \<and> kt_status task = s \<and> kt_updated_at task = now
    \<and> (worker \<noteq> None \<longrightarrow> kt_assignee task = worker)
    \<and> (j \<noteq> i \<longrightarrow> get_task c False j t' = get_task c False j t)
    \<and> (s = InProgress \<longrightarrow> kt_last_heartbeat task = Some now
        \<and> (\<forall>d \<in> set (kt_dependencies task). \<exists>e. get_task c False d t = Inr (Some e) \<and> kt_status e = Done))"
proof -
  from assms obtain old where old: "get_task c (f 0) i t = Inr (Some old)"
    by (auto simp: update_status_def split: sum.splits option.splits)
  then have i: "kt_id old = i" by (rule get_task_id)
  define hb where "hb = (if s = InProgress then Some now else kt_last_heartbeat old)"
  define w where "w = (case worker of Some x \<Rightarrow> Some x | None \<Rightarrow> kt_assignee old)"
  have task_eq: "task = old\<lparr>kt_status := s, kt_updated_at := now, kt_assignee := w, kt_last_heartbeat := hb\<rparr>"
    and deps: "s = InProgress \<longrightarrow> kt_dependencies old = [] \<or> is_ok (check_dependencies c f 2 (kt_dependencies old) t)"
    and "\<exists>h n. opt_i64 hb = Some h \<and> i64_of_u64 now = Some n \<and>
      t' = row_update (\<lambda>r. rt_id r = i) (\<lambda>r. r\<lparr>rt_status := kanban_status_str s, rt_assignee := w,
             rt_last_heartbeat := h, rt_updated_at := n\<rparr>) t"
    using assms old i unfolding update_status_def Let_def hb_def w_def
    by (auto split: sum.splits option.splits if_splits)
  then obtain h n where nums: "opt_i64 hb = Some h" "i64_of_u64 now = Some n"
    and t': "t' = row_update (\<lambda>r. rt_id r = i) (\<lambda>r. r\<lparr>rt_status := kanban_status_str s, rt_assignee := w,
             rt_last_heartbeat := h, rt_updated_at := n\<rparr>) t" by blast
  from old obtain r where r: "row_lookup rt_id i t = Some r" "map_row c r = Some old"
    by (auto simp: get_task_Some_iff)
  have "get_task c False i t' = Inr (Some task)"
    using r(1) map_row_status [OF r(2) nums, where s = s and w = w] by (simp add: t' task_eq get_task_Some_iff row_write_one)
  moreover have "get_task c False j t' = get_task c False j t" if "j \<noteq> i"
    unfolding t' by (rule get_task_write) (use that in auto)
  moreover have "\<exists>e. get_task c False d t = Inr (Some e) \<and> kt_status e = Done"
    if "s = InProgress" "d \<in> set (kt_dependencies task)" for d
    using deps that kanban_dependencies_done [of c f 2 "kt_dependencies old" t _ d] by (auto simp: task_eq is_ok_iff)
  ultimately show ?thesis by (auto simp: task_eq hb_def w_def)
qed

text \<open>C40: a reclaim pass that runs alone. On any table the engine can produce, a successful pass buries exactly the
  tasks of the board that are in progress and silent for the timeout, reading and writing the
  database as a map over tasks would: every other task reads as before. A buried task counts one
  more retry and loses its heartbeat; it returns to the queue while its retries are below their
  maximum, and is blocked with the label \<open>zombie_exhausted\<close> otherwise; the report lists which.\<close>

theorem reclaim_zombies_effect:
  assumes "json_faithful c" and "t = run_ops (exec_kanban_op c) xs []"
    and "reclaim_zombies c f board timeout now t = (Inr rep, t')"
  shows "get_task c False j t' =
      on_task (\<lambda>task. if kt_board_id task = board \<and> is_zombie now timeout task then bury now task else task)
        (get_task c False j t)
    \<and> (j \<in> set (rp_reclaimed rep) \<longleftrightarrow> (\<exists>task. get_task c False j t = Inr (Some task)
        \<and> kt_board_id task = board \<and> is_zombie now timeout task \<and> kt_retry_count task + 1 < kt_max_retries task))
    \<and> (j \<in> set (rp_blocked rep) \<longleftrightarrow> (\<exists>task. get_task c False j t = Inr (Some task)
        \<and> kt_board_id task = board \<and> is_zombie now timeout task \<and> kt_max_retries task \<le> kt_retry_count task + 1))"
proof -
  have ok: "board_ok t" unfolding assms(2) by (rule kanban_run_ok)
  from assms(3) obtain tasks where tasks: "list_tasks c (f 0) board (Some InProgress) t = Inr tasks"
    and loop: "reclaim_loop c f 2 timeout now tasks \<lparr>rp_reclaimed = [], rp_blocked = []\<rparr> t = (Inr rep, t')"
    by (auto simp: reclaim_zombies_def split: sum.splits if_splits)
  note listed = in_progress_listed [OF ok tasks]
  then have "\<forall>task \<in> set tasks. get_task c False (kt_id task) t = Inr (Some task)" by blast
  note effect = reclaim_loop_effect [OF assms(1) listed(1) this loop, of j]
  have zombie: "task \<in> set tasks \<and> is_zombie now timeout task \<longleftrightarrow>
      get_task c False (kt_id task) t = Inr (Some task) \<and> kt_board_id task = board \<and> is_zombie now timeout task" for task
    using listed(2) zombie_in_progress by blast
  have stored: "get_task c False j t = Inr (Some task) \<longleftrightarrow>
      kt_id task = j \<and> get_task c False (kt_id task) t = Inr (Some task)" for task
    using get_task_id by blast
  have "get_task c False j t' =
      on_task (\<lambda>task. if kt_board_id task = board \<and> is_zombie now timeout task then bury now task else task)
        (get_task c False j t)"
    unfolding effect [THEN conjunct1] by (rule on_task_cong) (use zombie get_task_id in metis)
  moreover have "j \<in> set (rp_reclaimed rep) \<longleftrightarrow> (\<exists>task. kt_id task = j \<and> (task \<in> set tasks \<and> is_zombie now timeout task)
      \<and> kt_status (bury now task) \<noteq> Blocked)"
    "j \<in> set (rp_blocked rep) \<longleftrightarrow> (\<exists>task. kt_id task = j \<and> (task \<in> set tasks \<and> is_zombie now timeout task)
      \<and> kt_status (bury now task) = Blocked)"
    using effect by auto
  ultimately show ?thesis unfolding zombie bury_status(2) stored not_le by blast
qed

text \<open>A heartbeat protects its task. After a heartbeat accepted at some time, a reclaim pass that
  starts before the timeout has run out, on any board, even one that stops half way with a
  database error, leaves the task as the heartbeat wrote it: in progress and owned by the worker.\<close>

lemma heartbeat_prevents_reclaim:
  assumes "t = run_ops (exec_kanban_op c) xs []"
    and "heartbeat c f i worker beat t = (Inr task, t1)"
    and "unat now < unat beat + unat timeout" and "0 < timeout"
  shows "get_task c False i (snd (reclaim_zombies c g board timeout now t1)) = Inr (Some task)
    \<and> kt_status task = InProgress \<and> kt_assignee task = Some worker"
proof -
  from heartbeat_ok [OF assms(2)] obtain old n where old: "get_task c False i t = Inr (Some old)"
      "kt_status old = InProgress" "i64_of_u64 beat = Some n"
    and task: "task = old\<lparr>kt_last_heartbeat := Some beat, kt_updated_at := beat, kt_assignee := Some worker\<rparr>"
    and t1: "t1 = row_update (\<lambda>r. rt_id r = i) (\<lambda>r. r\<lparr>rt_last_heartbeat := Some n, rt_updated_at := n,
          rt_assignee := Some worker\<rparr>) t" by blast
  from old(1) obtain r where r: "row_lookup rt_id i t = Some r" "map_row c r = Some old"
    by (auto simp: get_task_Some_iff)
  have now: "get_task c False i t1 = Inr (Some task)"
    using r(1) map_row_heartbeat [OF r(2) old(3), where w = "Some worker"]
    by (simp add: t1 task get_task_Some_iff row_write_one)
  have "\<not> timeout \<le> saturating_sub now beat"
    using assms(3,4) by (auto simp: word_le_nat_alt word_less_nat_alt word_bounds)
  then have alive: "\<not> is_zombie now timeout task" by (simp add: is_zombie_def task)
  have ok: "board_ok t1"
    using exec_kanban_ok [OF kanban_run_ok, of c "HeartbeatOp f i worker beat" c xs] assms(1,2) by simp
  have "row_lookup rt_id i (snd (reclaim_zombies c g board timeout now t1)) = row_lookup rt_id i t1"
  proof (cases "list_tasks c (g 0) board (Some InProgress) t1")
    case (Inr tasks)
    have "x = task" if "x \<in> set tasks" "kt_id x = i" for x
      using in_progress_listed(2) [OF ok Inr, of x] that now by simp
    then have "\<forall>x \<in> set tasks. is_zombie now timeout x \<longrightarrow> kt_id x \<noteq> i" using alive by blast
    from reclaim_loop_untouched [OF this] Inr show ?thesis by (simp add: reclaim_zombies_def)
  qed (simp add: reclaim_zombies_def)
  then have "get_task c False i (snd (reclaim_zombies c g board timeout now t1)) = Inr (Some task)"
    using now by (simp add: get_task_def)
  then show ?thesis using old(2) by (simp add: task)
qed

definition demo_ops :: "kanban_op list" where
  "demo_ops = [CreateTaskOp no_faults demo_task, UpdateStatusOp no_faults ''t-1'' InProgress (Some ''w'') 200]"

definition demo_table :: "kanban_table" where
  "demo_table = [\<lparr>rt_id = ''t-1'', rt_board_id = ''b-main'', rt_title = ''Plan migration'',
     rt_description = ''design'', rt_status = ''in_progress'', rt_priority = 5, rt_assignee = Some ''w'',
     rt_dependencies_json = [], rt_retry_count = 0, rt_max_retries = 3, rt_last_heartbeat = Some 200,
     rt_created_at = 100, rt_updated_at = 200, rt_labels_json = []\<rparr>]"

lemmas kanban_demo_defs = demo_task_def new_task_def encode_task_def opt_i64_def opt_u64_def no_faults_def
  i64_of_u64_def u64_of_i64_def u8_of_i64_def row_lookup_def demo_codec_def demo_write_def
  write_list_def read_list_def map_row_def row_update_def row_insert_def

lemma parse_kanban_literals [simp]:
  "parse_kanban_status ''todo'' = Some Todo" "parse_kanban_status ''in_progress'' = Some InProgress"
  using parse_kanban_status_str [of Todo] parse_kanban_status_str [of InProgress] by simp_all

lemma demo_created:
  "snd (create_task demo_codec no_faults demo_task []) = [\<lparr>rt_id = ''t-1'', rt_board_id = ''b-main'',
     rt_title = ''Plan migration'', rt_description = ''design'', rt_status = ''todo'', rt_priority = 5,
     rt_assignee = None, rt_dependencies_json = [], rt_retry_count = 0, rt_max_retries = 3,
     rt_last_heartbeat = None, rt_created_at = 100, rt_updated_at = 100, rt_labels_json = []\<rparr>]"
  by (simp add: create_task_def kanban_demo_defs blank_visible visible_def)

lemma demo_updated: "\<exists>task. update_status demo_codec no_faults ''t-1'' InProgress (Some ''w'') 200
    (snd (create_task demo_codec no_faults demo_task [])) = (Inr task, demo_table)"
  unfolding demo_created by (simp add: update_status_def get_task_def demo_table_def kanban_demo_defs)

lemma demo_run: "demo_table = run_ops (exec_kanban_op demo_codec) demo_ops []"
  using demo_updated by (auto simp: demo_ops_def)

lemma update_status_effect_witness:
  "\<exists>task. update_status demo_codec no_faults ''t-1'' InProgress (Some ''w'') 200
      (snd (create_task demo_codec no_faults demo_task [])) = (Inr task, demo_table)
    \<and> kt_status task = InProgress \<and> kt_last_heartbeat task = Some 200"
proof -
  obtain task where task: "update_status demo_codec no_faults ''t-1'' InProgress (Some ''w'') 200
    (snd (create_task demo_codec no_faults demo_task [])) = (Inr task, demo_table)" using demo_updated by blast
  show ?thesis using update_status_effect [OF task] task by blast
qed

lemma demo_reclaim: "is_ok (fst (reclaim_zombies demo_codec no_faults ''b-main'' 50 300 demo_table))"
  by (simp add: reclaim_zombies_def list_tasks_def demo_table_def kanban_demo_defs is_zombie_def saturating_sub_def
      bury_def Let_def)

theorem reclaim_zombies_effect_witness:
  "json_faithful demo_codec \<and> demo_table = run_ops (exec_kanban_op demo_codec) demo_ops []
   \<and> (\<exists>rep t'. reclaim_zombies demo_codec no_faults ''b-main'' 50 300 demo_table = (Inr rep, t')
        \<and> ''t-1'' \<in> set (rp_reclaimed rep))"
proof -
  obtain rep t' where r: "reclaim_zombies demo_codec no_faults ''b-main'' 50 300 demo_table = (Inr rep, t')"
    using demo_reclaim by (rule is_ok_fst_cases)
  have "\<exists>task. get_task demo_codec False ''t-1'' demo_table = Inr (Some task) \<and> kt_board_id task = ''b-main''
      \<and> is_zombie 300 50 task \<and> kt_retry_count task + 1 < kt_max_retries task"
    by (simp add: get_task_def demo_table_def kanban_demo_defs is_zombie_def saturating_sub_def)
  then have "''t-1'' \<in> set (rp_reclaimed rep)"
    using reclaim_zombies_effect [OF demo_codec_faithful demo_run r, of "''t-1''"] by blast
  then show ?thesis using r demo_codec_faithful demo_run by blast
qed

lemma heartbeat_prevents_reclaim_witness:
  "\<exists>task t1. heartbeat demo_codec no_faults ''t-1'' ''w'' 300 demo_table = (Inr task, t1)
    \<and> get_task demo_codec False ''t-1'' (snd (reclaim_zombies demo_codec no_faults ''b-main'' 50 320 t1)) = Inr (Some task)"
proof -
  have "is_ok (fst (heartbeat demo_codec no_faults ''t-1'' ''w'' 300 demo_table))"
    by (simp add: heartbeat_def get_task_def demo_table_def kanban_demo_defs Let_def)
  then obtain task t1 where h: "heartbeat demo_codec no_faults ''t-1'' ''w'' 300 demo_table = (Inr task, t1)"
    by (rule is_ok_fst_cases)
  show ?thesis
    using heartbeat_prevents_reclaim [OF demo_run h, of 320 50 no_faults "''b-main''"] h by auto
qed

end
