(* ===== verification/Job_Store.thy ===== *)
theory Job_Store
  imports Identifiers Json_Value Sql_Table One_Shot
begin

text \<open>
  Background jobs: \<open>pandora-types/src/jobs.rs\<close> and \<open>pandora-runtime/src/job_store.rs\<close>. The table
  \<open>jobs\<close> is a list of rows; it may also hold rows of kind \<open>subagent\<close>, which these operations
  ignore except for the submission sequence. \<open>f k\<close> is the error, if any, of the \<open>k\<close>-th call to
  the database, call 0 being the lock; an operation that fails rolls its transaction back.
  \<open>serde_json\<close> is the parameter \<open>job_codec\<close>. Opening the file, its schema and its migrations are
  not modelled, and a column of the wrong SQL type cannot occur.
\<close>

section \<open>Requests and records\<close>

type_synonym job_id = string
type_synonym job_worker_id = string

definition MAX_JOB_ARGUMENT_BYTES :: nat where
  "MAX_JOB_ARGUMENT_BYTES = 64 * 1024"

definition MAX_JOB_RESULT_BYTES :: nat where
  "MAX_JOB_RESULT_BYTES = 1024 * 1024"

datatype job_command = RunJob

datatype job_status = Queued | Running | JobCompleted | JobApprovalRequired | JobFailed | Interrupted | Cancelled

fun job_status_str :: "job_status \<Rightarrow> string" where
  "job_status_str Queued = ''queued''"
| "job_status_str Running = ''running''"
| "job_status_str JobCompleted = ''completed''"
| "job_status_str JobApprovalRequired = ''approval_required''"
| "job_status_str JobFailed = ''failed''"
| "job_status_str Interrupted = ''interrupted''"
| "job_status_str Cancelled = ''cancelled''"

fun job_status_terminal :: "job_status \<Rightarrow> bool" where
  "job_status_terminal Queued = False"
| "job_status_terminal Running = False"
| "job_status_terminal _ = True"

datatype job_contract_error = EmptyArguments | ArgumentsTooLarge

record job_request =
  jq_command :: job_command
  jq_arguments :: "string list"

text \<open>The sum of the lengths is a checked \<open>usize\<close> addition; an overflow is over the limit too.\<close>

definition new_job_request :: "job_command \<Rightarrow> string list \<Rightarrow> (job_contract_error, job_request) outcome" where
  "new_job_request command arguments =
     (if arguments = [] then Inl EmptyArguments
      else if sum_list (map length arguments) > MAX_JOB_ARGUMENT_BYTES then Inl ArgumentsTooLarge
      else Inr \<lparr>jq_command = command, jq_arguments = arguments\<rparr>)"

record job_scope =
  sc_principal :: string
  sc_tenant :: string
  sc_workspace :: string

record job_record =
  jb_id :: job_id
  jb_scope :: job_scope
  jb_request :: job_request
  jb_status :: job_status
  jb_created_at :: u64
  jb_started_at :: "u64 option"
  jb_finished_at :: "u64 option"
  jb_worker_id :: "job_worker_id option"
  jb_result :: "json option"

record raw_job =
  rj_id :: string
  rj_sequence :: int
  rj_principal_id :: string
  rj_tenant_id :: string
  rj_workspace_id :: string
  rj_request_json :: string
  rj_status :: string
  rj_created_at :: int
  rj_started_at :: "int option"
  rj_finished_at :: "int option"
  rj_worker_id :: "string option"
  rj_result_json :: "string option"
  rj_kind :: string

type_synonym job_table = "raw_job list"

text \<open>A database error, as far as \<open>is_busy_error\<close> tells it apart.\<close>

datatype db_error = Busy | OtherDatabase

type_synonym job_faults = "nat \<Rightarrow> db_error option"

datatype job_store_error =
  JobDatabase db_error
| JobSerialization
| JobContract job_contract_error
| JobCorruptRecord
| JobAlreadyExists
| JobNotFound
| JobOwnedByAnotherWorker
| JobResultTooLarge
| InvalidTransition job_status string
| JobLockPoisoned

record job_codec =
  jc_write_request :: "job_request \<Rightarrow> string option"
  jc_read_request :: "string \<Rightarrow> job_request option"
  jc_write :: "json \<Rightarrow> string option"
  jc_read :: "string \<Rightarrow> json option"


section \<open>Rows\<close>

definition job_to_i64 :: "u64 \<Rightarrow> (job_store_error, int) outcome" where
  "job_to_i64 v = ok_or (i64_of_u64 v) JobCorruptRecord"

definition decode_timestamp :: "int \<Rightarrow> (job_store_error, u64) outcome" where
  "decode_timestamp v = ok_or (u64_of_i64 v) JobCorruptRecord"

definition decode_status :: "string \<Rightarrow> (job_store_error, job_status) outcome" where
  "decode_status v =
     (if v = ''queued'' then Inr Queued
      else if v = ''running'' then Inr Running
      else if v = ''completed'' then Inr JobCompleted
      else if v = ''approval_required'' then Inr JobApprovalRequired
      else if v = ''failed'' then Inr JobFailed
      else if v = ''interrupted'' then Inr Interrupted
      else if v = ''cancelled'' then Inr Cancelled
      else Inl JobCorruptRecord)"

definition validate_record ::
  "job_status \<Rightarrow> u64 option \<Rightarrow> u64 option \<Rightarrow> json option \<Rightarrow> (job_store_error, unit) outcome" where
  "validate_record status started finished result =
     ensure
       (case status of
          Queued \<Rightarrow> started = None \<and> finished = None \<and> result = None
        | Running \<Rightarrow> started \<noteq> None \<and> finished = None \<and> result = None
        | Cancelled \<Rightarrow> started = None \<and> finished \<noteq> None \<and> result = None
        | _ \<Rightarrow> started \<noteq> None \<and> finished \<noteq> None \<and> result \<noteq> None)
       JobCorruptRecord"

abbreviation corrupt_job :: "('e, 'a) outcome \<Rightarrow> (job_store_error, 'a) outcome" where
  "corrupt_job r \<equiv> map_err (\<lambda>_. JobCorruptRecord) r"

definition decode_job :: "job_codec \<Rightarrow> raw_job \<Rightarrow> (job_store_error, job_record) outcome" where
  "decode_job c r =
     and_then (corrupt_job (new_id (rj_id r))) (\<lambda>i.
     and_then (corrupt_job (new_id (rj_principal_id r))) (\<lambda>p.
     and_then (corrupt_job (new_id (rj_tenant_id r))) (\<lambda>tn.
     and_then (corrupt_job (new_id (rj_workspace_id r))) (\<lambda>ws.
     and_then (ok_or (jc_read_request c (rj_request_json r)) JobSerialization) (\<lambda>q.
     and_then (decode_status (rj_status r)) (\<lambda>status.
     and_then (decode_timestamp (rj_created_at r)) (\<lambda>created.
     and_then (opt_try decode_timestamp (rj_started_at r)) (\<lambda>started.
     and_then (opt_try decode_timestamp (rj_finished_at r)) (\<lambda>finished.
     and_then (opt_try (\<lambda>v. corrupt_job (new_id v)) (rj_worker_id r)) (\<lambda>worker.
     and_then (opt_try (\<lambda>v. ok_or (jc_read c v) JobSerialization) (rj_result_json r)) (\<lambda>result.
     and_then (validate_record status started finished result) (\<lambda>_.
       Inr \<lparr>jb_id = i, jb_scope = \<lparr>sc_principal = p, sc_tenant = tn, sc_workspace = ws\<rparr>, jb_request = q,
            jb_status = status, jb_created_at = created, jb_started_at = started, jb_finished_at = finished,
            jb_worker_id = worker, jb_result = result\<rparr>))))))))))))"

text \<open>The \<open>WHERE\<close> clause of a scope.\<close>

definition in_scope :: "job_scope \<Rightarrow> raw_job \<Rightarrow> bool" where
  "in_scope sc r \<longleftrightarrow>
     rj_principal_id r = sc_principal sc \<and> rj_tenant_id r = sc_tenant sc \<and> rj_workspace_id r = sc_workspace sc
   \<and> rj_kind r = ''run''"

definition load_scoped_job ::
  "job_codec \<Rightarrow> db_error option \<Rightarrow> job_id \<Rightarrow> job_scope \<Rightarrow> job_table \<Rightarrow> (job_store_error, job_record option) outcome" where
  "load_scoped_job c fault i sc t =
     (case fault of
        Some e \<Rightarrow> Inl (JobDatabase e)
      | None \<Rightarrow> opt_try (decode_job c) (find (\<lambda>r. rj_id r = i \<and> in_scope sc r) t))"


section \<open>Operations\<close>

definition latest_sequence :: "job_table \<Rightarrow> int option" where
  "latest_sequence t = (if t = [] then None else Some (Max (rj_sequence ` set t)))"

text \<open>The \<open>PRIMARY KEY\<close>, the unique index and the \<open>CHECK\<close> of the table.\<close>

definition violates_constraint :: "raw_job \<Rightarrow> job_table \<Rightarrow> bool" where
  "violates_constraint r t \<longleftrightarrow>
     rj_id r \<in> rj_id ` set t \<or> rj_sequence r \<in> rj_sequence ` set t \<or> rj_sequence r \<le> 0"

definition submit_attempt ::
  "job_faults \<Rightarrow> job_id \<Rightarrow> job_scope \<Rightarrow> job_request \<Rightarrow> string \<Rightarrow> u64 \<Rightarrow> job_table
     \<Rightarrow> (job_store_error, job_record) outcome \<times> job_table" where
  "submit_attempt f i sc q request_json created t =
     (if f 0 \<noteq> None then (Inl JobLockPoisoned, t)
      else case f 1 of Some e \<Rightarrow> (Inl (JobDatabase e), t) | None \<Rightarrow>
      case f 2 of Some e \<Rightarrow> (Inl (JobDatabase e), t) | None \<Rightarrow>
        let latest = (case latest_sequence t of None \<Rightarrow> 0 | Some n \<Rightarrow> n) in
        if latest + 1 \<ge> 2 ^ 63 then (Inl JobCorruptRecord, t)
        else case job_to_i64 created of Inl e \<Rightarrow> (Inl e, t) | Inr created_i \<Rightarrow>
        let row = \<lparr>rj_id = i, rj_sequence = latest + 1, rj_principal_id = sc_principal sc,
                   rj_tenant_id = sc_tenant sc, rj_workspace_id = sc_workspace sc, rj_request_json = request_json,
                   rj_status = ''queued'', rj_created_at = created_i, rj_started_at = None,
                   rj_finished_at = None, rj_worker_id = None, rj_result_json = None, rj_kind = ''run''\<rparr> in
        case f 3 of Some e \<Rightarrow> (Inl (JobDatabase e), t) | None \<Rightarrow>
        if violates_constraint row t then (Inl JobAlreadyExists, t)
        else case f 4 of Some e \<Rightarrow> (Inl (JobDatabase e), t) | None \<Rightarrow>
          (Inr \<lparr>jb_id = i, jb_scope = sc, jb_request = q, jb_status = Queued, jb_created_at = created,
                jb_started_at = None, jb_finished_at = None, jb_worker_id = None, jb_result = None\<rparr>,
           row_insert row t))"

text \<open>A busy database is tried again, 25 times in all; \<open>fs n\<close> are the faults of attempt \<open>n\<close>.\<close>

function submit_loop ::
  "(nat \<Rightarrow> job_faults) \<Rightarrow> nat \<Rightarrow> job_id \<Rightarrow> job_scope \<Rightarrow> job_request \<Rightarrow> string \<Rightarrow> u64 \<Rightarrow> job_table
     \<Rightarrow> (job_store_error, job_record) outcome \<times> job_table" where
  "submit_loop fs attempts i sc q request_json created t =
     (case submit_attempt (fs (attempts + 1)) i sc q request_json created t of
        (Inr r, t') \<Rightarrow> (Inr r, t')
      | (Inl e, t') \<Rightarrow>
          if e = JobDatabase Busy \<and> attempts + 1 < 25
          then submit_loop fs (attempts + 1) i sc q request_json created t'
          else (Inl e, t'))"
  by pat_completeness auto

termination
  by (relation "measure (\<lambda>(fs, attempts, i, sc, q, s, created, t). 25 - attempts)") auto

definition submit ::
  "job_codec \<Rightarrow> (nat \<Rightarrow> job_faults) \<Rightarrow> job_id \<Rightarrow> job_scope \<Rightarrow> job_request \<Rightarrow> u64 \<Rightarrow> job_table
     \<Rightarrow> (job_store_error, job_record) outcome \<times> job_table" where
  "submit c fs i sc q created t =
     (case jc_write_request c q of
        None \<Rightarrow> (Inl JobSerialization, t)
      | Some s \<Rightarrow> submit_loop fs 0 i sc q s created t)"

declare submit_loop.simps [simp del]

definition list_jobs ::
  "job_codec \<Rightarrow> job_faults \<Rightarrow> job_scope \<Rightarrow> job_table \<Rightarrow> (job_store_error, job_record list) outcome" where
  "list_jobs c f sc t =
     (if f 0 \<noteq> None then Inl JobLockPoisoned
      else case f 1 of Some e \<Rightarrow> Inl (JobDatabase e) | None \<Rightarrow>
        try_map (decode_job c) (rev (sort_key rj_sequence (filter (in_scope sc) t))))"

definition inspect_job ::
  "job_codec \<Rightarrow> job_faults \<Rightarrow> job_id \<Rightarrow> job_scope \<Rightarrow> job_table \<Rightarrow> (job_store_error, job_record) outcome" where
  "inspect_job c f i sc t =
     (if f 0 \<noteq> None then Inl JobLockPoisoned
      else and_then (load_scoped_job c (f 1) i sc t) (\<lambda>j. ok_or j JobNotFound))"

text \<open>The oldest queued job of a scope.\<close>

definition next_queued :: "job_scope \<Rightarrow> job_table \<Rightarrow> raw_job option" where
  "next_queued sc t =
     (case sort_key rj_sequence (filter (\<lambda>r. in_scope sc r \<and> rj_status r = ''queued'') t) of
        [] \<Rightarrow> None
      | r # _ \<Rightarrow> Some r)"

definition claim_next ::
  "job_codec \<Rightarrow> job_faults \<Rightarrow> job_scope \<Rightarrow> job_worker_id \<Rightarrow> u64 \<Rightarrow> job_table
     \<Rightarrow> (job_store_error, job_record option) outcome \<times> job_table" where
  "claim_next c f sc worker started t =
     (if f 0 \<noteq> None then (Inl JobLockPoisoned, t)
      else case f 1 of Some e \<Rightarrow> (Inl (JobDatabase e), t) | None \<Rightarrow>
      case f 2 of Some e \<Rightarrow> (Inl (JobDatabase e), t) | None \<Rightarrow>
      case next_queued sc t of
        None \<Rightarrow> (case f 3 of Some e \<Rightarrow> (Inl (JobDatabase e), t) | None \<Rightarrow> (Inr None, t))
      | Some row \<Rightarrow>
          (case new_id (rj_id row) of Inl _ \<Rightarrow> (Inl JobCorruptRecord, t) | Inr i \<Rightarrow>
           case job_to_i64 started of Inl e \<Rightarrow> (Inl e, t) | Inr n \<Rightarrow>
             let cond = (\<lambda>r. rj_id r = i \<and> in_scope sc r \<and> rj_status r = ''queued'');
                 t' = row_update cond
                        (\<lambda>r. r\<lparr>rj_status := ''running'', rj_started_at := Some n, rj_worker_id := Some worker\<rparr>) t in
             case f 3 of Some e \<Rightarrow> (Inl (JobDatabase e), t) | None \<Rightarrow>
             if rows_changed cond t \<noteq> 1 then (Inl JobCorruptRecord, t)
             else case load_scoped_job c (f 4) i sc t' of
               Inl e \<Rightarrow> (Inl e, t)
             | Inr None \<Rightarrow> (Inl JobCorruptRecord, t)
             | Inr (Some job) \<Rightarrow>
                 (case f 5 of Some e \<Rightarrow> (Inl (JobDatabase e), t) | None \<Rightarrow>
                    (Inr (Some (job\<lparr>jb_status := Running, jb_started_at := Some started,
                                    jb_worker_id := Some worker\<rparr>)), t'))))"

text \<open>The common frame of the operations on one job: lock, transaction, load; then the conditional
  update and the commit.\<close>

definition on_job ::
  "job_codec \<Rightarrow> job_faults \<Rightarrow> job_id \<Rightarrow> job_scope \<Rightarrow> job_table
     \<Rightarrow> (job_record \<Rightarrow> (job_store_error, 'a) outcome \<times> job_table) \<Rightarrow> (job_store_error, 'a) outcome \<times> job_table" where
  "on_job c f i sc t k =
     (if f 0 \<noteq> None then (Inl JobLockPoisoned, t)
      else case f 1 of Some e \<Rightarrow> (Inl (JobDatabase e), t) | None \<Rightarrow>
      case load_scoped_job c (f 2) i sc t of
        Inl e \<Rightarrow> (Inl e, t)
      | Inr None \<Rightarrow> (Inl JobNotFound, t)
      | Inr (Some job) \<Rightarrow> k job)"

definition write_job ::
  "job_faults \<Rightarrow> (raw_job \<Rightarrow> bool) \<Rightarrow> (raw_job \<Rightarrow> raw_job) \<Rightarrow> job_record \<Rightarrow> job_table
     \<Rightarrow> (job_store_error, job_record) outcome \<times> job_table" where
  "write_job f cond u job t =
     (case f 3 of Some e \<Rightarrow> (Inl (JobDatabase e), t) | None \<Rightarrow>
      case f 4 of Some e \<Rightarrow> (Inl (JobDatabase e), t) | None \<Rightarrow> (Inr job, row_update cond u t))"

definition result_text :: "job_codec \<Rightarrow> json \<Rightarrow> (job_store_error, string) outcome" where
  "result_text c result =
     and_then (ok_or (jc_write c result) JobSerialization) (\<lambda>s.
     if length s > MAX_JOB_RESULT_BYTES then Inl JobResultTooLarge
     else if \<not> utf8_valid s then Inl JobCorruptRecord
     else Inr s)"

definition finish ::
  "job_codec \<Rightarrow> job_faults \<Rightarrow> job_id \<Rightarrow> job_scope \<Rightarrow> job_worker_id \<Rightarrow> job_status \<Rightarrow> json \<Rightarrow> u64 \<Rightarrow> job_table
     \<Rightarrow> (job_store_error, job_record) outcome \<times> job_table" where
  "finish c f i sc worker status result finished t =
     (if status \<notin> {JobCompleted, JobApprovalRequired, JobFailed, Interrupted}
      then (Inl (InvalidTransition status ''finish as a non-terminal outcome''), t)
      else case result_text c result of Inl e \<Rightarrow> (Inl e, t) | Inr s \<Rightarrow>
      on_job c f i sc t (\<lambda>current.
        if jb_status current \<noteq> Running then (Inl (InvalidTransition (jb_status current) ''finish''), t)
        else if jb_worker_id current \<noteq> Some worker then (Inl JobOwnedByAnotherWorker, t)
        else case job_to_i64 finished of Inl e \<Rightarrow> (Inl e, t) | Inr n \<Rightarrow>
          write_job f
            (\<lambda>r. rj_id r = i \<and> in_scope sc r \<and> rj_worker_id r = Some worker \<and> rj_status r = ''running'')
            (\<lambda>r. r\<lparr>rj_status := job_status_str status, rj_finished_at := Some n, rj_result_json := Some s\<rparr>)
            (current\<lparr>jb_status := status, jb_finished_at := Some finished, jb_result := Some result\<rparr>) t))"

definition interrupted_result :: "string \<Rightarrow> job_worker_id option \<Rightarrow> json" where
  "interrupted_result reason worker =
     JObject [(''code'', JString ''worker_interrupted''), (''outcome_known'', JBool False), (''reason'', JString reason),
              (''worker_id'', case worker of Some w \<Rightarrow> JString w | None \<Rightarrow> JNull)]"

definition mark_interrupted ::
  "job_codec \<Rightarrow> job_faults \<Rightarrow> job_id \<Rightarrow> job_scope \<Rightarrow> string \<Rightarrow> u64 \<Rightarrow> job_table
     \<Rightarrow> (job_store_error, job_record) outcome \<times> job_table" where
  "mark_interrupted c f i sc reason finished t =
     on_job c f i sc t (\<lambda>current.
       if jb_status current \<noteq> Running then (Inl (InvalidTransition (jb_status current) ''mark interrupted''), t)
       else
         let result = interrupted_result reason (jb_worker_id current) in
         case result_text c result of Inl e \<Rightarrow> (Inl e, t) | Inr s \<Rightarrow>
         case job_to_i64 finished of Inl e \<Rightarrow> (Inl e, t) | Inr n \<Rightarrow>
           write_job f (\<lambda>r. rj_id r = i \<and> in_scope sc r \<and> rj_status r = ''running'')
             (\<lambda>r. r\<lparr>rj_status := ''interrupted'', rj_finished_at := Some n, rj_result_json := Some s\<rparr>)
             (current\<lparr>jb_status := Interrupted, jb_finished_at := Some finished, jb_result := Some result\<rparr>) t)"

definition cancel_job ::
  "job_codec \<Rightarrow> job_faults \<Rightarrow> job_id \<Rightarrow> job_scope \<Rightarrow> u64 \<Rightarrow> job_table \<Rightarrow> (job_store_error, job_record) outcome \<times> job_table" where
  "cancel_job c f i sc finished t =
     on_job c f i sc t (\<lambda>current.
       if jb_status current \<noteq> Queued then (Inl (InvalidTransition (jb_status current) ''cancel''), t)
       else case job_to_i64 finished of Inl e \<Rightarrow> (Inl e, t) | Inr n \<Rightarrow>
         write_job f (\<lambda>r. rj_id r = i \<and> in_scope sc r \<and> rj_status r = ''queued'')
           (\<lambda>r. r\<lparr>rj_status := ''cancelled'', rj_finished_at := Some n\<rparr>)
           (current\<lparr>jb_status := Cancelled, jb_finished_at := Some finished\<rparr>) t)"


section \<open>Every operation as an insertion or an update\<close>

datatype job_op =
  SubmitOp "nat \<Rightarrow> job_faults" job_id job_scope job_request u64
| ClaimOp job_faults job_scope job_worker_id u64
| FinishOp job_faults job_id job_scope job_worker_id job_status json u64
| InterruptOp job_faults job_id job_scope string u64
| CancelOp job_faults job_id job_scope u64

fun exec_job_op :: "job_codec \<Rightarrow> job_op \<Rightarrow> job_table \<Rightarrow> job_table" where
  "exec_job_op c (SubmitOp fs i sc q created) t = snd (submit c fs i sc q created t)"
| "exec_job_op c (ClaimOp f sc worker started) t = snd (claim_next c f sc worker started t)"
| "exec_job_op c (FinishOp f i sc worker status result finished) t =
     snd (finish c f i sc worker status result finished t)"
| "exec_job_op c (InterruptOp f i sc reason finished) t = snd (mark_interrupted c f i sc reason finished t)"
| "exec_job_op c (CancelOp f i sc finished) t = snd (cancel_job c f i sc finished t)"

text \<open>The identifier of the job a claim hands to its worker.\<close>

fun claims_job :: "job_codec \<Rightarrow> job_op \<Rightarrow> job_table \<Rightarrow> job_id option" where
  "claims_job c (ClaimOp f sc worker started) t =
     (case fst (claim_next c f sc worker started t) of Inr (Some job) \<Rightarrow> Some (jb_id job) | _ \<Rightarrow> None)"
| "claims_job c _ t = None"

text \<open>How a row may change: the status moves along the life cycle and the identity stays.\<close>

definition same_job :: "raw_job \<Rightarrow> raw_job \<Rightarrow> bool" where
  "same_job r r' \<longleftrightarrow>
     rj_id r' = rj_id r \<and> rj_sequence r' = rj_sequence r \<and> rj_principal_id r' = rj_principal_id r
   \<and> rj_tenant_id r' = rj_tenant_id r \<and> rj_workspace_id r' = rj_workspace_id r
   \<and> rj_request_json r' = rj_request_json r \<and> rj_created_at r' = rj_created_at r \<and> rj_kind r' = rj_kind r"

inductive job_step :: "raw_job \<Rightarrow> raw_job \<Rightarrow> bool" where
  stay: "job_step r r"
| claimed: "rj_status r = ''queued'' \<Longrightarrow> rj_kind r = ''run'' \<Longrightarrow>
    job_step r (r\<lparr>rj_status := ''running'', rj_started_at := Some n, rj_worker_id := Some w\<rparr>)"
| finished: "rj_status r = ''running'' \<Longrightarrow> rj_kind r = ''run'' \<Longrightarrow>
    status \<in> {JobCompleted, JobApprovalRequired, JobFailed, Interrupted} \<Longrightarrow>
    job_step r (r\<lparr>rj_status := job_status_str status, rj_finished_at := Some n, rj_result_json := Some s\<rparr>)"
| cancelled: "rj_status r = ''queued'' \<Longrightarrow> rj_kind r = ''run'' \<Longrightarrow>
    job_step r (r\<lparr>rj_status := ''cancelled'', rj_finished_at := Some n\<rparr>)"

inductive_cases job_stepE: "job_step r r'"

lemma on_job_Inr:
  "on_job c f i sc t k = (Inr x, t') \<longleftrightarrow>
     f 0 = None \<and> f 1 = None \<and> (\<exists>job. load_scoped_job c (f 2) i sc t = Inr (Some job) \<and> k job = (Inr x, t'))"
  by (auto simp: on_job_def split: option.splits sum.splits)

lemma snd_on_job: "(\<And>job. snd (k job) = t \<or> P (snd (k job))) \<Longrightarrow> snd (on_job c f i sc t k) = t \<or> P (snd (on_job c f i sc t k))"
  by (auto simp: on_job_def split: option.splits sum.splits)

lemma snd_write_job: "snd (write_job f cond u job t) = t \<or> snd (write_job f cond u job t) = row_update cond u t"
  by (auto simp: write_job_def split: option.splits)

text \<open>What an operation does to the table: nothing, one conditional update along the life cycle, or
  the insertion of a queued row after all others.\<close>

definition job_update :: "job_table \<Rightarrow> job_table \<Rightarrow> bool" where
  "job_update t t' \<longleftrightarrow> (\<exists>cond u. t' = row_update cond u t \<and> (\<forall>r. cond r \<longrightarrow> job_step r (u r)))"

definition job_insert :: "job_table \<Rightarrow> job_table \<Rightarrow> bool" where
  "job_insert t t' \<longleftrightarrow>
     (\<exists>row. t' = row_insert row t \<and> row_lookup rj_id (rj_id row) t = None \<and> 0 < rj_sequence row
        \<and> rj_status row = ''queued'' \<and> (\<forall>r \<in> set t. rj_sequence r < rj_sequence row))"

lemma job_update_refl: "job_update t t"
  unfolding job_update_def
  by (intro exI [of _ "\<lambda>_. False"] exI [of _ id]) (simp add: row_update_def)

lemma job_updateI: "(\<And>r. cond r \<Longrightarrow> job_step r (u r)) \<Longrightarrow> job_update t (row_update cond u t)"
  unfolding job_update_def by blast

lemma claim_next_update: "job_update t (snd (claim_next c f sc worker started t))"
  unfolding claim_next_def Let_def
  by (auto intro!: job_update_refl job_updateI job_step.claimed simp: in_scope_def
      split: option.splits sum.splits)

lemma finished_text:
  assumes "rj_status r = ''running''" and "rj_kind r = ''run''"
    and "st \<in> {''completed'', ''approval_required'', ''failed'', ''interrupted''}"
  shows "job_step r (r\<lparr>rj_status := st, rj_finished_at := Some n, rj_result_json := Some s\<rparr>)"
proof -
  have "\<exists>status \<in> {JobCompleted, JobApprovalRequired, JobFailed, Interrupted}. st = job_status_str status"
    using assms(3) by simp
  then obtain status where "status \<in> {JobCompleted, JobApprovalRequired, JobFailed, Interrupted}"
    "st = job_status_str status" by blast
  with job_step.finished [OF assms(1,2), where status = status and n = n and s = s] show ?thesis by simp
qed

lemma finish_update: "job_update t (snd (finish c f i sc worker status result finished t))"
  unfolding finish_def on_job_def write_job_def
  by (auto intro!: job_update_refl job_updateI finished_text simp: in_scope_def
      split: option.splits sum.splits)

lemma mark_interrupted_update: "job_update t (snd (mark_interrupted c f i sc reason finished t))"
  unfolding mark_interrupted_def on_job_def write_job_def Let_def
  by (auto intro!: job_update_refl job_updateI finished_text simp: in_scope_def
      split: option.splits sum.splits)

lemma cancel_job_update: "job_update t (snd (cancel_job c f i sc finished t))"
  unfolding cancel_job_def on_job_def write_job_def
  by (auto intro!: job_update_refl job_updateI job_step.cancelled simp: in_scope_def
      split: option.splits sum.splits)

lemma latest_sequence_bound: "r \<in> set t \<Longrightarrow> rj_sequence r \<le> (case latest_sequence t of None \<Rightarrow> 0 | Some n \<Rightarrow> n)"
  by (auto simp: latest_sequence_def)

lemma submit_attempt_table:
  "snd (submit_attempt f i sc q s created t) = t \<or> job_insert t (snd (submit_attempt f i sc q s created t))"
proof (cases "submit_attempt f i sc q s created t")
  case (Pair res t')
  let ?n = "(case latest_sequence t of None \<Rightarrow> 0 | Some n \<Rightarrow> n) + 1"
  consider "t' = t" | row where "t' = row_insert row t" "rj_sequence row = ?n" "rj_status row = ''queued''" "\<not> violates_constraint row t"
    using Pair by (auto simp: submit_attempt_def Let_def split: option.splits sum.splits if_splits)
  then show ?thesis
  proof cases
    case (2 row)
    have "\<forall>r \<in> set t. rj_sequence r < rj_sequence row"
      using latest_sequence_bound [of _ t] 2(2) by (simp add: less_le_trans zless_add1_eq order.order_iff_strict)
    with 2 Pair show ?thesis
      by (auto simp: job_insert_def violates_constraint_def row_lookup_None_iff)
  qed (use Pair in simp)
qed

lemma submit_attempt_Inl: "submit_attempt f i sc q s created t = (Inl e, t') \<Longrightarrow> t' = t"
  by (auto simp: submit_attempt_def Let_def split: option.splits sum.splits if_splits)

lemma submit_loop_cases:
  "(\<exists>e. submit_loop fs n i sc q s created t = (Inl e, t))
   \<or> (\<exists>f. submit_loop fs n i sc q s created t = submit_attempt f i sc q s created t)"
proof (induction fs n i sc q s created t rule: submit_loop.induct)
  case (1 fs n i sc q s created t)
  show ?case
  proof (cases "submit_attempt (fs (n + 1)) i sc q s created t")
    case (Pair res t')
    then show ?thesis
    proof (cases res)
      case (Inl e)
      then have "t' = t" using Pair submit_attempt_Inl by blast
      with Pair Inl 1 show ?thesis by (subst (1 2) submit_loop.simps) auto
    next
      case (Inr r)
      with Pair show ?thesis by (intro disjI2 exI [of _ "fs (n + 1)"]) (subst submit_loop.simps, simp)
    qed
  qed
qed

lemma submit_table: "snd (submit c fs i sc q created t) = t \<or> job_insert t (snd (submit c fs i sc q created t))"
proof (cases "jc_write_request c q")
  case (Some s)
  from submit_loop_cases [of fs 0 i sc q s created t] show ?thesis
  proof (elim disjE exE)
    fix f
    assume "submit_loop fs 0 i sc q s created t = submit_attempt f i sc q s created t"
    with submit_attempt_table [of f i sc q s created t] Some show ?thesis by (simp add: submit_def)
  qed (use Some in \<open>simp add: submit_def\<close>)
qed (simp add: submit_def)

lemma exec_job_table: "job_update t (exec_job_op c x t) \<or> job_insert t (exec_job_op c x t)"
proof (cases x)
  case (SubmitOp fs i sc q created)
  with submit_table [of c fs i sc q created t] job_update_refl [of t] show ?thesis by auto
qed (simp_all add: claim_next_update finish_update mark_interrupted_update cancel_job_update)

section \<open>The invariant of the table\<close>

definition job_inv :: "job_table \<Rightarrow> bool" where
  "job_inv t \<longleftrightarrow> keyed rj_id t \<and> sorted_wrt (<) (map rj_sequence t) \<and> (\<forall>r \<in> set t. 0 < rj_sequence r)"

lemma job_step_same: "job_step r r' \<Longrightarrow> same_job r r'"
  by (induction rule: job_step.induct) (simp_all add: same_job_def)

lemma job_update_map:
  assumes "job_update t t'"
  shows "map rj_id t' = map rj_id t" and "map rj_sequence t' = map rj_sequence t"
  using assms job_step_same by (auto simp: job_update_def row_update_def same_job_def)

lemma exec_job_inv: "job_inv t \<Longrightarrow> job_inv (exec_job_op c x t)"
  using exec_job_table [of t c x]
proof
  assume inv: "job_inv t" and u: "job_update t (exec_job_op c x t)"
  have "rj_sequence ` set (exec_job_op c x t) = rj_sequence ` set t"
    using arg_cong [OF job_update_map(2) [OF u], of set] by simp
  moreover have "\<forall>n \<in> rj_sequence ` set t. 0 < n" using inv by (simp add: job_inv_def)
  ultimately have "\<forall>n \<in> rj_sequence ` set (exec_job_op c x t). 0 < n" by simp
  with inv job_update_map [OF u] show ?thesis by (simp add: job_inv_def keyed_def)
next
  assume "job_inv t" and "job_insert t (exec_job_op c x t)"
  then show ?thesis
    by (auto simp: job_inv_def job_insert_def row_insert_def keyed_def row_lookup_None_iff sorted_wrt_append)
qed

lemma job_row_evolves:
  assumes "row_lookup rj_id i t = Some r"
  shows "\<exists>r'. row_lookup rj_id i (exec_job_op c x t) = Some r' \<and> job_step r r'"
  using exec_job_table [of t c x]
proof
  assume "job_update t (exec_job_op c x t)"
  then obtain cond u where e: "exec_job_op c x t = row_update cond u t" and s: "\<And>r. cond r \<Longrightarrow> job_step r (u r)"
    by (auto simp: job_update_def)
  have "row_lookup rj_id i (row_update cond u t) = map_option (\<lambda>r. if cond r then u r else r) (row_lookup rj_id i t)"
    by (rule row_lookup_update) (use s job_step_same in \<open>auto simp: same_job_def\<close>)
  with e assms s show ?thesis by (auto intro: job_step.stay)
next
  assume "job_insert t (exec_job_op c x t)"
  with assms show ?thesis by (auto simp: job_insert_def intro: job_step.stay)
qed

lemma job_row_run:
  assumes "row_lookup rj_id i t = Some r"
  shows "\<exists>r'. row_lookup rj_id i (run_ops (exec_job_op c) xs t) = Some r' \<and> job_step\<^sup>*\<^sup>* r r'"
  using assms
proof (induction xs arbitrary: t r)
  case (Cons x xs)
  obtain r1 where r1: "row_lookup rj_id i (exec_job_op c x t) = Some r1" "job_step r r1"
    using job_row_evolves [OF Cons.prems] by blast
  from Cons.IH [OF r1(1)] r1(2) show ?case by (auto intro: converse_rtranclp_into_rtranclp)
qed auto

lemma job_steps_same: "job_step\<^sup>*\<^sup>* r r' \<Longrightarrow> same_job r r'"
  by (induction rule: rtranclp_induct) (auto simp: same_job_def dest!: job_step_same)

lemma job_step_terminal: "job_step r r' \<Longrightarrow> rj_status r \<notin> {''queued'', ''running''} \<Longrightarrow> r' = r"
  by (auto elim: job_stepE)

lemma job_steps_terminal: "job_step\<^sup>*\<^sup>* r r' \<Longrightarrow> rj_status r \<notin> {''queued'', ''running''} \<Longrightarrow> r' = r"
  by (induction rule: rtranclp_induct) (auto dest: job_step_terminal)


section \<open>Claims\<close>

lemma find_filter: "find P xs = (case filter P xs of [] \<Rightarrow> None | x # _ \<Rightarrow> Some x)"
  by (induction xs) auto

lemma find_member: "find P xs = Some x \<Longrightarrow> x \<in> set xs \<and> P x"
  by (induction xs) (auto split: if_splits)

lemma find_skip: "\<forall>x \<in> set xs. \<not> P x \<Longrightarrow> find P (xs @ ys) = find P ys"
  by (induction xs) auto

lemma next_queued_find:
  assumes "job_inv t"
  shows "next_queued sc t = find (\<lambda>r. in_scope sc r \<and> rj_status r = ''queued'') t"
proof -
  let ?P = "\<lambda>r. in_scope sc r \<and> rj_status r = ''queued''"
  have "sorted_wrt (<) (map rj_sequence (filter ?P t))"
    using assms by (simp add: job_inv_def sorted_wrt_map sorted_wrt_filter)
  then have "sorted (map rj_sequence (filter ?P t))" by (rule strict_sorted_imp_sorted)
  then show ?thesis by (simp add: next_queued_def find_filter sort_key_id_if_sorted)
qed

lemma decode_job_id: "decode_job c r = Inr j \<Longrightarrow> jb_id j = rj_id r"
  by (auto simp: decode_job_def)

lemma load_scoped_job_Some:
  assumes "load_scoped_job c fault i sc t = Inr (Some job)"
  shows "\<exists>r. find (\<lambda>r. rj_id r = i \<and> in_scope sc r) t = Some r \<and> decode_job c r = Inr job" and "jb_id job = i" and "fault = None"
proof -
  from assms show "fault = None" by (cases fault) (auto simp: load_scoped_job_def)
  with assms obtain r where r: "find (\<lambda>r. rj_id r = i \<and> in_scope sc r) t = Some r" "decode_job c r = Inr job"
    by (cases "find (\<lambda>r. rj_id r = i \<and> in_scope sc r) t") (auto simp: load_scoped_job_def)
  then show "\<exists>r. find (\<lambda>r. rj_id r = i \<and> in_scope sc r) t = Some r \<and> decode_job c r = Inr job" by blast
  from r(1) have "rj_id r = i" by (auto simp: find_Some_iff)
  with decode_job_id [OF r(2)] show "jb_id job = i" by simp
qed

abbreviation claim_row :: "int \<Rightarrow> job_worker_id \<Rightarrow> raw_job \<Rightarrow> raw_job" where
  "claim_row n w r \<equiv> r\<lparr>rj_status := ''running'', rj_started_at := Some n, rj_worker_id := Some w\<rparr>"

lemma claim_next_Some:
  assumes "claim_next c f sc worker started t = (Inr (Some job), t')"
  obtains row n job0 where "next_queued sc t = Some row" "i64_of_u64 started = Some n"
    "t' = row_update (\<lambda>r. rj_id r = rj_id row \<and> in_scope sc r \<and> rj_status r = ''queued'') (claim_row n worker) t"
    "load_scoped_job c None (rj_id row) sc t' = Inr (Some job0)"
    "job = job0\<lparr>jb_status := Running, jb_started_at := Some started, jb_worker_id := Some worker\<rparr>"
proof -
  from assms obtain row where row: "next_queued sc t = Some row"
    by (cases "next_queued sc t") (auto simp: claim_next_def split: option.splits if_splits)
  with assms obtain n job0 where "job_to_i64 started = Inr n"
    and l: "load_scoped_job c (f 4) (rj_id row) sc t' = Inr (Some job0)"
    and "t' = row_update (\<lambda>r. rj_id r = rj_id row \<and> in_scope sc r \<and> rj_status r = ''queued'') (claim_row n worker) t"
    and "job = job0\<lparr>jb_status := Running, jb_started_at := Some started, jb_worker_id := Some worker\<rparr>"
    unfolding claim_next_def Let_def by (auto split: option.splits sum.splits if_splits)
  with that row load_scoped_job_Some(3) [OF l] show thesis by (auto simp: job_to_i64_def)
qed

definition job_taken :: "job_table \<Rightarrow> job_id \<Rightarrow> bool" where
  "job_taken t i \<longleftrightarrow> (\<exists>r. row_lookup rj_id i t = Some r \<and> rj_status r \<noteq> ''queued'')"

lemma keyed_find_lookup:
  assumes "keyed rj_id t" and "find P t = Some row"
  shows "row_lookup rj_id (rj_id row) t = Some row"
proof -
  have "row \<in> set t" using assms(2) by (auto simp: find_Some_iff)
  then show ?thesis using assms(1) by (simp add: row_lookup_Some_iff)
qed

interpretation job_claims: guarded_one_shot "exec_job_op c" "claims_job c" job_taken job_inv
  for c :: job_codec
proof
  fix t x i
  assume inv: "job_inv t" and "claims_job c x t = Some i"
  then obtain f sc worker started job t' where x: "x = ClaimOp f sc worker started"
    and cl: "claim_next c f sc worker started t = (Inr (Some job), t')" and i: "i = jb_id job"
    by (cases x) (auto split: sum.splits option.splits prod.splits, metis prod.collapse)
  obtain row n job0 where row: "next_queued sc t = Some row"
    and t': "t' = row_update (\<lambda>r. rj_id r = rj_id row \<and> in_scope sc r \<and> rj_status r = ''queued'') (claim_row n worker) t"
    and ld: "load_scoped_job c None (rj_id row) sc t' = Inr (Some job0)"
    and job: "job = job0\<lparr>jb_status := Running, jb_started_at := Some started, jb_worker_id := Some worker\<rparr>"
    by (rule claim_next_Some [OF cl])
  have fnd: "find (\<lambda>r. in_scope sc r \<and> rj_status r = ''queued'') t = Some row"
    using row next_queued_find [OF inv] by simp
  then have q: "in_scope sc row" "rj_status row = ''queued''" by (auto simp: find_Some_iff)
  have id: "i = rj_id row" using load_scoped_job_Some(2) [OF ld] i job by simp
  have look: "row_lookup rj_id i t = Some row"
    using keyed_find_lookup [OF _ fnd] inv id by (simp add: job_inv_def)
  with q show "\<not> job_taken t i" by (simp add: job_taken_def)
  have "row_lookup rj_id i t' = Some (claim_row n worker row)"
    unfolding t' by (subst row_lookup_update) (use look q id in auto)
  with x cl show "job_taken (exec_job_op c x t) i" by (simp add: job_taken_def)
next
  fix t x i
  assume "job_taken t i"
  then obtain r where r: "row_lookup rj_id i t = Some r" "rj_status r \<noteq> ''queued''" by (auto simp: job_taken_def)
  obtain r' where r': "row_lookup rj_id i (exec_job_op c x t) = Some r'" "job_step r r'"
    using job_row_evolves [OF r(1)] by blast
  have "rj_status r' \<noteq> ''queued''"
    using r'(2) r(2) by (cases rule: job_step.cases) auto
  with r'(1) show "job_taken (exec_job_op c x t) i" by (simp add: job_taken_def)
qed (rule exec_job_inv)


section \<open>Read-back\<close>

text \<open>What is relied on of \<open>serde_json\<close>: requests that pass their constructor and JSON values are
  read back as they were written.\<close>

definition job_codec_faithful :: "job_codec \<Rightarrow> bool" where
  "job_codec_faithful c \<longleftrightarrow>
     (\<forall>q s. new_job_request (jq_command q) (jq_arguments q) = Inr q \<longrightarrow> jc_write_request c q = Some s \<longrightarrow> jc_read_request c s = Some q)
   \<and> (\<forall>v s. jc_write c v = Some s \<longrightarrow> jc_read c s = Some v)"

lemma decode_status_str [simp]: "decode_status (job_status_str s) = Inr s"
  by (cases s) (simp_all add: decode_status_def)

lemma decode_status_texts [simp]:
  "decode_status ''queued'' = Inr Queued" "decode_status ''running'' = Inr Running"
  "decode_status ''interrupted'' = Inr Interrupted" "decode_status ''cancelled'' = Inr Cancelled"
  by (simp_all add: decode_status_def)

lemma job_status_str_inject [simp]: "job_status_str a = job_status_str b \<longleftrightarrow> a = b"
  by (cases a; cases b) simp_all

lemma decode_status_Inr: "decode_status v = Inr s \<longleftrightarrow> v = job_status_str s"
  by (cases s) (auto simp: decode_status_def split: if_splits)

lemma decode_job_Inr:
  "decode_job c r = Inr j \<longleftrightarrow>
     valid_id (rj_id r) \<and> valid_id (rj_principal_id r) \<and> valid_id (rj_tenant_id r) \<and> valid_id (rj_workspace_id r)
   \<and> jb_id j = rj_id r
   \<and> jb_scope j = \<lparr>sc_principal = rj_principal_id r, sc_tenant = rj_tenant_id r, sc_workspace = rj_workspace_id r\<rparr>
   \<and> jc_read_request c (rj_request_json r) = Some (jb_request j)
   \<and> rj_status r = job_status_str (jb_status j)
   \<and> u64_of_i64 (rj_created_at r) = Some (jb_created_at j)
   \<and> opt_try decode_timestamp (rj_started_at r) = Inr (jb_started_at j)
   \<and> opt_try decode_timestamp (rj_finished_at r) = Inr (jb_finished_at j)
   \<and> opt_try (\<lambda>v. corrupt_job (new_id v)) (rj_worker_id r) = Inr (jb_worker_id j)
   \<and> opt_try (\<lambda>v. ok_or (jc_read c v) JobSerialization) (rj_result_json r) = Inr (jb_result j)
   \<and> validate_record (jb_status j) (jb_started_at j) (jb_finished_at j) (jb_result j) = Inr ()"
  by (cases j) (auto simp: decode_job_def decode_status_Inr decode_timestamp_def)

lemma find_row_update:
  assumes "\<And>r. cond r \<Longrightarrow> P (u r) = P r"
  shows "find P (row_update cond u t) = map_option (\<lambda>r. if cond r then u r else r) (find P t)"
  using assms by (induction t) (auto simp: row_update_def)

lemma timestamp_roundtrip: "job_to_i64 v = Inr n \<Longrightarrow> decode_timestamp n = Inr v"
  by (auto simp: job_to_i64_def decode_timestamp_def)

text \<open>An update of one job is read back: the row found in its scope is the updated one.\<close>

lemma load_after_update:
  assumes "find (\<lambda>r. rj_id r = i \<and> in_scope sc r) t = Some row" and "cond row"
    and "\<And>r. cond r \<Longrightarrow> (rj_id (u r) = i \<and> in_scope sc (u r)) = (rj_id r = i \<and> in_scope sc r)"
    and "decode_job c (u row) = Inr job"
  shows "load_scoped_job c None i sc (row_update cond u t) = Inr (Some job)"
  using assms find_row_update [of cond "\<lambda>r. rj_id r = i \<and> in_scope sc r" u t] by (simp add: load_scoped_job_def)

lemma inspect_loaded:
  "load_scoped_job c None i sc t = Inr (Some job) \<Longrightarrow> inspect_job c (\<lambda>_. None) i sc t = Inr job"
  by (simp add: inspect_job_def)

lemma result_text_read:
  "job_codec_faithful c \<Longrightarrow> result_text c v = Inr s \<Longrightarrow> jc_read c s = Some v"
  by (auto simp: result_text_def job_codec_faithful_def split: if_splits)

lemma running_fields:
  assumes "decode_job c r = Inr j" and "jb_status j = Running"
  shows "rj_status r = ''running''" and "jb_started_at j \<noteq> None" and "jb_finished_at j = None" and "jb_result j = None"
  using assms by (auto simp: decode_job_Inr validate_record_def)

lemma queued_fields:
  assumes "decode_job c r = Inr j" and "jb_status j = Queued"
  shows "rj_status r = ''queued''" and "jb_started_at j = None" and "jb_finished_at j = None" and "jb_result j = None"
  using assms by (auto simp: decode_job_Inr validate_record_def)

lemma decode_finished:
  assumes "decode_job c r = Inr j" and "jb_status j = Running" and "job_to_i64 finished = Inr n" and "jc_read c s = Some v"
    and "status \<in> {JobCompleted, JobApprovalRequired, JobFailed, Interrupted}"
  shows "decode_job c (r\<lparr>rj_status := job_status_str status, rj_finished_at := Some n, rj_result_json := Some s\<rparr>)
    = Inr (j\<lparr>jb_status := status, jb_finished_at := Some finished, jb_result := Some v\<rparr>)"
  using assms running_fields [OF assms(1,2)] timestamp_roundtrip [OF assms(3)]
  by (auto simp: decode_job_Inr validate_record_def)

lemma finish_read_back:
  assumes "job_codec_faithful c" and "finish c f i sc worker status result finished t = (Inr job, t')"
  shows "inspect_job c (\<lambda>_. None) i sc t' = Inr job"
proof -
  from assms(2) obtain s n current where st: "status \<in> {JobCompleted, JobApprovalRequired, JobFailed, Interrupted}"
    and s: "result_text c result = Inr s" and n: "job_to_i64 finished = Inr n"
    and l: "load_scoped_job c (f 2) i sc t = Inr (Some current)" and cur: "jb_status current = Running" "jb_worker_id current = Some worker"
    and job: "job = current\<lparr>jb_status := status, jb_finished_at := Some finished, jb_result := Some result\<rparr>"
    and t': "t' = row_update (\<lambda>r. rj_id r = i \<and> in_scope sc r \<and> rj_worker_id r = Some worker \<and> rj_status r = ''running'')
        (\<lambda>r. r\<lparr>rj_status := job_status_str status, rj_finished_at := Some n, rj_result_json := Some s\<rparr>) t"
    by (auto simp: finish_def on_job_Inr write_job_def split: if_splits sum.splits option.splits)
  from load_scoped_job_Some(1) [OF l] obtain r where r: "find (\<lambda>r. rj_id r = i \<and> in_scope sc r) t = Some r" "decode_job c r = Inr current" by blast
  have "rj_worker_id r = Some worker" using r(2) cur(2) by (cases "rj_worker_id r") (auto simp: decode_job_Inr)
  moreover have "rj_id r = i \<and> in_scope sc r" using r(1) by (auto simp: find_Some_iff)
  ultimately have "load_scoped_job c None i sc t' = Inr (Some job)"
    unfolding t' job
    by (intro load_after_update [OF r(1)])
       (use running_fields(1) [OF r(2) cur(1)] decode_finished [OF r(2) cur(1) n result_text_read [OF assms(1) s] st] in
         \<open>auto simp: in_scope_def\<close>)
  then show ?thesis by (rule inspect_loaded)
qed

lemma finish_owner:
  assumes "finish c f i sc worker status result finished t = (Inr job, t')"
  shows "\<exists>r. find (\<lambda>r. rj_id r = i \<and> in_scope sc r) t = Some r \<and> rj_status r = ''running'' \<and> rj_worker_id r = Some worker"
proof -
  from assms obtain current where l: "load_scoped_job c (f 2) i sc t = Inr (Some current)"
    and cur: "jb_status current = Running" "jb_worker_id current = Some worker"
    by (auto simp: finish_def on_job_Inr split: if_splits sum.splits)
  from load_scoped_job_Some(1) [OF l] obtain r where r: "find (\<lambda>r. rj_id r = i \<and> in_scope sc r) t = Some r" "decode_job c r = Inr current" by blast
  have "rj_worker_id r = Some worker" using r(2) cur(2) by (cases "rj_worker_id r") (auto simp: decode_job_Inr)
  with r(1) running_fields(1) [OF r(2) cur(1)] show ?thesis by blast
qed

lemma claim_next_inv:
  assumes "job_inv t" and "claim_next c f sc worker started t = (Inr (Some job), t')"
  obtains before row after n where "t = before @ row # after" "\<forall>r \<in> set before. \<not> (in_scope sc r \<and> rj_status r = ''queued'')"
    "in_scope sc row" "rj_status row = ''queued''" "i64_of_u64 started = Some n"
    "t' = before @ claim_row n worker row # after" "decode_job c (claim_row n worker row) = Inr job"
    "find (\<lambda>r. rj_id r = rj_id row \<and> in_scope sc r) t' = Some (claim_row n worker row)" "jb_id job = rj_id row"
proof -
  obtain row n job0 where n: "i64_of_u64 started = Some n" and nq: "next_queued sc t = Some row"
    and t': "t' = row_update (\<lambda>r. rj_id r = rj_id row \<and> in_scope sc r \<and> rj_status r = ''queued'') (claim_row n worker) t"
    and ld: "load_scoped_job c None (rj_id row) sc t' = Inr (Some job0)"
    and job: "job = job0\<lparr>jb_status := Running, jb_started_at := Some started, jb_worker_id := Some worker\<rparr>"
    by (rule claim_next_Some [OF assms(2)])
  have fnd: "find (\<lambda>r. in_scope sc r \<and> rj_status r = ''queued'') t = Some row" using nq next_queued_find [OF assms(1)] by simp
  then have q: "in_scope sc row" "rj_status row = ''queued''" by (auto simp: find_Some_iff)
  obtain before after where split: "t = before @ row # after" "\<forall>r \<in> set before. \<not> (in_scope sc r \<and> rj_status r = ''queued'')"
    using fnd by (auto simp: find_filter split: list.splits dest!: filter_eq_ConsD)
  have "distinct (map rj_id t)" using assms(1) by (simp add: job_inv_def keyed_def)
  then have other: "rj_id r \<noteq> rj_id row" if "r \<in> set before \<union> set after" for r using that split(1) by (auto simp: image_iff)
  then have t'': "t' = before @ claim_row n worker row # after"
    unfolding t' split(1) by (auto simp: row_update_def q intro!: map_idI)
  have found: "find (\<lambda>r. rj_id r = rj_id row \<and> in_scope sc r) t' = Some (claim_row n worker row)"
    unfolding t'' using other q by (subst find_skip) (auto simp: in_scope_def)
  have dec: "decode_job c (claim_row n worker row) = Inr job0" using load_scoped_job_Some(1) [OF ld] found by simp
  have "decode_timestamp n = Inr started" using n timestamp_roundtrip [of started n] by (simp add: job_to_i64_def)
  with dec have "job0 = job" unfolding job by (auto simp: decode_job_Inr decode_status_Inr [symmetric])
  with that [OF split q n t'' _ found] dec load_scoped_job_Some(2) [OF ld] show thesis by simp
qed

section \<open>Submission under contention\<close>

definition queued_row :: "job_id \<Rightarrow> job_scope \<Rightarrow> string \<Rightarrow> int \<Rightarrow> int \<Rightarrow> raw_job" where
  "queued_row i sc s created n =
     \<lparr>rj_id = i, rj_sequence = n, rj_principal_id = sc_principal sc, rj_tenant_id = sc_tenant sc,
      rj_workspace_id = sc_workspace sc, rj_request_json = s, rj_status = ''queued'', rj_created_at = created,
      rj_started_at = None, rj_finished_at = None, rj_worker_id = None, rj_result_json = None, rj_kind = ''run''\<rparr>"

definition next_sequence :: "job_table \<Rightarrow> int" where
  "next_sequence t = (case latest_sequence t of None \<Rightarrow> 0 | Some n \<Rightarrow> n) + 1"

lemma next_sequence_fresh:
  assumes "job_inv t"
  shows "0 < next_sequence t" and "next_sequence t \<notin> rj_sequence ` set t"
proof -
  have bound: "\<And>r. r \<in> set t \<Longrightarrow> rj_sequence r < next_sequence t"
    using latest_sequence_bound [of _ t] by (simp add: next_sequence_def)
  then show "next_sequence t \<notin> rj_sequence ` set t" by force
  show "0 < next_sequence t"
  proof (cases t)
    case (Cons r rs)
    then have "0 < rj_sequence r" "rj_sequence r < next_sequence t" using assms bound [of r] by (simp_all add: job_inv_def)
    then show ?thesis by simp
  qed (simp add: next_sequence_def latest_sequence_def)
qed

lemma submit_attempt_ok:
  assumes "job_inv t" and "row_lookup rj_id i t = None" and "next_sequence t < 2 ^ 63" and "i64_of_u64 created = Some n"
  shows "submit_attempt (\<lambda>_. None) i sc q s created t =
    (Inr \<lparr>jb_id = i, jb_scope = sc, jb_request = q, jb_status = Queued, jb_created_at = created,
          jb_started_at = None, jb_finished_at = None, jb_worker_id = None, jb_result = None\<rparr>,
     row_insert (queued_row i sc s n (next_sequence t)) t)"
  using assms next_sequence_fresh [OF assms(1)]
  by (simp add: submit_attempt_def Let_def job_to_i64_def queued_row_def next_sequence_def violates_constraint_def row_lookup_None_iff)

lemma submit_loop_retries:
  assumes "\<forall>n. m < n \<and> n \<le> m + k \<longrightarrow> fs n 0 = None \<and> fs n 1 = Some Busy" and "m + k < 25"
  shows "submit_loop fs m i sc q s created t = submit_loop fs (m + k) i sc q s created t"
  using assms
proof (induction k arbitrary: m)
  case (Suc k)
  have "submit_attempt (fs (m + 1)) i sc q s created t = (Inl (JobDatabase Busy), t)"
    using Suc.prems(1) by (simp add: submit_attempt_def)
  then have "submit_loop fs m i sc q s created t = submit_loop fs (m + 1) i sc q s created t"
    using Suc.prems(2) by (subst submit_loop.simps) simp
  with Suc.IH [of "m + 1"] Suc.prems show ?case by simp
qed simp


section \<open>Properties\<close>

text \<open>C35: the life cycle of a job. Through every sequence of operations, whatever database calls fail, a
  job in the table stays in it, keeps its identifier, scope, request, sequence number and time of
  creation, moves only from queued to running or cancelled and from running to an outcome, and once
  it has an outcome its row never changes again.\<close>

theorem job_life_cycle:
  assumes "row_lookup rj_id i t = Some r"
  shows "\<exists>r'. row_lookup rj_id i (run_ops (exec_job_op c) xs t) = Some r' \<and> same_job r r' \<and> job_step\<^sup>*\<^sup>* r r'
    \<and> (rj_status r \<notin> {''queued'', ''running''} \<longrightarrow> r' = r)"
  using job_row_run [OF assms, of c xs] job_steps_same job_steps_terminal by blast

definition demo_job_scope :: job_scope where
  "demo_job_scope = \<lparr>sc_principal = ''p'', sc_tenant = ''t'', sc_workspace = ''w''\<rparr>"

definition demo_job_row :: "string \<Rightarrow> raw_job" where
  "demo_job_row st = (queued_row ''job-1'' demo_job_scope ''run'' 5 1)\<lparr>rj_status := st\<rparr>"

text \<open>A codec for one request and for null.\<close>

definition demo_codec :: job_codec where
  "demo_codec =
     \<lparr>jc_write_request = (\<lambda>q. if q = \<lparr>jq_command = RunJob, jq_arguments = [''a'']\<rparr> then Some ''run'' else None),
      jc_read_request = (\<lambda>s. if s = ''run'' then Some \<lparr>jq_command = RunJob, jq_arguments = [''a'']\<rparr> else None),
      jc_write = (\<lambda>v. if v = JNull then Some ''null'' else None),
      jc_read = (\<lambda>s. if s = ''null'' then Some JNull else None)\<rparr>"

theorem job_life_cycle_witness:
  "row_lookup rj_id ''job-1''
     (run_ops (exec_job_op demo_codec) [CancelOp (\<lambda>_. None) ''job-1'' demo_job_scope 9] [demo_job_row ''failed''])
   = Some (demo_job_row ''failed'')"
proof -
  have "row_lookup rj_id ''job-1'' [demo_job_row ''failed''] = Some (demo_job_row ''failed'')"
    by (simp add: row_lookup_def demo_job_row_def queued_row_def)
  from job_life_cycle [OF this, of demo_codec "[CancelOp (\<lambda>_. None) ''job-1'' demo_job_scope 9]"] show ?thesis
    by (auto simp: demo_job_row_def)
qed

text \<open>C34: no job is handed to two workers: along every sequence of operations on a store that started
  empty, each job is claimed at most once.\<close>

theorem job_claimed_once:
  "distinct (redemptions (exec_job_op c) (claims_job c) xs [])"
  by (rule job_claims.guarded_once) (simp add: job_inv_def)

text \<open>Jobs are claimed in the order of their submission. In every reachable table a successful claim
  takes the first queued job of the scope in that order, turns exactly this row to running under
  the claiming worker, leaves every other row alone, and returns the record that an inspection
  reads afterwards.\<close>

lemma claim_is_fifo:
  assumes "claim_next c f sc worker started (run_ops (exec_job_op c) xs []) = (Inr (Some job), t')"
  shows "\<exists>before row after n. run_ops (exec_job_op c) xs [] = before @ row # after
    \<and> (\<forall>r \<in> set before. \<not> (in_scope sc r \<and> rj_status r = ''queued''))
    \<and> in_scope sc row \<and> rj_status row = ''queued'' \<and> jb_id job = rj_id row
    \<and> t' = before @ row\<lparr>rj_status := ''running'', rj_started_at := Some n, rj_worker_id := Some worker\<rparr> # after
    \<and> jb_status job = Running \<and> jb_worker_id job = Some worker
    \<and> inspect_job c (\<lambda>_. None) (jb_id job) sc t' = Inr job"
proof -
  have "job_inv (run_ops (exec_job_op c) xs [])" by (rule job_claims.inv_run) (simp add: job_inv_def)
  from claim_next_inv [OF this assms] obtain before row after n where
    c: "run_ops (exec_job_op c) xs [] = before @ row # after" "\<forall>r \<in> set before. \<not> (in_scope sc r \<and> rj_status r = ''queued'')"
      "in_scope sc row" "rj_status row = ''queued''" "t' = before @ claim_row n worker row # after"
      "decode_job c (claim_row n worker row) = Inr job"
      "find (\<lambda>r. rj_id r = rj_id row \<and> in_scope sc r) t' = Some (claim_row n worker row)" "jb_id job = rj_id row" .
  have "inspect_job c (\<lambda>_. None) (jb_id job) sc t' = Inr job"
    by (rule inspect_loaded) (simp add: load_scoped_job_def c(6-8))
  moreover have "jb_status job = Running" "jb_worker_id job = Some worker"
    using c(6) by (auto simp: decode_job_Inr decode_status_Inr [symmetric])
  ultimately show ?thesis using c by blast
qed

lemma demo_job_submitted:
  "run_ops (exec_job_op demo_codec) [SubmitOp (\<lambda>_ _. None) ''job-1'' demo_job_scope \<lparr>jq_command = RunJob, jq_arguments = [''a'']\<rparr> 5] []
     = [demo_job_row ''queued'']"
proof -
  have i: "i64_of_u64 5 = Some 5" by (simp add: i64_of_u64_def)
  have "submit_loop (\<lambda>_ _. None) 0 ''job-1'' demo_job_scope \<lparr>jq_command = RunJob, jq_arguments = [''a'']\<rparr> ''run'' 5 []
      = submit_attempt (\<lambda>_. None) ''job-1'' demo_job_scope \<lparr>jq_command = RunJob, jq_arguments = [''a'']\<rparr> ''run'' 5 []"
    using submit_attempt_ok [OF _ _ _ i, of "[]" "''job-1''" demo_job_scope "\<lparr>jq_command = RunJob, jq_arguments = [''a'']\<rparr>" "''run''"]
    by (subst submit_loop.simps) (simp add: job_inv_def row_lookup_def next_sequence_def latest_sequence_def)
  then show ?thesis
    using submit_attempt_ok [OF _ _ _ i, of "[]" "''job-1''" demo_job_scope "\<lparr>jq_command = RunJob, jq_arguments = [''a'']\<rparr>" "''run''"]
    by (simp add: submit_def demo_codec_def job_inv_def row_lookup_def next_sequence_def latest_sequence_def row_insert_def
        demo_job_row_def queued_row_def)
qed

lemma demo_claimed:
  "is_ok (fst (claim_next demo_codec (\<lambda>_. None) demo_job_scope ''worker'' 6 [demo_job_row ''queued'']))
   \<and> fst (claim_next demo_codec (\<lambda>_. None) demo_job_scope ''worker'' 6 [demo_job_row ''queued'']) \<noteq> Inr None"
  by code_simp

lemma claim_is_fifo_witness:
  "\<exists>job t'. claim_next demo_codec (\<lambda>_. None) demo_job_scope ''worker'' 6 [demo_job_row ''queued''] = (Inr (Some job), t')
     \<and> jb_worker_id job = Some ''worker'' \<and> inspect_job demo_codec (\<lambda>_. None) (jb_id job) demo_job_scope t' = Inr job"
proof -
  obtain job t' where c: "claim_next demo_codec (\<lambda>_. None) demo_job_scope ''worker'' 6 [demo_job_row ''queued''] = (Inr (Some job), t')"
    using demo_claimed by (metis is_ok_iff option.exhaust prod.collapse)
  from claim_is_fifo [OF c [folded demo_job_submitted]] c show ?thesis by blast
qed

text \<open>Only the worker that claimed a job can finish it. A successful \<open>finish\<close> found the job
  running under the calling worker, and the record it returns, with the outcome and the result, is
  what an inspection reads afterwards.\<close>

lemma finish_by_owner:
  assumes "job_codec_faithful c" and "finish c f i sc worker status result finished t = (Inr job, t')"
  shows "(\<exists>r. r \<in> set t \<and> rj_id r = i \<and> in_scope sc r \<and> rj_status r = ''running'' \<and> rj_worker_id r = Some worker)
    \<and> job_status_terminal status \<and> inspect_job c (\<lambda>_. None) i sc t' = Inr job"
proof -
  have "status \<in> {JobCompleted, JobApprovalRequired, JobFailed, Interrupted}"
    using assms(2) by (simp add: finish_def split: if_splits)
  then have "job_status_terminal status" by auto
  moreover have "\<exists>r. r \<in> set t \<and> rj_id r = i \<and> in_scope sc r \<and> rj_status r = ''running'' \<and> rj_worker_id r = Some worker"
    using finish_owner [OF assms(2)] by (auto dest!: find_member)
  ultimately show ?thesis using finish_read_back [OF assms] by blast
qed

text \<open>A busy database delays a submission but does not lose it: if at most 24 attempts find the
  database busy and the next one does not fail, the job is in the table, queued, behind all others.\<close>

lemma submit_survives_contention:
  assumes "job_inv t" and "row_lookup rj_id i t = None" and "next_sequence t < 2 ^ 63" and "i64_of_u64 created = Some n"
    and "jc_write_request c q = Some s" and "k < 25"
    and "\<forall>a. 0 < a \<and> a \<le> k \<longrightarrow> fs a 0 = None \<and> fs a 1 = Some Busy" and "fs (k + 1) = (\<lambda>_. None)"
  shows "snd (submit c fs i sc q created t) = t @ [queued_row i sc s n (next_sequence t)]
    \<and> is_ok (fst (submit c fs i sc q created t))"
proof -
  have "submit_loop fs 0 i sc q s created t = submit_loop fs k i sc q s created t"
    using submit_loop_retries [of 0 k fs i sc q s created t] assms(6,7) by simp
  also have "\<dots> = submit_attempt (\<lambda>_. None) i sc q s created t"
    using submit_attempt_ok [OF assms(1-4), of sc q s] assms(8) by (subst submit_loop.simps) simp
  finally show ?thesis
    using submit_attempt_ok [OF assms(1-4), of sc q s] assms(5) by (simp add: submit_def row_insert_def)
qed

definition demo_faults :: "nat \<Rightarrow> job_faults" where
  "demo_faults a = (if a \<le> 2 then (\<lambda>k. if k = 1 then Some Busy else None) else (\<lambda>_. None))"

lemma submit_survives_contention_witness:
  "snd (submit demo_codec demo_faults ''job-1'' demo_job_scope \<lparr>jq_command = RunJob, jq_arguments = [''a'']\<rparr> 5 []) = [demo_job_row ''queued'']"
proof -
  have "i64_of_u64 5 = Some 5" by (simp add: i64_of_u64_def)
  then show ?thesis
    using submit_survives_contention [of "[]" "''job-1''" 5 5 demo_codec "\<lparr>jq_command = RunJob, jq_arguments = [''a'']\<rparr>" "''run''"
        2 demo_faults demo_job_scope]
    by (simp add: job_inv_def row_lookup_def next_sequence_def latest_sequence_def demo_codec_def demo_faults_def
        demo_job_row_def queued_row_def)
qed

definition demo_running :: job_table where
  "demo_running = [(demo_job_row ''running'')\<lparr>rj_started_at := Some 6, rj_worker_id := Some ''worker''\<rparr>]"

lemma demo_codec_faithful_job: "job_codec_faithful demo_codec"
  by (auto simp: job_codec_faithful_def demo_codec_def split: if_splits)

lemma finish_by_owner_witness:
  "\<exists>job t'. finish demo_codec (\<lambda>_. None) ''job-1'' demo_job_scope ''worker'' JobCompleted JNull 9 demo_running = (Inr job, t')
     \<and> inspect_job demo_codec (\<lambda>_. None) ''job-1'' demo_job_scope t' = Inr job"
proof -
  have written: "result_text demo_codec JNull = Inr ''null''"
    by (simp add: result_text_def demo_codec_def MAX_JOB_RESULT_BYTES_def)
  have load: "load_scoped_job demo_codec None ''job-1'' demo_job_scope demo_running
      = Inr (Some \<lparr>jb_id = ''job-1'', jb_scope = demo_job_scope, jb_request = \<lparr>jq_command = RunJob, jq_arguments = [''a'']\<rparr>,
          jb_status = Running, jb_created_at = 5, jb_started_at = Some 6, jb_finished_at = None,
          jb_worker_id = Some ''worker'', jb_result = None\<rparr>)"
    by code_simp
  have "is_ok (fst (finish demo_codec (\<lambda>_. None) ''job-1'' demo_job_scope ''worker'' JobCompleted JNull 9 demo_running))"
    by (simp add: finish_def written on_job_def load job_to_i64_def i64_of_u64_def write_job_def)
  then obtain job t' where c: "finish demo_codec (\<lambda>_. None) ''job-1'' demo_job_scope ''worker'' JobCompleted JNull 9 demo_running = (Inr job, t')"
    by (rule is_ok_fst_cases)
  from finish_by_owner [OF demo_codec_faithful_job c] c show ?thesis by blast
qed

end
