(* ===== verification/Human_Review.thy ===== *)
theory Human_Review
  imports Effects One_Shot
begin

text \<open>
  Human review of a planned effect, \<open>pandora-runtime/src/human_review.rs\<close>. The engine keeps its
  records in a map and its audit trail in a list, oldest receipt first. An operation is one step:
  \<open>resolve\<close> and \<open>status\<close> hold the lock of the records throughout, and between the two locks of
  \<open>submit\<close> only the fresh, already approved record is visible, which no other operation changes.
\<close>

section \<open>Data\<close>

datatype human_mode = HumanInTheLoop | HumanOnTheLoop | HumanOutOfTheLoop

datatype review_state = ReviewPending | ReviewApproved | ReviewRejected | ReviewExpired

datatype review_decision = Approve | Reject

datatype review_error =
  InvalidSubject | InvalidTimeout | ReviewNotFound | AlreadyResolved | ReviewHasExpired | InvalidActor

record review_subject =
  rs_request_digest :: request_digest
  rs_summary :: string

definition new_subject :: "operation_request \<Rightarrow> string \<Rightarrow> review_subject" where
  "new_subject r summary = \<lparr>rs_request_digest = rq_request_digest r, rs_summary = trim summary\<rparr>"

record review_record =
  rv_id :: string
  rv_mode :: human_mode
  rv_subject :: review_subject
  rv_confidence :: u8
  rv_irreversible :: bool
  rv_state :: review_state
  rv_created_at :: timestamp
  rv_expires_at :: timestamp

record review_receipt =
  rr_review_id :: string
  rr_subject_digest :: request_digest
  rr_state :: review_state
  rr_actor :: "string option"
  rr_at :: timestamp

record review_engine =
  he_confidence_threshold :: u8
  he_next_id :: u64
  he_records :: "string \<rightharpoonup> review_record"
  he_audit :: "review_receipt list"


section \<open>Operations\<close>

definition new_review_engine :: "u8 \<Rightarrow> review_engine" where
  "new_review_engine threshold =
     \<lparr>he_confidence_threshold = threshold, he_next_id = 1, he_records = Map.empty, he_audit = []\<rparr>"

definition default_review_engine :: review_engine where
  "default_review_engine = new_review_engine 70"

definition receipt_of :: "review_record \<Rightarrow> review_state \<Rightarrow> string option \<Rightarrow> timestamp \<Rightarrow> review_receipt" where
  "receipt_of r s actor t =
     \<lparr>rr_review_id = rv_id r, rr_subject_digest = rs_request_digest (rv_subject r), rr_state = s,
      rr_actor = actor, rr_at = t\<rparr>"

definition validate_actor :: "string \<Rightarrow> (review_error, string) outcome" where
  "validate_actor actor =
     (let actor = trim actor in
      if actor = [] \<or> has_control actor then Inl InvalidActor else Inr actor)"

definition initial_state :: "u8 \<Rightarrow> human_mode \<Rightarrow> u8 \<Rightarrow> bool \<Rightarrow> review_state" where
  "initial_state threshold mode confidence irreversible =
     (if irreversible then ReviewPending
      else case mode of
        HumanInTheLoop \<Rightarrow> ReviewPending
      | HumanOnTheLoop \<Rightarrow> if confidence < threshold then ReviewPending else ReviewApproved
      | HumanOutOfTheLoop \<Rightarrow> ReviewApproved)"

definition review_name :: "u64 \<Rightarrow> string" where
  "review_name n = ''review-'' @ show_nat (unat n)"

definition submit_review ::
  "human_mode \<Rightarrow> review_subject \<Rightarrow> u8 \<Rightarrow> bool \<Rightarrow> timestamp \<Rightarrow> u64 \<Rightarrow> review_engine
     \<Rightarrow> (review_error, review_record) outcome \<times> review_engine" where
  "submit_review mode subject confidence irreversible created timeout e =
     (if rs_summary subject = [] \<or> length (rs_summary subject) > 4096 then (Inl InvalidSubject, e)
      else if timeout = 0 then (Inl InvalidTimeout, e)
      else case checked_add created timeout of
        None \<Rightarrow> (Inl InvalidTimeout, e)
      | Some expires \<Rightarrow>
          let state = initial_state (he_confidence_threshold e) mode confidence irreversible in
          (case checked_add (he_next_id e) 1 of
             None \<Rightarrow> (Inl InvalidTimeout, e)
           | Some next_id \<Rightarrow>
               let r = \<lparr>rv_id = review_name (he_next_id e), rv_mode = mode, rv_subject = subject,
                        rv_confidence = confidence, rv_irreversible = irreversible, rv_state = state,
                        rv_created_at = created, rv_expires_at = expires\<rparr> in
               (Inr r,
                e\<lparr>he_next_id := next_id, he_records := (he_records e)(rv_id r \<mapsto> r),
                  he_audit := he_audit e @
                    (if state = ReviewApproved then [receipt_of r state None created] else [])\<rparr>)))"

text \<open>Writing the state of a record and its receipt.\<close>

definition settle ::
  "string \<Rightarrow> review_record \<Rightarrow> review_state \<Rightarrow> string option \<Rightarrow> timestamp \<Rightarrow> review_engine \<Rightarrow> review_engine" where
  "settle i r s actor t e =
     e\<lparr>he_records := (he_records e)(i \<mapsto> r\<lparr>rv_state := s\<rparr>), he_audit := he_audit e @ [receipt_of r s actor t]\<rparr>"

definition decided :: "review_decision \<Rightarrow> review_state" where
  "decided d = (case d of Approve \<Rightarrow> ReviewApproved | Reject \<Rightarrow> ReviewRejected)"

definition resolve_review ::
  "string \<Rightarrow> review_decision \<Rightarrow> string \<Rightarrow> timestamp \<Rightarrow> review_engine
     \<Rightarrow> (review_error, review_receipt) outcome \<times> review_engine" where
  "resolve_review i decision actor t e =
     (case validate_actor actor of
        Inl err \<Rightarrow> (Inl err, e)
      | Inr actor \<Rightarrow>
          (case he_records e i of
             None \<Rightarrow> (Inl ReviewNotFound, e)
           | Some r \<Rightarrow>
               if rv_state r \<noteq> ReviewPending then (Inl AlreadyResolved, e)
               else if t \<ge> rv_expires_at r then (Inl ReviewHasExpired, settle i r ReviewExpired None t e)
               else (Inr (receipt_of r (decided decision) (Some actor) t),
                     settle i r (decided decision) (Some actor) t e)))"

definition review_status ::
  "string \<Rightarrow> timestamp \<Rightarrow> review_engine \<Rightarrow> (review_error, review_state) outcome \<times> review_engine" where
  "review_status i t e =
     (case he_records e i of
        None \<Rightarrow> (Inl ReviewNotFound, e)
      | Some r \<Rightarrow>
          if rv_state r = ReviewPending \<and> t \<ge> rv_expires_at r
          then (Inr ReviewExpired, settle i r ReviewExpired None t e)
          else (Inr (rv_state r), e))"

definition can_resume :: "string \<Rightarrow> timestamp \<Rightarrow> review_engine \<Rightarrow> bool \<times> review_engine" where
  "can_resume i t e = (case review_status i t e of (res, e') \<Rightarrow> (res = Inr ReviewApproved, e'))"

definition review_audit :: "review_engine \<Rightarrow> string \<Rightarrow> review_receipt list" where
  "review_audit e i = filter (\<lambda>x. rr_review_id x = i) (he_audit e)"

datatype review_op =
  SubmitReview human_mode review_subject u8 bool timestamp u64
| ResolveReview string review_decision string timestamp
| AskStatus string timestamp

fun exec_review_op :: "review_op \<Rightarrow> review_engine \<Rightarrow> review_engine" where
  "exec_review_op (SubmitReview mode subject confidence irreversible created timeout) e =
     snd (submit_review mode subject confidence irreversible created timeout e)"
| "exec_review_op (ResolveReview i d actor t) e = snd (resolve_review i d actor t e)"
| "exec_review_op (AskStatus i t) e = snd (review_status i t e)"

abbreviation review_run :: "review_op list \<Rightarrow> u8 \<Rightarrow> review_engine" where
  "review_run xs threshold \<equiv> run_ops exec_review_op xs (new_review_engine threshold)"

section \<open>Every operation as a step\<close>

text \<open>An operation leaves the engine alone, opens a review under a fresh name, or settles a pending
  one; the label of a settling step is the receipt it writes.\<close>

inductive review_step :: "review_engine \<Rightarrow> review_engine \<Rightarrow> bool" where
  idle: "review_step e e"
| opened:
    "\<lbrakk> rv_id r = review_name (he_next_id e); unat next_id = Suc (unat (he_next_id e));
       rv_state r = initial_state (he_confidence_threshold e) (rv_mode r) (rv_confidence r) (rv_irreversible r);
       rs_summary (rv_subject r) \<noteq> []; length (rs_summary (rv_subject r)) \<le> 4096;
       rv_created_at r < rv_expires_at r;
       rcs = (if rv_state r = ReviewApproved then [receipt_of r ReviewApproved None (rv_created_at r)] else []) \<rbrakk>
     \<Longrightarrow> review_step e (e\<lparr>he_next_id := next_id, he_records := (he_records e)(rv_id r \<mapsto> r),
                             he_audit := he_audit e @ rcs\<rparr>)"
| settled:
    "\<lbrakk> he_records e i = Some r; rv_state r = ReviewPending; s \<noteq> ReviewPending \<rbrakk>
     \<Longrightarrow> review_step e (settle i r s actor t e)"

lemma decided_not_pending [simp]: "decided d \<noteq> ReviewPending"
  by (simp add: decided_def split: review_decision.split)

lemma decided_eq_iff [simp]:
  "decided d = ReviewApproved \<longleftrightarrow> d = Approve" "decided d = ReviewRejected \<longleftrightarrow> d = Reject" "decided d \<noteq> ReviewExpired"
  by (simp_all add: decided_def split: review_decision.split)

lemma checked_add_less:
  fixes a b c :: "'a::len word"
  assumes "checked_add a b = Some c" "b \<noteq> 0"
  shows "a < c"
  using assms by (simp add: checked_add_Some_iff word_less_nat_alt unat_gt_0)

lemma submit_review_step: "review_step e (snd (submit_review mode subject confidence irreversible created timeout e))"
proof (cases "snd (submit_review mode subject confidence irreversible created timeout e) = e")
  case True
  then show ?thesis by (simp add: idle)
next
  case False
  then obtain expires next_id where guards: "rs_summary subject \<noteq> []" "length (rs_summary subject) \<le> 4096" "timeout \<noteq> 0"
    and expires: "checked_add created timeout = Some expires" and next_id: "checked_add (he_next_id e) 1 = Some next_id"
    by (auto simp: submit_review_def Let_def split: if_splits option.splits)
  define r where "r = \<lparr>rv_id = review_name (he_next_id e), rv_mode = mode, rv_subject = subject,
    rv_confidence = confidence, rv_irreversible = irreversible,
    rv_state = initial_state (he_confidence_threshold e) mode confidence irreversible,
    rv_created_at = created, rv_expires_at = expires\<rparr>"
  have "review_step e (e\<lparr>he_next_id := next_id, he_records := (he_records e)(rv_id r \<mapsto> r),
      he_audit := he_audit e @ (if rv_state r = ReviewApproved then [receipt_of r ReviewApproved None (rv_created_at r)] else [])\<rparr>)"
  proof (rule opened)
    show "unat next_id = Suc (unat (he_next_id e))"
      using next_id by (simp add: checked_add_Some_iff)
    show "rv_created_at r < rv_expires_at r"
      using checked_add_less [OF expires guards(3)] by (simp add: r_def)
  qed (use guards in \<open>simp_all add: r_def\<close>)
  moreover have "snd (submit_review mode subject confidence irreversible created timeout e) =
    e\<lparr>he_next_id := next_id, he_records := (he_records e)(rv_id r \<mapsto> r),
      he_audit := he_audit e @ (if rv_state r = ReviewApproved then [receipt_of r ReviewApproved None (rv_created_at r)] else [])\<rparr>"
    using guards expires next_id by (auto simp: submit_review_def Let_def r_def)
  ultimately show ?thesis by simp
qed

lemma exec_review_step: "review_step e (exec_review_op x e)"
proof (cases x)
  case (SubmitReview mode subject confidence irreversible created timeout)
  then show ?thesis by (simp add: submit_review_step)
next
  case (ResolveReview i d actor t)
  then show ?thesis
    by (auto simp: resolve_review_def intro: idle settled split: sum.splits option.splits)
next
  case (AskStatus i t)
  then show ?thesis by (auto simp: review_status_def intro: idle settled split: option.splits)
qed


section \<open>The invariant\<close>

text \<open>Records are stored under their names, which were drawn from the counter; summaries are bounded,
  reviews expire after they were created; and the audit trail of a name tells the state of its record.\<close>

definition review_wf :: "u64 \<Rightarrow> string \<Rightarrow> review_record \<Rightarrow> bool" where
  "review_wf next_id i r \<longleftrightarrow>
     rv_id r = i \<and> (\<exists>n < next_id. i = review_name n)
   \<and> rs_summary (rv_subject r) \<noteq> [] \<and> length (rs_summary (rv_subject r)) \<le> 4096
   \<and> rv_created_at r < rv_expires_at r"

definition trail_of :: "review_record option \<Rightarrow> (review_state \<times> request_digest) list" where
  "trail_of r =
     (case r of
        None \<Rightarrow> []
      | Some r \<Rightarrow> if rv_state r = ReviewPending then [] else [(rv_state r, rs_request_digest (rv_subject r))])"

abbreviation trail :: "review_engine \<Rightarrow> string \<Rightarrow> (review_state \<times> request_digest) list" where
  "trail e i \<equiv> map (\<lambda>x. (rr_state x, rr_subject_digest x)) (review_audit e i)"

definition review_inv :: "review_engine \<Rightarrow> bool" where
  "review_inv e \<longleftrightarrow>
     (\<forall>i r. he_records e i = Some r \<longrightarrow> review_wf (he_next_id e) i r)
   \<and> (\<forall>i. trail e i = trail_of (he_records e i))"

lemma review_name_inject [simp]: "review_name m = review_name n \<longleftrightarrow> m = n"
  by (simp add: review_name_def word_unat_eq_iff)

lemma review_inv_wf: "review_inv e \<Longrightarrow> he_records e i = Some r \<Longrightarrow> review_wf (he_next_id e) i r"
  by (simp add: review_inv_def)

lemma review_inv_fresh:
  assumes "review_inv e"
  shows "he_records e (review_name (he_next_id e)) = None"
  using assms review_inv_wf [of e "review_name (he_next_id e)"]
  by (cases "he_records e (review_name (he_next_id e))") (auto simp: review_wf_def)

lemma review_wf_mono: "review_wf n i r \<Longrightarrow> n \<le> n' \<Longrightarrow> review_wf n' i r"
  unfolding review_wf_def by (meson order_less_le_trans)

lemma review_audit_opened [simp]:
  "review_audit (e\<lparr>he_next_id := n, he_records := m, he_audit := he_audit e @ rcs\<rparr>) i =
     review_audit e i @ filter (\<lambda>x. rr_review_id x = i) rcs"
  by (simp add: review_audit_def)

lemma review_step_inv:
  assumes "review_step e e'" "review_inv e"
  shows "review_inv e'"
  using assms
proof (induction rule: review_step.induct)
  case (idle e)
  then show ?case .
next
  case (opened r e next_id rcs)
  note fresh = review_inv_fresh [OF opened.prems]
  have lt: "he_next_id e < next_id" using opened.hyps(2) by (simp add: word_less_nat_alt)
  have "review_wf next_id j r'" if "((he_records e)(rv_id r \<mapsto> r)) j = Some r'" for j r'
  proof (cases "j = rv_id r")
    case True
    then show ?thesis using that opened.hyps lt by (auto simp: review_wf_def)
  next
    case False
    then show ?thesis using that opened.prems lt
      by (auto simp: review_inv_def intro: review_wf_mono less_imp_le)
  qed
  moreover have "trail (e\<lparr>he_next_id := next_id, he_records := (he_records e)(rv_id r \<mapsto> r), he_audit := he_audit e @ rcs\<rparr>) j
      = trail_of (((he_records e)(rv_id r \<mapsto> r)) j)" for j
  proof -
    have "rv_state r = ReviewApproved \<or> rv_state r = ReviewPending"
      using opened.hyps(3) by (auto simp: initial_state_def split: human_mode.splits if_splits)
    moreover have "trail e j = trail_of (he_records e j)" using opened.prems by (simp add: review_inv_def)
    ultimately show ?thesis using fresh opened.hyps(1,7)
      by (auto simp: trail_of_def receipt_of_def)
  qed
  ultimately show ?case by (simp add: review_inv_def)
next
  case (settled e i r s actor t)
  have wf: "review_wf (he_next_id e) i r" and tr: "\<And>j. trail e j = trail_of (he_records e j)"
    using settled by (auto simp: review_inv_def)
  have "review_wf (he_next_id e) j r'" if "he_records (settle i r s actor t e) j = Some r'" for j r'
    using that wf settled.prems by (auto simp: settle_def review_inv_def review_wf_def split: if_splits)
  moreover have "trail (settle i r s actor t e) j = trail_of (he_records (settle i r s actor t e) j)" for j
    using tr [of j] settled.hyps wf
    by (auto simp: settle_def review_audit_def trail_of_def receipt_of_def review_wf_def)
  moreover have "he_next_id (settle i r s actor t e) = he_next_id e" by (simp add: settle_def)
  ultimately show ?case by (simp add: review_inv_def)
qed

lemma review_inv_new: "review_inv (new_review_engine threshold)"
  by (simp add: review_inv_def new_review_engine_def review_audit_def trail_of_def)

lemma review_inv_run: "review_inv (review_run xs threshold)"
  using review_inv_new by (rule run_ops_invariant [rotated]) (rule review_step_inv [OF exec_review_step])

lemma threshold_run: "he_confidence_threshold (review_run xs threshold) = threshold"
proof -
  have "he_confidence_threshold (exec_review_op x e) = he_confidence_threshold e" for x e
    using exec_review_step [of e x] by (auto elim!: review_step.cases simp: settle_def)
  then show ?thesis
    by (intro run_ops_invariant [where I = "\<lambda>e. he_confidence_threshold e = threshold"])
       (simp_all add: new_review_engine_def)
qed

section \<open>Approvals have a cause\<close>

text \<open>The reviews the code approves by itself.\<close>

definition waived :: "u8 \<Rightarrow> review_record \<Rightarrow> bool" where
  "waived threshold r \<longleftrightarrow>
     \<not> rv_irreversible r
   \<and> (rv_mode r = HumanOutOfTheLoop \<or> rv_mode r = HumanOnTheLoop \<and> threshold \<le> rv_confidence r)"

lemma initial_state_approved_iff:
  "initial_state th (rv_mode r) (rv_confidence r) (rv_irreversible r) = ReviewApproved \<longleftrightarrow> waived th r"
  by (auto simp: initial_state_def waived_def not_less split: human_mode.splits)

text \<open>The person \<open>actor\<close> approves \<open>r\<close> in time.\<close>

definition approves_review :: "review_op \<Rightarrow> review_engine \<Rightarrow> string \<Rightarrow> review_record \<Rightarrow> bool" where
  "approves_review x e i r \<longleftrightarrow>
     (\<exists>actor t. x = ResolveReview i Approve actor t
        \<and> is_ok (validate_actor actor) \<and> t < rv_expires_at r
        \<and> he_records e i = Some (r\<lparr>rv_state := ReviewPending\<rparr>))"

lemma submit_review_records:
  "he_records (snd (submit_review mode subject confidence irreversible created timeout e)) i = Some r \<Longrightarrow>
   he_records e i = Some r \<or>
   rv_state r = initial_state (he_confidence_threshold e) (rv_mode r) (rv_confidence r) (rv_irreversible r)"
  by (auto simp: submit_review_def Let_def split: if_splits option.splits)

lemma approved_step:
  assumes "he_records (exec_review_op x e) i = Some r" "rv_state r = ReviewApproved"
  shows "he_records e i = Some r \<or> waived (he_confidence_threshold e) r \<or> approves_review x e i r"
proof (cases x)
  case (SubmitReview mode subject confidence irreversible created timeout)
  then show ?thesis
    using assms submit_review_records [of mode subject confidence irreversible created timeout e i r]
    by (auto simp: initial_state_approved_iff [symmetric])
next
  case (ResolveReview j d actor t)
  then show ?thesis using assms
    by (auto simp: resolve_review_def settle_def approves_review_def not_le split: sum.splits option.splits if_splits)
next
  case (AskStatus j t)
  then show ?thesis using assms
    by (auto simp: review_status_def settle_def split: option.splits if_splits)
qed

lemma approved_cause:
  assumes "he_records (review_run xs th) i = Some r" "rv_state r = ReviewApproved"
  shows "waived th r \<or> (\<exists>ys x zs. xs = ys @ x # zs \<and> approves_review x (review_run ys th) i r)"
  using assms(1)
proof (induction xs rule: rev_induct)
  case Nil
  then show ?case by (simp add: new_review_engine_def)
next
  case (snoc x xs)
  have "he_records (exec_review_op x (review_run xs th)) i = Some r"
    using snoc.prems by (simp add: run_ops_append)
  from approved_step [OF this assms(2)] show ?case
  proof (elim disjE)
    assume "he_records (review_run xs th) i = Some r"
    from snoc.IH [OF this] show ?thesis by (metis append_Cons append_assoc)
  qed (auto simp: threshold_run)
qed


section \<open>A review is decided once\<close>

fun decides :: "review_op \<Rightarrow> review_engine \<Rightarrow> string option" where
  "decides (ResolveReview i d actor t) e = (if is_ok (fst (resolve_review i d actor t e)) then Some i else None)"
| "decides _ e = None"

definition review_settled :: "review_engine \<Rightarrow> string \<Rightarrow> bool" where
  "review_settled e i \<longleftrightarrow> (\<exists>r. he_records e i = Some r \<and> rv_state r \<noteq> ReviewPending)"

lemma review_settled_kept:
  assumes "review_step e e'" "review_inv e" "he_records e i = Some r" "rv_state r \<noteq> ReviewPending"
  shows "he_records e' i = Some r"
  using assms
proof (induction rule: review_step.induct)
  case (opened r' e next_id rcs)
  then show ?case using review_inv_fresh by fastforce
qed (auto simp: settle_def)

interpretation reviews: guarded_one_shot exec_review_op decides review_settled review_inv
proof
  fix e x assume "review_inv e"
  then show "review_inv (exec_review_op x e)" by (rule review_step_inv [OF exec_review_step])
next
  fix e x i assume "decides x e = Some i"
  then show "\<not> review_settled e i" "review_settled (exec_review_op x e) i"
    by (cases x; auto simp: resolve_review_def review_settled_def settle_def split: sum.splits option.splits if_splits)+
next
  fix e x i assume "review_inv e" "review_settled e i"
  then show "review_settled (exec_review_op x e) i"
    using review_settled_kept [OF exec_review_step] by (fastforce simp: review_settled_def)
qed


section \<open>Properties\<close>

text \<open>C11: execution resumes only with a cause. After any sequence of operations, a review that lets
  the execution resume was either waived by its mode, which never happens to an irreversible effect and
  under supervision needs the confidence threshold, or approved by a named person before it expired.\<close>

theorem resume_has_cause:
  assumes "fst (can_resume i t (review_run xs threshold))"
  shows "\<exists>r. he_records (review_run xs threshold) i = Some r \<and>
     (waived threshold r \<or>
      (\<exists>ys actor t' zs. xs = ys @ ResolveReview i Approve actor t' # zs
         \<and> is_ok (validate_actor actor) \<and> t' < rv_expires_at r
         \<and> is_ok (fst (resolve_review i Approve actor t' (review_run ys threshold)))))"
proof -
  obtain r where r: "he_records (review_run xs threshold) i = Some r" "rv_state r = ReviewApproved"
    using assms by (auto simp: can_resume_def review_status_def split: prod.splits option.splits if_splits)
  from approved_cause [OF this] show ?thesis
  proof (elim disjE exE conjE)
    fix ys x zs
    assume xs: "xs = ys @ x # zs" and "approves_review x (review_run ys threshold) i r"
    then obtain actor t' where "x = ResolveReview i Approve actor t'" "is_ok (validate_actor actor)" "t' < rv_expires_at r"
      "he_records (review_run ys threshold) i = Some (r\<lparr>rv_state := ReviewPending\<rparr>)"
      by (auto simp: approves_review_def)
    then have "is_ok (fst (resolve_review i Approve actor t' (review_run ys threshold)))"
      by (auto simp: resolve_review_def not_le is_ok_iff)
    with r xs \<open>x = _\<close> \<open>is_ok (validate_actor actor)\<close> \<open>t' < _\<close> show ?thesis by blast
  qed (use r in blast)
qed

text \<open>The audit trail is exact. After any sequence of operations the receipts of a name are none
  while its review is unknown or pending and a single one otherwise, which carries the state of the review
  and the digest of the request under review; and no review is decided twice.\<close>

lemma review_audit_exact:
  "map (\<lambda>x. (rr_state x, rr_subject_digest x)) (review_audit (review_run xs threshold) i) =
     (case he_records (review_run xs threshold) i of
        None \<Rightarrow> []
      | Some r \<Rightarrow> if rv_state r = ReviewPending then [] else [(rv_state r, rs_request_digest (rv_subject r))])
   \<and> distinct (redemptions exec_review_op decides xs (new_review_engine threshold))"
  using review_inv_run [of xs threshold] reviews.guarded_once [OF review_inv_new]
  by (simp add: review_inv_def trail_of_def)

text \<open>The records of an engine are well formed: after any sequence of operations every stored
  review carries the name it is stored under, was named by the counter, has a summary of 1 to 4096 bytes
  and expires strictly after it was created, so no addition of a timeout wrapped around.\<close>

lemma review_records_typed:
  assumes "he_records (review_run xs threshold) i = Some r"
  shows "rv_id r = i \<and> (\<exists>n < he_next_id (review_run xs threshold). i = review_name n)
    \<and> length (rs_summary (rv_subject r)) \<in> {1..4096} \<and> rv_created_at r < rv_expires_at r"
  using review_inv_wf [OF review_inv_run assms] by (auto simp: review_wf_def Suc_le_eq)

definition demo_review_ops :: "review_op list" where
  "demo_review_ops =
     [SubmitReview HumanInTheLoop \<lparr>rs_request_digest = ''digest'', rs_summary = ''write file''\<rparr> 90 True 100 60,
      ResolveReview ''review-1'' Approve ''ada'' 120]"

lemma demo_actor: "validate_actor ''ada'' = Inr ''ada''"
  by (simp add: validate_actor_def trim_visible_id visible_def)

lemma demo_review_name: "review_name 1 = ''review-1''"
  by code_simp

lemma demo_review_run:
  "he_records (review_run demo_review_ops 70) ''review-1'' =
     Some \<lparr>rv_id = ''review-1'', rv_mode = HumanInTheLoop,
           rv_subject = \<lparr>rs_request_digest = ''digest'', rs_summary = ''write file''\<rparr>, rv_confidence = 90,
           rv_irreversible = True, rv_state = ReviewApproved, rv_created_at = 100, rv_expires_at = 160\<rparr>"
  by (simp add: demo_review_ops_def new_review_engine_def submit_review_def checked_add_def initial_state_def
      demo_review_name Let_def resolve_review_def demo_actor settle_def decided_def)

theorem resume_has_cause_witness:
  "fst (can_resume ''review-1'' 130 (review_run demo_review_ops 70)) \<and>
   (\<exists>r. he_records (review_run demo_review_ops 70) ''review-1'' = Some r \<and> rv_irreversible r)"
  using resume_has_cause [of "''review-1''" 130 demo_review_ops 70]
  by (simp add: can_resume_def review_status_def demo_review_run)

lemma review_records_typed_witness:
  "he_records (review_run demo_review_ops 70) ''review-1'' \<noteq> None \<and> (100 :: timestamp) < 160"
  using review_records_typed [OF demo_review_run] by (simp add: demo_review_run)

end
