(* ===== verification/Rollout.thy ===== *)
theory Rollout
  imports Events
begin

text \<open>
  The rollout of an execution, \<open>pandora-types/src/rollout.rs\<close>: a chain of evidence records, each
  bound by its digest to its position, its scope, its predecessor and its evidence. The bytes fed to
  SHA-256 are modelled exactly (\<open>digest_text\<close> is the same helper as in the execution profile) and the
  hash is the parameter \<open>sha\<close>. The main lemma is that verification accepts exactly the chains that
  linking the evidence produces, and that the final digest therefore determines the whole rollout.
\<close>

section \<open>Data\<close>

definition ROLLOUT_PROJECTION_VERSION :: u16 where
  "ROLLOUT_PROJECTION_VERSION = 1"

definition MAX_ROLLOUT_RECORDS :: nat where
  "MAX_ROLLOUT_RECORDS = 4096"

definition MAX_LABEL_BYTES :: nat where
  "MAX_LABEL_BYTES = 256"

definition MAX_REASON_BYTES :: nat where
  "MAX_REASON_BYTES = 4096"

datatype rollout_error =
  RolloutInvalidId id_error
| RolloutEmptyField string
| RolloutFieldTooLong string
| RolloutInvalidCode string
| RolloutInvalidDigest
| EmptyRecords
| TooManyRecords
| InvalidSequence
| RolloutScopeMismatch
| PreviousDigestMismatch
| RecordDigestMismatch
| FinalDigestMismatch

type_synonym rollout_digest = string

record rollout_scope =
  rsc_tenant_id :: tenant_id
  rsc_workspace_id :: workspace_id
  rsc_session_id :: session_id
  rsc_execution_id :: execution_id

datatype record_kind = ContextManifestKind | RuntimeEventKind | EffectReceiptKind

fun record_kind_str :: "record_kind \<Rightarrow> string" where
  "record_kind_str ContextManifestKind = ''context_manifest''"
| "record_kind_str RuntimeEventKind = ''runtime_event''"
| "record_kind_str EffectReceiptKind = ''effect_receipt''"

datatype event_evidence =
  NoEvidence
| EffectEvidence string request_digest
| PolicyEvidence rollout_digest
| FailureEvidence string
| ProviderCallEvidence string request_digest
| McpEraEvidence string string bool

datatype outcome_evidence =
  SucceededEvidence
| FailedEvidence string
| DeniedEvidence rollout_digest

datatype rollout_evidence =
  ContextManifest rollout_digest
| RuntimeEventRecord event_id event_type "harness_id option" "gene_id option" "u32 option"
    "receipt_id option" event_evidence
| EffectReceiptRecord receipt_id permit_id request_digest timestamp outcome_evidence

record rollout_record =
  rd_sequence :: u32
  rd_scope_digest :: rollout_digest
  rd_previous_digest :: "rollout_digest option"
  rd_evidence :: rollout_evidence
  rd_digest :: rollout_digest

record rollout =
  ro_projection_version :: u16
  ro_scope :: rollout_scope
  ro_records :: "rollout_record list"
  ro_final_digest :: rollout_digest


section \<open>Validation\<close>

definition is_sha256_digest :: "string \<Rightarrow> bool" where
  "is_sha256_digest value \<longleftrightarrow>
     starts_with value ''sha256:'' \<and> length (drop 7 value) = 64
   \<and> list_all (\<lambda>c. is_ascii_digit c \<or> ((97 :: nat) \<le> of_char c \<and> of_char c \<le> (102 :: nat))) (drop 7 value)"

definition new_rollout_digest :: "string \<Rightarrow> (rollout_error, rollout_digest) outcome" where
  "new_rollout_digest value = (if is_sha256_digest value then Inr value else Inl RolloutInvalidDigest)"

definition check_identifier :: "string \<Rightarrow> string \<Rightarrow> (rollout_error, unit) outcome" where
  "check_identifier field value =
     (if blank value then Inl (RolloutEmptyField field)
      else if length value > MAX_LABEL_BYTES then Inl (RolloutFieldTooLong field)
      else Inr ())"

definition check_optional_identifier :: "string \<Rightarrow> string option \<Rightarrow> (rollout_error, unit) outcome" where
  "check_optional_identifier field value = (case value of None \<Rightarrow> Inr () | Some v \<Rightarrow> check_identifier field v)"

definition validate_label :: "string \<Rightarrow> string \<Rightarrow> (rollout_error, string) outcome" where
  "validate_label field value =
     and_then (check_identifier field value) (\<lambda>_.
       if has_control value then Inl (RolloutInvalidCode field) else Inr value)"

definition validate_code :: "string \<Rightarrow> string \<Rightarrow> (rollout_error, string) outcome" where
  "validate_code field value =
     and_then (check_identifier field value) (\<lambda>_.
       if list_all (\<lambda>c. is_ascii_alphanumeric c \<or> c \<in> set ''_-.:/'') value then Inr value
       else Inl (RolloutInvalidCode field))"

definition new_rollout_scope ::
  "string \<Rightarrow> string \<Rightarrow> string \<Rightarrow> string \<Rightarrow> (rollout_error, rollout_scope) outcome" where
  "new_rollout_scope tenant workspace session execution =
     and_then (map_err RolloutInvalidId (new_id tenant)) (\<lambda>tenant.
     and_then (map_err RolloutInvalidId (new_id workspace)) (\<lambda>workspace.
     and_then (map_err RolloutInvalidId (new_id session)) (\<lambda>session.
     and_then (map_err RolloutInvalidId (new_id execution)) (\<lambda>execution.
       Inr \<lparr>rsc_tenant_id = tenant, rsc_workspace_id = workspace, rsc_session_id = session,
            rsc_execution_id = execution\<rparr>))))"

fun validate_event_evidence :: "event_evidence \<Rightarrow> (rollout_error, unit) outcome" where
  "validate_event_evidence NoEvidence = Inr ()"
| "validate_event_evidence (EffectEvidence capability d) =
     and_then (validate_code ''capability'' capability) (\<lambda>_. check_identifier ''request digest'' d)"
| "validate_event_evidence (PolicyEvidence d) = and_then (new_rollout_digest d) (\<lambda>_. Inr ())"
| "validate_event_evidence (FailureEvidence code) = and_then (validate_code ''failure code'' code) (\<lambda>_. Inr ())"
| "validate_event_evidence (ProviderCallEvidence provider d) =
     and_then (validate_label ''provider'' provider) (\<lambda>_. check_identifier ''request digest'' d)"
| "validate_event_evidence (McpEraEvidence server era downgraded) =
     and_then (validate_label ''MCP server'' server) (\<lambda>_.
     and_then (validate_code ''MCP era'' era) (\<lambda>_. Inr ()))"

fun validate_outcome :: "outcome_evidence \<Rightarrow> (rollout_error, unit) outcome" where
  "validate_outcome SucceededEvidence = Inr ()"
| "validate_outcome (FailedEvidence code) = and_then (validate_code ''effect failure code'' code) (\<lambda>_. Inr ())"
| "validate_outcome (DeniedEvidence d) = and_then (new_rollout_digest d) (\<lambda>_. Inr ())"

fun validate_evidence :: "rollout_evidence \<Rightarrow> (rollout_error, unit) outcome" where
  "validate_evidence (ContextManifest d) = and_then (new_rollout_digest d) (\<lambda>_. Inr ())"
| "validate_evidence (RuntimeEventRecord i ty harness gene policy receipt payload) =
     and_then (check_identifier ''event ID'' i) (\<lambda>_.
     and_then (check_optional_identifier ''harness ID'' harness) (\<lambda>_.
     and_then (check_optional_identifier ''gene ID'' gene) (\<lambda>_.
     and_then (check_optional_identifier ''receipt ID'' receipt) (\<lambda>_. validate_event_evidence payload))))"
| "validate_evidence (EffectReceiptRecord receipt permit d completed out) =
     and_then (check_identifier ''receipt ID'' receipt) (\<lambda>_.
     and_then (check_identifier ''permit ID'' permit) (\<lambda>_.
     and_then (check_identifier ''request digest'' d) (\<lambda>_. validate_outcome out)))"

fun evidence_kind :: "rollout_evidence \<Rightarrow> record_kind" where
  "evidence_kind (ContextManifest _) = ContextManifestKind"
| "evidence_kind (RuntimeEventRecord _ _ _ _ _ _ _) = RuntimeEventKind"
| "evidence_kind (EffectReceiptRecord _ _ _ _ _) = EffectReceiptKind"


section \<open>Digests\<close>

definition finish_digest :: "(string \<Rightarrow> string) \<Rightarrow> string \<Rightarrow> rollout_digest" where
  "finish_digest sha bytes = ''sha256:'' @ hex_encode (sha bytes)"

definition optional_text :: "string option \<Rightarrow> string" where
  "optional_text v = (case v of Some v \<Rightarrow> CHR 0x01 # digest_text v | None \<Rightarrow> [CHR 0x00])"

definition optional_u32 :: "u32 option \<Rightarrow> string" where
  "optional_u32 v = (case v of Some v \<Rightarrow> CHR 0x01 # be_bytes 4 (unat v) | None \<Rightarrow> [CHR 0x00])"

fun event_type_code :: "event_type \<Rightarrow> string" where
  "event_type_code SessionStarted = ''session_started''"
| "event_type_code EffectRequested = ''effect_requested''"
| "event_type_code EffectCompleted = ''effect_completed''"
| "event_type_code PolicyApproved = ''policy_approved''"
| "event_type_code PolicyDenied = ''policy_denied''"
| "event_type_code ApprovalRequiredEvent = ''approval_required''"
| "event_type_code ExecutionFailed = ''execution_failed''"
| "event_type_code ProviderCall = ''provider_call''"
| "event_type_code McpEraSelected = ''mcp_era_selected''"

fun event_evidence_bytes :: "event_evidence \<Rightarrow> string" where
  "event_evidence_bytes NoEvidence = digest_text ''empty''"
| "event_evidence_bytes (EffectEvidence capability d) =
     digest_text ''effect'' @ digest_text capability @ digest_text d"
| "event_evidence_bytes (PolicyEvidence d) = digest_text ''policy'' @ digest_text d"
| "event_evidence_bytes (FailureEvidence code) = digest_text ''failure'' @ digest_text code"
| "event_evidence_bytes (ProviderCallEvidence provider d) =
     digest_text ''provider_call'' @ digest_text provider @ digest_text d"
| "event_evidence_bytes (McpEraEvidence server era downgraded) =
     digest_text ''mcp_era'' @ digest_text server @ digest_text era @ [if downgraded then CHR 0x01 else CHR 0x00]"

fun outcome_bytes :: "outcome_evidence \<Rightarrow> string" where
  "outcome_bytes SucceededEvidence = digest_text ''succeeded''"
| "outcome_bytes (FailedEvidence code) = digest_text ''failed'' @ digest_text code"
| "outcome_bytes (DeniedEvidence d) = digest_text ''denied'' @ digest_text d"

fun evidence_body :: "rollout_evidence \<Rightarrow> string" where
  "evidence_body (ContextManifest d) = digest_text d"
| "evidence_body (RuntimeEventRecord i ty harness gene policy receipt payload) =
     digest_text i @ digest_text (event_type_code ty) @ optional_text harness @ optional_text gene @
     optional_u32 policy @ optional_text receipt @ event_evidence_bytes payload"
| "evidence_body (EffectReceiptRecord receipt permit d completed out) =
     digest_text receipt @ digest_text permit @ digest_text d @ be_bytes 8 (unat completed) @ outcome_bytes out"

definition evidence_bytes :: "rollout_evidence \<Rightarrow> string" where
  "evidence_bytes e = digest_text (record_kind_str (evidence_kind e)) @ evidence_body e"

definition scope_bytes :: "rollout_scope \<Rightarrow> string" where
  "scope_bytes s =
     ''pandora-rollout-scope'' @ digest_text (rsc_tenant_id s) @ digest_text (rsc_workspace_id s) @
     digest_text (rsc_session_id s) @ digest_text (rsc_execution_id s)"

definition scope_digest :: "(string \<Rightarrow> string) \<Rightarrow> rollout_scope \<Rightarrow> rollout_digest" where
  "scope_digest sha s = finish_digest sha (scope_bytes s)"

definition record_bytes :: "u32 \<Rightarrow> rollout_digest \<Rightarrow> rollout_digest option \<Rightarrow> rollout_evidence \<Rightarrow> string" where
  "record_bytes sequence sd prev e =
     ''pandora-rollout-record'' @ be_bytes 2 (unat ROLLOUT_PROJECTION_VERSION) @ be_bytes 4 (unat sequence) @
     digest_text sd @ optional_text prev @ evidence_bytes e"

definition digest_record ::
  "(string \<Rightarrow> string) \<Rightarrow> u32 \<Rightarrow> rollout_digest \<Rightarrow> rollout_digest option \<Rightarrow> rollout_evidence \<Rightarrow> rollout_digest" where
  "digest_record sha sequence sd prev e = finish_digest sha (record_bytes sequence sd prev e)"

definition digest_sensitive :: "(string \<Rightarrow> string) \<Rightarrow> string \<Rightarrow> string \<Rightarrow> (rollout_error, rollout_digest) outcome" where
  "digest_sensitive sha domain value =
     (if blank value then Inl (RolloutEmptyField ''redacted reason'')
      else if length value > MAX_REASON_BYTES then Inl (RolloutFieldTooLong ''redacted reason'')
      else Inr (finish_digest sha (domain @ digest_text value)))"


section \<open>Constructors of the evidence\<close>

definition effect_evidence :: "string \<Rightarrow> request_digest \<Rightarrow> (rollout_error, event_evidence) outcome" where
  "effect_evidence capability d =
     and_then (validate_code ''capability'' capability) (\<lambda>c. Inr (EffectEvidence c d))"

definition policy_evidence :: "(string \<Rightarrow> string) \<Rightarrow> string \<Rightarrow> (rollout_error, event_evidence) outcome" where
  "policy_evidence sha reason =
     and_then (digest_sensitive sha ''pandora-rollout-policy-reason'' reason) (\<lambda>d. Inr (PolicyEvidence d))"

definition failure_evidence :: "string \<Rightarrow> (rollout_error, event_evidence) outcome" where
  "failure_evidence code = and_then (validate_code ''failure code'' code) (\<lambda>c. Inr (FailureEvidence c))"

definition provider_call_evidence :: "string \<Rightarrow> request_digest \<Rightarrow> (rollout_error, event_evidence) outcome" where
  "provider_call_evidence provider d =
     and_then (validate_label ''provider'' provider) (\<lambda>p. Inr (ProviderCallEvidence p d))"

definition mcp_era_evidence :: "string \<Rightarrow> string \<Rightarrow> bool \<Rightarrow> (rollout_error, event_evidence) outcome" where
  "mcp_era_evidence server era downgraded =
     and_then (validate_label ''MCP server'' server) (\<lambda>s.
     and_then (validate_code ''MCP era'' era) (\<lambda>e. Inr (McpEraEvidence s e downgraded)))"

fun from_effect_outcome :: "(string \<Rightarrow> string) \<Rightarrow> effect_outcome \<Rightarrow> (rollout_error, outcome_evidence) outcome" where
  "from_effect_outcome sha Succeeded = Inr SucceededEvidence"
| "from_effect_outcome sha (Failed code) =
     and_then (validate_code ''effect failure code'' code) (\<lambda>c. Inr (FailedEvidence c))"
| "from_effect_outcome sha (OutcomeDenied reason) =
     and_then (digest_sensitive sha ''pandora-rollout-denial-reason'' reason) (\<lambda>d. Inr (DeniedEvidence d))"


section \<open>Records and rollouts\<close>

definition link ::
  "(string \<Rightarrow> string) \<Rightarrow> rollout_scope \<Rightarrow> u32 \<Rightarrow> rollout_digest option \<Rightarrow> rollout_evidence
     \<Rightarrow> (rollout_error, rollout_record) outcome" where
  "link sha scope sequence prev e =
     and_then (validate_evidence e) (\<lambda>_.
       let sd = scope_digest sha scope in
       Inr \<lparr>rd_sequence = sequence, rd_scope_digest = sd, rd_previous_digest = prev, rd_evidence = e,
            rd_digest = digest_record sha sequence sd prev e\<rparr>)"

definition verify_record :: "(string \<Rightarrow> string) \<Rightarrow> rollout_record \<Rightarrow> (rollout_error, unit) outcome" where
  "verify_record sha r =
     and_then (validate_evidence (rd_evidence r)) (\<lambda>_.
       ensure (digest_record sha (rd_sequence r) (rd_scope_digest r) (rd_previous_digest r) (rd_evidence r) = rd_digest r)
         RecordDigestMismatch)"

text \<open>The loop of \<open>verify_records\<close>, from index \<open>i\<close> with the previous digest; it returns the digest
  of the last record.\<close>

fun verify_loop ::
  "(string \<Rightarrow> string) \<Rightarrow> rollout_digest \<Rightarrow> nat \<Rightarrow> rollout_digest option \<Rightarrow> rollout_record list
     \<Rightarrow> (rollout_error, rollout_digest option) outcome" where
  "verify_loop sha sd i prev [] = Inr prev"
| "verify_loop sha sd i prev (r # rs) =
     (if i \<ge> 2 ^ 32 then Inl TooManyRecords
      else if rd_sequence r \<noteq> of_nat i then Inl InvalidSequence
      else if rd_scope_digest r \<noteq> sd then Inl RolloutScopeMismatch
      else if rd_previous_digest r \<noteq> prev then Inl PreviousDigestMismatch
      else and_then (verify_record sha r) (\<lambda>_. verify_loop sha sd (Suc i) (Some (rd_digest r)) rs))"

definition verify_records ::
  "(string \<Rightarrow> string) \<Rightarrow> rollout_scope \<Rightarrow> rollout_record list \<Rightarrow> rollout_digest \<Rightarrow> (rollout_error, unit) outcome" where
  "verify_records sha scope records final =
     (if records = [] then Inl EmptyRecords
      else if length records > MAX_ROLLOUT_RECORDS then Inl TooManyRecords
      else and_then (verify_loop sha (scope_digest sha scope) 0 None records) (\<lambda>prev.
             ensure (prev = Some final) FinalDigestMismatch))"

definition new_rollout ::
  "(string \<Rightarrow> string) \<Rightarrow> rollout_scope \<Rightarrow> rollout_record list \<Rightarrow> (rollout_error, rollout) outcome" where
  "new_rollout sha scope records =
     (if records = [] then Inl EmptyRecords
      else
        let final = rd_digest (last records) in
        and_then (verify_records sha scope records final) (\<lambda>_.
          Inr \<lparr>ro_projection_version = ROLLOUT_PROJECTION_VERSION, ro_scope = scope, ro_records = records,
               ro_final_digest = final\<rparr>))"

definition verify_rollout :: "(string \<Rightarrow> string) \<Rightarrow> rollout \<Rightarrow> (rollout_error, unit) outcome" where
  "verify_rollout sha ro =
     (if ro_projection_version ro \<noteq> ROLLOUT_PROJECTION_VERSION then Inl RecordDigestMismatch
      else verify_records sha (ro_scope ro) (ro_records ro) (ro_final_digest ro))"

section \<open>Verification accepts exactly the linked chains\<close>

abbreviation sealed_record ::
  "(string \<Rightarrow> string) \<Rightarrow> rollout_digest \<Rightarrow> nat \<Rightarrow> rollout_digest option \<Rightarrow> rollout_evidence \<Rightarrow> rollout_record" where
  "sealed_record sha sd i prev e \<equiv>
     \<lparr>rd_sequence = of_nat i, rd_scope_digest = sd, rd_previous_digest = prev, rd_evidence = e,
      rd_digest = digest_record sha (of_nat i) sd prev e\<rparr>"

fun link_all ::
  "(string \<Rightarrow> string) \<Rightarrow> rollout_digest \<Rightarrow> nat \<Rightarrow> rollout_digest option \<Rightarrow> rollout_evidence list \<Rightarrow> rollout_record list" where
  "link_all sha sd i prev [] = []"
| "link_all sha sd i prev (e # es) =
     (let r = sealed_record sha sd i prev e in r # link_all sha sd (Suc i) (Some (rd_digest r)) es)"

abbreviation valid_evidence :: "rollout_evidence \<Rightarrow> bool" where
  "valid_evidence e \<equiv> validate_evidence e = Inr ()"

text \<open>The digest a chain ends with.\<close>

definition end_digest :: "rollout_digest option \<Rightarrow> rollout_record list \<Rightarrow> rollout_digest option" where
  "end_digest prev rs = (if rs = [] then prev else Some (rd_digest (last rs)))"

lemma end_digest_simps [simp]:
  "end_digest prev [] = prev"
  "end_digest prev (r # rs) = end_digest (Some (rd_digest r)) rs"
  "end_digest prev (rs @ [r]) = Some (rd_digest r)"
  by (auto simp: end_digest_def)

lemma link_all_length [simp]: "length (link_all sha sd i prev es) = length es"
  by (induction es arbitrary: i prev) (auto simp: Let_def)

lemma link_all_evidence [simp]: "map rd_evidence (link_all sha sd i prev es) = es"
  by (induction es arbitrary: i prev) (auto simp: Let_def)

lemma link_all_Nil_iff [simp]: "link_all sha sd i prev es = [] \<longleftrightarrow> es = []"
  by (cases es) (auto simp: Let_def)

lemma link_all_append:
  "link_all sha sd i prev (es @ fs) =
     link_all sha sd i prev es @ link_all sha sd (i + length es) (end_digest prev (link_all sha sd i prev es)) fs"
  by (induction es arbitrary: i prev) (auto simp: Let_def)

lemma verify_loop_iff:
  assumes "i + length rs \<le> 2 ^ 32"
  shows "verify_loop sha sd i prev rs = Inr out \<longleftrightarrow>
    (\<forall>r \<in> set rs. valid_evidence (rd_evidence r))
    \<and> rs = link_all sha sd i prev (map rd_evidence rs) \<and> out = end_digest prev rs"
  using assms
proof (induction rs arbitrary: i prev)
  case Nil
  then show ?case by auto
next
  case (Cons r rs)
  have "verify_loop sha sd (Suc i) (Some (rd_digest r)) rs = Inr out \<longleftrightarrow>
    (\<forall>r \<in> set rs. valid_evidence (rd_evidence r))
    \<and> rs = link_all sha sd (Suc i) (Some (rd_digest r)) (map rd_evidence rs) \<and> out = end_digest (Some (rd_digest r)) rs"
    using Cons.prems by (intro Cons.IH) simp
  moreover have "r = sealed_record sha sd i prev (rd_evidence r) \<longleftrightarrow>
      rd_sequence r = of_nat i \<and> rd_scope_digest r = sd \<and> rd_previous_digest r = prev
      \<and> digest_record sha (rd_sequence r) (rd_scope_digest r) (rd_previous_digest r) (rd_evidence r) = rd_digest r"
    by (cases r) auto
  moreover have "\<not> i \<ge> 2 ^ 32" using Cons.prems by simp
  ultimately show ?case
    by (auto simp: verify_record_def Let_def)
qed

lemma verify_records_iff:
  "verify_records sha scope rs final = Inr u \<longleftrightarrow>
     rs \<noteq> [] \<and> length rs \<le> MAX_ROLLOUT_RECORDS \<and> (\<forall>r \<in> set rs. valid_evidence (rd_evidence r))
   \<and> rs = link_all sha (scope_digest sha scope) 0 None (map rd_evidence rs) \<and> final = rd_digest (last rs)"
proof (cases "rs = [] \<or> length rs > MAX_ROLLOUT_RECORDS")
  case True
  then show ?thesis by (auto simp: verify_records_def)
next
  case False
  then have "0 + length rs \<le> 2 ^ 32" by (simp add: MAX_ROLLOUT_RECORDS_def)
  note loop = verify_loop_iff [OF this]
  show ?thesis using False
    by (auto simp: verify_records_def loop end_digest_def)
qed

lemma new_rollout_iff:
  "new_rollout sha scope rs = Inr ro \<longleftrightarrow>
     rs \<noteq> [] \<and> length rs \<le> MAX_ROLLOUT_RECORDS \<and> (\<forall>r \<in> set rs. valid_evidence (rd_evidence r))
   \<and> rs = link_all sha (scope_digest sha scope) 0 None (map rd_evidence rs)
   \<and> ro = \<lparr>ro_projection_version = ROLLOUT_PROJECTION_VERSION, ro_scope = scope, ro_records = rs,
           ro_final_digest = rd_digest (last rs)\<rparr>"
  by (auto simp: new_rollout_def Let_def verify_records_iff)

lemma new_rollout_linked:
  assumes "es \<noteq> []" "length es \<le> MAX_ROLLOUT_RECORDS" "\<forall>e \<in> set es. valid_evidence e"
  shows "\<exists>ro. new_rollout sha scope (link_all sha (scope_digest sha scope) 0 None es) = Inr ro
     \<and> ro_scope ro = scope \<and> map rd_evidence (ro_records ro) = es \<and> verify_rollout sha ro = Inr ()"
proof -
  let ?rs = "link_all sha (scope_digest sha scope) 0 None es"
  have "\<forall>r \<in> set ?rs. valid_evidence (rd_evidence r)"
    using assms(3) link_all_evidence [of sha "scope_digest sha scope" 0 None es] by (metis image_eqI list.set_map)
  with assms(1,2) show ?thesis by (simp add: new_rollout_iff verify_rollout_def verify_records_iff)
qed


section \<open>The encoding is injective\<close>

lemma fits64_label: "length s \<le> 256 \<Longrightarrow> fits64 s"
  by (simp add: fits64_def)

lemma check_identifier_fits: "check_identifier field v = Inr u \<Longrightarrow> fits64 v"
  by (auto simp: check_identifier_def MAX_LABEL_BYTES_def fits64_def split: if_splits)

lemma validate_label_iff: "validate_label field v = Inr w \<longleftrightarrow> check_identifier field v = Inr () \<and> \<not> has_control v \<and> w = v"
  by (auto simp: validate_label_def split: if_splits)

lemma validate_code_iff:
  "validate_code field v = Inr w \<longleftrightarrow>
     check_identifier field v = Inr () \<and> list_all (\<lambda>c. is_ascii_alphanumeric c \<or> c \<in> set ''_-.:/'') v \<and> w = v"
  by (auto simp: validate_code_def split: if_splits)

lemma new_rollout_digest_iff: "new_rollout_digest v = Inr w \<longleftrightarrow> is_sha256_digest v \<and> w = v"
  by (auto simp: new_rollout_digest_def)

lemma sha256_digest_fits: "is_sha256_digest v \<Longrightarrow> fits64 v"
  by (auto simp: is_sha256_digest_def fits64_def)

lemma check_optional_fits: "check_optional_identifier field v = Inr u \<Longrightarrow> pred_option fits64 v"
  by (cases v) (auto simp: check_optional_identifier_def dest: check_identifier_fits)

lemmas evidence_fits = check_identifier_fits check_optional_fits sha256_digest_fits

lemma optional_text_append_eq:
  "pred_option fits64 a \<Longrightarrow> pred_option fits64 b \<Longrightarrow> optional_text a @ x = optional_text b @ y \<longleftrightarrow> a = b \<and> x = y"
  by (cases a; cases b) (auto simp: optional_text_def digest_text_append_eq)

lemma be_bytes_word_eq:
  fixes a b :: "'a::len word"
  assumes "LENGTH('a) = 8 * k" and "be_bytes k (unat a) = be_bytes k (unat b)"
  shows "a = b"
proof -
  have "(256 :: nat) ^ k = 2 ^ LENGTH('a)" unfolding assms(1) by (simp add: power_mult)
  with be_bytes_inject [of "unat a" k "unat b"] assms(2) show ?thesis
    by (simp add: unat_less_2p word_unat_eq_iff)
qed

lemma be_bytes_u32 [simp]: "be_bytes 4 (unat (a :: u32)) = be_bytes 4 (unat b) \<longleftrightarrow> a = b"
  using be_bytes_word_eq [of 4 a b] by auto

lemma be_bytes_u64 [simp]: "be_bytes 8 (unat (a :: u64)) = be_bytes 8 (unat b) \<longleftrightarrow> a = b"
  using be_bytes_word_eq [of 8 a b] by auto

lemma optional_u32_append_eq: "optional_u32 a @ x = optional_u32 b @ y \<longleftrightarrow> a = b \<and> x = y"
  by (cases a; cases b) (auto simp: optional_u32_def)

lemma event_type_code_fits [simp]: "fits64 (event_type_code ty)"
  by (cases ty) (simp_all add: fits64_def)

lemma event_type_code_inject [simp]: "event_type_code a = event_type_code b \<longleftrightarrow> a = b"
  by (cases a; cases b) simp_all

lemma record_kind_str_fits [simp]: "fits64 (record_kind_str k)"
  by (cases k) (simp_all add: fits64_def)

lemma record_kind_str_inject [simp]: "record_kind_str a = record_kind_str b \<longleftrightarrow> a = b"
  by (cases a; cases b) simp_all

lemma digest_text_eq: "fits64 a \<Longrightarrow> fits64 b \<Longrightarrow> digest_text a = digest_text b \<longleftrightarrow> a = b"
  using digest_text_append_eq [of a b "[]" "[]"] by simp

lemma tag_fits [simp]:
  "fits64 ''empty''" "fits64 ''effect''" "fits64 ''policy''" "fits64 ''failure''" "fits64 ''provider_call''"
  "fits64 ''mcp_era''" "fits64 ''succeeded''" "fits64 ''failed''" "fits64 ''denied''"
  by (simp_all add: fits64_def)

lemma digest_text_append_Nil: "fits64 a \<Longrightarrow> fits64 b \<Longrightarrow> digest_text a = digest_text b @ y \<longleftrightarrow> a = b \<and> y = []"
  using digest_text_append_eq [of a b "[]" y] by auto

lemma digest_text_Nil_append: "fits64 a \<Longrightarrow> fits64 b \<Longrightarrow> digest_text a @ x = digest_text b \<longleftrightarrow> a = b \<and> x = []"
  using digest_text_append_eq [of a b x "[]"] by auto

lemmas digest_text_eqs = digest_text_append_eq digest_text_append_Nil digest_text_Nil_append digest_text_eq

lemma event_evidence_bytes_inject:
  assumes "validate_event_evidence a = Inr ()" "validate_event_evidence b = Inr ()"
    and "event_evidence_bytes a = event_evidence_bytes b"
  shows "a = b"
  using assms
  by (cases a; cases b)
     (auto simp: digest_text_eqs validate_label_iff validate_code_iff new_rollout_digest_iff evidence_fits split: if_splits)

lemma outcome_bytes_inject:
  assumes "validate_outcome a = Inr ()" "validate_outcome b = Inr ()" and "outcome_bytes a = outcome_bytes b"
  shows "a = b"
  using assms
  by (cases a; cases b)
     (auto simp: digest_text_eqs validate_label_iff validate_code_iff new_rollout_digest_iff evidence_fits split: if_splits)

lemma evidence_body_inject:
  assumes "evidence_kind a = evidence_kind b" "valid_evidence a" "valid_evidence b" "evidence_body a = evidence_body b"
  shows "a = b"
  using assms
  by (cases a; cases b)
     (auto simp: digest_text_eqs optional_text_append_eq optional_u32_append_eq
       new_rollout_digest_iff evidence_fits dest: event_evidence_bytes_inject outcome_bytes_inject)

lemma evidence_bytes_inject:
  assumes "valid_evidence a" "valid_evidence b" "evidence_bytes a = evidence_bytes b"
  shows "a = b"
  using assms by (auto simp: evidence_bytes_def digest_text_append_eq intro: evidence_body_inject)

lemma record_bytes_inject:
  assumes "record_bytes i sd prev e = record_bytes j sd' prev' f" "fits64 sd" "fits64 sd'"
    "pred_option fits64 prev" "pred_option fits64 prev'" "valid_evidence e" "valid_evidence f"
  shows "i = j \<and> sd = sd' \<and> prev = prev' \<and> e = f"
  using assms
  by (auto simp: record_bytes_def digest_text_append_eq optional_text_append_eq
      dest: evidence_bytes_inject)

definition valid_scope :: "rollout_scope \<Rightarrow> bool" where
  "valid_scope s \<longleftrightarrow>
     valid_id (rsc_tenant_id s) \<and> valid_id (rsc_workspace_id s) \<and> valid_id (rsc_session_id s) \<and> valid_id (rsc_execution_id s)"

lemma new_rollout_scope_iff:
  "new_rollout_scope t w s x = Inr scope \<longleftrightarrow>
     valid_scope scope \<and> scope = \<lparr>rsc_tenant_id = t, rsc_workspace_id = w, rsc_session_id = s, rsc_execution_id = x\<rparr>"
  by (auto simp: new_rollout_scope_def valid_scope_def)

lemma scope_bytes_inject:
  assumes "valid_scope a" "valid_scope b" "scope_bytes a = scope_bytes b"
  shows "a = b"
  using assms by (cases a; cases b) (auto simp: valid_scope_def valid_id_def scope_bytes_def digest_text_eqs fits64_label)

section \<open>The final digest determines the rollout\<close>

abbreviation record_preimage :: "rollout_record \<Rightarrow> string" where
  "record_preimage r \<equiv> record_bytes (rd_sequence r) (rd_scope_digest r) (rd_previous_digest r) (rd_evidence r)"

text \<open>Everything that was hashed for a rollout.\<close>

definition rollout_preimages :: "rollout \<Rightarrow> string set" where
  "rollout_preimages ro = insert (scope_bytes (ro_scope ro)) (record_preimage ` set (ro_records ro))"

lemma finish_digest_eq [simp]: "finish_digest sha x = finish_digest sha y \<longleftrightarrow> sha x = sha y"
  by (simp add: finish_digest_def)

lemma finish_digest_fits: "length (sha x) = 32 \<Longrightarrow> fits64 (finish_digest sha x)"
  by (simp add: finish_digest_def fits64_def)

lemma link_all_snoc:
  "link_all sha sd i prev (es @ [e]) =
     link_all sha sd i prev es @ [sealed_record sha sd (i + length es) (end_digest prev (link_all sha sd i prev es)) e]"
  by (simp add: link_all_append Let_def)

lemma end_digest_fits:
  assumes "\<And>x. length (sha x) = 32"
  shows "pred_option fits64 (end_digest None (link_all sha sd 0 None es))"
  by (cases es rule: rev_cases) (simp_all add: link_all_snoc digest_record_def finish_digest_fits assms)

lemma chain_inject:
  assumes sha: "\<And>x. length (sha x) = 32" and fits: "fits64 sd" "fits64 sd'" and inj: "inj_on sha P"
    and "record_preimage ` set (link_all sha sd 0 None es) \<subseteq> P"
    and "record_preimage ` set (link_all sha sd' 0 None fs) \<subseteq> P"
    and "\<forall>e \<in> set es. valid_evidence e" "\<forall>f \<in> set fs. valid_evidence f"
    and "length es < 2 ^ 32" "length fs < 2 ^ 32"
    and "end_digest None (link_all sha sd 0 None es) = end_digest None (link_all sha sd' 0 None fs)"
  shows "es = fs \<and> (es \<noteq> [] \<longrightarrow> sd = sd')"
  using assms(5-)
proof (induction es arbitrary: fs rule: rev_induct)
  case Nil
  then show ?case by (cases fs rule: rev_cases) (simp_all add: link_all_snoc)
next
  case (snoc e es)
  show ?case
  proof (cases fs rule: rev_cases)
    case Nil
    then show ?thesis using snoc.prems by (simp add: link_all_snoc)
  next
    case (snoc gs f)
    let ?prev = "end_digest None (link_all sha sd 0 None es)"
    let ?prev' = "end_digest None (link_all sha sd' 0 None gs)"
    let ?x = "record_bytes (of_nat (length es)) sd ?prev e"
    let ?y = "record_bytes (of_nat (length gs)) sd' ?prev' f"
    have "sha ?x = sha ?y" using snoc.prems snoc by (simp add: link_all_snoc digest_record_def)
    moreover have "?x \<in> P" "?y \<in> P" using snoc.prems snoc by (simp_all add: link_all_snoc)
    ultimately have "?x = ?y" using inj by (auto dest: inj_onD)
    then have eqs: "sd = sd'" "?prev = ?prev'" "e = f"
      using record_bytes_inject [of "of_nat (length es)" sd ?prev e "of_nat (length gs)" sd' ?prev' f]
        fits end_digest_fits [of sha] sha snoc.prems snoc by auto
    have "es = gs"
    proof -
      have "es = gs \<and> (es \<noteq> [] \<longrightarrow> sd = sd')"
        using snoc.prems snoc eqs(2) by (intro snoc.IH) (simp_all add: link_all_snoc)
      then show ?thesis ..
    qed
    with eqs snoc show ?thesis by simp
  qed
qed

lemma verified_rollout:
  assumes "verify_rollout sha ro = Inr ()"
  shows "ro_projection_version ro = ROLLOUT_PROJECTION_VERSION"
    and "ro_records ro = link_all sha (scope_digest sha (ro_scope ro)) 0 None (map rd_evidence (ro_records ro))"
    and "end_digest None (ro_records ro) = Some (ro_final_digest ro)"
    and "\<forall>e \<in> set (map rd_evidence (ro_records ro)). valid_evidence e"
    and "length (ro_records ro) < 2 ^ 32" and "ro_records ro \<noteq> []"
  using assms by (auto simp: verify_rollout_def verify_records_iff MAX_ROLLOUT_RECORDS_def end_digest_def split: if_splits)

lemma rollout_determined:
  assumes a: "verify_rollout sha a = Inr ()" and b: "verify_rollout sha b = Inr ()"
    and scopes: "valid_scope (ro_scope a)" "valid_scope (ro_scope b)"
    and sha: "\<And>x. length (sha x) = 32"
    and inj: "inj_on sha (rollout_preimages a \<union> rollout_preimages b)"
    and final: "ro_final_digest a = ro_final_digest b"
  shows "a = b"
proof -
  note va = verified_rollout [OF a] and vb = verified_rollout [OF b]
  let ?es = "map rd_evidence (ro_records a)" and ?fs = "map rd_evidence (ro_records b)"
  have "?es = ?fs \<and> (?es \<noteq> [] \<longrightarrow> scope_digest sha (ro_scope a) = scope_digest sha (ro_scope b))"
  proof (rule chain_inject [OF sha _ _ inj])
    show "fits64 (scope_digest sha (ro_scope a))" "fits64 (scope_digest sha (ro_scope b))"
      by (simp_all add: scope_digest_def finish_digest_fits sha)
    show "record_preimage ` set (link_all sha (scope_digest sha (ro_scope a)) 0 None ?es) \<subseteq> rollout_preimages a \<union> rollout_preimages b"
      "record_preimage ` set (link_all sha (scope_digest sha (ro_scope b)) 0 None ?fs) \<subseteq> rollout_preimages a \<union> rollout_preimages b"
      unfolding va(2) [symmetric] vb(2) [symmetric] by (auto simp: rollout_preimages_def)
    show "end_digest None (link_all sha (scope_digest sha (ro_scope a)) 0 None ?es)
        = end_digest None (link_all sha (scope_digest sha (ro_scope b)) 0 None ?fs)"
      unfolding va(2) [symmetric] vb(2) [symmetric] va(3) vb(3) final ..
  qed (use va(4,5) vb(4,5) in simp_all)
  then have ev: "?es = ?fs" and sd: "scope_digest sha (ro_scope a) = scope_digest sha (ro_scope b)"
    using va(6) by auto
  have "ro_records a = ro_records b" by (subst va(2), subst vb(2)) (simp only: ev sd)
  moreover have "ro_scope a = ro_scope b"
  proof -
    have "sha (scope_bytes (ro_scope a)) = sha (scope_bytes (ro_scope b))" using sd by (simp add: scope_digest_def)
    then have "scope_bytes (ro_scope a) = scope_bytes (ro_scope b)"
      by (rule inj_onD [OF inj]) (auto simp: rollout_preimages_def)
    then show ?thesis by (rule scope_bytes_inject [OF scopes])
  qed
  ultimately show ?thesis using va(1) vb(1) final by simp
qed


section \<open>Properties\<close>

text \<open>C9: a rollout cannot be altered behind its final digest. Two rollouts that both verify and
  whose scopes came from the constructor have the same final digest only if they are the same rollout, scope,
  positions, evidence and all, unless SHA-256 collides on one of the encodings that were hashed.\<close>

theorem rollout_tamper_evident:
  assumes "verify_rollout sha a = Inr ()" and "verify_rollout sha b = Inr ()"
    and "new_rollout_scope t w s x = Inr (ro_scope a)" and "new_rollout_scope t' w' s' x' = Inr (ro_scope b)"
    and "\<And>bytes. length (sha bytes) = 32"
    and "inj_on sha (rollout_preimages a \<union> rollout_preimages b)"
  shows "ro_final_digest a = ro_final_digest b \<longleftrightarrow> a = b"
proof -
  have "valid_scope (ro_scope a)" "valid_scope (ro_scope b)" using assms(3,4) new_rollout_scope_iff by blast+
  with assms show ?thesis by (auto intro: rollout_determined)
qed

definition demo_rollout_scope :: rollout_scope where
  "demo_rollout_scope = \<lparr>rsc_tenant_id = ''t'', rsc_workspace_id = ''w'', rsc_session_id = ''s'', rsc_execution_id = ''x''\<rparr>"

definition demo_rollout_sha :: "string \<Rightarrow> string" where
  "demo_rollout_sha bytes = replicate 32 (last bytes)"

definition demo_manifest :: "char \<Rightarrow> string" where
  "demo_manifest c = ''sha256:'' @ replicate 64 c"

definition demo_rollout :: "char \<Rightarrow> rollout" where
  "demo_rollout c =
     (let rs = link_all demo_rollout_sha (scope_digest demo_rollout_sha demo_rollout_scope) 0 None [ContextManifest (demo_manifest c)] in
      \<lparr>ro_projection_version = ROLLOUT_PROJECTION_VERSION, ro_scope = demo_rollout_scope, ro_records = rs,
       ro_final_digest = rd_digest (last rs)\<rparr>)"

lemma demo_manifest_valid: "is_sha256_digest (demo_manifest CHR ''a'')" "is_sha256_digest (demo_manifest CHR ''b'')"
  by (simp_all add: is_sha256_digest_def demo_manifest_def list_all_iff is_ascii_digit_def)

lemma demo_rollout_verifies:
  "is_sha256_digest (demo_manifest c) \<Longrightarrow> verify_rollout demo_rollout_sha (demo_rollout c) = Inr ()"
  by (simp add: verify_rollout_def verify_records_iff demo_rollout_def Let_def new_rollout_digest_iff MAX_ROLLOUT_RECORDS_def)

lemma demo_scope_built: "new_rollout_scope ''t'' ''w'' ''s'' ''x'' = Inr demo_rollout_scope"
  by (simp add: new_rollout_scope_iff demo_rollout_scope_def valid_scope_def valid_id_visible visible_def)

lemma demo_last:
  "last (record_bytes i sd prev (ContextManifest (demo_manifest c))) = c"
  "last (scope_bytes demo_rollout_scope) = CHR ''x''"
  by (simp_all add: record_bytes_def evidence_bytes_def scope_bytes_def digest_text_def demo_manifest_def demo_rollout_scope_def)

lemma demo_inj: "inj_on demo_rollout_sha (rollout_preimages (demo_rollout CHR ''a'') \<union> rollout_preimages (demo_rollout CHR ''b''))"
proof -
  have [simp]: "demo_rollout_sha y = demo_rollout_sha z \<longleftrightarrow> last y = last z" for y z by (auto simp: demo_rollout_sha_def)
  show ?thesis
    by (auto simp: inj_on_def rollout_preimages_def demo_rollout_def Let_def demo_last)
qed

theorem rollout_tamper_evident_witness:
  "ro_final_digest (demo_rollout CHR ''a'') \<noteq> ro_final_digest (demo_rollout CHR ''b'')"
proof -
  have "ro_final_digest (demo_rollout CHR ''a'') = ro_final_digest (demo_rollout CHR ''b'')
      \<longleftrightarrow> demo_rollout CHR ''a'' = demo_rollout CHR ''b''"
    by (rule rollout_tamper_evident [OF demo_rollout_verifies demo_rollout_verifies _ _ _ demo_inj,
          where t = "''t''" and w = "''w''" and s = "''s''" and x = "''x''" and t' = "''t''" and w' = "''w''" and s' = "''s''" and x' = "''x''"])
       (simp_all add: demo_manifest_valid demo_scope_built demo_rollout_sha_def, simp_all add: demo_rollout_def Let_def demo_scope_built)
  then show ?thesis by (simp add: demo_rollout_def Let_def demo_manifest_def)
qed

end
