(* ===== verification/Rollout_Reducer.thy ===== *)
theory Rollout_Reducer
  imports Rollout
begin

text \<open>
  Reducing the events and receipts of an execution to a rollout,
  \<open>pandora-runtime/src/rollout_reducer.rs\<close>. The hash set of event identifiers is a set, the hash map
  from receipt identifiers to the digests of their completion events an association list. The main
  result is that reduction succeeds exactly on the consistent transcripts and then yields the chain of the
  manifest, the events and the receipts in this order.
\<close>

datatype reducer_error =
  ReducerContract rollout_error
| EmptyEvents
| MissingSessionScope
| MissingExecutionScope
| ReducerScopeMismatch
| DuplicateEventId
| DuplicateReceiptId
| AmbiguousReceiptLink
| ReceiptNotLinked
| ReceiptMissing
| ReceiptDigestMismatch

abbreviation contract :: "(rollout_error, 'a) outcome \<Rightarrow> (reducer_error, 'a) outcome" where
  "contract r \<equiv> map_err ReducerContract r"

definition required_record_count :: "nat \<Rightarrow> nat \<Rightarrow> (reducer_error, nat) outcome" where
  "required_record_count events receipts =
     (let n = events + receipts + 1 in
      if n > MAX_ROLLOUT_RECORDS then Inl (ReducerContract TooManyRecords) else Inr n)"

definition scope_from_context :: "event_context \<Rightarrow> (reducer_error, rollout_scope) outcome" where
  "scope_from_context c =
     and_then (ok_or (ec_session_id c) MissingSessionScope) (\<lambda>s.
     and_then (ok_or (ec_execution_id c) MissingExecutionScope) (\<lambda>x.
       contract (new_rollout_scope (ec_tenant_id c) (ec_workspace_id c) s x)))"

definition check_event_scope :: "rollout_scope \<Rightarrow> event_context \<Rightarrow> (reducer_error, unit) outcome" where
  "check_event_scope scope c =
     and_then (ok_or (ec_session_id c) MissingSessionScope) (\<lambda>s.
     and_then (ok_or (ec_execution_id c) MissingExecutionScope) (\<lambda>x.
       ensure (ec_tenant_id c = rsc_tenant_id scope \<and> ec_workspace_id c = rsc_workspace_id scope
               \<and> s = rsc_session_id scope \<and> x = rsc_execution_id scope) ReducerScopeMismatch))"

fun project_payload :: "(string \<Rightarrow> string) \<Rightarrow> event_payload \<Rightarrow> (rollout_error, event_evidence) outcome" where
  "project_payload sha EmptyPayload = Inr NoEvidence"
| "project_payload sha (EffectPayload capability d) = effect_evidence capability d"
| "project_payload sha (PolicyPayload reason) = policy_evidence sha reason"
| "project_payload sha (FailurePayload code) = failure_evidence code"
| "project_payload sha (ProviderCallPayload provider credential d) = provider_call_evidence provider d"
| "project_payload sha (McpEraPayload server era downgraded) = mcp_era_evidence server era downgraded"

definition project_event :: "(string \<Rightarrow> string) \<Rightarrow> runtime_event \<Rightarrow> (reducer_error, rollout_evidence) outcome" where
  "project_event sha ev =
     and_then (contract (project_payload sha (ev_payload ev))) (\<lambda>payload.
       let c = ev_context ev in
       Inr (RuntimeEventRecord (ev_event_id ev) (ev_event_type ev) (ec_harness_id c) (ec_gene_id c)
              (ec_policy_version c) (ec_receipt_id c) payload))"

definition project_receipt :: "(string \<Rightarrow> string) \<Rightarrow> effect_receipt \<Rightarrow> (reducer_error, rollout_evidence) outcome" where
  "project_receipt sha rc =
     and_then (contract (from_effect_outcome sha (rc_outcome rc))) (\<lambda>out.
       Inr (EffectReceiptRecord (rc_receipt_id rc) (rc_permit_id rc) (rc_request_digest rc) (rc_completed_at rc) out))"

definition push_record ::
  "(string \<Rightarrow> string) \<Rightarrow> rollout_scope \<Rightarrow> rollout_record list \<Rightarrow> rollout_evidence
     \<Rightarrow> (reducer_error, rollout_record list) outcome" where
  "push_record sha scope records e =
     (if length records \<ge> 2 ^ 32 then Inl (ReducerContract TooManyRecords)
      else
        let prev = (if records = [] then None else Some (rd_digest (last records))) in
        and_then (contract (link sha scope (of_nat (length records)) prev e)) (\<lambda>r. Inr (records @ [r])))"

text \<open>The receipt a completion event links to, with the digest of its request.\<close>

definition completion_link :: "runtime_event \<Rightarrow> (receipt_id \<times> request_digest) option" where
  "completion_link ev =
     (case (ec_receipt_id (ev_context ev), ev_payload ev) of
        (Some i, EffectPayload _ d) \<Rightarrow> if ev_event_type ev = EffectCompleted then Some (i, d) else None
      | _ \<Rightarrow> None)"

fun reduce_events ::
  "(string \<Rightarrow> string) \<Rightarrow> rollout_scope \<Rightarrow> runtime_event list \<Rightarrow> string set \<Rightarrow> (receipt_id \<times> request_digest) list
     \<Rightarrow> rollout_record list \<Rightarrow> (reducer_error, (receipt_id \<times> request_digest) list \<times> rollout_record list) outcome" where
  "reduce_events sha scope [] ids links records = Inr (links, records)"
| "reduce_events sha scope (ev # evs) ids links records =
     and_then (check_event_scope scope (ev_context ev)) (\<lambda>_.
     if ev_event_id ev \<in> ids then Inl DuplicateEventId
     else
       let next_links = (case completion_link ev of None \<Rightarrow> links | Some l \<Rightarrow> l # links) in
       if (case completion_link ev of None \<Rightarrow> False | Some (i, d) \<Rightarrow> i \<in> fst ` set links) then Inl AmbiguousReceiptLink
       else
         and_then (project_event sha ev) (\<lambda>e.
         and_then (push_record sha scope records e) (\<lambda>records.
           reduce_events sha scope evs (insert (ev_event_id ev) ids) next_links records)))"

fun reduce_receipts ::
  "(string \<Rightarrow> string) \<Rightarrow> rollout_scope \<Rightarrow> effect_receipt list \<Rightarrow> string set \<Rightarrow> (receipt_id \<times> request_digest) list
     \<Rightarrow> rollout_record list \<Rightarrow> (reducer_error, (receipt_id \<times> request_digest) list \<times> rollout_record list) outcome" where
  "reduce_receipts sha scope [] ids links records = Inr (links, records)"
| "reduce_receipts sha scope (rc # rcs) ids links records =
     (if rc_receipt_id rc \<in> ids then Inl DuplicateReceiptId
      else case map_of links (rc_receipt_id rc) of
        None \<Rightarrow> Inl ReceiptNotLinked
      | Some d \<Rightarrow>
          if d \<noteq> rc_request_digest rc then Inl ReceiptDigestMismatch
          else
            and_then (project_receipt sha rc) (\<lambda>e.
            and_then (push_record sha scope records e) (\<lambda>records.
              reduce_receipts sha scope rcs (insert (rc_receipt_id rc) ids)
                (filter (\<lambda>l. fst l \<noteq> rc_receipt_id rc) links) records)))"

definition reduce ::
  "(string \<Rightarrow> string) \<Rightarrow> string \<Rightarrow> runtime_event list \<Rightarrow> effect_receipt list \<Rightarrow> (reducer_error, rollout) outcome" where
  "reduce sha manifest events receipts =
     (case events of
        [] \<Rightarrow> Inl EmptyEvents
      | first # _ \<Rightarrow>
          and_then (scope_from_context (ev_context first)) (\<lambda>scope.
          and_then (required_record_count (length events) (length receipts)) (\<lambda>_.
          and_then (contract (new_rollout_digest manifest)) (\<lambda>d.
          and_then (push_record sha scope [] (ContextManifest d)) (\<lambda>records.
          and_then (reduce_events sha scope events {} [] records) (\<lambda>(links, records).
          and_then (reduce_receipts sha scope receipts {} links records) (\<lambda>(links, records).
          if links \<noteq> [] then Inl ReceiptMissing
          else contract (new_rollout sha scope records))))))))"

definition verify_reduction ::
  "(string \<Rightarrow> string) \<Rightarrow> rollout_scope \<Rightarrow> rollout_record list \<Rightarrow> rollout_digest \<Rightarrow> (reducer_error, unit) outcome" where
  "verify_reduction sha scope records final = contract (verify_records sha scope records final)"

section \<open>The loops\<close>

declare link_all.simps(2) [simp del]

abbreviation chain :: "(string \<Rightarrow> string) \<Rightarrow> rollout_scope \<Rightarrow> rollout_evidence list \<Rightarrow> rollout_record list" where
  "chain sha scope es \<equiv> link_all sha (scope_digest sha scope) 0 None es"

abbreviation receipt_link :: "effect_receipt \<Rightarrow> receipt_id \<times> request_digest" where
  "receipt_link rc \<equiv> (rc_receipt_id rc, rc_request_digest rc)"

abbreviation completion_links :: "runtime_event list \<Rightarrow> (receipt_id \<times> request_digest) list" where
  "completion_links evs \<equiv> List.map_filter completion_link evs"

lemma try_map_Cons_iff:
  "try_map f (x # xs) = Inr ys \<longleftrightarrow> (\<exists>z zs. f x = Inr z \<and> try_map f xs = Inr zs \<and> ys = z # zs)"
  by (auto split: sum.splits)

lemma push_record_iff:
  assumes "length es < 2 ^ 32"
  shows "push_record sha scope (chain sha scope es) e = Inr rs \<longleftrightarrow>
    valid_evidence e \<and> rs = chain sha scope (es @ [e])"
  using assms
  by (cases "es = []") (auto simp: push_record_def end_digest_def link_def link_all_snoc link_all.simps Let_def)

lemma reduce_events_iff:
  assumes "length es + length evs \<le> 2 ^ 32"
  shows "reduce_events sha scope evs ids links (chain sha scope es) = Inr (links', rs) \<longleftrightarrow>
    (\<forall>ev \<in> set evs. check_event_scope scope (ev_context ev) = Inr ())
    \<and> distinct (map ev_event_id evs) \<and> ev_event_id ` set evs \<inter> ids = {}
    \<and> distinct (map fst (completion_links evs)) \<and> fst ` set (completion_links evs) \<inter> fst ` set links = {}
    \<and> links' = rev (completion_links evs) @ links
    \<and> (\<exists>ps. try_map (project_event sha) evs = Inr ps \<and> (\<forall>p \<in> set ps. valid_evidence p)
         \<and> rs = chain sha scope (es @ ps))"
  using assms
proof (induction evs arbitrary: es ids links)
  case Nil
  then show ?case by (auto simp: map_filter_simps)
next
  case (Cons ev evs)
  have len: "length es < 2 ^ 32" using Cons.prems by simp
  have IH: "reduce_events sha scope evs (insert (ev_event_id ev) ids) ls (chain sha scope (es @ [e])) = Inr (links', rs) \<longleftrightarrow>
    (\<forall>ev \<in> set evs. check_event_scope scope (ev_context ev) = Inr ())
    \<and> distinct (map ev_event_id evs) \<and> ev_event_id ` set evs \<inter> insert (ev_event_id ev) ids = {}
    \<and> distinct (map fst (completion_links evs)) \<and> fst ` set (completion_links evs) \<inter> fst ` set ls = {}
    \<and> links' = rev (completion_links evs) @ ls
    \<and> (\<exists>ps. try_map (project_event sha) evs = Inr ps \<and> (\<forall>p \<in> set ps. valid_evidence p)
         \<and> rs = chain sha scope ((es @ [e]) @ ps))" for e ls
    using Cons.prems by (intro Cons.IH) simp
  show ?case
  proof (cases "completion_link ev")
    case None
    then show ?thesis
      by (auto simp: IH try_map_Cons_iff push_record_iff [OF len] map_filter_simps Let_def simp del: try_map.simps(2))
  next
    case (Some l)
    then show ?thesis
      by (cases l)
         (auto simp: IH try_map_Cons_iff push_record_iff [OF len] map_filter_simps Let_def simp del: try_map.simps(2))
  qed
qed

lemma reduce_receipts_iff:
  assumes "length es + length rcs \<le> 2 ^ 32" and "distinct (map fst links)"
  shows "reduce_receipts sha scope rcs ids links (chain sha scope es) = Inr (links', rs) \<longleftrightarrow>
    distinct (map rc_receipt_id rcs) \<and> rc_receipt_id ` set rcs \<inter> ids = {}
    \<and> receipt_link ` set rcs \<subseteq> set links
    \<and> links' = filter (\<lambda>l. fst l \<notin> rc_receipt_id ` set rcs) links
    \<and> (\<exists>ps. try_map (project_receipt sha) rcs = Inr ps \<and> (\<forall>p \<in> set ps. valid_evidence p)
         \<and> rs = chain sha scope (es @ ps))"
  using assms
proof (induction rcs arbitrary: es ids links)
  case Nil
  then show ?case by auto
next
  case (Cons rc rcs)
  let ?rest = "filter (\<lambda>l. fst l \<noteq> rc_receipt_id rc) links"
  have len: "length es < 2 ^ 32" using Cons.prems by simp
  have IH: "reduce_receipts sha scope rcs (insert (rc_receipt_id rc) ids) ?rest (chain sha scope (es @ [e])) = Inr (links', rs) \<longleftrightarrow>
    distinct (map rc_receipt_id rcs) \<and> rc_receipt_id ` set rcs \<inter> insert (rc_receipt_id rc) ids = {}
    \<and> receipt_link ` set rcs \<subseteq> set ?rest
    \<and> links' = filter (\<lambda>l. fst l \<notin> rc_receipt_id ` set rcs) ?rest
    \<and> (\<exists>ps. try_map (project_receipt sha) rcs = Inr ps \<and> (\<forall>p \<in> set ps. valid_evidence p)
         \<and> rs = chain sha scope ((es @ [e]) @ ps))" for e
    using Cons.prems by (intro Cons.IH) (simp_all add: distinct_map_filter)
  have look: "map_of links (rc_receipt_id rc) = Some d \<longleftrightarrow> (rc_receipt_id rc, d) \<in> set links" for d
    using Cons.prems(2) by simp
  have rest: "filter (\<lambda>l. fst l \<notin> rc_receipt_id ` set rcs) ?rest = filter (\<lambda>l. fst l \<notin> rc_receipt_id ` set (rc # rcs)) links"
    by (simp add: filter_filter)
  have fresh: "receipt_link ` set rcs \<subseteq> set ?rest \<longleftrightarrow> receipt_link ` set rcs \<subseteq> set links"
    if "rc_receipt_id rc \<notin> rc_receipt_id ` set rcs"
  proof -
    have "rc_receipt_id r \<noteq> rc_receipt_id rc" if "r \<in> set rcs" for r
      using imageI [OF that, of rc_receipt_id] \<open>rc_receipt_id rc \<notin> _\<close> by auto
    then show ?thesis by auto
  qed
  show ?case
  proof (cases "map_of links (rc_receipt_id rc)")
    case None
    then have "receipt_link rc \<notin> set links" using look [of "rc_request_digest rc"] by simp
    with None show ?thesis by simp
  next
    case (Some d)
    then have mem: "receipt_link rc \<in> set links \<longleftrightarrow> rc_request_digest rc = d"
      using look [of "rc_request_digest rc"] by auto
    show ?thesis using Some mem fresh
      by (auto simp: IH rest try_map_Cons_iff push_record_iff [OF len] simp del: try_map.simps(2))
  qed
qed

section \<open>Properties\<close>

text \<open>What reduction asks of a transcript: one scope, distinct events, a receipt for every completion
  event and a completion event with the same request digest for every receipt, and evidence that validates.\<close>

definition consistent_transcript ::
  "(string \<Rightarrow> string) \<Rightarrow> rollout_scope \<Rightarrow> runtime_event list \<Rightarrow> effect_receipt list \<Rightarrow> rollout_evidence list \<Rightarrow> bool" where
  "consistent_transcript sha scope evs rcs es \<longleftrightarrow>
     evs \<noteq> [] \<and> scope_from_context (ev_context (hd evs)) = Inr scope
   \<and> (\<forall>ev \<in> set evs. check_event_scope scope (ev_context ev) = Inr ())
   \<and> distinct (map ev_event_id evs) \<and> distinct (map rc_receipt_id rcs)
   \<and> distinct (map fst (completion_links evs)) \<and> set (completion_links evs) = receipt_link ` set rcs
   \<and> (\<exists>ps qs. try_map (project_event sha) evs = Inr ps \<and> try_map (project_receipt sha) rcs = Inr qs \<and> es = ps @ qs)
   \<and> (\<forall>e \<in> set es. valid_evidence e)"

lemma links_exhausted:
  assumes "distinct (map fst links)"
  shows "receipt_link ` set rcs \<subseteq> set links \<and> [] = filter (\<lambda>l. fst l \<notin> rc_receipt_id ` set rcs) (rev links)
     \<longleftrightarrow> set links = receipt_link ` set rcs" (is "?l \<longleftrightarrow> ?r")
proof
  assume l: ?l
  then have all: "\<forall>x \<in> set links. fst x \<in> rc_receipt_id ` set rcs" by (auto simp: filter_empty_conv eq_commute [of "[]"])
  have "x \<in> receipt_link ` set rcs" if x: "x \<in> set links" for x
  proof -
    obtain rc where rc: "rc \<in> set rcs" "fst x = rc_receipt_id rc" using all x by auto
    then have "receipt_link rc \<in> set links" using l by auto
    with rc x have "x = receipt_link rc" using assms by (auto simp: distinct_map inj_on_def)
    with rc show ?thesis by blast
  qed
  with l show ?r by blast
qed (auto simp: filter_empty_conv eq_commute [of "[]"])

lemma reduce_events_at_start:
  assumes "length evs + 1 \<le> 2 ^ 32"
  shows "reduce_events sha scope evs {} [] (chain sha scope [e]) = Inr (links', rs) \<longleftrightarrow>
    (\<forall>ev \<in> set evs. check_event_scope scope (ev_context ev) = Inr ())
    \<and> distinct (map ev_event_id evs) \<and> distinct (map fst (completion_links evs)) \<and> links' = rev (completion_links evs)
    \<and> (\<exists>ps. try_map (project_event sha) evs = Inr ps \<and> (\<forall>p \<in> set ps. valid_evidence p)
         \<and> rs = chain sha scope (e # ps))"
  using reduce_events_iff [of "[e]" evs sha scope "{}" "[]"] assms by simp

lemma reduce_receipts_at_end:
  assumes "length ps + length rcs \<le> 2 ^ 32" and "distinct (map fst links)"
  shows "reduce_receipts sha scope rcs {} (rev links) (chain sha scope ps) = Inr ([], rs) \<longleftrightarrow>
    distinct (map rc_receipt_id rcs) \<and> set links = receipt_link ` set rcs
    \<and> (\<exists>qs. try_map (project_receipt sha) rcs = Inr qs \<and> (\<forall>q \<in> set qs. valid_evidence q)
         \<and> rs = chain sha scope (ps @ qs))"
  using reduce_receipts_iff [of ps rcs "rev links" sha scope "{}" "[]"] assms links_exhausted [OF assms(2), of rcs]
  by (auto simp: rev_map [symmetric])

lemma reduce_unfold:
  assumes "length evs + length rcs < MAX_ROLLOUT_RECORDS" "is_sha256_digest manifest"
    and "scope_from_context (ev_context (hd evs)) = Inr scope" "evs \<noteq> []"
  shows "reduce sha manifest evs rcs = Inr ro \<longleftrightarrow>
    (\<exists>links rs rs'. reduce_events sha scope evs {} [] (chain sha scope [ContextManifest manifest]) = Inr (links, rs)
       \<and> reduce_receipts sha scope rcs {} links rs = Inr ([], rs') \<and> new_rollout sha scope rs' = Inr ro)"
proof -
  have push: "push_record sha scope [] (ContextManifest manifest) = Inr (chain sha scope [ContextManifest manifest])"
    using push_record_iff [of "[]" sha scope "ContextManifest manifest"] assms(2) by (simp add: new_rollout_digest_iff)
  have "new_rollout_digest manifest = Inr manifest" using assms(2) by (simp add: new_rollout_digest_def)
  moreover have "required_record_count (length evs) (length rcs) = Inr (length evs + length rcs + 1)"
    using assms(1) by (simp add: required_record_count_def)
  ultimately show ?thesis using assms(3,4) push
    by (cases evs) (auto simp: reduce_def split: if_splits)
qed

lemma reduce_guards:
  assumes "reduce sha manifest evs rcs = Inr ro"
  shows "length evs + length rcs < MAX_ROLLOUT_RECORDS" "is_sha256_digest manifest" "evs \<noteq> []"
    and "\<exists>scope. scope_from_context (ev_context (hd evs)) = Inr scope"
  using assms
  by (auto simp: reduce_def required_record_count_def Let_def new_rollout_digest_iff split: list.splits if_splits)

lemma reduce_consistent_iff:
  assumes "length evs + length rcs < MAX_ROLLOUT_RECORDS" "is_sha256_digest manifest"
    and "scope_from_context (ev_context (hd evs)) = Inr scope" "evs \<noteq> []"
  shows "reduce sha manifest evs rcs = Inr ro \<longleftrightarrow>
    (\<exists>es. consistent_transcript sha scope evs rcs es
       \<and> new_rollout sha scope (chain sha scope (ContextManifest manifest # es)) = Inr ro)"
    (is "_ \<longleftrightarrow> ?rhs")
proof -
  have len: "length evs + 1 \<le> 2 ^ 32" using assms(1) by (simp add: MAX_ROLLOUT_RECORDS_def)
  have len': "length (ContextManifest manifest # ps) + length rcs \<le> 2 ^ 32"
    if "try_map (project_event sha) evs = Inr ps" for ps
    using that assms(1) by (simp add: MAX_ROLLOUT_RECORDS_def try_map_length)
  note events = reduce_events_at_start [OF len]
  note receipts = reduce_receipts_at_end [OF len']
  show ?thesis unfolding reduce_unfold [OF assms] events
  proof (intro iffI; elim exE conjE)
    fix links rs rs' ps
    assume "links = rev (completion_links evs)" "try_map (project_event sha) evs = Inr ps"
      "rs = chain sha scope (ContextManifest manifest # ps)" "distinct (map fst (completion_links evs))"
      "reduce_receipts sha scope rcs {} links rs = Inr ([], rs')" "new_rollout sha scope rs' = Inr ro"
      "\<forall>ev \<in> set evs. check_event_scope scope (ev_context ev) = Inr ()" "distinct (map ev_event_id evs)"
      "\<forall>p \<in> set ps. valid_evidence p"
    then show ?rhs using assms(3,4) by (auto simp: receipts consistent_transcript_def)
  next
    fix es
    assume c: "consistent_transcript sha scope evs rcs es"
      and n: "new_rollout sha scope (chain sha scope (ContextManifest manifest # es)) = Inr ro"
    then obtain ps qs where ps: "try_map (project_event sha) evs = Inr ps" and qs: "try_map (project_receipt sha) rcs = Inr qs"
      and es: "es = ps @ qs"
      by (auto simp: consistent_transcript_def)
    have "reduce_receipts sha scope rcs {} (rev (completion_links evs)) (chain sha scope (ContextManifest manifest # ps))
        = Inr ([], chain sha scope (ContextManifest manifest # es))"
      using c qs es by (subst receipts [OF ps]) (auto simp: consistent_transcript_def)
    with c n ps es show "\<exists>links rs rs'. ((\<forall>ev \<in> set evs. check_event_scope scope (ev_context ev) = Inr ()) \<and>
        distinct (map ev_event_id evs) \<and> distinct (map fst (completion_links evs)) \<and> links = rev (completion_links evs) \<and>
        (\<exists>ps. try_map (project_event sha) evs = Inr ps \<and> (\<forall>p \<in> set ps. valid_evidence p) \<and>
           rs = chain sha scope (ContextManifest manifest # ps))) \<and>
        reduce_receipts sha scope rcs {} links rs = Inr ([], rs') \<and> new_rollout sha scope rs' = Inr ro"
      by (auto simp: consistent_transcript_def)
  qed
qed

lemma reduce_consistent:
  "(\<exists>ro. reduce sha manifest evs rcs = Inr ro \<and> ro_scope ro = scope
      \<and> map rd_evidence (ro_records ro) = ContextManifest manifest # es \<and> verify_rollout sha ro = Inr ())
   \<longleftrightarrow> consistent_transcript sha scope evs rcs es \<and> is_sha256_digest manifest
     \<and> length evs + length rcs < MAX_ROLLOUT_RECORDS"
proof (cases "length evs + length rcs < MAX_ROLLOUT_RECORDS \<and> is_sha256_digest manifest \<and> evs \<noteq> []
    \<and> scope_from_context (ev_context (hd evs)) = Inr scope")
  case True
  then have g: "length evs + length rcs < MAX_ROLLOUT_RECORDS" "is_sha256_digest manifest"
    "scope_from_context (ev_context (hd evs)) = Inr scope" "evs \<noteq> []" by simp_all
  have build: "\<exists>ro. new_rollout sha scope (chain sha scope (ContextManifest manifest # fs)) = Inr ro \<and> ro_scope ro = scope
      \<and> map rd_evidence (ro_records ro) = ContextManifest manifest # fs \<and> verify_rollout sha ro = Inr ()"
    if c: "consistent_transcript sha scope evs rcs fs" for fs
  proof (rule new_rollout_linked)
    obtain ps qs where "try_map (project_event sha) evs = Inr ps" "try_map (project_receipt sha) rcs = Inr qs" "fs = ps @ qs"
      using c by (auto simp: consistent_transcript_def)
    then show "length (ContextManifest manifest # fs) \<le> MAX_ROLLOUT_RECORDS"
      using g(1) by (simp add: try_map_length)
    show "\<forall>e \<in> set (ContextManifest manifest # fs). valid_evidence e"
      using c g(2) by (auto simp: consistent_transcript_def new_rollout_digest_iff)
  qed simp
  show ?thesis unfolding reduce_consistent_iff [OF g]
  proof (intro iffI; elim exE conjE)
    fix ro fs
    assume c: "consistent_transcript sha scope evs rcs fs"
      and n: "new_rollout sha scope (chain sha scope (ContextManifest manifest # fs)) = Inr ro"
      and ro: "map rd_evidence (ro_records ro) = ContextManifest manifest # es"
    have "fs = es" using build [OF c] n ro by auto
    with c g show "consistent_transcript sha scope evs rcs es \<and> is_sha256_digest manifest
      \<and> length evs + length rcs < MAX_ROLLOUT_RECORDS" by simp
  next
    assume c: "consistent_transcript sha scope evs rcs es"
    from build [OF c] obtain ro where ro: "new_rollout sha scope (chain sha scope (ContextManifest manifest # es)) = Inr ro"
      "ro_scope ro = scope" "map rd_evidence (ro_records ro) = ContextManifest manifest # es" "verify_rollout sha ro = Inr ()"
      by (elim exE conjE)
    show "\<exists>ro. (\<exists>fs. consistent_transcript sha scope evs rcs fs
        \<and> new_rollout sha scope (chain sha scope (ContextManifest manifest # fs)) = Inr ro) \<and> ro_scope ro = scope
      \<and> map rd_evidence (ro_records ro) = ContextManifest manifest # es \<and> verify_rollout sha ro = Inr ()"
      by (intro exI [of _ ro] exI [of _ es] conjI c ro)
  qed
next
  case False
  have "ro_scope ro \<noteq> scope" if red: "reduce sha manifest evs rcs = Inr ro" for ro
  proof -
    note guards = reduce_guards [OF red]
    obtain scope' where s': "scope_from_context (ev_context (hd evs)) = Inr scope'" using guards(4) by blast
    have "ro_scope ro = scope'"
      using red unfolding reduce_consistent_iff [OF guards(1,2) s' guards(3)] by (auto simp: new_rollout_iff)
    with s' False guards(1-3) show ?thesis by auto
  qed
  with False show ?thesis by (auto simp: consistent_transcript_def)
qed


text \<open>Blanking the credential reference of a provider call.\<close>

definition without_credential :: "runtime_event \<Rightarrow> runtime_event" where
  "without_credential ev =
     (case ev_payload ev of
        ProviderCallPayload provider credential d \<Rightarrow> ev\<lparr>ev_payload := ProviderCallPayload provider [] d\<rparr>
      | _ \<Rightarrow> ev)"

lemma without_credential_simps [simp]:
  "ev_event_id (without_credential ev) = ev_event_id ev"
  "ev_context (without_credential ev) = ev_context ev"
  "completion_link (without_credential ev) = completion_link ev"
  "project_event sha (without_credential ev) = project_event sha ev"
  by (auto simp: without_credential_def completion_link_def project_event_def split: event_payload.split option.split)

lemma reduce_events_without_credential [simp]:
  "reduce_events sha scope (map without_credential evs) = reduce_events sha scope evs"
proof (induction evs)
  case (Cons ev evs)
  then show ?case by (intro ext) simp
qed simp

text \<open>No credential reference reaches a rollout: blanking the credentials of all provider calls
  changes neither the outcome of the reduction nor any byte of the rollout.\<close>

lemma rollout_hides_credentials:
  "reduce sha manifest (map without_credential evs) rcs = reduce sha manifest evs rcs"
proof (cases evs)
  case (Cons ev rest)
  have "reduce_events sha scope (without_credential ev # map without_credential rest) = reduce_events sha scope (ev # rest)" for scope
    using reduce_events_without_credential [of sha scope "ev # rest"] by simp
  with Cons show ?thesis by (simp add: reduce_def)
qed simp

end
