(* ===== verification/Run_Rollout.thy ===== *)
theory Run_Rollout
  imports Execution_Controller Rollout_Reducer
begin

text \<open>
  Where the execution controller meets the rollout reducer: the command line reduces the events and
  receipts of every run summary it gets back (\<open>pandora-cli/src/commands/run.rs\<close>). The summary a run
  leaves is always a consistent transcript, provided the executors answer with a fresh receipt for the
  request of the permit they were given, so reduction never refuses it.
\<close>

section \<open>What is asked of the executors\<close>

text \<open>The receipt identifiers handed out before the world was \<open>w\<close>, and how often the counter of
  \<open>allocate_effect_receipt_id\<close> was advanced: as long as that 64-bit counter does not wrap around, an
  executor answers with a receipt for the request of its permit under an identifier never used before.\<close>

record 'w ledger =
  lg_used :: "'w \<Rightarrow> receipt_id set"
  lg_handed :: "'w \<Rightarrow> nat"

definition honest_receipt ::
  "(string \<Rightarrow> string) \<Rightarrow> 'w ledger \<Rightarrow> consumed_permit \<Rightarrow> 'w \<Rightarrow> effect_receipt \<Rightarrow> 'w \<Rightarrow> bool" where
  "honest_receipt sha lg c w receipt w' \<longleftrightarrow>
     rc_request_digest receipt = rq_request_digest (cp_request c) \<and> rc_permit_id receipt = pm_permit_id (cp_permit c)
   \<and> rc_receipt_id receipt \<notin> lg_used lg w \<and> insert (rc_receipt_id receipt) (lg_used lg w) \<subseteq> lg_used lg w' \<and> lg_handed lg w' \<le> lg_handed lg w + 1
   \<and> (\<exists>e. project_receipt sha receipt = Inr e \<and> valid_evidence e)"

text \<open>A permit as the monitor issues it: with a valid identifier, and for the digest of the request it comes with.\<close>

definition sound_permit :: "consumed_permit \<Rightarrow> bool" where
  "sound_permit c \<longleftrightarrow>
     valid_id (pm_permit_id (cp_permit c)) \<and> valid_id (rq_request_digest (cp_request c))
   \<and> pm_request_digest (cp_permit c) = rq_request_digest (cp_request c)"

lemma sound_permitD: "sound_permit c \<Longrightarrow> valid_id (rq_request_digest (cp_request c))"
  by (simp add: sound_permit_def)

lemma issued_sound:
  assumes "issue_permit r now m = (Inr p, m1)" "consume_permit p r now' m2 = (Inr c, m3)" "valid_id (rq_request_digest r)"
  shows "sound_permit c"
  using assms(3) consume_permit_Inr(1) [OF assms(2)] issue_permit_fresh(2) [OF assms(1)] assms(1)
  by (auto simp: sound_permit_def issue_permit_def issue_def Let_def split: option.splits sum.splits prod.splits)

definition honest_executors :: "(string \<Rightarrow> string) \<Rightarrow> 'w ledger \<Rightarrow> 'w executors \<Rightarrow> bool" where
  "honest_executors sha lg ex \<longleftrightarrow>
     (\<forall>c a b now w. lg_handed lg w < 2 ^ 64 \<and> sound_permit c \<longrightarrow>
        (case ex_inventory ex c a now w of ((receipt, _), w') \<Rightarrow> honest_receipt sha lg c w receipt w')
      \<and> (case ex_search ex c a b now w of ((receipt, _), w') \<Rightarrow> honest_receipt sha lg c w receipt w')
      \<and> (case ex_read ex c a now w of ((receipt, _), w') \<Rightarrow> honest_receipt sha lg c w receipt w')
      \<and> (case ex_process ex c a now w of ((receipt, _), w') \<Rightarrow> honest_receipt sha lg c w receipt w')
      \<and> (case ex_write ex c a b now w of ((receipt, _), w') \<Rightarrow> honest_receipt sha lg c w receipt w')
      \<and> (case ex_fetch ex c a now w of ((receipt, _), w') \<Rightarrow> honest_receipt sha lg c w receipt w')
      \<and> (case ex_wasm ex c a now w of ((receipt, _), w') \<Rightarrow> honest_receipt sha lg c w receipt w'))"

lemma honest_executorsD:
  assumes "honest_executors sha lg ex" "lg_handed lg w < 2 ^ 64" "sound_permit c"
  shows "ex_inventory ex c a now w = ((receipt, r1), w') \<Longrightarrow> honest_receipt sha lg c w receipt w'"
    and "ex_search ex c a b now w = ((receipt, r2), w') \<Longrightarrow> honest_receipt sha lg c w receipt w'"
    and "ex_read ex c a now w = ((receipt, r3), w') \<Longrightarrow> honest_receipt sha lg c w receipt w'"
    and "ex_process ex c a now w = ((receipt, r4), w') \<Longrightarrow> honest_receipt sha lg c w receipt w'"
    and "ex_write ex c a b now w = ((receipt, r5), w') \<Longrightarrow> honest_receipt sha lg c w receipt w'"
    and "ex_fetch ex c a now w = ((receipt, r6), w') \<Longrightarrow> honest_receipt sha lg c w receipt w'"
    and "ex_wasm ex c a now w = ((receipt, r7), w') \<Longrightarrow> honest_receipt sha lg c w receipt w'"
  using spec [OF spec [OF spec [OF spec [OF spec [OF assms(1) [unfolded honest_executors_def], of c], of a], of b], of now], of w] assms(2,3)
  by (auto split: prod.splits)


section \<open>The transcript invariant\<close>

definition event_name :: "u64 \<Rightarrow> string" where
  "event_name n = ''event-'' @ show_nat (unat n)"

abbreviation run_scope :: "session \<Rightarrow> execution_id \<Rightarrow> rollout_scope" where
  "run_scope ses eid \<equiv>
     \<lparr>rsc_tenant_id = se_tenant_id ses, rsc_workspace_id = se_workspace_id ses, rsc_session_id = se_id ses,
      rsc_execution_id = eid\<rparr>"

definition event_ok :: "(string \<Rightarrow> string) \<Rightarrow> session \<Rightarrow> execution_id \<Rightarrow> runtime_event \<Rightarrow> bool" where
  "event_ok sha ses eid ev \<longleftrightarrow>
     check_event_scope (run_scope ses eid) (ev_context ev) = Inr ()
   \<and> (\<exists>e. project_event sha ev = Inr e \<and> valid_evidence e)"

definition receipt_ok :: "(string \<Rightarrow> string) \<Rightarrow> effect_receipt \<Rightarrow> bool" where
  "receipt_ok sha rc \<longleftrightarrow> (\<exists>e. project_receipt sha rc = Inr e \<and> valid_evidence e)"

definition transcript_ok ::
  "(string \<Rightarrow> string) \<Rightarrow> 'w ledger \<Rightarrow> session \<Rightarrow> execution_id \<Rightarrow> u64 \<Rightarrow> nat \<Rightarrow> run_summary \<times> 'w controller \<Rightarrow> bool" where
  "transcript_ok sha lg ses eid n0 h0 sc \<longleftrightarrow>
     sm_events (fst sc) \<noteq> []
   \<and> map ev_event_id (sm_events (fst sc)) = map (\<lambda>k. event_name (n0 + of_nat k)) [0..<length (sm_events (fst sc))]
   \<and> ct_next_event (snd sc) = n0 + of_nat (length (sm_events (fst sc)))
   \<and> list_all (event_ok sha ses eid) (sm_events (fst sc))
   \<and> completion_links (sm_events (fst sc)) = map receipt_link (sm_receipts (fst sc))
   \<and> distinct (map rc_receipt_id (sm_receipts (fst sc)))
   \<and> rc_receipt_id ` set (sm_receipts (fst sc)) \<subseteq> lg_used lg (ct_world (snd sc))
   \<and> list_all (receipt_ok sha) (sm_receipts (fst sc))
   \<and> lg_handed lg (ct_world (snd sc)) \<le> h0 + length (sm_receipts (fst sc))
   \<and> valid_id (sm_selected_harness (fst sc)) \<and> valid_id (sm_selected_gene (fst sc)) \<and> sm_execution_id (fst sc) = eid"

lemma check_identifier_iff: "check_identifier field v = Inr u \<longleftrightarrow> valid_id v"
  by (auto simp: check_identifier_def valid_id_def MAX_LABEL_BYTES_def)

lemma event_name_inject [simp]: "event_name m = event_name n \<longleftrightarrow> m = n"
  by (simp add: event_name_def word_unat_eq_iff)

lemma event_name_valid [simp]: "valid_id (event_name n)"
  using show_nat_u64_length [of n] last_show_nat_visible [of "unat n"]
  by (auto simp: event_name_def visible_def intro!: valid_id_visible)

lemma hex_digit_lower:
  "d < 16 \<Longrightarrow> is_ascii_digit (hex_digit d) \<or> ((97 :: nat) \<le> of_char (hex_digit d) \<and> of_char (hex_digit d) \<le> (102 :: nat))"
  by (auto simp: hex_digit_def is_ascii_digit_def of_char_of)

lemma finish_digest_valid: "length (sha x) = 32 \<Longrightarrow> is_sha256_digest (finish_digest sha x)"
proof -
  have "list_all (\<lambda>c. is_ascii_digit c \<or> ((97 :: nat) \<le> of_char c \<and> of_char c \<le> (102 :: nat))) (hex_encode bs)" for bs
    by (induction bs) (simp_all add: hex_byte_def hex_digit_lower div_less_iff_less_mult)
  moreover assume "length (sha x) = 32"
  ultimately show ?thesis by (simp add: is_sha256_digest_def finish_digest_def)
qed

text \<open>The payloads a run emits.\<close>

definition payload_ok :: "(string \<Rightarrow> string) \<Rightarrow> event_payload \<Rightarrow> bool" where
  "payload_ok sha payload \<longleftrightarrow> (\<exists>e. project_payload sha payload = Inr e \<and> validate_event_evidence e = Inr ())"

lemma effect_payload_ok: "valid_id (rq_request_digest r) \<Longrightarrow> payload_ok sha (effect_payload r)"
proof -
  assume d: "valid_id (rq_request_digest r)"
  have "validate_code f (capability_str c) = Inr (capability_str c)" for f c
    by (cases c) (simp_all add: validate_code_iff check_identifier_iff valid_id_visible visible_def is_ascii_alphanumeric_def)
  with d show ?thesis by (simp add: payload_ok_def effect_payload_def effect_evidence_def check_identifier_iff)
qed

lemma failure_payload_ok: "payload_ok sha (FailurePayload (runtime_error_code e))"
proof -
  have "validate_code f (runtime_error_code e) = Inr (runtime_error_code e)" for f
    by (cases e) (simp_all add: validate_code_iff check_identifier_iff valid_id_visible visible_def is_ascii_alphanumeric_def)
  then show ?thesis by (simp add: payload_ok_def failure_evidence_def)
qed

lemma policy_payload_ok:
  assumes "\<And>x. length (sha x) = 32" "\<not> blank reason" "length reason \<le> 4096"
  shows "payload_ok sha (PolicyPayload reason)"
  using assms
  by (simp add: payload_ok_def policy_evidence_def digest_sensitive_def MAX_REASON_BYTES_def new_rollout_digest_def finish_digest_valid)

lemma empty_payload_ok: "payload_ok sha EmptyPayload"
  by (simp add: payload_ok_def)

section \<open>Events\<close>

lemma context_of_run:
  "ec_session_id (event_context_for ses eid h g receipt ct) = Some (se_id ses)"
  "ec_execution_id (event_context_for ses eid h g receipt ct) = Some eid"
  "ec_tenant_id (event_context_for ses eid h g receipt ct) = se_tenant_id ses"
  "ec_workspace_id (event_context_for ses eid h g receipt ct) = se_workspace_id ses"
  "ec_harness_id (event_context_for ses eid h g receipt ct) = h"
  "ec_gene_id (event_context_for ses eid h g receipt ct) = g"
  "ec_receipt_id (event_context_for ses eid h g receipt ct) = map_option rc_receipt_id receipt"
  by (simp_all add: event_context_for_def new_event_context_def Let_def split: option.split)

lemma event_ok_intro:
  assumes "payload_ok sha payload" "pred_option valid_id h" "pred_option valid_id g"
    "pred_option valid_id (map_option rc_receipt_id receipt)"
  shows "event_ok sha ses eid (new_runtime_event (event_name n) ty (event_context_for ses eid h g receipt ct) payload)"
  using assms
  by (auto simp: event_ok_def payload_ok_def check_event_scope_def project_event_def new_runtime_event_def
      context_of_run check_optional_identifier_def check_identifier_iff Let_def
      split: option.splits)

lemma receipt_ok_id: "receipt_ok sha rc \<Longrightarrow> valid_id (rc_receipt_id rc)"
  by (auto simp: receipt_ok_def project_receipt_def check_identifier_iff)

lemma emit_eq:
  "emit ses eid receipt ty payload (s, ct) =
     (s\<lparr>sm_events := sm_events s @
         [new_runtime_event (event_name (ct_next_event ct)) ty
            (event_context_for ses eid (Some (sm_selected_harness s)) (Some (sm_selected_gene s)) receipt ct) payload]\<rparr>,
      ct\<lparr>ct_next_event := ct_next_event ct + 1\<rparr>)"
  by (simp add: emit_def new_event_def event_name_def)

lemma completion_links_snoc:
  "completion_links (evs @ [ev]) =
     completion_links evs @ (case completion_link ev of None \<Rightarrow> [] | Some l \<Rightarrow> [l])"
  by (induction evs) (simp_all add: map_filter_simps split: option.split)

lemma transcript_emit:
  assumes "transcript_ok sha lg ses eid n0 h0 (s, ct)" "payload_ok sha payload" "ty \<noteq> EffectCompleted"
    and "\<And>rc. receipt = Some rc \<Longrightarrow> receipt_ok sha rc"
  shows "transcript_ok sha lg ses eid n0 h0 (emit ses eid receipt ty payload (s, ct))"
proof -
  have "pred_option valid_id (map_option rc_receipt_id receipt)"
    using assms(4) by (cases receipt) (auto dest: receipt_ok_id)
  with assms show ?thesis
    by (auto simp: transcript_ok_def emit_eq completion_links_snoc completion_link_def new_runtime_event_def
        event_ok_intro [unfolded new_runtime_event_def] split: option.splits event_payload.splits)
qed

text \<open>Only the output of a summary is free of the invariant.\<close>

lemma transcript_output:
  "transcript_ok sha lg ses eid n0 h0 (s\<lparr>sm_output := x\<rparr>, ct) = transcript_ok sha lg ses eid n0 h0 (s, ct)"
  "transcript_ok sha lg ses eid n0 h0 (s\<lparr>sm_status := st\<rparr>, ct) = transcript_ok sha lg ses eid n0 h0 (s, ct)"
  "transcript_ok sha lg ses eid n0 h0 (append_labeled_output label bytes s, ct) = transcript_ok sha lg ses eid n0 h0 (s, ct)"
  by (simp_all add: transcript_ok_def append_labeled_output_def Let_def)

lemma transcript_controller:
  "ct_next_event ct' = ct_next_event ct \<Longrightarrow> ct_world ct' = ct_world ct \<Longrightarrow>
   transcript_ok sha lg ses eid n0 h0 (s, ct') = transcript_ok sha lg ses eid n0 h0 (s, ct)"
  by (simp add: transcript_ok_def)

lemma transcript_complete:
  assumes "transcript_ok sha lg ses eid n0 h0 (s, ct)" "honest_receipt sha lg c (ct_world ct) receipt w"
    and "valid_id (rq_request_digest (cp_request c))"
  shows "transcript_ok sha lg ses eid n0 h0 (complete_effect ses eid c receipt (s, ct\<lparr>ct_world := w\<rparr>))"
proof -
  have ok: "receipt_ok sha receipt" using assms(2) by (simp add: honest_receipt_def receipt_ok_def)
  have fresh: "rc_receipt_id receipt \<notin> rc_receipt_id ` set (sm_receipts s)"
    using assms(1,2) by (auto simp: transcript_ok_def honest_receipt_def)
  have used: "insert (rc_receipt_id receipt) (rc_receipt_id ` set (sm_receipts s)) \<subseteq> lg_used lg w"
    using assms(1,2) by (auto simp: transcript_ok_def honest_receipt_def)
  have handed: "lg_handed lg w \<le> h0 + length (sm_receipts s) + 1"
    using assms(1,2) by (auto simp: transcript_ok_def honest_receipt_def)
  have link: "completion_link (new_runtime_event n EffectCompleted (event_context_for ses eid h g (Some receipt) ct')
      (effect_payload (cp_request c))) = Some (receipt_link receipt)" for n h g and ct' :: "'a controller"
    using assms(2) by (simp add: completion_link_def new_runtime_event_def context_of_run effect_payload_def honest_receipt_def)
  show ?thesis using assms(1) ok fresh used handed
    by (auto simp: transcript_ok_def complete_effect_def emit_eq completion_links_snoc link
        intro!: event_ok_intro effect_payload_ok assms(3) dest: receipt_ok_id)
       (simp_all add: new_runtime_event_def)
qed

lemma transcript_failure:
  assumes "transcript_ok sha lg ses eid n0 h0 sc"
  shows "transcript_ok sha lg ses eid n0 h0 (record_failure ses eid e sc)"
proof (cases sc)
  case (Pair s ct)
  let ?s = "s\<lparr>sm_status := RunFailed (runtime_error_code e)\<rparr>"
  have "transcript_ok sha lg ses eid n0 h0 (emit ses eid (last_receipt ?s) ExecutionFailed
      (FailurePayload (runtime_error_code e)) (?s, ct))"
  proof (rule transcript_emit)
    show "transcript_ok sha lg ses eid n0 h0 (?s, ct)" using assms Pair by (simp add: transcript_output)
    show "receipt_ok sha rc" if "last_receipt ?s = Some rc" for rc
      using that assms Pair by (auto simp: last_receipt_def transcript_ok_def list_all_iff split: if_splits)
  qed (simp_all add: failure_payload_ok)
  with Pair show ?thesis by (simp add: record_failure_def Let_def)
qed


section \<open>Executing a request\<close>

lemma transcript_complete_then:
  assumes "complete_effect ses eid c receipt (s, ct\<lparr>ct_world := w\<rparr>) = (s', ct')"
    and "transcript_ok sha lg ses eid n0 h0 (s, ct)" "honest_receipt sha lg c (ct_world ct) receipt w"
    and "valid_id (rq_request_digest (cp_request c))"
  shows "transcript_ok sha lg ses eid n0 h0 (s', ct')"
  using transcript_complete [OF assms(2-4)] assms(1) by simp

lemma read_effect_honest:
  assumes ex: "honest_executors sha lg ex" and h: "lg_handed lg w < 2 ^ 64"
    and d: "sound_permit c" and "read_effect ex c path now w = Inr ((receipt, result), w')"
  shows "honest_receipt sha lg c w receipt w'"
proof -
  have "honest_receipt sha lg c w (fst (fst (ex_inventory ex c a now w))) (snd (ex_inventory ex c a now w))"
    "honest_receipt sha lg c w (fst (fst (ex_search ex c a b now w))) (snd (ex_search ex c a b now w))"
    "honest_receipt sha lg c w (fst (fst (ex_read ex c a now w))) (snd (ex_read ex c a now w))" for a b
    by (metis ex h d honest_executorsD(1-3) prod.collapse)+
  note honest = this
  from assms(4) show ?thesis
    by (auto simp: read_effect_def Let_def case_prod_beta split: if_split_asm)
       (metis honest fst_conv snd_conv)+
qed

lemma transcript_execute:
  assumes ex: "honest_executors sha lg ex" and t: "transcript_ok sha lg ses eid n0 h0 (s, ct)"
    and p: "sound_permit c" and h: "lg_handed lg (ct_world ct) < 2 ^ 64"
  shows "transcript_ok sha lg ses eid n0 h0 (snd (execute_request ex ses eid c payload now (s, ct)))"
proof -
  note d = sound_permitD [OF p]
  note done_with = transcript_complete_then [OF _ t _ d]
  have read: "transcript_ok sha lg ses eid n0 h0 (snd (execute_read ex ses eid c now (s, ct)))"
  proof (cases "\<exists>path receipt result w. rq_target (cp_request c) = Path path \<and> read_effect ex c path now (ct_world ct) = Inr ((receipt, result), w)")
    case True
    then obtain path receipt result w where target: "rq_target (cp_request c) = Path path"
      and eff: "read_effect ex c path now (ct_world ct) = Inr ((receipt, result), w)" by blast
    obtain s' ct' where c: "complete_effect ses eid c receipt (s, ct\<lparr>ct_world := w\<rparr>) = (s', ct')" by fastforce
    have "transcript_ok sha lg ses eid n0 h0 (s', ct')" by (rule done_with [OF c read_effect_honest [OF ex h p eff]])
    with target eff c show ?thesis by (simp add: execute_read_def transcript_output split: sum.split)
  next
    case False
    with t show ?thesis
      by (auto simp: execute_read_def split: effect_target.splits sum.splits prod.splits)
  qed
  have process: "transcript_ok sha lg ses eid n0 h0 (snd (execute_process ex ses eid c now (s, ct)))"
    using t by (auto simp: execute_process_def Let_def transcript_output
        split: effect_target.splits sum.splits prod.splits if_splits
        intro!: transcript_complete [OF _ _ d] dest: honest_executorsD [OF ex h p])
  have wr: "transcript_ok sha lg ses eid n0 h0 (snd (execute_write ex ses eid c payload now (s, ct)))"
    using t by (auto simp: execute_write_def Let_def transcript_output
        split: effect_target.splits sum.splits prod.splits if_splits option.splits
        intro!: transcript_complete [OF _ _ d] dest: honest_executorsD [OF ex h p])
  have network: "transcript_ok sha lg ses eid n0 h0 (snd (execute_network ex ses eid c payload now (s, ct)))"
    using t by (auto simp: execute_network_def Let_def transcript_output
        split: sum.splits prod.splits if_splits option.splits
        elim!: done_with dest: honest_executorsD [OF ex h p])
  have wasm: "transcript_ok sha lg ses eid n0 h0 (snd (execute_wasm ex ses eid c payload now (s, ct)))"
    using t by (auto simp: execute_wasm_def Let_def transcript_output
        split: sum.splits prod.splits if_splits option.splits
        elim!: done_with dest: honest_executorsD [OF ex h p])
  show ?thesis using t read process wr network wasm
    by (simp add: execute_request_def split: capability.split)
qed


section \<open>A whole run\<close>

text \<open>The hooks whose denials fit the bound on a redacted reason.\<close>

definition short_hooks :: "lifecycle_hooks \<Rightarrow> bool" where
  "short_hooks hooks \<longleftrightarrow> list_all (\<lambda>h. length (hk_id h) + length (hk_reason h) \<le> 4000) hooks"

abbreviation tsize :: "run_summary \<times> 'w controller \<Rightarrow> nat" where
  "tsize sc \<equiv> length (sm_events (fst sc)) + length (sm_receipts (fst sc))"

lemma tsize_emit: "tsize (emit ses eid receipt ty payload sc) = tsize sc + 1"
  by (cases sc) (simp add: emit_eq)

lemma tsize_failure: "tsize (record_failure ses eid e sc) = tsize sc + 1"
  by (cases sc) (simp add: record_failure_def emit_eq Let_def)

lemma tsize_complete: "tsize (complete_effect ses eid c receipt (s, ct)) = length (sm_events s) + length (sm_receipts s) + 2"
  by (simp add: complete_effect_def emit_eq)

lemma tsize_output [simp]:
  "sm_events (append_labeled_output label bytes s) = sm_events s"
  "sm_receipts (append_labeled_output label bytes s) = sm_receipts s"
  by (simp_all add: append_labeled_output_def Let_def)

lemma tsize_complete_then:
  "complete_effect ses eid c receipt (s, ct) = (s', ct') \<Longrightarrow>
   length (sm_events s') + length (sm_receipts s') = length (sm_events s) + length (sm_receipts s) + 2"
  using tsize_complete [of ses eid c receipt s ct] by simp

lemma tsize_execute: "tsize (snd (execute_request ex ses eid c payload now (s, ct))) \<le> length (sm_events s) + length (sm_receipts s) + 2"
proof -
  have "tsize (snd (execute_read ex ses eid c now (s, ct))) \<le> length (sm_events s) + length (sm_receipts s) + 2"
    by (auto simp: execute_read_def tsize_complete split: effect_target.split sum.split prod.split dest: tsize_complete_then)
  moreover have "tsize (snd (execute_process ex ses eid c now (s, ct))) \<le> length (sm_events s) + length (sm_receipts s) + 2"
    by (auto simp: execute_process_def Let_def tsize_complete split: effect_target.split sum.split prod.split dest: tsize_complete_then)
  moreover have "tsize (snd (execute_write ex ses eid c payload now (s, ct))) \<le> length (sm_events s) + length (sm_receipts s) + 2"
    by (auto simp: execute_write_def tsize_complete split: effect_target.split sum.split prod.split option.split dest: tsize_complete_then)
  moreover have "tsize (snd (execute_network ex ses eid c payload now (s, ct))) \<le> length (sm_events s) + length (sm_receipts s) + 2"
    by (auto simp: execute_network_def tsize_complete split: sum.split prod.split option.split dest: tsize_complete_then)
  moreover have "tsize (snd (execute_wasm ex ses eid c payload now (s, ct))) \<le> length (sm_events s) + length (sm_receipts s) + 2"
    by (auto simp: execute_wasm_def tsize_complete split: sum.split prod.split option.split dest: tsize_complete_then)
  ultimately show ?thesis by (simp add: execute_request_def split: capability.split)
qed


text \<open>The invariant with a bound on the size, and the facts of a run it rests on.\<close>

definition transcript_within ::
  "(string \<Rightarrow> string) \<Rightarrow> 'w ledger \<Rightarrow> session \<Rightarrow> execution_id \<Rightarrow> u64 \<Rightarrow> nat \<Rightarrow> nat \<Rightarrow> run_summary \<times> 'w controller \<Rightarrow> bool" where
  "transcript_within sha lg ses eid n0 h0 b sc \<longleftrightarrow>
     transcript_ok sha lg ses eid n0 h0 sc \<and> tsize sc \<le> b \<and> short_hooks (ct_hooks (snd sc))"

lemma within_mono: "transcript_within sha lg ses eid n0 h0 b sc \<Longrightarrow> b \<le> b' \<Longrightarrow> transcript_within sha lg ses eid n0 h0 b' sc"
  by (simp add: transcript_within_def)

lemma hooks_kept [simp]:
  "ct_hooks (snd (emit ses eid receipt ty payload sc)) = ct_hooks (snd sc)"
  "ct_hooks (snd (record_failure ses eid e sc)) = ct_hooks (snd sc)"
  "ct_hooks (snd (snd (execute_request ex ses eid c pl now sc))) = ct_hooks (snd sc)"
  using emit_facts(1) [of ses eid receipt ty payload sc] record_failure_facts(1) [of ses eid e sc]
    execute_request_step [of sc ex ses eid c pl now]
  by (simp_all add: same_authority_def effect_step_def)

lemma within_emit:
  assumes "transcript_within sha lg ses eid n0 h0 b sc" "payload_ok sha payload" "ty \<noteq> EffectCompleted"
  shows "transcript_within sha lg ses eid n0 h0 (b + 1) (emit ses eid None ty payload sc)"
  using assms transcript_emit [of sha lg ses eid n0 h0 "fst sc" "snd sc" payload ty None]
  by (simp add: transcript_within_def tsize_emit)

lemma within_failure:
  assumes "transcript_within sha lg ses eid n0 h0 b sc"
  shows "transcript_within sha lg ses eid n0 h0 (b + 1) (record_failure ses eid e sc)"
  using assms by (simp add: transcript_within_def tsize_failure transcript_failure)

lemma within_controller:
  assumes "ct_next_event ct' = ct_next_event ct" "ct_world ct' = ct_world ct" "ct_hooks ct' = ct_hooks ct"
  shows "transcript_within sha lg ses eid n0 h0 b (s, ct') = transcript_within sha lg ses eid n0 h0 b (s, ct)"
  using transcript_controller [OF assms(1,2)] assms(3) by (simp add: transcript_within_def)

lemma within_status:
  "transcript_within sha lg ses eid n0 h0 b (s\<lparr>sm_status := st\<rparr>, ct) = transcript_within sha lg ses eid n0 h0 b (s, ct)"
  by (simp add: transcript_within_def transcript_output)

lemma within_halt:
  assumes "transcript_within sha lg ses eid n0 h0 b sc" "payload_ok sha (PolicyPayload reason)" "ty \<noteq> EffectCompleted"
  shows "transcript_within sha lg ses eid n0 h0 (b + 1) (snd (halt_with ses eid ty status reason sc))"
  using within_emit [OF assms] by (cases "emit ses eid None ty (PolicyPayload reason) sc") (simp add: halt_with_def within_status)

lemma decision_reason:
  assumes "decide p r ctx = Allow d v reason \<or> decide p r ctx = Deny d v reason \<or> decide p r ctx = RequireApproval d v reason"
  shows "\<not> blank reason \<and> length reason \<le> 64"
proof -
  have "\<not> blank (x # s)" if "visible x" for x s using not_blank_visible [OF that] by simp
  note nb = this
  show ?thesis using assms
    by (auto simp: decide_def decision_defs visible_def split: if_splits intro!: nb)
qed

lemma hook_reason:
  assumes "hook_denial r ct = Some reason" "short_hooks (ct_hooks ct)"
  shows "\<not> blank reason \<and> length reason \<le> 4096"
proof -
  obtain i why where h: "evaluate_hooks BeforeAuthorization r (ct_hooks ct) = DenyHook i why"
    and reason: "reason = ''lifecycle hook '' @ i @ '' denied request: '' @ why"
    using assms(1) by (auto simp: hook_denial_def split: hook_decision.splits)
  from h obtain x where x: "x \<in> set (ct_hooks ct)" "i = hk_id x" "why = hk_reason x"
    by (auto simp: evaluate_hooks_def find_Some_iff split: option.splits intro: nth_mem)
  with assms(2) have "length i + length why \<le> 4000" by (auto simp: short_hooks_def list_all_iff)
  with reason show ?thesis
    using not_blank_visible [of "CHR ''l''" reason] by (simp add: visible_def)
qed

lemma within_permit_or_fail:
  assumes "transcript_within sha lg ses eid n0 h0 b sc"
  shows "transcript_within sha lg ses eid n0 h0 (case fst (permit_or_fail ses eid res sc) of Proceed _ \<Rightarrow> b | _ \<Rightarrow> b + 1)
    (snd (permit_or_fail ses eid res sc))"
proof -
  have m: "transcript_within sha lg ses eid n0 h0 b (fst sc, (snd sc)\<lparr>ct_monitor := m\<rparr>)" for m
    using assms within_controller [of "(snd sc)\<lparr>ct_monitor := m\<rparr>" "snd sc"] by simp
  show ?thesis
    using m within_failure [OF m] by (auto simp: permit_or_fail_def split: prod.split sum.split)
qed

lemma within_authorize:
  assumes t: "transcript_within sha lg ses eid n0 h0 b sc" and sha: "\<And>x. length (sha x) = 32"
  shows "transcript_within sha lg ses eid n0 h0 (case fst (authorize_step ses eid approval au now r sc) of Proceed _ \<Rightarrow> b + 1 | _ \<Rightarrow> b + 2)
    (snd (authorize_step ses eid approval au now r sc))"
proof -
  let ?d = "decide (ct_parliament (snd sc)) r (ct_policy (snd sc))"
  have policy: "payload_ok sha (PolicyPayload reason)" if "\<not> blank reason" "length reason \<le> 4096" for reason
    using policy_payload_ok [OF sha that] .
  have table: "transcript_within sha lg ses eid n0 h0 b (fst sc, (snd sc)\<lparr>ct_approvals := tb\<rparr>)" for tb
    using t within_controller [of "(snd sc)\<lparr>ct_approvals := tb\<rparr>" "snd sc"] by simp
  have approved: "transcript_within sha lg ses eid n0 h0
      (case fst (permit_or_fail ses eid res (emit ses eid None PolicyApproved (PolicyPayload reason) sc')) of Proceed _ \<Rightarrow> b + 1 | _ \<Rightarrow> b + 2)
      (snd (permit_or_fail ses eid res (emit ses eid None PolicyApproved (PolicyPayload reason) sc')))"
    if "transcript_within sha lg ses eid n0 h0 b sc'" "\<not> blank reason" "length reason \<le> 4096" for res reason sc'
    using within_permit_or_fail [OF within_emit [OF that(1) policy [OF that(2,3)]], of PolicyApproved res]
    by (simp split: progress.splits)
  have explicit: "\<not> blank (''explicit approval consumed: '' @ reason) \<and> length (''explicit approval consumed: '' @ reason) \<le> 4096"
    if "length reason \<le> 64" for reason
    using that not_blank_visible [of "CHR ''e''"] by (simp add: visible_def)
  have halted: "transcript_within sha lg ses eid n0 h0 (b + 2) (snd (halt_with ses eid ty st reason sc))"
    if "\<not> blank reason" "length reason \<le> 64" "ty \<noteq> EffectCompleted" for ty st reason
    using within_halt [OF t policy, of reason ty st] that by (auto intro: within_mono)
  have no_permit: "fst (halt_with ses eid ty st reason sc) = Halt" for ty st reason
    by (simp add: halt_with_def split: prod.split)
  show ?thesis
  proof (cases ?d)
    case (Allow dg v reason)
    then have "\<not> blank reason" "length reason \<le> 4096" using decision_reason by fastforce+
    with Allow show ?thesis
      using approved [OF t] within_mono [OF within_failure [OF t], of "b + 2"] by (auto simp: authorize_step_def Let_def)
  next
    case (Deny dg v reason)
    then have "\<not> blank reason" "length reason \<le> 64" using decision_reason by blast+
    with Deny show ?thesis using halted [of reason PolicyDenied "RunDenied reason"] by (simp add: authorize_step_def no_permit)
  next
    case (RequireApproval dg v reason)
    then have reason: "\<not> blank reason" "length reason \<le> 64" using decision_reason by blast+
    show ?thesis
    proof (cases approval)
      case None
      with RequireApproval reason show ?thesis
        using halted [of reason ApprovalRequiredEvent "RunApprovalRequired reason"] by (simp add: authorize_step_def no_permit)
    next
      case (Some fi)
      with RequireApproval show ?thesis
        using approved [OF table] explicit [OF reason(2)] within_mono [OF table, of "b + 2"]
        by (auto simp: authorize_step_def Let_def split: prod.split sum.split)
    qed
  qed
qed

lemma within_spend:
  assumes t: "transcript_within sha lg ses eid n0 h0 b sc" and ex: "honest_executors sha lg ex" and d: "valid_id (rq_request_digest r)"
    and h: "h0 + b < 2 ^ 64" and p: "issue_permit r now0 m0 = (Inr p, m1)"
  shows "transcript_within sha lg ses eid n0 h0 (case fst (spend_permit ex ses eid payload now r p sc) of Proceed _ \<Rightarrow> b + 2 | _ \<Rightarrow> b + 3)
    (snd (spend_permit ex ses eid payload now r p sc))"
proof (cases "consume_permit p r now (ct_monitor (snd sc))")
  case (Pair res m)
  let ?sc = "\<lambda>xs. (fst sc, (snd sc)\<lparr>ct_monitor := m, ct_executed := xs\<rparr>)"
  have kept: "transcript_within sha lg ses eid n0 h0 b (?sc xs)" "transcript_within sha lg ses eid n0 h0 b (fst sc, (snd sc)\<lparr>ct_monitor := m\<rparr>)" for xs
    using t within_controller [of "(snd sc)\<lparr>ct_monitor := m, ct_executed := xs\<rparr>" "snd sc"]
      within_controller [of "(snd sc)\<lparr>ct_monitor := m\<rparr>" "snd sc"] by simp_all
  show ?thesis
  proof (cases res)
    case (Inl e)
    with Pair show ?thesis using within_mono [OF within_failure [OF kept(2)], of "b + 3"] by (simp add: spend_permit_def)
  next
    case (Inr c)
    then have r: "cp_request c = r" using Pair by (auto simp: consume_permit_def consume_Inr_iff split: prod.splits)
    obtain out s' ct' where e: "execute_request ex ses eid c payload now (?sc (ct_executed (snd sc) @ [c])) = (out, s', ct')"
      by (metis prod_cases3)
    have "transcript_within sha lg ses eid n0 h0 (b + 2) (s', ct')"
      using kept(1) [of "ct_executed (snd sc) @ [c]"] h transcript_execute [OF ex _ , of ses eid n0 h0 "fst sc" "(snd sc)\<lparr>ct_monitor := m, ct_executed := ct_executed (snd sc) @ [c]\<rparr>" c payload now]
        tsize_execute [of ex ses eid c payload now "fst sc" "(snd sc)\<lparr>ct_monitor := m, ct_executed := ct_executed (snd sc) @ [c]\<rparr>"]
        hooks_kept(3) [of ex ses eid c payload now "?sc (ct_executed (snd sc) @ [c])"] e issued_sound [OF p Pair [unfolded Inr] d]
      by (auto simp: transcript_within_def transcript_ok_def)
    note done_effect = this
    show ?thesis using Pair Inr e done_effect within_mono [OF within_failure [OF done_effect], of "b + 3"]
      by (simp add: spend_permit_def split: sum.split)
  qed
qed

lemma within_step:
  assumes t: "transcript_within sha lg ses eid n0 h0 b sc" and ex: "honest_executors sha lg ex"
    and d: "valid_id (rq_request_digest r)" and sha: "\<And>x. length (sha x) = 32" and h: "h0 + b + 2 < 2 ^ 64"
  shows "transcript_within sha lg ses eid n0 h0 (case fst (step_request ex ses eid approval au payload now r sc) of Proceed _ \<Rightarrow> b + 4 | _ \<Rightarrow> b + 5)
    (snd (step_request ex ses eid approval au payload now r sc))"
proof -
  let ?sc = "emit ses eid None EffectRequested (effect_payload r) sc"
  have t': "transcript_within sha lg ses eid n0 h0 (b + 1) ?sc"
    by (rule within_emit [OF t effect_payload_ok [OF d]]) simp
  show ?thesis
  proof (cases "hook_denial r (snd ?sc)")
    case (Some reason)
    have "short_hooks (ct_hooks (snd ?sc))" using t' by (simp add: transcript_within_def)
    from hook_reason [OF Some this] have "payload_ok sha (PolicyPayload reason)" by (simp add: policy_payload_ok sha)
    from within_halt [OF t' this, of PolicyDenied "RunDenied reason"] Some show ?thesis
      by (auto simp: step_request_def Let_def halt_with_def split: prod.splits intro: within_mono)
  next
    case None
    obtain pr sc' where a: "authorize_step ses eid approval au now r ?sc = (pr, sc')" by (rule prod.exhaust)
    have w: "transcript_within sha lg ses eid n0 h0 (case pr of Proceed _ \<Rightarrow> b + 2 | _ \<Rightarrow> b + 3) sc'"
      using within_authorize [OF t' sha, of approval au now r] a by (simp add: numeral_eq_Suc split: progress.splits)
    show ?thesis
    proof (cases pr)
      case (Proceed p)
      then have "transcript_within sha lg ses eid n0 h0 (b + 2) sc'" using w by simp
      moreover have "h0 + (b + 2) < 2 ^ 64" using h by simp
      moreover obtain m0 m1 where "issue_permit r now m0 = (Inr p, m1)"
        using authorize_step_Proceed(2) [of ses eid approval au now r "fst ?sc" "snd ?sc" p "fst sc'" "snd sc'"] None a Proceed
        by (auto simp: hook_denial_None)
      ultimately have spent: "transcript_within sha lg ses eid n0 h0
          (case fst (spend_permit ex ses eid payload now r p sc') of Proceed _ \<Rightarrow> b + 2 + 2 | _ \<Rightarrow> b + 2 + 3)
          (snd (spend_permit ex ses eid payload now r p sc'))"
        using within_spend [OF _ ex d] by metis
      have sum: "b + 2 + 2 = b + 4" "b + 2 + 3 = b + 5" by simp_all
      show ?thesis using spent [unfolded sum] None a Proceed by (cases sc') (simp add: step_request_def Let_def)
    qed (use None a w in \<open>auto simp: step_request_def Let_def intro: within_mono split: prod.splits\<close>)
  qed
qed

lemma within_run:
  assumes "transcript_within sha lg ses eid n0 h0 b sc" and ex: "honest_executors sha lg ex"
    and "\<forall>r \<in> set rs. valid_id (rq_request_digest r)" and sha: "\<And>x. length (sha x) = 32"
    and "run_requests ex ses eid approval au payload now rs sc = (Inr s, ct)" and "h0 + b + 4 * length rs < 2 ^ 64"
  shows "transcript_within sha lg ses eid n0 h0 (b + 4 * length rs + 1) (s, ct)"
  using assms(1,3,5,6)
proof (induction rs arbitrary: b sc approval)
  case Nil
  then show ?case by (auto intro: within_mono)
next
  case (Cons r rs)
  obtain pr sc' where st: "step_request ex ses eid approval au payload now r sc = (pr, sc')" by (rule prod.exhaust)
  have w: "transcript_within sha lg ses eid n0 h0 (case pr of Proceed _ \<Rightarrow> b + 4 | _ \<Rightarrow> b + 5) sc'"
    using within_step [OF Cons.prems(1) ex _ sha, of r approval au payload now] Cons.prems(2,4) st by simp
  show ?case
  proof (cases pr)
    case (Proceed u)
    then have "transcript_within sha lg ses eid n0 h0 (b + 4) sc'" using w by simp
    from Cons.IH [OF this _, of "later_faults approval"] Cons.prems st Proceed show ?thesis
      by (cases sc') (simp add: algebra_simps)
  next
    case Halt
    then show ?thesis using w st Cons.prems(3) by (cases sc') (auto intro: within_mono)
  next
    case (Abort e)
    then show ?thesis using st Cons.prems(3) by (cases sc') simp
  qed
qed

lemma within_run_internal:
  assumes run: "run_internal ex plan ses now override approval au ct = (Inr s, ct')"
    and plan: "\<And>eid p. plan eid = Inr p \<Longrightarrow> valid_id (pr_harness p) \<and> valid_id (pr_gene p)
        \<and> (\<forall>r \<in> set (pr_requests p). valid_id (rq_request_digest r)) \<and> length (pr_requests p) \<le> 1023"
    and ex: "honest_executors sha lg ex" and sha: "\<And>x. length (sha x) = 32" and hooks: "short_hooks (ct_hooks ct)"
    and room: "lg_handed lg (ct_world ct) + 4096 \<le> 2 ^ 64"
  shows "\<exists>n0 h0. transcript_within sha lg ses (sm_execution_id s) n0 h0 4094 (s, ct') \<and> sm_execution_id s = run_id override ct"
proof -
  let ?ct = "ct\<lparr>ct_next_execution := ct_next_execution ct + 1\<rparr>"
  define eid where "eid = run_id override ct"
  obtain p where p: "plan eid = Inr p"
    using run run_internal_unplanned [of plan override ct] by (cases "plan eid") (auto simp: eid_def)
  obtain started ct1 where ev: "new_event SessionStarted (event_context_for ses eid None None None ?ct) EmptyPayload ?ct = (started, ct1)"
    by (rule prod.exhaust)
  let ?s0 = "\<lparr>sm_execution_id = eid, sm_selected_harness = pr_harness p, sm_selected_gene = pr_gene p,
    sm_status = RunCompleted, sm_output = pr_output p, sm_receipts = [], sm_events = [started]\<rparr>"
  have rs: "run_requests ex ses eid approval au (pr_payload p) now (pr_requests p) (?s0, ct1) = (Inr s, ct')"
    using run p ev unfolding run_internal_def Let_def run_id_def [symmetric] eid_def by simp
  have started: "started = new_runtime_event (event_name (ct_next_event ct)) SessionStarted (event_context_for ses eid None None None ?ct) EmptyPayload"
    and ct1: "ct1 = ?ct\<lparr>ct_next_event := ct_next_event ct + 1\<rparr>"
    using ev by (auto simp: new_event_def event_name_def)
  have ok: "event_ok sha ses eid started" unfolding started by (rule event_ok_intro) (simp_all add: empty_payload_ok)
  have "transcript_within sha lg ses eid (ct_next_event ct) (lg_handed lg (ct_world ct)) 1 (?s0, ct1)"
    using ok plan [OF p] hooks
    by (simp add: transcript_within_def transcript_ok_def started ct1 new_runtime_event_def completion_link_def
        context_of_run map_filter_simps)
  from within_run [OF this ex _ sha rs] plan [OF p] room
  have w: "transcript_within sha lg ses eid (ct_next_event ct) (lg_handed lg (ct_world ct)) (1 + 4 * length (pr_requests p) + 1) (s, ct')" by simp
  then have "sm_execution_id s = eid" by (simp add: transcript_within_def transcript_ok_def)
  with within_mono [OF w, of 4094] plan [OF p] show ?thesis by (auto simp: eid_def)
qed


section \<open>The composition\<close>

lemma run_id_valid:
  assumes "\<And>e. override = Some e \<Longrightarrow> valid_id e"
  shows "valid_id (run_id override ct)"
proof (cases override)
  case None
  have "valid_id (''execution-'' @ show_nat (unat (ct_next_execution ct)))"
    using show_nat_u64_length [of "ct_next_execution ct"] last_show_nat_visible [of "unat (ct_next_execution ct)"]
    by (auto simp: visible_def intro!: valid_id_visible)
  with None show ?thesis by (simp add: run_id_def)
qed (use assms in \<open>simp add: run_id_def\<close>)

lemma try_map_collect:
  "list_all (\<lambda>x. \<exists>e. f x = Inr e \<and> P e) xs \<Longrightarrow> \<exists>es. try_map f xs = Inr es \<and> (\<forall>e \<in> set es. P e)"
proof (induction xs)
  case (Cons x xs)
  then obtain e es where "f x = Inr e" "P e" "try_map f xs = Inr es" "\<forall>e \<in> set es. P e" by auto
  then show ?case by simp
qed simp

lemma try_map_all_ok: "try_map f xs = Inr ys \<Longrightarrow> x \<in> set xs \<Longrightarrow> is_ok (f x)"
  by (induction xs arbitrary: ys) (auto split: sum.splits)

lemma event_names_distinct:
  assumes "n \<le> 4094"
  shows "distinct (map (\<lambda>k. event_name (n0 + of_nat k)) [0..<n])"
proof -
  have "inj_on (\<lambda>k. event_name (n0 + of_nat k)) {0..<n}"
  proof (rule inj_onI)
    fix j k assume jk: "j \<in> {0..<n}" "k \<in> {0..<n}" and "event_name (n0 + of_nat j) = event_name (n0 + of_nat k)"
    then have "unat (of_nat j :: u64) = unat (of_nat k :: u64)" by simp
    with jk assms show "j = k" by (simp add: unat_of_nat)
  qed
  then show ?thesis by (simp add: distinct_map)
qed

lemma transcript_consistent:
  assumes "transcript_within sha lg ses eid n0 h0 4094 (s, ct)" and "valid_scope (run_scope ses eid)"
  shows "\<exists>es. consistent_transcript sha (run_scope ses eid) (sm_events s) (sm_receipts s) es"
proof -
  have t: "transcript_ok sha lg ses eid n0 h0 (s, ct)" and n: "length (sm_events s) \<le> 4094"
    using assms(1) by (auto simp: transcript_within_def)
  obtain ps where ps: "try_map (project_event sha) (sm_events s) = Inr ps" "\<forall>p \<in> set ps. valid_evidence p"
    using t try_map_collect [of "project_event sha" valid_evidence "sm_events s"]
    by (auto simp: transcript_ok_def event_ok_def list_all_iff)
  obtain qs where qs: "try_map (project_receipt sha) (sm_receipts s) = Inr qs" "\<forall>q \<in> set qs. valid_evidence q"
    using t try_map_collect [of "project_receipt sha" valid_evidence "sm_receipts s"]
    by (auto simp: transcript_ok_def receipt_ok_def list_all_iff)
  obtain ev evs where evs: "sm_events s = ev # evs" using t by (cases "sm_events s") (auto simp: transcript_ok_def)
  have "scope_from_context (ev_context (hd (sm_events s))) = Inr (run_scope ses eid)"
    using t evs assms(2)
    by (auto simp: transcript_ok_def event_ok_def check_event_scope_def scope_from_context_def new_rollout_scope_iff)
  moreover have "distinct (map ev_event_id (sm_events s))"
    using t n by (simp add: transcript_ok_def event_names_distinct)
  ultimately have "consistent_transcript sha (run_scope ses eid) (sm_events s) (sm_receipts s) (ps @ qs)"
    using t ps qs
    by (auto simp: consistent_transcript_def transcript_ok_def event_ok_def list_all_iff o_def)
  then show ?thesis ..
qed

text \<open>The bound on hook messages is needed: the loader of hooks accepts a reason of any length, and a
  denial whose message is longer than 4096 bytes leaves a summary that cannot be reduced.\<close>

lemma oversized_denial_unreducible:
  assumes "hook_denial r ct = Some reason" "4096 < length reason"
  shows "\<not> is_ok (reduce sha manifest
    (sm_events (fst (snd (step_request ex ses eid approval au payload now r (s, ct))))) rcs)"
proof
  let ?s = "fst (snd (step_request ex ses eid approval au payload now r (s, ct)))"
  have "hook_denial r (ct\<lparr>ct_next_event := n\<rparr>) = Some reason" for n using assms(1) by (simp add: hook_denial_def)
  then obtain ev where ev: "ev \<in> set (sm_events ?s)" "ev_payload ev = PolicyPayload reason"
    by (force simp: step_request_def Let_def emit_eq halt_with_def new_runtime_event_def)
  assume "is_ok (reduce sha manifest (sm_events ?s) rcs)"
  then obtain ro where red: "reduce sha manifest (sm_events ?s) rcs = Inr ro" by (auto simp: is_ok_iff)
  note guards = reduce_guards [OF red]
  obtain scope where "scope_from_context (ev_context (hd (sm_events ?s))) = Inr scope" using guards(4) by blast
  from red reduce_consistent_iff [OF guards(1,2) this guards(3)]
  have "\<exists>ps. try_map (project_event sha) (sm_events ?s) = Inr ps" by (auto simp: consistent_transcript_def)
  then have "is_ok (project_event sha ev)" using ev(1) by (auto dest!: try_map_all_ok)
  then show False using ev(2) assms(2)
    by (auto simp: project_event_def policy_evidence_def digest_sensitive_def MAX_REASON_BYTES_def split: if_splits)
qed

text \<open>C8: a run of at most 1023 requests, under hooks whose messages fit the reducer's bound, leaves a summary that reduces to a
  verified rollout, whether the run completes, is denied, waits for approval or fails half way: the reducer accepts its
  events and receipts, the rollout verifies, and it holds one record for the manifest, each event and each receipt.
  Asked of the parts outside: an executor that is handed a permit as the monitor issues it answers with a fresh receipt
  for that permit and its request, the counter of receipts does not wrap around, and identifiers and digests are valid.
  Longer hook messages do break the reduction, see \<open>oversized_denial_unreducible\<close>.\<close>

theorem run_reduces_to_rollout:
  assumes "run_internal ex plan ses now override approval au ct = (Inr s, ct')"
    and "honest_executors sha lg ex" and "\<And>bytes. length (sha bytes) = 32"
    and "\<And>eid p. plan eid = Inr p \<Longrightarrow> valid_id (pr_harness p) \<and> valid_id (pr_gene p)
        \<and> (\<forall>r \<in> set (pr_requests p). valid_id (rq_request_digest r)) \<and> length (pr_requests p) \<le> 1023"
    and "short_hooks (ct_hooks ct)" and "lg_handed lg (ct_world ct) + 4096 \<le> 2 ^ 64" and "is_sha256_digest manifest"
    and "valid_id (se_tenant_id ses)" "valid_id (se_workspace_id ses)" "valid_id (se_id ses)"
    and "\<And>eid. override = Some eid \<Longrightarrow> valid_id eid"
  shows "\<exists>ro. reduce sha manifest (sm_events s) (sm_receipts s) = Inr ro \<and> verify_rollout sha ro = Inr ()
    \<and> ro_scope ro = \<lparr>rsc_tenant_id = se_tenant_id ses, rsc_workspace_id = se_workspace_id ses, rsc_session_id = se_id ses,
        rsc_execution_id = sm_execution_id s\<rparr>
    \<and> length (ro_records ro) = 1 + length (sm_events s) + length (sm_receipts s)"
proof -
  obtain n0 h0 where w: "transcript_within sha lg ses (sm_execution_id s) n0 h0 4094 (s, ct')"
    and eid: "sm_execution_id s = run_id override ct"
    using within_run_internal [OF assms(1) _ assms(2,3,5,6)] assms(4) by blast
  have "valid_scope (run_scope ses (sm_execution_id s))" using assms(8-10) run_id_valid [OF assms(11)] by (simp add: valid_scope_def eid)
  from transcript_consistent [OF w this] obtain es
    where es: "consistent_transcript sha (run_scope ses (sm_execution_id s)) (sm_events s) (sm_receipts s) es" by blast
  have size: "length (sm_events s) + length (sm_receipts s) < MAX_ROLLOUT_RECORDS"
    using w by (simp add: transcript_within_def MAX_ROLLOUT_RECORDS_def)
  obtain ro where ro: "reduce sha manifest (sm_events s) (sm_receipts s) = Inr ro"
    "ro_scope ro = run_scope ses (sm_execution_id s)" "map rd_evidence (ro_records ro) = ContextManifest manifest # es"
    "verify_rollout sha ro = Inr ()"
    using iffD2 [OF reduce_consistent, OF conjI [OF es conjI [OF assms(7) size]]] by (elim exE conjE)
  have "length es = length (sm_events s) + length (sm_receipts s)"
    using es by (auto simp: consistent_transcript_def try_map_length)
  then have "length (ro_records ro) = 1 + length (sm_events s) + length (sm_receipts s)"
    using ro(3) by (metis One_nat_def add.assoc length_Cons length_map plus_1_eq_Suc)
  with ro show ?thesis by blast
qed

text \<open>A world that counts the receipts it hands out.\<close>

definition receipt_name :: "nat \<Rightarrow> string" where
  "receipt_name n = ''receipt-'' @ show_nat n"

definition counted_receipt :: "consumed_permit \<Rightarrow> nat \<Rightarrow> effect_receipt" where
  "counted_receipt c n = \<lparr>rc_receipt_id = receipt_name n, rc_permit_id = pm_permit_id (cp_permit c),
     rc_request_digest = pm_request_digest (cp_permit c), rc_completed_at = 10, rc_outcome = Succeeded\<rparr>"

definition counting_executors :: "nat executors" where
  "counting_executors =
     \<lparr>ex_path = Inr,
      ex_inventory = (\<lambda>c t now w. ((counted_receipt c w, Inr []), Suc w)),
      ex_search = (\<lambda>c t q now w. ((counted_receipt c w, Inr []), Suc w)),
      ex_read = (\<lambda>c t now w. ((counted_receipt c w, Inr ''content''), Suc w)),
      ex_command = Inr,
      ex_process = (\<lambda>c t now w. ((counted_receipt c w, Inr []), Suc w)),
      ex_write = (\<lambda>c t b now w. ((counted_receipt c w, Inr ()), Suc w)),
      ex_fetch = (\<lambda>c t now w. ((counted_receipt c w, Inr []), Suc w)),
      ex_evidence = Some,
      ex_wasm = (\<lambda>c t now w. ((counted_receipt c w, Inr []), Suc w))\<rparr>"

definition counting_ledger :: "nat ledger" where
  "counting_ledger = \<lparr>lg_used = (\<lambda>w. receipt_name ` {k. k < w}), lg_handed = (\<lambda>w. w)\<rparr>"

lemma counted_receipt_honest:
  assumes "w < 2 ^ 64" "sound_permit c"
  shows "honest_receipt sha counting_ledger c w (counted_receipt c w) (Suc w)"
proof -
  have "length (show_nat w) \<le> 20" by (rule length_show_nat) (use assms(1) in auto)
  then have "valid_id (receipt_name w)"
    using last_show_nat_visible [of w] by (auto simp: receipt_name_def visible_def intro!: valid_id_visible)
  moreover have "receipt_name w \<notin> receipt_name ` {k. k < w}" by (auto simp: receipt_name_def)
  ultimately show ?thesis using assms(2)
    by (auto simp: sound_permit_def honest_receipt_def counted_receipt_def counting_ledger_def project_receipt_def check_identifier_iff)
qed

lemma counting_honest: "honest_executors sha counting_ledger counting_executors"
  unfolding honest_executors_def
proof (intro allI impI)
  fix c :: consumed_permit and a b now w
  assume "lg_handed counting_ledger w < 2 ^ 64 \<and> sound_permit c"
  then have "honest_receipt sha counting_ledger c w (counted_receipt c w) (Suc w)"
    by (intro counted_receipt_honest) (simp_all add: counting_ledger_def)
  then show "(case ex_inventory counting_executors c a now w of ((receipt, _), w') \<Rightarrow> honest_receipt sha counting_ledger c w receipt w')
      \<and> (case ex_search counting_executors c a b now w of ((receipt, _), w') \<Rightarrow> honest_receipt sha counting_ledger c w receipt w')
      \<and> (case ex_read counting_executors c a now w of ((receipt, _), w') \<Rightarrow> honest_receipt sha counting_ledger c w receipt w')
      \<and> (case ex_process counting_executors c a now w of ((receipt, _), w') \<Rightarrow> honest_receipt sha counting_ledger c w receipt w')
      \<and> (case ex_write counting_executors c a b now w of ((receipt, _), w') \<Rightarrow> honest_receipt sha counting_ledger c w receipt w')
      \<and> (case ex_fetch counting_executors c a now w of ((receipt, _), w') \<Rightarrow> honest_receipt sha counting_ledger c w receipt w')
      \<and> (case ex_wasm counting_executors c a now w of ((receipt, _), w') \<Rightarrow> honest_receipt sha counting_ledger c w receipt w')"
    by (simp add: counting_executors_def)
qed

definition counting_controller :: "nat controller" where
  "counting_controller = new_controller read_only_workspace [] [] 0"

lemma counting_run:
  "\<exists>s' ct'. run_internal counting_executors reading_plan demo_session 10 (Some ''execution-1'') None False counting_controller = (Inr s', ct')
     \<and> sm_status s' = RunCompleted"
proof (rule run_internal_goes_through [where p = "\<lparr>pr_harness = ''coding'', pr_gene = ''workspace.read'', pr_requests = [demo_request ''a''],
    pr_payload = None, pr_output = None\<rparr>"])
  show "controller_inv counting_controller" by (simp add: counting_controller_def new_controller_inv)
  show "\<forall>r \<in> set (pr_requests \<lparr>pr_harness = ''coding'', pr_gene = ''workspace.read'', pr_requests = [demo_request ''a''],
      pr_payload = None, pr_output = None\<rparr>). permitted counting_controller r"
    by (simp add: permitted_def counting_controller_def new_controller_def demo_request_def evaluate_hooks_def Let_def
        policy_query_defs workspace_defs)
  show "capacity (length (pr_requests \<lparr>pr_harness = ''coding'', pr_gene = ''workspace.read'', pr_requests = [demo_request ''a''],
      pr_payload = None, pr_output = None\<rparr>)) 10 counting_controller"
    by (simp add: capacity_def counting_controller_def new_controller_def new_with_policy_def)
  fix c :: consumed_permit and sc :: "run_summary \<times> nat controller"
  assume "cp_request c \<in> set (pr_requests \<lparr>pr_harness = ''coding'', pr_gene = ''workspace.read'', pr_requests = [demo_request ''a''],
      pr_payload = None, pr_output = None\<rparr>)"
  then have "cp_request c = demo_request ''a''" by simp
  moreover have "rq_gene_id (demo_request ''a'') \<notin> set inventory_genes" "rq_gene_id (demo_request ''a'') \<notin> set search_genes"
    by (simp_all add: demo_request_def inventory_genes_def search_genes_def evidence_genes_def Let_def)
  moreover have "rq_capability (demo_request ''a'') = FilesystemRead" "rq_target (demo_request ''a'') = Path ''a''"
    by (simp_all add: demo_request_def Let_def)
  ultimately show "is_ok (fst (execute_request counting_executors demo_session (run_id (Some ''execution-1'') counting_controller) c
      (pr_payload \<lparr>pr_harness = ''coding'', pr_gene = ''workspace.read'', pr_requests = [demo_request ''a''],
        pr_payload = None, pr_output = None\<rparr>) 10 sc))"
    by (simp add: execute_request_def execute_read_def read_effect_def counting_executors_def split: prod.splits)
qed (simp add: reading_plan_def)

lemma demo_digest_valid: "valid_id (rq_request_digest (demo_request ''a''))"
proof -
  have "visible (last (hex_encode (demo_sha ''a'')))" by (rule last_hex_encode_visible) (metis length_demo_sha list.size(3) zero_neq_numeral)
  moreover have "hex_encode (demo_sha ''a'') \<noteq> []" by (metis length_demo_sha length_hex_encode list.size(3) mult_is_0 zero_neq_numeral)
  ultimately show ?thesis by (auto simp: demo_request_def Let_def visible_def intro!: valid_id_visible)
qed

theorem run_reduces_to_rollout_witness:
  "\<exists>s ct' ro. run_internal counting_executors reading_plan demo_session 10 (Some ''execution-1'') None False counting_controller = (Inr s, ct')
     \<and> sm_status s = RunCompleted \<and> reduce demo_sha (demo_manifest CHR ''a'') (sm_events s) (sm_receipts s) = Inr ro
     \<and> verify_rollout demo_sha ro = Inr ()"
proof -
  obtain s ct' where run: "run_internal counting_executors reading_plan demo_session 10 (Some ''execution-1'') None False counting_controller = (Inr s, ct')"
    and st: "sm_status s = RunCompleted" using counting_run by blast
  have "\<exists>ro. reduce demo_sha (demo_manifest CHR ''a'') (sm_events s) (sm_receipts s) = Inr ro \<and> verify_rollout demo_sha ro = Inr ()
    \<and> ro_scope ro = \<lparr>rsc_tenant_id = se_tenant_id demo_session, rsc_workspace_id = se_workspace_id demo_session,
        rsc_session_id = se_id demo_session, rsc_execution_id = sm_execution_id s\<rparr>
    \<and> length (ro_records ro) = 1 + length (sm_events s) + length (sm_receipts s)"
    by (rule run_reduces_to_rollout [OF run counting_honest])
       (auto simp: demo_manifest_valid demo_digest_valid reading_plan_def demo_session_def valid_id_visible visible_def
          short_hooks_def counting_controller_def new_controller_def counting_ledger_def)
  with run st show ?thesis by blast
qed

end
