(* ===== verification/Evaluation.thy ===== *)
theory Evaluation
  imports Effects
begin

text \<open>
  Evaluations of an execution: the contracts of \<open>pandora-types/src/evaluation.rs\<close> and the single
  evaluators of \<open>pandora-runtime/src/evaluation_engine.rs\<close>. The evaluators build their results with
  \<open>expect\<close>; a panic is \<open>None\<close>, and the built-in ones are shown never to panic. A \<open>BTreeSet\<close> of
  kinds met so far is a list.
\<close>

section \<open>Contracts\<close>

datatype evaluation_kind =
  TrajectoryEval
| OutcomeEval
| PolicyEval
| HumanEval
| RegressionEval
| AdversarialEval

fun evaluation_kind_str :: "evaluation_kind \<Rightarrow> string" where
  "evaluation_kind_str TrajectoryEval = ''trajectory''"
| "evaluation_kind_str OutcomeEval = ''outcome''"
| "evaluation_kind_str PolicyEval = ''policy''"
| "evaluation_kind_str HumanEval = ''human''"
| "evaluation_kind_str RegressionEval = ''regression''"
| "evaluation_kind_str AdversarialEval = ''adversarial''"

datatype evaluation_status = EvalPassed | EvalFailed | HumanReviewRequired

fun evaluation_status_str :: "evaluation_status \<Rightarrow> string" where
  "evaluation_status_str EvalPassed = ''passed''"
| "evaluation_status_str EvalFailed = ''failed''"
| "evaluation_status_str HumanReviewRequired = ''human_review_required''"

datatype evaluation_error =
  EvalEmptyField string
| EvalFieldTooLong string
| EvalControlCharacter string
| EmptyResults
| DuplicateKind evaluation_kind
| InvalidScore

record evaluation_request =
  eq_execution_id :: execution_id
  eq_receipts :: "effect_receipt list"
  eq_redacted_output :: string
  eq_policy_violations :: "string list"
  eq_terminal_failure :: "string option"

record evaluation_result =
  er_kind :: evaluation_kind
  er_status :: evaluation_status
  er_score :: u8
  er_reason :: string
  er_advisory :: bool

record evaluation_receipt =
  vr_session_id :: session_id
  vr_execution_id :: execution_id
  vr_evaluated_at :: timestamp
  vr_results :: "evaluation_result list"

definition check_eval_text :: "string \<Rightarrow> string \<Rightarrow> nat \<Rightarrow> (evaluation_error, string) outcome" where
  "check_eval_text field value max_bytes =
     (let trimmed = trim value in
      if trimmed = [] then Inl (EvalEmptyField field)
      else if length value > max_bytes then Inl (EvalFieldTooLong field)
      else if has_control value then Inl (EvalControlCharacter field)
      else Inr trimmed)"

definition new_evaluation_request ::
  "execution_id \<Rightarrow> effect_receipt list \<Rightarrow> string \<Rightarrow> string list \<Rightarrow> (evaluation_error, evaluation_request) outcome" where
  "new_evaluation_request eid receipts redacted violations =
     and_then (check_eval_text ''redacted output'' redacted 65536) (\<lambda>redacted.
     and_then (try_map (\<lambda>v. check_eval_text ''policy violation'' v 4096) violations) (\<lambda>violations.
       Inr \<lparr>eq_execution_id = eid, eq_receipts = receipts, eq_redacted_output = redacted,
            eq_policy_violations = violations, eq_terminal_failure = None\<rparr>))"

definition with_terminal_failure ::
  "string \<Rightarrow> evaluation_request \<Rightarrow> (evaluation_error, evaluation_request) outcome" where
  "with_terminal_failure failure q =
     and_then (check_eval_text ''terminal failure'' failure 4096) (\<lambda>v. Inr (q\<lparr>eq_terminal_failure := Some v\<rparr>))"

definition new_evaluation_result ::
  "evaluation_kind \<Rightarrow> evaluation_status \<Rightarrow> u8 \<Rightarrow> string \<Rightarrow> bool \<Rightarrow> (evaluation_error, evaluation_result) outcome" where
  "new_evaluation_result kind status score reason advisory =
     (if score > 100 then Inl InvalidScore
      else and_then (check_eval_text ''evaluation reason'' reason 4096) (\<lambda>reason.
        Inr \<lparr>er_kind = kind, er_status = status, er_score = score, er_reason = reason, er_advisory = advisory\<rparr>))"

fun repeated_kind :: "evaluation_kind list \<Rightarrow> evaluation_result list \<Rightarrow> evaluation_kind option" where
  "repeated_kind seen [] = None"
| "repeated_kind seen (r # rs) =
     (if er_kind r \<in> set seen then Some (er_kind r) else repeated_kind (er_kind r # seen) rs)"

definition new_evaluation_receipt ::
  "session_id \<Rightarrow> execution_id \<Rightarrow> timestamp \<Rightarrow> evaluation_result list \<Rightarrow> (evaluation_error, evaluation_receipt) outcome" where
  "new_evaluation_receipt sid eid t results =
     (if results = [] then Inl EmptyResults
      else case repeated_kind [] results of
        Some k \<Rightarrow> Inl (DuplicateKind k)
      | None \<Rightarrow> Inr \<lparr>vr_session_id = sid, vr_execution_id = eid, vr_evaluated_at = t, vr_results = results\<rparr>)"


section \<open>Evaluators\<close>

definition built_result ::
  "evaluation_kind \<Rightarrow> evaluation_status \<Rightarrow> u8 \<Rightarrow> string \<Rightarrow> bool \<Rightarrow> evaluation_result option" where
  "built_result kind status score reason advisory = ok (new_evaluation_result kind status score reason advisory)"

definition unsuccessful :: "effect_receipt \<Rightarrow> bool" where
  "unsuccessful rc = (case rc_outcome rc of Succeeded \<Rightarrow> False | _ \<Rightarrow> True)"

definition evaluate_trajectory :: "evaluation_request \<Rightarrow> nat \<Rightarrow> evaluation_result option" where
  "evaluate_trajectory q max_failed =
     (if length (filter unsuccessful (eq_receipts q)) \<le> max_failed \<and> eq_terminal_failure q = None
      then built_result TrajectoryEval EvalPassed 100 ''trajectory stayed within the failure budget'' False
      else built_result TrajectoryEval EvalFailed 0 ''trajectory exceeded the failure budget'' False)"

definition evaluate_outcome :: "evaluation_request \<Rightarrow> string \<Rightarrow> evaluation_result option" where
  "evaluate_outcome q expected =
     (if eq_redacted_output q = expected
      then built_result OutcomeEval EvalPassed 100 ''redacted output matches the expected outcome'' False
      else built_result OutcomeEval EvalFailed 0 ''redacted output does not match the expected outcome'' False)"

definition evaluate_policy :: "evaluation_request \<Rightarrow> evaluation_result option" where
  "evaluate_policy q =
     (if eq_policy_violations q = []
      then built_result PolicyEval EvalPassed 100 ''no policy violations were recorded'' False
      else built_result PolicyEval EvalFailed 0 ''one or more policy violations were recorded'' False)"

definition require_human_review :: "evaluation_request \<Rightarrow> string \<Rightarrow> evaluation_result option" where
  "require_human_review q reason = built_result HumanEval HumanReviewRequired 0 reason False"

definition evaluate_regression :: "evaluation_request \<Rightarrow> string \<Rightarrow> evaluation_result option" where
  "evaluate_regression q baseline =
     (if eq_redacted_output q = baseline
      then built_result RegressionEval EvalPassed 100 ''redacted output matches the regression baseline'' False
      else built_result RegressionEval EvalFailed 0 ''redacted output differs from the regression baseline'' False)"

datatype marker_error = InvalidMarker

definition evaluate_adversarial ::
  "evaluation_request \<Rightarrow> string list \<Rightarrow> (marker_error, evaluation_result option) outcome" where
  "evaluate_adversarial q markers =
     (if list_ex blank markers then Inl InvalidMarker
      else if list_ex (contains_str (eq_redacted_output q)) markers
      then Inr (built_result AdversarialEval EvalFailed 0 ''a forbidden marker was found'' False)
      else Inr (built_result AdversarialEval EvalPassed 100 ''no forbidden marker was found'' False))"

definition advisory_judgement :: "evaluation_request \<Rightarrow> bool \<Rightarrow> u8 \<Rightarrow> string \<Rightarrow> evaluation_result option" where
  "advisory_judgement q passed score reason =
     built_result OutcomeEval (if passed then EvalPassed else EvalFailed) score reason True"


section \<open>Lemmas\<close>

lemma evaluation_kind_str_inject [simp]: "evaluation_kind_str a = evaluation_kind_str b \<longleftrightarrow> a = b"
  by (cases a; cases b) simp_all

lemma evaluation_status_str_inject [simp]: "evaluation_status_str a = evaluation_status_str b \<longleftrightarrow> a = b"
  by (cases a; cases b) simp_all

lemma repeated_kind_None_iff:
  "repeated_kind seen rs = None \<longleftrightarrow> distinct (map er_kind rs) \<and> er_kind ` set rs \<inter> set seen = {}"
  by (induction rs arbitrary: seen) auto

text \<open>A valid receipt, as its constructor builds it: at least one result, no kind twice.\<close>

lemma new_evaluation_receipt_iff:
  "new_evaluation_receipt sid eid t results = Inr v \<longleftrightarrow>
     results \<noteq> [] \<and> distinct (map er_kind results)
   \<and> v = \<lparr>vr_session_id = sid, vr_execution_id = eid, vr_evaluated_at = t, vr_results = results\<rparr>"
  using repeated_kind_None_iff [of "[]" results]
  by (auto simp: new_evaluation_receipt_def split: option.splits)

definition valid_reason :: "string \<Rightarrow> bool" where
  "valid_reason s \<longleftrightarrow> trim s = s \<and> s \<noteq> [] \<and> length s \<le> 4096 \<and> \<not> has_control s"

definition valid_result :: "evaluation_result \<Rightarrow> bool" where
  "valid_result r \<longleftrightarrow> er_score r \<le> 100 \<and> valid_reason (er_reason r)"

lemma new_evaluation_result_iff:
  "new_evaluation_result kind status score reason advisory = Inr r \<longleftrightarrow>
     er_kind r = kind \<and> er_status r = status \<and> er_score r = score \<and> er_advisory r = advisory
   \<and> er_reason r = trim reason \<and> score \<le> 100 \<and> trim reason \<noteq> [] \<and> length reason \<le> 4096 \<and> \<not> has_control reason"
  by (cases r) (auto simp: new_evaluation_result_def check_eval_text_def Let_def)

lemma new_evaluation_result_valid: "new_evaluation_result kind status score reason advisory = Inr r \<Longrightarrow> valid_result r"
  using length_trim [of reason]
  by (auto simp: new_evaluation_result_iff valid_result_def valid_reason_def)

lemma valid_result_rebuilt:
  "valid_result r \<Longrightarrow>
     new_evaluation_result (er_kind r) (er_status r) (er_score r) (er_reason r) (er_advisory r) = Inr r"
  by (auto simp: new_evaluation_result_def valid_result_def valid_reason_def check_eval_text_def Let_def)

lemma valid_reason_visible:
  "s \<noteq> [] \<Longrightarrow> visible (hd s) \<Longrightarrow> visible (last s) \<Longrightarrow> length s \<le> 4096 \<Longrightarrow> \<not> has_control s \<Longrightarrow> valid_reason s"
  by (simp add: valid_reason_def trim_visible_id)

lemma built_result_valid:
  "score \<le> 100 \<Longrightarrow> valid_reason reason \<Longrightarrow>
     built_result kind status score reason advisory
       = Some \<lparr>er_kind = kind, er_status = status, er_score = score, er_reason = reason, er_advisory = advisory\<rparr>"
  by (auto simp: built_result_def new_evaluation_result_def valid_reason_def check_eval_text_def Let_def)

end
