(* ===== verification/Session_Store.thy ===== *)
theory Session_Store
  imports Rollout Evaluation Sql_Table One_Shot
begin

text \<open>
  The durable session store, \<open>pandora-runtime/src/sessions.rs\<close>: sessions, their event logs,
  evaluations, rollout summaries and agent transcripts. The database is a record of tables in insertion
  order; an \<open>AUTOINCREMENT\<close> key is drawn from a counter that deletions do not lower, and the foreign
  keys delete what belongs to a deleted session. Every operation holds the connection's mutex, writes happen
  inside one transaction, and \<open>f k\<close> says that the \<open>k\<close>-th database call of the operation fails (\<open>f 0\<close>: the
  mutex is poisoned). The memory tables are filled by the operations of \<open>Memory_Store\<close>, the journal by those
  of \<open>Session_Journal\<close>. \<open>serde_json\<close> is a codec; a chat message is only stored, so its type is a parameter.
\<close>

section \<open>Tables\<close>

record session_row =
  sw_id :: string
  sw_principal_id :: string
  sw_tenant_id :: string
  sw_workspace_id :: string
  sw_created_at :: int

record event_row =
  ew_sequence :: int
  ew_session_id :: string
  ew_event_json :: string
  ew_recorded_at :: "int option"

record evaluation_row =
  vw_session_id :: string
  vw_execution_id :: string
  vw_attempt :: int
  vw_result_index :: int
  vw_kind :: string
  vw_status :: string
  vw_score :: int
  vw_reason :: string
  vw_advisory :: bool
  vw_evaluated_at :: int

record rollout_row =
  ow_session_id :: string
  ow_execution_id :: string
  ow_attempt :: int
  ow_projection_version :: int
  ow_record_count :: int
  ow_context_manifest_digest :: string
  ow_final_digest :: string
  ow_recorded_at :: int

record message_row =
  mw_sequence :: int
  mw_session_id :: string
  mw_message_json :: string

record memory_row =
  yw_session_id :: string
  yw_provider :: string
  yw_memory_id :: string
  yw_tier :: string
  yw_kind :: string
  yw_classification :: string
  yw_summary :: string
  yw_created_at :: int
  yw_provenance :: string
  yw_approval_id :: "string option"
  yw_approver :: "string option"
  yw_origin :: string
  yw_evidence_ids :: string
  yw_intent :: string

record revocation_row =
  kw_session_id :: string
  kw_provider :: string
  kw_memory_id :: string
  kw_revoked_at :: int

record audit_row =
  aw_sequence :: int
  aw_session_id :: string
  aw_provider :: string
  aw_memory_id :: string
  aw_tier :: string
  aw_action :: string
  aw_recorded_at :: int
  aw_approval_id :: "string option"

record journal_row =
  jw_session_id :: string
  jw_step_index :: int
  jw_step_json :: string
  jw_digest :: string
  jw_created_at :: int

record session_db =
  db_sessions :: "session_row list"
  db_events :: "event_row list"
  db_event_seq :: int
  db_evaluations :: "evaluation_row list"
  db_rollouts :: "rollout_row list"
  db_messages :: "message_row list"
  db_message_seq :: int
  db_memory :: "memory_row list"
  db_revocations :: "revocation_row list"
  db_audit :: "audit_row list"
  db_audit_seq :: int
  db_journal :: "journal_row list"

definition empty_session_db :: session_db where
  "empty_session_db =
     \<lparr>db_sessions = [], db_events = [], db_event_seq = 0, db_evaluations = [], db_rollouts = [],
      db_messages = [], db_message_seq = 0, db_memory = [], db_revocations = [], db_audit = [],
      db_audit_seq = 0, db_journal = []\<rparr>"

datatype session_error =
  SessionDatabase
| SessionSerialization
| SessionCorruptRecord
| EventTooLarge
| AgentMessageTooLarge
| AgentTranscriptTooLarge
| SessionLockPoisoned
| ScopeViolation
| SessionAlreadyExists
| SessionNotFound
| L1EvidenceAlreadyExists
| L1EvidenceCapacityExceeded
| InvalidL1Evidence
| MemoryAlreadyExists
| MemoryAlreadyPromoted
| MemoryCapacityExceeded
| MemoryNotFound
| MemoryRevoked
| InvalidMemory
| InvalidMemoryLimit
| InvalidEvaluation
| InvalidEventPage
| InvalidStep string

record 'm session_codec =
  xc_write_event :: "runtime_event \<Rightarrow> string option"
  xc_read_event :: "string \<Rightarrow> runtime_event option"
  xc_write_message :: "'m \<Rightarrow> string option"
  xc_read_message :: "string \<Rightarrow> 'm option"

text \<open>The principal, tenant and workspace that every operation is called with.\<close>

record session_caller =
  cl_principal_id :: principal_id
  cl_tenant_id :: tenant_id
  cl_workspace_id :: workspace_id

definition MAX_EVENT_BYTES :: nat where "MAX_EVENT_BYTES = 1048576"
definition MAX_AGENT_MESSAGE_BYTES :: nat where "MAX_AGENT_MESSAGE_BYTES = 1048576"
definition MAX_AGENT_TRANSCRIPT_BYTES :: nat where "MAX_AGENT_TRANSCRIPT_BYTES = 8 * 1048576"
definition MAX_AGENT_MESSAGES :: nat where "MAX_AGENT_MESSAGES = 256"

abbreviation corrupt :: "('e, 'a) outcome \<Rightarrow> (session_error, 'a) outcome" where
  "corrupt r \<equiv> map_err (\<lambda>_. SessionCorruptRecord) r"

abbreviation (input) MAX_ROWID :: int where "MAX_ROWID \<equiv> 2 ^ 63 - 1"


section \<open>Sessions\<close>

definition session_timestamp :: "int \<Rightarrow> (session_error, timestamp) outcome" where
  "session_timestamp v = ok_or (u64_of_i64 v) SessionCorruptRecord"

definition timestamp_i64 :: "timestamp \<Rightarrow> (session_error, int) outcome" where
  "timestamp_i64 t = ok_or (i64_of_u64 t) SessionCorruptRecord"

definition decode_session_row :: "session_row \<Rightarrow> (session_error, session) outcome" where
  "decode_session_row r =
     and_then (session_timestamp (sw_created_at r)) (\<lambda>created.
     and_then (corrupt (new_id (sw_id r))) (\<lambda>i.
     and_then (corrupt (new_id (sw_principal_id r))) (\<lambda>p.
     and_then (corrupt (new_id (sw_tenant_id r))) (\<lambda>tn.
     and_then (corrupt (new_id (sw_workspace_id r))) (\<lambda>ws.
       Inr \<lparr>se_id = i, se_principal_id = p, se_tenant_id = tn, se_workspace_id = ws, se_created_at = created\<rparr>)))))"

definition load_session :: "bool \<Rightarrow> session_id \<Rightarrow> session_db \<Rightarrow> (session_error, session option) outcome" where
  "load_session fault i db =
     (if fault then Inl SessionDatabase else opt_try decode_session_row (row_lookup sw_id i (db_sessions db)))"

definition ensure_scope :: "session \<Rightarrow> session_caller \<Rightarrow> (session_error, unit) outcome" where
  "ensure_scope s cl =
     (if se_principal_id s \<noteq> cl_principal_id cl \<or> se_tenant_id s \<noteq> cl_tenant_id cl
         \<or> se_workspace_id s \<noteq> cl_workspace_id cl
      then Inl ScopeViolation else Inr ())"

text \<open>The opening of every scoped operation: lock, load the session, compare the scope.\<close>

definition scoped_session ::
  "faults \<Rightarrow> session_id \<Rightarrow> session_caller \<Rightarrow> session_db \<Rightarrow> (session_error, session) outcome" where
  "scoped_session f i cl db =
     (if f 0 then Inl SessionLockPoisoned
      else and_then (load_session (f 1) i db) (\<lambda>found.
           and_then (ok_or found SessionNotFound) (\<lambda>s.
           and_then (ensure_scope s cl) (\<lambda>_. Inr s))))"

definition session_row_of :: "session \<Rightarrow> int \<Rightarrow> session_row" where
  "session_row_of s created =
     \<lparr>sw_id = se_id s, sw_principal_id = se_principal_id s, sw_tenant_id = se_tenant_id s,
      sw_workspace_id = se_workspace_id s, sw_created_at = created\<rparr>"

definition create_session ::
  "faults \<Rightarrow> session \<Rightarrow> session_db \<Rightarrow> (session_error, unit) outcome \<times> session_db" where
  "create_session f s db =
     (if f 0 then (Inl SessionLockPoisoned, db)
      else case timestamp_i64 (se_created_at s) of Inl e \<Rightarrow> (Inl e, db) | Inr created \<Rightarrow>
      if f 1 then (Inl SessionDatabase, db)
      else if row_lookup sw_id (se_id s) (db_sessions db) \<noteq> None then (Inl SessionAlreadyExists, db)
      else (Inr (), db\<lparr>db_sessions := row_insert (session_row_of s created) (db_sessions db)\<rparr>))"

definition in_caller_scope :: "session_caller \<Rightarrow> session_row \<Rightarrow> bool" where
  "in_caller_scope cl r \<longleftrightarrow>
     sw_principal_id r = cl_principal_id cl \<and> sw_tenant_id r = cl_tenant_id cl \<and> sw_workspace_id r = cl_workspace_id cl"

definition list_sessions :: "faults \<Rightarrow> session_caller \<Rightarrow> session_db \<Rightarrow> (session_error, session list) outcome" where
  "list_sessions f cl db =
     (if f 0 then Inl SessionLockPoisoned
      else if f 1 then Inl SessionDatabase
      else try_map decode_session_row
             (sort_key (\<lambda>r. (sw_created_at r, sw_id r)) (filter (in_caller_scope cl) (db_sessions db))))"

section \<open>Reading a session\<close>

record event_metadata =
  em_sequence :: u64
  em_recorded_at :: "timestamp option"

record rollout_summary =
  rs_session_id :: session_id
  rs_execution_id :: execution_id
  rs_attempt :: u32
  rs_projection_version :: u16
  rs_record_count :: u32
  rs_context_manifest_digest :: string
  rs_final_digest :: string
  rs_recorded_at :: timestamp

record 'm session_snapshot =
  ss_session :: session
  ss_events :: "runtime_event list"
  ss_event_metadata :: "event_metadata list"
  ss_l1_evidence_count :: nat
  ss_evaluations :: "evaluation_receipt list"
  ss_rollouts :: "rollout_summary list"
  ss_agent_messages :: "'m list"

definition events_of :: "session_id \<Rightarrow> session_db \<Rightarrow> event_row list" where
  "events_of i db = sort_key ew_sequence (filter (\<lambda>r. ew_session_id r = i) (db_events db))"

definition decode_event_row ::
  "'m session_codec \<Rightarrow> event_row \<Rightarrow> (session_error, runtime_event \<times> event_metadata) outcome" where
  "decode_event_row c r =
     and_then (ok_or (xc_read_event c (ew_event_json r)) SessionSerialization) (\<lambda>ev.
     and_then (ok_or (u64_of_i64 (ew_sequence r)) SessionCorruptRecord) (\<lambda>n.
     and_then (opt_try session_timestamp (ew_recorded_at r)) (\<lambda>t.
       Inr (ev, \<lparr>em_sequence = n, em_recorded_at = t\<rparr>))))"

definition parse_evaluation_kind :: "string \<Rightarrow> (session_error, evaluation_kind) outcome" where
  "parse_evaluation_kind v =
     (if v = ''trajectory'' then Inr TrajectoryEval
      else if v = ''outcome'' then Inr OutcomeEval
      else if v = ''policy'' then Inr PolicyEval
      else if v = ''human'' then Inr HumanEval
      else if v = ''regression'' then Inr RegressionEval
      else if v = ''adversarial'' then Inr AdversarialEval
      else Inl SessionCorruptRecord)"

definition parse_evaluation_status :: "string \<Rightarrow> (session_error, evaluation_status) outcome" where
  "parse_evaluation_status v =
     (if v = ''passed'' then Inr EvalPassed
      else if v = ''failed'' then Inr EvalFailed
      else if v = ''human_review_required'' then Inr HumanReviewRequired
      else Inl SessionCorruptRecord)"

text \<open>The group of rows the loop of \<open>load_evaluations\<close> is collecting: its key, its time, its results so far.\<close>

type_synonym open_group = "(execution_id \<times> int) \<times> timestamp \<times> evaluation_result list"

definition close_group :: "session_id \<Rightarrow> open_group \<Rightarrow> (session_error, evaluation_receipt) outcome" where
  "close_group sid g =
     (case g of ((eid, _), t, results) \<Rightarrow> corrupt (new_evaluation_receipt sid eid t results))"

definition decode_result :: "evaluation_row \<Rightarrow> (session_error, evaluation_result) outcome" where
  "decode_result r =
     and_then (ok_or (u8_of_i64 (vw_score r)) SessionCorruptRecord) (\<lambda>score.
     and_then (parse_evaluation_kind (vw_kind r)) (\<lambda>kind.
     and_then (parse_evaluation_status (vw_status r)) (\<lambda>status.
       corrupt (new_evaluation_result kind status score (vw_reason r) (vw_advisory r)))))"

fun group_evaluations ::
  "session_id \<Rightarrow> open_group option \<Rightarrow> evaluation_receipt list \<Rightarrow> evaluation_row list
     \<Rightarrow> (session_error, evaluation_receipt list) outcome" where
  "group_evaluations sid current acc [] =
     (case current of
        None \<Rightarrow> Inr acc
      | Some g \<Rightarrow> and_then (close_group sid g) (\<lambda>v. Inr (acc @ [v])))"
| "group_evaluations sid current acc (r # rs) =
     and_then (corrupt (new_id (vw_execution_id r))) (\<lambda>eid.
     if vw_attempt r < 0 then Inl SessionCorruptRecord
     else
       and_then (session_timestamp (vw_evaluated_at r)) (\<lambda>t.
       let key = (eid, vw_attempt r) in
       and_then
         (case current of
            None \<Rightarrow> Inr (None, acc)
          | Some g \<Rightarrow>
              if fst g \<noteq> key then and_then (close_group sid g) (\<lambda>v. Inr (None, acc @ [v]))
              else Inr (Some g, acc))
         (\<lambda>(current, acc).
       and_then
         (case current of
            None \<Rightarrow> Inr (key, t, [])
          | Some g \<Rightarrow> if fst (snd g) \<noteq> t then Inl SessionCorruptRecord else Inr g)
         (\<lambda>(key, t, results).
       and_then (decode_result r) (\<lambda>x.
         group_evaluations sid (Some (key, t, results @ [x])) acc rs)))))"

definition load_evaluations :: "session_id \<Rightarrow> session_db \<Rightarrow> (session_error, evaluation_receipt list) outcome" where
  "load_evaluations sid db =
     group_evaluations sid None []
       (sort_key (\<lambda>r. (vw_evaluated_at r, vw_execution_id r, vw_attempt r, vw_result_index r))
          (filter (\<lambda>r. vw_session_id r = sid) (db_evaluations db)))"

definition decode_rollout_row :: "session_id \<Rightarrow> rollout_row \<Rightarrow> (session_error, rollout_summary) outcome" where
  "decode_rollout_row sid r =
     and_then (corrupt (new_id (ow_execution_id r))) (\<lambda>eid.
     and_then (ok_or (u32_of_i64 (ow_attempt r)) SessionCorruptRecord) (\<lambda>attempt.
     and_then (ok_or (u16_of_i64 (ow_projection_version r)) SessionCorruptRecord) (\<lambda>version.
     and_then (ok_or (u32_of_i64 (ow_record_count r)) SessionCorruptRecord) (\<lambda>count.
     and_then (session_timestamp (ow_recorded_at r)) (\<lambda>t.
       Inr \<lparr>rs_session_id = sid, rs_execution_id = eid, rs_attempt = attempt, rs_projection_version = version,
            rs_record_count = count, rs_context_manifest_digest = ow_context_manifest_digest r,
            rs_final_digest = ow_final_digest r, rs_recorded_at = t\<rparr>)))))"

definition load_rollouts :: "session_id \<Rightarrow> session_db \<Rightarrow> (session_error, rollout_summary list) outcome" where
  "load_rollouts sid db =
     try_map (decode_rollout_row sid)
       (sort_key (\<lambda>r. (ow_recorded_at r, ow_execution_id r)) (filter (\<lambda>r. ow_session_id r = sid) (db_rollouts db)))"

definition revoked_row :: "session_db \<Rightarrow> memory_row \<Rightarrow> bool" where
  "revoked_row db r \<longleftrightarrow>
     (\<exists>k \<in> set (db_revocations db). kw_session_id k = yw_session_id r \<and> kw_provider k = yw_provider r
        \<and> kw_memory_id k = yw_memory_id r)"

definition l1_evidence_count :: "session_id \<Rightarrow> session_db \<Rightarrow> nat" where
  "l1_evidence_count sid db =
     length (filter (\<lambda>r. yw_session_id r = sid \<and> yw_tier r = ''l1'' \<and> yw_kind r = ''execution_evidence''
                      \<and> \<not> revoked_row db r) (db_memory db))"

definition load_messages :: "'m session_codec \<Rightarrow> session_id \<Rightarrow> session_db \<Rightarrow> (session_error, 'm list) outcome" where
  "load_messages c sid db =
     try_map (\<lambda>r. ok_or (xc_read_message c (mw_message_json r)) SessionSerialization)
       (sort_key mw_sequence (filter (\<lambda>r. mw_session_id r = sid) (db_messages db)))"

definition resume_session ::
  "'m session_codec \<Rightarrow> faults \<Rightarrow> session_id \<Rightarrow> session_caller \<Rightarrow> session_db
     \<Rightarrow> (session_error, 'm session_snapshot) outcome" where
  "resume_session c f i cl db =
     and_then (scoped_session f i cl db) (\<lambda>s.
     and_then (ensure (\<not> f 2) SessionDatabase) (\<lambda>_.
     and_then (try_map (decode_event_row c) (events_of i db)) (\<lambda>events.
     and_then (ensure (\<not> f 3) SessionDatabase) (\<lambda>_.
     and_then (ensure (\<not> f 4) SessionDatabase) (\<lambda>_.
     and_then (load_evaluations i db) (\<lambda>evaluations.
     and_then (ensure (\<not> f 5) SessionDatabase) (\<lambda>_.
     and_then (load_rollouts i db) (\<lambda>rollouts.
     and_then (ensure (\<not> f 6) SessionDatabase) (\<lambda>_.
     and_then (load_messages c i db) (\<lambda>messages.
       Inr \<lparr>ss_session = s, ss_events = map fst events, ss_event_metadata = map snd events,
            ss_l1_evidence_count = l1_evidence_count i db, ss_evaluations = evaluations,
            ss_rollouts = rollouts, ss_agent_messages = messages\<rparr>))))))))))"

record event_page_result =
  pg_events :: "runtime_event list"
  pg_next_sequence :: "u64 option"

definition decode_page_row :: "'m session_codec \<Rightarrow> event_row \<Rightarrow> (session_error, u64 \<times> runtime_event) outcome" where
  "decode_page_row c r =
     and_then (ok_or (u64_of_i64 (ew_sequence r)) SessionCorruptRecord) (\<lambda>n.
     and_then (ok_or (xc_read_event c (ew_event_json r)) SessionSerialization) (\<lambda>ev. Inr (n, ev)))"

definition event_page ::
  "'m session_codec \<Rightarrow> faults \<Rightarrow> session_id \<Rightarrow> session_caller \<Rightarrow> u64 option \<Rightarrow> u16 \<Rightarrow> session_db
     \<Rightarrow> (session_error, event_page_result) outcome" where
  "event_page c f i cl after limit db =
     (if limit = 0 then Inl InvalidEventPage
      else
        and_then (opt_try (\<lambda>n. ok_or (i64_of_u64 n) SessionCorruptRecord) after) (\<lambda>after.
        let a = (case after of None \<Rightarrow> 0 | Some n \<Rightarrow> n) in
        and_then (scoped_session f i cl db) (\<lambda>_.
        and_then (ensure (\<not> f 2) SessionDatabase) (\<lambda>_.
        and_then
          (try_map (decode_page_row c)
             (take (unat limit + 1)
                (sort_key ew_sequence (filter (\<lambda>r. ew_session_id r = i \<and> ew_sequence r > a) (db_events db)))))
          (\<lambda>events.
        if length events > unat limit
        then
          let kept = butlast events in
          Inr \<lparr>pg_events = map snd kept, pg_next_sequence = (if kept = [] then None else Some (fst (last kept)))\<rparr>
        else Inr \<lparr>pg_events = map snd events, pg_next_sequence = None\<rparr>)))))"

section \<open>Appending\<close>

definition serialize_event :: "'m session_codec \<Rightarrow> runtime_event \<Rightarrow> (session_error, string) outcome" where
  "serialize_event c ev =
     and_then (ok_or (xc_write_event c ev) SessionSerialization) (\<lambda>s.
     if length s > MAX_EVENT_BYTES then Inl EventTooLarge
     else if \<not> utf8_valid s then Inl SessionCorruptRecord
     else Inr s)"

definition insert_event ::
  "bool \<Rightarrow> session_id \<Rightarrow> int option \<Rightarrow> string \<Rightarrow> session_db \<Rightarrow> (session_error, session_db) outcome" where
  "insert_event fault i recorded json db =
     (if fault \<or> db_event_seq db \<ge> MAX_ROWID then Inl SessionDatabase
      else
        let n = db_event_seq db + 1 in
        Inr (db\<lparr>db_events := row_insert \<lparr>ew_sequence = n, ew_session_id = i, ew_event_json = json,
                                          ew_recorded_at = recorded\<rparr> (db_events db),
               db_event_seq := n\<rparr>))"

fun insert_events ::
  "faults \<Rightarrow> nat \<Rightarrow> session_id \<Rightarrow> int option \<Rightarrow> string list \<Rightarrow> session_db \<Rightarrow> (session_error, session_db) outcome" where
  "insert_events f k i recorded [] db = Inr db"
| "insert_events f k i recorded (s # rest) db =
     and_then (insert_event (f k) i recorded s db) (insert_events f (Suc k) i recorded rest)"

text \<open>\<open>COALESCE(MAX(attempt), -1) + 1\<close>; past the largest 64-bit integer SQLite yields a float, which is not read.\<close>

definition next_attempt :: "session_id \<Rightarrow> execution_id \<Rightarrow> session_db \<Rightarrow> int" where
  "next_attempt i eid db =
     (let attempts = map vw_attempt (filter (\<lambda>r. vw_session_id r = i \<and> vw_execution_id r = eid) (db_evaluations db)) in
      (if attempts = [] then -1 else Max (set attempts)) + 1)"

definition evaluation_row_of ::
  "session_id \<Rightarrow> execution_id \<Rightarrow> int \<Rightarrow> int \<Rightarrow> nat \<Rightarrow> evaluation_result \<Rightarrow> evaluation_row" where
  "evaluation_row_of i eid attempt at n x =
     \<lparr>vw_session_id = i, vw_execution_id = eid, vw_attempt = attempt, vw_result_index = int n,
      vw_kind = evaluation_kind_str (er_kind x), vw_status = evaluation_status_str (er_status x),
      vw_score = uint (er_score x), vw_reason = er_reason x, vw_advisory = er_advisory x, vw_evaluated_at = at\<rparr>"

text \<open>The primary key, the unique index and the checks of \<open>session_evaluations\<close> and \<open>session_rollouts\<close>.\<close>

definition evaluation_conflict :: "evaluation_row \<Rightarrow> session_db \<Rightarrow> bool" where
  "evaluation_conflict r db \<longleftrightarrow>
     (\<exists>x \<in> set (db_evaluations db). vw_session_id x = vw_session_id r \<and> vw_execution_id x = vw_execution_id r
        \<and> vw_attempt x = vw_attempt r \<and> (vw_kind x = vw_kind r \<or> vw_result_index x = vw_result_index r))
   \<or> vw_attempt r < 0 \<or> vw_score r > 100 \<or> vw_evaluated_at r < 0"

definition rollout_conflict :: "rollout_row \<Rightarrow> session_db \<Rightarrow> bool" where
  "rollout_conflict r db \<longleftrightarrow>
     (\<exists>x \<in> set (db_rollouts db). ow_session_id x = ow_session_id r \<and> ow_execution_id x = ow_execution_id r
        \<and> ow_attempt x = ow_attempt r)
   \<or> ow_attempt r < 0 \<or> ow_projection_version r \<le> 0 \<or> ow_record_count r \<le> 0 \<or> ow_recorded_at r < 0"

fun insert_evaluations ::
  "faults \<Rightarrow> nat \<Rightarrow> evaluation_row list \<Rightarrow> session_db \<Rightarrow> (session_error, session_db) outcome" where
  "insert_evaluations f k [] db = Inr db"
| "insert_evaluations f k (r # rs) db =
     (if f k \<or> evaluation_conflict r db then Inl SessionDatabase
      else insert_evaluations f (Suc k) rs (db\<lparr>db_evaluations := row_insert r (db_evaluations db)\<rparr>))"

definition evaluation_rows :: "evaluation_receipt \<Rightarrow> session_id \<Rightarrow> int \<Rightarrow> int \<Rightarrow> evaluation_row list" where
  "evaluation_rows v i attempt at =
     map (\<lambda>(n, x). evaluation_row_of i (vr_execution_id v) attempt at n x) (enumerate 0 (vr_results v))"

definition manifest_of :: "rollout \<Rightarrow> rollout_digest option" where
  "manifest_of ro =
     (case ro_records ro of
        [] \<Rightarrow> None
      | r # _ \<Rightarrow> (case rd_evidence r of ContextManifest d \<Rightarrow> Some d | _ \<Rightarrow> None))"

definition insert_rollout ::
  "bool \<Rightarrow> session_id \<Rightarrow> execution_id \<Rightarrow> int \<Rightarrow> int \<Rightarrow> rollout \<Rightarrow> session_db \<Rightarrow> (session_error, session_db) outcome" where
  "insert_rollout fault i eid attempt recorded ro db =
     (if int (length (ro_records ro)) > MAX_ROWID then Inl SessionCorruptRecord
      else case manifest_of ro of None \<Rightarrow> Inl InvalidEvaluation | Some d \<Rightarrow>
        let row = \<lparr>ow_session_id = i, ow_execution_id = eid, ow_attempt = attempt,
                   ow_projection_version = uint (ro_projection_version ro),
                   ow_record_count = int (length (ro_records ro)), ow_context_manifest_digest = d,
                   ow_final_digest = ro_final_digest ro, ow_recorded_at = recorded\<rparr> in
        if fault \<or> rollout_conflict row db then Inl SessionDatabase
        else Inr (db\<lparr>db_rollouts := row_insert row (db_rollouts db)\<rparr>))"

definition foreign_event :: "session_id \<Rightarrow> session_caller \<Rightarrow> execution_id \<Rightarrow> runtime_event \<Rightarrow> bool" where
  "foreign_event i cl eid ev \<longleftrightarrow>
     ec_session_id (ev_context ev) \<noteq> Some i \<or> ec_execution_id (ev_context ev) \<noteq> Some eid
   \<or> ec_tenant_id (ev_context ev) \<noteq> cl_tenant_id cl \<or> ec_workspace_id (ev_context ev) \<noteq> cl_workspace_id cl"

definition check_rollout ::
  "(string \<Rightarrow> string) \<Rightarrow> session_id \<Rightarrow> session_caller \<Rightarrow> execution_id \<Rightarrow> rollout option \<Rightarrow> (session_error, unit) outcome" where
  "check_rollout sha i cl eid rollout =
     (case rollout of
        None \<Rightarrow> Inr ()
      | Some ro \<Rightarrow>
          and_then (map_err (\<lambda>_. InvalidEvaluation) (verify_rollout sha ro)) (\<lambda>_.
          ensure
            (rsc_session_id (ro_scope ro) = i \<and> rsc_tenant_id (ro_scope ro) = cl_tenant_id cl
             \<and> rsc_workspace_id (ro_scope ro) = cl_workspace_id cl \<and> rsc_execution_id (ro_scope ro) = eid)
            InvalidEvaluation))"

text \<open>A transaction: an error inside it leaves the database as it was.\<close>

definition transact ::
  "session_db \<Rightarrow> (session_error, session_db) outcome \<Rightarrow> (session_error, unit) outcome \<times> session_db" where
  "transact db result = (case result of Inl e \<Rightarrow> (Inl e, db) | Inr db' \<Rightarrow> (Inr (), db'))"

definition append_execution_with_rollout ::
  "'m session_codec \<Rightarrow> (string \<Rightarrow> string) \<Rightarrow> faults \<Rightarrow> session_id \<Rightarrow> session_caller \<Rightarrow> runtime_event list
     \<Rightarrow> evaluation_receipt \<Rightarrow> rollout option \<Rightarrow> timestamp \<Rightarrow> session_db
     \<Rightarrow> (session_error, unit) outcome \<times> session_db" where
  "append_execution_with_rollout c sha f i cl events evaluation rollout recorded db =
     transact db
       (and_then
          (ensure (events \<noteq> [] \<and> vr_session_id evaluation = i
                   \<and> \<not> list_ex (foreign_event i cl (vr_execution_id evaluation)) events) InvalidEvaluation) (\<lambda>_.
        and_then (check_rollout sha i cl (vr_execution_id evaluation) rollout) (\<lambda>_.
        and_then (try_map (serialize_event c) events) (\<lambda>jsons.
        and_then (timestamp_i64 recorded) (\<lambda>recorded.
        and_then (timestamp_i64 (vr_evaluated_at evaluation)) (\<lambda>evaluated.
        and_then (scoped_session f i cl db) (\<lambda>_.
        and_then (ensure (\<not> f 2 \<and> \<not> f 3) SessionDatabase) (\<lambda>_.
        let attempt = next_attempt i (vr_execution_id evaluation) db;
            k = 4 + length jsons;
            rows = evaluation_rows evaluation i attempt evaluated in
        and_then (ensure (attempt \<le> MAX_ROWID) SessionDatabase) (\<lambda>_.
        and_then (insert_events f 4 i (Some recorded) jsons db) (\<lambda>db.
        and_then (insert_evaluations f k rows db) (\<lambda>db.
        and_then
          (case rollout of
             None \<Rightarrow> Inr db
           | Some ro \<Rightarrow> insert_rollout (f (k + length rows)) i (vr_execution_id evaluation) attempt recorded ro db) (\<lambda>db.
        and_then (ensure (\<not> f (k + length rows + 1)) SessionDatabase) (\<lambda>_. Inr db)))))))))))))"

definition append_execution ::
  "'m session_codec \<Rightarrow> (string \<Rightarrow> string) \<Rightarrow> faults \<Rightarrow> session_id \<Rightarrow> session_caller \<Rightarrow> runtime_event list
     \<Rightarrow> evaluation_receipt \<Rightarrow> timestamp \<Rightarrow> session_db \<Rightarrow> (session_error, unit) outcome \<times> session_db" where
  "append_execution c sha f i cl events evaluation recorded db =
     append_execution_with_rollout c sha f i cl events evaluation None recorded db"

definition append_events_at ::
  "'m session_codec \<Rightarrow> faults \<Rightarrow> session_id \<Rightarrow> session_caller \<Rightarrow> runtime_event list \<Rightarrow> timestamp \<Rightarrow> session_db
     \<Rightarrow> (session_error, unit) outcome \<times> session_db" where
  "append_events_at c f i cl events recorded db =
     (if events = [] then (Inr (), db)
      else transact db
        (and_then (try_map (serialize_event c) events) (\<lambda>jsons.
         and_then (timestamp_i64 recorded) (\<lambda>recorded.
         and_then (scoped_session f i cl db) (\<lambda>_.
         and_then (ensure (\<not> f 2) SessionDatabase) (\<lambda>_.
         and_then (insert_events f 3 i (Some recorded) jsons db) (\<lambda>db.
         and_then (ensure (\<not> f (3 + length jsons)) SessionDatabase) (\<lambda>_. Inr db))))))))"

definition append_event_at ::
  "'m session_codec \<Rightarrow> faults \<Rightarrow> session_id \<Rightarrow> session_caller \<Rightarrow> runtime_event \<Rightarrow> timestamp \<Rightarrow> session_db
     \<Rightarrow> (session_error, unit) outcome \<times> session_db" where
  "append_event_at c f i cl ev recorded db = append_events_at c f i cl [ev] recorded db"

definition append_event_recorded_at ::
  "'m session_codec \<Rightarrow> faults \<Rightarrow> session_id \<Rightarrow> session_caller \<Rightarrow> runtime_event \<Rightarrow> timestamp option \<Rightarrow> session_db
     \<Rightarrow> (session_error, unit) outcome \<times> session_db" where
  "append_event_recorded_at c f i cl ev recorded db =
     transact db
       (and_then (ok_or (xc_write_event c ev) SessionSerialization) (\<lambda>s.
        and_then (ensure (length s \<le> MAX_EVENT_BYTES) EventTooLarge) (\<lambda>_.
        and_then (scoped_session f i cl db) (\<lambda>_.
        and_then (opt_try timestamp_i64 recorded) (\<lambda>recorded.
        and_then (ensure (utf8_valid s) SessionCorruptRecord) (\<lambda>_.
          insert_event (f 2) i recorded s db))))))"

definition append_event ::
  "'m session_codec \<Rightarrow> faults \<Rightarrow> session_id \<Rightarrow> session_caller \<Rightarrow> runtime_event \<Rightarrow> session_db
     \<Rightarrow> (session_error, unit) outcome \<times> session_db" where
  "append_event c f i cl ev db = append_event_recorded_at c f i cl ev None db"


section \<open>Transcripts and pruning\<close>

definition serialize_message :: "'m session_codec \<Rightarrow> 'm \<Rightarrow> (session_error, string) outcome" where
  "serialize_message c m =
     and_then (ok_or (xc_write_message c m) SessionSerialization) (\<lambda>s.
     if length s > MAX_AGENT_MESSAGE_BYTES then Inl AgentMessageTooLarge
     else if \<not> utf8_valid s then Inl SessionCorruptRecord
     else Inr s)"

fun insert_messages ::
  "faults \<Rightarrow> nat \<Rightarrow> session_id \<Rightarrow> string list \<Rightarrow> session_db \<Rightarrow> (session_error, session_db) outcome" where
  "insert_messages f k i [] db = Inr db"
| "insert_messages f k i (s # rest) db =
     (if f k \<or> db_message_seq db \<ge> MAX_ROWID then Inl SessionDatabase
      else
        let n = db_message_seq db + 1 in
        insert_messages f (Suc k) i rest
          (db\<lparr>db_messages := row_insert \<lparr>mw_sequence = n, mw_session_id = i, mw_message_json = s\<rparr> (db_messages db),
             db_message_seq := n\<rparr>))"

definition save_agent_transcript ::
  "'m session_codec \<Rightarrow> faults \<Rightarrow> session_id \<Rightarrow> session_caller \<Rightarrow> 'm list \<Rightarrow> session_db
     \<Rightarrow> (session_error, unit) outcome \<times> session_db" where
  "save_agent_transcript c f i cl messages db =
     transact db
       (and_then (ensure (length messages \<le> MAX_AGENT_MESSAGES) AgentTranscriptTooLarge) (\<lambda>_.
        and_then (try_map (serialize_message c) messages) (\<lambda>jsons.
        and_then (ensure (sum_list (map length jsons) \<le> MAX_AGENT_TRANSCRIPT_BYTES) AgentTranscriptTooLarge) (\<lambda>_.
        and_then (scoped_session f i cl db) (\<lambda>_.
        and_then (ensure (\<not> f 2 \<and> \<not> f 3) SessionDatabase) (\<lambda>_.
        and_then (insert_messages f 4 i jsons (db\<lparr>db_messages := row_delete mw_session_id i (db_messages db)\<rparr>)) (\<lambda>db.
        and_then (ensure (\<not> f (4 + length jsons)) SessionDatabase) (\<lambda>_. Inr db))))))))"

text \<open>Deleting a session deletes, through the foreign keys, all it owns except its journal.\<close>

definition delete_session :: "session_id \<Rightarrow> session_db \<Rightarrow> session_db" where
  "delete_session i db =
     db\<lparr>db_sessions := row_delete sw_id i (db_sessions db),
        db_events := row_delete ew_session_id i (db_events db),
        db_evaluations := row_delete vw_session_id i (db_evaluations db),
        db_rollouts := row_delete ow_session_id i (db_rollouts db),
        db_messages := row_delete mw_session_id i (db_messages db),
        db_memory := row_delete yw_session_id i (db_memory db),
        db_revocations := row_delete kw_session_id i (db_revocations db),
        db_audit := row_delete aw_session_id i (db_audit db)\<rparr>"

record session_prune_report =
  pr_older_than_seconds :: u64
  pr_sessions_examined :: nat
  pr_sessions_pruned :: nat
  pr_events_reclaimed :: nat
  pr_dry_run :: bool
  pr_pruned_session_ids :: "session_id list"

definition prune_candidates :: "session_caller \<Rightarrow> u64 \<Rightarrow> session_db \<Rightarrow> session_id list" where
  "prune_candidates cl cutoff db =
     map sw_id (sort_key sw_created_at
       (filter (\<lambda>r. in_caller_scope cl r \<and> sw_created_at r < sint cutoff) (db_sessions db)))"

definition prune_sessions ::
  "faults \<Rightarrow> session_caller \<Rightarrow> u64 \<Rightarrow> bool \<Rightarrow> u64 \<Rightarrow> session_db
     \<Rightarrow> (session_error, session_prune_report) outcome \<times> session_db" where
  "prune_sessions f cl older_than dry_run now db =
     (if f 0 then (Inl SessionLockPoisoned, db)
      else
        let ids = prune_candidates cl (saturating_sub now older_than) db;
            n = length ids;
            reclaimed = sum_list (map (\<lambda>i. length (filter (\<lambda>r. ew_session_id r = i) (db_events db))) ids);
            report = \<lparr>pr_older_than_seconds = older_than,
                      pr_sessions_examined = length (filter (in_caller_scope cl) (db_sessions db)),
                      pr_sessions_pruned = (if dry_run then 0 else n),
                      pr_events_reclaimed = (if dry_run then 0 else reclaimed),
                      pr_dry_run = dry_run, pr_pruned_session_ids = ids\<rparr> in
        if list_ex f [1..<3 + n] then (Inl SessionDatabase, db)
        else if dry_run \<or> ids = [] then (Inr report, db)
        else if list_ex f [3 + n..<5 + 2 * n] then (Inl SessionDatabase, db)
        else (Inr report, fold delete_session ids db))"

section \<open>The invariant\<close>

text \<open>What is asked of \<open>serde_json\<close>: what it writes it reads back.\<close>

definition codec_ok :: "'m session_codec \<Rightarrow> bool" where
  "codec_ok c \<longleftrightarrow>
     (\<forall>ev s. xc_write_event c ev = Some s \<longrightarrow> xc_read_event c s = Some ev)
   \<and> (\<forall>m s. xc_write_message c m = Some s \<longrightarrow> xc_read_message c s = Some m)"

text \<open>What Rust's types guarantee of the arguments: they were built by their constructors.\<close>

definition valid_session :: "session \<Rightarrow> bool" where
  "valid_session s \<longleftrightarrow>
     valid_id (se_id s) \<and> valid_id (se_principal_id s) \<and> valid_id (se_tenant_id s) \<and> valid_id (se_workspace_id s)"

definition valid_receipt :: "evaluation_receipt \<Rightarrow> bool" where
  "valid_receipt v \<longleftrightarrow>
     valid_id (vr_execution_id v) \<and> vr_results v \<noteq> [] \<and> distinct (map er_kind (vr_results v))
   \<and> (\<forall>x \<in> set (vr_results v). valid_result x)"

text \<open>An entry of the evaluation log: the attempt and the receipt. The table holds the rows of the
  entries, one block after the other.\<close>

type_synonym evaluation_entry = "int \<times> evaluation_receipt"

definition entry_key :: "evaluation_entry \<Rightarrow> session_id \<times> execution_id \<times> int" where
  "entry_key g = (vr_session_id (snd g), vr_execution_id (snd g), fst g)"

definition entry_rows :: "evaluation_entry \<Rightarrow> evaluation_row list" where
  "entry_rows g = evaluation_rows (snd g) (vr_session_id (snd g)) (fst g) (uint (vr_evaluated_at (snd g)))"

definition valid_entry :: "evaluation_entry \<Rightarrow> bool" where
  "valid_entry g \<longleftrightarrow> valid_receipt (snd g) \<and> 0 \<le> fst g \<and> uint (vr_evaluated_at (snd g)) < 2 ^ 63"

definition rollout_key :: "rollout_row \<Rightarrow> session_id \<times> execution_id \<times> int" where
  "rollout_key r = (ow_session_id r, ow_execution_id r, ow_attempt r)"

definition evaluation_log :: "session_db \<Rightarrow> evaluation_entry list \<Rightarrow> bool" where
  "evaluation_log db gs \<longleftrightarrow>
     db_evaluations db = concat (map entry_rows gs) \<and> distinct (map entry_key gs) \<and> list_all valid_entry gs
   \<and> (\<forall>r \<in> set (db_rollouts db). rollout_key r \<in> entry_key ` set gs)"

definition valid_event_row :: "'m session_codec \<Rightarrow> event_row \<Rightarrow> bool" where
  "valid_event_row c r \<longleftrightarrow>
     0 < ew_sequence r \<and> ew_sequence r < 2 ^ 63 \<and> xc_read_event c (ew_event_json r) \<noteq> None
   \<and> (\<forall>t. ew_recorded_at r = Some t \<longrightarrow> 0 \<le> t \<and> t < 2 ^ 63)"

definition session_ids :: "session_db \<Rightarrow> session_id set" where
  "session_ids db = sw_id ` set (db_sessions db)"

text \<open>The foreign keys.\<close>

definition owned :: "session_db \<Rightarrow> bool" where
  "owned db \<longleftrightarrow>
     ew_session_id ` set (db_events db) \<subseteq> session_ids db \<and> vw_session_id ` set (db_evaluations db) \<subseteq> session_ids db
   \<and> ow_session_id ` set (db_rollouts db) \<subseteq> session_ids db \<and> mw_session_id ` set (db_messages db) \<subseteq> session_ids db
   \<and> yw_session_id ` set (db_memory db) \<subseteq> session_ids db \<and> kw_session_id ` set (db_revocations db) \<subseteq> session_ids db
   \<and> aw_session_id ` set (db_audit db) \<subseteq> session_ids db"

definition counters_ok :: "session_db \<Rightarrow> bool" where
  "counters_ok db \<longleftrightarrow>
     sorted_wrt (<) (map ew_sequence (db_events db)) \<and> (\<forall>r \<in> set (db_events db). ew_sequence r \<le> db_event_seq db)
   \<and> 0 \<le> db_event_seq db \<and> db_event_seq db < 2 ^ 63
   \<and> sorted_wrt (<) (map mw_sequence (db_messages db)) \<and> (\<forall>r \<in> set (db_messages db). mw_sequence r \<le> db_message_seq db)"

definition session_inv :: "'m session_codec \<Rightarrow> session_db \<Rightarrow> bool" where
  "session_inv c db \<longleftrightarrow>
     keyed sw_id (db_sessions db) \<and> (\<forall>r \<in> set (db_sessions db). is_ok (decode_session_row r))
   \<and> counters_ok db \<and> list_all (valid_event_row c) (db_events db)
   \<and> list_all (\<lambda>r. xc_read_message c (mw_message_json r) \<noteq> None) (db_messages db)
   \<and> (\<exists>gs. evaluation_log db gs)
   \<and> owned db"


section \<open>What the statements do\<close>

fun event_rows_from :: "int \<Rightarrow> session_id \<Rightarrow> int option \<Rightarrow> string list \<Rightarrow> event_row list" where
  "event_rows_from n i recorded [] = []"
| "event_rows_from n i recorded (s # rest) =
     \<lparr>ew_sequence = n + 1, ew_session_id = i, ew_event_json = s, ew_recorded_at = recorded\<rparr>
       # event_rows_from (n + 1) i recorded rest"

fun message_rows_from :: "int \<Rightarrow> session_id \<Rightarrow> string list \<Rightarrow> message_row list" where
  "message_rows_from n i [] = []"
| "message_rows_from n i (s # rest) =
     \<lparr>mw_sequence = n + 1, mw_session_id = i, mw_message_json = s\<rparr> # message_rows_from (n + 1) i rest"

definition with_events :: "session_id \<Rightarrow> int option \<Rightarrow> string list \<Rightarrow> session_db \<Rightarrow> session_db" where
  "with_events i recorded jsons db =
     db\<lparr>db_events := db_events db @ event_rows_from (db_event_seq db) i recorded jsons,
        db_event_seq := db_event_seq db + int (length jsons)\<rparr>"

lemma insert_events_iff:
  assumes "db_event_seq db < 2 ^ 63"
  shows "insert_events f k i recorded jsons db = Inr db' \<longleftrightarrow>
    (\<forall>j < length jsons. \<not> f (k + j)) \<and> db_event_seq db + int (length jsons) < 2 ^ 63
    \<and> db' = with_events i recorded jsons db"
  using assms
proof (induction jsons arbitrary: k db)
  case Nil
  then show ?case by (auto simp: with_events_def)
next
  case (Cons s jsons)
  show ?case
  proof (cases "f k \<or> db_event_seq db \<ge> MAX_ROWID")
    case True
    then show ?thesis by (auto simp: insert_event_def)
  next
    case False
    then have "insert_events f k i recorded (s # jsons) db = insert_events f (Suc k) i recorded jsons
        (db\<lparr>db_events := row_insert \<lparr>ew_sequence = db_event_seq db + 1, ew_session_id = i, ew_event_json = s,
              ew_recorded_at = recorded\<rparr> (db_events db), db_event_seq := db_event_seq db + 1\<rparr>)" (is "_ = insert_events _ _ _ _ _ ?db1")
      by (auto simp: insert_event_def Let_def)
    moreover have "(\<forall>j < length (s # jsons). \<not> f (k + j)) \<longleftrightarrow> \<not> f k \<and> (\<forall>j < length jsons. \<not> f (Suc k + j))"
      by (simp add: All_less_Suc2)
    moreover have "insert_events f (Suc k) i recorded jsons ?db1 = Inr db' \<longleftrightarrow>
        (\<forall>j < length jsons. \<not> f (Suc k + j)) \<and> db_event_seq ?db1 + int (length jsons) < 2 ^ 63
        \<and> db' = with_events i recorded jsons ?db1"
      by (rule Cons.IH) (use False in simp)
    ultimately show ?thesis using False by (auto simp: with_events_def row_insert_def algebra_simps)
  qed
qed

lemma insert_evaluations_Inr:
  "insert_evaluations f k rows db = Inr db' \<Longrightarrow> db' = db\<lparr>db_evaluations := db_evaluations db @ rows\<rparr>"
proof (induction rows arbitrary: k db)
  case (Cons r rows)
  then have "insert_evaluations f (Suc k) rows (db\<lparr>db_evaluations := db_evaluations db @ [r]\<rparr>) = Inr db'"
    by (simp add: row_insert_def split: if_splits)
  from Cons.IH [OF this] show ?case by simp
qed simp

lemma insert_messages_Inr:
  "insert_messages f k i jsons db = Inr db' \<Longrightarrow>
     db' = db\<lparr>db_messages := db_messages db @ message_rows_from (db_message_seq db) i jsons,
             db_message_seq := db_message_seq db + int (length jsons)\<rparr>"
proof (induction jsons arbitrary: k db)
  case (Cons s jsons)
  then have "insert_messages f (Suc k) i jsons
      (db\<lparr>db_messages := db_messages db @ [\<lparr>mw_sequence = db_message_seq db + 1, mw_session_id = i, mw_message_json = s\<rparr>],
         db_message_seq := db_message_seq db + 1\<rparr>) = Inr db'"
    by (simp add: row_insert_def Let_def split: if_splits)
  from Cons.IH [OF this] show ?case by (simp add: algebra_simps)
qed simp

section \<open>The evaluation log\<close>

lemma parse_evaluation_strs [simp]:
  "parse_evaluation_kind (evaluation_kind_str k) = Inr k" "parse_evaluation_status (evaluation_status_str s) = Inr s"
  by (cases k; simp add: parse_evaluation_kind_def) (cases s; simp add: parse_evaluation_status_def)

lemma session_timestamp_uint: "uint t < 2 ^ 63 \<Longrightarrow> session_timestamp (uint t) = Inr t"
  by (simp add: session_timestamp_def i64_roundtrip i64_of_u64_def)

lemma decode_result_row [simp]:
  "valid_result x \<Longrightarrow> decode_result (evaluation_row_of i eid a t n x) = Inr x"
  by (simp add: decode_result_def evaluation_row_of_def valid_result_rebuilt)

lemma evaluation_row_of_sel [simp]:
  "vw_session_id (evaluation_row_of i eid a t n x) = i" "vw_execution_id (evaluation_row_of i eid a t n x) = eid"
  "vw_attempt (evaluation_row_of i eid a t n x) = a" "vw_evaluated_at (evaluation_row_of i eid a t n x) = t"
  "vw_result_index (evaluation_row_of i eid a t n x) = int n" "vw_kind (evaluation_row_of i eid a t n x) = evaluation_kind_str (er_kind x)"
  by (simp_all add: evaluation_row_of_def)

lemma new_id_valid [simp]: "valid_id v \<Longrightarrow> new_id v = Inr v"
  by simp

lemma group_within:
  assumes "valid_id eid" "0 \<le> a" "uint t < 2 ^ 63" "\<forall>x \<in> set xs. valid_result x"
  shows "group_evaluations sid (Some ((eid, a), t, rs)) acc
      (map (\<lambda>(n, x). evaluation_row_of i eid a (uint t) n x) (enumerate k xs) @ rest)
    = group_evaluations sid (Some ((eid, a), t, rs @ xs)) acc rest"
  using assms(4)
  by (induction xs arbitrary: k rs) (use assms(1-3) in \<open>auto simp: session_timestamp_uint Let_def\<close>)

text \<open>The key of an entry in the order the rows are read.\<close>

definition entry_order :: "evaluation_entry \<Rightarrow> int \<times> execution_id \<times> int" where
  "entry_order g = (uint (vr_evaluated_at (snd g)), vr_execution_id (snd g), fst g)"

definition row_order :: "evaluation_row \<Rightarrow> int \<times> execution_id \<times> int \<times> int" where
  "row_order r = (vw_evaluated_at r, vw_execution_id r, vw_attempt r, vw_result_index r)"

lemma group_entry:
  assumes "valid_entry g" "\<And>g0. current = Some g0 \<Longrightarrow> fst g0 \<noteq> (vr_execution_id (snd g), fst g)"
    and "case current of None \<Rightarrow> acc' = acc | Some g0 \<Rightarrow> \<exists>v. close_group sid g0 = Inr v \<and> acc' = acc @ [v]"
  shows "group_evaluations sid current acc (entry_rows g @ rest)
    = group_evaluations sid (Some ((vr_execution_id (snd g), fst g), vr_evaluated_at (snd g), vr_results (snd g))) acc' rest"
proof -
  obtain x xs where res: "vr_results (snd g) = x # xs"
    using assms(1) by (cases "vr_results (snd g)") (auto simp: valid_entry_def valid_receipt_def)
  have v: "valid_id (vr_execution_id (snd g))" "0 \<le> fst g" "uint (vr_evaluated_at (snd g)) < 2 ^ 63"
    "valid_result x" "\<forall>y \<in> set xs. valid_result y"
    using assms(1) res by (auto simp: valid_entry_def valid_receipt_def)
  show ?thesis
    using assms(2,3) v
    by (auto simp: entry_rows_def evaluation_rows_def res session_timestamp_uint Let_def group_within split: option.splits)
qed

lemma close_entry:
  assumes "valid_entry g" "vr_session_id (snd g) = sid"
  shows "close_group sid ((vr_execution_id (snd g), fst g), vr_evaluated_at (snd g), vr_results (snd g)) = Inr (snd g)"
  using assms by (auto simp: close_group_def new_evaluation_receipt_iff valid_entry_def valid_receipt_def)

lemma group_entries:
  assumes "list_all valid_entry gs" "\<forall>g \<in> set gs. vr_session_id (snd g) = sid" "distinct (map entry_key gs)"
  shows "group_evaluations sid None acc (concat (map entry_rows gs)) = Inr (acc @ map snd gs)"
proof -
  have open_case: "group_evaluations sid
        (Some ((vr_execution_id (snd g), fst g), vr_evaluated_at (snd g), vr_results (snd g))) acc (concat (map entry_rows hs))
      = Inr (acc @ snd g # map snd hs)"
    if "list_all valid_entry (g # hs)" "\<forall>h \<in> set (g # hs). vr_session_id (snd h) = sid" "distinct (map entry_key (g # hs))" for g hs acc
    using that
  proof (induction hs arbitrary: g acc)
    case Nil
    then show ?case by (simp add: close_entry)
  next
    case (Cons h hs)
    have "fst ((vr_execution_id (snd g), fst g), vr_evaluated_at (snd g), vr_results (snd g)) \<noteq> (vr_execution_id (snd h), fst h)"
      using Cons.prems by (auto simp: entry_key_def)
    then have "group_evaluations sid (Some ((vr_execution_id (snd g), fst g), vr_evaluated_at (snd g), vr_results (snd g))) acc
          (entry_rows h @ concat (map entry_rows hs))
        = group_evaluations sid (Some ((vr_execution_id (snd h), fst h), vr_evaluated_at (snd h), vr_results (snd h)))
            (acc @ [snd g]) (concat (map entry_rows hs))"
      using Cons.prems by (intro group_entry) (auto simp: close_entry)
    moreover have "\<dots> = Inr ((acc @ [snd g]) @ snd h # map snd hs)" by (rule Cons.IH) (use Cons.prems in auto)
    ultimately show ?case by simp
  qed
  show ?thesis
  proof (cases gs)
    case (Cons g hs)
    then have "group_evaluations sid None acc (entry_rows g @ concat (map entry_rows hs))
        = group_evaluations sid (Some ((vr_execution_id (snd g), fst g), vr_evaluated_at (snd g), vr_results (snd g))) acc
            (concat (map entry_rows hs))"
      using assms by (intro group_entry) auto
    with Cons show ?thesis using assms open_case [of g hs acc] by simp
  qed simp
qed

lemma entry_row_cases:
  assumes "r \<in> set (entry_rows g)"
  obtains n x where "x \<in> set (vr_results (snd g))"
    "r = evaluation_row_of (vr_session_id (snd g)) (vr_execution_id (snd g)) (fst g) (uint (vr_evaluated_at (snd g))) n x"
proof -
  obtain p where p: "p \<in> set (enumerate 0 (vr_results (snd g)))"
    "r = evaluation_row_of (vr_session_id (snd g)) (vr_execution_id (snd g)) (fst g) (uint (vr_evaluated_at (snd g))) (fst p) (snd p)"
    using assms by (auto simp: entry_rows_def evaluation_rows_def)
  moreover have "snd p \<in> set (vr_results (snd g))" using p(1) by (simp add: in_set_enumerate_eq) (metis nth_mem)
  ultimately show thesis using that by blast
qed

lemma entry_rows_sel [simp]:
  assumes "r \<in> set (entry_rows g)"
  shows "vw_session_id r = vr_session_id (snd g)" "vw_execution_id r = vr_execution_id (snd g)" "vw_attempt r = fst g"
  using assms by (auto elim: entry_row_cases)

lemma filter_entry_rows:
  "filter (\<lambda>r. P (vw_session_id r)) (concat (map entry_rows gs)) = concat (map entry_rows (filter (\<lambda>g. P (vr_session_id (snd g))) gs))"
proof (induction gs)
  case (Cons g gs)
  have "filter (\<lambda>r. P (vw_session_id r)) (entry_rows g) = (if P (vr_session_id (snd g)) then entry_rows g else [])"
    by (auto simp: filter_empty_conv filter_id_conv)
  with Cons show ?case by simp
qed simp

lemma row_orders: "map row_order (entry_rows g) =
    map (\<lambda>n. (uint (vr_evaluated_at (snd g)), vr_execution_id (snd g), fst g, int n)) [0..<length (vr_results (snd g))]"
  by (rule nth_equalityI) (auto simp: entry_rows_def evaluation_rows_def nth_enumerate_eq row_order_def)

lemma row_order_in:
  "p \<in> row_order ` set (entry_rows g) \<Longrightarrow>
     \<exists>n. p = (uint (vr_evaluated_at (snd g)), vr_execution_id (snd g), fst g, int n)"
proof -
  assume "p \<in> row_order ` set (entry_rows g)"
  then have "p \<in> set (map row_order (entry_rows g))" by simp
  then show ?thesis unfolding row_orders by auto
qed

lemma row_order_less:
  assumes "entry_order g < entry_order h" "p \<in> row_order ` set (entry_rows g)" "q \<in> row_order ` set (entry_rows h)"
  shows "p < q"
  using assms by (auto simp: entry_order_def dest!: row_order_in)

lemma sorted_rows:
  assumes "sorted_wrt (<) (map entry_order gs)"
  shows "sorted_wrt (<) (map row_order (concat (map entry_rows gs)))"
  using assms
proof (induction gs)
  case (Cons g gs)
  have "sorted_wrt (<) (map row_order (entry_rows g))"
    unfolding row_orders sorted_wrt_map by (rule sorted_wrt_mono_rel [OF _ sorted_wrt_upt]) auto
  moreover have "p < q" if pq: "p \<in> row_order ` set (entry_rows g)" "q \<in> row_order ` set (concat (map entry_rows gs))" for p q
  proof -
    obtain h where "h \<in> set gs" "q \<in> row_order ` set (entry_rows h)" using pq(2) by auto
    moreover from this have "entry_order g < entry_order h" using Cons.prems by simp
    ultimately show ?thesis using pq(1) by (intro row_order_less)
  qed
  ultimately show ?case using Cons by (auto simp: sorted_wrt_append)
qed simp

text \<open>Reading the log: the receipts of the session, ordered by time, execution and attempt.\<close>

definition entries_of :: "session_id \<Rightarrow> evaluation_entry list \<Rightarrow> evaluation_entry list" where
  "entries_of sid gs = sort_key entry_order (filter (\<lambda>g. vr_session_id (snd g) = sid) gs)"

lemma strict_sort_key:
  assumes "distinct (map f xs)"
  shows "sorted_wrt (<) (map f (sort_key f xs))"
  using assms by (simp add: strict_sorted_iff distinct_map)

lemma sort_rows:
  assumes "distinct (map entry_order gs)"
  shows "sort_key row_order (concat (map entry_rows gs)) = concat (map entry_rows (sort_key entry_order gs))"
proof -
  let ?ys = "concat (map entry_rows (sort_key entry_order gs))"
  have ys: "sorted_wrt (<) (map row_order ?ys)" by (intro sorted_rows strict_sort_key assms)
  have set_eq: "set ?ys = set (concat (map entry_rows gs))" by simp
  have "mset ?ys = mset (concat (map entry_rows gs))"
    unfolding mset_concat sum_mset_sum_list [symmetric] mset_map by (simp add: image_mset.compositionality comp_def)
  then have "mset (map row_order ?ys) = mset (map row_order (concat (map entry_rows gs)))" by (metis mset_map)
  moreover have "distinct (map row_order ?ys)" using ys strict_sorted_iff by blast
  ultimately have d: "distinct (map row_order (concat (map entry_rows gs)))" using mset_eq_imp_distinct_iff by blast
  show ?thesis
  proof (rule map_sorted_distinct_set_unique [where f = row_order])
    show "inj_on row_order (set (sort_key row_order (concat (map entry_rows gs))) \<union> set ?ys)"
      using d by (simp add: distinct_map)
  qed (use ys d set_eq in \<open>auto simp: strict_sorted_iff distinct_map\<close>)
qed

lemma load_evaluations_log:
  assumes "evaluation_log db gs"
  shows "load_evaluations sid db = Inr (map snd (entries_of sid gs))"
proof -
  let ?hs = "filter (\<lambda>g. vr_session_id (snd g) = sid) gs"
  have d: "distinct (map entry_key gs)" and v: "list_all valid_entry gs"
    and e: "db_evaluations db = concat (map entry_rows gs)" using assms by (auto simp: evaluation_log_def)
  have inj: "inj_on entry_key (set gs)" using d by (simp add: distinct_map)
  have dist: "distinct (map entry_order ?hs)"
    using d inj by (auto simp: distinct_map inj_on_def entry_order_def entry_key_def)
  have "filter (\<lambda>r. vw_session_id r = sid) (concat (map entry_rows gs)) = concat (map entry_rows ?hs)"
    by (rule filter_entry_rows [where P = "\<lambda>s. s = sid"])
  then have "load_evaluations sid db = group_evaluations sid None [] (concat (map entry_rows (entries_of sid gs)))"
    using sort_rows [OF dist] by (simp add: load_evaluations_def e entries_of_def row_order_def [abs_def])
  also have "\<dots> = Inr ([] @ map snd (entries_of sid gs))"
  proof (rule group_entries)
    show "distinct (map entry_key (entries_of sid gs))"
      using inj distinct_map [of entry_key gs] d by (auto simp: entries_of_def distinct_map inj_on_def)
  qed (use v in \<open>auto simp: entries_of_def list_all_iff\<close>)
  finally show ?thesis by simp
qed

section \<open>What an append does\<close>

lemma scoped_session_InrD:
  assumes "scoped_session f i cl db = Inr s"
  shows "\<exists>r. row_lookup sw_id i (db_sessions db) = Some r \<and> decode_session_row r = Inr s \<and> in_caller_scope cl r"
  using assms
  by (auto simp: scoped_session_def load_session_def ensure_scope_def in_caller_scope_def decode_session_row_def opt_try_def
      split: if_splits option.splits)

lemma scoped_session_owned: "scoped_session f i cl db = Inr s \<Longrightarrow> i \<in> session_ids db"
  by (auto simp: session_ids_def dest!: scoped_session_InrD row_lookup_Some)

lemma next_attempt_above:
  assumes "r \<in> set (db_evaluations db)" "vw_session_id r = i" "vw_execution_id r = eid"
  shows "vw_attempt r < next_attempt i eid db"
proof -
  let ?A = "set (map vw_attempt (filter (\<lambda>r. vw_session_id r = i \<and> vw_execution_id r = eid) (db_evaluations db)))"
  have "vw_attempt r \<in> ?A" using assms by auto
  then have "vw_attempt r \<le> Max ?A" by (intro Max_ge) auto
  moreover have "filter (\<lambda>r. vw_session_id r = i \<and> vw_execution_id r = eid) (db_evaluations db) \<noteq> []"
    using assms by (auto simp: filter_empty_conv)
  ultimately show ?thesis by (simp add: next_attempt_def Let_def)
qed

lemma next_attempt_nonneg:
  assumes "evaluation_log db gs"
  shows "0 \<le> next_attempt i eid db"
proof (cases "\<exists>r \<in> set (db_evaluations db). vw_session_id r = i \<and> vw_execution_id r = eid")
  case True
  then obtain r where r: "r \<in> set (db_evaluations db)" "vw_session_id r = i" "vw_execution_id r = eid" by blast
  then have "0 \<le> vw_attempt r"
    using assms by (auto simp: evaluation_log_def list_all_iff valid_entry_def)
  with next_attempt_above [OF r] show ?thesis by simp
next
  case False
  then have "filter (\<lambda>r. vw_session_id r = i \<and> vw_execution_id r = eid) (db_evaluations db) = []"
    by (auto simp: filter_empty_conv)
  then show ?thesis by (simp add: next_attempt_def)
qed

lemma entry_rows_not_Nil: "valid_entry g \<Longrightarrow> entry_rows g \<noteq> []"
  by (auto simp: entry_rows_def evaluation_rows_def valid_entry_def valid_receipt_def enumerate_eq_zip)

lemma next_attempt_fresh:
  assumes "evaluation_log db gs"
  shows "(i, eid, next_attempt i eid db) \<notin> entry_key ` set gs"
proof
  assume "(i, eid, next_attempt i eid db) \<in> entry_key ` set gs"
  then obtain g where g: "g \<in> set gs" "entry_key g = (i, eid, next_attempt i eid db)" by auto
  then obtain r where r: "r \<in> set (entry_rows g)"
    using assms entry_rows_not_Nil [of g] by (cases "entry_rows g") (auto simp: evaluation_log_def list_all_iff)
  then have "vw_attempt r = next_attempt i eid db" "vw_session_id r = i" "vw_execution_id r = eid"
    using g(2) by (auto simp: entry_key_def)
  moreover have "r \<in> set (db_evaluations db)" using assms g(1) r by (auto simp: evaluation_log_def)
  ultimately show False using next_attempt_above by fastforce
qed

lemma insert_evaluations_no_conflict:
  assumes "\<forall>j < length rows. \<not> f (k + j)" "\<forall>r \<in> set rows. \<not> evaluation_conflict r db"
    and "distinct (map vw_kind rows)" "distinct (map vw_result_index rows)"
  shows "insert_evaluations f k rows db = Inr (db\<lparr>db_evaluations := db_evaluations db @ rows\<rparr>)"
  using assms
proof (induction rows arbitrary: k db)
  case (Cons r rows)
  let ?db = "db\<lparr>db_evaluations := row_insert r (db_evaluations db)\<rparr>"
  have "\<forall>x \<in> set rows. \<not> evaluation_conflict x ?db"
    using Cons.prems by (force simp: evaluation_conflict_def row_insert_def)
  then have "insert_evaluations f (Suc k) rows ?db = Inr (?db\<lparr>db_evaluations := db_evaluations ?db @ rows\<rparr>)"
    using Cons.prems(1,3,4) by (intro Cons.IH) (auto simp: All_less_Suc2)
  then show ?case using Cons.prems(1,2) by (auto simp: row_insert_def All_less_Suc2)
qed simp

lemma entry_rows_no_conflict:
  assumes "valid_entry g" "evaluation_log db gs" "entry_key g \<notin> entry_key ` set gs" "r \<in> set (entry_rows g)"
  shows "\<not> evaluation_conflict r db"
proof -
  obtain n x where x: "x \<in> set (vr_results (snd g))"
    "r = evaluation_row_of (vr_session_id (snd g)) (vr_execution_id (snd g)) (fst g) (uint (vr_evaluated_at (snd g))) n x"
    using assms(4) by (rule entry_row_cases)
  have "uint (er_score x) \<le> 100"
    using x(1) assms(1) by (auto simp: valid_entry_def valid_receipt_def valid_result_def word_le_def)
  moreover have "(vw_session_id y, vw_execution_id y, vw_attempt y) \<noteq> entry_key g" if old: "y \<in> set (db_evaluations db)" for y
  proof -
    obtain h where "h \<in> set gs" "y \<in> set (entry_rows h)" using old assms(2) by (auto simp: evaluation_log_def)
    then have "(vw_session_id y, vw_execution_id y, vw_attempt y) = entry_key h" by (simp add: entry_key_def)
    with \<open>h \<in> set gs\<close> assms(3) show ?thesis by (metis image_eqI)
  qed
  ultimately show ?thesis
    using x assms(1) by (fastforce simp: evaluation_conflict_def valid_entry_def evaluation_row_of_def entry_key_def)
qed

lemma entry_rows_distinct:
  assumes "valid_entry g"
  shows "distinct (map vw_kind (entry_rows g))" "distinct (map vw_result_index (entry_rows g))"
proof -
  have k: "map vw_kind (entry_rows g) = map evaluation_kind_str (map er_kind (vr_results (snd g)))"
    by (rule nth_equalityI) (auto simp: entry_rows_def evaluation_rows_def nth_enumerate_eq)
  show "distinct (map vw_kind (entry_rows g))"
    unfolding k distinct_map [of evaluation_kind_str] using assms
    by (auto simp: valid_entry_def valid_receipt_def inj_on_def)
  have "map vw_result_index (entry_rows g) = map int [0..<length (vr_results (snd g))]"
    by (rule nth_equalityI) (auto simp: entry_rows_def evaluation_rows_def nth_enumerate_eq)
  then show "distinct (map vw_result_index (entry_rows g))" by (simp add: distinct_map)
qed

text \<open>The rows one recorded execution adds.\<close>

definition rollout_row_of :: "session_id \<Rightarrow> execution_id \<Rightarrow> int \<Rightarrow> rollout \<Rightarrow> timestamp \<Rightarrow> rollout_row list" where
  "rollout_row_of i eid a ro recorded =
     (case manifest_of ro of
        None \<Rightarrow> []
      | Some d \<Rightarrow>
          [\<lparr>ow_session_id = i, ow_execution_id = eid, ow_attempt = a,
            ow_projection_version = uint (ro_projection_version ro), ow_record_count = int (length (ro_records ro)),
            ow_context_manifest_digest = d, ow_final_digest = ro_final_digest ro, ow_recorded_at = uint recorded\<rparr>])"

definition with_execution ::
  "session_id \<Rightarrow> string list \<Rightarrow> evaluation_receipt \<Rightarrow> rollout option \<Rightarrow> timestamp \<Rightarrow> session_db \<Rightarrow> session_db" where
  "with_execution i jsons v rollout recorded db =
     (let a = next_attempt i (vr_execution_id v) db in
      (with_events i (Some (uint recorded)) jsons db)
        \<lparr>db_evaluations := db_evaluations db @ entry_rows (a, v),
         db_rollouts := db_rollouts db
           @ (case rollout of None \<Rightarrow> [] | Some ro \<Rightarrow> rollout_row_of i (vr_execution_id v) a ro recorded)\<rparr>)"

lemma timestamp_i64_iff [simp]: "timestamp_i64 t = Inr n \<longleftrightarrow> uint t < 2 ^ 63 \<and> n = uint t"
  by (auto simp: timestamp_i64_def i64_of_u64_Some_iff)

lemma transact_iff [simp]: "transact db r = (Inr (), db') \<longleftrightarrow> r = Inr db'"
  by (cases r) (auto simp: transact_def)

lemma transact_error: "transact db r = (Inl e, db') \<Longrightarrow> db' = db"
  by (cases r) (auto simp: transact_def)

lemma insert_rollout_Inr:
  "insert_rollout fault i eid a t ro db = Inr db' \<Longrightarrow> t = uint recorded \<Longrightarrow>
     db' = db\<lparr>db_rollouts := db_rollouts db @ rollout_row_of i eid a ro recorded\<rparr> \<and> manifest_of ro \<noteq> None"
  by (auto simp: insert_rollout_def rollout_row_of_def row_insert_def Let_def split: if_splits option.splits)

lemma append_execution_Inr:
  assumes "append_execution_with_rollout c sha f i cl events v rollout recorded db = (Inr (), db')"
    and "db_event_seq db < 2 ^ 63"
  obtains jsons s where "try_map (serialize_event c) events = Inr jsons" "scoped_session f i cl db = Inr s"
    "db' = with_execution i jsons v rollout recorded db" "vr_session_id v = i" "events \<noteq> []"
    "uint recorded < 2 ^ 63" "uint (vr_evaluated_at v) < 2 ^ 63" "db_event_seq db + int (length jsons) < 2 ^ 63"
    "check_rollout sha i cl (vr_execution_id v) rollout = Inr ()"
    "\<And>ro. rollout = Some ro \<Longrightarrow> manifest_of ro \<noteq> None"
proof -
  let ?a = "next_attempt i (vr_execution_id v) db"
  let ?db1 = "\<lambda>jsons. with_events i (Some (uint recorded)) jsons db"
  let ?rows = "evaluation_rows v i ?a (uint (vr_evaluated_at v))"
  from assms(1) obtain jsons s db2 where ok: "events \<noteq> []" "vr_session_id v = i"
    "check_rollout sha i cl (vr_execution_id v) rollout = Inr ()"
    "try_map (serialize_event c) events = Inr jsons" "uint recorded < 2 ^ 63" "uint (vr_evaluated_at v) < 2 ^ 63"
    "scoped_session f i cl db = Inr s"
    and ev: "db_event_seq db + int (length jsons) < 2 ^ 63"
    and ins: "insert_evaluations f (4 + length jsons) ?rows (?db1 jsons) = Inr db2"
    and ro: "(case rollout of None \<Rightarrow> Inr db2
        | Some ro \<Rightarrow> insert_rollout (f (4 + length jsons + length ?rows)) i (vr_execution_id v) ?a (uint recorded) ro db2) = Inr db'"
    by (auto simp: append_execution_with_rollout_def Let_def insert_events_iff [OF assms(2)])
  have db2: "db2 = (?db1 jsons)\<lparr>db_evaluations := db_evaluations db @ ?rows\<rparr>"
    using insert_evaluations_Inr [OF ins] by (simp add: with_events_def)
  have rows: "?rows = entry_rows (?a, v)" using ok(2) by (simp add: entry_rows_def)
  have "db' = with_execution i jsons v rollout recorded db \<and> (\<forall>ro. rollout = Some ro \<longrightarrow> manifest_of ro \<noteq> None)"
  proof (cases rollout)
    case None
    then show ?thesis using ro db2 rows by (simp add: with_execution_def Let_def with_events_def)
  next
    case (Some r)
    then show ?thesis using ro db2 rows insert_rollout_Inr [OF _ refl]
      by (fastforce simp: with_execution_def Let_def with_events_def)
  qed
  then show thesis using ok ev that by blast
qed

section \<open>Every operation keeps the invariant\<close>

lemma session_invD:
  assumes "session_inv c db"
  shows "keyed sw_id (db_sessions db)" "counters_ok db" "owned db" "list_all (valid_event_row c) (db_events db)"
    "db_event_seq db < 2 ^ 63"
  using assms by (auto simp: session_inv_def counters_ok_def)

lemma event_rows_props:
  "r \<in> set (event_rows_from n i recorded jsons) \<Longrightarrow>
     n < ew_sequence r \<and> ew_sequence r \<le> n + int (length jsons) \<and> ew_session_id r = i \<and> ew_event_json r \<in> set jsons
     \<and> ew_recorded_at r = recorded"
  by (induction jsons arbitrary: n) force+

lemma event_rows_sorted: "sorted_wrt (<) (map ew_sequence (event_rows_from n i recorded jsons))"
  by (induction jsons arbitrary: n) (auto dest: event_rows_props)

lemma message_rows_props:
  "r \<in> set (message_rows_from n i jsons) \<Longrightarrow>
     n < mw_sequence r \<and> mw_sequence r \<le> n + int (length jsons) \<and> mw_session_id r = i \<and> mw_message_json r \<in> set jsons"
  by (induction jsons arbitrary: n) force+

lemma message_rows_sorted: "sorted_wrt (<) (map mw_sequence (message_rows_from n i jsons))"
  by (induction jsons arbitrary: n) (auto dest: message_rows_props)

lemma serialize_event_readable:
  "codec_ok c \<Longrightarrow> serialize_event c ev = Inr s \<Longrightarrow> xc_read_event c s = Some ev"
  by (auto simp: serialize_event_def codec_ok_def split: if_splits)

lemma serialize_events_readable:
  "codec_ok c \<Longrightarrow> try_map (serialize_event c) events = Inr jsons \<Longrightarrow> s \<in> set jsons \<Longrightarrow> xc_read_event c s \<noteq> None"
  by (metis try_map_set serialize_event_readable option.distinct(1))

lemma with_events_inv:
  assumes "session_inv c db" "i \<in> session_ids db" "\<forall>s \<in> set jsons. xc_read_event c s \<noteq> None"
    and "db_event_seq db + int (length jsons) < 2 ^ 63" "\<forall>t. recorded = Some t \<longrightarrow> 0 \<le> t \<and> t < 2 ^ 63"
  shows "session_inv c (with_events i recorded jsons db)"
proof -
  let ?new = "event_rows_from (db_event_seq db) i recorded jsons"
  have old: "\<forall>r \<in> set (db_events db). ew_sequence r \<le> db_event_seq db" "0 \<le> db_event_seq db"
    "sorted_wrt (<) (map ew_sequence (db_events db))"
    using assms(1) by (auto simp: session_inv_def counters_ok_def)
  have "sorted_wrt (<) (map ew_sequence (db_events db @ ?new))"
    using old event_rows_sorted by (fastforce simp: sorted_wrt_append dest: event_rows_props)
  moreover have "\<forall>r \<in> set (db_events db @ ?new). ew_sequence r \<le> db_event_seq db + int (length jsons)"
    using old(1) by (fastforce dest: event_rows_props)
  moreover have "list_all (valid_event_row c) ?new"
    using assms(3-5) old(2) by (fastforce simp: list_all_iff valid_event_row_def dest!: event_rows_props)
  moreover have "ew_session_id ` set ?new \<subseteq> session_ids db" using assms(2) by (auto dest!: event_rows_props)
  ultimately show ?thesis using assms(1,4) old(2)
    by (auto simp: session_inv_def with_events_def counters_ok_def owned_def session_ids_def evaluation_log_def)
qed

lemma with_execution_inv:
  assumes "session_inv c db" "i \<in> session_ids db" "\<forall>s \<in> set jsons. xc_read_event c s \<noteq> None"
    and "db_event_seq db + int (length jsons) < 2 ^ 63" "uint recorded < 2 ^ 63" "uint (vr_evaluated_at v) < 2 ^ 63"
    and "vr_session_id v = i" "valid_receipt v"
  shows "session_inv c (with_execution i jsons v rollout recorded db)"
    and "evaluation_log db gs \<Longrightarrow>
      evaluation_log (with_execution i jsons v rollout recorded db) (gs @ [(next_attempt i (vr_execution_id v) db, v)])"
proof -
  let ?a = "next_attempt i (vr_execution_id v) db"
  have log: "evaluation_log (with_execution i jsons v rollout recorded db) (gs @ [(?a, v)])" if gs: "evaluation_log db gs" for gs
  proof -
    have "valid_entry (?a, v)" using assms(6,8) next_attempt_nonneg [OF gs] by (simp add: valid_entry_def)
    moreover have "entry_key (?a, v) \<notin> entry_key ` set gs"
      using next_attempt_fresh [OF gs] assms(7) by (simp add: entry_key_def)
    moreover have "rollout_key r = entry_key (?a, v)" if "r \<in> set (rollout_row_of i (vr_execution_id v) ?a ro recorded)" for r ro
      using that assms(7) by (auto simp: rollout_row_of_def rollout_key_def entry_key_def split: option.splits)
    ultimately show ?thesis using gs by (auto simp: evaluation_log_def with_execution_def Let_def with_events_def split: option.splits)
  qed
  have "session_inv c (with_events i (Some (uint recorded)) jsons db)"
    using assms by (intro with_events_inv) auto
  moreover have "vw_session_id ` set (entry_rows (?a, v)) \<subseteq> session_ids db" using assms(2,7) by auto
  moreover have ro: "ow_session_id r \<in> sw_id ` set (db_sessions db)"
    if "r \<in> set (rollout_row_of i (vr_execution_id v) ?a ro recorded)" for r ro
    using assms(2) that by (auto simp: rollout_row_of_def session_ids_def split: option.splits)
  moreover obtain gs0 where "evaluation_log db gs0" using assms(1) by (auto simp: session_inv_def)
  ultimately show "session_inv c (with_execution i jsons v rollout recorded db)"
    using log [of gs0]
    by (auto simp: session_inv_def with_execution_def Let_def counters_ok_def owned_def session_ids_def with_events_def
        split: option.splits intro: ro)
  show "evaluation_log db gs \<Longrightarrow>
      evaluation_log (with_execution i jsons v rollout recorded db) (gs @ [(?a, v)])"
    by (rule log)
qed

lemma append_execution_inv:
  assumes "session_inv c db" "codec_ok c" "valid_receipt v"
  shows "session_inv c (snd (append_execution_with_rollout c sha f i cl events v rollout recorded db))"
proof (cases "append_execution_with_rollout c sha f i cl events v rollout recorded db")
  case (Pair r db')
  show ?thesis
  proof (cases r)
    case (Inl e)
    with Pair assms(1) show ?thesis by (auto simp: append_execution_with_rollout_def dest: transact_error)
  next
    case (Inr u)
    with Pair have "append_execution_with_rollout c sha f i cl events v rollout recorded db = (Inr (), db')" by simp
    then show ?thesis
      by (rule append_execution_Inr [OF _ session_invD(5) [OF assms(1)]])
         (use Pair assms in \<open>auto intro!: with_execution_inv(1) scoped_session_owned dest: serialize_events_readable\<close>)
  qed
qed

lemma append_events_Inr:
  assumes "append_events_at c f i cl events recorded db = (Inr (), db')" "db_event_seq db < 2 ^ 63" "events \<noteq> []"
  obtains jsons s where "try_map (serialize_event c) events = Inr jsons" "scoped_session f i cl db = Inr s"
    "uint recorded < 2 ^ 63" "db_event_seq db + int (length jsons) < 2 ^ 63"
    "db' = with_events i (Some (uint recorded)) jsons db"
  using assms by (auto simp: append_events_at_def insert_events_iff)

lemma insert_event_eq:
  "insert_event fault i recorded s db =
     (if fault \<or> db_event_seq db \<ge> MAX_ROWID then Inl SessionDatabase else Inr (with_events i recorded [s] db))"
  by (simp add: insert_event_def with_events_def row_insert_def Let_def)

lemma append_event_Inr:
  assumes "append_event_recorded_at c f i cl ev recorded db = (Inr (), db')"
  obtains s x where "xc_write_event c ev = Some s" "scoped_session f i cl db = Inr x"
    "db_event_seq db + 1 < 2 ^ 63" "\<forall>t. recorded = Some t \<longrightarrow> uint t < 2 ^ 63"
    "db' = with_events i (map_option uint recorded) [s] db"
  using assms
  by (cases recorded) (auto simp: append_event_recorded_at_def insert_event_eq split: if_splits)

lemma append_events_inv:
  assumes "session_inv c db" "codec_ok c"
  shows "session_inv c (snd (append_events_at c f i cl events recorded db))"
proof (cases "append_events_at c f i cl events recorded db")
  case (Pair r db')
  show ?thesis
  proof (cases "events = [] \<or> \<not> is_ok r")
    case True
    with Pair assms(1) show ?thesis by (cases r) (auto simp: append_events_at_def dest: transact_error split: if_splits)
  next
    case False
    with Pair have "append_events_at c f i cl events recorded db = (Inr (), db')" "events \<noteq> []" by (auto simp: is_ok_iff)
    then show ?thesis
      by (elim append_events_Inr [OF _ session_invD(5) [OF assms(1)]])
         (use Pair assms in \<open>auto intro!: with_events_inv scoped_session_owned dest: serialize_events_readable\<close>)
  qed
qed

lemma append_event_inv:
  assumes "session_inv c db" "codec_ok c"
  shows "session_inv c (snd (append_event_recorded_at c f i cl ev recorded db))"
proof (cases "append_event_recorded_at c f i cl ev recorded db")
  case (Pair r db')
  show ?thesis
  proof (cases r)
    case (Inl e)
    with Pair assms(1) show ?thesis by (auto simp: append_event_recorded_at_def dest: transact_error)
  next
    case (Inr u)
    with Pair have "append_event_recorded_at c f i cl ev recorded db = (Inr (), db')" by simp
    then show ?thesis
      by (rule append_event_Inr)
         (use Pair assms in \<open>auto intro!: with_events_inv scoped_session_owned simp: codec_ok_def\<close>)
  qed
qed

lemma decode_session_row_of:
  "valid_session s \<Longrightarrow> uint (se_created_at s) < 2 ^ 63 \<Longrightarrow> decode_session_row (session_row_of s (uint (se_created_at s))) = Inr s"
  by (auto simp: decode_session_row_def session_row_of_def valid_session_def session_timestamp_uint)

lemma create_session_Inr:
  "create_session f s db = (Inr (), db') \<Longrightarrow>
     uint (se_created_at s) < 2 ^ 63 \<and> row_lookup sw_id (se_id s) (db_sessions db) = None
   \<and> db' = db\<lparr>db_sessions := row_insert (session_row_of s (uint (se_created_at s))) (db_sessions db)\<rparr>"
  by (auto simp: create_session_def split: if_splits sum.splits)

lemma create_session_error: "create_session f s db = (Inl e, db') \<Longrightarrow> db' = db"
  by (auto simp: create_session_def split: if_splits sum.splits)

lemma create_session_inv:
  assumes "session_inv c db" "valid_session s"
  shows "session_inv c (snd (create_session f s db))"
proof (cases "create_session f s db")
  case (Pair r db')
  show ?thesis
  proof (cases r)
    case (Inl e)
    with Pair assms(1) show ?thesis by (auto dest: create_session_error)
  next
    case (Inr u)
    with Pair have "create_session f s db = (Inr (), db')" by simp
    note db' = create_session_Inr [OF this]
    have "keyed sw_id (row_insert (session_row_of s (uint (se_created_at s))) (db_sessions db))"
      using db' session_invD(1) [OF assms(1)] by (intro keyed_insert) (auto simp: session_row_of_def)
    moreover have "is_ok (decode_session_row (session_row_of s (uint (se_created_at s))))"
      using db' decode_session_row_of [OF assms(2)] by simp
    ultimately show ?thesis using Pair db' assms(1)
      by (auto simp: session_inv_def counters_ok_def owned_def session_ids_def evaluation_log_def row_insert_def)
  qed
qed

lemma serialize_message_readable:
  "codec_ok c \<Longrightarrow> serialize_message c m = Inr s \<Longrightarrow> xc_read_message c s = Some m"
  by (auto simp: serialize_message_def codec_ok_def split: if_splits)

text \<open>The database after a transcript was saved.\<close>

definition with_transcript :: "session_id \<Rightarrow> string list \<Rightarrow> session_db \<Rightarrow> session_db" where
  "with_transcript i jsons db =
     db\<lparr>db_messages := row_delete mw_session_id i (db_messages db) @ message_rows_from (db_message_seq db) i jsons,
        db_message_seq := db_message_seq db + int (length jsons)\<rparr>"

lemma save_agent_transcript_Inr:
  assumes "save_agent_transcript c f i cl messages db = (Inr (), db')"
  obtains jsons s where "try_map (serialize_message c) messages = Inr jsons" "scoped_session f i cl db = Inr s"
    "db' = with_transcript i jsons db"
  using assms by (auto simp: save_agent_transcript_def with_transcript_def dest!: insert_messages_Inr)

lemma with_transcript_inv:
  assumes "session_inv c db" "i \<in> session_ids db" "\<forall>s \<in> set jsons. xc_read_message c s \<noteq> None"
  shows "session_inv c (with_transcript i jsons db)"
proof -
  let ?old = "row_delete mw_session_id i (db_messages db)" and ?new = "message_rows_from (db_message_seq db) i jsons"
  have old: "\<forall>r \<in> set ?old. mw_sequence r \<le> db_message_seq db" "sorted_wrt (<) (map mw_sequence ?old)"
    using assms(1) by (auto simp: session_inv_def counters_ok_def row_delete_def sorted_wrt_map sorted_wrt_filter)
  then have "sorted_wrt (<) (map mw_sequence (?old @ ?new))"
    using message_rows_sorted by (fastforce simp: sorted_wrt_append dest: message_rows_props)
  moreover have "\<forall>r \<in> set (?old @ ?new). mw_sequence r \<le> db_message_seq db + int (length jsons)"
    using old(1) by (fastforce dest: message_rows_props)
  moreover have "mw_session_id ` set (?old @ ?new) \<subseteq> session_ids db"
    using assms(1,2) by (auto simp: session_inv_def owned_def row_delete_def dest!: message_rows_props)
  moreover have "list_all (\<lambda>r. xc_read_message c (mw_message_json r) \<noteq> None) (?old @ ?new)"
    using assms(1,3) by (fastforce simp: session_inv_def list_all_iff row_delete_def dest!: message_rows_props)
  ultimately show ?thesis using assms(1)
    by (auto simp: session_inv_def with_transcript_def counters_ok_def owned_def session_ids_def evaluation_log_def)
qed

lemma save_agent_transcript_inv:
  assumes "session_inv c db" "codec_ok c"
  shows "session_inv c (snd (save_agent_transcript c f i cl messages db))"
proof (cases "save_agent_transcript c f i cl messages db")
  case (Pair r db')
  show ?thesis
  proof (cases r)
    case (Inl e)
    with Pair assms(1) show ?thesis by (auto simp: save_agent_transcript_def dest: transact_error)
  next
    case (Inr u)
    with Pair have "save_agent_transcript c f i cl messages db = (Inr (), db')" by simp
    then obtain jsons s where j: "try_map (serialize_message c) messages = Inr jsons" "scoped_session f i cl db = Inr s"
      "db' = with_transcript i jsons db" by (rule save_agent_transcript_Inr)
    have "\<forall>t \<in> set jsons. xc_read_message c t \<noteq> None"
      by (metis try_map_set [OF j(1)] serialize_message_readable [OF assms(2)] option.distinct(1))
    with j assms(1) Pair show ?thesis by (simp add: with_transcript_inv scoped_session_owned)
  qed
qed

text \<open>The database without some sessions.\<close>

definition without_sessions :: "session_id set \<Rightarrow> session_db \<Rightarrow> session_db" where
  "without_sessions S db =
     db\<lparr>db_sessions := filter (\<lambda>r. sw_id r \<notin> S) (db_sessions db),
        db_events := filter (\<lambda>r. ew_session_id r \<notin> S) (db_events db),
        db_evaluations := filter (\<lambda>r. vw_session_id r \<notin> S) (db_evaluations db),
        db_rollouts := filter (\<lambda>r. ow_session_id r \<notin> S) (db_rollouts db),
        db_messages := filter (\<lambda>r. mw_session_id r \<notin> S) (db_messages db),
        db_memory := filter (\<lambda>r. yw_session_id r \<notin> S) (db_memory db),
        db_revocations := filter (\<lambda>r. kw_session_id r \<notin> S) (db_revocations db),
        db_audit := filter (\<lambda>r. aw_session_id r \<notin> S) (db_audit db)\<rparr>"

lemma fold_delete_session: "fold delete_session ids db = without_sessions (set ids) db"
proof (induction ids arbitrary: db)
  case Nil
  then show ?case by (simp add: without_sessions_def)
next
  case (Cons i ids)
  then show ?case by (simp add: without_sessions_def delete_session_def row_delete_def conj_commute)
qed

lemma kept_owner:
  "g ` set xs \<subseteq> sw_id ` set ss \<Longrightarrow>
     g ` set (filter (\<lambda>r. g r \<notin> S) xs) \<subseteq> sw_id ` set (filter (\<lambda>r. sw_id r \<notin> S) ss)"
  by (auto simp: image_iff) (metis (no_types, lifting) imageE image_subset_iff)

lemma without_sessions_inv:
  assumes "session_inv c db"
  shows "session_inv c (without_sessions S db)"
proof -
  obtain gs where gs: "evaluation_log db gs" using assms by (auto simp: session_inv_def)
  have "evaluation_log (without_sessions S db) (filter (\<lambda>g. vr_session_id (snd g) \<notin> S) gs)"
  proof -
    have "rollout_key r \<in> entry_key ` {g \<in> set gs. vr_session_id (snd g) \<notin> S}"
      if "rollout_key r \<in> entry_key ` set gs" "ow_session_id r \<notin> S" for r
      using that by (auto simp: rollout_key_def entry_key_def)
    then show ?thesis
      using gs filter_entry_rows [where P = "\<lambda>s. s \<notin> S"]
      by (auto simp: evaluation_log_def without_sessions_def distinct_map_filter list_all_iff)
  qed
  moreover have "keyed sw_id (filter (\<lambda>r. sw_id r \<notin> S) (db_sessions db))"
    using session_invD(1) [OF assms] by (simp add: keyed_def distinct_map_filter)
  moreover have "owned (without_sessions S db)"
    using session_invD(3) [OF assms] by (simp add: owned_def without_sessions_def session_ids_def kept_owner del: set_filter)
  ultimately show ?thesis using assms
    by (auto simp: session_inv_def without_sessions_def counters_ok_def sorted_wrt_map sorted_wrt_filter list_all_iff)
qed

lemma prune_sessions_eq:
  "snd (prune_sessions f cl older dry now db) =
     (if is_ok (fst (prune_sessions f cl older dry now db)) \<and> \<not> dry
      then without_sessions (set (prune_candidates cl (saturating_sub now older) db)) db else db)"
  by (auto simp: prune_sessions_def Let_def fold_delete_session without_sessions_def)

lemma prune_sessions_inv: "session_inv c db \<Longrightarrow> session_inv c (snd (prune_sessions f cl older dry now db))"
  by (simp add: prune_sessions_eq without_sessions_inv)

section \<open>What a session sees\<close>

text \<open>Two databases that agree on everything a session owns.\<close>

definition same_session :: "session_id \<Rightarrow> session_db \<Rightarrow> session_db \<Rightarrow> bool" where
  "same_session i db db' \<longleftrightarrow>
     row_lookup sw_id i (db_sessions db') = row_lookup sw_id i (db_sessions db)
   \<and> filter (\<lambda>r. ew_session_id r = i) (db_events db') = filter (\<lambda>r. ew_session_id r = i) (db_events db)
   \<and> filter (\<lambda>r. vw_session_id r = i) (db_evaluations db') = filter (\<lambda>r. vw_session_id r = i) (db_evaluations db)
   \<and> filter (\<lambda>r. ow_session_id r = i) (db_rollouts db') = filter (\<lambda>r. ow_session_id r = i) (db_rollouts db)
   \<and> filter (\<lambda>r. mw_session_id r = i) (db_messages db') = filter (\<lambda>r. mw_session_id r = i) (db_messages db)
   \<and> filter (\<lambda>r. yw_session_id r = i) (db_memory db') = filter (\<lambda>r. yw_session_id r = i) (db_memory db)
   \<and> filter (\<lambda>r. kw_session_id r = i) (db_revocations db') = filter (\<lambda>r. kw_session_id r = i) (db_revocations db)
   \<and> filter (\<lambda>r. aw_session_id r = i) (db_audit db') = filter (\<lambda>r. aw_session_id r = i) (db_audit db)"

lemma same_session_refl [simp]: "same_session i db db"
  by (simp add: same_session_def)

lemma same_session_trans: "same_session i db db' \<Longrightarrow> same_session i db' db'' \<Longrightarrow> same_session i db db''"
  by (simp add: same_session_def)

lemma scoped_session_same: "same_session i db db' \<Longrightarrow> scoped_session f i cl db' = scoped_session f i cl db"
  by (simp add: scoped_session_def load_session_def same_session_def)

lemma filter_split: "filter (\<lambda>r. P r \<and> Q r) xs = filter Q (filter P xs)"
  by (simp add: conj_commute)

lemma revoked_row_same:
  assumes "same_session i db db'" "yw_session_id r = i"
  shows "revoked_row db' r \<longleftrightarrow> revoked_row db r"
proof -
  have rev: "revoked_row d r \<longleftrightarrow>
      (\<exists>k \<in> set (filter (\<lambda>k. kw_session_id k = i) (db_revocations d)). kw_provider k = yw_provider r \<and> kw_memory_id k = yw_memory_id r)" for d
    using assms(2) by (auto simp: revoked_row_def)
  have "filter (\<lambda>k. kw_session_id k = i) (db_revocations db') = filter (\<lambda>k. kw_session_id k = i) (db_revocations db)"
    using assms(1) by (simp add: same_session_def)
  then show ?thesis unfolding rev [of db'] rev [of db] by (rule arg_cong)
qed

lemma l1_evidence_count_same:
  assumes "same_session i db db'"
  shows "l1_evidence_count i db' = l1_evidence_count i db"
proof -
  have l1: "l1_evidence_count i d = length (filter (\<lambda>r. yw_tier r = ''l1'' \<and> yw_kind r = ''execution_evidence'' \<and> \<not> revoked_row d r)
      (filter (\<lambda>r. yw_session_id r = i) (db_memory d)))" for d
    unfolding l1_evidence_count_def filter_split [of "\<lambda>r. yw_session_id r = i"] ..
  have mem: "filter (\<lambda>r. yw_session_id r = i) (db_memory db') = filter (\<lambda>r. yw_session_id r = i) (db_memory db)"
    using assms by (simp add: same_session_def)
  show ?thesis unfolding l1 [of db'] l1 [of db] mem
    by (rule arg_cong [where f = length], rule filter_cong) (auto simp: revoked_row_same [OF assms])
qed

lemma resume_same: "same_session i db db' \<Longrightarrow> resume_session c f i cl db' = resume_session c f i cl db"
  by (simp add: resume_session_def scoped_session_same l1_evidence_count_same)
     (simp add: same_session_def events_of_def load_evaluations_def load_rollouts_def load_messages_def)

lemma event_page_same: "same_session i db db' \<Longrightarrow> event_page c f i cl after limit db' = event_page c f i cl after limit db"
  unfolding event_page_def filter_split [of "\<lambda>r. ew_session_id r = i"]
  by (simp only: scoped_session_same) (simp only: same_session_def)

lemma filter_none: "(\<And>r. r \<in> set xs \<Longrightarrow> g r \<noteq> j) \<Longrightarrow> filter (\<lambda>r. g r = j) xs = []"
  by (auto simp: filter_empty_conv)

lemma with_events_same: "j \<noteq> i \<Longrightarrow> same_session j db (with_events i recorded jsons db)"
  by (auto simp: same_session_def with_events_def intro!: filter_none dest!: event_rows_props)

lemma with_execution_same:
  assumes "j \<noteq> i" "vr_session_id v = i"
  shows "same_session j db (with_execution i jsons v rollout recorded db)"
  using with_events_same [OF assms(1), of db "Some (uint recorded)" jsons] assms
  by (auto simp: same_session_def with_execution_def Let_def with_events_def rollout_row_of_def
      intro!: filter_none split: option.splits)

lemma with_transcript_same: "j \<noteq> i \<Longrightarrow> same_session j db (with_transcript i jsons db)"
proof -
  assume "j \<noteq> i"
  then have "filter (\<lambda>r. mw_session_id r = j) (message_rows_from (db_message_seq db) i jsons) = []"
    by (intro filter_none) (auto dest!: message_rows_props)
  moreover have "filter (\<lambda>r. mw_session_id r \<noteq> i \<and> mw_session_id r = j) (db_messages db) = filter (\<lambda>r. mw_session_id r = j) (db_messages db)"
    using \<open>j \<noteq> i\<close> by (intro filter_cong) auto
  ultimately show ?thesis by (simp add: same_session_def with_transcript_def row_delete_def)
qed

lemma without_sessions_same: "j \<notin> S \<Longrightarrow> same_session j db (without_sessions S db)"
proof -
  assume j: "j \<notin> S"
  have kept: "filter (\<lambda>r. g r \<notin> S \<and> g r = j) xs = filter (\<lambda>r. g r = j) xs" for g :: "'r \<Rightarrow> session_id" and xs
    using j by (intro filter_cong) auto
  have "row_lookup sw_id j (filter (\<lambda>r. sw_id r \<notin> S) xs) = row_lookup sw_id j xs" for xs
    using j by (induction xs) (auto simp: row_lookup_def)
  then show ?thesis by (simp add: same_session_def without_sessions_def kept)
qed

section \<open>Reading back\<close>

lemma sort_filter_id: "sorted_wrt (<) (map f xs) \<Longrightarrow> sort_key f (filter P xs) = filter P xs"
  for f :: "'a \<Rightarrow> 'k::linorder"
  by (intro sort_key_id_if_sorted sorted_filter) (simp only: strict_sorted_imp_sorted)

lemma events_of_inv:
  "counters_ok db \<Longrightarrow> events_of i db = filter (\<lambda>r. ew_session_id r = i) (db_events db)"
  by (simp add: events_of_def sort_filter_id counters_ok_def)

lemma try_map_append:
  "try_map f (xs @ ys) = and_then (try_map f xs) (\<lambda>us. and_then (try_map f ys) (\<lambda>vs. Inr (us @ vs)))"
proof (induction xs)
  case Nil
  show ?case by (cases "try_map f ys") auto
next
  case (Cons x xs)
  then show ?case by (cases "f x"; cases "try_map f xs"; cases "try_map f ys") auto
qed

definition event_of_row :: "'m session_codec \<Rightarrow> event_row \<Rightarrow> runtime_event \<times> event_metadata" where
  "event_of_row c r =
     (the (xc_read_event c (ew_event_json r)),
      \<lparr>em_sequence = word_of_int (ew_sequence r), em_recorded_at = map_option word_of_int (ew_recorded_at r)\<rparr>)"

lemma decode_event_row_valid: "valid_event_row c r \<Longrightarrow> decode_event_row c r = Inr (event_of_row c r)"
  by (cases "ew_recorded_at r")
     (auto simp: valid_event_row_def decode_event_row_def event_of_row_def session_timestamp_def u64_of_i64_def)

lemma decode_page_row_valid:
  "valid_event_row c r \<Longrightarrow> decode_page_row c r = Inr (word_of_int (ew_sequence r), fst (event_of_row c r))"
  by (auto simp: valid_event_row_def decode_page_row_def event_of_row_def u64_of_i64_def)

lemma decode_events_inv:
  assumes "session_inv c db"
  shows "try_map (decode_event_row c) (events_of i db) = Inr (map (event_of_row c) (events_of i db))"
proof (rule try_map_ok_all)
  fix r assume "r \<in> set (events_of i db)"
  then have "valid_event_row c r" using session_invD(4) [OF assms] by (auto simp: events_of_def list_all_iff)
  then show "decode_event_row c r = Inr (event_of_row c r)" by (rule decode_event_row_valid)
qed

lemma resume_events:
  "session_inv c db \<Longrightarrow> resume_session c f i cl db = Inr s \<Longrightarrow> ss_events s = map (fst \<circ> event_of_row c) (events_of i db)"
  by (auto simp: resume_session_def decode_events_inv)

lemma events_of_with_events:
  assumes "session_inv c db" "session_inv c (with_events i recorded jsons db)"
  shows "events_of i (with_events i recorded jsons db) = events_of i db @ event_rows_from (db_event_seq db) i recorded jsons"
proof -
  have "filter (\<lambda>r. ew_session_id r = i) (event_rows_from n i recorded jsons) = event_rows_from n i recorded jsons" for n
    by (auto simp: filter_id_conv dest!: event_rows_props)
  then show ?thesis using assms [THEN session_invD(2)] by (simp add: events_of_inv) (simp add: with_events_def)
qed

lemma appended_events:
  assumes "codec_ok c" "try_map (serialize_event c) events = Inr jsons"
  shows "map (fst \<circ> event_of_row c) (event_rows_from n i recorded jsons) = events"
  using assms(2)
proof (induction events arbitrary: jsons n)
  case (Cons ev events)
  then obtain s ss where "serialize_event c ev = Inr s" "try_map (serialize_event c) events = Inr ss" "jsons = s # ss"
    by (auto split: sum.splits)
  with Cons.IH [of ss "n + 1"] show ?case using serialize_event_readable [OF assms(1)] by (simp add: event_of_row_def)
qed simp

lemma entries_of_snoc: "mset (entries_of sid (gs @ [g])) = mset (entries_of sid gs) + (if vr_session_id (snd g) = sid then {#g#} else {#})"
  by (simp add: entries_of_def)

lemma load_evaluations_mset:
  assumes "evaluation_log db gs" "evaluation_log db' (gs @ [g])" "vr_session_id (snd g) = sid"
  shows "\<exists>vs vs'. load_evaluations sid db = Inr vs \<and> load_evaluations sid db' = Inr vs' \<and> mset vs' = add_mset (snd g) (mset vs)"
proof -
  have "mset (map snd (entries_of sid (gs @ [g]))) = image_mset snd (mset (entries_of sid (gs @ [g])))" by simp
  also have "\<dots> = add_mset (snd g) (mset (map snd (entries_of sid gs)))" unfolding entries_of_snoc using assms(3) by simp
  finally show ?thesis using load_evaluations_log assms(1,2) by blast
qed

lemma load_messages_cong:
  "filter (\<lambda>r. mw_session_id r = i) (db_messages db') = filter (\<lambda>r. mw_session_id r = i) (db_messages db) \<Longrightarrow>
     load_messages c i db' = load_messages c i db"
  by (simp add: load_messages_def)

lemma try_map_mset:
  assumes "try_map f xs = Inr ys" "mset xs = mset xs'"
  shows "\<exists>ys'. try_map f xs' = Inr ys' \<and> mset ys' = mset ys"
proof -
  have ok: "\<forall>x \<in> set xs. \<exists>y. f x = Inr y" using assms(1)
    by (induction xs arbitrary: ys) (auto split: sum.splits)
  define g where "g x = (case f x of Inr y \<Rightarrow> y)" for x
  have g: "f x = Inr (g x)" if "x \<in> set xs" for x using ok that by (auto simp: g_def)
  have "try_map f xs = Inr (map g xs)" by (rule try_map_ok_all) (rule g)
  moreover have "try_map f xs' = Inr (map g xs')" by (rule try_map_ok_all) (use g assms(2) mset_eq_setD in blast)
  ultimately show ?thesis using assms by (metis mset_map sum.inject(2))
qed

text \<open>The summary a recorded rollout is listed with.\<close>

definition rollout_summary_of :: "session_id \<Rightarrow> execution_id \<Rightarrow> int \<Rightarrow> rollout \<Rightarrow> timestamp \<Rightarrow> rollout_summary" where
  "rollout_summary_of i eid a ro recorded =
     \<lparr>rs_session_id = i, rs_execution_id = eid, rs_attempt = word_of_int a, rs_projection_version = ro_projection_version ro,
      rs_record_count = of_nat (length (ro_records ro)), rs_context_manifest_digest = the (manifest_of ro),
      rs_final_digest = ro_final_digest ro, rs_recorded_at = recorded\<rparr>"

lemma decode_rollout_row_of:
  assumes "manifest_of ro \<noteq> None" "valid_id eid" "0 \<le> a" "a < 2 ^ 32" "length (ro_records ro) < 2 ^ 32" "uint recorded < 2 ^ 63"
  shows "try_map (decode_rollout_row i) (rollout_row_of i eid a ro recorded) = Inr [rollout_summary_of i eid a ro recorded]"
  using assms
  by (auto simp: rollout_row_of_def decode_rollout_row_def rollout_summary_of_def u32_of_i64_def session_timestamp_uint)

lemma check_rollout_bound:
  "check_rollout sha i cl eid (Some ro) = Inr () \<Longrightarrow> length (ro_records ro) \<le> MAX_ROLLOUT_RECORDS"
  by (auto simp: check_rollout_def verify_rollout_def verify_records_def split: if_splits)

text \<open>The rollout rows of an execution and the summaries they are read back as.\<close>

lemma load_rollouts_with_execution:
  assumes os: "load_rollouts i db = Inr os" and gs: "evaluation_log db gs" and v: "valid_receipt v"
    and ro: "check_rollout sha i cl (vr_execution_id v) rollout = Inr ()" "\<And>r. rollout = Some r \<Longrightarrow> manifest_of r \<noteq> None"
    and att: "next_attempt i (vr_execution_id v) db < 2 ^ 32" and t: "uint recorded < 2 ^ 63"
  shows "\<exists>os'. load_rollouts i (with_execution i jsons v rollout recorded db) = Inr os' \<and> mset os' = mset os + (case rollout of None \<Rightarrow> {#}
        | Some ro \<Rightarrow> {#rollout_summary_of i (vr_execution_id v) (next_attempt i (vr_execution_id v) db) ro recorded#})"
proof -
  let ?f = "\<lambda>r. (ow_recorded_at r, ow_execution_id r)" and ?own = "filter (\<lambda>r. ow_session_id r = i)"
  let ?a = "next_attempt i (vr_execution_id v) db" and ?db' = "with_execution i jsons v rollout recorded db"
  let ?new = "case rollout of None \<Rightarrow> [] | Some ro \<Rightarrow> rollout_row_of i (vr_execution_id v) ?a ro recorded"
  let ?sum = "case rollout of None \<Rightarrow> [] | Some ro \<Rightarrow> [rollout_summary_of i (vr_execution_id v) ?a ro recorded]"
  have new: "try_map (decode_rollout_row i) ?new = Inr ?sum"
  proof (cases rollout)
    case (Some r)
    then have "length (ro_records r) < 2 ^ 32" using check_rollout_bound ro(1) by (fastforce simp: MAX_ROLLOUT_RECORDS_def)
    then show ?thesis
      using Some ro(2) v att next_attempt_nonneg [OF gs] t by (auto simp: decode_rollout_row_of valid_receipt_def)
  qed simp
  have "?own ?new = ?new" by (auto simp: filter_id_conv rollout_row_of_def split: option.splits)
  then have "mset (sort_key ?f (?own (db_rollouts ?db'))) = mset (sort_key ?f (?own (db_rollouts db)) @ ?new)"
    by (simp add: with_execution_def Let_def)
  moreover have "try_map (decode_rollout_row i) (sort_key ?f (?own (db_rollouts db)) @ ?new) = Inr (os @ ?sum)"
    using os new by (simp add: try_map_append load_rollouts_def)
  ultimately show ?thesis using try_map_mset
    by (fastforce simp: load_rollouts_def split: option.splits)
qed

lemma append_resume:
  assumes inv: "session_inv c db" and codec: "codec_ok c" and v: "valid_receipt v"
    and app: "append_execution_with_rollout c sha f i cl events v rollout recorded db = (Inr (), db')"
    and res: "resume_session c no_faults i cl db = Inr s"
    and att: "next_attempt i (vr_execution_id v) db < 2 ^ 32"
  shows "\<exists>s'. resume_session c no_faults i cl db' = Inr s' \<and> ss_session s' = ss_session s
    \<and> ss_events s' = ss_events s @ events
    \<and> mset (ss_evaluations s') = add_mset v (mset (ss_evaluations s))
    \<and> mset (ss_rollouts s') = mset (ss_rollouts s) + (case rollout of None \<Rightarrow> {#}
        | Some ro \<Rightarrow> {#rollout_summary_of i (vr_execution_id v) (next_attempt i (vr_execution_id v) db) ro recorded#})
    \<and> ss_agent_messages s' = ss_agent_messages s \<and> ss_l1_evidence_count s' = ss_l1_evidence_count s"
proof -
  let ?a = "next_attempt i (vr_execution_id v) db"
  obtain jsons x where j: "try_map (serialize_event c) events = Inr jsons" "scoped_session f i cl db = Inr x"
    and db': "db' = with_execution i jsons v rollout recorded db" and vi: "vr_session_id v = i"
    and t: "uint recorded < 2 ^ 63" "uint (vr_evaluated_at v) < 2 ^ 63" "db_event_seq db + int (length jsons) < 2 ^ 63"
    and ro: "check_rollout sha i cl (vr_execution_id v) rollout = Inr ()" "\<And>r. rollout = Some r \<Longrightarrow> manifest_of r \<noteq> None"
    using app session_invD(5) [OF inv] by (rule append_execution_Inr) blast
  obtain gs where gs: "evaluation_log db gs" using inv by (auto simp: session_inv_def)
  note own = scoped_session_owned [OF j(2)]
  have readable: "\<forall>s \<in> set jsons. xc_read_event c s \<noteq> None" using serialize_events_readable [OF codec j(1)] by blast
  have inv': "session_inv c db'" and log': "evaluation_log db' (gs @ [(?a, v)])"
    unfolding db' by (rule with_execution_inv(1) [OF inv own readable t(3,1,2) vi v])
      (rule with_execution_inv(2) [OF inv own readable t(3,1,2) vi v gs])
  have inv1: "session_inv c (with_events i (Some (uint recorded)) jsons db)"
    using inv own readable t(1,3) by (intro with_events_inv) auto
  have "db_events db' = db_events (with_events i (Some (uint recorded)) jsons db)" by (simp add: db' with_execution_def Let_def)
  then have ev: "events_of i db' = events_of i db @ event_rows_from (db_event_seq db) i (Some (uint recorded)) jsons"
    using events_of_with_events [OF inv inv1] by (simp add: events_of_def)
  obtain vs vs' where vs: "load_evaluations i db = Inr vs" "load_evaluations i db' = Inr vs'" "mset vs' = add_mset v (mset vs)"
    using load_evaluations_mset [OF gs log'] vi by auto
  have rest: "db_sessions db' = db_sessions db" "db_messages db' = db_messages db" "db_memory db' = db_memory db"
    "db_revocations db' = db_revocations db" by (simp_all add: db' with_execution_def Let_def with_events_def)
  have l1: "l1_evidence_count i db' = l1_evidence_count i db" unfolding l1_evidence_count_def revoked_row_def rest ..
  obtain os where os: "load_rollouts i db = Inr os" using res by (auto simp: resume_session_def)
  obtain os' where os': "load_rollouts i db' = Inr os'" "mset os' = mset os + (case rollout of None \<Rightarrow> {#}
        | Some ro \<Rightarrow> {#rollout_summary_of i (vr_execution_id v) ?a ro recorded#})"
    using load_rollouts_with_execution [OF os gs v ro att t(1), of jsons] unfolding db' by blast
  have sc: "scoped_session g i cl db' = scoped_session g i cl db" for g
    by (simp add: scoped_session_def load_session_def rest)
  have msg: "load_messages c i db' = load_messages c i db" by (simp add: load_messages_def rest)
  have "map (fst \<circ> event_of_row c) (events_of i db') = ss_events s @ events"
    using resume_events [OF inv res] appended_events [OF codec j(1)] by (simp add: ev)
  then show ?thesis
    using res vs os os' decode_events_inv [OF inv'] decode_events_inv [OF inv]
    by (auto simp: resume_session_def sc msg l1 no_faults_def)
qed

text \<open>Recording succeeds when its arguments belong together and no database call fails.\<close>

lemma rollout_row_no_conflict:
  assumes "evaluation_log db gs" "entry_key (a, v) \<notin> entry_key ` set gs" "vr_session_id v = i" "0 \<le> a"
    and "r \<in> set (rollout_row_of i (vr_execution_id v) a ro recorded)" "ro_projection_version ro \<noteq> 0" "ro_records ro \<noteq> []"
  shows "\<not> rollout_conflict r db"
proof -
  have r: "rollout_key r = entry_key (a, v)" "ow_attempt r = a" "0 < ow_projection_version r" "0 < ow_record_count r" "0 \<le> ow_recorded_at r"
    using assms(3,5-7)
    by (auto simp: rollout_row_of_def rollout_key_def entry_key_def uint_0_iff order_less_le split: option.splits)
  have "rollout_key x \<noteq> rollout_key r" if "x \<in> set (db_rollouts db)" for x
    using that assms(1,2) r(1) unfolding evaluation_log_def by metis
  then show ?thesis using r assms(4) by (force simp: rollout_conflict_def rollout_key_def)
qed

lemma append_execution_ok:
  assumes inv: "session_inv c db" and v: "valid_receipt v" and vi: "vr_session_id v = i"
    and ev: "events \<noteq> []" "\<not> list_ex (foreign_event i cl (vr_execution_id v)) events"
    and ro: "check_rollout sha i cl (vr_execution_id v) rollout = Inr ()" "\<And>ro. rollout = Some ro \<Longrightarrow> manifest_of ro \<noteq> None"
    and j: "try_map (serialize_event c) events = Inr jsons" and sc: "scoped_session no_faults i cl db = Inr s"
    and t: "uint recorded < 2 ^ 63" "uint (vr_evaluated_at v) < 2 ^ 63"
    and room: "db_event_seq db + int (length events) < 2 ^ 63" "next_attempt i (vr_execution_id v) db < 2 ^ 63"
  shows "append_execution_with_rollout c sha no_faults i cl events v rollout recorded db
    = (Inr (), with_execution i jsons v rollout recorded db)"
proof -
  let ?a = "next_attempt i (vr_execution_id v) db" and ?db1 = "with_events i (Some (uint recorded)) jsons db"
  obtain gs where gs: "evaluation_log db gs" using inv by (auto simp: session_inv_def)
  have fresh: "entry_key (?a, v) \<notin> entry_key ` set gs" using next_attempt_fresh [OF gs] vi by (simp add: entry_key_def)
  have g: "valid_entry (?a, v)" using v t(2) next_attempt_nonneg [OF gs] by (simp add: valid_entry_def)
  have log1: "evaluation_log ?db1 gs" using gs by (simp add: evaluation_log_def with_events_def)
  have rows: "evaluation_rows v i ?a (uint (vr_evaluated_at v)) = entry_rows (?a, v)" using vi by (simp add: entry_rows_def)
  have ins: "insert_evaluations no_faults k (entry_rows (?a, v)) ?db1
      = Inr (?db1\<lparr>db_evaluations := db_evaluations db @ entry_rows (?a, v)\<rparr>)" (is "_ = Inr ?db2") for k
    using insert_evaluations_no_conflict [of _ no_faults k ?db1] entry_rows_no_conflict [OF g log1 fresh] entry_rows_distinct [OF g]
    by (simp add: no_faults_def) (simp add: with_events_def)
  have "(case rollout of None \<Rightarrow> Inr ?db2 | Some ro \<Rightarrow> insert_rollout False i (vr_execution_id v) ?a (uint recorded) ro ?db2)
      = Inr (with_execution i jsons v rollout recorded db)"
  proof (cases rollout)
    case None
    then show ?thesis by (simp add: with_execution_def Let_def with_events_def)
  next
    case (Some ro)
    then obtain d where d: "manifest_of ro = Some d" using assms(7) by blast
    have shape: "length (ro_records ro) \<le> MAX_ROLLOUT_RECORDS" "ro_records ro \<noteq> []" "ro_projection_version ro \<noteq> 0"
      using ro(1) d Some
      by (auto simp: check_rollout_def verify_rollout_def verify_records_def manifest_of_def ROLLOUT_PROJECTION_VERSION_def split: if_splits)
    have "\<not> rollout_conflict r ?db2" if "r \<in> set (rollout_row_of i (vr_execution_id v) ?a ro recorded)" for r
      using rollout_row_no_conflict [OF gs fresh vi next_attempt_nonneg [OF gs] that shape(3,2)]
      by (simp add: rollout_conflict_def with_events_def)
    then show ?thesis
      using shape(1) Some by (auto simp: insert_rollout_def d rollout_row_of_def Let_def with_execution_def with_events_def row_insert_def
          MAX_ROLLOUT_RECORDS_def)
  qed
  moreover have "length jsons = length events" using j by (rule try_map_length)
  ultimately show ?thesis
    using ev ro(1) j sc t room vi ins insert_events_iff [OF session_invD(5) [OF inv], of no_faults 4 i "Some (uint recorded)" jsons]
    by (auto simp: append_execution_with_rollout_def Let_def rows no_faults_def)
qed


section \<open>Paging\<close>

text \<open>Following \<open>next_sequence\<close> page after page, as a client of \<open>session events\<close> does; \<open>None\<close> when the fuel runs out.\<close>

fun read_pages ::
  "'m session_codec \<Rightarrow> session_id \<Rightarrow> session_caller \<Rightarrow> u16 \<Rightarrow> session_db \<Rightarrow> nat \<Rightarrow> u64 option
     \<Rightarrow> (session_error, runtime_event list) outcome option" where
  "read_pages c i cl limit db 0 after = None"
| "read_pages c i cl limit db (Suc n) after =
     (case event_page c no_faults i cl after limit db of
        Inl e \<Rightarrow> Some (Inl e)
      | Inr page \<Rightarrow>
          (case pg_next_sequence page of
             None \<Rightarrow> Some (Inr (pg_events page))
           | Some k \<Rightarrow>
               map_option (\<lambda>r. and_then r (\<lambda>evs. Inr (pg_events page @ evs))) (read_pages c i cl limit db n (Some k))))"

definition rows_after :: "session_id \<Rightarrow> session_db \<Rightarrow> int \<Rightarrow> event_row list" where
  "rows_after i db a = filter (\<lambda>r. ew_session_id r = i \<and> ew_sequence r > a) (db_events db)"

lemma rows_after_sorted: "counters_ok db \<Longrightarrow> sorted_wrt (<) (map ew_sequence (rows_after i db a))"
  by (simp add: rows_after_def counters_ok_def sorted_wrt_map sorted_wrt_filter)

lemma filter_beyond:
  fixes f :: "'a \<Rightarrow> int"
  assumes "sorted_wrt (<) (map f xs)" "k < length xs"
  shows "filter (\<lambda>x. f x > f (xs ! k)) xs = drop (Suc k) xs"
proof -
  have less: "f (xs ! m) < f (xs ! n)" if "m < n" "n < length xs" for m n
    using assms(1) that by (simp add: sorted_wrt_map sorted_wrt_iff_nth_less)
  have "filter (\<lambda>x. f x > f (xs ! k)) (take (Suc k) xs) = []"
  proof (clarsimp simp: filter_empty_conv in_set_conv_nth)
    fix m assume "m < length xs" "m < Suc k" "f (xs ! k) < f (xs ! m)"
    then show False using less [of m k] assms(2) by (cases "m = k") auto
  qed
  moreover have "filter (\<lambda>x. f x > f (xs ! k)) (drop (Suc k) xs) = drop (Suc k) xs"
    using less by (auto simp: filter_id_conv in_set_conv_nth)
  ultimately show ?thesis by (metis append_Nil append_take_drop_id filter_append)
qed

lemma rows_after_next:
  assumes "counters_ok db" "k < length (rows_after i db a)"
  shows "rows_after i db (ew_sequence (rows_after i db a ! k)) = drop (Suc k) (rows_after i db a)"
proof -
  let ?b = "ew_sequence (rows_after i db a ! k)"
  have "rows_after i db a ! k \<in> set (rows_after i db a)" using assms(2) by (rule nth_mem)
  then have "a < ?b" by (simp add: rows_after_def)
  then have "rows_after i db ?b = filter (\<lambda>r. ew_sequence r > ?b) (rows_after i db a)"
    by (auto simp: rows_after_def intro!: filter_cong)
  then show ?thesis using filter_beyond [OF rows_after_sorted [OF assms(1)] assms(2)] by simp
qed

definition after_int :: "u64 option \<Rightarrow> int" where
  "after_int after = (case after of None \<Rightarrow> 0 | Some n \<Rightarrow> uint n)"

lemma event_page_inv:
  assumes inv: "session_inv c db" and sc: "scoped_session no_faults i cl db = Inr s" and lim: "limit \<noteq> 0"
    and af: "\<forall>n. after = Some n \<longrightarrow> uint n < 2 ^ 63"
  shows "event_page c no_faults i cl after limit db = Inr
    \<lparr>pg_events = map (fst \<circ> event_of_row c) (take (unat limit) (rows_after i db (after_int after))),
     pg_next_sequence =
       (if length (rows_after i db (after_int after)) > unat limit
        then Some (word_of_int (ew_sequence (rows_after i db (after_int after) ! (unat limit - 1)))) else None)\<rparr>"
proof -
  let ?rows = "rows_after i db (after_int after)" and ?d = "\<lambda>r. (word_of_int (ew_sequence r) :: u64, fst (event_of_row c r))"
  have valid: "valid_event_row c r" if "r \<in> set ?rows" for r
    using that session_invD(4) [OF inv] by (auto simp: rows_after_def list_all_iff)
  have dec: "try_map (decode_page_row c) (take (unat limit + 1) ?rows) = Inr (map ?d (take (unat limit + 1) ?rows))"
    by (rule try_map_ok_all) (auto intro!: decode_page_row_valid valid dest: in_set_takeD)
  have srt: "sort_key ew_sequence (filter (\<lambda>r. ew_session_id r = i \<and> ew_sequence r > b) (db_events db)) = rows_after i db b" for b
    using session_invD(2) [OF inv] by (simp add: rows_after_def sort_filter_id counters_ok_def)
  have af': "opt_try (\<lambda>n. ok_or (i64_of_u64 n) SessionCorruptRecord) after = Inr (map_option uint after)"
    using af by (cases after) (auto simp: i64_of_u64_def)
  have pos: "0 < unat limit" using lim by (simp add: unat_gt_0)
  have page: "event_page c no_faults i cl after limit db =
      (let events = map ?d (take (unat limit + 1) ?rows) in
       if length events > unat limit
       then let kept = butlast events in
         Inr \<lparr>pg_events = map snd kept, pg_next_sequence = (if kept = [] then None else Some (fst (last kept)))\<rparr>
       else Inr \<lparr>pg_events = map snd events, pg_next_sequence = None\<rparr>)"
  proof -
    have "(case map_option uint after of None \<Rightarrow> 0 | Some n \<Rightarrow> n) = after_int after" by (cases after) (auto simp: after_int_def)
    then show ?thesis unfolding event_page_def af' using lim sc dec srt by (simp add: no_faults_def Let_def)
  qed
  show ?thesis
  proof (cases "length ?rows > unat limit")
    case True
    have kept: "butlast (map ?d (take (unat limit + 1) ?rows)) = map ?d (take (unat limit) ?rows)"
      using True by (simp add: map_butlast [symmetric] butlast_take)
    have ne: "take (unat limit) ?rows \<noteq> []" using True pos by auto
    then have "last (take (unat limit) ?rows) = ?rows ! (unat limit - 1)"
      using True pos by (subst last_conv_nth) (simp_all add: min_def)
    with ne show ?thesis using True unfolding page Let_def kept by (simp add: last_map comp_def)
  qed (simp add: page comp_def)
qed

lemma read_pages_from:
  assumes inv: "session_inv c db" and sc: "scoped_session no_faults i cl db = Inr s" and lim: "limit \<noteq> 0"
  shows "length (rows_after i db (after_int after)) < n \<Longrightarrow> \<forall>k. after = Some k \<longrightarrow> uint k < 2 ^ 63 \<Longrightarrow>
    read_pages c i cl limit db n after
      = Some (Inr (map (fst \<circ> event_of_row c) (rows_after i db (after_int after))))"
proof (induction n arbitrary: after)
  case (Suc n)
  let ?rows = "rows_after i db (after_int after)"
  note page = event_page_inv [OF inv sc lim Suc.prems(2)]
  show ?case
  proof (cases "length ?rows > unat limit")
    case False
    then show ?thesis by (simp add: page)
  next
    case True
    let ?r = "?rows ! (unat limit - 1)"
    have pos: "0 < unat limit" using lim by (simp add: unat_gt_0)
    then have "?r \<in> set ?rows" using True by (intro nth_mem) simp
    then have "valid_event_row c ?r" using session_invD(4) [OF inv] by (auto simp: rows_after_def list_all_iff)
    then have seq: "uint (word_of_int (ew_sequence ?r) :: u64) = ew_sequence ?r" "ew_sequence ?r < 2 ^ 63"
      by (auto simp: valid_event_row_def uint_word_of_int)
    have "unat limit - 1 < length ?rows" using True by simp
    from rows_after_next [OF session_invD(2) [OF inv] this]
    have "rows_after i db (after_int (Some (word_of_int (ew_sequence ?r)))) = drop (unat limit) ?rows"
      using seq pos by (simp add: after_int_def)
    then have "read_pages c i cl limit db n (Some (word_of_int (ew_sequence ?r)))
        = Some (Inr (map (fst \<circ> event_of_row c) (drop (unat limit) ?rows)))"
      using Suc.IH [of "Some (word_of_int (ew_sequence ?r))"] Suc.prems(1) True pos seq by simp
    with True show ?thesis by (simp add: page flip: map_append)
  qed
qed simp

lemma read_pages_resume:
  assumes "session_inv c db" "resume_session c no_faults i cl db = Inr s" "limit \<noteq> 0" "length (db_events db) < n"
  shows "read_pages c i cl limit db n None = Some (Inr (ss_events s))"
proof -
  obtain x where sc: "scoped_session no_faults i cl db = Inr x" using assms(2) by (auto simp: resume_session_def)
  have "\<forall>r \<in> set (db_events db). 0 < ew_sequence r"
    using session_invD(4) [OF assms(1)] by (auto simp: list_all_iff valid_event_row_def)
  then have rows: "rows_after i db 0 = events_of i db"
    using session_invD(2) [OF assms(1)] by (auto simp: rows_after_def events_of_inv intro!: filter_cong)
  have "length (rows_after i db (after_int None)) < n"
    using assms(4) by (simp add: after_int_def rows_after_def le_less_trans [OF length_filter_le])
  from read_pages_from [OF assms(1) sc assms(3) this] show ?thesis
    using resume_events [OF assms(1,2)] rows by (simp add: after_int_def)
qed

end
