(* ===== verification/Memory_Record.thy ===== *)
theory Memory_Record
  imports Events
begin

text \<open>
  Governed memory records, \<open>pandora-types/src/memory.rs\<close> up to the procedures: tiers, kinds, scopes,
  consolidation policies and the constructors of a record, with the classification of
  \<open>pandora-types/src/context.rs\<close>. The sort and dedup that find duplicate evidence are \<open>distinct\<close>.
\<close>

section \<open>Vocabulary\<close>

type_synonym memory_id = string

datatype context_classification = PublicContext | InternalContext | SensitiveContext | SecretContext

fun classification_str :: "context_classification \<Rightarrow> string" where
  "classification_str PublicContext = ''public''"
| "classification_str InternalContext = ''internal''"
| "classification_str SensitiveContext = ''sensitive''"
| "classification_str SecretContext = ''secret''"

datatype memory_intent = RepoIntent | ProcedureIntent | CodingIntent | UserIntent

fun intent_str :: "memory_intent \<Rightarrow> string" where
  "intent_str RepoIntent = ''repo''"
| "intent_str ProcedureIntent = ''procedure''"
| "intent_str CodingIntent = ''coding''"
| "intent_str UserIntent = ''user''"

datatype memory_tier = L0 | L1 | L2 | L3 | L4

fun tier_str :: "memory_tier \<Rightarrow> string" where
  "tier_str L0 = ''l0''"
| "tier_str L1 = ''l1''"
| "tier_str L2 = ''l2''"
| "tier_str L3 = ''l3''"
| "tier_str L4 = ''l4''"

datatype memory_origin = Explicit | Synthesized

fun origin_str :: "memory_origin \<Rightarrow> string" where
  "origin_str Explicit = ''explicit''"
| "origin_str Synthesized = ''synthesized''"

datatype memory_kind =
  TraceKind
| ExecutionEvidence
| DecisionKind
| FailureKind
| BenchmarkKind
| LessonKind
| LineageKind
| PolicyDecisionKind
| ReplacementKind
| SopKind
| SessionArchiveKind

fun memory_kind_str :: "memory_kind \<Rightarrow> string" where
  "memory_kind_str TraceKind = ''trace''"
| "memory_kind_str ExecutionEvidence = ''execution_evidence''"
| "memory_kind_str DecisionKind = ''decision''"
| "memory_kind_str FailureKind = ''failure''"
| "memory_kind_str BenchmarkKind = ''benchmark''"
| "memory_kind_str LessonKind = ''lesson''"
| "memory_kind_str LineageKind = ''lineage''"
| "memory_kind_str PolicyDecisionKind = ''policy_decision''"
| "memory_kind_str ReplacementKind = ''replacement''"
| "memory_kind_str SopKind = ''sop''"
| "memory_kind_str SessionArchiveKind = ''session_archive''"

definition can_be_l1 :: "memory_kind \<Rightarrow> bool" where
  "can_be_l1 k \<longleftrightarrow> k \<notin> {TraceKind, SopKind, SessionArchiveKind}"

definition can_be_l2 :: "memory_kind \<Rightarrow> bool" where
  "can_be_l2 k \<longleftrightarrow> k \<in> {LessonKind, LineageKind, PolicyDecisionKind, ReplacementKind}"

definition can_be_l3 :: "memory_kind \<Rightarrow> bool" where "can_be_l3 k \<longleftrightarrow> k = SopKind"
definition can_be_l4 :: "memory_kind \<Rightarrow> bool" where "can_be_l4 k \<longleftrightarrow> k = SessionArchiveKind"

fun default_intent :: "memory_kind \<Rightarrow> memory_intent" where
  "default_intent TraceKind = ProcedureIntent"
| "default_intent ExecutionEvidence = CodingIntent"
| "default_intent DecisionKind = CodingIntent"
| "default_intent FailureKind = CodingIntent"
| "default_intent ReplacementKind = CodingIntent"
| "default_intent BenchmarkKind = ProcedureIntent"
| "default_intent LessonKind = ProcedureIntent"
| "default_intent SopKind = ProcedureIntent"
| "default_intent LineageKind = RepoIntent"
| "default_intent SessionArchiveKind = RepoIntent"
| "default_intent PolicyDecisionKind = UserIntent"

definition MAX_MEMORY_SYNTHESIS_EVIDENCE :: nat where "MAX_MEMORY_SYNTHESIS_EVIDENCE = 16"
definition MEMORY_CONSOLIDATION_POLICY_VERSION :: u32 where "MEMORY_CONSOLIDATION_POLICY_VERSION = 1"

datatype memory_contract_error =
  InvalidMemoryId id_error
| MemoryEmptyField string
| MemoryFieldTooLong string
| MemoryControlCharacter string
| SecretContent
| MissingEvidence
| TooManyEvidenceItems
| DuplicateEvidence
| SameConsolidationSession
| CrossTenantConsolidation
| CrossProviderConsolidation
| ConsolidationBoundaryMismatch
| InvalidTier memory_kind memory_tier
| DuplicateStep string
| UnknownStepDependency string
| SelfStepDependency string
| StepDependencyCycle
| InvalidCapsuleDigest

definition check_memory_text :: "string \<Rightarrow> string \<Rightarrow> (memory_contract_error, string) outcome" where
  "check_memory_text field value =
     (let trimmed = trim value in
      if trimmed = [] then Inl (MemoryEmptyField field)
      else if length value > 16384 then Inl (MemoryFieldTooLong field)
      else if has_control value then Inl (MemoryControlCharacter field)
      else Inr trimmed)"


section \<open>Scopes and consolidation\<close>

record memory_scope =
  ms_tenant_id :: tenant_id
  ms_workspace_id :: workspace_id
  ms_session_id :: session_id
  ms_provider :: string

definition new_memory_scope ::
  "tenant_id \<Rightarrow> workspace_id \<Rightarrow> session_id \<Rightarrow> string \<Rightarrow> (memory_contract_error, memory_scope) outcome" where
  "new_memory_scope tn ws sid provider =
     and_then (check_memory_text ''provider'' provider) (\<lambda>provider.
       Inr \<lparr>ms_tenant_id = tn, ms_workspace_id = ws, ms_session_id = sid, ms_provider = provider\<rparr>)"

datatype consolidation_boundary = CrossSession | CrossProject
datatype memory_conflict_rule = RejectConflict | KeepTarget

record consolidation_policy =
  co_policy_version :: u32
  co_boundary :: consolidation_boundary
  co_conflict_rule :: memory_conflict_rule
  co_source_scope :: memory_scope
  co_target_scope :: memory_scope

definition new_consolidation_policy ::
  "consolidation_boundary \<Rightarrow> memory_scope \<Rightarrow> memory_scope \<Rightarrow> memory_conflict_rule
     \<Rightarrow> (memory_contract_error, consolidation_policy) outcome" where
  "new_consolidation_policy boundary source target rule =
     (if ms_tenant_id source \<noteq> ms_tenant_id target then Inl CrossTenantConsolidation
      else if ms_provider source \<noteq> ms_provider target then Inl CrossProviderConsolidation
      else if ms_session_id source = ms_session_id target then Inl SameConsolidationSession
      else if (ms_workspace_id source \<noteq> ms_workspace_id target) \<noteq> (boundary = CrossProject)
      then Inl ConsolidationBoundaryMismatch
      else Inr \<lparr>co_policy_version = MEMORY_CONSOLIDATION_POLICY_VERSION, co_boundary = boundary,
                co_conflict_rule = rule, co_source_scope = source, co_target_scope = target\<rparr>)"

definition cross_session ::
  "memory_scope \<Rightarrow> memory_scope \<Rightarrow> memory_conflict_rule \<Rightarrow> (memory_contract_error, consolidation_policy) outcome" where
  "cross_session = new_consolidation_policy CrossSession"

definition cross_project ::
  "memory_scope \<Rightarrow> memory_scope \<Rightarrow> memory_conflict_rule \<Rightarrow> (memory_contract_error, consolidation_policy) outcome" where
  "cross_project = new_consolidation_policy CrossProject"


section \<open>Records\<close>

record memory_approval =
  ma_approval_id :: string
  ma_approver :: string

definition new_memory_approval :: "string \<Rightarrow> string \<Rightarrow> (memory_contract_error, memory_approval) outcome" where
  "new_memory_approval i who =
     and_then (check_memory_text ''approval ID'' i) (\<lambda>i.
     and_then (check_memory_text ''approver'' who) (\<lambda>who. Inr \<lparr>ma_approval_id = i, ma_approver = who\<rparr>))"

record memory_record =
  mm_id :: memory_id
  mm_tier :: memory_tier
  mm_kind :: memory_kind
  mm_intent :: "memory_intent option"
  mm_scope :: memory_scope
  mm_summary :: string
  mm_classification :: context_classification
  mm_created_at :: timestamp
  mm_expires_at :: "timestamp option"
  mm_provenance :: string
  mm_approval :: "memory_approval option"
  mm_origin :: memory_origin
  mm_evidence_ids :: "memory_id list"

definition check_summary :: "string \<Rightarrow> context_classification \<Rightarrow> (memory_contract_error, string) outcome" where
  "check_summary summary classification =
     (if classification = SecretContext then Inl SecretContent else check_memory_text ''summary'' summary)"

definition tier_mismatch :: "memory_tier \<Rightarrow> memory_kind \<Rightarrow> bool" where
  "tier_mismatch tier kind \<longleftrightarrow>
     tier = L0 \<and> kind \<noteq> TraceKind \<or> tier = L1 \<and> \<not> can_be_l1 kind \<or> tier = L2 \<and> \<not> can_be_l2 kind
   \<or> tier = L3 \<and> \<not> can_be_l3 kind \<or> tier = L4 \<and> \<not> can_be_l4 kind"

definition new_with_origin ::
  "string \<Rightarrow> memory_tier \<Rightarrow> memory_kind \<Rightarrow> memory_scope \<Rightarrow> string \<Rightarrow> context_classification \<Rightarrow> timestamp
     \<Rightarrow> timestamp option \<Rightarrow> string \<Rightarrow> memory_approval option \<Rightarrow> memory_origin \<Rightarrow> memory_id list
     \<Rightarrow> (memory_contract_error, memory_record) outcome" where
  "new_with_origin i tier kind scope summary classification created expires provenance approval origin evidence =
     and_then (map_err InvalidMemoryId (new_id i)) (\<lambda>i.
     and_then (check_summary summary classification) (\<lambda>summary.
     and_then (check_memory_text ''provenance'' provenance) (\<lambda>provenance.
     if tier_mismatch tier kind then Inl (InvalidTier kind tier)
     else if length evidence > MAX_MEMORY_SYNTHESIS_EVIDENCE then Inl TooManyEvidenceItems
     else if \<not> distinct evidence then Inl DuplicateEvidence
     else if origin = Synthesized \<and> evidence = [] then Inl MissingEvidence
     else if origin = Explicit \<and> evidence \<noteq> [] then Inl (InvalidTier kind tier)
     else Inr \<lparr>mm_id = i, mm_tier = tier, mm_kind = kind, mm_intent = None, mm_scope = scope, mm_summary = summary,
               mm_classification = classification, mm_created_at = created, mm_expires_at = expires,
               mm_provenance = provenance, mm_approval = approval, mm_origin = origin, mm_evidence_ids = evidence\<rparr>)))"

definition new_memory ::
  "string \<Rightarrow> memory_tier \<Rightarrow> memory_kind \<Rightarrow> memory_scope \<Rightarrow> string \<Rightarrow> context_classification \<Rightarrow> timestamp
     \<Rightarrow> timestamp option \<Rightarrow> string \<Rightarrow> memory_approval option \<Rightarrow> (memory_contract_error, memory_record) outcome" where
  "new_memory i tier kind scope summary classification created expires provenance approval =
     new_with_origin i tier kind scope summary classification created expires provenance approval Explicit []"

definition new_l0 ::
  "string \<Rightarrow> memory_scope \<Rightarrow> string \<Rightarrow> context_classification \<Rightarrow> timestamp \<Rightarrow> timestamp option \<Rightarrow> string
     \<Rightarrow> (memory_contract_error, memory_record) outcome" where
  "new_l0 i scope summary classification created expires provenance =
     new_memory i L0 TraceKind scope summary classification created expires provenance None"

definition new_l1 ::
  "string \<Rightarrow> memory_kind \<Rightarrow> memory_scope \<Rightarrow> string \<Rightarrow> context_classification \<Rightarrow> timestamp \<Rightarrow> string
     \<Rightarrow> (memory_contract_error, memory_record) outcome" where
  "new_l1 i kind scope summary classification created provenance =
     new_memory i L1 kind scope summary classification created None provenance None"

definition new_l1_with_origin ::
  "string \<Rightarrow> memory_kind \<Rightarrow> memory_scope \<Rightarrow> string \<Rightarrow> context_classification \<Rightarrow> timestamp \<Rightarrow> string
     \<Rightarrow> memory_origin \<Rightarrow> memory_id list \<Rightarrow> (memory_contract_error, memory_record) outcome" where
  "new_l1_with_origin i kind scope summary classification created provenance origin evidence =
     new_with_origin i L1 kind scope summary classification created None provenance None origin evidence"

definition new_synthesized_l1 ::
  "string \<Rightarrow> memory_kind \<Rightarrow> memory_scope \<Rightarrow> string \<Rightarrow> context_classification \<Rightarrow> timestamp \<Rightarrow> string
     \<Rightarrow> memory_id list \<Rightarrow> (memory_contract_error, memory_record) outcome" where
  "new_synthesized_l1 i kind scope summary classification created provenance evidence =
     new_with_origin i L1 kind scope summary classification created None provenance None Synthesized evidence"

definition promote_l2 ::
  "memory_record \<Rightarrow> memory_approval \<Rightarrow> timestamp \<Rightarrow> (memory_contract_error, memory_record) outcome" where
  "promote_l2 candidate approval promoted =
     (if mm_tier candidate \<noteq> L1 \<or> \<not> can_be_l2 (mm_kind candidate) then Inl (InvalidTier (mm_kind candidate) L2)
      else Inr (candidate\<lparr>mm_tier := L2, mm_created_at := promoted, mm_expires_at := None, mm_approval := Some approval\<rparr>))"

definition new_l3_sop ::
  "string \<Rightarrow> memory_scope \<Rightarrow> string \<Rightarrow> context_classification \<Rightarrow> timestamp \<Rightarrow> string
     \<Rightarrow> (memory_contract_error, memory_record) outcome" where
  "new_l3_sop i scope summary classification created provenance =
     new_memory i L3 SopKind scope summary classification created None provenance None"

definition new_l4_archive ::
  "string \<Rightarrow> memory_scope \<Rightarrow> string \<Rightarrow> context_classification \<Rightarrow> timestamp \<Rightarrow> string
     \<Rightarrow> (memory_contract_error, memory_record) outcome" where
  "new_l4_archive i scope summary classification created provenance =
     new_memory i L4 SessionArchiveKind scope summary classification created None provenance None"

definition intent_of :: "memory_record \<Rightarrow> memory_intent" where
  "intent_of r = (case mm_intent r of Some i \<Rightarrow> i | None \<Rightarrow> default_intent (mm_kind r))"

definition with_intent :: "memory_intent \<Rightarrow> memory_record \<Rightarrow> memory_record" where
  "with_intent i r = r\<lparr>mm_intent := Some i\<rparr>"

datatype memory_audit_action = AddedMemory | PromotedMemory | RevokedMemory

record memory_audit_entry =
  me_memory_id :: memory_id
  me_tier :: memory_tier
  me_action :: memory_audit_action
  me_scope :: memory_scope
  me_at :: timestamp
  me_approval_id :: "string option"


section \<open>Valid records\<close>

definition memory_text :: "string \<Rightarrow> bool" where
  "memory_text s \<longleftrightarrow> trim s = s \<and> s \<noteq> [] \<and> length s \<le> 16384 \<and> \<not> has_control s"

lemma check_memory_text_valid: "memory_text s \<Longrightarrow> check_memory_text field s = Inr s"
  by (simp add: memory_text_def check_memory_text_def)

lemma check_memory_text_Inr: "check_memory_text field s = Inr t \<Longrightarrow> memory_text t \<and> t = trim s"
  using length_trim [of s] by (auto simp: memory_text_def check_memory_text_def Let_def split: if_splits)

text \<open>What the constructors and \<open>promote_l2\<close> guarantee of a record.\<close>

definition valid_memory :: "memory_record \<Rightarrow> bool" where
  "valid_memory r \<longleftrightarrow>
     valid_id (mm_id r) \<and> mm_classification r \<noteq> SecretContext \<and> memory_text (mm_summary r) \<and> memory_text (mm_provenance r)
   \<and> \<not> tier_mismatch (mm_tier r) (mm_kind r)
   \<and> length (mm_evidence_ids r) \<le> MAX_MEMORY_SYNTHESIS_EVIDENCE \<and> distinct (mm_evidence_ids r)
   \<and> (mm_origin r = Synthesized \<longleftrightarrow> mm_evidence_ids r \<noteq> [])
   \<and> (mm_tier r \<in> {L3, L4} \<longrightarrow> mm_origin r = Explicit)
   \<and> (mm_tier r = L2 \<longleftrightarrow> mm_approval r \<noteq> None) \<and> (mm_tier r \<noteq> L0 \<longrightarrow> mm_expires_at r = None)
   \<and> (\<forall>a. mm_approval r = Some a \<longrightarrow> memory_text (ma_approval_id a) \<and> memory_text (ma_approver a))"

lemma new_with_origin_Inr:
  "new_with_origin i tier kind scope summary classification created expires provenance approval origin evidence = Inr r \<longleftrightarrow>
     valid_id i \<and> classification \<noteq> SecretContext
   \<and> check_memory_text ''summary'' summary = Inr (mm_summary r)
   \<and> check_memory_text ''provenance'' provenance = Inr (mm_provenance r)
   \<and> \<not> tier_mismatch tier kind \<and> length evidence \<le> MAX_MEMORY_SYNTHESIS_EVIDENCE \<and> distinct evidence
   \<and> (origin = Synthesized \<longleftrightarrow> evidence \<noteq> [])
   \<and> r = \<lparr>mm_id = i, mm_tier = tier, mm_kind = kind, mm_intent = None, mm_scope = scope, mm_summary = mm_summary r,
          mm_classification = classification, mm_created_at = created, mm_expires_at = expires,
          mm_provenance = mm_provenance r, mm_approval = approval, mm_origin = origin, mm_evidence_ids = evidence\<rparr>"
  by (cases origin) (auto simp: new_with_origin_def check_summary_def)

lemma new_l1_with_origin_valid:
  "new_l1_with_origin i kind scope summary classification created provenance origin evidence = Inr r \<Longrightarrow> valid_memory r"
  unfolding new_l1_with_origin_def new_with_origin_Inr
  by (cases r) (auto simp: valid_memory_def dest: check_memory_text_Inr)

lemma new_l3_l4_valid:
  "new_l3_sop i scope summary classification created provenance = Inr r \<Longrightarrow> valid_memory r"
  "new_l4_archive i scope summary classification created provenance = Inr r \<Longrightarrow> valid_memory r"
  unfolding new_l3_sop_def new_l4_archive_def new_memory_def new_with_origin_Inr
  by (cases r; auto simp: valid_memory_def dest: check_memory_text_Inr)+

lemma promote_l2_valid:
  assumes "valid_memory candidate" "new_memory_approval i who = Inr approval" "promote_l2 candidate approval promoted = Inr r"
  shows "valid_memory r"
  using assms
  by (auto simp: promote_l2_def valid_memory_def tier_mismatch_def new_memory_approval_def dest!: check_memory_text_Inr split: if_splits)

lemma with_intent_valid [simp]: "valid_memory (with_intent i r) \<longleftrightarrow> valid_memory r"
  by (simp add: valid_memory_def with_intent_def)

end
