(* ===== verification/Memory_Store.thy ===== *)
theory Memory_Store
  imports Session_Store Memory_Record
begin

text \<open>
  The durable memory of \<open>pandora-runtime/src/sessions.rs\<close>: recording, promoting, recalling, revoking and
  compacting memory records in the session database, and the lessons drawn from failed evaluations. SHA-256
  and the JSON form of a list of identifiers are parameters. A query that reports an error is the fault of
  its index, as in \<open>Session_Store\<close>.
\<close>

section \<open>Text helpers of the standard library\<close>

fun split_once :: "string \<Rightarrow> string \<Rightarrow> (string \<times> string) option" where
  "split_once p [] = (if p = [] then Some ([], []) else None)"
| "split_once p (c # cs) =
     (if starts_with (c # cs) p then Some ([], drop (length p) (c # cs))
      else map_option (\<lambda>(a, b). (c # a, b)) (split_once p cs))"

definition rsplit_once_char :: "char \<Rightarrow> string \<Rightarrow> (string \<times> string) option" where
  "rsplit_once_char c s = map_option (\<lambda>(a, b). (rev b, rev a)) (split_once [c] (rev s))"

definition strip_prefix :: "string \<Rightarrow> string \<Rightarrow> string option" where
  "strip_prefix p s = (if starts_with s p then Some (drop (length p) s) else None)"

definition strip_suffix :: "string \<Rightarrow> string \<Rightarrow> string option" where
  "strip_suffix p s = map_option rev (strip_prefix (rev p) (rev s))"

lemma split_once_shorter: "split_once p s = Some (a, b) \<Longrightarrow> p \<noteq> [] \<Longrightarrow> length b < length s"
proof (induction p s arbitrary: a b rule: split_once.induct)
  case (2 p c cs)
  then show ?case by (cases "starts_with (c # cs) p") (fastforce split: if_splits)+
qed (simp split: if_splits)

function split_on :: "string \<Rightarrow> string \<Rightarrow> string list" where
  "split_on p s =
     (if p = [] then [s]
      else case split_once p s of None \<Rightarrow> [s] | Some (a, b) \<Rightarrow> a # split_on p b)"
  by pat_completeness auto

termination
  by (relation "measure (\<lambda>(p, s). length s)") (auto dest: split_once_shorter)

declare split_on.simps [simp del]


section \<open>Rows\<close>

record memory_codec =
  yc_write_ids :: "memory_id list \<Rightarrow> string option"
  yc_read_ids :: "string \<Rightarrow> memory_id list option"

definition MAX_L1_EVIDENCE_PER_SCOPE :: nat where "MAX_L1_EVIDENCE_PER_SCOPE = 64"
definition MAX_L1_EVIDENCE_CONTEXT_RECORDS :: nat where "MAX_L1_EVIDENCE_CONTEXT_RECORDS = 8"
definition MAX_MEMORY_RECORDS_PER_SCOPE_AND_TIER :: nat where "MAX_MEMORY_RECORDS_PER_SCOPE_AND_TIER = 256"
definition MAX_MEMORY_RECALL_RECORDS :: u16 where "MAX_MEMORY_RECALL_RECORDS = 256"
definition MAX_MEMORY_IDENTITIES_PER_SCOPE :: nat where "MAX_MEMORY_IDENTITIES_PER_SCOPE = 4096"

definition parse_memory_tier :: "string \<Rightarrow> (session_error, memory_tier) outcome" where
  "parse_memory_tier v =
     (if v = ''l0'' then Inr L0 else if v = ''l1'' then Inr L1 else if v = ''l2'' then Inr L2
      else if v = ''l3'' then Inr L3 else if v = ''l4'' then Inr L4 else Inl SessionCorruptRecord)"

definition parse_memory_origin :: "string \<Rightarrow> (session_error, memory_origin) outcome" where
  "parse_memory_origin v =
     (if v = ''explicit'' then Inr Explicit else if v = ''synthesized'' then Inr Synthesized
      else Inl SessionCorruptRecord)"

definition parse_memory_kind :: "string \<Rightarrow> (session_error, memory_kind) outcome" where
  "parse_memory_kind v =
     (if v = ''trace'' then Inr TraceKind
      else if v = ''execution_evidence'' then Inr ExecutionEvidence
      else if v = ''decision'' then Inr DecisionKind
      else if v = ''failure'' then Inr FailureKind
      else if v = ''benchmark'' then Inr BenchmarkKind
      else if v = ''lesson'' then Inr LessonKind
      else if v = ''lineage'' then Inr LineageKind
      else if v = ''policy_decision'' then Inr PolicyDecisionKind
      else if v = ''replacement'' then Inr ReplacementKind
      else if v = ''sop'' then Inr SopKind
      else if v = ''session_archive'' then Inr SessionArchiveKind
      else Inl SessionCorruptRecord)"

definition parse_memory_intent :: "string \<Rightarrow> (session_error, memory_intent) outcome" where
  "parse_memory_intent v =
     (if v = ''repo'' then Inr RepoIntent else if v = ''procedure'' then Inr ProcedureIntent
      else if v = ''coding'' then Inr CodingIntent else if v = ''user'' then Inr UserIntent
      else Inl SessionCorruptRecord)"

definition parse_context_classification :: "string \<Rightarrow> (session_error, context_classification) outcome" where
  "parse_context_classification v =
     (if v = ''public'' then Inr PublicContext else if v = ''internal'' then Inr InternalContext
      else if v = ''sensitive'' then Inr SensitiveContext else Inl SessionCorruptRecord)"

fun memory_audit_action_name :: "memory_audit_action \<Rightarrow> string" where
  "memory_audit_action_name AddedMemory = ''added''"
| "memory_audit_action_name PromotedMemory = ''promoted''"
| "memory_audit_action_name RevokedMemory = ''revoked''"

definition parse_memory_audit_action :: "string \<Rightarrow> (session_error, memory_audit_action) outcome" where
  "parse_memory_audit_action v =
     (if v = ''added'' then Inr AddedMemory else if v = ''promoted'' then Inr PromotedMemory
      else if v = ''revoked'' then Inr RevokedMemory else Inl SessionCorruptRecord)"

definition memory_row_of :: "memory_record \<Rightarrow> int \<Rightarrow> string \<Rightarrow> memory_row" where
  "memory_row_of r created ids =
     \<lparr>yw_session_id = ms_session_id (mm_scope r), yw_provider = ms_provider (mm_scope r), yw_memory_id = mm_id r,
      yw_tier = tier_str (mm_tier r), yw_kind = memory_kind_str (mm_kind r),
      yw_classification = classification_str (mm_classification r), yw_summary = mm_summary r, yw_created_at = created,
      yw_provenance = mm_provenance r, yw_approval_id = map_option ma_approval_id (mm_approval r),
      yw_approver = map_option ma_approver (mm_approval r), yw_origin = origin_str (mm_origin r), yw_evidence_ids = ids,
      yw_intent = intent_str (intent_of r)\<rparr>"

definition memory_key :: "memory_row \<Rightarrow> string \<times> string \<times> string \<times> string" where
  "memory_key r = (yw_session_id r, yw_provider r, yw_memory_id r, yw_tier r)"

text \<open>The primary key and the checks of \<open>memory_records\<close>.\<close>

definition memory_conflict :: "memory_row \<Rightarrow> session_db \<Rightarrow> bool" where
  "memory_conflict r db \<longleftrightarrow>
     memory_key r \<in> memory_key ` set (db_memory db) \<or> yw_created_at r < 0
   \<or> yw_classification r \<notin> {''public'', ''internal'', ''sensitive''}
   \<or> \<not> (if yw_tier r = ''l2'' then yw_approval_id r \<noteq> None \<and> yw_approver r \<noteq> None
         else yw_approval_id r = None \<and> yw_approver r = None)"

definition insert_memory_record ::
  "memory_codec \<Rightarrow> bool \<Rightarrow> memory_record \<Rightarrow> session_db \<Rightarrow> (session_error, session_db) outcome" where
  "insert_memory_record y fault r db =
     and_then (timestamp_i64 (mm_created_at r)) (\<lambda>created.
     and_then (ok_or (yc_write_ids y (mm_evidence_ids r)) SessionSerialization) (\<lambda>ids.
     let row = memory_row_of r created ids in
     if fault then Inl SessionDatabase
     else if memory_conflict row db then Inl MemoryAlreadyExists
     else Inr (db\<lparr>db_memory := row_insert row (db_memory db)\<rparr>)))"

definition insert_memory_audit ::
  "bool \<Rightarrow> memory_record \<Rightarrow> memory_audit_action \<Rightarrow> timestamp \<Rightarrow> string option \<Rightarrow> session_db
     \<Rightarrow> (session_error, session_db) outcome" where
  "insert_memory_audit fault r action recorded approval db =
     and_then (timestamp_i64 recorded) (\<lambda>recorded.
     if fault \<or> db_audit_seq db \<ge> MAX_ROWID then Inl SessionDatabase
     else
       let n = db_audit_seq db + 1 in
       Inr (db\<lparr>db_audit := row_insert
                 \<lparr>aw_sequence = n, aw_session_id = ms_session_id (mm_scope r), aw_provider = ms_provider (mm_scope r),
                  aw_memory_id = mm_id r, aw_tier = tier_str (mm_tier r), aw_action = memory_audit_action_name action,
                  aw_recorded_at = recorded, aw_approval_id = approval\<rparr> (db_audit db),
              db_audit_seq := n\<rparr>))"

definition is_memory_revoked :: "memory_scope \<Rightarrow> memory_id \<Rightarrow> session_db \<Rightarrow> bool" where
  "is_memory_revoked sc i db \<longleftrightarrow>
     list_ex (\<lambda>k. kw_session_id k = ms_session_id sc \<and> kw_provider k = ms_provider sc \<and> kw_memory_id k = i)
       (db_revocations db)"

definition in_memory_scope :: "memory_scope \<Rightarrow> memory_row \<Rightarrow> bool" where
  "in_memory_scope sc r \<longleftrightarrow> yw_session_id r = ms_session_id sc \<and> yw_provider r = ms_provider sc"

definition decode_memory_record :: "memory_codec \<Rightarrow> memory_scope \<Rightarrow> memory_row \<Rightarrow> (session_error, memory_record) outcome" where
  "decode_memory_record y sc r =
     and_then (parse_memory_tier (yw_tier r)) (\<lambda>tier.
     and_then (parse_memory_kind (yw_kind r)) (\<lambda>kind.
     and_then (parse_context_classification (yw_classification r)) (\<lambda>cl.
     and_then (session_timestamp (yw_created_at r)) (\<lambda>created.
     and_then (parse_memory_origin (yw_origin r)) (\<lambda>origin.
     and_then (ok_or (yc_read_ids y (yw_evidence_ids r)) SessionCorruptRecord) (\<lambda>ids.
     and_then
       (case tier of
          L0 \<Rightarrow> Inl SessionCorruptRecord
        | L1 \<Rightarrow>
            if yw_approval_id r \<noteq> None \<or> yw_approver r \<noteq> None then Inl SessionCorruptRecord
            else corrupt (new_l1_with_origin (yw_memory_id r) kind sc (yw_summary r) cl created (yw_provenance r) origin ids)
        | L2 \<Rightarrow>
            and_then (ok_or (yw_approval_id r) SessionCorruptRecord) (\<lambda>approval_id.
            and_then (ok_or (yw_approver r) SessionCorruptRecord) (\<lambda>approver.
            and_then (corrupt (new_memory_approval approval_id approver)) (\<lambda>approval.
            and_then (corrupt (new_l1_with_origin (yw_memory_id r) kind sc (yw_summary r) cl created (yw_provenance r) origin ids))
              (\<lambda>candidate. corrupt (promote_l2 candidate approval created)))))
        | L3 \<Rightarrow>
            if yw_approval_id r \<noteq> None \<or> yw_approver r \<noteq> None then Inl SessionCorruptRecord
            else corrupt (new_l3_sop (yw_memory_id r) sc (yw_summary r) cl created (yw_provenance r))
        | L4 \<Rightarrow>
            if yw_approval_id r \<noteq> None \<or> yw_approver r \<noteq> None then Inl SessionCorruptRecord
            else corrupt (new_l4_archive (yw_memory_id r) sc (yw_summary r) cl created (yw_provenance r))) (\<lambda>record.
     and_then (parse_memory_intent (yw_intent r)) (\<lambda>intent. Inr (with_intent intent record)))))))))"

definition load_memory_record ::
  "memory_codec \<Rightarrow> bool \<Rightarrow> memory_scope \<Rightarrow> memory_id \<Rightarrow> memory_tier \<Rightarrow> session_db
     \<Rightarrow> (session_error, memory_record option) outcome" where
  "load_memory_record y fault sc i tier db =
     (if fault then Inl SessionDatabase
      else opt_try (decode_memory_record y sc)
             (find (\<lambda>r. in_memory_scope sc r \<and> yw_memory_id r = i \<and> yw_tier r = tier_str tier) (db_memory db)))"

text \<open>\<open>ORDER BY created_at DESC, memory_id DESC LIMIT n\<close> over the rows that are not revoked.\<close>

definition recall_rows :: "memory_scope \<Rightarrow> memory_tier \<Rightarrow> (memory_row \<Rightarrow> bool) \<Rightarrow> nat \<Rightarrow> session_db \<Rightarrow> memory_row list" where
  "recall_rows sc tier cond n db =
     take n (rev (sort_key (\<lambda>r. (yw_created_at r, yw_memory_id r))
       (filter (\<lambda>r. in_memory_scope sc r \<and> yw_tier r = tier_str tier \<and> cond r \<and> \<not> revoked_row db r) (db_memory db))))"

definition load_memory_records ::
  "memory_codec \<Rightarrow> memory_scope \<Rightarrow> memory_tier \<Rightarrow> u16 \<Rightarrow> session_db \<Rightarrow> (session_error, memory_record list) outcome" where
  "load_memory_records y sc tier limit db =
     try_map (decode_memory_record y sc) (recall_rows sc tier (\<lambda>_. True) (unat limit) db)"

definition load_memory_records_by_intent ::
  "memory_codec \<Rightarrow> memory_scope \<Rightarrow> memory_tier \<Rightarrow> memory_intent \<Rightarrow> u16 \<Rightarrow> session_db
     \<Rightarrow> (session_error, memory_record list) outcome" where
  "load_memory_records_by_intent y sc tier intent limit db =
     try_map (decode_memory_record y sc)
       (recall_rows sc tier (\<lambda>r. yw_intent r = intent_str intent) (unat limit) db)"

definition load_memory_records_by_id ::
  "memory_codec \<Rightarrow> memory_scope \<Rightarrow> memory_id \<Rightarrow> session_db \<Rightarrow> (session_error, memory_record list) outcome" where
  "load_memory_records_by_id y sc i db =
     try_map (decode_memory_record y sc)
       (sort_key yw_tier (filter (\<lambda>r. in_memory_scope sc r \<and> yw_memory_id r = i) (db_memory db)))"

definition decode_audit_row :: "memory_scope \<Rightarrow> audit_row \<Rightarrow> (session_error, memory_audit_entry) outcome" where
  "decode_audit_row sc r =
     and_then (corrupt (new_id (aw_memory_id r))) (\<lambda>i.
     and_then (parse_memory_tier (aw_tier r)) (\<lambda>tier.
     and_then (parse_memory_audit_action (aw_action r)) (\<lambda>action.
     and_then (session_timestamp (aw_recorded_at r)) (\<lambda>t.
       Inr \<lparr>me_memory_id = i, me_tier = tier, me_action = action, me_scope = sc, me_at = t,
            me_approval_id = aw_approval_id r\<rparr>))))"

definition load_memory_audit :: "memory_scope \<Rightarrow> session_db \<Rightarrow> (session_error, memory_audit_entry list) outcome" where
  "load_memory_audit sc db =
     try_map (decode_audit_row sc)
       (sort_key aw_sequence
          (filter (\<lambda>r. aw_session_id r = ms_session_id sc \<and> aw_provider r = ms_provider sc) (db_audit db)))"

section \<open>Operations\<close>

definition scope_caller :: "principal_id \<Rightarrow> memory_scope \<Rightarrow> session_caller" where
  "scope_caller p sc = \<lparr>cl_principal_id = p, cl_tenant_id = ms_tenant_id sc, cl_workspace_id = ms_workspace_id sc\<rparr>"

definition memory_session ::
  "faults \<Rightarrow> principal_id \<Rightarrow> memory_scope \<Rightarrow> session_db \<Rightarrow> (session_error, session) outcome" where
  "memory_session f p sc db = scoped_session f (ms_session_id sc) (scope_caller p sc) db"

abbreviation db_ok :: "bool \<Rightarrow> (session_error, unit) outcome" where
  "db_ok fault \<equiv> ensure (\<not> fault) SessionDatabase"

definition identity_count :: "memory_scope \<Rightarrow> session_db \<Rightarrow> nat" where
  "identity_count sc db =
     card (set (map yw_memory_id (filter (in_memory_scope sc) (db_memory db))
                @ map kw_memory_id (filter (\<lambda>k. kw_session_id k = ms_session_id sc \<and> kw_provider k = ms_provider sc)
                                      (db_revocations db))))"

definition tier_count :: "memory_scope \<Rightarrow> memory_tier \<Rightarrow> session_db \<Rightarrow> nat" where
  "tier_count sc tier db = length (filter (\<lambda>r. in_memory_scope sc r \<and> yw_tier r = tier_str tier) (db_memory db))"

definition l1_kind_count :: "memory_scope \<Rightarrow> memory_kind \<Rightarrow> session_db \<Rightarrow> nat" where
  "l1_kind_count sc kind db =
     length (filter (\<lambda>r. in_memory_scope sc r \<and> yw_tier r = ''l1'' \<and> yw_kind r = memory_kind_str kind) (db_memory db))"

definition already_exists :: "memory_kind option \<Rightarrow> session_error \<Rightarrow> session_error" where
  "already_exists kind e = (if e = MemoryAlreadyExists \<and> kind \<noteq> None then L1EvidenceAlreadyExists else e)"

definition record_memory_with_limit ::
  "memory_codec \<Rightarrow> faults \<Rightarrow> principal_id \<Rightarrow> memory_record \<Rightarrow> nat \<Rightarrow> memory_kind option \<Rightarrow> session_db
     \<Rightarrow> (session_error, unit) outcome \<times> session_db" where
  "record_memory_with_limit y f p r limit kind db =
     (let sc = mm_scope r in
      transact db
        (and_then (memory_session f p sc db) (\<lambda>_.
         and_then (db_ok (f 2)) (\<lambda>_.
         and_then (db_ok (f 3)) (\<lambda>_.
         and_then (ensure (\<not> is_memory_revoked sc (mm_id r) db) MemoryRevoked) (\<lambda>_.
         and_then (db_ok (f 4)) (\<lambda>_.
         and_then
           (if list_ex (\<lambda>x. in_memory_scope sc x \<and> yw_memory_id x = mm_id r) (db_memory db) then Inr ()
            else and_then (db_ok (f 5)) (\<lambda>_.
                 ensure (identity_count sc db < MAX_MEMORY_IDENTITIES_PER_SCOPE) MemoryCapacityExceeded)) (\<lambda>_.
         and_then (db_ok (f 6)) (\<lambda>_.
         and_then (ensure (tier_count sc (mm_tier r) db < MAX_MEMORY_RECORDS_PER_SCOPE_AND_TIER) MemoryCapacityExceeded) (\<lambda>_.
         and_then
           (case kind of
              None \<Rightarrow> Inr ()
            | Some k \<Rightarrow> and_then (db_ok (f 7)) (\<lambda>_. ensure (l1_kind_count sc k db < limit) L1EvidenceCapacityExceeded)) (\<lambda>_.
         and_then (map_err (already_exists kind) (insert_memory_record y (f 8) r db)) (\<lambda>db.
         and_then (insert_memory_audit (f 9) r AddedMemory (mm_created_at r) None db) (\<lambda>db.
         and_then (db_ok (f 10)) (\<lambda>_. Inr db))))))))))))))"

definition is_canonical_l1_execution_evidence :: "memory_record \<Rightarrow> bool" where
  "is_canonical_l1_execution_evidence r =
     (case split_once '' execution through '' (mm_summary r) of
        None \<Rightarrow> False
      | Some (status, target) \<Rightarrow>
          (case rsplit_once_char (CHR ''/'') target of
             None \<Rightarrow> False
           | Some (harness, gene) \<Rightarrow>
               status \<in> {''completed'', ''denied'', ''approval_required'', ''failed''} \<and> harness \<noteq> [] \<and> gene \<noteq> []
             \<and> mm_provenance r = ''execution:'' @ mm_id r))"

definition record_l1_evidence ::
  "memory_codec \<Rightarrow> faults \<Rightarrow> principal_id \<Rightarrow> memory_record \<Rightarrow> session_db \<Rightarrow> (session_error, unit) outcome \<times> session_db" where
  "record_l1_evidence y f p r db =
     (if mm_tier r \<noteq> L1 \<or> mm_kind r \<noteq> ExecutionEvidence \<or> mm_classification r \<noteq> InternalContext
         \<or> \<not> is_canonical_l1_execution_evidence r
      then (Inl InvalidL1Evidence, db)
      else record_memory_with_limit y f p r MAX_L1_EVIDENCE_PER_SCOPE (Some ExecutionEvidence) db)"

definition record_memory ::
  "memory_codec \<Rightarrow> faults \<Rightarrow> principal_id \<Rightarrow> memory_record \<Rightarrow> session_db \<Rightarrow> (session_error, unit) outcome \<times> session_db" where
  "record_memory y f p r db =
     (if mm_tier r \<notin> {L1, L3, L4} \<or> mm_classification r = SecretContext then (Inl InvalidMemory, db)
      else record_memory_with_limit y f p r MAX_MEMORY_RECORDS_PER_SCOPE_AND_TIER None db)"

definition evaluation_feedback_id :: "(string \<Rightarrow> string) \<Rightarrow> execution_id \<Rightarrow> string" where
  "evaluation_feedback_id sha eid = ''evaluation-lesson:'' @ hex_encode (sha eid)"

definition EVALUATION_FEEDBACK_PREFIX :: string where "EVALUATION_FEEDBACK_PREFIX = ''failed evaluations: ''"
definition EVALUATION_FEEDBACK_SUFFIX :: string where
  "EVALUATION_FEEDBACK_SUFFIX = ''; retry requires fresh verification''"

definition failed_kinds :: "evaluation_receipt \<Rightarrow> string list" where
  "failed_kinds v =
     map (\<lambda>x. evaluation_kind_str (er_kind x))
       (filter (\<lambda>x. \<not> er_advisory x \<and> er_status x = EvalFailed) (vr_results v))"

definition record_evaluation_feedback ::
  "memory_codec \<Rightarrow> (string \<Rightarrow> string) \<Rightarrow> faults \<Rightarrow> session \<Rightarrow> principal_id \<Rightarrow> string \<Rightarrow> evaluation_receipt \<Rightarrow> session_db
     \<Rightarrow> (session_error, bool) outcome \<times> session_db" where
  "record_evaluation_feedback y sha f s p provider v db =
     (if vr_session_id v \<noteq> se_id s then (Inl InvalidEvaluation, db)
      else if failed_kinds v = [] then (Inr False, db)
      else case map_err (\<lambda>_. InvalidMemory) (new_memory_scope (se_tenant_id s) (se_workspace_id s) (se_id s) provider) of
        Inl e \<Rightarrow> (Inl e, db)
      | Inr sc \<Rightarrow>
          (case map_err (\<lambda>_. InvalidMemory)
                  (new_l1 (evaluation_feedback_id sha (vr_execution_id v)) LessonKind sc
                     (EVALUATION_FEEDBACK_PREFIX @ join_with '', '' (failed_kinds v) @ EVALUATION_FEEDBACK_SUFFIX)
                     InternalContext (vr_evaluated_at v) (''evaluation:'' @ vr_execution_id v)) of
             Inl e \<Rightarrow> (Inl e, db)
           | Inr r \<Rightarrow>
               (case record_memory y f p r db of
                  (Inr _, db') \<Rightarrow> (Inr True, db')
                | (Inl e, db') \<Rightarrow> (if e = MemoryAlreadyExists then Inr False else Inl e, db'))))"

definition promote_memory ::
  "memory_codec \<Rightarrow> faults \<Rightarrow> principal_id \<Rightarrow> memory_scope \<Rightarrow> memory_id \<Rightarrow> memory_approval \<Rightarrow> timestamp \<Rightarrow> session_db
     \<Rightarrow> (session_error, memory_record) outcome \<times> session_db" where
  "promote_memory y f p sc i approval promoted_at db =
     (case
        and_then (memory_session f p sc db) (\<lambda>_.
        and_then (db_ok (f 2)) (\<lambda>_.
        and_then (db_ok (f 3)) (\<lambda>_.
        and_then (ensure (\<not> is_memory_revoked sc i db) MemoryRevoked) (\<lambda>_.
        and_then (load_memory_record y (f 4) sc i L1 db) (\<lambda>found.
        and_then (ok_or found MemoryNotFound) (\<lambda>candidate.
        and_then (load_memory_record y (f 5) sc i L2 db) (\<lambda>existing.
        and_then (ensure (existing = None) MemoryAlreadyPromoted) (\<lambda>_.
        and_then (map_err (\<lambda>_. InvalidMemory) (promote_l2 candidate approval promoted_at)) (\<lambda>promoted.
        and_then (insert_memory_record y (f 6) promoted db) (\<lambda>db.
        and_then (insert_memory_audit (f 7) promoted PromotedMemory promoted_at
                    (map_option ma_approval_id (mm_approval promoted)) db) (\<lambda>db.
        and_then (db_ok (f 8)) (\<lambda>_. Inr (promoted, db))))))))))))) of
        Inl e \<Rightarrow> (Inl e, db)
      | Inr (promoted, db') \<Rightarrow> (Inr promoted, db'))"

definition recall_scope ::
  "session_id \<Rightarrow> session_caller \<Rightarrow> string \<Rightarrow> memory_tier \<Rightarrow> u16 \<Rightarrow> (session_error, memory_scope) outcome" where
  "recall_scope i cl provider tier limit =
     and_then (ensure (limit \<noteq> 0 \<and> limit \<le> MAX_MEMORY_RECALL_RECORDS) InvalidMemoryLimit) (\<lambda>_.
     and_then (ensure (tier \<noteq> L0) InvalidMemory) (\<lambda>_.
     map_err (\<lambda>_. InvalidMemory) (new_memory_scope (cl_tenant_id cl) (cl_workspace_id cl) i provider)))"

definition recall_memory ::
  "memory_codec \<Rightarrow> faults \<Rightarrow> session_id \<Rightarrow> session_caller \<Rightarrow> string \<Rightarrow> memory_tier \<Rightarrow> u16 \<Rightarrow> session_db
     \<Rightarrow> (session_error, memory_record list) outcome" where
  "recall_memory y f i cl provider tier limit db =
     and_then (recall_scope i cl provider tier limit) (\<lambda>sc.
     and_then (scoped_session f i cl db) (\<lambda>_.
     and_then (db_ok (f 2)) (\<lambda>_. load_memory_records y sc tier limit db)))"

definition recall_memory_by_intent ::
  "memory_codec \<Rightarrow> faults \<Rightarrow> session_id \<Rightarrow> session_caller \<Rightarrow> string \<Rightarrow> memory_tier \<Rightarrow> memory_intent \<Rightarrow> u16 \<Rightarrow> session_db
     \<Rightarrow> (session_error, memory_record list) outcome" where
  "recall_memory_by_intent y f i cl provider tier intent limit db =
     and_then (recall_scope i cl provider tier limit) (\<lambda>sc.
     and_then (scoped_session f i cl db) (\<lambda>_.
     and_then (db_ok (f 2)) (\<lambda>_. load_memory_records_by_intent y sc tier intent limit db)))"

fun audit_revocations ::
  "faults \<Rightarrow> nat \<Rightarrow> timestamp \<Rightarrow> memory_record list \<Rightarrow> session_db \<Rightarrow> (session_error, session_db) outcome" where
  "audit_revocations f k t [] db = Inr db"
| "audit_revocations f k t (r # rs) db =
     and_then (insert_memory_audit (f k) r RevokedMemory t None db) (audit_revocations f (Suc k) t rs)"

definition revoke_memory ::
  "memory_codec \<Rightarrow> faults \<Rightarrow> principal_id \<Rightarrow> memory_scope \<Rightarrow> memory_id \<Rightarrow> timestamp \<Rightarrow> session_db
     \<Rightarrow> (session_error, unit) outcome \<times> session_db" where
  "revoke_memory y f p sc i revoked_at db =
     transact db
       (and_then (memory_session f p sc db) (\<lambda>_.
        and_then (db_ok (f 2)) (\<lambda>_.
        and_then (db_ok (f 3)) (\<lambda>_.
        and_then (ensure (\<not> is_memory_revoked sc i db) MemoryRevoked) (\<lambda>_.
        and_then (db_ok (f 4)) (\<lambda>_.
        and_then (load_memory_records_by_id y sc i db) (\<lambda>records.
        and_then (ensure (records \<noteq> []) MemoryNotFound) (\<lambda>_.
        and_then (timestamp_i64 revoked_at) (\<lambda>t.
        and_then (db_ok (f 5)) (\<lambda>_.
        and_then
          (audit_revocations f 6 revoked_at records
             (db\<lparr>db_revocations := row_insert \<lparr>kw_session_id = ms_session_id sc, kw_provider = ms_provider sc,
                                               kw_memory_id = i, kw_revoked_at = t\<rparr> (db_revocations db)\<rparr>)) (\<lambda>db.
        and_then (db_ok (f (6 + length records))) (\<lambda>_. Inr db))))))))))))"

definition memory_audit ::
  "faults \<Rightarrow> principal_id \<Rightarrow> memory_scope \<Rightarrow> session_db \<Rightarrow> (session_error, memory_audit_entry list) outcome" where
  "memory_audit f p sc db =
     and_then (memory_session f p sc db) (\<lambda>_.
     and_then (db_ok (f 2)) (\<lambda>_. load_memory_audit sc db))"

definition compactable :: "memory_scope \<Rightarrow> int \<Rightarrow> session_db \<Rightarrow> memory_row \<Rightarrow> bool" where
  "compactable sc t db r \<longleftrightarrow>
     in_memory_scope sc r
   \<and> list_ex (\<lambda>k. kw_session_id k = yw_session_id r \<and> kw_provider k = yw_provider r \<and> kw_memory_id k = yw_memory_id r
                 \<and> kw_revoked_at k \<le> t) (db_revocations db)"

definition count_compactable_memory ::
  "faults \<Rightarrow> principal_id \<Rightarrow> memory_scope \<Rightarrow> timestamp \<Rightarrow> session_db \<Rightarrow> (session_error, nat) outcome" where
  "count_compactable_memory f p sc before db =
     and_then (memory_session f p sc db) (\<lambda>_.
     and_then (timestamp_i64 before) (\<lambda>t.
     and_then (db_ok (f 2)) (\<lambda>_. Inr (length (filter (compactable sc t db) (db_memory db))))))"

definition compact_revoked_memory ::
  "faults \<Rightarrow> principal_id \<Rightarrow> memory_scope \<Rightarrow> timestamp \<Rightarrow> session_db \<Rightarrow> (session_error, nat) outcome \<times> session_db" where
  "compact_revoked_memory f p sc before db =
     (case
        and_then (memory_session f p sc db) (\<lambda>_.
        and_then (db_ok (f 2)) (\<lambda>_.
        and_then (timestamp_i64 before) (\<lambda>t.
        and_then (db_ok (f 3 \<or> f 4)) (\<lambda>_. Inr t)))) of
        Inl e \<Rightarrow> (Inl e, db)
      | Inr t \<Rightarrow>
          (Inr (length (filter (compactable sc t db) (db_memory db))),
           db\<lparr>db_memory := filter (\<lambda>r. \<not> compactable sc t db r) (db_memory db)\<rparr>))"

definition distinct_known_kinds :: "string list \<Rightarrow> bool" where
  "distinct_known_kinds kinds \<longleftrightarrow>
     list_all (\<lambda>k. k \<in> {''trajectory'', ''outcome'', ''policy'', ''human'', ''regression'', ''adversarial''}) kinds
   \<and> distinct kinds"

definition is_canonical_l1_evaluation_feedback :: "(string \<Rightarrow> string) \<Rightarrow> memory_record \<Rightarrow> bool" where
  "is_canonical_l1_evaluation_feedback sha r =
     (case strip_prefix ''evaluation:'' (mm_provenance r) of
        None \<Rightarrow> False
      | Some eid \<Rightarrow>
          (case new_id eid of
             Inl _ \<Rightarrow> False
           | Inr eid \<Rightarrow>
               mm_id r = evaluation_feedback_id sha eid
             \<and> (case strip_prefix EVALUATION_FEEDBACK_PREFIX (mm_summary r) of
                  None \<Rightarrow> False
                | Some v \<Rightarrow>
                    (case strip_suffix EVALUATION_FEEDBACK_SUFFIX v of
                       None \<Rightarrow> False
                     | Some kinds \<Rightarrow> distinct_known_kinds (split_on '', '' kinds)))))"

definition decode_l1_context_row ::
  "memory_codec \<Rightarrow> (string \<Rightarrow> string) \<Rightarrow> memory_scope \<Rightarrow> memory_row \<Rightarrow> (session_error, memory_record) outcome" where
  "decode_l1_context_row y sha sc r =
     and_then (parse_memory_kind (yw_kind r)) (\<lambda>kind.
     and_then (parse_memory_origin (yw_origin r)) (\<lambda>origin.
     and_then (parse_memory_intent (yw_intent r)) (\<lambda>intent.
     and_then (ok_or (yc_read_ids y (yw_evidence_ids r)) SessionCorruptRecord) (\<lambda>ids.
     and_then (session_timestamp (yw_created_at r)) (\<lambda>created.
     and_then
       (corrupt (new_l1_with_origin (yw_memory_id r) kind sc (yw_summary r) InternalContext created (yw_provenance r) origin ids))
       (\<lambda>record.
     let record = with_intent intent record in
     if kind = ExecutionEvidence \<and> \<not> is_canonical_l1_execution_evidence record
        \<or> kind = LessonKind \<and> \<not> is_canonical_l1_evaluation_feedback sha record
     then Inl SessionCorruptRecord else Inr record))))))"

record l1_context =
  lx_scope :: memory_scope
  lx_records :: "memory_record list"

definition l1_evidence_context ::
  "memory_codec \<Rightarrow> (string \<Rightarrow> string) \<Rightarrow> faults \<Rightarrow> session_id \<Rightarrow> session_caller \<Rightarrow> string \<Rightarrow> session_db
     \<Rightarrow> (session_error, l1_context) outcome" where
  "l1_evidence_context y sha f i cl provider db =
     and_then (map_err (\<lambda>_. InvalidL1Evidence) (new_memory_scope (cl_tenant_id cl) (cl_workspace_id cl) i provider)) (\<lambda>sc.
     and_then (scoped_session f i cl db) (\<lambda>_.
     and_then (db_ok (f 2)) (\<lambda>_.
     and_then
       (try_map (decode_l1_context_row y sha sc)
          (recall_rows sc L1
             (\<lambda>r. yw_kind r \<in> {''execution_evidence'', ''lesson''} \<and> yw_classification r = ''internal'')
             MAX_L1_EVIDENCE_CONTEXT_RECORDS db)) (\<lambda>records.
       Inr \<lparr>lx_scope = sc, lx_records = records\<rparr>))))"

definition context_matches :: "l1_context \<Rightarrow> session \<Rightarrow> string \<Rightarrow> bool" where
  "context_matches x s provider \<longleftrightarrow>
     ms_session_id (lx_scope x) = se_id s \<and> ms_tenant_id (lx_scope x) = se_tenant_id s
   \<and> ms_workspace_id (lx_scope x) = se_workspace_id s \<and> ms_provider (lx_scope x) = provider"

section \<open>A stored record decodes to itself\<close>

lemma parse_memory_strs [simp]:
  "parse_memory_tier (tier_str t) = Inr t" "parse_memory_kind (memory_kind_str k) = Inr k"
  "parse_memory_origin (origin_str og) = Inr og" "parse_memory_intent (intent_str it) = Inr it"
  "parse_memory_audit_action (memory_audit_action_name a) = Inr a"
proof -
  show "parse_memory_tier (tier_str t) = Inr t" by (cases t; simp add: parse_memory_tier_def)
  show "parse_memory_kind (memory_kind_str k) = Inr k" by (cases k; simp add: parse_memory_kind_def)
  show "parse_memory_origin (origin_str og) = Inr og" by (cases og; simp add: parse_memory_origin_def)
  show "parse_memory_intent (intent_str it) = Inr it" by (cases it; simp add: parse_memory_intent_def)
  show "parse_memory_audit_action (memory_audit_action_name a) = Inr a" by (cases a; simp add: parse_memory_audit_action_def)
qed

lemma parse_classification [simp]:
  "cl \<noteq> SecretContext \<Longrightarrow> parse_context_classification (classification_str cl) = Inr cl"
  by (cases cl) (simp_all add: parse_context_classification_def)

lemma tier_str_inject [simp]: "tier_str a = tier_str b \<longleftrightarrow> a = b"
  by (cases a; cases b) simp_all

lemma memory_row_of_sel [simp]:
  "yw_session_id (memory_row_of r t ids) = ms_session_id (mm_scope r)" "yw_provider (memory_row_of r t ids) = ms_provider (mm_scope r)"
  "yw_memory_id (memory_row_of r t ids) = mm_id r" "yw_tier (memory_row_of r t ids) = tier_str (mm_tier r)"
  "yw_created_at (memory_row_of r t ids) = t" "yw_approval_id (memory_row_of r t ids) = map_option ma_approval_id (mm_approval r)"
  "yw_evidence_ids (memory_row_of r t ids) = ids" "yw_kind (memory_row_of r t ids) = memory_kind_str (mm_kind r)"
  by (simp_all add: memory_row_of_def)

text \<open>What is asked of \<open>serde_json\<close> for lists of identifiers.\<close>

definition ids_codec_ok :: "memory_codec \<Rightarrow> bool" where
  "ids_codec_ok y \<longleftrightarrow> (\<forall>ids s. yc_write_ids y ids = Some s \<longrightarrow> yc_read_ids y s = Some ids)"

lemma new_l1_with_origin_rebuilt:
  assumes "valid_memory r" "mm_tier r \<in> {L1, L2}"
  shows "new_l1_with_origin (mm_id r) (mm_kind r) sc (mm_summary r) (mm_classification r) (mm_created_at r) (mm_provenance r)
      (mm_origin r) (mm_evidence_ids r)
    = Inr (r\<lparr>mm_scope := sc, mm_tier := L1, mm_intent := None, mm_approval := None\<rparr>)"
proof -
  have "\<not> tier_mismatch (mm_tier r) (mm_kind r)" using assms(1) by (simp add: valid_memory_def)
  then have "\<not> tier_mismatch L1 (mm_kind r)"
    using assms(2) by (cases "mm_kind r") (auto simp: tier_mismatch_def can_be_l1_def can_be_l2_def)
  then show ?thesis using assms
    unfolding new_l1_with_origin_def new_with_origin_Inr
    by (cases r) (auto simp: valid_memory_def check_memory_text_valid)
qed

lemma tier_upper_rebuilt:
  assumes "valid_memory r"
  shows "mm_tier r = L3 \<Longrightarrow> new_l3_sop (mm_id r) sc (mm_summary r) (mm_classification r) (mm_created_at r) (mm_provenance r)
      = Inr (r\<lparr>mm_scope := sc, mm_intent := None\<rparr>)"
    and "mm_tier r = L4 \<Longrightarrow> new_l4_archive (mm_id r) sc (mm_summary r) (mm_classification r) (mm_created_at r) (mm_provenance r)
      = Inr (r\<lparr>mm_scope := sc, mm_intent := None\<rparr>)"
  using assms
  unfolding new_l3_sop_def new_l4_archive_def new_memory_def new_with_origin_Inr
  by (cases r; auto simp: valid_memory_def tier_mismatch_def can_be_l3_def can_be_l4_def check_memory_text_valid)+

lemma decode_memory_row_of:
  assumes "valid_memory r" "mm_tier r \<noteq> L0" "uint (mm_created_at r) < 2 ^ 63" "yc_read_ids y ids = Some (mm_evidence_ids r)"
  shows "decode_memory_record y sc (memory_row_of r (uint (mm_created_at r)) ids)
    = Inr (with_intent (intent_of r) (r\<lparr>mm_scope := sc\<rparr>))"
proof -
  have cls: "mm_classification r \<noteq> SecretContext" using assms(1) by (simp add: valid_memory_def)
  have ap: "mm_tier r \<noteq> L2 \<Longrightarrow> mm_approval r = None" using assms(1) by (auto simp: valid_memory_def)
  have row: "decode_memory_record y sc (memory_row_of r (uint (mm_created_at r)) ids) =
      and_then
       (case mm_tier r of
          L0 \<Rightarrow> Inl SessionCorruptRecord
        | L1 \<Rightarrow> (if mm_approval r \<noteq> None then Inl SessionCorruptRecord
            else corrupt (new_l1_with_origin (mm_id r) (mm_kind r) sc (mm_summary r) (mm_classification r) (mm_created_at r)
                   (mm_provenance r) (mm_origin r) (mm_evidence_ids r)))
        | L2 \<Rightarrow>
            and_then (ok_or (mm_approval r) SessionCorruptRecord) (\<lambda>a.
            and_then (corrupt (new_memory_approval (ma_approval_id a) (ma_approver a))) (\<lambda>approval.
            and_then (corrupt (new_l1_with_origin (mm_id r) (mm_kind r) sc (mm_summary r) (mm_classification r) (mm_created_at r)
                   (mm_provenance r) (mm_origin r) (mm_evidence_ids r)))
              (\<lambda>candidate. corrupt (promote_l2 candidate approval (mm_created_at r)))))
        | L3 \<Rightarrow> (if mm_approval r \<noteq> None then Inl SessionCorruptRecord
            else corrupt (new_l3_sop (mm_id r) sc (mm_summary r) (mm_classification r) (mm_created_at r) (mm_provenance r)))
        | L4 \<Rightarrow> (if mm_approval r \<noteq> None then Inl SessionCorruptRecord
            else corrupt (new_l4_archive (mm_id r) sc (mm_summary r) (mm_classification r) (mm_created_at r) (mm_provenance r))))
       (\<lambda>record. Inr (with_intent (intent_of r) record))"
    using assms(4) cls
    by (cases "mm_approval r") (simp_all add: decode_memory_record_def memory_row_of_def session_timestamp_uint [OF assms(3)] split: memory_tier.splits)
  show ?thesis
  proof (cases "mm_tier r")
    case L2
    then obtain a where a: "mm_approval r = Some a" "memory_text (ma_approval_id a)" "memory_text (ma_approver a)"
      using assms(1) by (auto simp: valid_memory_def)
    then have "new_memory_approval (ma_approval_id a) (ma_approver a) = Inr a"
      by (simp add: new_memory_approval_def check_memory_text_valid)
    moreover have "can_be_l2 (mm_kind r)" "mm_expires_at r = None" using assms(1) L2 by (auto simp: valid_memory_def tier_mismatch_def)
    ultimately show ?thesis unfolding row
      using L2 a new_l1_with_origin_rebuilt [OF assms(1)] by (simp add: promote_l2_def with_intent_def)
  qed (use row ap assms(2) new_l1_with_origin_rebuilt [OF assms(1)] tier_upper_rebuilt [OF assms(1)] in \<open>simp_all add: with_intent_def\<close>)
qed

section \<open>What the operations do\<close>

definition audit_row_of :: "int \<Rightarrow> memory_record \<Rightarrow> memory_audit_action \<Rightarrow> int \<Rightarrow> string option \<Rightarrow> audit_row" where
  "audit_row_of n r action t approval =
     \<lparr>aw_sequence = n, aw_session_id = ms_session_id (mm_scope r), aw_provider = ms_provider (mm_scope r),
      aw_memory_id = mm_id r, aw_tier = tier_str (mm_tier r), aw_action = memory_audit_action_name action,
      aw_recorded_at = t, aw_approval_id = approval\<rparr>"

fun revocation_rows :: "int \<Rightarrow> timestamp \<Rightarrow> memory_record list \<Rightarrow> audit_row list" where
  "revocation_rows n t [] = []"
| "revocation_rows n t (r # rs) = audit_row_of (n + 1) r RevokedMemory (uint t) None # revocation_rows (n + 1) t rs"

definition with_memory :: "memory_row \<Rightarrow> audit_row \<Rightarrow> session_db \<Rightarrow> session_db" where
  "with_memory row a db =
     db\<lparr>db_memory := db_memory db @ [row], db_audit := db_audit db @ [a], db_audit_seq := db_audit_seq db + 1\<rparr>"

lemma insert_memory_record_Inr:
  "insert_memory_record y fault r db = Inr db' \<longleftrightarrow>
     (\<exists>ids. uint (mm_created_at r) < 2 ^ 63 \<and> yc_write_ids y (mm_evidence_ids r) = Some ids \<and> \<not> fault
        \<and> \<not> memory_conflict (memory_row_of r (uint (mm_created_at r)) ids) db
        \<and> db' = db\<lparr>db_memory := db_memory db @ [memory_row_of r (uint (mm_created_at r)) ids]\<rparr>)"
  by (auto simp: insert_memory_record_def Let_def row_insert_def)

lemma insert_memory_audit_Inr:
  "insert_memory_audit fault r action t approval db = Inr db' \<longleftrightarrow>
     uint t < 2 ^ 63 \<and> \<not> fault \<and> db_audit_seq db < MAX_ROWID
   \<and> db' = db\<lparr>db_audit := db_audit db @ [audit_row_of (db_audit_seq db + 1) r action (uint t) approval],
             db_audit_seq := db_audit_seq db + 1\<rparr>"
  by (auto simp: insert_memory_audit_def Let_def row_insert_def audit_row_of_def)

lemma audit_revocations_Inr:
  "audit_revocations f k t rs db = Inr db' \<Longrightarrow>
     db' = db\<lparr>db_audit := db_audit db @ revocation_rows (db_audit_seq db) t rs, db_audit_seq := db_audit_seq db + int (length rs)\<rparr>"
proof (induction rs arbitrary: k db)
  case (Cons r rs)
  from Cons.prems obtain db1 where "insert_memory_audit (f k) r RevokedMemory t None db = Inr db1"
    "audit_revocations f (Suc k) t rs db1 = Inr db'" by auto
  with Cons.IH [of "Suc k" db1] show ?case by (simp add: insert_memory_audit_Inr add.assoc)
qed simp

lemma record_memory_Inr:
  assumes "record_memory_with_limit y f p r limit kind db = (Inr (), db')"
  obtains ids s where "memory_session f p (mm_scope r) db = Inr s" "yc_write_ids y (mm_evidence_ids r) = Some ids"
    "uint (mm_created_at r) < 2 ^ 63" "\<not> is_memory_revoked (mm_scope r) (mm_id r) db"
    "(\<exists>x \<in> set (db_memory db). in_memory_scope (mm_scope r) x \<and> yw_memory_id x = mm_id r)
      \<or> identity_count (mm_scope r) db < MAX_MEMORY_IDENTITIES_PER_SCOPE"
    "tier_count (mm_scope r) (mm_tier r) db < MAX_MEMORY_RECORDS_PER_SCOPE_AND_TIER"
    "\<not> memory_conflict (memory_row_of r (uint (mm_created_at r)) ids) db"
    "db' = with_memory (memory_row_of r (uint (mm_created_at r)) ids)
             (audit_row_of (db_audit_seq db + 1) r AddedMemory (uint (mm_created_at r)) None) db"
  using assms
  by (auto simp: record_memory_with_limit_def Let_def insert_memory_record_Inr insert_memory_audit_Inr with_memory_def
      list_ex_iff split: if_splits)

lemma record_memory_error: "record_memory_with_limit y f p r limit kind db = (Inl e, db') \<Longrightarrow> db' = db"
  by (auto simp: record_memory_with_limit_def Let_def dest: transact_error)

lemma promote_memory_Inr:
  assumes "promote_memory y f p sc i approval t db = (Inr promoted, db')"
  obtains ids s candidate row where "memory_session f p sc db = Inr s" "\<not> is_memory_revoked sc i db"
    "row \<in> set (db_memory db)" "in_memory_scope sc row" "yw_memory_id row = i" "yw_tier row = ''l1''"
    "decode_memory_record y sc row = Inr candidate" "promote_l2 candidate approval t = Inr promoted"
    "yc_write_ids y (mm_evidence_ids promoted) = Some ids" "uint (mm_created_at promoted) < 2 ^ 63" "uint t < 2 ^ 63"
    "\<not> memory_conflict (memory_row_of promoted (uint (mm_created_at promoted)) ids) db"
    "db' = with_memory (memory_row_of promoted (uint (mm_created_at promoted)) ids)
             (audit_row_of (db_audit_seq db + 1) promoted PromotedMemory (uint t) (map_option ma_approval_id (mm_approval promoted))) db"
proof -
  from assms obtain candidate s ids where c: "load_memory_record y (f 4) sc i L1 db = Inr (Some candidate)"
    "memory_session f p sc db = Inr s" "\<not> is_memory_revoked sc i db" "promote_l2 candidate approval t = Inr promoted"
    "yc_write_ids y (mm_evidence_ids promoted) = Some ids" "uint (mm_created_at promoted) < 2 ^ 63" "uint t < 2 ^ 63"
    "\<not> memory_conflict (memory_row_of promoted (uint (mm_created_at promoted)) ids) db"
    "db' = with_memory (memory_row_of promoted (uint (mm_created_at promoted)) ids)
             (audit_row_of (db_audit_seq db + 1) promoted PromotedMemory (uint t) (map_option ma_approval_id (mm_approval promoted))) db"
    by (auto simp: promote_memory_def insert_memory_record_Inr insert_memory_audit_Inr with_memory_def split: sum.splits)
  from c(1) obtain row where "find (\<lambda>r. in_memory_scope sc r \<and> yw_memory_id r = i \<and> yw_tier r = tier_str L1) (db_memory db) = Some row"
    "decode_memory_record y sc row = Inr candidate"
    by (auto simp: load_memory_record_def opt_try_def split: if_splits option.splits)
  moreover from this have "row \<in> set (db_memory db)" "in_memory_scope sc row" "yw_memory_id row = i" "yw_tier row = ''l1''"
    by (auto simp: find_Some_iff)
  ultimately show thesis using that c(2-) by blast
qed

lemma promote_memory_error: "promote_memory y f p sc i approval t db = (Inl e, db') \<Longrightarrow> db' = db"
  by (auto simp: promote_memory_def split: sum.splits)

lemma revoke_memory_Inr:
  assumes "revoke_memory y f p sc i t db = (Inr (), db')"
  obtains s records where "memory_session f p sc db = Inr s" "\<not> is_memory_revoked sc i db"
    "load_memory_records_by_id y sc i db = Inr records" "records \<noteq> []" "uint t < 2 ^ 63"
    "db' = db\<lparr>db_revocations := db_revocations db @ [\<lparr>kw_session_id = ms_session_id sc, kw_provider = ms_provider sc,
                                  kw_memory_id = i, kw_revoked_at = uint t\<rparr>],
             db_audit := db_audit db @ revocation_rows (db_audit_seq db) t records,
             db_audit_seq := db_audit_seq db + int (length records)\<rparr>"
  using assms by (auto simp: revoke_memory_def row_insert_def dest!: audit_revocations_Inr)

lemma compact_revoked_memory_Inr:
  assumes "compact_revoked_memory f p sc before db = (Inr n, db')"
  obtains s where "memory_session f p sc db = Inr s" "uint before < 2 ^ 63"
    "db' = db\<lparr>db_memory := filter (\<lambda>r. \<not> compactable sc (uint before) db r) (db_memory db)\<rparr>"
  using assms by (auto simp: compact_revoked_memory_def split: sum.splits)

lemma compact_revoked_memory_error: "compact_revoked_memory f p sc before db = (Inl e, db') \<Longrightarrow> db' = db"
  by (auto simp: compact_revoked_memory_def split: sum.splits)

section \<open>The invariant\<close>

text \<open>The identity of a memory: its session, provider and name.\<close>

definition identity :: "memory_row \<Rightarrow> string \<times> string \<times> string" where
  "identity r = (yw_session_id r, yw_provider r, yw_memory_id r)"

definition memory_row_ok :: "memory_codec \<Rightarrow> memory_row \<Rightarrow> bool" where
  "memory_row_ok y row \<longleftrightarrow>
     (\<exists>r ids. row = memory_row_of r (uint (mm_created_at r)) ids \<and> valid_memory r \<and> mm_tier r \<noteq> L0
        \<and> uint (mm_created_at r) < 2 ^ 63 \<and> yc_read_ids y ids = Some (mm_evidence_ids r))"

text \<open>The trail of a stored record: it was added, or promoted with its approval; a revocation leaves one too.\<close>

definition audits_row :: "memory_row \<Rightarrow> audit_row \<Rightarrow> bool" where
  "audits_row r a \<longleftrightarrow>
     (aw_session_id a, aw_provider a, aw_memory_id a, aw_tier a) = memory_key r
   \<and> aw_action a = (if yw_tier r = ''l2'' then ''promoted'' else ''added'') \<and> aw_approval_id a = yw_approval_id r"

definition audits_revocation :: "revocation_row \<Rightarrow> audit_row \<Rightarrow> bool" where
  "audits_revocation k a \<longleftrightarrow>
     aw_session_id a = kw_session_id k \<and> aw_provider a = kw_provider k \<and> aw_memory_id a = kw_memory_id k
   \<and> aw_action a = ''revoked''"

definition audited :: "session_db \<Rightarrow> bool" where
  "audited db \<longleftrightarrow>
     (\<forall>r \<in> set (db_memory db). \<exists>a \<in> set (db_audit db). audits_row r a)
   \<and> (\<forall>k \<in> set (db_revocations db). \<exists>a \<in> set (db_audit db). audits_revocation k a)"

definition within_capacity :: "session_db \<Rightarrow> bool" where
  "within_capacity db \<longleftrightarrow>
     (\<forall>sc. \<forall>tier \<in> {L1, L3, L4}. tier_count sc tier db \<le> MAX_MEMORY_RECORDS_PER_SCOPE_AND_TIER)
   \<and> (\<forall>sc. identity_count sc db \<le> MAX_MEMORY_IDENTITIES_PER_SCOPE)"

definition promoted_from_l1 :: "session_db \<Rightarrow> bool" where
  "promoted_from_l1 db \<longleftrightarrow>
     (\<forall>r \<in> set (db_memory db). yw_tier r = ''l2'' \<longrightarrow>
        (\<exists>x \<in> set (db_memory db). yw_tier x = ''l1'' \<and> identity x = identity r))"

definition memory_inv :: "memory_codec \<Rightarrow> session_db \<Rightarrow> bool" where
  "memory_inv y db \<longleftrightarrow>
     (\<forall>r \<in> set (db_memory db). memory_row_ok y r) \<and> keyed memory_key (db_memory db)
   \<and> promoted_from_l1 db \<and> within_capacity db \<and> audited db"

lemma memory_row_ok_record:
  "ids_codec_ok y \<Longrightarrow> valid_memory r \<Longrightarrow> mm_tier r \<noteq> L0 \<Longrightarrow> uint (mm_created_at r) < 2 ^ 63 \<Longrightarrow>
     yc_write_ids y (mm_evidence_ids r) = Some ids \<Longrightarrow> memory_row_ok y (memory_row_of r (uint (mm_created_at r)) ids)"
  by (auto simp: memory_row_ok_def ids_codec_ok_def)

lemma decode_ok_row:
  assumes "memory_row_ok y row"
  shows "\<exists>r. decode_memory_record y sc row = Inr r \<and> valid_memory r \<and> mm_id r = yw_memory_id row \<and> mm_scope r = sc
    \<and> tier_str (mm_tier r) = yw_tier row \<and> mm_tier r \<noteq> L0"
proof -
  obtain r ids where r: "row = memory_row_of r (uint (mm_created_at r)) ids" "valid_memory r" "mm_tier r \<noteq> L0"
    "uint (mm_created_at r) < 2 ^ 63" "yc_read_ids y ids = Some (mm_evidence_ids r)"
    using assms by (auto simp: memory_row_ok_def)
  have "valid_memory (r\<lparr>mm_scope := sc\<rparr>)" using r(2) by (simp add: valid_memory_def)
  moreover have "mm_id (with_intent (intent_of r) (r\<lparr>mm_scope := sc\<rparr>)) = mm_id r"
    "mm_scope (with_intent (intent_of r) (r\<lparr>mm_scope := sc\<rparr>)) = sc"
    "mm_tier (with_intent (intent_of r) (r\<lparr>mm_scope := sc\<rparr>)) = mm_tier r" by (simp_all add: with_intent_def)
  ultimately show ?thesis using decode_memory_row_of [OF r(2-5), of sc] r(1,3) by simp
qed

lemma tier_count_with_memory:
  "tier_count sc tier (with_memory row a db) =
     tier_count sc tier db + (if in_memory_scope sc row \<and> yw_tier row = tier_str tier then 1 else 0)"
  by (simp add: tier_count_def with_memory_def)

lemma identity_count_with_memory:
  "identity_count sc (with_memory row a db) \<le>
     identity_count sc db + (if in_memory_scope sc row \<and> \<not> (\<exists>x \<in> set (db_memory db). identity x = identity row) then 1 else 0)"
proof -
  let ?ids = "\<lambda>m. set (map yw_memory_id (filter (in_memory_scope sc) m)
      @ map kw_memory_id (filter (\<lambda>k. kw_session_id k = ms_session_id sc \<and> kw_provider k = ms_provider sc) (db_revocations db)))"
  have eq: "identity_count sc (with_memory row a db) = card (?ids (db_memory db @ [row]))" "identity_count sc db = card (?ids (db_memory db))"
    by (simp_all add: identity_count_def with_memory_def)
  have fin: "finite (?ids (db_memory db))" by simp
  show ?thesis
  proof (cases "in_memory_scope sc row \<and> \<not> (\<exists>x \<in> set (db_memory db). identity x = identity row)")
    case True
    then have "?ids (db_memory db @ [row]) = insert (yw_memory_id row) (?ids (db_memory db))" by auto
    then show ?thesis unfolding eq using True card_insert_le_m1 fin by (simp add: card_insert_if)
  next
    case False
    have "yw_memory_id row \<in> ?ids (db_memory db)" if "in_memory_scope sc row"
    proof -
      obtain x where "x \<in> set (db_memory db)" "identity x = identity row" using False \<open>in_memory_scope sc row\<close> by blast
      then have "x \<in> set (filter (in_memory_scope sc) (db_memory db))" "yw_memory_id row = yw_memory_id x"
        using \<open>in_memory_scope sc row\<close> by (auto simp: identity_def in_memory_scope_def)
      then have "yw_memory_id row \<in> set (map yw_memory_id (filter (in_memory_scope sc) (db_memory db)))"
        unfolding set_map by (intro image_eqI)
      then show ?thesis unfolding set_append by (rule UnI1)
    qed
    then have "?ids (db_memory db @ [row]) \<subseteq> ?ids (db_memory db)" by auto
    then have "card (?ids (db_memory db @ [row])) \<le> card (?ids (db_memory db))" by (rule card_mono [OF fin])
    then show ?thesis unfolding eq by (rule order_trans) (rule le_add1)
  qed
qed

lemma memory_key_conv: "memory_key r = (yw_session_id r, yw_provider r, yw_memory_id r, yw_tier r)"
  by (rule memory_key_def)

lemma with_memory_inv:
  assumes inv: "memory_inv y db" and row: "memory_row_ok y row" and conf: "\<not> memory_conflict row db" and a: "audits_row row a"
    and l1: "yw_tier row = ''l2'' \<Longrightarrow> \<exists>x \<in> set (db_memory db). yw_tier x = ''l1'' \<and> identity x = identity row"
    and ident: "(\<exists>x \<in> set (db_memory db). identity x = identity row)
      \<or> (\<forall>sc. in_memory_scope sc row \<longrightarrow> identity_count sc db < MAX_MEMORY_IDENTITIES_PER_SCOPE)"
    and tier: "\<And>sc tier. tier \<in> {L1, L3, L4} \<Longrightarrow> in_memory_scope sc row \<Longrightarrow> yw_tier row = tier_str tier \<Longrightarrow>
      tier_count sc tier db < MAX_MEMORY_RECORDS_PER_SCOPE_AND_TIER"
  shows "memory_inv y (with_memory row a db)"
proof -
  have "keyed memory_key (db_memory db @ [row])"
    using inv conf by (auto simp: memory_inv_def memory_conflict_def keyed_def)
  moreover have "promoted_from_l1 (with_memory row a db)"
    using inv l1 unfolding promoted_from_l1_def memory_inv_def with_memory_def by auto
  moreover have "audited (with_memory row a db)"
    using inv a unfolding audited_def memory_inv_def with_memory_def by auto
  moreover have "within_capacity (with_memory row a db)"
    unfolding within_capacity_def
  proof (intro conjI allI ballI)
    fix sc tier assume t: "tier \<in> {L1, L3, L4}"
    have "tier_count sc tier db \<le> MAX_MEMORY_RECORDS_PER_SCOPE_AND_TIER"
      using inv t unfolding memory_inv_def within_capacity_def by blast
    then show "tier_count sc tier (with_memory row a db) \<le> MAX_MEMORY_RECORDS_PER_SCOPE_AND_TIER"
      using tier [OF t] by (auto simp: tier_count_with_memory Suc_le_eq)
  next
    fix sc
    have "identity_count sc db \<le> MAX_MEMORY_IDENTITIES_PER_SCOPE" using inv by (simp add: memory_inv_def within_capacity_def)
    then show "identity_count sc (with_memory row a db) \<le> MAX_MEMORY_IDENTITIES_PER_SCOPE"
      using ident by (intro order_trans [OF identity_count_with_memory]) (auto simp: Suc_le_eq)
  qed
  moreover have "\<forall>x \<in> set (db_memory (with_memory row a db)). memory_row_ok y x"
    using inv row by (auto simp: memory_inv_def with_memory_def)
  ultimately show ?thesis by (auto simp: memory_inv_def with_memory_def)
qed

lemma scope_counts:
  "ms_session_id sc = ms_session_id sc' \<Longrightarrow> ms_provider sc = ms_provider sc' \<Longrightarrow>
     identity_count sc db = identity_count sc' db \<and> tier_count sc tier db = tier_count sc' tier db"
  by (simp add: identity_count_def tier_count_def in_memory_scope_def [abs_def])

lemma record_memory_inv:
  assumes "memory_inv y db" "ids_codec_ok y" "valid_memory r" "mm_tier r \<in> {L1, L3, L4}"
  shows "memory_inv y (snd (record_memory_with_limit y f p r limit kind db))"
proof (cases "record_memory_with_limit y f p r limit kind db")
  case (Pair res db')
  show ?thesis
  proof (cases res)
    case (Inl e)
    with Pair assms(1) show ?thesis by (auto dest: record_memory_error)
  next
    case (Inr u)
    with Pair have "record_memory_with_limit y f p r limit kind db = (Inr (), db')" by simp
    then show ?thesis
    proof (rule record_memory_Inr)
      fix ids s
      let ?row = "memory_row_of r (uint (mm_created_at r)) ids"
      assume ok: "yc_write_ids y (mm_evidence_ids r) = Some ids" "uint (mm_created_at r) < 2 ^ 63" "\<not> memory_conflict ?row db"
        and ident: "(\<exists>x \<in> set (db_memory db). in_memory_scope (mm_scope r) x \<and> yw_memory_id x = mm_id r)
          \<or> identity_count (mm_scope r) db < MAX_MEMORY_IDENTITIES_PER_SCOPE"
        and tier: "tier_count (mm_scope r) (mm_tier r) db < MAX_MEMORY_RECORDS_PER_SCOPE_AND_TIER"
        and db': "db' = with_memory ?row (audit_row_of (db_audit_seq db + 1) r AddedMemory (uint (mm_created_at r)) None) db"
      have ap: "mm_approval r = None" using assms(3,4) by (auto simp: valid_memory_def)
      have "memory_inv y db'" unfolding db'
      proof (rule with_memory_inv)
        show "memory_row_ok y ?row" using assms(2-4) ok(1,2) by (intro memory_row_ok_record) auto
        show "audits_row ?row (audit_row_of (db_audit_seq db + 1) r AddedMemory (uint (mm_created_at r)) None)"
          using assms(4) ap by (auto simp: audits_row_def audit_row_of_def memory_key_def)
        show "(\<exists>x \<in> set (db_memory db). identity x = identity ?row)
            \<or> (\<forall>sc. in_memory_scope sc ?row \<longrightarrow> identity_count sc db < MAX_MEMORY_IDENTITIES_PER_SCOPE)"
        proof (cases "\<exists>x \<in> set (db_memory db). in_memory_scope (mm_scope r) x \<and> yw_memory_id x = mm_id r")
          case True
          then obtain x where "x \<in> set (db_memory db)" "identity x = identity ?row" by (auto simp: identity_def in_memory_scope_def)
          then show ?thesis by blast
        next
          case False
          then have "identity_count (mm_scope r) db < MAX_MEMORY_IDENTITIES_PER_SCOPE" using ident by blast
          moreover have "identity_count sc db = identity_count (mm_scope r) db" if "in_memory_scope sc ?row" for sc
            using that scope_counts [of sc "mm_scope r" db] by (simp add: in_memory_scope_def)
          ultimately show ?thesis by simp
        qed
        show "tier_count sc t db < MAX_MEMORY_RECORDS_PER_SCOPE_AND_TIER"
          if "in_memory_scope sc ?row" "yw_tier ?row = tier_str t" for sc t
          using that tier scope_counts [of sc "mm_scope r" db t] by (simp add: in_memory_scope_def)
      qed (use assms(1,4) ok(3) in auto)
      then show ?thesis using Pair by simp
    qed
  qed
qed

definition valid_approval :: "memory_approval \<Rightarrow> bool" where
  "valid_approval a \<longleftrightarrow> memory_text (ma_approval_id a) \<and> memory_text (ma_approver a)"

lemma promoted_valid:
  assumes "valid_memory candidate" "valid_approval approval" "promote_l2 candidate approval t = Inr promoted"
  shows "valid_memory promoted \<and> mm_tier promoted = L2 \<and> mm_id promoted = mm_id candidate \<and> mm_scope promoted = mm_scope candidate
    \<and> mm_approval promoted = Some approval \<and> mm_created_at promoted = t"
  using assms
  by (auto simp: promote_l2_def valid_memory_def valid_approval_def tier_mismatch_def split: if_splits)

lemma promote_memory_inv:
  assumes "memory_inv y db" "ids_codec_ok y" "valid_approval approval"
  shows "memory_inv y (snd (promote_memory y f p sc i approval t db))"
proof (cases "promote_memory y f p sc i approval t db")
  case (Pair res db')
  show ?thesis
  proof (cases res)
    case (Inl e)
    with Pair assms(1) show ?thesis by (auto dest: promote_memory_error)
  next
    case (Inr promoted)
    with Pair have "promote_memory y f p sc i approval t db = (Inr promoted, db')" by simp
    then show ?thesis
    proof (rule promote_memory_Inr)
      fix ids s candidate row
      let ?row = "memory_row_of promoted (uint (mm_created_at promoted)) ids"
      assume row: "row \<in> set (db_memory db)" "in_memory_scope sc row" "yw_memory_id row = i" "yw_tier row = ''l1''"
          "decode_memory_record y sc row = Inr candidate"
        and prom: "promote_l2 candidate approval t = Inr promoted"
        and ok: "yc_write_ids y (mm_evidence_ids promoted) = Some ids" "uint (mm_created_at promoted) < 2 ^ 63"
          "\<not> memory_conflict ?row db"
        and db': "db' = with_memory ?row (audit_row_of (db_audit_seq db + 1) promoted PromotedMemory (uint t)
             (map_option ma_approval_id (mm_approval promoted))) db"
      have "memory_row_ok y row" using assms(1) row(1) by (simp add: memory_inv_def)
      from decode_ok_row [OF this, of sc] row(5) have c: "valid_memory candidate" "mm_id candidate = i" "mm_scope candidate = sc"
        using row(3) by auto
      note pv = promoted_valid [OF c(1) assms(3) prom]
      have id: "identity row = identity ?row" using row(2,3) pv c by (simp add: identity_def in_memory_scope_def)
      have "memory_inv y db'" unfolding db'
      proof (rule with_memory_inv)
        show "memory_row_ok y ?row" using assms(2) ok(1,2) pv by (intro memory_row_ok_record) auto
        show "audits_row ?row (audit_row_of (db_audit_seq db + 1) promoted PromotedMemory (uint t)
             (map_option ma_approval_id (mm_approval promoted)))"
          using pv by (auto simp: audits_row_def audit_row_of_def memory_key_def)
        show "\<exists>x \<in> set (db_memory db). yw_tier x = ''l1'' \<and> identity x = identity ?row" using row(1,4) id by blast
        show "(\<exists>x \<in> set (db_memory db). identity x = identity ?row)
            \<or> (\<forall>sc. in_memory_scope sc ?row \<longrightarrow> identity_count sc db < MAX_MEMORY_IDENTITIES_PER_SCOPE)"
          using row(1) id by blast
      qed (use assms(1) ok(3) pv in auto)
      then show ?thesis using Pair by simp
    qed
  qed
qed

lemma revocation_rows_props:
  "a \<in> set (revocation_rows n t rs) \<Longrightarrow> \<exists>r \<in> set rs. aw_session_id a = ms_session_id (mm_scope r)
     \<and> aw_provider a = ms_provider (mm_scope r) \<and> aw_memory_id a = mm_id r \<and> aw_action a = ''revoked''"
  by (induction rs arbitrary: n) (auto simp: audit_row_of_def)

lemma revocation_rows_ex: "rs \<noteq> [] \<Longrightarrow> \<exists>a. a \<in> set (revocation_rows n t rs)"
  by (cases rs) auto

lemma loaded_by_id:
  assumes "memory_inv y db" "load_memory_records_by_id y sc i db = Inr records" "r \<in> set records"
  shows "mm_id r = i \<and> mm_scope r = sc \<and> (\<exists>x \<in> set (db_memory db). in_memory_scope sc x \<and> yw_memory_id x = i)"
proof -
  obtain row where row: "row \<in> set (db_memory db)" "in_memory_scope sc row" "yw_memory_id row = i" "decode_memory_record y sc row = Inr r"
    using assms(2,3) by (auto simp: load_memory_records_by_id_def dest!: try_map_set)
  moreover have "memory_row_ok y row" using assms(1) row(1) by (simp add: memory_inv_def)
  ultimately show ?thesis using decode_ok_row [of y row sc] by auto
qed

lemma revoke_memory_inv:
  assumes inv: "memory_inv y db"
  shows "memory_inv y (snd (revoke_memory y f p sc i t db))"
proof (cases "revoke_memory y f p sc i t db")
  case (Pair res db')
  show ?thesis
  proof (cases res)
    case (Inl e)
    with Pair inv show ?thesis by (auto simp: revoke_memory_def dest: transact_error)
  next
    case (Inr u)
    with Pair have "revoke_memory y f p sc i t db = (Inr (), db')" by simp
    then obtain records where rec: "load_memory_records_by_id y sc i db = Inr records" "records \<noteq> []"
      and db': "db' = db\<lparr>db_revocations := db_revocations db @ [\<lparr>kw_session_id = ms_session_id sc, kw_provider = ms_provider sc,
                                  kw_memory_id = i, kw_revoked_at = uint t\<rparr>],
             db_audit := db_audit db @ revocation_rows (db_audit_seq db) t records,
             db_audit_seq := db_audit_seq db + int (length records)\<rparr>" by (rule revoke_memory_Inr) blast
    obtain a where a: "a \<in> set (revocation_rows (db_audit_seq db) t records)" using revocation_rows_ex [OF rec(2)] by blast
    have aud: "aw_session_id a = ms_session_id sc \<and> aw_provider a = ms_provider sc \<and> aw_memory_id a = i \<and> aw_action a = ''revoked''"
      using revocation_rows_props [OF a] loaded_by_id [OF inv rec(1)] by auto
    obtain r where "r \<in> set records" using rec(2) by (cases records) auto
    from loaded_by_id [OF inv rec(1) this] obtain x where x: "x \<in> set (db_memory db)" "in_memory_scope sc x" "yw_memory_id x = i" by auto
    have "identity_count sc' db' = identity_count sc' db" for sc'
    proof -
      have "yw_memory_id x \<in> yw_memory_id ` {x \<in> set (db_memory db). in_memory_scope sc' x}"
        if "ms_session_id sc = ms_session_id sc'" "ms_provider sc = ms_provider sc'"
        using x that by (intro imageI) (simp add: in_memory_scope_def)
      then show ?thesis using x(3) by (auto simp: identity_count_def db' intro!: arg_cong [where f = card])
    qed
    then have "within_capacity db'" using inv by (simp add: memory_inv_def within_capacity_def tier_count_def db')
    moreover have "audited db'" using inv a aud by (fastforce simp: memory_inv_def audited_def audits_revocation_def db')
    ultimately show ?thesis using Pair inv by (simp add: memory_inv_def promoted_from_l1_def db')
  qed
qed

text \<open>Removing whole identities whose tombstones stay, and removing whole sessions.\<close>

lemma length_filter_mono: "(\<And>x. x \<in> set xs \<Longrightarrow> P x \<Longrightarrow> Q x) \<Longrightarrow> length (filter P xs) \<le> length (filter Q xs)"
  by (induction xs) (auto intro: le_SucI)

lemma tier_count_filter: "db_memory db' = filter P (db_memory db) \<Longrightarrow> tier_count sc tier db' \<le> tier_count sc tier db"
  by (auto simp: tier_count_def intro: length_filter_mono)

lemma keyed_filter: "keyed key xs \<Longrightarrow> keyed key (filter P xs)"
  by (simp add: keyed_def distinct_map_filter)

lemma promoted_filter:
  assumes "promoted_from_l1 db" "db_memory db' = filter P (db_memory db)" "\<And>r x. identity x = identity r \<Longrightarrow> P r \<Longrightarrow> P x"
  shows "promoted_from_l1 db'"
  unfolding promoted_from_l1_def assms(2)
proof (intro ballI impI)
  fix r assume r: "r \<in> set (filter P (db_memory db))" "yw_tier r = ''l2''"
  then obtain x where "x \<in> set (db_memory db)" "yw_tier x = ''l1''" "identity x = identity r"
    using assms(1) by (auto simp: promoted_from_l1_def)
  then show "\<exists>x \<in> set (filter P (db_memory db)). yw_tier x = ''l1'' \<and> identity x = identity r"
    using assms(3) [of x r] r(1) by auto
qed

lemma compact_inv:
  assumes inv: "memory_inv y db"
  shows "memory_inv y (db\<lparr>db_memory := filter (\<lambda>r. \<not> compactable sc t db r) (db_memory db)\<rparr>)" (is "memory_inv y ?db'")
proof -
  have "identity_count sc' ?db' \<le> identity_count sc' db" for sc'
    unfolding identity_count_def by (intro card_mono) auto
  moreover have mem: "db_memory ?db' = filter (\<lambda>r. \<not> compactable sc t db r) (db_memory db)" by simp
  ultimately have "within_capacity ?db'"
    using inv tier_count_filter [OF mem] unfolding memory_inv_def within_capacity_def by (meson order_trans)
  moreover have "promoted_from_l1 ?db'"
  proof (rule promoted_filter [where db = db])
    show "\<not> compactable sc t db x" if "identity x = identity r" "\<not> compactable sc t db r" for r x
      using that by (simp add: compactable_def identity_def in_memory_scope_def)
  qed (use inv in \<open>auto simp: memory_inv_def\<close>)
  ultimately show ?thesis using inv by (auto simp: memory_inv_def audited_def keyed_filter)
qed

lemma without_sessions_memory_inv:
  assumes inv: "memory_inv y db"
  shows "memory_inv y (without_sessions S db)" (is "memory_inv y ?db'")
proof -
  have mem: "db_memory ?db' = filter (\<lambda>r. yw_session_id r \<notin> S) (db_memory db)" by (simp add: without_sessions_def)
  have "identity_count sc' ?db' \<le> identity_count sc' db" for sc'
    unfolding identity_count_def by (intro card_mono) (auto simp: without_sessions_def)
  then have "within_capacity ?db'"
    using inv tier_count_filter [OF mem] unfolding memory_inv_def within_capacity_def by (meson order_trans)
  moreover have "promoted_from_l1 ?db'"
    by (rule promoted_filter [OF _ mem]) (use inv in \<open>auto simp: memory_inv_def identity_def\<close>)
  moreover have "audited ?db'"
    unfolding audited_def
  proof (intro conjI ballI)
    fix r assume "r \<in> set (db_memory ?db')"
    then obtain a where "a \<in> set (db_audit db)" "audits_row r a" "yw_session_id r \<notin> S"
      using inv by (auto simp: memory_inv_def audited_def mem)
    then show "\<exists>a \<in> set (db_audit ?db'). audits_row r a"
      by (intro bexI [of _ a]) (auto simp: without_sessions_def audits_row_def memory_key_def)
  next
    fix k assume "k \<in> set (db_revocations ?db')"
    then obtain a where "a \<in> set (db_audit db)" "audits_revocation k a" "kw_session_id k \<notin> S"
      using inv by (auto simp: memory_inv_def audited_def without_sessions_def)
    then show "\<exists>a \<in> set (db_audit ?db'). audits_revocation k a"
      by (intro bexI [of _ a]) (auto simp: without_sessions_def audits_revocation_def)
  qed
  ultimately show ?thesis using inv by (auto simp: memory_inv_def mem keyed_filter)
qed

lemma memory_inv_cong:
  "db_memory db' = db_memory db \<Longrightarrow> db_revocations db' = db_revocations db \<Longrightarrow> db_audit db' = db_audit db \<Longrightarrow>
     memory_inv y db' = memory_inv y db"
  by (simp add: memory_inv_def promoted_from_l1_def within_capacity_def audited_def tier_count_def identity_count_def)

lemma memory_inv_empty: "memory_inv y empty_session_db"
  by (simp add: memory_inv_def empty_session_db_def promoted_from_l1_def within_capacity_def audited_def tier_count_def identity_count_def)


section \<open>The rest of the database\<close>

text \<open>Memory operations touch the memory tables of their own session only.\<close>

definition memory_change :: "session_id \<Rightarrow> session_db \<Rightarrow> session_db \<Rightarrow> bool" where
  "memory_change i db db' \<longleftrightarrow>
     (\<exists>m k a n. db' = db\<lparr>db_memory := m, db_revocations := k, db_audit := a, db_audit_seq := n\<rparr>)
   \<and> (\<forall>j. j \<noteq> i \<longrightarrow> same_session j db db')
   \<and> yw_session_id ` set (db_memory db') \<subseteq> insert i (yw_session_id ` set (db_memory db))
   \<and> kw_session_id ` set (db_revocations db') \<subseteq> insert i (kw_session_id ` set (db_revocations db))
   \<and> aw_session_id ` set (db_audit db') \<subseteq> insert i (aw_session_id ` set (db_audit db))"

lemma memory_change_refl [simp]: "memory_change i db db"
  unfolding memory_change_def by (intro conjI) (rule exI [of _ "db_memory db"], rule exI [of _ "db_revocations db"],
    rule exI [of _ "db_audit db"], rule exI [of _ "db_audit_seq db"], auto)

lemma memory_change_inv:
  assumes "memory_change i db db'" "session_inv c db" "i \<in> session_ids db"
  shows "session_inv c db'"
proof -
  from assms(1) obtain m k a n where db': "db' = db\<lparr>db_memory := m, db_revocations := k, db_audit := a, db_audit_seq := n\<rparr>"
    and sub: "yw_session_id ` set m \<subseteq> insert i (yw_session_id ` set (db_memory db))"
      "kw_session_id ` set k \<subseteq> insert i (kw_session_id ` set (db_revocations db))"
      "aw_session_id ` set a \<subseteq> insert i (aw_session_id ` set (db_audit db))"
    by (auto simp: memory_change_def)
  have "yw_session_id ` set m \<subseteq> session_ids db" "kw_session_id ` set k \<subseteq> session_ids db" "aw_session_id ` set a \<subseteq> session_ids db"
    by (rule order_trans [OF sub(1)], use assms(2,3) in \<open>simp add: session_inv_def owned_def\<close>)
       (rule order_trans [OF sub(2)], use assms(2,3) in \<open>simp add: session_inv_def owned_def\<close>,
        rule order_trans [OF sub(3)], use assms(2,3) in \<open>simp add: session_inv_def owned_def\<close>)
  then have "owned db'" using assms(2) by (simp add: session_inv_def owned_def db' session_ids_def)
  then show ?thesis using assms(2) by (simp add: db' session_inv_def counters_ok_def evaluation_log_def)
qed

lemma with_memory_change:
  assumes "yw_session_id row = i" "aw_session_id a = i"
  shows "memory_change i db (with_memory row a db)"
  unfolding memory_change_def with_memory_def
  by (intro conjI exI [of _ "db_memory db @ [row]"] exI [of _ "db_revocations db"] exI [of _ "db_audit db @ [a]"] exI)
     (use assms in \<open>auto simp: same_session_def\<close>)

lemma record_memory_change:
  assumes "record_memory_with_limit y f p r limit kind db = (res, db')"
  shows "memory_change (ms_session_id (mm_scope r)) db db' \<and>
    (db' \<noteq> db \<longrightarrow> (\<exists>s. memory_session f p (mm_scope r) db = Inr s))"
proof (cases res)
  case (Inl e)
  then show ?thesis using assms record_memory_error by fastforce
next
  case (Inr u)
  with assms have "record_memory_with_limit y f p r limit kind db = (Inr (), db')" by simp
  then show ?thesis by (rule record_memory_Inr) (auto intro!: with_memory_change simp: audit_row_of_def)
qed

lemma promote_memory_change:
  assumes "promote_memory y f p sc i approval t db = (res, db')" "memory_inv y db"
  shows "memory_change (ms_session_id sc) db db' \<and> (db' \<noteq> db \<longrightarrow> (\<exists>s. memory_session f p sc db = Inr s))"
proof (cases res)
  case (Inl e)
  then show ?thesis using assms promote_memory_error by fastforce
next
  case (Inr promoted)
  with assms have "promote_memory y f p sc i approval t db = (Inr promoted, db')" by simp
  then show ?thesis
  proof (rule promote_memory_Inr)
    fix ids s candidate row
    let ?row = "memory_row_of promoted (uint (mm_created_at promoted)) ids"
    assume s: "memory_session f p sc db = Inr s"
      and row: "row \<in> set (db_memory db)" "decode_memory_record y sc row = Inr candidate" "promote_l2 candidate approval t = Inr promoted"
      and db': "db' = with_memory ?row (audit_row_of (db_audit_seq db + 1) promoted PromotedMemory (uint t)
             (map_option ma_approval_id (mm_approval promoted))) db"
    have "memory_row_ok y row" using assms(2) row(1) by (simp add: memory_inv_def)
    from decode_ok_row [OF this, of sc] row(2) have "mm_scope candidate = sc" by auto
    then have "mm_scope promoted = sc" using row(3) by (auto simp: promote_l2_def split: if_splits)
    then show ?thesis unfolding db' using s by (auto intro!: with_memory_change simp: audit_row_of_def)
  qed
qed

lemma revoke_memory_change:
  assumes "revoke_memory y f p sc i t db = (res, db')" "memory_inv y db"
  shows "memory_change (ms_session_id sc) db db' \<and> (db' \<noteq> db \<longrightarrow> (\<exists>s. memory_session f p sc db = Inr s))"
proof (cases res)
  case (Inl e)
  then show ?thesis using assms by (auto simp: revoke_memory_def dest!: transact_error)
next
  case (Inr u)
  with assms have "revoke_memory y f p sc i t db = (Inr (), db')" by simp
  then obtain s records where s: "memory_session f p sc db = Inr s" and rec: "load_memory_records_by_id y sc i db = Inr records"
    and db': "db' = db\<lparr>db_revocations := db_revocations db @ [\<lparr>kw_session_id = ms_session_id sc, kw_provider = ms_provider sc,
                                  kw_memory_id = i, kw_revoked_at = uint t\<rparr>],
             db_audit := db_audit db @ revocation_rows (db_audit_seq db) t records,
             db_audit_seq := db_audit_seq db + int (length records)\<rparr>" by (rule revoke_memory_Inr) blast
  have own: "aw_session_id a = ms_session_id sc" if "a \<in> set (revocation_rows (db_audit_seq db) t records)" for a
    using revocation_rows_props [OF that] loaded_by_id [OF assms(2) rec] by auto
  have "memory_change (ms_session_id sc) db db'" unfolding memory_change_def
  proof (intro conjI allI impI)
    show "\<exists>m k a n. db' = db\<lparr>db_memory := m, db_revocations := k, db_audit := a, db_audit_seq := n\<rparr>"
      unfolding db' by (rule exI [of _ "db_memory db"]) (auto simp: ext)
    show "same_session j db db'" if "j \<noteq> ms_session_id sc" for j
      using that own by (auto simp: same_session_def db' intro!: filter_none)
  qed (auto simp: db' dest: own)
  with s show ?thesis by blast
qed

lemma compact_revoked_memory_change:
  assumes "compact_revoked_memory f p sc before db = (res, db')"
  shows "memory_change (ms_session_id sc) db db' \<and> (db' \<noteq> db \<longrightarrow> (\<exists>s. memory_session f p sc db = Inr s))"
proof (cases res)
  case (Inl e)
  then show ?thesis using assms compact_revoked_memory_error by fastforce
next
  case (Inr n)
  with assms have "compact_revoked_memory f p sc before db = (Inr n, db')" by simp
  then obtain s where s: "memory_session f p sc db = Inr s"
    and db': "db' = db\<lparr>db_memory := filter (\<lambda>r. \<not> compactable sc (uint before) db r) (db_memory db)\<rparr>"
    by (rule compact_revoked_memory_Inr) blast
  have "memory_change (ms_session_id sc) db db'" unfolding memory_change_def
  proof (intro conjI allI impI)
    show "\<exists>m k a n. db' = db\<lparr>db_memory := m, db_revocations := k, db_audit := a, db_audit_seq := n\<rparr>"
      unfolding db' by (rule exI, rule exI [of _ "db_revocations db"], rule exI [of _ "db_audit db"], rule exI [of _ "db_audit_seq db"]) simp
    show "same_session j db db'" if "j \<noteq> ms_session_id sc" for j
    proof -
      have "filter (\<lambda>r. \<not> compactable sc (uint before) db r \<and> yw_session_id r = j) (db_memory db) = filter (\<lambda>r. yw_session_id r = j) (db_memory db)"
        using that by (intro filter_cong) (auto simp: compactable_def in_memory_scope_def)
      then show ?thesis by (simp add: same_session_def db')
    qed
  qed (auto simp: db')
  with s show ?thesis by blast
qed

end
