(* ===== verification/Session_Runs.thy ===== *)
theory Session_Runs
  imports Memory_Store
begin

text \<open>
  Sequences of operations on the session database: every operation of \<open>Session_Store\<close> and \<open>Memory_Store\<close>
  that writes, called by anyone, in any order and with any database failures. The states reached from the
  empty database keep the invariants of both, and the properties of a single operation become properties of
  histories: what was appended is read back, what was revoked stays away, and callers of one scope never
  change what another scope sees. The connection's mutex makes the operations critical sections, so
  concurrent callers are covered by quantifying over sequences.
\<close>

datatype 'm session_op =
  CreateSession faults session
| AppendExecution faults session_id session_caller "runtime_event list" evaluation_receipt "rollout option" timestamp
| AppendEvents faults session_id session_caller "runtime_event list" timestamp
| AppendEvent faults session_id session_caller runtime_event "timestamp option"
| SaveTranscript faults session_id session_caller "'m list"
| PruneSessions faults session_caller u64 bool u64
| RecordMemory faults principal_id memory_record
| RecordL1Evidence faults principal_id memory_record
| RecordFeedback faults session principal_id string evaluation_receipt
| PromoteMemory faults principal_id memory_scope memory_id memory_approval timestamp
| RevokeMemory faults principal_id memory_scope memory_id timestamp
| CompactMemory faults principal_id memory_scope timestamp

fun exec_session ::
  "'m session_codec \<Rightarrow> memory_codec \<Rightarrow> (string \<Rightarrow> string) \<Rightarrow> 'm session_op \<Rightarrow> session_db \<Rightarrow> session_db" where
  "exec_session c y sha (CreateSession f s) db = snd (create_session f s db)"
| "exec_session c y sha (AppendExecution f i cl events v rollout recorded) db =
     snd (append_execution_with_rollout c sha f i cl events v rollout recorded db)"
| "exec_session c y sha (AppendEvents f i cl events recorded) db = snd (append_events_at c f i cl events recorded db)"
| "exec_session c y sha (AppendEvent f i cl ev recorded) db = snd (append_event_recorded_at c f i cl ev recorded db)"
| "exec_session c y sha (SaveTranscript f i cl messages) db = snd (save_agent_transcript c f i cl messages db)"
| "exec_session c y sha (PruneSessions f cl older dry now) db = snd (prune_sessions f cl older dry now db)"
| "exec_session c y sha (RecordMemory f p r) db = snd (record_memory y f p r db)"
| "exec_session c y sha (RecordL1Evidence f p r) db = snd (record_l1_evidence y f p r db)"
| "exec_session c y sha (RecordFeedback f s p provider v) db = snd (record_evaluation_feedback y sha f s p provider v db)"
| "exec_session c y sha (PromoteMemory f p sc i approval t) db = snd (promote_memory y f p sc i approval t db)"
| "exec_session c y sha (RevokeMemory f p sc i t) db = snd (revoke_memory y f p sc i t db)"
| "exec_session c y sha (CompactMemory f p sc t) db = snd (compact_revoked_memory f p sc t db)"

text \<open>What Rust's types guarantee of the arguments: they were built by their constructors.\<close>

fun typed_op :: "'m session_op \<Rightarrow> bool" where
  "typed_op (CreateSession f s) = valid_session s"
| "typed_op (AppendExecution f i cl events v rollout recorded) = valid_receipt v"
| "typed_op (RecordMemory f p r) = valid_memory r"
| "typed_op (RecordL1Evidence f p r) = valid_memory r"
| "typed_op (PromoteMemory f p sc i approval t) = valid_approval approval"
| "typed_op _ = True"

text \<open>The caller an operation acts for; a new session is created for nobody yet.\<close>

fun op_caller :: "'m session_op \<Rightarrow> session_caller option" where
  "op_caller (CreateSession f s) = None"
| "op_caller (AppendExecution f i cl events v rollout recorded) = Some cl"
| "op_caller (AppendEvents f i cl events recorded) = Some cl"
| "op_caller (AppendEvent f i cl ev recorded) = Some cl"
| "op_caller (SaveTranscript f i cl messages) = Some cl"
| "op_caller (PruneSessions f cl older dry now) = Some cl"
| "op_caller (RecordMemory f p r) = Some (scope_caller p (mm_scope r))"
| "op_caller (RecordL1Evidence f p r) = Some (scope_caller p (mm_scope r))"
| "op_caller (RecordFeedback f s p provider v) =
     Some \<lparr>cl_principal_id = p, cl_tenant_id = se_tenant_id s, cl_workspace_id = se_workspace_id s\<rparr>"
| "op_caller (PromoteMemory f p sc i approval t) = Some (scope_caller p sc)"
| "op_caller (RevokeMemory f p sc i t) = Some (scope_caller p sc)"
| "op_caller (CompactMemory f p sc t) = Some (scope_caller p sc)"

inductive reachable_db :: "'m session_codec \<Rightarrow> memory_codec \<Rightarrow> (string \<Rightarrow> string) \<Rightarrow> session_db \<Rightarrow> bool"
  for c y sha where
  fresh: "reachable_db c y sha empty_session_db"
| step: "reachable_db c y sha db \<Longrightarrow> typed_op op \<Longrightarrow> reachable_db c y sha (exec_session c y sha op db)"


section \<open>The invariant of the whole database\<close>

definition store_inv :: "'m session_codec \<Rightarrow> memory_codec \<Rightarrow> session_db \<Rightarrow> bool" where
  "store_inv c y db \<longleftrightarrow> session_inv c db \<and> memory_inv y db"

text \<open>An operation that only changes the memory of a session its caller owns.\<close>

definition memory_step :: "faults \<Rightarrow> principal_id \<Rightarrow> memory_scope \<Rightarrow> session_db \<Rightarrow> session_db \<Rightarrow> bool" where
  "memory_step f p sc db db' \<longleftrightarrow>
     memory_change (ms_session_id sc) db db' \<and> (db' \<noteq> db \<longrightarrow> (\<exists>s. memory_session f p sc db = Inr s))"

lemma memory_step_refl [simp]: "memory_step f p sc db db"
  by (simp add: memory_step_def)

lemma memory_step_inv: "memory_step f p sc db db' \<Longrightarrow> session_inv c db \<Longrightarrow> session_inv c db'"
  unfolding memory_step_def memory_session_def by (metis memory_change_inv scoped_session_owned)

lemma record_with_limit_step: "memory_step f p (mm_scope r) db (snd (record_memory_with_limit y f p r limit kind db))"
  unfolding memory_step_def by (rule record_memory_change) (rule prod.collapse [symmetric])

lemma record_memory_step: "memory_step f p (mm_scope r) db (snd (record_memory y f p r db))"
  by (simp add: record_memory_def record_with_limit_step)

lemma record_l1_step: "memory_step f p (mm_scope r) db (snd (record_l1_evidence y f p r db))"
  by (simp add: record_l1_evidence_def record_with_limit_step)

lemma memory_op_steps:
  assumes "memory_inv y db"
  shows "memory_step f p sc db (snd (promote_memory y f p sc i approval t db))"
    "memory_step f p sc db (snd (revoke_memory y f p sc i t db))"
    "memory_step f p sc db (snd (compact_revoked_memory f p sc t db))"
  unfolding memory_step_def
  by (rule promote_memory_change [OF prod.collapse [symmetric] assms])
     (rule revoke_memory_change [OF prod.collapse [symmetric] assms],
      rule compact_revoked_memory_change [OF prod.collapse [symmetric]])

lemma record_memory_store_inv:
  assumes "memory_inv y db" "ids_codec_ok y" "valid_memory r"
  shows "memory_inv y (snd (record_memory y f p r db))" "memory_inv y (snd (record_l1_evidence y f p r db))"
  using assms by (auto simp: record_memory_def record_l1_evidence_def intro: record_memory_inv)

text \<open>A lesson from a failed evaluation is a record like any other.\<close>

lemma new_l1_with_origin_sel:
  "new_l1_with_origin i kind scope summary classification created provenance origin evidence = Inr r \<Longrightarrow>
     mm_scope r = scope \<and> mm_tier r = L1 \<and> mm_kind r = kind \<and> mm_classification r = classification"
  unfolding new_l1_with_origin_def new_with_origin_Inr by (cases r) simp

lemma feedback_cases:
  obtains (nothing) "snd (record_evaluation_feedback y sha f s p provider v db) = db"
  | (lesson) r sc where "valid_memory r" "mm_scope r = sc" "mm_tier r = L1" "mm_kind r = LessonKind"
      "mm_classification r = InternalContext" "ms_session_id sc = se_id s" "ms_tenant_id sc = se_tenant_id s"
      "ms_workspace_id sc = se_workspace_id s"
      "snd (record_evaluation_feedback y sha f s p provider v db) = snd (record_memory y f p r db)"
proof (cases "snd (record_evaluation_feedback y sha f s p provider v db) = db")
  case False
  then have ne: "vr_session_id v = se_id s" "failed_kinds v \<noteq> []"
    by (auto simp: record_evaluation_feedback_def split: if_splits)
  obtain sc where sc: "new_memory_scope (se_tenant_id s) (se_workspace_id s) (se_id s) provider = Inr sc"
    using False ne by (cases "new_memory_scope (se_tenant_id s) (se_workspace_id s) (se_id s) provider")
      (simp_all add: record_evaluation_feedback_def)
  let ?new = "new_l1 (evaluation_feedback_id sha (vr_execution_id v)) LessonKind sc
      (EVALUATION_FEEDBACK_PREFIX @ join_with '', '' (failed_kinds v) @ EVALUATION_FEEDBACK_SUFFIX)
      InternalContext (vr_evaluated_at v) (''evaluation:'' @ vr_execution_id v)"
  obtain r where r: "?new = Inr r" using False ne sc by (cases ?new) (simp_all add: record_evaluation_feedback_def)
  have eq: "snd (record_evaluation_feedback y sha f s p provider v db) = snd (record_memory y f p r db)"
    using ne sc r by (simp add: record_evaluation_feedback_def split: prod.splits sum.splits)
  have l1: "new_l1_with_origin (evaluation_feedback_id sha (vr_execution_id v)) LessonKind sc
      (EVALUATION_FEEDBACK_PREFIX @ join_with '', '' (failed_kinds v) @ EVALUATION_FEEDBACK_SUFFIX)
      InternalContext (vr_evaluated_at v) (''evaluation:'' @ vr_execution_id v) Explicit [] = Inr r"
    using r unfolding new_l1_def new_memory_def new_l1_with_origin_def .
  have rr: "mm_scope r = sc \<and> mm_tier r = L1 \<and> mm_kind r = LessonKind \<and> mm_classification r = InternalContext"
    by (rule new_l1_with_origin_sel [OF l1])
  from sc have "ms_session_id sc = se_id s" "ms_tenant_id sc = se_tenant_id s" "ms_workspace_id sc = se_workspace_id s"
    by (auto simp: new_memory_scope_def)
  with rr eq new_l1_with_origin_valid [OF l1] show thesis by (intro lesson [of r sc]) simp_all
qed (rule nothing)

lemma feedback_step:
  assumes "memory_inv y db" "ids_codec_ok y"
  shows "memory_inv y (snd (record_evaluation_feedback y sha f s p provider v db))"
    and "\<exists>sc. scope_caller p sc = \<lparr>cl_principal_id = p, cl_tenant_id = se_tenant_id s, cl_workspace_id = se_workspace_id s\<rparr>
      \<and> memory_step f p sc db (snd (record_evaluation_feedback y sha f s p provider v db))"
proof -
  let ?sc = "\<lparr>ms_tenant_id = se_tenant_id s, ms_workspace_id = se_workspace_id s, ms_session_id = se_id s, ms_provider = provider\<rparr>"
  have "memory_inv y (snd (record_evaluation_feedback y sha f s p provider v db)) \<and>
    (\<exists>sc. scope_caller p sc = \<lparr>cl_principal_id = p, cl_tenant_id = se_tenant_id s, cl_workspace_id = se_workspace_id s\<rparr>
      \<and> memory_step f p sc db (snd (record_evaluation_feedback y sha f s p provider v db)))"
  proof (cases rule: feedback_cases [of y sha f s p provider v db])
    case nothing
    then show ?thesis using assms(1) by (auto simp: scope_caller_def intro: exI [of _ ?sc])
  next
    case (lesson r sc)
    then show ?thesis
      using record_memory_store_inv(1) [OF assms lesson(1)] record_memory_step [of f p r db y]
      by (auto simp: scope_caller_def)
  qed
  then show "memory_inv y (snd (record_evaluation_feedback y sha f s p provider v db))"
    "\<exists>sc. scope_caller p sc = \<lparr>cl_principal_id = p, cl_tenant_id = se_tenant_id s, cl_workspace_id = se_workspace_id s\<rparr>
      \<and> memory_step f p sc db (snd (record_evaluation_feedback y sha f s p provider v db))" by blast+
qed

text \<open>An operation of the session part leaves the memory tables alone, or deletes whole sessions from them.\<close>

lemma transact_cases: "snd (transact db r) = (case r of Inl _ \<Rightarrow> db | Inr db' \<Rightarrow> db')"
  by (simp add: transact_def split: sum.splits)

definition memory_kept :: "session_db \<Rightarrow> session_db \<Rightarrow> bool" where
  "memory_kept db db' \<longleftrightarrow>
     db_memory db' = db_memory db \<and> db_revocations db' = db_revocations db \<and> db_audit db' = db_audit db"

lemma memory_kept_inv: "memory_kept db db' \<Longrightarrow> memory_inv y db' = memory_inv y db"
  by (rule memory_inv_cong) (simp_all add: memory_kept_def)

text \<open>A session operation: it changes nothing, or one session that its caller owns and no memory.\<close>

definition session_step :: "faults \<Rightarrow> session_id \<Rightarrow> session_caller \<Rightarrow> session_db \<Rightarrow> session_db \<Rightarrow> bool" where
  "session_step f i cl db db' \<longleftrightarrow>
     memory_kept db db' \<and> db_sessions db' = db_sessions db \<and> (\<forall>j. j \<noteq> i \<longrightarrow> same_session j db db')
   \<and> (db' \<noteq> db \<longrightarrow> (\<exists>s. scoped_session f i cl db = Inr s))"

lemma session_step_refl [simp]: "session_step f i cl db db"
  by (simp add: session_step_def memory_kept_def)

lemma append_execution_step:
  assumes "db_event_seq db < 2 ^ 63"
  shows "session_step f i cl db (snd (append_execution_with_rollout c sha f i cl events v rollout recorded db))"
proof (cases "append_execution_with_rollout c sha f i cl events v rollout recorded db")
  case (Pair r db')
  show ?thesis
  proof (cases r)
    case (Inl e)
    with Pair have "db' = db" by (auto simp: append_execution_with_rollout_def dest: transact_error)
    with Pair show ?thesis by simp
  next
    case (Inr u)
    with Pair have "append_execution_with_rollout c sha f i cl events v rollout recorded db = (Inr (), db')" by simp
    then obtain jsons s where db': "db' = with_execution i jsons v rollout recorded db" and s: "scoped_session f i cl db = Inr s"
      and "vr_session_id v = i" using assms by (rule append_execution_Inr) blast
    then show ?thesis using Pair with_execution_same [of _ i v db jsons rollout recorded]
      by (auto simp: session_step_def memory_kept_def with_execution_def with_events_def Let_def)
  qed
qed

lemma append_events_step:
  assumes "db_event_seq db < 2 ^ 63"
  shows "session_step f i cl db (snd (append_events_at c f i cl events recorded db))"
proof (cases "append_events_at c f i cl events recorded db")
  case (Pair r db')
  show ?thesis
  proof (cases "events = [] \<or> \<not> is_ok r")
    case True
    with Pair have "db' = db" by (cases r) (auto simp: append_events_at_def dest: transact_error split: if_splits)
    with Pair show ?thesis by simp
  next
    case False
    with Pair have "append_events_at c f i cl events recorded db = (Inr (), db')" "events \<noteq> []" by (auto simp: is_ok_iff)
    then obtain jsons s where "db' = with_events i (Some (uint recorded)) jsons db" "scoped_session f i cl db = Inr s"
      using assms by (auto elim: append_events_Inr)
    then show ?thesis using Pair with_events_same [of _ i db "Some (uint recorded)" jsons]
      by (auto simp: session_step_def memory_kept_def with_events_def)
  qed
qed

lemma append_event_step: "session_step f i cl db (snd (append_event_recorded_at c f i cl ev recorded db))"
proof (cases "append_event_recorded_at c f i cl ev recorded db")
  case (Pair r db')
  show ?thesis
  proof (cases r)
    case (Inl e)
    with Pair have "db' = db" by (auto simp: append_event_recorded_at_def dest: transact_error)
    with Pair show ?thesis by simp
  next
    case (Inr u)
    with Pair have "append_event_recorded_at c f i cl ev recorded db = (Inr (), db')" by simp
    then obtain t x where "db' = with_events i (map_option uint recorded) [t] db" "scoped_session f i cl db = Inr x"
      by (rule append_event_Inr) blast
    then show ?thesis using Pair with_events_same [of _ i db "map_option uint recorded" "[t]"]
      by (auto simp: session_step_def memory_kept_def with_events_def)
  qed
qed

lemma save_transcript_step: "session_step f i cl db (snd (save_agent_transcript c f i cl messages db))"
proof (cases "save_agent_transcript c f i cl messages db")
  case (Pair r db')
  show ?thesis
  proof (cases r)
    case (Inl e)
    with Pair have "db' = db" by (auto simp: save_agent_transcript_def dest: transact_error)
    with Pair show ?thesis by simp
  next
    case (Inr u)
    with Pair have "save_agent_transcript c f i cl messages db = (Inr (), db')" by simp
    then obtain jsons s where "db' = with_transcript i jsons db" "scoped_session f i cl db = Inr s"
      by (rule save_agent_transcript_Inr) blast
    then show ?thesis using Pair with_transcript_same [of _ i db jsons]
      by (auto simp: session_step_def memory_kept_def with_transcript_def)
  qed
qed

text \<open>The four shapes an operation can have.\<close>

lemma exec_shape:
  assumes "store_inv c y db" "ids_codec_ok y"
  obtains (create) f s where "op = CreateSession f s"
  | (session) f i cl where "op_caller op = Some cl" "session_step f i cl db (exec_session c y sha op db)"
  | (prune) f cl older dry now where "op = PruneSessions f cl older dry now"
  | (memory) f p sc where "op_caller op = Some (scope_caller p sc)" "memory_step f p sc db (exec_session c y sha op db)"
proof -
  have seq: "db_event_seq db < 2 ^ 63" and mem: "memory_inv y db"
    using assms(1) session_invD(5) [of c db] by (auto simp: store_inv_def)
  show thesis
  proof (cases op)
    case (AppendExecution f i cl events v rollout recorded)
    then show thesis using append_execution_step [OF seq] by (intro session [of cl f i]) simp_all
  next
    case (AppendEvents f i cl events recorded)
    then show thesis using append_events_step [OF seq] by (intro session [of cl f i]) simp_all
  next
    case (AppendEvent f i cl ev recorded)
    then show thesis using append_event_step by (intro session [of cl f i]) simp_all
  next
    case (SaveTranscript f i cl messages)
    then show thesis using save_transcript_step by (intro session [of cl f i]) simp_all
  next
    case (RecordMemory f p r)
    then show thesis using record_memory_step by (intro memory [of p "mm_scope r" f]) simp_all
  next
    case (RecordL1Evidence f p r)
    then show thesis using record_l1_step by (intro memory [of p "mm_scope r" f]) simp_all
  next
    case (RecordFeedback f s p provider v)
    obtain sc where "scope_caller p sc = \<lparr>cl_principal_id = p, cl_tenant_id = se_tenant_id s, cl_workspace_id = se_workspace_id s\<rparr>"
      "memory_step f p sc db (snd (record_evaluation_feedback y sha f s p provider v db))"
      using feedback_step(2) [OF mem assms(2)] by blast
    then show thesis using RecordFeedback by (intro memory [of p sc f]) simp_all
  next
    case (PromoteMemory f p sc i approval t)
    then show thesis using memory_op_steps(1) [OF mem] by (intro memory [of p sc f]) simp_all
  next
    case (RevokeMemory f p sc i t)
    then show thesis using memory_op_steps(2) [OF mem] by (intro memory [of p sc f]) simp_all
  next
    case (CompactMemory f p sc t)
    then show thesis using memory_op_steps(3) [OF mem] by (intro memory [of p sc f]) simp_all
  qed (rule create prune; assumption)+
qed

lemma exec_session_inv:
  assumes inv: "store_inv c y db" and ok: "codec_ok c" "ids_codec_ok y" "typed_op op"
  shows "session_inv c (exec_session c y sha op db)"
proof -
  have s: "session_inv c db" and m: "memory_inv y db" using inv by (simp_all add: store_inv_def)
  show ?thesis
  proof (cases op)
    case (CreateSession f x)
    then show ?thesis using create_session_inv [OF s] ok(3) by simp
  next
    case (AppendExecution f i cl events v rollout recorded)
    then show ?thesis using append_execution_inv [OF s ok(1)] ok(3) by simp
  next
    case (RecordFeedback f x p provider v)
    obtain sc where "memory_step f p sc db (snd (record_evaluation_feedback y sha f x p provider v db))"
      using feedback_step(2) [OF m ok(2)] by blast
    from memory_step_inv [OF this s] RecordFeedback show ?thesis by simp
  qed (simp_all add: append_events_inv [OF s ok(1)] append_event_inv [OF s ok(1)] save_agent_transcript_inv [OF s ok(1)]
      prune_sessions_inv [OF s] memory_step_inv [OF record_memory_step s] memory_step_inv [OF record_l1_step s]
      memory_step_inv [OF memory_op_steps(1) [OF m] s] memory_step_inv [OF memory_op_steps(2) [OF m] s]
      memory_step_inv [OF memory_op_steps(3) [OF m] s])
qed

lemma compact_revoked_memory_inv: "memory_inv y db \<Longrightarrow> memory_inv y (snd (compact_revoked_memory f p sc t db))"
  by (cases "fst (compact_revoked_memory f p sc t db)") (auto simp: compact_revoked_memory_def intro: compact_inv split: sum.splits)

lemma create_session_kept: "memory_kept db (snd (create_session f s db))"
  by (simp add: create_session_def memory_kept_def split: sum.splits)

lemma exec_memory_inv:
  assumes inv: "store_inv c y db" and ok: "ids_codec_ok y" "typed_op op"
  shows "memory_inv y (exec_session c y sha op db)"
proof -
  have m: "memory_inv y db" and seq: "db_event_seq db < 2 ^ 63"
    using inv session_invD(5) [of c db] by (simp_all add: store_inv_def)
  have kept: "memory_inv y db'" if "session_step f i cl db db'" for f i cl db'
    using that m memory_kept_inv [of db db' y] by (simp add: session_step_def)
  show ?thesis
  proof (cases op)
    case (CreateSession f s)
    then show ?thesis using m memory_kept_inv [OF create_session_kept [of db f s], of y] by simp
  next
    case (RecordMemory f p r)
    then show ?thesis using record_memory_store_inv(1) [OF m ok(1)] ok(2) by simp
  next
    case (RecordL1Evidence f p r)
    then show ?thesis using record_memory_store_inv(2) [OF m ok(1)] ok(2) by simp
  next
    case (PromoteMemory f p sc i approval t)
    then show ?thesis using promote_memory_inv [OF m ok(1)] ok(2) by simp
  next
    case (PruneSessions f cl older dry now)
    then show ?thesis using m by (simp add: prune_sessions_eq without_sessions_memory_inv)
  qed (simp_all add: feedback_step(1) [OF m ok(1)] revoke_memory_inv [OF m] compact_revoked_memory_inv [OF m]
      kept [OF append_execution_step [OF seq]] kept [OF append_events_step [OF seq]] kept [OF append_event_step]
      kept [OF save_transcript_step])
qed

lemma session_inv_empty: "session_inv c empty_session_db"
  by (auto simp: session_inv_def empty_session_db_def counters_ok_def owned_def evaluation_log_def intro: exI [of _ "[]"])

lemma store_inv_empty: "store_inv c y empty_session_db"
  by (simp add: store_inv_def memory_inv_empty session_inv_empty)

lemma exec_store_inv:
  "store_inv c y db \<Longrightarrow> codec_ok c \<Longrightarrow> ids_codec_ok y \<Longrightarrow> typed_op op \<Longrightarrow> store_inv c y (exec_session c y sha op db)"
  unfolding store_inv_def by (meson exec_memory_inv exec_session_inv store_inv_def)

lemma reachable_inv:
  assumes "reachable_db c y sha db" "codec_ok c" "ids_codec_ok y"
  shows "store_inv c y db"
  using assms(1) by (induction) (use assms(2,3) in \<open>auto intro: store_inv_empty exec_store_inv\<close>)

lemma reachable_run:
  assumes "reachable_db c y sha db" "list_all typed_op ops"
  shows "reachable_db c y sha (run_ops (exec_session c y sha) ops db)"
  using assms by (induction ops arbitrary: db) (auto intro: reachable_db.step)

lemma reachable_runD: "list_all typed_op ops \<Longrightarrow> reachable_db c y sha (run_ops (exec_session c y sha) ops empty_session_db)"
  by (rule reachable_run) (rule reachable_db.fresh)

lemmas reachable_session_inv = reachable_inv [unfolded store_inv_def, THEN conjunct1]
lemmas reachable_memory_inv = reachable_inv [unfolded store_inv_def, THEN conjunct2]

section \<open>Isolation\<close>

text \<open>
  The contract of a store that isolates its owners: every object has an owner, an operation acts for an
  actor, and an operation of anyone else leaves the owner's view of the object as it was. Then so does
  every sequence of such operations.
\<close>

locale isolated_objects =
  fixes exec :: "'op \<Rightarrow> 's \<Rightarrow> 's"
    and actor :: "'op \<Rightarrow> 'a option"
    and owns :: "'s \<Rightarrow> 'k \<Rightarrow> 'a \<Rightarrow> bool"
    and view_eq :: "'k \<Rightarrow> 's \<Rightarrow> 's \<Rightarrow> bool"
    and inv :: "'s \<Rightarrow> bool"
    and typed :: "'op \<Rightarrow> bool"
  assumes inv_kept: "inv s \<Longrightarrow> typed x \<Longrightarrow> inv (exec x s)"
    and respects: "inv s \<Longrightarrow> typed x \<Longrightarrow> owns s k a \<Longrightarrow> actor x \<noteq> Some a \<Longrightarrow> view_eq k s (exec x s)"
    and owner_seen: "view_eq k s s' \<Longrightarrow> owns s k a \<Longrightarrow> owns s' k a"
    and view_refl: "view_eq k s s"
    and view_trans: "view_eq k s s' \<Longrightarrow> view_eq k s' s'' \<Longrightarrow> view_eq k s s''"
begin

lemma isolated_run:
  assumes "inv s" "owns s k a" "\<forall>x \<in> set xs. typed x \<and> actor x \<noteq> Some a"
  shows "view_eq k s (run_ops exec xs s)"
  using assms
proof (induction xs arbitrary: s)
  case Nil
  then show ?case by (simp add: view_refl)
next
  case (Cons x xs)
  then have "view_eq k s (exec x s)" by (auto intro: respects)
  moreover from this have "view_eq k (exec x s) (run_ops exec xs (exec x s))"
    using Cons.prems by (intro Cons.IH) (auto intro: inv_kept owner_seen)
  ultimately show ?case by (auto intro: view_trans)
qed

end

definition owns_session :: "session_db \<Rightarrow> session_id \<Rightarrow> session_caller \<Rightarrow> bool" where
  "owns_session db i cl \<longleftrightarrow> (\<exists>r. row_lookup sw_id i (db_sessions db) = Some r \<and> in_caller_scope cl r)"

lemma scoped_owns: "scoped_session f i cl db = Inr s \<Longrightarrow> owns_session db i cl"
  unfolding owns_session_def by (auto dest: scoped_session_InrD)

lemma owner_unique: "owns_session db i cl \<Longrightarrow> owns_session db i cl' \<Longrightarrow> cl = cl'"
  by (cases cl; cases cl') (auto simp: owns_session_def in_caller_scope_def)

lemma create_session_other:
  assumes "owns_session db i cl"
  shows "same_session i db (snd (create_session f s db))"
proof (cases "create_session f s db")
  case (Pair r db')
  show ?thesis
  proof (cases r)
    case (Inl e)
    with Pair have "db' = db" by (auto dest: create_session_error)
    with Pair show ?thesis by simp
  next
    case (Inr u)
    with Pair have "row_lookup sw_id (se_id s) (db_sessions db) = None"
      "db' = db\<lparr>db_sessions := row_insert (session_row_of s (uint (se_created_at s))) (db_sessions db)\<rparr>"
      using create_session_Inr [of f s db db'] by auto
    moreover obtain r where "row_lookup sw_id i (db_sessions db) = Some r" using assms by (auto simp: owns_session_def)
    ultimately show ?thesis using Pair by (simp add: same_session_def)
  qed
qed

lemma prune_other:
  assumes inv: "session_inv c db" and own: "owns_session db i owner" and cl: "cl \<noteq> owner"
  shows "same_session i db (snd (prune_sessions f cl older dry now db))"
proof -
  have "i \<notin> set (prune_candidates cl cutoff db)" for cutoff
  proof
    assume "i \<in> set (prune_candidates cl cutoff db)"
    then obtain r where "r \<in> set (db_sessions db)" "sw_id r = i" "in_caller_scope cl r" by (auto simp: prune_candidates_def)
    then have "owns_session db i cl" using session_invD(1) [OF inv] by (auto simp: owns_session_def row_lookup_Some_iff)
    then show False using owner_unique own cl by blast
  qed
  then show ?thesis by (auto simp: prune_sessions_eq intro: without_sessions_same)
qed

lemma exec_respects:
  assumes inv: "store_inv c y db" "ids_codec_ok y" and own: "owns_session db i owner" and act: "op_caller op \<noteq> Some owner"
  shows "same_session i db (exec_session c y sha op db)"
  using inv
proof (cases rule: exec_shape [where op = op and sha = sha])
  case (create f s)
  then show ?thesis using create_session_other [OF own] by simp
next
  case (session f j cl)
  show ?thesis
  proof (cases "j = i")
    case True
    have "\<not> owns_session db i cl" using owner_unique [OF own] act session(1) by auto
    then have "exec_session c y sha op db = db" using session(2) True by (auto simp: session_step_def dest: scoped_owns)
    then show ?thesis by simp
  qed (use session in \<open>simp add: session_step_def\<close>)
next
  case (prune f cl older dry now)
  then show ?thesis using inv(1) act prune_other [OF _ own, of c cl] by (simp add: store_inv_def)
next
  case (memory f p sc)
  show ?thesis
  proof (cases "ms_session_id sc = i")
    case True
    have "\<not> owns_session db i (scope_caller p sc)" using owner_unique [OF own] act memory(1) by auto
    then have "exec_session c y sha op db = db"
      using memory(2) True by (auto simp: memory_step_def memory_session_def dest: scoped_owns)
    then show ?thesis by simp
  qed (use memory in \<open>simp add: memory_step_def memory_change_def\<close>)
qed

interpretation session_db: isolated_objects
  "exec_session c y sha" op_caller owns_session same_session "\<lambda>db. codec_ok c \<and> ids_codec_ok y \<and> store_inv c y db" typed_op
  for c :: "'m session_codec" and y sha
proof
  fix db :: session_db and x :: "'m session_op"
  assume "codec_ok c \<and> ids_codec_ok y \<and> store_inv c y db" "typed_op x"
  then show "codec_ok c \<and> ids_codec_ok y \<and> store_inv c y (exec_session c y sha x db)" by (auto intro: exec_store_inv)
next
  fix db :: session_db and x :: "'m session_op" and k a
  assume "codec_ok c \<and> ids_codec_ok y \<and> store_inv c y db" "owns_session db k a" "op_caller x \<noteq> Some a"
  then show "same_session k db (exec_session c y sha x db)" by (auto intro: exec_respects)
qed (auto simp: owns_session_def same_session_def)

section \<open>What a session sees of its memory\<close>

lemma recall_rows_same:
  assumes same: "same_session i db db'" and sc: "ms_session_id sc = i"
  shows "recall_rows sc tier cond n db' = recall_rows sc tier cond n db"
proof -
  have split: "filter (\<lambda>r. in_memory_scope sc r \<and> yw_tier r = tier_str tier \<and> cond r \<and> \<not> revoked_row d r) (db_memory d)
      = filter (\<lambda>r. yw_provider r = ms_provider sc \<and> yw_tier r = tier_str tier \<and> cond r \<and> \<not> revoked_row d r)
          (filter (\<lambda>r. yw_session_id r = i) (db_memory d))" for d
    using sc by (auto simp: in_memory_scope_def intro!: filter_cong)
  have mem: "filter (\<lambda>r. yw_session_id r = i) (db_memory db') = filter (\<lambda>r. yw_session_id r = i) (db_memory db)"
    using same by (simp add: same_session_def)
  have "filter (\<lambda>r. yw_provider r = ms_provider sc \<and> yw_tier r = tier_str tier \<and> cond r \<and> \<not> revoked_row db' r)
      (filter (\<lambda>r. yw_session_id r = i) (db_memory db))
    = filter (\<lambda>r. yw_provider r = ms_provider sc \<and> yw_tier r = tier_str tier \<and> cond r \<and> \<not> revoked_row db r)
      (filter (\<lambda>r. yw_session_id r = i) (db_memory db))"
    by (intro filter_cong) (auto simp: revoked_row_same [OF same])
  then show ?thesis unfolding recall_rows_def split [of db] split [of db'] mem by simp
qed

lemma recall_scope_session: "recall_scope i cl provider tier limit = Inr sc \<Longrightarrow> ms_session_id sc = i"
  by (auto simp: recall_scope_def new_memory_scope_def)

lemma recall_same:
  assumes "same_session i db db'"
  shows "recall_memory y f i cl provider tier limit db' = recall_memory y f i cl provider tier limit db"
    and "recall_memory_by_intent y f i cl provider tier intent limit db' = recall_memory_by_intent y f i cl provider tier intent limit db"
  unfolding recall_memory_def recall_memory_by_intent_def load_memory_records_def load_memory_records_by_intent_def
    scoped_session_same [OF assms]
  by (cases "recall_scope i cl provider tier limit"; simp add: recall_rows_same [OF assms] recall_scope_session)+

lemma memory_audit_same:
  assumes "same_session i db db'" "ms_session_id sc = i"
  shows "memory_audit f p sc db' = memory_audit f p sc db"
proof -
  have split: "filter (\<lambda>r. aw_session_id r = i \<and> aw_provider r = ms_provider sc) (db_audit d)
      = filter (\<lambda>r. aw_provider r = ms_provider sc) (filter (\<lambda>r. aw_session_id r = i) (db_audit d))" for d
    by (rule filter_split)
  show ?thesis using assms(1)
    unfolding memory_audit_def memory_session_def load_memory_audit_def assms(2) split scoped_session_same [OF assms(1)]
    by (simp add: same_session_def)
qed

lemma l1_context_same:
  assumes "same_session i db db'"
  shows "l1_evidence_context y sha f i cl provider db' = l1_evidence_context y sha f i cl provider db"
proof (cases "new_memory_scope (cl_tenant_id cl) (cl_workspace_id cl) i provider")
  case (Inr sc)
  then have "ms_session_id sc = i" by (auto simp: new_memory_scope_def)
  then show ?thesis using Inr unfolding l1_evidence_context_def scoped_session_same [OF assms]
    by (simp add: recall_rows_same [OF assms])
qed (simp add: l1_evidence_context_def)

end
