(* ===== verification/Session_Demo.thy ===== *)
theory Session_Demo
  imports Session_Runs
begin

text \<open>
  A small database, reached by creating a session and recording one memory, with codecs that write one event
  and the empty list of identifiers: the instances at which the properties of the session store are applied.
\<close>

definition ada_session :: session where
  "ada_session =
     \<lparr>se_id = ''s1'', se_principal_id = ''ada'', se_tenant_id = ''acme'', se_workspace_id = ''lab'', se_created_at = 1\<rparr>"

definition ada :: session_caller where
  "ada = \<lparr>cl_principal_id = ''ada'', cl_tenant_id = ''acme'', cl_workspace_id = ''lab''\<rparr>"

definition bob :: session_caller where
  "bob = \<lparr>cl_principal_id = ''bob'', cl_tenant_id = ''acme'', cl_workspace_id = ''lab''\<rparr>"

definition ada_scope :: memory_scope where
  "ada_scope = \<lparr>ms_tenant_id = ''acme'', ms_workspace_id = ''lab'', ms_session_id = ''s1'', ms_provider = ''local''\<rparr>"

definition ada_memory :: memory_record where
  "ada_memory =
     \<lparr>mm_id = ''m1'', mm_tier = L1, mm_kind = LessonKind, mm_intent = None, mm_scope = ada_scope,
      mm_summary = ''use tabs'', mm_classification = InternalContext, mm_created_at = 2, mm_expires_at = None,
      mm_provenance = ''review'', mm_approval = None, mm_origin = Explicit, mm_evidence_ids = []\<rparr>"

definition ada_event :: runtime_event where
  "ada_event =
     new_runtime_event ''ev1'' SessionStarted
       ((new_event_context ''acme'' ''lab'')\<lparr>ec_session_id := Some ''s1'', ec_execution_id := Some ''e1''\<rparr>) EmptyPayload"

definition ada_receipt :: evaluation_receipt where
  "ada_receipt =
     \<lparr>vr_session_id = ''s1'', vr_execution_id = ''e1'', vr_evaluated_at = 4,
      vr_results = [\<lparr>er_kind = PolicyEval, er_status = EvalPassed, er_score = 100, er_reason = ''ok'', er_advisory = False\<rparr>]\<rparr>"

definition demo_store_codec :: "string session_codec" where
  "demo_store_codec =
     \<lparr>xc_write_event = (\<lambda>ev. if ev = ada_event then Some ''e'' else None),
      xc_read_event = (\<lambda>s. if s = ''e'' then Some ada_event else None),
      xc_write_message = Some, xc_read_message = Some\<rparr>"

definition demo_ids_codec :: memory_codec where
  "demo_ids_codec =
     \<lparr>yc_write_ids = (\<lambda>ids. if ids = [] then Some ''[]'' else None),
      yc_read_ids = (\<lambda>s. if s = ''[]'' then Some [] else None)\<rparr>"

definition demo_ops :: "string session_op list" where
  "demo_ops = [CreateSession no_faults ada_session, RecordMemory no_faults ''ada'' ada_memory]"

definition demo_db :: session_db where
  "demo_db = run_ops (exec_session demo_store_codec demo_ids_codec id) demo_ops empty_session_db"

lemma demo_codecs: "codec_ok demo_store_codec" "ids_codec_ok demo_ids_codec"
  by (simp_all add: codec_ok_def ids_codec_ok_def demo_store_codec_def demo_ids_codec_def)

lemma demo_texts: "memory_text ''use tabs''" "memory_text ''review''" "valid_id ''m1''"
  by code_simp+

lemma demo_typed: "valid_session ada_session" "valid_receipt ada_receipt" "valid_memory ada_memory"
proof -
  show "valid_session ada_session" "valid_receipt ada_receipt" by code_simp+
  show "valid_memory ada_memory"
    by (simp add: valid_memory_def ada_memory_def demo_texts tier_mismatch_def can_be_l1_def MAX_MEMORY_SYNTHESIS_EVIDENCE_def)
qed

lemma demo_reachable: "reachable_db demo_store_codec demo_ids_codec id demo_db"
  unfolding demo_db_def by (rule reachable_runD) (simp add: demo_ops_def demo_typed)

lemma demo_db_eq:
  "demo_db = empty_session_db
     \<lparr>db_sessions := [session_row_of ada_session 1], db_memory := [memory_row_of ada_memory 2 ''[]''],
      db_audit := [audit_row_of 1 ada_memory AddedMemory 2 None], db_audit_seq := 1\<rparr>"
  by code_simp

lemma demo_scoped: "scoped_session no_faults ''s1'' ada demo_db = Inr ada_session"
  unfolding demo_db_eq by code_simp

lemma demo_revoked: "fst (revoke_memory demo_ids_codec no_faults ''ada'' ada_scope ''m1'' 5 demo_db) = Inr ()"
  unfolding demo_db_eq by code_simp

end
