(* ===== verification/Session_Properties.thy ===== *)
theory Session_Properties
  imports Session_Demo
begin

text \<open>
  What the session database promises its callers over whole histories: appended executions are read back,
  whole or page by page; scopes are isolated; revoked memories stay away; memory stays within its bounds,
  is recalled completely and carries its audit trail; pruning removes exactly what it reports.
\<close>

section \<open>Memory within its bounds\<close>

lemma l2_ids_in_l1:
  assumes "promoted_from_l1 db"
  shows "yw_memory_id ` set (filter (\<lambda>r. in_memory_scope sc r \<and> yw_tier r = ''l2'') (db_memory db))
    \<subseteq> yw_memory_id ` set (filter (\<lambda>r. in_memory_scope sc r \<and> yw_tier r = ''l1'') (db_memory db))"
proof (rule image_subsetI)
  fix r assume "r \<in> set (filter (\<lambda>r. in_memory_scope sc r \<and> yw_tier r = ''l2'') (db_memory db))"
  then have r: "r \<in> set (db_memory db)" "in_memory_scope sc r" "yw_tier r = ''l2''" by simp_all
  then obtain x where x: "x \<in> set (db_memory db)" "yw_tier x = ''l1''" "identity x = identity r"
    using assms by (auto simp: promoted_from_l1_def)
  then have "x \<in> set (filter (\<lambda>r. in_memory_scope sc r \<and> yw_tier r = ''l1'') (db_memory db))" "yw_memory_id r = yw_memory_id x"
    using r(2) by (auto simp: identity_def in_memory_scope_def)
  then show "yw_memory_id r \<in> yw_memory_id ` set (filter (\<lambda>r. in_memory_scope sc r \<and> yw_tier r = ''l1'') (db_memory db))"
    by (rule rev_image_eqI)
qed

lemma tier_ids_distinct:
  assumes "keyed memory_key (db_memory db)"
  shows "distinct (map yw_memory_id (filter (\<lambda>r. in_memory_scope sc r \<and> yw_tier r = t) (db_memory db)))"
proof -
  let ?rows = "filter (\<lambda>r. in_memory_scope sc r \<and> yw_tier r = t) (db_memory db)"
  have "distinct (map memory_key ?rows)" using assms by (simp add: keyed_def distinct_map_filter)
  moreover have "map memory_key ?rows = map (\<lambda>i. (ms_session_id sc, ms_provider sc, i, t)) (map yw_memory_id ?rows)"
    by (simp add: memory_key_def in_memory_scope_def)
  ultimately have "distinct (map (\<lambda>i. (ms_session_id sc, ms_provider sc, i, t)) (map yw_memory_id ?rows))" by (simp only:)
  then show ?thesis unfolding distinct_map [of "\<lambda>i. (ms_session_id sc, ms_provider sc, i, t)"] by (rule conjunct1)
qed

lemma tier_within_capacity:
  assumes inv: "memory_inv y db"
  shows "tier_count sc tier db \<le> MAX_MEMORY_RECORDS_PER_SCOPE_AND_TIER"
proof (cases tier)
  case L0
  have "yw_tier r \<noteq> tier_str L0" if "r \<in> set (db_memory db)" for r
    using inv that decode_ok_row [of y r] tier_str_inject [of _ L0] by (metis memory_inv_def)
  then show ?thesis using L0 by (simp add: tier_count_def filter_empty_conv)
next
  case L2
  let ?rows = "\<lambda>t. filter (\<lambda>r. in_memory_scope sc r \<and> yw_tier r = t) (db_memory db)"
  have ids: "length (?rows t) = card (yw_memory_id ` set (?rows t))" for t
    using distinct_card [OF tier_ids_distinct [of db sc t]] inv by (simp add: memory_inv_def)
  have "card (yw_memory_id ` set (?rows ''l2'')) \<le> card (yw_memory_id ` set (?rows ''l1''))"
    using inv by (intro card_mono l2_ids_in_l1) (auto simp: memory_inv_def)
  then have "tier_count sc L2 db \<le> tier_count sc L1 db" unfolding tier_count_def tier_str.simps ids .
  also have "\<dots> \<le> MAX_MEMORY_RECORDS_PER_SCOPE_AND_TIER" using inv by (simp add: memory_inv_def within_capacity_def)
  finally show ?thesis using L2 by simp
qed (use inv in \<open>auto simp: memory_inv_def within_capacity_def\<close>)

text \<open>C24: In every reachable database a session and provider keep at most 256 records of each tier, though promotion
  does not count the second tier, and know at most 4096 memories counting the revoked ones.\<close>

theorem memory_within_capacity:
  assumes "reachable_db c y sha db" "codec_ok c" "ids_codec_ok y"
  shows "tier_count sc tier db \<le> 256 \<and> identity_count sc db \<le> 4096"
  using tier_within_capacity [OF reachable_memory_inv [OF assms], of sc tier] reachable_memory_inv [OF assms]
  by (simp add: memory_inv_def within_capacity_def MAX_MEMORY_RECORDS_PER_SCOPE_AND_TIER_def MAX_MEMORY_IDENTITIES_PER_SCOPE_def)

theorem memory_within_capacity_witness:
  "tier_count ada_scope L1 demo_db \<le> 256 \<and> identity_count ada_scope demo_db \<le> 4096"
  by (rule memory_within_capacity [OF demo_reachable demo_codecs])

section \<open>Recall\<close>

lemma recall_rows_mem:
  "r \<in> set (recall_rows sc tier cond n db) \<Longrightarrow>
     r \<in> set (db_memory db) \<and> in_memory_scope sc r \<and> yw_tier r = tier_str tier \<and> cond r \<and> \<not> revoked_row db r"
  by (auto simp: recall_rows_def dest: in_set_takeD)

lemma recall_rows_all:
  assumes "memory_inv y db" "256 \<le> n"
  shows "set (recall_rows sc tier (\<lambda>_. True) n db)
      = {r \<in> set (db_memory db). in_memory_scope sc r \<and> yw_tier r = tier_str tier \<and> \<not> revoked_row db r}"
proof -
  have "length (filter (\<lambda>r. in_memory_scope sc r \<and> yw_tier r = tier_str tier \<and> True \<and> \<not> revoked_row db r) (db_memory db))
      \<le> tier_count sc tier db"
    unfolding tier_count_def by (rule length_filter_mono) simp
  also have "\<dots> \<le> n" using tier_within_capacity [OF assms(1), of sc tier] assms(2)
    by (simp add: MAX_MEMORY_RECORDS_PER_SCOPE_AND_TIER_def)
  finally show ?thesis by (simp add: recall_rows_def)
qed

lemma recalled_row:
  assumes inv: "memory_inv y db" and rs: "try_map (decode_memory_record y sc) (recall_rows sc tier cond n db) = Inr rs" and r: "r \<in> set rs"
  shows "\<exists>row \<in> set (db_memory db). in_memory_scope sc row \<and> yw_tier row = tier_str tier \<and> \<not> revoked_row db row
    \<and> mm_id r = yw_memory_id row \<and> mm_scope r = sc \<and> mm_tier r = tier \<and> decode_memory_record y sc row = Inr r"
proof -
  obtain row where row: "row \<in> set (recall_rows sc tier cond n db)" "decode_memory_record y sc row = Inr r"
    using try_map_set [OF rs r] by blast
  note m = recall_rows_mem [OF row(1)]
  moreover have "memory_row_ok y row" using inv m by (simp add: memory_inv_def)
  ultimately show ?thesis using decode_ok_row [of y row sc] row(2) by (intro bexI [of _ row]) auto
qed

lemma try_map_set_eq: "try_map f xs = Inr ys \<Longrightarrow> set ys = {y. \<exists>x \<in> set xs. f x = Inr y}"
  by (induction xs arbitrary: ys) (auto split: sum.splits)

lemma try_map_all_Inr: "try_map f xs = Inr ys \<Longrightarrow> x \<in> set xs \<Longrightarrow> \<exists>y. f x = Inr y"
  by (induction xs arbitrary: ys) (auto split: sum.splits)

lemma recall_all_ok:
  assumes inv: "memory_inv y db"
  shows "\<exists>rs. try_map (decode_memory_record y sc) (recall_rows sc tier cond n db) = Inr rs"
proof -
  have "decode_memory_record y sc r = Inr (projr (decode_memory_record y sc r))" if "r \<in> set (recall_rows sc tier cond n db)" for r
    using decode_ok_row [of y r sc] recall_rows_mem [OF that] inv by (auto simp: memory_inv_def)
  then show ?thesis by (intro exI) (rule try_map_ok_all)
qed

section \<open>Revocation\<close>

definition session_exists :: "session_id \<Rightarrow> session_db \<Rightarrow> bool" where
  "session_exists i db \<longleftrightarrow> i \<in> sw_id ` set (db_sessions db)"

lemma with_limit_revocations:
  "set (db_revocations db) \<subseteq> set (db_revocations (snd (record_memory_with_limit y f p r limit kind db)))"
proof (cases "record_memory_with_limit y f p r limit kind db")
  case (Pair res db')
  show ?thesis
  proof (cases res)
    case (Inl e)
    with Pair show ?thesis by (auto dest: record_memory_error)
  next
    case (Inr u)
    with Pair have "record_memory_with_limit y f p r limit kind db = (Inr (), db')" by simp
    then show ?thesis by (rule record_memory_Inr) (use Pair in \<open>simp add: with_memory_def\<close>)
  qed
qed

lemma record_memory_revocations:
  "set (db_revocations db) \<subseteq> set (db_revocations (snd (record_memory y f p r db)))"
  "set (db_revocations db) \<subseteq> set (db_revocations (snd (record_l1_evidence y f p r db)))"
  using with_limit_revocations [of db y f p r] by (simp_all add: record_memory_def record_l1_evidence_def)

lemma feedback_revocations: "set (db_revocations db) \<subseteq> set (db_revocations (snd (record_evaluation_feedback y sha f s p provider v db)))"
  by (cases rule: feedback_cases [of y sha f s p provider v db]) (simp_all add: record_memory_revocations)

lemma promote_memory_revocations:
  "set (db_revocations db) \<subseteq> set (db_revocations (snd (promote_memory y f p sc i approval t db)))"
proof (cases "promote_memory y f p sc i approval t db")
  case (Pair res db')
  show ?thesis
  proof (cases res)
    case (Inl e)
    with Pair show ?thesis by (auto dest: promote_memory_error)
  next
    case (Inr u)
    with Pair have "promote_memory y f p sc i approval t db = (Inr u, db')" by simp
    then show ?thesis by (rule promote_memory_Inr) (use Pair in \<open>simp add: with_memory_def\<close>)
  qed
qed

lemma revoke_memory_revocations:
  "set (db_revocations db) \<subseteq> set (db_revocations (snd (revoke_memory y f p sc i t db)))"
proof (cases "revoke_memory y f p sc i t db")
  case (Pair res db')
  show ?thesis
  proof (cases res)
    case (Inl e)
    with Pair show ?thesis by (auto simp: revoke_memory_def dest: transact_error)
  next
    case (Inr u)
    with Pair have "revoke_memory y f p sc i t db = (Inr (), db')" by simp
    then show ?thesis by (rule revoke_memory_Inr) (use Pair in auto)
  qed
qed

lemma compact_revocations: "db_revocations (snd (compact_revoked_memory f p sc t db)) = db_revocations db"
  by (simp add: compact_revoked_memory_def split: sum.splits)

lemma session_op_revocations:
  assumes "store_inv c y db"
  shows "db_revocations (snd (create_session f0 s db)) = db_revocations db"
    "db_revocations (snd (append_execution_with_rollout c sha f i cl events v rollout recorded db)) = db_revocations db"
    "db_revocations (snd (append_events_at c f i cl events recorded db)) = db_revocations db"
    "db_revocations (snd (append_event_recorded_at c f i cl ev recorded' db)) = db_revocations db"
    "db_revocations (snd (save_agent_transcript c f i cl messages db)) = db_revocations db"
proof -
  have seq: "db_event_seq db < 2 ^ 63" using assms session_invD(5) [of c db] by (simp add: store_inv_def)
  have kept: "session_step f i cl db db' \<Longrightarrow> db_revocations db' = db_revocations db" for f i cl db'
    by (simp add: session_step_def memory_kept_def)
  show "db_revocations (snd (create_session f0 s db)) = db_revocations db"
    using create_session_kept [of db f0 s] by (simp add: memory_kept_def)
  show "db_revocations (snd (append_execution_with_rollout c sha f i cl events v rollout recorded db)) = db_revocations db"
    by (rule kept [OF append_execution_step [OF seq]])
  show "db_revocations (snd (append_events_at c f i cl events recorded db)) = db_revocations db"
    by (rule kept [OF append_events_step [OF seq]])
  show "db_revocations (snd (append_event_recorded_at c f i cl ev recorded' db)) = db_revocations db"
    by (rule kept [OF append_event_step])
  show "db_revocations (snd (save_agent_transcript c f i cl messages db)) = db_revocations db"
    by (rule kept [OF save_transcript_step])
qed

text \<open>The tombstone and the owner of a session survive every operation that leaves the session in place.\<close>

definition entombed :: "session_caller \<Rightarrow> memory_scope \<Rightarrow> memory_id \<Rightarrow> session_db \<Rightarrow> bool" where
  "entombed cl sc m db \<longleftrightarrow> owns_session db (ms_session_id sc) cl \<and> is_memory_revoked sc m db"

lemma revoked_mono:
  "set (db_revocations db) \<subseteq> set (db_revocations db') \<Longrightarrow> is_memory_revoked sc m db \<Longrightarrow> is_memory_revoked sc m db'"
  by (auto simp: is_memory_revoked_def list_ex_iff)

lemma entombed_same:
  assumes "same_session (ms_session_id sc) db db'" "entombed cl sc m db"
  shows "entombed cl sc m db'"
proof -
  have rev: "is_memory_revoked sc m d \<longleftrightarrow> (\<exists>k \<in> set (filter (\<lambda>r. kw_session_id r = ms_session_id sc) (db_revocations d)).
      kw_provider k = ms_provider sc \<and> kw_memory_id k = m)" for d
    by (auto simp: is_memory_revoked_def list_ex_iff)
  show ?thesis using assms unfolding entombed_def rev by (simp add: same_session_def owns_session_def)
qed

lemma exec_revocations:
  assumes inv: "store_inv c y db" "ids_codec_ok y" and op: "\<And>f cl older dry now. op \<noteq> PruneSessions f cl older dry now"
  shows "set (db_revocations db) \<subseteq> set (db_revocations (exec_session c y sha op db))"
proof (cases op)
  case (PruneSessions f cl older dry now)
  then show ?thesis using op by blast
qed (simp_all add: session_op_revocations [OF inv(1)] compact_revocations record_memory_revocations feedback_revocations
    promote_memory_revocations revoke_memory_revocations)

lemma entombed_step:
  assumes inv: "store_inv c y db" "ids_codec_ok y" and tomb: "entombed cl sc m db" and op: "session_exists (ms_session_id sc) (exec_session c y sha op db)"
  shows "entombed cl sc m (exec_session c y sha op db)"
proof (cases "op_caller op = Some cl")
  case False
  then show ?thesis using exec_respects [OF inv] tomb entombed_same by (metis entombed_def)
next
  case True
  show ?thesis
  proof (cases "\<exists>f cl older dry now. op = PruneSessions f cl older dry now")
    case True
    then obtain f cl' older dry now where prune: "op = PruneSessions f cl' older dry now" by blast
    let ?ids = "set (prune_candidates cl' (saturating_sub now older) db)"
    show ?thesis
    proof (cases "exec_session c y sha op db = db")
      case False
      then have pruned: "exec_session c y sha op db = without_sessions ?ids db" by (simp add: prune prune_sessions_eq split: if_splits)
      then have "ms_session_id sc \<notin> ?ids" using op by (auto simp: session_exists_def without_sessions_def)
      then show ?thesis using tomb entombed_same without_sessions_same unfolding pruned by blast
    qed (use tomb in simp)
  next
    case False
    then have rev: "is_memory_revoked sc m (exec_session c y sha op db)"
      using exec_revocations [OF inv, of op sha] tomb revoked_mono unfolding entombed_def by blast
    from inv have "db_sessions (exec_session c y sha op db) = db_sessions db"
      by (cases rule: exec_shape [where op = op and sha = sha])
         (use True False in \<open>auto simp: session_step_def memory_step_def memory_change_def\<close>)
    then show ?thesis using rev tomb by (simp add: entombed_def owns_session_def)
  qed
qed

lemma entombed_run:
  assumes "store_inv c y db" "codec_ok c" "ids_codec_ok y" "entombed cl sc m db"
    and "\<forall>op \<in> set ops. typed_op op" "\<forall>n. session_exists (ms_session_id sc) (run_ops (exec_session c y sha) (take n ops) db)"
  shows "entombed cl sc m (run_ops (exec_session c y sha) ops db)"
  using assms
proof (induction ops arbitrary: db)
  case (Cons op ops)
  have later: "\<forall>n. session_exists (ms_session_id sc) (run_ops (exec_session c y sha) (take n ops) (exec_session c y sha op db))"
  proof
    fix n
    show "session_exists (ms_session_id sc) (run_ops (exec_session c y sha) (take n ops) (exec_session c y sha op db))"
      using spec [OF Cons.prems(6), of "Suc n"] by simp
  qed
  then have "entombed cl sc m (exec_session c y sha op db)"
    using entombed_step [OF Cons.prems(1,3,4)] spec [OF later, of 0] by simp
  then show ?case
    using Cons.IH [of "exec_session c y sha op db"] Cons.prems(2,3,5) later exec_store_inv [OF Cons.prems(1-3), of op sha] by simp
qed simp

lemma recalled_not_entombed:
  assumes inv: "memory_inv y db" and tomb: "is_memory_revoked sc m db"
    and rs: "try_map (decode_memory_record y sc') (recall_rows sc' tier cond n db) = Inr rs" and r: "r \<in> set rs" "mm_id r = m"
  shows "ms_session_id (mm_scope r) \<noteq> ms_session_id sc \<or> ms_provider (mm_scope r) \<noteq> ms_provider sc"
proof -
  obtain row where row: "in_memory_scope sc' row" "\<not> revoked_row db row" "mm_id r = yw_memory_id row" "mm_scope r = sc'"
    using recalled_row [OF inv rs r(1)] by blast
  then show ?thesis using tomb r(2) by (auto simp: revoked_row_def is_memory_revoked_def list_ex_iff in_memory_scope_def)
qed

lemma revoke_entombs:
  assumes "revoke_memory y f p sc m t db = (Inr (), db')"
  shows "entombed (scope_caller p sc) sc m db'"
proof -
  obtain s records where "memory_session f p sc db = Inr s"
    and "db' = db\<lparr>db_revocations := db_revocations db @ [\<lparr>kw_session_id = ms_session_id sc, kw_provider = ms_provider sc,
                                  kw_memory_id = m, kw_revoked_at = uint t\<rparr>],
             db_audit := db_audit db @ revocation_rows (db_audit_seq db) t records,
             db_audit_seq := db_audit_seq db + int (length records)\<rparr>"
    using assms by (rule revoke_memory_Inr) blast
  then show ?thesis using scoped_owns [of f "ms_session_id sc" "scope_caller p sc" db s]
    by (simp add: entombed_def memory_session_def owns_session_def is_memory_revoked_def)
qed

text \<open>C22: Once a memory has been revoked, no sequence of operations brings it back while its session exists: no
  recall, whatever the tier, the intent or the limit, returns a record of its identity, and it can be neither
  recorded again nor promoted, though its row may still be stored or may long be compacted away. The operations may
  include prunes, also of the session's own scope, as long as the session itself is still there after each of them.\<close>

theorem revoked_memory_stays_away:
  assumes "reachable_db c y sha db" "codec_ok c" "ids_codec_ok y"
    and "revoke_memory y f p sc m t db = (Inr (), db')"
    and "\<forall>op \<in> set ops. typed_op op"
    and "\<forall>n. session_exists (ms_session_id sc) (run_ops (exec_session c y sha) (take n ops) db')"
    and "db'' = run_ops (exec_session c y sha) ops db'"
  shows "(\<forall>rs. recall_memory y g i cl provider tier limit db'' = Inr rs \<or>
           recall_memory_by_intent y g i cl provider tier intent limit db'' = Inr rs \<longrightarrow>
           (\<forall>r \<in> set rs. mm_id r = m \<longrightarrow>
              ms_session_id (mm_scope r) \<noteq> ms_session_id sc \<or> ms_provider (mm_scope r) \<noteq> ms_provider sc))
    \<and> (\<forall>r. mm_scope r = sc \<and> mm_id r = m \<longrightarrow> \<not> is_ok (fst (record_memory y g p r db'')))
    \<and> \<not> is_ok (fst (promote_memory y g p sc m approval t' db''))"
proof -
  have db': "db' = exec_session c y sha (RevokeMemory f p sc m t) db" using assms(4) by simp
  have inv: "store_inv c y db'" unfolding db' by (rule exec_store_inv [OF reachable_inv [OF assms(1-3)] assms(2,3)]) simp
  have tomb: "entombed (scope_caller p sc) sc m db'" by (rule revoke_entombs [OF assms(4)])
  note tomb = entombed_run [OF inv assms(2,3) tomb assms(5,6), folded assms(7)]
  have "list_all typed_op ops" using assms(5) by (simp add: list_all_iff)
  then have "reachable_db c y sha db''" unfolding assms(7) db'
    by (intro reachable_run reachable_db.step [OF assms(1)]) simp_all
  note mem = reachable_memory_inv [OF this assms(2,3)]
  have rev: "is_memory_revoked sc m db''" using tomb by (simp add: entombed_def)
  have away: "\<forall>r \<in> set rs. mm_id r = m \<longrightarrow> ms_session_id (mm_scope r) \<noteq> ms_session_id sc \<or> ms_provider (mm_scope r) \<noteq> ms_provider sc"
    if got: "recall_memory y g i cl provider tier limit db'' = Inr rs \<or> recall_memory_by_intent y g i cl provider tier intent limit db'' = Inr rs" for rs
  proof -
    obtain sc' cond n where "try_map (decode_memory_record y sc') (recall_rows sc' tier cond n db'') = Inr rs"
      using got by (auto simp: recall_memory_def recall_memory_by_intent_def load_memory_records_def load_memory_records_by_intent_def)
    then show ?thesis using recalled_not_entombed [OF mem rev] by blast
  qed
  have "\<not> is_ok (fst (record_memory y g p r db''))" if "mm_scope r = sc" "mm_id r = m" for r
  proof -
    have "\<not> is_ok (fst (record_memory_with_limit y g p r limit kind db''))" for limit kind
    proof (cases "record_memory_with_limit y g p r limit kind db''")
      case (Pair res d)
      then show ?thesis using rev that record_memory_Inr [of y g p r limit kind db'' d] by (cases res) auto
    qed
    then show ?thesis by (simp add: record_memory_def)
  qed
  moreover have "\<not> is_ok (fst (promote_memory y g p sc m approval t' db''))"
  proof (cases "promote_memory y g p sc m approval t' db''")
    case (Pair res d)
    then show ?thesis using rev promote_memory_Inr [of y g p sc m approval t' db'' _ d] by (cases res) auto
  qed
  ultimately show ?thesis using away by blast
qed

lemma demo_prune:
  assumes "db_sessions d = [session_row_of ada_session 1]"
  shows "snd (prune_sessions no_faults ada 100 False 9 d) = d"
proof -
  have "saturating_sub 9 100 = (0 :: u64)" by (simp add: saturating_sub_def)
  then have "prune_candidates ada (saturating_sub 9 100) d = []" by (simp add: prune_candidates_def assms session_row_of_def)
  then show ?thesis by (simp add: prune_sessions_eq without_sessions_def)
qed

theorem revoked_memory_stays_away_witness:
  "\<exists>db'. revoke_memory demo_ids_codec no_faults ''ada'' ada_scope ''m1'' 5 demo_db = (Inr (), db')
    \<and> \<not> is_ok (fst (record_memory demo_ids_codec no_faults ''ada'' ada_memory
         (run_ops (exec_session demo_store_codec demo_ids_codec id)
            [PruneSessions no_faults ada 100 False 9, CompactMemory no_faults ''ada'' ada_scope 9] db')))"
proof -
  let ?ops = "[PruneSessions no_faults ada 100 False 9, CompactMemory no_faults ''ada'' ada_scope 9]"
  let ?run = "run_ops (exec_session demo_store_codec demo_ids_codec id)"
  obtain db' where r: "revoke_memory demo_ids_codec no_faults ''ada'' ada_scope ''m1'' 5 demo_db = (Inr (), db')"
    using demo_revoked by (metis prod.collapse)
  then have ses: "db_sessions db' = [session_row_of ada_session 1]" by (rule revoke_memory_Inr) (simp add: demo_db_eq)
  have "db_sessions (snd (compact_revoked_memory no_faults ''ada'' ada_scope 9 db')) = db_sessions db'"
    by (simp add: compact_revoked_memory_def split: sum.splits)
  then have "session_exists (ms_session_id ada_scope) (?run (take n ?ops) db')" for n
    using ses by (cases n; cases "n - 1") (auto simp: session_exists_def demo_prune session_row_of_def ada_session_def ada_scope_def)
  moreover have "mm_scope ada_memory = ada_scope \<and> mm_id ada_memory = ''m1''" by (simp add: ada_memory_def)
  moreover have "\<forall>op \<in> set ?ops. typed_op op" by simp
  ultimately show ?thesis
    using revoked_memory_stays_away [OF demo_reachable demo_codecs r, of ?ops "?run ?ops db'" no_faults "[]" ada "[]" L1 0 undefined undefined 0]
      r by blast
qed

section \<open>Isolation of scopes\<close>

text \<open>C16: Whatever callers of other scopes do, in any order and with any failures, the owner of a session sees it
  unchanged: its snapshot, its event pages, its recalled memory and the memory audit are what they were.\<close>

theorem scopes_isolated:
  assumes "reachable_db c y sha db" "codec_ok c" "ids_codec_ok y"
    and "scoped_session f0 i owner db = Inr s"
    and "\<forall>op \<in> set ops. typed_op op \<and> op_caller op \<noteq> Some owner"
    and "db' = run_ops (exec_session c y sha) ops db"
  shows "resume_session c f i cl db' = resume_session c f i cl db
    \<and> event_page c f i cl after limit db' = event_page c f i cl after limit db
    \<and> recall_memory y f i cl provider tier n db' = recall_memory y f i cl provider tier n db
    \<and> l1_evidence_context y sha f i cl provider db' = l1_evidence_context y sha f i cl provider db
    \<and> (\<forall>sc. ms_session_id sc = i \<longrightarrow> memory_audit f p sc db' = memory_audit f p sc db)"
proof -
  have "same_session i db db'"
    unfolding assms(6)
    by (rule session_db.isolated_run [OF _ scoped_owns [OF assms(4)] assms(5)]) (use assms(2,3) reachable_inv [OF assms(1-3)] in simp)
  then show ?thesis by (simp add: resume_same event_page_same recall_same l1_context_same memory_audit_same)
qed

theorem scopes_isolated_witness:
  "resume_session demo_store_codec no_faults ''s1'' ada
     (run_ops (exec_session demo_store_codec demo_ids_codec id)
        [PruneSessions no_faults bob 0 False 900, RevokeMemory no_faults ''bob'' ada_scope ''m1'' 5, SaveTranscript no_faults ''s1'' bob []] demo_db)
   = resume_session demo_store_codec no_faults ''s1'' ada demo_db"
  by (rule scopes_isolated [OF demo_reachable demo_codecs demo_scoped _ refl, THEN conjunct1])
     (auto simp: ada_def bob_def scope_caller_def)

section \<open>Recording and recalling\<close>

lemma recall_scope_ok:
  "new_memory_scope tenant workspace i provider = Inr sc \<Longrightarrow> tier \<noteq> L0 \<Longrightarrow> cl_tenant_id cl = tenant \<Longrightarrow> cl_workspace_id cl = workspace \<Longrightarrow>
     recall_scope i cl provider tier 256 = Inr sc"
  by (simp add: recall_scope_def MAX_MEMORY_RECALL_RECORDS_def)

lemma scoped_session_no_faults: "scoped_session f i cl db = Inr s \<Longrightarrow> scoped_session no_faults i cl db = Inr s"
  by (auto simp: scoped_session_def load_session_def no_faults_def split: if_splits)

lemma scoped_session_cong: "db_sessions db' = db_sessions db \<Longrightarrow> scoped_session f i cl db' = scoped_session f i cl db"
  by (simp add: scoped_session_def load_session_def)

text \<open>What a full recall returns: the decoded rows of the tier that are not revoked.\<close>

lemma recall_full:
  assumes inv: "memory_inv y db" and sc: "new_memory_scope (cl_tenant_id cl) (cl_workspace_id cl) i provider = Inr sc"
    and s: "scoped_session no_faults i cl db = Inr s" and tier: "tier \<noteq> L0"
  obtains rs where "recall_memory y no_faults i cl provider tier 256 db = Inr rs"
    "set rs = {r. \<exists>row \<in> set (db_memory db). in_memory_scope sc row \<and> yw_tier row = tier_str tier \<and> \<not> revoked_row db row
        \<and> decode_memory_record y sc row = Inr r}"
proof -
  obtain rs where rs: "try_map (decode_memory_record y sc) (recall_rows sc tier (\<lambda>_. True) 256 db) = Inr rs"
    using recall_all_ok [OF inv] by blast
  then have "recall_memory y no_faults i cl provider tier 256 db = Inr rs"
    using recall_scope_ok [OF sc tier refl refl] s by (simp add: recall_memory_def load_memory_records_def no_faults_def)
  moreover have "set rs = {r. \<exists>row \<in> set (recall_rows sc tier (\<lambda>_. True) 256 db). decode_memory_record y sc row = Inr r}"
    by (rule try_map_set_eq [OF rs])
  ultimately show thesis using recall_rows_all [OF inv order_refl, of sc tier] that by auto
qed

text \<open>A memory that was recorded is recalled by its caller as it was written, with the intent it has by default
  made explicit, however many other memories the tier holds.\<close>

lemma recorded_memory_recalled:
  assumes "reachable_db c y sha db" "codec_ok c" "ids_codec_ok y" "valid_memory r"
    and "new_memory_scope (ms_tenant_id sc) (ms_workspace_id sc) (ms_session_id sc) (ms_provider sc) = Inr sc" "mm_scope r = sc"
    and "record_memory y f p r db = (Inr (), db')"
  shows "\<exists>rs. recall_memory y no_faults (ms_session_id sc) (scope_caller p sc) (ms_provider sc) (mm_tier r) 256 db' = Inr rs
    \<and> with_intent (intent_of r) r \<in> set rs"
proof -
  have db': "db' = exec_session c y sha (RecordMemory f p r) db" using assms(7) by simp
  have "reachable_db c y sha db'" unfolding db' by (rule reachable_db.step [OF assms(1)]) (simp add: assms(4))
  note inv = reachable_memory_inv [OF this assms(2,3)]
  have tier: "mm_tier r \<in> {L1, L3, L4}" and rec: "record_memory_with_limit y f p r MAX_MEMORY_RECORDS_PER_SCOPE_AND_TIER None db = (Inr (), db')"
    using assms(7) by (auto simp: record_memory_def split: if_splits)
  from rec obtain ids s where ok: "memory_session f p sc db = Inr s" "yc_write_ids y (mm_evidence_ids r) = Some ids"
      "uint (mm_created_at r) < 2 ^ 63" "\<not> is_memory_revoked sc (mm_id r) db"
    and new: "db' = with_memory (memory_row_of r (uint (mm_created_at r)) ids)
             (audit_row_of (db_audit_seq db + 1) r AddedMemory (uint (mm_created_at r)) None) db"
    unfolding assms(6) [symmetric] by (rule record_memory_Inr) blast
  let ?row = "memory_row_of r (uint (mm_created_at r)) ids"
  have sess: "scoped_session no_faults (ms_session_id sc) (scope_caller p sc) db' = Inr s"
    using scoped_session_no_faults [OF ok(1) [unfolded memory_session_def]]
    by (subst scoped_session_cong [of _ db]) (simp_all add: new with_memory_def)
  have scope: "new_memory_scope (cl_tenant_id (scope_caller p sc)) (cl_workspace_id (scope_caller p sc)) (ms_session_id sc) (ms_provider sc)
      = Inr sc" and l0: "mm_tier r \<noteq> L0" using assms(5) tier by (auto simp: scope_caller_def)
  obtain rs where rs: "recall_memory y no_faults (ms_session_id sc) (scope_caller p sc) (ms_provider sc) (mm_tier r) 256 db' = Inr rs"
    "set rs = {x. \<exists>row \<in> set (db_memory db'). in_memory_scope sc row \<and> yw_tier row = tier_str (mm_tier r) \<and> \<not> revoked_row db' row
        \<and> decode_memory_record y sc row = Inr x}"
    using recall_full [OF inv scope sess l0] by blast
  have "decode_memory_record y sc ?row = Inr (with_intent (intent_of r) r)"
    using decode_memory_row_of [of r y ids sc] assms(3,4,6) tier ok(2,3) by (auto simp: ids_codec_ok_def)
  moreover have "?row \<in> set (db_memory db')" "in_memory_scope sc ?row" by (simp_all add: new with_memory_def in_memory_scope_def assms(6))
  moreover have "\<not> revoked_row db' ?row"
    using ok(4) by (auto simp: revoked_row_def is_memory_revoked_def list_ex_iff new with_memory_def assms(6))
  ultimately show ?thesis using rs by (auto intro!: bexI [of _ ?row])
qed

lemma recorded_memory_recalled_witness:
  "\<exists>db' rs. record_memory demo_ids_codec no_faults ''ada'' (ada_memory\<lparr>mm_id := ''m2''\<rparr>) demo_db = (Inr (), db')
    \<and> recall_memory demo_ids_codec no_faults ''s1'' ada ''local'' L1 256 db' = Inr rs
    \<and> with_intent (intent_of ada_memory) (ada_memory\<lparr>mm_id := ''m2''\<rparr>) \<in> set rs"
proof -
  let ?r = "ada_memory\<lparr>mm_id := ''m2''\<rparr>"
  have "fst (record_memory demo_ids_codec no_faults ''ada'' ?r demo_db) = Inr ()" unfolding demo_db_eq by code_simp
  then obtain db' where db': "record_memory demo_ids_codec no_faults ''ada'' ?r demo_db = (Inr (), db')" by (metis prod.collapse)
  have "valid_id ''m2''" by code_simp
  then have v: "valid_memory ?r" using demo_typed(3) by (simp add: valid_memory_def)
  have sc: "new_memory_scope (ms_tenant_id ada_scope) (ms_workspace_id ada_scope) (ms_session_id ada_scope) (ms_provider ada_scope)
      = Inr ada_scope" by code_simp
  have r: "mm_scope ?r = ada_scope" "mm_tier ?r = L1" "intent_of ?r = intent_of ada_memory" "ms_session_id ada_scope = ''s1''"
    "ms_provider ada_scope = ''local''" "scope_caller ''ada'' ada_scope = ada"
    by (simp_all add: ada_memory_def intent_of_def ada_scope_def scope_caller_def ada_def)
  show ?thesis using recorded_memory_recalled [OF demo_reachable demo_codecs v sc r(1) db', unfolded r(2-6)] db' by blast
qed

section \<open>Promoted memory\<close>

lemma decoded_approval:
  assumes "memory_row_ok y row" "decode_memory_record y sc row = Inr r"
  shows "yw_approval_id row = map_option ma_approval_id (mm_approval r)"
proof -
  obtain r0 ids where r0: "row = memory_row_of r0 (uint (mm_created_at r0)) ids" "valid_memory r0" "mm_tier r0 \<noteq> L0"
    "uint (mm_created_at r0) < 2 ^ 63" "yc_read_ids y ids = Some (mm_evidence_ids r0)"
    using assms(1) by (auto simp: memory_row_ok_def)
  have "r = with_intent (intent_of r0) (r0\<lparr>mm_scope := sc\<rparr>)"
    using decode_memory_row_of [OF r0(2-5), of sc] assms(2) r0(1) by simp
  then show ?thesis using r0(1) by (simp add: with_intent_def)
qed

text \<open>C23: Every recalled memory of the second tier carries an approval, the audit table holds its promotion under that very
  approval, and the first-tier record it was promoted from is still stored.\<close>

theorem promoted_memory_was_approved:
  assumes "reachable_db c y sha db" "codec_ok c" "ids_codec_ok y"
    and "recall_memory y f i cl provider L2 limit db = Inr rs" "r \<in> set rs"
  shows "\<exists>a. mm_approval r = Some a
    \<and> (\<exists>e \<in> set (db_audit db). aw_session_id e = i \<and> aw_provider e = ms_provider (mm_scope r) \<and> aw_memory_id e = mm_id r
         \<and> aw_action e = memory_audit_action_name PromotedMemory \<and> aw_approval_id e = Some (ma_approval_id a))
    \<and> (\<exists>x \<in> set (db_memory db). in_memory_scope (mm_scope r) x \<and> yw_memory_id x = mm_id r \<and> yw_tier x = tier_str L1)"
proof -
  note inv = reachable_memory_inv [OF assms(1-3)]
  obtain sc where sc: "recall_scope i cl provider L2 limit = Inr sc"
    and rs: "try_map (decode_memory_record y sc) (recall_rows sc L2 (\<lambda>_. True) (unat limit) db) = Inr rs"
    using assms(4) by (auto simp: recall_memory_def load_memory_records_def)
  obtain row where row: "row \<in> set (db_memory db)" "in_memory_scope sc row" "yw_tier row = ''l2''" "mm_id r = yw_memory_id row"
    "mm_scope r = sc" "mm_tier r = L2" "decode_memory_record y sc row = Inr r"
    using recalled_row [OF inv rs assms(5)] by auto
  have ok: "memory_row_ok y row" using inv row(1) by (simp add: memory_inv_def)
  then have "valid_memory r" using decode_ok_row [OF ok, of sc] row(7) by auto
  then obtain a where a: "mm_approval r = Some a" using row(6) by (auto simp: valid_memory_def)
  have ap: "yw_approval_id row = Some (ma_approval_id a)" using decoded_approval [OF ok row(7)] a by simp
  obtain e where e: "e \<in> set (db_audit db)" "audits_row row e" using inv row(1) by (auto simp: memory_inv_def audited_def)
  obtain x where x: "x \<in> set (db_memory db)" "yw_tier x = ''l1''" "identity x = identity row"
    using inv row(1,3) by (auto simp: memory_inv_def promoted_from_l1_def)
  show ?thesis
  proof (intro exI conjI)
    show "mm_approval r = Some a" by (rule a)
    show "\<exists>e \<in> set (db_audit db). aw_session_id e = i \<and> aw_provider e = ms_provider (mm_scope r) \<and> aw_memory_id e = mm_id r
         \<and> aw_action e = memory_audit_action_name PromotedMemory \<and> aw_approval_id e = Some (ma_approval_id a)"
      using e row ap recall_scope_session [OF sc] by (intro bexI [of _ e]) (auto simp: audits_row_def memory_key_def in_memory_scope_def)
    show "\<exists>x \<in> set (db_memory db). in_memory_scope (mm_scope r) x \<and> yw_memory_id x = mm_id r \<and> yw_tier x = tier_str L1"
      using x row by (intro bexI [of _ x]) (auto simp: identity_def in_memory_scope_def)
  qed
qed

definition demo_promoted_db :: session_db where
  "demo_promoted_db = exec_session demo_store_codec demo_ids_codec id
     (PromoteMemory no_faults ''ada'' ada_scope ''m1'' \<lparr>ma_approval_id = ''a1'', ma_approver = ''eve''\<rparr> 6) demo_db"

theorem promoted_memory_was_approved_witness:
  "\<exists>r a e. recall_memory demo_ids_codec no_faults ''s1'' ada ''local'' L2 9 demo_promoted_db = Inr [r]
    \<and> mm_approval r = Some a \<and> e \<in> set (db_audit demo_promoted_db) \<and> aw_memory_id e = mm_id r
    \<and> aw_approval_id e = Some (ma_approval_id a)"
proof -
  have "memory_text ''a1''" "memory_text ''eve''" by code_simp+
  then have reach: "reachable_db demo_store_codec demo_ids_codec id demo_promoted_db"
    unfolding demo_promoted_db_def by (intro reachable_db.step demo_reachable) (simp add: valid_approval_def)
  have "map_sum id length (recall_memory demo_ids_codec no_faults ''s1'' ada ''local'' L2 9 demo_promoted_db) = Inr 1"
    unfolding demo_promoted_db_def demo_db_eq by code_simp
  then obtain r where r: "recall_memory demo_ids_codec no_faults ''s1'' ada ''local'' L2 9 demo_promoted_db = Inr [r]"
    by (cases "recall_memory demo_ids_codec no_faults ''s1'' ada ''local'' L2 9 demo_promoted_db") (auto simp: length_Suc_conv)
  from promoted_memory_was_approved [OF reach demo_codecs r, of r] r show ?thesis by auto
qed

section \<open>The context given to an agent\<close>

lemma decode_context_row_Inr:
  assumes "decode_l1_context_row y sha sc row = Inr r"
  shows "memory_kind_str (mm_kind r) = yw_kind row \<and> mm_id r = yw_memory_id row
    \<and> (mm_kind r = ExecutionEvidence \<longrightarrow> is_canonical_l1_execution_evidence r)
    \<and> (mm_kind r = LessonKind \<longrightarrow> is_canonical_l1_evaluation_feedback sha r)"
proof -
  obtain kind created origin ids x intent where k: "parse_memory_kind (yw_kind row) = Inr kind"
    and rec: "new_l1_with_origin (yw_memory_id row) kind sc (yw_summary row) InternalContext created (yw_provenance row) origin ids = Inr x"
    and r: "r = with_intent intent x"
    and canon: "\<not> (kind = ExecutionEvidence \<and> \<not> is_canonical_l1_execution_evidence r
        \<or> kind = LessonKind \<and> \<not> is_canonical_l1_evaluation_feedback sha r)"
    using assms by (auto simp: decode_l1_context_row_def Let_def split: if_splits)
  have "mm_kind x = kind" "mm_id x = yw_memory_id row"
    using rec new_l1_with_origin_sel [OF rec] unfolding new_l1_with_origin_def new_with_origin_Inr by (auto dest!: arg_cong [of _ _ mm_id])
  moreover have "memory_kind_str kind = yw_kind row" using k by (auto simp: parse_memory_kind_def split: if_splits)
  ultimately show ?thesis using canon r by (auto simp: with_intent_def)
qed



section \<open>Appending and reading back\<close>

text \<open>C20: An execution that was appended is read back: the snapshot of the session has its events after all earlier ones, in
  order, its evaluation receipt among the evaluations and the summary of its rollout, and is otherwise unchanged.\<close>

theorem appended_execution_resumed:
  assumes "reachable_db c y sha db" "codec_ok c" "ids_codec_ok y" "valid_receipt v"
    and "append_execution_with_rollout c sha f i cl events v rollout recorded db = (Inr (), db')"
    and "resume_session c no_faults i cl db = Inr s" "next_attempt i (vr_execution_id v) db < 2 ^ 32"
  shows "\<exists>s'. resume_session c no_faults i cl db' = Inr s' \<and> ss_session s' = ss_session s
    \<and> ss_events s' = ss_events s @ events
    \<and> mset (ss_evaluations s') = add_mset v (mset (ss_evaluations s))
    \<and> mset (ss_rollouts s') = mset (ss_rollouts s) + (case rollout of None \<Rightarrow> {#}
        | Some ro \<Rightarrow> {#rollout_summary_of i (vr_execution_id v) (next_attempt i (vr_execution_id v) db) ro recorded#})
    \<and> ss_agent_messages s' = ss_agent_messages s \<and> ss_l1_evidence_count s' = ss_l1_evidence_count s"
  by (rule append_resume [OF reachable_session_inv [OF assms(1-3)] assms(2,4-7)])

lemma demo_serialized: "serialize_event demo_store_codec ada_event = Inr ''e''"
proof -
  have "utf8_valid ''e''" by code_simp
  then show ?thesis by (simp add: serialize_event_def demo_store_codec_def MAX_EVENT_BYTES_def)
qed

lemma demo_appended:
  "append_execution_with_rollout demo_store_codec id no_faults ''s1'' ada [ada_event] ada_receipt None 7 demo_db
     = (Inr (), with_execution ''s1'' [''e''] ada_receipt None 7 demo_db)"
proof (rule append_execution_ok [OF reachable_session_inv [OF demo_reachable demo_codecs] demo_typed(2) _ _ _ _ _ _ demo_scoped])
  show "\<not> list_ex (foreign_event ''s1'' ada (vr_execution_id ada_receipt)) [ada_event]"
    by (simp add: foreign_event_def ada_event_def ada_def ada_receipt_def new_runtime_event_def new_event_context_def)
  show "check_rollout id ''s1'' ada (vr_execution_id ada_receipt) None = Inr ()" by (simp add: check_rollout_def)
qed (simp_all add: ada_receipt_def demo_serialized demo_db_eq empty_session_db_def next_attempt_def)

lemma demo_resumed: "\<exists>s. resume_session demo_store_codec no_faults ''s1'' ada demo_db = Inr s \<and> ss_events s = [] \<and> ss_evaluations s = []"
  using demo_scoped
  by (simp add: resume_session_def no_faults_def events_of_def load_evaluations_def load_rollouts_def load_messages_def demo_db_eq
      empty_session_db_def)

theorem appended_execution_resumed_witness:
  "\<exists>db' s'. append_execution_with_rollout demo_store_codec id no_faults ''s1'' ada [ada_event] ada_receipt None 7 demo_db = (Inr (), db')
    \<and> resume_session demo_store_codec no_faults ''s1'' ada db' = Inr s' \<and> ss_events s' = [ada_event]
    \<and> mset (ss_evaluations s') = {#ada_receipt#}"
proof -
  obtain s where s: "resume_session demo_store_codec no_faults ''s1'' ada demo_db = Inr s" "ss_events s = []" "ss_evaluations s = []"
    using demo_resumed by blast
  have "next_attempt ''s1'' (vr_execution_id ada_receipt) demo_db < 2 ^ 32"
    by (simp add: next_attempt_def demo_db_eq empty_session_db_def)
  from appended_execution_resumed [OF demo_reachable demo_codecs demo_typed(2) demo_appended s(1) this] s(2,3) demo_appended
  show ?thesis by auto
qed

text \<open>C21: Reading a session's events page by page, with any page size but zero, ends and gives the events of its snapshot, all of
  them, once and in order; as many pages as there are stored events are enough, and one more.\<close>

theorem event_pages_complete:
  assumes "reachable_db c y sha db" "codec_ok c" "ids_codec_ok y"
    and "resume_session c no_faults i cl db = Inr s" "limit \<noteq> 0" "length (db_events db) < n"
  shows "read_pages c i cl limit db n None = Some (Inr (ss_events s))"
  by (rule read_pages_resume [OF reachable_session_inv [OF assms(1-3)] assms(4-6)])

theorem event_pages_complete_witness:
  "\<exists>s. resume_session demo_store_codec no_faults ''s1'' ada (with_execution ''s1'' [''e''] ada_receipt None 7 demo_db) = Inr s
    \<and> ss_events s = [ada_event]
    \<and> read_pages demo_store_codec ''s1'' ada 1 (with_execution ''s1'' [''e''] ada_receipt None 7 demo_db) 2 None = Some (Inr (ss_events s))"
proof -
  let ?db = "with_execution ''s1'' [''e''] ada_receipt None 7 demo_db"
  have db: "exec_session demo_store_codec demo_ids_codec id (AppendExecution no_faults ''s1'' ada [ada_event] ada_receipt None 7) demo_db = ?db"
    by (simp add: demo_appended)
  have reach: "reachable_db demo_store_codec demo_ids_codec id ?db"
    unfolding db [symmetric] by (intro reachable_db.step demo_reachable) (simp add: demo_typed)
  obtain s0 where s0: "resume_session demo_store_codec no_faults ''s1'' ada demo_db = Inr s0" "ss_events s0 = []"
    using demo_resumed by blast
  have "next_attempt ''s1'' (vr_execution_id ada_receipt) demo_db < 2 ^ 32"
    by (simp add: next_attempt_def demo_db_eq empty_session_db_def)
  from append_resume [OF reachable_session_inv [OF demo_reachable demo_codecs] demo_codecs(1) demo_typed(2) demo_appended s0(1) this] s0(2)
  obtain s where s: "resume_session demo_store_codec no_faults ''s1'' ada ?db = Inr s" "ss_events s = [ada_event]" by auto
  have "length (db_events ?db) < 2" by (simp add: with_execution_def with_events_def demo_db_eq empty_session_db_def Let_def)
  from event_pages_complete [OF reach demo_codecs s(1) _ this, of 1] s show ?thesis by auto
qed

section \<open>Pruning\<close>

lemma without_sessions_none: "without_sessions {} db = db"
  by (simp add: without_sessions_def)

lemma decode_session_row_sel:
  assumes "decode_session_row r = Inr s"
  shows "se_id s = sw_id r" "se_principal_id s = sw_principal_id r" "se_tenant_id s = sw_tenant_id r"
    "se_workspace_id s = sw_workspace_id r" "uint (se_created_at s) = sw_created_at r"
  using assms by (auto simp: decode_session_row_def session_timestamp_def u64_of_i64_def unsigned_of_int take_bit_int_eq_self split: if_splits)

lemma prune_sessions_Inr:
  assumes "prune_sessions f cl older dry now db = (Inr report, db')"
  shows "pr_pruned_session_ids report = prune_candidates cl (saturating_sub now older) db"
    and "pr_sessions_pruned report = (if dry then 0 else length (pr_pruned_session_ids report))"
    and "db' = (if dry then db else without_sessions (set (pr_pruned_session_ids report)) db)"
  using assms by (auto simp: prune_sessions_def Let_def fold_delete_session without_sessions_none split: if_splits)

lemma pruned_gone:
  assumes "i \<in> S"
  shows "resume_session c no_faults i cl (without_sessions S db) = Inl SessionNotFound"
proof -
  have "row_lookup sw_id i (filter (\<lambda>r. sw_id r \<notin> S) (db_sessions db)) = None"
    using assms by (auto simp: row_lookup_None_iff)
  then show ?thesis
    by (simp add: resume_session_def scoped_session_def load_session_def without_sessions_def no_faults_def)
qed

text \<open>A prune deletes exactly the sessions of its caller's scope created before the cutoff, reports them, and leaves every other
  session as it was; a dry run reports the same sessions and deletes nothing.\<close>

lemma prune_exact:
  assumes "reachable_db c y sha db" "codec_ok c" "ids_codec_ok y"
    and "prune_sessions f cl older dry now db = (Inr report, db')"
  shows "set (pr_pruned_session_ids report)
      = {i. \<exists>s. scoped_session no_faults i cl db = Inr s \<and> uint (se_created_at s) < sint (saturating_sub now older)}
    \<and> pr_sessions_pruned report = (if dry then 0 else length (pr_pruned_session_ids report))
    \<and> (if dry then db' = db
       else (\<forall>i \<in> set (pr_pruned_session_ids report). \<forall>cl'. resume_session c no_faults i cl' db' = Inl SessionNotFound)
          \<and> (\<forall>i g cl'. i \<notin> set (pr_pruned_session_ids report) \<longrightarrow> resume_session c g i cl' db' = resume_session c g i cl' db))"
proof -
  note inv = reachable_session_inv [OF assms(1-3)]
  note p = prune_sessions_Inr [OF assms(4)]
  have "i \<in> set (prune_candidates cl (saturating_sub now older) db) \<longleftrightarrow>
      (\<exists>s. scoped_session no_faults i cl db = Inr s \<and> uint (se_created_at s) < sint (saturating_sub now older))" for i
  proof
    assume "i \<in> set (prune_candidates cl (saturating_sub now older) db)"
    then obtain r where r: "r \<in> set (db_sessions db)" "sw_id r = i" "in_caller_scope cl r" "sw_created_at r < sint (saturating_sub now older)"
      by (auto simp: prune_candidates_def)
    then obtain s where s: "decode_session_row r = Inr s" using inv by (auto simp: session_inv_def is_ok_iff)
    have "row_lookup sw_id i (db_sessions db) = Some r" using session_invD(1) [OF inv] r(1,2) by (simp add: row_lookup_Some_iff)
    then have "scoped_session no_faults i cl db = Inr s"
      using s r(3) decode_session_row_sel [OF s] by (simp add: scoped_session_def load_session_def ensure_scope_def in_caller_scope_def no_faults_def)
    then show "\<exists>s. scoped_session no_faults i cl db = Inr s \<and> uint (se_created_at s) < sint (saturating_sub now older)"
      using r(4) decode_session_row_sel [OF s] by auto
  next
    assume "\<exists>s. scoped_session no_faults i cl db = Inr s \<and> uint (se_created_at s) < sint (saturating_sub now older)"
    then obtain s r where s: "row_lookup sw_id i (db_sessions db) = Some r" "decode_session_row r = Inr s" "in_caller_scope cl r"
      "uint (se_created_at s) < sint (saturating_sub now older)" by (auto dest: scoped_session_InrD)
    then show "i \<in> set (prune_candidates cl (saturating_sub now older) db)"
      using decode_session_row_sel [OF s(2)] by (auto simp: prune_candidates_def dest!: row_lookup_Some)
  qed
  then show ?thesis using p by (auto simp: pruned_gone resume_same [OF without_sessions_same])
qed

lemma prune_exact_witness:
  "\<exists>report db'. prune_sessions no_faults ada 10 False 100 demo_db = (Inr report, db') \<and> pr_pruned_session_ids report = [''s1'']
    \<and> resume_session demo_store_codec no_faults ''s1'' ada db' = Inl SessionNotFound"
proof -
  have "map_sum id pr_pruned_session_ids (fst (prune_sessions no_faults ada 10 False 100 demo_db)) = Inr [''s1'']"
    unfolding demo_db_eq by code_simp
  then obtain report db' where r: "prune_sessions no_faults ada 10 False 100 demo_db = (Inr report, db')" "pr_pruned_session_ids report = [''s1'']"
    by (cases "prune_sessions no_faults ada 10 False 100 demo_db"; cases "fst (prune_sessions no_faults ada 10 False 100 demo_db)") auto
  from prune_exact [OF demo_reachable demo_codecs r(1)] r show ?thesis by auto
qed

end
