(* ===== verification/Sop.thy ===== *)
theory Sop
  imports Memory_Record "HOL-Library.AList"
begin

text \<open>
  Standard operating procedures, \<open>pandora-types/src/memory.rs\<close>: steps with dependencies, their validation, the execution
  order by Kahn's algorithm, the ready steps, and the signed capsules procedures travel in. A hash map that
  is only looked up is an association list. \<open>*deg -= 1\<close> on an unsigned zero panics in a checked build; this is
  the value \<open>None\<close> of \<open>execution_order\<close>, and the validation never reaches it.
\<close>

section \<open>Procedures\<close>

fun has_control_line :: "string \<Rightarrow> bool" where
  "has_control_line [] = False"
| "has_control_line (c # cs) =
     (of_char c < (32 :: nat) \<and> (of_char c :: nat) \<notin> {9, 10, 13} \<or> of_char c = (127 :: nat)
      \<or> (of_char c = (0xC2 :: nat)
         \<and> (case cs of [] \<Rightarrow> False | d # _ \<Rightarrow> (0x80 :: nat) \<le> of_char d \<and> of_char d \<le> (0x9F :: nat)))
      \<or> has_control_line cs)"

definition check_multiline_text :: "string \<Rightarrow> string \<Rightarrow> (memory_contract_error, string) outcome" where
  "check_multiline_text field value =
     (let trimmed = trim value in
      if trimmed = [] then Inl (MemoryEmptyField field)
      else if length value > 65536 then Inl (MemoryFieldTooLong field)
      else if has_control_line value then Inl (MemoryControlCharacter field)
      else Inr trimmed)"

record sop_step =
  sp_id :: string
  sp_name :: string
  sp_command :: string
  sp_depends_on :: "string list"

record sop_definition =
  sd_id :: string
  sd_name :: string
  sd_trigger_intent :: memory_intent
  sd_steps :: "sop_step list"
  sd_verification_command :: "string option"

fun check_step_dependencies :: "string list \<Rightarrow> string list \<Rightarrow> (memory_contract_error, unit) outcome" where
  "check_step_dependencies seen [] = Inr ()"
| "check_step_dependencies seen (d # ds) =
     and_then (check_memory_text ''step dependency'' d) (\<lambda>_.
     if d \<in> set seen then Inl (DuplicateStep d) else check_step_dependencies (d # seen) ds)"

definition new_sop_step :: "string \<Rightarrow> string \<Rightarrow> string \<Rightarrow> string list \<Rightarrow> (memory_contract_error, sop_step) outcome" where
  "new_sop_step i name command deps =
     and_then (check_memory_text ''step id'' i) (\<lambda>i.
     and_then (check_memory_text ''step name'' name) (\<lambda>name.
     and_then (check_multiline_text ''step command'' command) (\<lambda>command.
     and_then (check_step_dependencies [] deps) (\<lambda>_.
       Inr \<lparr>sp_id = i, sp_name = name, sp_command = command, sp_depends_on = deps\<rparr>))))"

section \<open>The execution order\<close>

type_synonym degrees = "(string \<times> nat) list"
type_synonym children = "(string \<times> string list) list"

definition entry_or_zero :: "string \<Rightarrow> degrees \<Rightarrow> degrees" where
  "entry_or_zero i deg = (case map_of deg i of None \<Rightarrow> AList.update i 0 deg | Some _ \<Rightarrow> deg)"

definition bump_degree :: "string \<Rightarrow> degrees \<Rightarrow> degrees" where
  "bump_degree i deg = AList.update i (case map_of deg i of None \<Rightarrow> 1 | Some n \<Rightarrow> n + 1) deg"

definition children_of :: "children \<Rightarrow> string \<Rightarrow> string list" where
  "children_of ch d = (case map_of ch d of None \<Rightarrow> [] | Some xs \<Rightarrow> xs)"

definition push_child :: "string \<Rightarrow> string \<Rightarrow> children \<Rightarrow> children" where
  "push_child d i ch = AList.update d (children_of ch d @ [i]) ch"

fun add_edges :: "string \<Rightarrow> string list \<Rightarrow> degrees \<times> children \<Rightarrow> degrees \<times> children" where
  "add_edges i [] st = st"
| "add_edges i (d # ds) (deg, ch) = add_edges i ds (bump_degree i deg, push_child d i ch)"

fun index_steps :: "sop_step list \<Rightarrow> degrees \<times> children \<Rightarrow> degrees \<times> children" where
  "index_steps [] st = st"
| "index_steps (s # ss) (deg, ch) = index_steps ss (add_edges (sp_id s) (sp_depends_on s) (entry_or_zero (sp_id s) deg, ch))"

text \<open>The inner loop over the children of a finished step.\<close>

fun relax :: "string list \<Rightarrow> degrees \<Rightarrow> string list \<Rightarrow> (degrees \<times> string list) option" where
  "relax [] deg queue = Some (deg, queue)"
| "relax (c # cs) deg queue =
     (case map_of deg c of
        None \<Rightarrow> relax cs deg queue
      | Some 0 \<Rightarrow> None
      | Some (Suc d) \<Rightarrow> relax cs (AList.update c d deg) (if d = 0 then queue @ [c] else queue))"

definition positives :: "degrees \<Rightarrow> nat" where
  "positives deg = length (filter (\<lambda>(_, d). d \<noteq> 0) deg)"

lemma positives_update:
  "map_of deg c = Some (Suc d) \<Longrightarrow> positives (AList.update c d deg) + (if d = 0 then 1 else 0) = positives deg"
  by (induction deg) (auto simp: positives_def split: if_splits)

lemma relax_measure: "relax cs deg queue = Some (deg', queue') \<Longrightarrow> length queue' + positives deg' = length queue + positives deg"
proof (induction cs deg queue rule: relax.induct)
  case (2 c cs deg queue)
  show ?case
  proof (cases "map_of deg c")
    case None
    then show ?thesis using 2 by simp
  next
    case (Some n)
    then obtain d where d: "n = Suc d" using 2(3) by (cases n) auto
    have "length queue' + positives deg'
        = length (if d = 0 then queue @ [c] else queue) + positives (AList.update c d deg)"
      using "2.IH"(2) [of n d] Some d "2.prems" by simp
    then show ?thesis using positives_update [of deg c d] Some d by (auto split: if_splits)
  qed
qed simp

function kahn_loop ::
  "(string \<Rightarrow> sop_step option) \<Rightarrow> children \<Rightarrow> degrees \<Rightarrow> string list \<Rightarrow> sop_step list \<Rightarrow> sop_step list option" where
  "kahn_loop steps ch deg [] order = Some order"
| "kahn_loop steps ch deg (n # queue) order =
     (case relax (children_of ch n) deg queue of
        None \<Rightarrow> None
      | Some (deg', queue') \<Rightarrow>
          kahn_loop steps ch deg' queue' (order @ (case steps n of Some s \<Rightarrow> [s] | None \<Rightarrow> [])))"
  by pat_completeness auto

termination
  by (relation "measure (\<lambda>(_, _, deg, queue, _). length queue + positives deg)") (auto dest: relax_measure)

definition execution_order :: "sop_definition \<Rightarrow> sop_step list option" where
  "execution_order sop =
     (let (deg, ch) = index_steps (sd_steps sop) ([], []);
          step_map = map_of (rev (map (\<lambda>s. (sp_id s, s)) (sd_steps sop)));
          queue = map sp_id (filter (\<lambda>s. map_of deg (sp_id s) = Some 0) (sd_steps sop)) in
      kahn_loop step_map ch deg queue [])"

definition ready_steps :: "string list \<Rightarrow> sop_definition \<Rightarrow> sop_step list" where
  "ready_steps completed sop =
     filter (\<lambda>s. sp_id s \<notin> set completed \<and> list_all (\<lambda>d. d \<in> set completed) (sp_depends_on s)) (sd_steps sop)"

section \<open>Validation\<close>

fun check_steps :: "string list \<Rightarrow> sop_step list \<Rightarrow> (memory_contract_error, unit) outcome" where
  "check_steps seen [] = Inr ()"
| "check_steps seen (s # ss) =
     and_then (check_memory_text ''step id'' (sp_id s)) (\<lambda>_.
     and_then (check_memory_text ''step name'' (sp_name s)) (\<lambda>_.
     and_then (check_multiline_text ''step command'' (sp_command s)) (\<lambda>_.
     if sp_id s \<in> set seen then Inl (DuplicateStep (sp_id s)) else check_steps (sp_id s # seen) ss)))"

fun check_known_dependencies ::
  "string list \<Rightarrow> string \<Rightarrow> string list \<Rightarrow> string list \<Rightarrow> (memory_contract_error, unit) outcome" where
  "check_known_dependencies ids i seen [] = Inr ()"
| "check_known_dependencies ids i seen (d # ds) =
     and_then (check_memory_text ''step dependency'' d) (\<lambda>_.
     if d \<in> set seen then Inl (DuplicateStep d)
     else if d = i then Inl (SelfStepDependency i)
     else if d \<notin> set ids then Inl (UnknownStepDependency d)
     else check_known_dependencies ids i (d # seen) ds)"

definition validate_sop :: "sop_definition \<Rightarrow> (memory_contract_error, unit) outcome option" where
  "validate_sop sop =
     (case
        and_then (check_memory_text ''SOP id'' (sd_id sop)) (\<lambda>_.
        and_then (check_memory_text ''SOP name'' (sd_name sop)) (\<lambda>_.
        and_then (opt_try (check_multiline_text ''verification command'') (sd_verification_command sop)) (\<lambda>_.
        and_then (ensure (sd_steps sop \<noteq> []) (MemoryEmptyField ''steps'')) (\<lambda>_.
        and_then (check_steps [] (sd_steps sop)) (\<lambda>_.
        try_all (\<lambda>s. check_known_dependencies (map sp_id (sd_steps sop)) (sp_id s) [] (sp_depends_on s)) (sd_steps sop)))))) of
        Inl e \<Rightarrow> Some (Inl e)
      | Inr _ \<Rightarrow>
          (case execution_order sop of
             None \<Rightarrow> None
           | Some order \<Rightarrow> Some (ensure (length order = length (sd_steps sop)) StepDependencyCycle)))"

definition new_sop ::
  "string \<Rightarrow> string \<Rightarrow> memory_intent \<Rightarrow> sop_step list \<Rightarrow> string option \<Rightarrow> (memory_contract_error, sop_definition) outcome option" where
  "new_sop i name intent steps verification =
     (case
        and_then (check_memory_text ''SOP id'' i) (\<lambda>i.
        and_then (check_memory_text ''SOP name'' name) (\<lambda>name.
        and_then (opt_try (check_multiline_text ''verification command'') verification) (\<lambda>verification.
          Inr \<lparr>sd_id = i, sd_name = name, sd_trigger_intent = intent, sd_steps = steps, sd_verification_command = verification\<rparr>))) of
        Inl e \<Rightarrow> Some (Inl e)
      | Inr sop \<Rightarrow> map_option (\<lambda>r. and_then r (\<lambda>_. Inr sop)) (validate_sop sop))"

section \<open>What the index holds\<close>

lemma map_of_entry [simp]: "map_of (entry_or_zero i deg) = (if map_of deg i = None then (map_of deg)(i \<mapsto> 0) else map_of deg)"
  by (auto simp: entry_or_zero_def update_conv' split: option.splits)

lemma map_of_bump [simp]: "map_of (bump_degree i deg) = (map_of deg)(i \<mapsto> (case map_of deg i of None \<Rightarrow> 1 | Some n \<Rightarrow> n + 1))"
  by (simp add: bump_degree_def update_conv')

lemma children_of_push [simp]: "children_of (push_child d i ch) e = children_of ch e @ (if e = d then [i] else [])"
  by (simp add: children_of_def push_child_def update_conv')

lemma add_edges_degrees:
  "map_of deg i = Some n \<Longrightarrow> map_of (fst (add_edges i ds (deg, ch))) = (map_of deg)(i \<mapsto> n + length ds)"
  by (induction ds arbitrary: deg ch n) (auto simp: fun_upd_idem)

lemma add_edges_children:
  "children_of (snd (add_edges i ds (deg, ch))) e = children_of ch e @ map (\<lambda>_. i) (filter (\<lambda>d. d = e) ds)"
  by (induction ds arbitrary: deg ch) auto

lemma index_steps_degrees:
  assumes "distinct (map sp_id ss)" "\<forall>s \<in> set ss. map_of deg (sp_id s) = None"
  shows "map_of (fst (index_steps ss (deg, ch))) i =
    (case find (\<lambda>s. sp_id s = i) ss of Some s \<Rightarrow> Some (length (sp_depends_on s)) | None \<Rightarrow> map_of deg i)"
  using assms
proof (induction ss arbitrary: deg ch)
  case (Cons s ss)
  obtain deg1 ch1 where st: "add_edges (sp_id s) (sp_depends_on s) (entry_or_zero (sp_id s) deg, ch) = (deg1, ch1)" by fastforce
  have deg1: "map_of deg1 = (map_of deg)(sp_id s \<mapsto> length (sp_depends_on s))"
    using add_edges_degrees [of "entry_or_zero (sp_id s) deg" "sp_id s" 0 "sp_depends_on s" ch] Cons.prems(2) st by simp
  have "map_of (fst (index_steps ss (deg1, ch1))) i =
      (case find (\<lambda>s. sp_id s = i) ss of Some s \<Rightarrow> Some (length (sp_depends_on s)) | None \<Rightarrow> map_of deg1 i)"
  proof (rule Cons.IH)
    show "distinct (map sp_id ss)" using Cons.prems(1) by simp
    show "\<forall>x \<in> set ss. map_of deg1 (sp_id x) = None"
    proof
      fix x assume "x \<in> set ss"
      moreover from this have "sp_id x \<noteq> sp_id s" using Cons.prems(1) by (metis distinct.simps(2) image_eqI list.simps(9) set_map)
      ultimately show "map_of deg1 (sp_id x) = None" using Cons.prems(2) by (simp add: deg1)
    qed
  qed
  moreover have "find (\<lambda>x. sp_id x = sp_id s) ss = None" unfolding find_None_iff
    using Cons.prems(1) by (metis distinct.simps(2) image_eqI list.simps(9) set_map)
  ultimately show ?case using st by (auto simp: deg1 split: option.splits)
qed simp

lemma index_steps_children:
  "children_of (snd (index_steps ss (deg, ch))) e
     = children_of ch e @ concat (map (\<lambda>s. map (\<lambda>_. sp_id s) (filter (\<lambda>d. d = e) (sp_depends_on s))) ss)"
proof (induction ss arbitrary: deg ch)
  case (Cons s ss)
  obtain deg1 ch1 where st: "add_edges (sp_id s) (sp_depends_on s) (entry_or_zero (sp_id s) deg, ch) = (deg1, ch1)" by fastforce
  then show ?case using Cons.IH [of deg1 ch1] add_edges_children [of "sp_id s" "sp_depends_on s" "entry_or_zero (sp_id s) deg" ch e] by simp
qed simp

text \<open>With distinct dependencies the children of a step are the steps that name it, once each.\<close>

lemma filter_one: "distinct ds \<Longrightarrow> filter (\<lambda>d. d = e) ds = (if e \<in> set ds then [e] else [])"
  by (induction ds) auto

lemma children_distinct:
  assumes "\<forall>s \<in> set ss. distinct (sp_depends_on s)"
  shows "concat (map (\<lambda>s. map (\<lambda>_. sp_id s) (filter (\<lambda>d. d = e) (sp_depends_on s))) ss)
    = map sp_id (filter (\<lambda>s. e \<in> set (sp_depends_on s)) ss)"
  using assms by (induction ss) (auto simp: filter_one)

lemma find_distinct: "distinct (map f xs) \<Longrightarrow> x \<in> set xs \<Longrightarrow> find (\<lambda>y. f y = f x) xs = Some x"
proof (induction xs)
  case (Cons a xs)
  then show ?case by (cases "f a = f x") force+
qed simp

section \<open>The loop\<close>

lemma relax_distinct:
  assumes "distinct cs" "\<forall>c \<in> set cs. \<exists>d. map_of deg c = Some (Suc d)"
  shows "\<exists>deg'. relax cs deg queue = Some (deg', queue @ filter (\<lambda>c. map_of deg c = Some 1) cs)
    \<and> (\<forall>x. map_of deg' x = (if x \<in> set cs then map_option (\<lambda>d. d - 1) (map_of deg x) else map_of deg x))"
  using assms
proof (induction cs arbitrary: deg queue)
  case (Cons c cs)
  obtain d where d: "map_of deg c = Some (Suc d)" using Cons.prems(2) by auto
  let ?deg = "AList.update c d deg" and ?queue = "if d = 0 then queue @ [c] else queue"
  have up: "map_of ?deg = (map_of deg)(c \<mapsto> d)" by (rule update_conv')
  obtain deg' where deg': "relax cs ?deg ?queue = Some (deg', ?queue @ filter (\<lambda>x. map_of ?deg x = Some 1) cs)"
    "\<forall>x. map_of deg' x = (if x \<in> set cs then map_option (\<lambda>d. d - 1) (map_of ?deg x) else map_of ?deg x)"
  proof -
    have "distinct cs" "\<forall>x \<in> set cs. \<exists>d. map_of ?deg x = Some (Suc d)" using Cons.prems by (auto simp: up)
    from Cons.IH [OF this, of ?queue] show thesis using that by blast
  qed
  have "filter (\<lambda>x. map_of ?deg x = Some 1) cs = filter (\<lambda>x. map_of deg x = Some 1) cs"
    using Cons.prems(1) by (intro filter_cong) (auto simp: up)
  then show ?case using deg' d Cons.prems(1) by (intro exI [of _ deg']) (auto simp: update_conv')
qed simp

definition in_order :: "sop_step list \<Rightarrow> bool" where
  "in_order order \<longleftrightarrow> (\<forall>xs s ys. order = xs @ s # ys \<longrightarrow> set (sp_depends_on s) \<subseteq> sp_id ` set xs)"

lemma in_order_snoc: "in_order order \<Longrightarrow> set (sp_depends_on s) \<subseteq> sp_id ` set order \<Longrightarrow> in_order (order @ [s])"
  unfolding in_order_def by (auto simp: append_eq_append_conv2 Cons_eq_append_conv append_eq_Cons_conv)

text \<open>What the validation establishes before it asks for the order.\<close>

definition indexed :: "sop_step list \<Rightarrow> bool" where
  "indexed ss \<longleftrightarrow>
     distinct (map sp_id ss) \<and> (\<forall>s \<in> set ss. distinct (sp_depends_on s) \<and> set (sp_depends_on s) \<subseteq> sp_id ` set ss)"

definition missing :: "string set \<Rightarrow> sop_step \<Rightarrow> nat" where
  "missing finished s = length (filter (\<lambda>d. d \<notin> finished) (sp_depends_on s))"

definition kahn_inv :: "sop_step list \<Rightarrow> degrees \<Rightarrow> string list \<Rightarrow> sop_step list \<Rightarrow> bool" where
  "kahn_inv ss deg queue order \<longleftrightarrow>
     set order \<subseteq> set ss \<and> distinct (map sp_id order @ queue) \<and> set queue \<subseteq> sp_id ` set ss \<and> in_order order
   \<and> (\<forall>s \<in> set ss. map_of deg (sp_id s) = Some (missing (sp_id ` set order) s))
   \<and> (\<forall>s \<in> set ss. sp_id s \<in> set queue \<union> sp_id ` set order \<longleftrightarrow> missing (sp_id ` set order) s = 0)"

lemma missing_insert:
  assumes "distinct (sp_depends_on s)" "n \<notin> finished"
  shows "missing (insert n finished) s = missing finished s - (if n \<in> set (sp_depends_on s) then 1 else 0)"
    and "n \<in> set (sp_depends_on s) \<Longrightarrow> 0 < missing finished s"
proof -
  have "missing finished s = card {d \<in> set (sp_depends_on s). d \<notin> finished}" for finished
    using distinct_card [of "filter (\<lambda>d. d \<notin> finished) (sp_depends_on s)"] assms(1) by (simp add: missing_def Int_def conj_commute)
  moreover have "{d \<in> set (sp_depends_on s). d \<notin> insert n finished} = {d \<in> set (sp_depends_on s). d \<notin> finished} - {n}" by auto
  ultimately show "missing (insert n finished) s = missing finished s - (if n \<in> set (sp_depends_on s) then 1 else 0)"
    using assms(2) by (auto simp: card_Diff_singleton_if)
  show "0 < missing finished s" if "n \<in> set (sp_depends_on s)"
    using that assms(2) by (auto simp: missing_def filter_empty_conv)
qed

text \<open>The invariant holds at the start and is kept by every turn of the loop, which therefore never panics.\<close>

lemma step_lookup:
  assumes "distinct (map sp_id ss)" "s \<in> set ss"
  shows "map_of (rev (map (\<lambda>s. (sp_id s, s)) ss)) (sp_id s) = Some s"
proof -
  have "distinct (map fst (rev (map (\<lambda>s. (sp_id s, s)) ss)))" using assms(1) by (simp add: rev_map [symmetric] comp_def)
  moreover have "(sp_id s, s) \<in> set (rev (map (\<lambda>s. (sp_id s, s)) ss))" using assms(2) by simp
  ultimately show ?thesis by (simp add: map_of_is_SomeI)
qed

lemma kahn_inv_start:
  assumes "indexed ss" "index_steps ss ([], []) = (deg, ch)"
  shows "kahn_inv ss deg (map sp_id (filter (\<lambda>s. map_of deg (sp_id s) = Some 0) ss)) []"
proof -
  have dist: "distinct (map sp_id ss)" using assms(1) by (simp add: indexed_def)
  have deg: "map_of deg (sp_id s) = Some (length (sp_depends_on s))" if "s \<in> set ss" for s
    using index_steps_degrees [OF dist, of "[]" "[]" "sp_id s"] find_distinct [OF dist that] assms(2) by simp
  have "sp_id s \<in> sp_id ` {x \<in> set ss. map_of deg (sp_id x) = Some 0} \<longleftrightarrow> length (sp_depends_on s) = 0" if "s \<in> set ss" for s
    using that deg dist by (auto simp: distinct_map inj_on_def)
  then show ?thesis using deg dist
    by (auto simp: kahn_inv_def missing_def in_order_def distinct_map_filter)
qed

lemma kahn_inv_step:
  assumes ix: "indexed ss" and inv: "kahn_inv ss deg (n # queue) order"
    and ch: "children_of ch n = map sp_id (filter (\<lambda>s. n \<in> set (sp_depends_on s)) ss)"
  shows "\<exists>s deg' queue'. s \<in> set ss \<and> sp_id s = n \<and> relax (children_of ch n) deg queue = Some (deg', queue')
    \<and> kahn_inv ss deg' queue' (order @ [s])"
proof -
  let ?fin = "sp_id ` set order"
  have dist: "distinct (map sp_id ss)" and deps: "\<And>x. x \<in> set ss \<Longrightarrow> distinct (sp_depends_on x)"
    using ix by (auto simp: indexed_def)
  have n: "n \<in> sp_id ` set ss" "n \<notin> ?fin" "n \<notin> set queue" using inv by (auto simp: kahn_inv_def)
  then obtain s where s: "s \<in> set ss" "sp_id s = n" by auto
  have deg: "\<And>x. x \<in> set ss \<Longrightarrow> map_of deg (sp_id x) = Some (missing ?fin x)" using inv by (simp add: kahn_inv_def)
  have zero: "\<And>x. x \<in> set ss \<Longrightarrow> sp_id x \<in> set (n # queue) \<union> ?fin \<longleftrightarrow> missing ?fin x = 0" using inv unfolding kahn_inv_def by blast
  let ?cs = "children_of ch n"
  have cs: "x \<in> set ss \<Longrightarrow> sp_id x \<in> set ?cs \<longleftrightarrow> n \<in> set (sp_depends_on x)" for x
    using dist by (auto simp: ch distinct_map inj_on_def)
  have "distinct ?cs" using dist by (simp add: ch distinct_map_filter)
  moreover have "\<forall>c \<in> set ?cs. \<exists>d. map_of deg c = Some (Suc d)"
  proof
    fix c assume "c \<in> set ?cs"
    then obtain x where x: "x \<in> set ss" "c = sp_id x" "n \<in> set (sp_depends_on x)" by (auto simp: ch)
    then show "\<exists>d. map_of deg c = Some (Suc d)" using deg [OF x(1)] missing_insert(2) [OF deps [OF x(1)] n(2) x(3)] by (auto simp: gr0_conv_Suc)
  qed
  ultimately obtain deg' where relax: "relax ?cs deg queue = Some (deg', queue @ filter (\<lambda>c. map_of deg c = Some 1) ?cs)"
    and deg': "\<And>x. map_of deg' x = (if x \<in> set ?cs then map_option (\<lambda>d. d - 1) (map_of deg x) else map_of deg x)"
    using relax_distinct [of ?cs deg queue] by blast
  let ?new = "filter (\<lambda>c. map_of deg c = Some 1) ?cs"
  have fin: "sp_id ` set (order @ [s]) = insert n ?fin" using s by auto
  have count: "missing (insert n ?fin) x = missing ?fin x - (if n \<in> set (sp_depends_on x) then 1 else 0)" if "x \<in> set ss" for x
    by (rule missing_insert(1) [OF deps [OF that] n(2)])
  have new: "sp_id x \<in> set ?new \<longleftrightarrow> n \<in> set (sp_depends_on x) \<and> missing ?fin x = 1" if "x \<in> set ss" for x
    using cs [OF that] deg [OF that] by auto
  have fresh: "set ?new \<inter> (set (n # queue) \<union> ?fin) = {}"
  proof -
    have "c \<notin> set (n # queue) \<union> ?fin" if "c \<in> set ?new" for c
    proof -
      obtain x where x: "x \<in> set ss" "c = sp_id x" using \<open>c \<in> set ?new\<close> by (auto simp: ch)
      then show ?thesis using new [OF x(1)] zero [OF x(1)] \<open>c \<in> set ?new\<close> by (metis zero_neq_one)
    qed
    then show ?thesis by blast
  qed
  have "set (sp_depends_on s) \<subseteq> ?fin"
    using zero [OF s(1)] s(2) by (auto simp: missing_def filter_empty_conv)
  then have ord: "in_order (order @ [s])" using inv in_order_snoc by (simp add: kahn_inv_def)
  have dis: "distinct (map sp_id (order @ [s]) @ queue @ ?new)"
  proof -
    have old: "distinct (map sp_id order)" "distinct (n # queue)" "?fin \<inter> set (n # queue) = {}"
      using inv by (auto simp: kahn_inv_def)
    have "distinct ?new" by (rule distinct_filter) (rule \<open>distinct ?cs\<close>)
    with old fresh show ?thesis unfolding distinct_append map_append using s(2) by (simp add: Int_Un_distrib Int_commute) blast
  qed
  have sub: "set (queue @ ?new) \<subseteq> sp_id ` set ss" using inv by (auto simp: kahn_inv_def ch)
  have dg: "map_of deg' (sp_id x) = Some (missing (insert n ?fin) x)" if "x \<in> set ss" for x
    using deg' [of "sp_id x"] cs [OF that] deg [OF that] count [OF that] by simp
  have ze: "sp_id x \<in> set (queue @ ?new) \<union> insert n ?fin \<longleftrightarrow> missing (insert n ?fin) x = 0" if x: "x \<in> set ss" for x
  proof -
    have "sp_id x \<in> set (queue @ ?new) \<union> insert n ?fin \<longleftrightarrow> missing ?fin x = 0 \<or> n \<in> set (sp_depends_on x) \<and> missing ?fin x = 1"
      using zero [OF x] new [OF x] by auto
    also have "\<dots> \<longleftrightarrow> missing (insert n ?fin) x = 0"
      using count [OF x] missing_insert(2) [OF deps [OF x] n(2)] by (cases "n \<in> set (sp_depends_on x)") auto
    finally show ?thesis .
  qed
  have st: "set (order @ [s]) \<subseteq> set ss" using inv s(1) by (simp add: kahn_inv_def)
  have "kahn_inv ss deg' (queue @ ?new) (order @ [s])" unfolding kahn_inv_def fin by (intro conjI ballI ord dis sub dg ze st)
  with relax s show ?thesis by blast
qed

lemma kahn_loop_correct:
  assumes ix: "indexed ss" and ch: "\<And>e. children_of ch e = map sp_id (filter (\<lambda>s. e \<in> set (sp_depends_on s)) ss)"
    and inv: "kahn_inv ss deg queue order"
  shows "\<exists>order' deg'. kahn_loop (map_of (rev (map (\<lambda>s. (sp_id s, s)) ss))) ch deg queue order = Some order'
    \<and> kahn_inv ss deg' [] order'"
  using inv
proof (induction "length queue + positives deg" arbitrary: deg queue order rule: less_induct)
  case less
  show ?case
  proof (cases queue)
    case Nil
    then show ?thesis using less.prems by auto
  next
    case (Cons n q)
    from kahn_inv_step [OF ix less.prems [unfolded Cons] ch] obtain s deg' queue' where s: "s \<in> set ss" "sp_id s = n"
      "relax (children_of ch n) deg q = Some (deg', queue')" "kahn_inv ss deg' queue' (order @ [s])" by blast
    have "length queue' + positives deg' < length queue + positives deg" using relax_measure [OF s(3)] Cons by simp
    from less.hyps [OF this s(4)] show ?thesis
      using s(3) step_lookup [of ss s] s(1,2) ix Cons by (simp add: indexed_def)
  qed
qed

section \<open>The order and the validation\<close>

definition step_edges :: "sop_step list \<Rightarrow> (string \<times> string) set" where
  "step_edges ss = {(d, sp_id s) | d s. s \<in> set ss \<and> d \<in> set (sp_depends_on s)}"

lemma finite_step_edges: "finite (step_edges ss)"
proof -
  have "step_edges ss = (\<Union>s \<in> set ss. (\<lambda>d. (d, sp_id s)) ` set (sp_depends_on s))" by (auto simp: step_edges_def)
  then show ?thesis by simp
qed

text \<open>Dependencies point backwards in the order, so it ranks them.\<close>

lemma takeWhile_before: "distinct (map f (xs @ s # ys)) \<Longrightarrow> takeWhile (\<lambda>x. f x \<noteq> f s) (xs @ s # ys) = xs"
  by (induction xs) (auto simp: image_iff)

lemma in_order_acyclic:
  assumes "in_order order" "distinct (map sp_id order)"
  shows "acyclic (step_edges order)"
proof -
  have "(d, i) \<in> measure (\<lambda>i. length (takeWhile (\<lambda>s. sp_id s \<noteq> i) order))" if edge: "(d, i) \<in> step_edges order" for d i
  proof -
    obtain s where s: "s \<in> set order" "i = sp_id s" "d \<in> set (sp_depends_on s)" using edge by (auto simp: step_edges_def)
    then obtain xs ys where o: "order = xs @ s # ys" by (meson split_list)
    have i: "takeWhile (\<lambda>s. sp_id s \<noteq> i) order = xs"
      using takeWhile_before [of sp_id xs s ys] assms(2) s(2) by (simp add: o)
    have "d \<in> sp_id ` set xs" using assms(1) s(3) o unfolding in_order_def by blast
    then obtain x where x: "x \<in> set xs" "sp_id x = d" by auto
    then obtain us vs where xs: "xs = us @ x # vs" by (meson split_list)
    have "takeWhile (\<lambda>s. sp_id s \<noteq> d) order = us"
      using takeWhile_before [of sp_id us x "vs @ s # ys"] assms(2) x(2) by (simp add: o xs)
    then show ?thesis using i by (simp add: xs)
  qed
  then show ?thesis using wf_acyclic wf_subset [OF wf_measure] by (metis subrelI)
qed

lemma kahn_end:
  assumes ix: "indexed ss" and inv: "kahn_inv ss deg [] order"
  shows "length order = length ss \<longleftrightarrow> acyclic (step_edges ss)"
    and "length order = length ss \<Longrightarrow> mset order = mset ss"
proof -
  have dist: "distinct (map sp_id ss)" "distinct (map sp_id order)" and sub: "set order \<subseteq> set ss" and ord: "in_order order"
    using ix inv by (auto simp: indexed_def kahn_inv_def)
  then have dd: "distinct order" "distinct ss" by (auto simp: distinct_map)
  have full: "length order = length ss \<longleftrightarrow> set order = set ss"
    using dd sub by (metis card_subset_eq distinct_card finite_set)
  then show "mset order = mset ss" if "length order = length ss" using that dd by (simp add: set_eq_iff_mset_eq_distinct)
  have closed: "x \<in> set ss \<Longrightarrow> sp_id x \<in> sp_id ` set order \<longleftrightarrow> set (sp_depends_on x) \<subseteq> sp_id ` set order" for x
    using inv unfolding kahn_inv_def by (auto simp: missing_def filter_empty_conv)
  show "length order = length ss \<longleftrightarrow> acyclic (step_edges ss)"
  proof
    assume "length order = length ss"
    then have "step_edges ss = step_edges order" using full by (auto simp: step_edges_def)
    then show "acyclic (step_edges ss)" using in_order_acyclic [OF ord dist(2)] by simp
  next
    assume "acyclic (step_edges ss)"
    then have wf: "wf (step_edges ss)" by (rule finite_acyclic_wf [OF finite_step_edges])
    have "sp_id x \<in> sp_id ` set order" if "x \<in> set ss" for x
      using wf that
    proof (induction "sp_id x" arbitrary: x rule: wf_induct_rule)
      case less
      have "d \<in> sp_id ` set order" if dep: "d \<in> set (sp_depends_on x)" for d
      proof -
        obtain y where y: "y \<in> set ss" "sp_id y = d" using dep less.prems ix unfolding indexed_def by blast
        then have "(sp_id y, sp_id x) \<in> step_edges ss" using dep less.prems by (auto simp: step_edges_def)
        from less.hyps [OF this y(1)] y(2) show ?thesis by simp
      qed
      then show ?case using closed [OF less.prems] by blast
    qed
    then have "sp_id ` set ss \<subseteq> sp_id ` set order" by blast
    then have "sp_id ` set order = sp_id ` set ss" using sub by blast
    then have "set ss \<subseteq> set order" using dist(1) sub inj_on_image_eq_iff [of sp_id "set ss" "set order" "set ss"] by (simp add: distinct_map)
    then show "length order = length ss" using full sub by blast
  qed
qed

lemma execution_order_indexed:
  assumes "indexed (sd_steps sop)"
  shows "\<exists>order deg. execution_order sop = Some order \<and> kahn_inv (sd_steps sop) deg [] order"
proof -
  obtain deg ch where st: "index_steps (sd_steps sop) ([], []) = (deg, ch)" by fastforce
  have ch: "children_of ch e = map sp_id (filter (\<lambda>s. e \<in> set (sp_depends_on s)) (sd_steps sop))" for e
    using index_steps_children [of "sd_steps sop" "[]" "[]" e] children_distinct [of "sd_steps sop" e] assms st
    by (simp add: indexed_def children_of_def)
  show ?thesis using kahn_loop_correct [OF assms ch kahn_inv_start [OF assms st]] st by (auto simp: execution_order_def)
qed

definition line_text :: "string \<Rightarrow> bool" where
  "line_text s \<longleftrightarrow> trim s \<noteq> [] \<and> length s \<le> 65536 \<and> \<not> has_control_line s"

definition short_text :: "string \<Rightarrow> bool" where
  "short_text s \<longleftrightarrow> trim s \<noteq> [] \<and> length s \<le> 16384 \<and> \<not> has_control s"

lemma check_texts_ok [simp]:
  "is_ok (check_memory_text field s) \<longleftrightarrow> short_text s" "is_ok (check_multiline_text field s) \<longleftrightarrow> line_text s"
  by (auto simp: check_memory_text_def check_multiline_text_def short_text_def line_text_def Let_def)

lemma check_texts_ex [simp]:
  "(\<exists>t. check_memory_text field s = Inr t) \<longleftrightarrow> short_text s" "(\<exists>t. check_multiline_text field s = Inr t) \<longleftrightarrow> line_text s"
  by (simp_all add: is_ok_iff [symmetric])

lemma check_steps_iff:
  "check_steps seen ss = Inr () \<longleftrightarrow>
     (\<forall>s \<in> set ss. short_text (sp_id s) \<and> short_text (sp_name s) \<and> line_text (sp_command s))
   \<and> distinct (map sp_id ss) \<and> sp_id ` set ss \<inter> set seen = {}"
  by (induction ss arbitrary: seen) auto

lemma check_known_iff:
  "check_known_dependencies ids i seen ds = Inr () \<longleftrightarrow>
     (\<forall>d \<in> set ds. short_text d \<and> d \<noteq> i \<and> d \<in> set ids) \<and> distinct ds \<and> set ds \<inter> set seen = {}"
  by (induction ds arbitrary: seen) auto

text \<open>A well-formed procedure, declaratively.\<close>

definition sop_wf :: "sop_definition \<Rightarrow> bool" where
  "sop_wf sop \<longleftrightarrow>
     short_text (sd_id sop) \<and> short_text (sd_name sop) \<and> (\<forall>v. sd_verification_command sop = Some v \<longrightarrow> line_text v)
   \<and> sd_steps sop \<noteq> []
   \<and> (\<forall>s \<in> set (sd_steps sop). short_text (sp_id s) \<and> short_text (sp_name s) \<and> line_text (sp_command s)
        \<and> (\<forall>d \<in> set (sp_depends_on s). short_text d))
   \<and> indexed (sd_steps sop) \<and> acyclic (step_edges (sd_steps sop))"

lemma acyclic_no_loop: "acyclic (step_edges ss) \<Longrightarrow> s \<in> set ss \<Longrightarrow> d \<in> set (sp_depends_on s) \<Longrightarrow> d \<noteq> sp_id s"
  unfolding acyclic_def step_edges_def by blast

lemma validate_sop_iff: "validate_sop sop \<noteq> None \<and> (validate_sop sop = Some (Inr ()) \<longleftrightarrow> sop_wf sop)"
proof -
  let ?ss = "sd_steps sop"
  let ?checks = "and_then (check_memory_text ''SOP id'' (sd_id sop)) (\<lambda>_.
        and_then (check_memory_text ''SOP name'' (sd_name sop)) (\<lambda>_.
        and_then (opt_try (check_multiline_text ''verification command'') (sd_verification_command sop)) (\<lambda>_.
        and_then (ensure (?ss \<noteq> []) (MemoryEmptyField ''steps'')) (\<lambda>_.
        and_then (check_steps [] ?ss) (\<lambda>_.
        try_all (\<lambda>s. check_known_dependencies (map sp_id ?ss) (sp_id s) [] (sp_depends_on s)) ?ss)))))"
  have checks: "?checks = Inr () \<longleftrightarrow>
      short_text (sd_id sop) \<and> short_text (sd_name sop) \<and> (\<forall>v. sd_verification_command sop = Some v \<longrightarrow> line_text v) \<and> ?ss \<noteq> []
    \<and> (\<forall>s \<in> set ?ss. short_text (sp_id s) \<and> short_text (sp_name s) \<and> line_text (sp_command s)
         \<and> (\<forall>d \<in> set (sp_depends_on s). short_text d \<and> d \<noteq> sp_id s))
    \<and> indexed ?ss"
    by (cases "sd_verification_command sop") (auto simp: check_steps_iff check_known_iff indexed_def)
  show ?thesis
  proof (cases "?checks = Inr ()")
    case True
    then have ix: "indexed ?ss" using checks by blast
    obtain order deg where o: "execution_order sop = Some order" "kahn_inv ?ss deg [] order"
      using execution_order_indexed [OF ix] by blast
    have v: "validate_sop sop = Some (ensure (length order = length ?ss) StepDependencyCycle)"
      unfolding validate_sop_def True o(1) by simp
    have "sop_wf sop \<longleftrightarrow> acyclic (step_edges ?ss)" using True checks acyclic_no_loop by (auto simp: sop_wf_def)
    then show ?thesis using v kahn_end(1) [OF ix o(2)] by simp
  next
    case False
    then obtain e where e: "?checks = Inl e" by (cases ?checks) auto
    then have "validate_sop sop = Some (Inl e)" unfolding validate_sop_def by simp
    moreover have "\<not> sop_wf sop" using False checks acyclic_no_loop by (auto simp: sop_wf_def)
    ultimately show ?thesis by simp
  qed
qed

text \<open>C27: Validating a procedure never panics and accepts exactly the well-formed ones: texts in bounds, step identifiers
  distinct, dependencies known and named once, and no cycle among them.\<close>

theorem validate_sop_exact: "validate_sop sop \<noteq> None \<and> (validate_sop sop = Some (Inr ()) \<longleftrightarrow> sop_wf sop)"
  by (rule validate_sop_iff)

text \<open>C26: The execution order of a validated procedure exists and is a schedule of it: every step once, and each is among the ready
  steps when exactly the steps before it have been completed.\<close>

theorem execution_order_schedules:
  assumes "validate_sop sop = Some (Inr ())"
  shows "\<exists>order. execution_order sop = Some order \<and> mset order = mset (sd_steps sop)
    \<and> (\<forall>xs s ys. order = xs @ s # ys \<longrightarrow> s \<in> set (ready_steps (map sp_id xs) sop))"
proof -
  have wf: "sop_wf sop" using validate_sop_iff assms by blast
  then have ix: "indexed (sd_steps sop)" by (simp add: sop_wf_def)
  obtain order deg where o: "execution_order sop = Some order" "kahn_inv (sd_steps sop) deg [] order"
    using execution_order_indexed [OF ix] by blast
  have "length order = length (sd_steps sop)" using kahn_end(1) [OF ix o(2)] wf by (simp add: sop_wf_def)
  then have "mset order = mset (sd_steps sop)" by (rule kahn_end(2) [OF ix o(2)])
  moreover have "s \<in> set (ready_steps (map sp_id xs) sop)" if split: "order = xs @ s # ys" for xs s ys
  proof -
    have "set (sp_depends_on s) \<subseteq> sp_id ` set xs" "distinct (map sp_id order)" "set order \<subseteq> set (sd_steps sop)"
      using o(2) split unfolding kahn_inv_def in_order_def by auto
    then show ?thesis using split by (auto simp: ready_steps_def list_all_iff)
  qed
  ultimately show ?thesis using o(1) by blast
qed

definition demo_step :: "string \<Rightarrow> string list \<Rightarrow> sop_step" where
  "demo_step i deps = \<lparr>sp_id = i, sp_name = i, sp_command = ''make'', sp_depends_on = deps\<rparr>"

definition demo_sop :: sop_definition where
  "demo_sop = \<lparr>sd_id = ''release'', sd_name = ''release'', sd_trigger_intent = ProcedureIntent,
     sd_steps = [demo_step ''ship'' [''test'', ''build''], demo_step ''test'' [''build''], demo_step ''build'' []],
     sd_verification_command = None\<rparr>"

lemma short_textI: "trim s \<noteq> [] \<and> \<not> has_control s \<Longrightarrow> length s \<le> 16384 \<Longrightarrow> short_text s"
  and line_textI: "trim s \<noteq> [] \<and> \<not> has_control_line s \<Longrightarrow> length s \<le> 65536 \<Longrightarrow> line_text s"
  by (simp_all add: short_text_def line_text_def)

lemma demo_sop_texts: "short_text ''release''" "short_text ''ship''" "short_text ''test''" "short_text ''build''" "line_text ''make''"
proof -
  show "short_text ''release''" by (rule short_textI) (code_simp, simp)
  show "short_text ''ship''" by (rule short_textI) (code_simp, simp)
  show "short_text ''test''" by (rule short_textI) (code_simp, simp)
  show "short_text ''build''" by (rule short_textI) (code_simp, simp)
  show "line_text ''make''" by (rule line_textI) (code_simp, simp)
qed

lemma demo_sop_valid: "validate_sop demo_sop = Some (Inr ())"
proof -
  let ?ss = "[demo_step ''ship'' [''test'', ''build''], demo_step ''test'' [''build''], demo_step ''build'' []]"
  have "step_edges ?ss \<subseteq> measure (\<lambda>i. if i = ''build'' then 0 else if i = ''test'' then 1 else 2)"
    by (auto simp: step_edges_def demo_step_def)
  then have "acyclic (step_edges ?ss)" by (rule wf_acyclic [OF wf_subset [OF wf_measure]])
  then have "sop_wf demo_sop" by (simp add: sop_wf_def demo_sop_def demo_step_def demo_sop_texts indexed_def)
  then show ?thesis by (simp add: validate_sop_iff)
qed

theorem execution_order_schedules_witness:
  "\<exists>order. execution_order demo_sop = Some order \<and> mset order = mset (sd_steps demo_sop)"
  using execution_order_schedules [OF demo_sop_valid] by blast

section \<open>Capsules\<close>

record memory_capsule =
  cp_capsule_id :: string
  cp_sop :: sop_definition
  cp_sha256_digest :: string
  cp_author :: string
  cp_created_at :: timestamp

definition newline :: string where
  "newline = [CHR 0x0A]"

text \<open>What is hashed; \<open>w\<close> is \<open>serde_json::to_string\<close>.\<close>

definition capsule_bytes ::
  "(sop_definition \<Rightarrow> string option) \<Rightarrow> string \<Rightarrow> sop_definition \<Rightarrow> string \<Rightarrow> timestamp \<Rightarrow> string" where
  "capsule_bytes w i sop author created =
     ''pandora-memory-capsule:v1'' @ newline @ i @ newline @ (case w sop of Some s \<Rightarrow> s | None \<Rightarrow> []) @ newline
       @ author @ newline @ show_nat (unat created)"

definition compute_capsule_digest ::
  "(string \<Rightarrow> string) \<Rightarrow> (sop_definition \<Rightarrow> string option) \<Rightarrow> string \<Rightarrow> sop_definition \<Rightarrow> string \<Rightarrow> timestamp \<Rightarrow> string" where
  "compute_capsule_digest sha w i sop author created = ''sha256:'' @ hex_encode (sha (capsule_bytes w i sop author created))"

definition new_capsule ::
  "(string \<Rightarrow> string) \<Rightarrow> (sop_definition \<Rightarrow> string option) \<Rightarrow> string \<Rightarrow> sop_definition \<Rightarrow> string \<Rightarrow> timestamp
     \<Rightarrow> (memory_contract_error, memory_capsule) outcome option" where
  "new_capsule sha w i sop author created =
     (case
        and_then (check_memory_text ''capsule id'' i) (\<lambda>i.
        and_then (check_memory_text ''capsule author'' author) (\<lambda>author. Inr (i, author))) of
        Inl e \<Rightarrow> Some (Inl e)
      | Inr (i, author) \<Rightarrow>
          map_option (\<lambda>r. and_then r (\<lambda>_.
            Inr \<lparr>cp_capsule_id = i, cp_sop = sop, cp_sha256_digest = compute_capsule_digest sha w i sop author created,
                 cp_author = author, cp_created_at = created\<rparr>)) (validate_sop sop))"

definition new_capsule_with_digest ::
  "string \<Rightarrow> sop_definition \<Rightarrow> string \<Rightarrow> string \<Rightarrow> timestamp \<Rightarrow> (memory_contract_error, memory_capsule) outcome option" where
  "new_capsule_with_digest i sop digest author created =
     (case
        and_then (check_memory_text ''capsule id'' i) (\<lambda>i.
        and_then (check_memory_text ''capsule author'' author) (\<lambda>author.
        and_then (check_memory_text ''capsule digest'' digest) (\<lambda>digest. Inr (i, author, digest)))) of
        Inl e \<Rightarrow> Some (Inl e)
      | Inr (i, author, digest) \<Rightarrow>
          map_option (\<lambda>r. and_then r (\<lambda>_.
            Inr \<lparr>cp_capsule_id = i, cp_sop = sop, cp_sha256_digest = digest, cp_author = author, cp_created_at = created\<rparr>))
            (validate_sop sop))"

definition verify_capsule_digest :: "(string \<Rightarrow> string) \<Rightarrow> (sop_definition \<Rightarrow> string option) \<Rightarrow> memory_capsule \<Rightarrow> bool" where
  "verify_capsule_digest sha w cp \<longleftrightarrow>
     cp_sha256_digest cp = compute_capsule_digest sha w (cp_capsule_id cp) (cp_sop cp) (cp_author cp) (cp_created_at cp)"

definition validate_capsule ::
  "(string \<Rightarrow> string) \<Rightarrow> (sop_definition \<Rightarrow> string option) \<Rightarrow> memory_capsule \<Rightarrow> (memory_contract_error, unit) outcome option" where
  "validate_capsule sha w cp =
     (case
        and_then (check_memory_text ''capsule id'' (cp_capsule_id cp)) (\<lambda>_.
        and_then (check_memory_text ''capsule author'' (cp_author cp)) (\<lambda>_. Inr ())) of
        Inl e \<Rightarrow> Some (Inl e)
      | Inr _ \<Rightarrow>
          map_option (\<lambda>r. and_then r (\<lambda>_. ensure (verify_capsule_digest sha w cp) InvalidCapsuleDigest))
            (validate_sop (cp_sop cp)))"

lemma no_newline: "\<not> has_control s \<Longrightarrow> CHR 0x0A \<notin> set s"
  by (induction s) auto

lemma newline_split:
  "CHR 0x0A \<notin> set xs \<Longrightarrow> CHR 0x0A \<notin> set ys \<Longrightarrow> xs @ newline @ us = ys @ newline @ vs \<longleftrightarrow> xs = ys \<and> us = vs"
proof (induction xs arbitrary: ys)
  case Nil
  then show ?case by (cases ys) (auto simp: newline_def)
next
  case (Cons x xs)
  then show ?case by (cases ys) (auto simp: newline_def)
qed

lemma validate_capsule_iff:
  "validate_capsule sha w cp = Some (Inr ()) \<longleftrightarrow>
     short_text (cp_capsule_id cp) \<and> short_text (cp_author cp) \<and> sop_wf (cp_sop cp) \<and> verify_capsule_digest sha w cp"
proof -
  obtain r where r: "validate_sop (cp_sop cp) = Some r" "r = Inr () \<longleftrightarrow> sop_wf (cp_sop cp)"
    using validate_sop_iff [of "cp_sop cp"] by auto
  show ?thesis
    using check_texts_ok(1) [of "''capsule id''" "cp_capsule_id cp"] check_texts_ok(1) [of "''capsule author''" "cp_author cp"] r
    by (cases "check_memory_text ''capsule id'' (cp_capsule_id cp)"; cases "check_memory_text ''capsule author'' (cp_author cp)"; cases r)
       (simp_all add: validate_capsule_def del: check_texts_ok)
qed

lemma capsule_bytes_inject:
  assumes "short_text i" "short_text author" "short_text i'" "short_text author'"
    and "w sop = Some s" "w sop' = Some s'" "CHR 0x0A \<notin> set s" "CHR 0x0A \<notin> set s'"
    and "capsule_bytes w i sop author created = capsule_bytes w i' sop' author' created'"
  shows "i = i' \<and> s = s' \<and> author = author' \<and> created = created'"
proof -
  have "CHR 0x0A \<notin> set i" "CHR 0x0A \<notin> set i'" "CHR 0x0A \<notin> set author" "CHR 0x0A \<notin> set author'"
    using assms(1-4) by (auto simp: short_text_def dest: no_newline)
  then have "i = i' \<and> s = s' \<and> author = author' \<and> show_nat (unat created) = show_nat (unat created')"
    using assms(5-9) by (simp add: capsule_bytes_def newline_split)
  then show ?thesis by (simp add: word_unat_eq_iff)
qed

text \<open>A validated capsule is identified by its digest: two with the same digest carry the same procedure, author and time under
  the same name, unless the hash collides on what was hashed, given a JSON writer that is injective and writes no line breaks.\<close>

lemma capsule_digest_binds:
  assumes "validate_capsule sha w cp = Some (Inr ())" "validate_capsule sha w cp' = Some (Inr ())"
    and "w (cp_sop cp) = Some s" "w (cp_sop cp') = Some s'" "CHR 0x0A \<notin> set s" "CHR 0x0A \<notin> set s'"
    and "s = s' \<longrightarrow> cp_sop cp = cp_sop cp'"
    and "sha (capsule_bytes w (cp_capsule_id cp) (cp_sop cp) (cp_author cp) (cp_created_at cp))
       = sha (capsule_bytes w (cp_capsule_id cp') (cp_sop cp') (cp_author cp') (cp_created_at cp')) \<longrightarrow>
         capsule_bytes w (cp_capsule_id cp) (cp_sop cp) (cp_author cp) (cp_created_at cp)
       = capsule_bytes w (cp_capsule_id cp') (cp_sop cp') (cp_author cp') (cp_created_at cp')"
    and "cp_sha256_digest cp = cp_sha256_digest cp'"
  shows "cp = cp'"
proof -
  note v = assms(1,2) [unfolded validate_capsule_iff]
  have eq: "capsule_bytes w (cp_capsule_id cp) (cp_sop cp) (cp_author cp) (cp_created_at cp)
      = capsule_bytes w (cp_capsule_id cp') (cp_sop cp') (cp_author cp') (cp_created_at cp')"
    using v assms(8,9) by (simp add: verify_capsule_digest_def compute_capsule_digest_def)
  have "cp_capsule_id cp = cp_capsule_id cp' \<and> s = s' \<and> cp_author cp = cp_author cp' \<and> cp_created_at cp = cp_created_at cp'"
    by (rule capsule_bytes_inject [OF _ _ _ _ assms(3-6) eq]) (use v in auto)
  then show ?thesis using assms(7,9) by (cases cp; cases cp') simp
qed

definition demo_sop_writer :: "sop_definition \<Rightarrow> string option" where
  "demo_sop_writer sop = (if sop = demo_sop then Some ''{}'' else None)"

lemma capsule_digest_binds_witness:
  "\<exists>cp cp'. new_capsule id demo_sop_writer ''release'' demo_sop ''build'' 5 = Some (Inr cp)
     \<and> new_capsule_with_digest ''release'' demo_sop (cp_sha256_digest cp) ''build'' 5 = Some (Inr cp') \<and> cp = cp'"
proof -
  let ?d = "compute_capsule_digest id demo_sop_writer ''release'' demo_sop ''build'' 5"
  let ?cp = "\<lparr>cp_capsule_id = ''release'', cp_sop = demo_sop, cp_sha256_digest = ?d, cp_author = ''build'', cp_created_at = 5\<rparr>"
  have t: "check_memory_text ''capsule id'' ''release'' = Inr ''release''" "check_memory_text ''capsule author'' ''build'' = Inr ''build''"
    by (rule check_memory_text_valid, unfold memory_text_def, code_simp)+
  have d: "check_memory_text ''capsule digest'' ?d = Inr ?d"
    by (rule check_memory_text_valid, unfold memory_text_def, code_simp)
  have new: "new_capsule id demo_sop_writer ''release'' demo_sop ''build'' 5 = Some (Inr ?cp)"
    "new_capsule_with_digest ''release'' demo_sop ?d ''build'' 5 = Some (Inr ?cp)"
    using demo_sop_valid by (simp_all add: new_capsule_def new_capsule_with_digest_def t d)
  have v: "validate_capsule id demo_sop_writer ?cp = Some (Inr ())"
    using demo_sop_valid validate_sop_iff [of demo_sop] demo_sop_texts by (simp add: validate_capsule_iff verify_capsule_digest_def)
  have "?cp = ?cp" by (rule capsule_digest_binds [OF v v, of "''{}''" "''{}''"]) (simp_all add: demo_sop_writer_def)
  then show ?thesis using new by fastforce
qed

end
