(* ===== verification/Sop_Store.thy ===== *)
theory Sop_Store
  imports Sop Session_Store
begin

text \<open>
  Where procedures and session archives are kept. The durable store are two tables of \<open>pandora-runtime/src/sessions.rs\<close>; the
  memory engine, \<open>pandora-runtime/src/memory_engine.rs\<close>, uses it when it has one and keeps lists in memory
  otherwise. Both backends are modelled, and the durable one is shown to refine the lists. \<open>wr\<close> and \<open>rd\<close> are
  \<open>serde_json\<close> on procedures. The success counter in memory wraps as in a release build.
\<close>

section \<open>Records\<close>

record stored_sop =
  so_sop :: sop_definition
  so_tenant_id :: tenant_id
  so_workspace_id :: workspace_id
  so_success_count :: u32
  so_created_at :: timestamp
  so_updated_at :: timestamp

record session_archive =
  sv_archive_id :: string
  sv_tenant_id :: tenant_id
  sv_workspace_id :: workspace_id
  sv_session_id :: session_id
  sv_summary :: string
  sv_diff_stats :: string
  sv_receipt_digest :: string
  sv_created_at :: timestamp

definition validate_archive :: "session_archive \<Rightarrow> (memory_contract_error, unit) outcome" where
  "validate_archive a =
     and_then (check_memory_text ''archive ID'' (sv_archive_id a)) (\<lambda>_.
     and_then (check_memory_text ''summary'' (sv_summary a)) (\<lambda>_.
     and_then (check_multiline_text ''diff stats'' (sv_diff_stats a)) (\<lambda>_.
     and_then (check_memory_text ''receipt digest'' (sv_receipt_digest a)) (\<lambda>_. Inr ()))))"

definition new_archive ::
  "string \<Rightarrow> tenant_id \<Rightarrow> workspace_id \<Rightarrow> session_id \<Rightarrow> string \<Rightarrow> string \<Rightarrow> string \<Rightarrow> timestamp
     \<Rightarrow> (memory_contract_error, session_archive) outcome" where
  "new_archive i tn ws sid summary stats digest created =
     and_then (check_memory_text ''archive ID'' i) (\<lambda>i.
     and_then (check_memory_text ''summary'' summary) (\<lambda>summary.
     and_then (check_multiline_text ''diff stats'' stats) (\<lambda>stats.
     and_then (check_memory_text ''receipt digest'' digest) (\<lambda>digest.
     let a = \<lparr>sv_archive_id = i, sv_tenant_id = tn, sv_workspace_id = ws, sv_session_id = sid, sv_summary = summary,
              sv_diff_stats = stats, sv_receipt_digest = digest, sv_created_at = created\<rparr> in
     and_then (validate_archive a) (\<lambda>_. Inr a)))))"

section \<open>The durable tables\<close>

record sop_row =
  qw_sop_id :: string
  qw_tenant_id :: string
  qw_workspace_id :: string
  qw_name :: string
  qw_intent :: string
  qw_definition_json :: string
  qw_success_count :: int
  qw_created_at :: int
  qw_updated_at :: int

record archive_row =
  hw_archive_id :: string
  hw_tenant_id :: string
  hw_workspace_id :: string
  hw_session_id :: string
  hw_summary :: string
  hw_diff_stats :: string
  hw_receipt_digest :: string
  hw_created_at :: int

abbreviation sop_key :: "sop_row \<Rightarrow> string \<times> string \<times> string" where
  "sop_key r \<equiv> (qw_tenant_id r, qw_workspace_id r, qw_sop_id r)"

abbreviation archive_key :: "archive_row \<Rightarrow> string \<times> string \<times> string" where
  "archive_key r \<equiv> (hw_tenant_id r, hw_workspace_id r, hw_archive_id r)"

text \<open>A \<open>u32\<close> column that holds a value out of range is an error of the database library.\<close>

definition count_u32 :: "int \<Rightarrow> (session_error, u32) outcome" where
  "count_u32 n = ok_or (u32_of_i64 n) SessionDatabase"

definition upsert_sop :: "sop_row \<Rightarrow> sop_row list \<Rightarrow> sop_row list" where
  "upsert_sop r t =
     (if row_lookup sop_key (sop_key r) t = None then row_insert r t
      else row_update (\<lambda>x. sop_key x = sop_key r)
             (\<lambda>x. x\<lparr>qw_name := qw_name r, qw_intent := qw_intent r, qw_definition_json := qw_definition_json r,
                    qw_success_count := qw_success_count x + 1, qw_updated_at := qw_updated_at r\<rparr>) t)"

definition store_sop ::
  "(sop_definition \<Rightarrow> string option) \<Rightarrow> faults \<Rightarrow> tenant_id \<Rightarrow> workspace_id \<Rightarrow> sop_definition \<Rightarrow> timestamp \<Rightarrow> sop_row list
     \<Rightarrow> (session_error, stored_sop) outcome \<times> sop_row list" where
  "store_sop wr f tn ws sop t rows =
     (case
        and_then (ok_or (wr sop) SessionSerialization) (\<lambda>json.
        and_then (ensure (\<not> f 0) SessionLockPoisoned) (\<lambda>_.
        and_then (timestamp_i64 t) (\<lambda>n.
        and_then (ensure (\<not> f 1) SessionDatabase) (\<lambda>_.
          Inr \<lparr>qw_sop_id = sd_id sop, qw_tenant_id = tn, qw_workspace_id = ws, qw_name = sd_name sop,
               qw_intent = intent_str (sd_trigger_intent sop), qw_definition_json = json, qw_success_count = 1,
               qw_created_at = n, qw_updated_at = n\<rparr>)))) of
        Inl e \<Rightarrow> (Inl e, rows)
      | Inr r \<Rightarrow>
          let rows = upsert_sop r rows in
          (and_then (ensure (\<not> f 2) SessionDatabase) (\<lambda>_.
           and_then (ok_or (row_lookup sop_key (tn, ws, sd_id sop) rows) SessionDatabase) (\<lambda>r.
           and_then (count_u32 (qw_success_count r)) (\<lambda>cnt.
           and_then (session_timestamp (qw_created_at r)) (\<lambda>created.
           and_then (session_timestamp (qw_updated_at r)) (\<lambda>updated.
             Inr \<lparr>so_sop = sop, so_tenant_id = tn, so_workspace_id = ws, so_success_count = cnt,
                  so_created_at = created, so_updated_at = updated\<rparr>))))), rows))"

text \<open>The validation of a definition that was read never panics (\<open>validate_sop_iff\<close>).\<close>

definition decode_sop ::
  "(string \<Rightarrow> sop_definition option) \<Rightarrow> tenant_id \<Rightarrow> workspace_id \<Rightarrow> sop_row \<Rightarrow> u32 \<Rightarrow> (session_error, stored_sop) outcome" where
  "decode_sop rd tn ws r cnt =
     and_then (ok_or (rd (qw_definition_json r)) SessionCorruptRecord) (\<lambda>sop.
     and_then (ensure (validate_sop sop = Some (Inr ())) SessionCorruptRecord) (\<lambda>_.
     and_then (session_timestamp (qw_created_at r)) (\<lambda>created.
     and_then (session_timestamp (qw_updated_at r)) (\<lambda>updated.
       Inr \<lparr>so_sop = sop, so_tenant_id = tn, so_workspace_id = ws, so_success_count = cnt,
            so_created_at = created, so_updated_at = updated\<rparr>))))"

definition load_sop ::
  "(string \<Rightarrow> sop_definition option) \<Rightarrow> faults \<Rightarrow> tenant_id \<Rightarrow> workspace_id \<Rightarrow> string \<Rightarrow> sop_row list
     \<Rightarrow> (session_error, stored_sop option) outcome" where
  "load_sop rd f tn ws i rows =
     (if f 0 then Inl SessionLockPoisoned
      else if f 1 then Inl SessionDatabase
      else opt_try (\<lambda>r. and_then (count_u32 (qw_success_count r)) (\<lambda>cnt. decode_sop rd tn ws r cnt))
             (row_lookup sop_key (tn, ws, i) rows))"

definition list_sops_by_intent ::
  "(string \<Rightarrow> sop_definition option) \<Rightarrow> faults \<Rightarrow> tenant_id \<Rightarrow> workspace_id \<Rightarrow> memory_intent option \<Rightarrow> sop_row list
     \<Rightarrow> (session_error, stored_sop list) outcome" where
  "list_sops_by_intent rd f tn ws intent rows =
     (if f 0 then Inl SessionLockPoisoned
      else if f 1 then Inl SessionDatabase
      else
        and_then
          (try_map (\<lambda>r. and_then (count_u32 (qw_success_count r)) (\<lambda>cnt. Inr (r, cnt)))
             (sort_key (\<lambda>r. (- qw_updated_at r, qw_sop_id r))
                (filter (\<lambda>r. qw_tenant_id r = tn \<and> qw_workspace_id r = ws
                   \<and> (case intent of Some x \<Rightarrow> qw_intent r = intent_str x | None \<Rightarrow> True)) rows)))
          (\<lambda>rows. try_map (\<lambda>(r, cnt). decode_sop rd tn ws r cnt) rows))"

text \<open>Archives.\<close>

definition upsert_archive :: "archive_row \<Rightarrow> archive_row list \<Rightarrow> archive_row list" where
  "upsert_archive r t =
     (if row_lookup archive_key (archive_key r) t = None then row_insert r t
      else row_update (\<lambda>x. archive_key x = archive_key r)
             (\<lambda>x. x\<lparr>hw_session_id := hw_session_id r, hw_summary := hw_summary r, hw_diff_stats := hw_diff_stats r,
                    hw_receipt_digest := hw_receipt_digest r, hw_created_at := hw_created_at r\<rparr>) t)"

definition store_archive ::
  "faults \<Rightarrow> session_archive \<Rightarrow> archive_row list \<Rightarrow> (session_error, unit) outcome \<times> archive_row list" where
  "store_archive f a rows =
     (case
        and_then (corrupt (validate_archive a)) (\<lambda>_.
        and_then (ensure (\<not> f 0) SessionLockPoisoned) (\<lambda>_.
        and_then (timestamp_i64 (sv_created_at a)) (\<lambda>n.
        and_then (ensure (\<not> f 1) SessionDatabase) (\<lambda>_.
          Inr \<lparr>hw_archive_id = sv_archive_id a, hw_tenant_id = sv_tenant_id a, hw_workspace_id = sv_workspace_id a,
               hw_session_id = sv_session_id a, hw_summary = sv_summary a, hw_diff_stats = sv_diff_stats a,
               hw_receipt_digest = sv_receipt_digest a, hw_created_at = n\<rparr>)))) of
        Inl e \<Rightarrow> (Inl e, rows)
      | Inr r \<Rightarrow> (Inr (), upsert_archive r rows))"

definition decode_archive :: "tenant_id \<Rightarrow> workspace_id \<Rightarrow> archive_row \<Rightarrow> (session_error, session_archive) outcome" where
  "decode_archive tn ws r =
     and_then (corrupt (new_id (hw_session_id r))) (\<lambda>sid.
     and_then (session_timestamp (hw_created_at r)) (\<lambda>created.
     and_then (corrupt (new_archive (hw_archive_id r) tn ws sid (hw_summary r) (hw_diff_stats r) (hw_receipt_digest r) created)) (\<lambda>a.
     and_then (corrupt (validate_archive a)) (\<lambda>_. Inr a))))"

definition load_archive ::
  "faults \<Rightarrow> tenant_id \<Rightarrow> workspace_id \<Rightarrow> string \<Rightarrow> archive_row list \<Rightarrow> (session_error, session_archive option) outcome" where
  "load_archive f tn ws i rows =
     (if f 0 then Inl SessionLockPoisoned
      else if f 1 then Inl SessionDatabase
      else opt_try (decode_archive tn ws) (row_lookup archive_key (tn, ws, i) rows))"

text \<open>A negative \<open>LIMIT\<close> would lift the bound; the conversion keeps it positive.\<close>

definition list_recent_archives ::
  "faults \<Rightarrow> tenant_id \<Rightarrow> workspace_id \<Rightarrow> u64 \<Rightarrow> archive_row list \<Rightarrow> (session_error, session_archive list) outcome" where
  "list_recent_archives f tn ws limit rows =
     (let n = (case i64_of_u64 limit of Some n \<Rightarrow> n | None \<Rightarrow> 2 ^ 63 - 1) in
      if f 0 then Inl SessionLockPoisoned
      else if f 1 then Inl SessionDatabase
      else try_map (decode_archive tn ws)
             (take (nat n) (sort_key (\<lambda>r. (- hw_created_at r, hw_archive_id r))
                (filter (\<lambda>r. hw_tenant_id r = tn \<and> hw_workspace_id r = ws) rows))))"

section \<open>The lists in memory\<close>

definition same_sop :: "tenant_id \<Rightarrow> workspace_id \<Rightarrow> string \<Rightarrow> stored_sop \<Rightarrow> bool" where
  "same_sop tn ws i s \<longleftrightarrow> sd_id (so_sop s) = i \<and> so_tenant_id s = tn \<and> so_workspace_id s = ws"

fun update_first :: "('a \<Rightarrow> bool) \<Rightarrow> ('a \<Rightarrow> 'a) \<Rightarrow> 'a list \<Rightarrow> 'a list" where
  "update_first P u [] = []"
| "update_first P u (x # xs) = (if P x then u x # xs else x # update_first P u xs)"

definition mem_store_sop ::
  "tenant_id \<Rightarrow> workspace_id \<Rightarrow> sop_definition \<Rightarrow> timestamp \<Rightarrow> stored_sop list \<Rightarrow> stored_sop \<times> stored_sop list" where
  "mem_store_sop tn ws sop t sops =
     (let u = (\<lambda>s. s\<lparr>so_sop := sop, so_success_count := so_success_count s + 1, so_updated_at := t\<rparr>) in
      case find (same_sop tn ws (sd_id sop)) sops of
        Some s \<Rightarrow> (u s, update_first (same_sop tn ws (sd_id sop)) u sops)
      | None \<Rightarrow>
          (let s = \<lparr>so_sop = sop, so_tenant_id = tn, so_workspace_id = ws, so_success_count = 1, so_created_at = t, so_updated_at = t\<rparr> in
           (s, sops @ [s])))"

definition mem_load_sop :: "tenant_id \<Rightarrow> workspace_id \<Rightarrow> string \<Rightarrow> stored_sop list \<Rightarrow> stored_sop option" where
  "mem_load_sop tn ws i sops = find (same_sop tn ws i) sops"

definition mem_query_sops :: "tenant_id \<Rightarrow> workspace_id \<Rightarrow> memory_intent option \<Rightarrow> stored_sop list \<Rightarrow> stored_sop list" where
  "mem_query_sops tn ws intent sops =
     sort_key (\<lambda>s. (- uint (so_updated_at s), sd_id (so_sop s)))
       (filter (\<lambda>s. so_tenant_id s = tn \<and> so_workspace_id s = ws
          \<and> (case intent of Some x \<Rightarrow> sd_trigger_intent (so_sop s) = x | None \<Rightarrow> True)) sops)"

definition same_archive :: "tenant_id \<Rightarrow> workspace_id \<Rightarrow> string \<Rightarrow> session_archive \<Rightarrow> bool" where
  "same_archive tn ws i a \<longleftrightarrow> sv_archive_id a = i \<and> sv_tenant_id a = tn \<and> sv_workspace_id a = ws"

definition mem_store_archive :: "session_archive \<Rightarrow> session_archive list \<Rightarrow> session_archive list" where
  "mem_store_archive a as = filter (\<lambda>x. \<not> same_archive (sv_tenant_id a) (sv_workspace_id a) (sv_archive_id a) x) as @ [a]"

definition mem_load_archive :: "tenant_id \<Rightarrow> workspace_id \<Rightarrow> string \<Rightarrow> session_archive list \<Rightarrow> session_archive option" where
  "mem_load_archive tn ws i as = find (same_archive tn ws i) as"

definition mem_query_archives :: "tenant_id \<Rightarrow> workspace_id \<Rightarrow> u64 \<Rightarrow> session_archive list \<Rightarrow> session_archive list" where
  "mem_query_archives tn ws limit as =
     take (unat limit) (sort_key (\<lambda>a. (- uint (sv_created_at a), sv_archive_id a))
       (filter (\<lambda>a. sv_tenant_id a = tn \<and> sv_workspace_id a = ws) as))"

section \<open>The durable procedures refine the lists\<close>

text \<open>A row holds a valid stored procedure.\<close>

definition holds_sop :: "(string \<Rightarrow> sop_definition option) \<Rightarrow> nat \<Rightarrow> sop_row \<Rightarrow> stored_sop \<Rightarrow> bool" where
  "holds_sop rd k r s \<longleftrightarrow>
     rd (qw_definition_json r) = Some (so_sop s) \<and> sop_wf (so_sop s) \<and> qw_sop_id r = sd_id (so_sop s)
   \<and> qw_tenant_id r = so_tenant_id s \<and> qw_workspace_id r = so_workspace_id s \<and> qw_intent r = intent_str (sd_trigger_intent (so_sop s))
   \<and> qw_success_count r = uint (so_success_count s) \<and> unat (so_success_count s) \<le> k
   \<and> i64_of_u64 (so_created_at s) = Some (qw_created_at r) \<and> i64_of_u64 (so_updated_at s) = Some (qw_updated_at r)"

definition sop_sim :: "(string \<Rightarrow> sop_definition option) \<Rightarrow> nat \<Rightarrow> sop_row list \<Rightarrow> stored_sop list \<Rightarrow> bool" where
  "sop_sim rd k rows sops \<longleftrightarrow> list_all2 (holds_sop rd k) rows sops \<and> keyed sop_key rows"

lemma intent_str_inject [simp]: "intent_str a = intent_str b \<longleftrightarrow> a = b"
  by (cases a; cases b) simp_all

lemma holds_sop_same: "holds_sop rd k r s \<Longrightarrow> sop_key r = (tn, ws, i) \<longleftrightarrow> same_sop tn ws i s"
  by (auto simp: holds_sop_def same_sop_def)

lemma decode_sop_holds:
  assumes "holds_sop rd k r s"
  shows "count_u32 (qw_success_count r) = Inr (so_success_count s)"
    "decode_sop rd (so_tenant_id s) (so_workspace_id s) r (so_success_count s) = Inr s"
  using assms validate_sop_iff [of "so_sop s"]
  by (auto simp: holds_sop_def count_u32_def decode_sop_def session_timestamp_def)

lemma sim_lookup:
  assumes "list_all2 (holds_sop rd k) rows sops"
  shows "rel_option (holds_sop rd k) (row_lookup sop_key (tn, ws, i) rows) (find (same_sop tn ws i) sops)"
  using assms unfolding row_lookup_def
  by (induction rule: list_all2_induct) (auto dest: holds_sop_same)

lemma load_sop_refines:
  assumes "sop_sim rd k rows sops"
  shows "load_sop rd no_faults tn ws i rows = Inr (mem_load_sop tn ws i sops)"
proof (cases "row_lookup sop_key (tn, ws, i) rows")
  case None
  then show ?thesis using sim_lookup [of rd k rows sops tn ws i] assms
    by (cases "find (same_sop tn ws i) sops") (auto simp: sop_sim_def load_sop_def no_faults_def mem_load_sop_def)
next
  case (Some r)
  then obtain s where s: "find (same_sop tn ws i) sops = Some s" "holds_sop rd k r s"
    using sim_lookup [of rd k rows sops tn ws i] assms by (cases "find (same_sop tn ws i) sops") (auto simp: sop_sim_def)
  then have "same_sop tn ws i s" by (auto simp: find_Some_iff)
  then show ?thesis using decode_sop_holds [OF s(2)] Some s(1)
    by (auto simp: load_sop_def no_faults_def mem_load_sop_def same_sop_def)
qed

lemma insort_rel:
  assumes "list_all2 R xs ys" "R x y" "\<And>a b. R a b \<Longrightarrow> f a = g b"
  shows "list_all2 R (insort_key f x xs) (insort_key g y ys)"
  using assms by (induction rule: list_all2_induct) auto

lemma sort_rel:
  assumes "list_all2 R xs ys" "\<And>a b. R a b \<Longrightarrow> f a = g b"
  shows "list_all2 R (sort_key f xs) (sort_key g ys)"
  using assms by (induction rule: list_all2_induct) (auto intro: insort_rel)

lemma filter_rel:
  assumes "list_all2 R xs ys" "\<And>a b. R a b \<Longrightarrow> P a = Q b"
  shows "list_all2 R (filter P xs) (filter Q ys)"
  using assms by (induction rule: list_all2_induct) auto

lemma list_sops_refines:
  assumes "sop_sim rd k rows sops"
  shows "list_sops_by_intent rd no_faults tn ws intent rows = Inr (mem_query_sops tn ws intent sops)"
proof -
  let ?P = "\<lambda>r. qw_tenant_id r = tn \<and> qw_workspace_id r = ws \<and> (case intent of Some x \<Rightarrow> qw_intent r = intent_str x | None \<Rightarrow> True)"
  let ?Q = "\<lambda>s. so_tenant_id s = tn \<and> so_workspace_id s = ws \<and> (case intent of Some x \<Rightarrow> sd_trigger_intent (so_sop s) = x | None \<Rightarrow> True)"
  let ?L = "sort_key (\<lambda>r. (- qw_updated_at r, qw_sop_id r)) (filter ?P rows)"
  have "list_all2 (holds_sop rd k) (filter ?P rows) (filter ?Q sops)"
    using assms by (intro filter_rel) (auto simp: sop_sim_def holds_sop_def split: option.splits)
  then have rel: "list_all2 (holds_sop rd k) ?L (mem_query_sops tn ws intent sops)"
    unfolding mem_query_sops_def by (rule sort_rel) (auto simp: holds_sop_def i64_of_u64_Some_iff)
  have own: "\<forall>s \<in> set (mem_query_sops tn ws intent sops). so_tenant_id s = tn \<and> so_workspace_id s = ws"
    by (simp add: mem_query_sops_def)
  have "and_then (try_map (\<lambda>r. and_then (count_u32 (qw_success_count r)) (\<lambda>cnt. Inr (r, cnt))) L)
      (\<lambda>rows. try_map (\<lambda>(r, cnt). decode_sop rd tn ws r cnt) rows) = Inr S"
    if "list_all2 (holds_sop rd k) L S" "\<forall>s \<in> set S. so_tenant_id s = tn \<and> so_workspace_id s = ws" for L S
  proof -
    have "try_map (\<lambda>r. and_then (count_u32 (qw_success_count r)) (\<lambda>cnt. Inr (r, cnt))) L = Inr (zip L (map so_success_count S))"
      using that by (induction rule: list_all2_induct) (auto simp: decode_sop_holds)
    moreover have "try_map (\<lambda>(r, cnt). decode_sop rd tn ws r cnt) (zip L (map so_success_count S)) = Inr S"
      using that
    proof (induction rule: list_all2_induct)
      case (Cons r rs s ss)
      then show ?case using decode_sop_holds(2) [OF Cons(1)] by simp
    qed simp
    ultimately show ?thesis by simp
  qed
  from this [OF rel own] show ?thesis by (simp add: list_sops_by_intent_def no_faults_def)
qed

lemma sim_mono: "sop_sim rd k rows sops \<Longrightarrow> sop_sim rd (Suc k) rows sops"
  by (auto simp: sop_sim_def holds_sop_def elim!: list_all2_mono)

lemma update_rel:
  assumes "list_all2 R xs ys" "keyed key xs" "\<And>x y. R x y \<Longrightarrow> (key x = c) = P y" "\<And>x y. R x y \<Longrightarrow> P y \<Longrightarrow> R' (u x) (v y)"
    "\<And>x y. R x y \<Longrightarrow> R' x y"
  shows "list_all2 R' (row_update (\<lambda>x. key x = c) u xs) (update_first P v ys)"
  using assms
proof (induction rule: list_all2_induct)
  case (Cons x xs y ys)
  show ?case
  proof (cases "P y")
    case True
    then have "key x = c" using Cons.prems(2) Cons.hyps(1) by simp
    then have "key z \<noteq> c" if "z \<in> set xs" for z using that Cons.prems(1) by (metis keyed_def distinct.simps(2) imageI list.set_map list.simps(9))
    then have "row_update (\<lambda>x. key x = c) u xs = xs" by (auto simp: row_update_def intro!: map_idI)
    moreover have "list_all2 R' xs ys" using Cons.hyps(2) Cons.prems(4) by (auto elim: list_all2_mono)
    ultimately show ?thesis using True \<open>key x = c\<close> Cons.prems(3) Cons.hyps(1) by (simp add: row_update_def)
  next
    case False
    then show ?thesis using Cons by (auto simp: row_update_def keyed_def)
  qed
qed (simp add: row_update_def)

text \<open>What a caller may store so that it can be read back: a valid procedure, a codec that reads what it wrote, a time in range.\<close>

definition storable :: "(sop_definition \<Rightarrow> string option) \<Rightarrow> (string \<Rightarrow> sop_definition option) \<Rightarrow> sop_definition \<Rightarrow> timestamp \<Rightarrow> bool" where
  "storable wr rd sop t \<longleftrightarrow> sop_wf sop \<and> Option.bind (wr sop) rd = Some sop \<and> uint t < 2 ^ 63"

lemma store_sop_refines:
  assumes sim: "sop_sim rd k rows sops" and ok: "storable wr rd sop t" and k: "Suc k < 2 ^ 32"
  shows "fst (store_sop wr no_faults tn ws sop t rows) = Inr (fst (mem_store_sop tn ws sop t sops))"
    "sop_sim rd (Suc k) (snd (store_sop wr no_faults tn ws sop t rows)) (snd (mem_store_sop tn ws sop t sops))"
proof -
  obtain json where json: "wr sop = Some json" "rd json = Some sop" using ok by (cases "wr sop") (auto simp: storable_def)
  have t: "i64_of_u64 t = Some (uint t)" using ok by (simp add: storable_def i64_of_u64_Some_iff)
  let ?r = "\<lparr>qw_sop_id = sd_id sop, qw_tenant_id = tn, qw_workspace_id = ws, qw_name = sd_name sop,
      qw_intent = intent_str (sd_trigger_intent sop), qw_definition_json = json, qw_success_count = 1, qw_created_at = uint t, qw_updated_at = uint t\<rparr>"
  let ?u = "\<lambda>x. x\<lparr>qw_name := qw_name ?r, qw_intent := qw_intent ?r, qw_definition_json := qw_definition_json ?r,
      qw_success_count := qw_success_count x + 1, qw_updated_at := qw_updated_at ?r\<rparr>"
  let ?v = "\<lambda>s. s\<lparr>so_sop := sop, so_success_count := so_success_count s + 1, so_updated_at := t\<rparr>"
  let ?P = "same_sop tn ws (sd_id sop)" and ?key = "(tn, ws, sd_id sop)"
  have store: "store_sop wr no_faults tn ws sop t rows =
      (and_then (ok_or (row_lookup sop_key ?key (upsert_sop ?r rows)) SessionDatabase) (\<lambda>r.
       and_then (count_u32 (qw_success_count r)) (\<lambda>cnt.
       and_then (session_timestamp (qw_created_at r)) (\<lambda>created.
       and_then (session_timestamp (qw_updated_at r)) (\<lambda>updated.
         Inr \<lparr>so_sop = sop, so_tenant_id = tn, so_workspace_id = ws, so_success_count = cnt, so_created_at = created,
              so_updated_at = updated\<rparr>)))), upsert_sop ?r rows)"
    by (simp add: store_sop_def json(1) t timestamp_i64_def no_faults_def Let_def)
  have rel: "list_all2 (holds_sop rd k) rows sops" "keyed sop_key rows" using sim by (simp_all add: sop_sim_def)
  show "fst (store_sop wr no_faults tn ws sop t rows) = Inr (fst (mem_store_sop tn ws sop t sops))"
    "sop_sim rd (Suc k) (snd (store_sop wr no_faults tn ws sop t rows)) (snd (mem_store_sop tn ws sop t sops))"
  proof (atomize (full), cases "find ?P sops")
    case None
    then have none: "row_lookup sop_key ?key rows = None" using sim_lookup [OF rel(1), of tn ws "sd_id sop"] by (cases "row_lookup sop_key ?key rows") auto
    let ?s = "\<lparr>so_sop = sop, so_tenant_id = tn, so_workspace_id = ws, so_success_count = 1, so_created_at = t, so_updated_at = t\<rparr>"
    have up: "upsert_sop ?r rows = row_insert ?r rows" using none by (simp add: upsert_sop_def)
    have "holds_sop rd (Suc k) ?r ?s" using json t ok by (simp add: holds_sop_def storable_def)
    then have "sop_sim rd (Suc k) (row_insert ?r rows) (sops @ [?s])"
      using sim_mono [OF sim] keyed_insert [of sop_key rows ?r] none by (simp add: sop_sim_def row_insert_def list_all2_appendI)
    moreover have "row_lookup sop_key ?key (row_insert ?r rows) = Some ?r" using none by simp
    ultimately show "fst (store_sop wr no_faults tn ws sop t rows) = Inr (fst (mem_store_sop tn ws sop t sops)) \<and>
        sop_sim rd (Suc k) (snd (store_sop wr no_faults tn ws sop t rows)) (snd (mem_store_sop tn ws sop t sops))"
      using t None none i64_roundtrip [OF t]
      by (simp add: store up mem_store_sop_def count_u32_def u32_of_i64_def session_timestamp_def Let_def)
  next
    case (Some s)
    then obtain r where r: "row_lookup sop_key ?key rows = Some r" "holds_sop rd k r s"
      using sim_lookup [OF rel(1), of tn ws "sd_id sop"] by (cases "row_lookup sop_key ?key rows") auto
    have up: "upsert_sop ?r rows = row_update (\<lambda>x. sop_key x = ?key) ?u rows" using r(1) by (simp add: upsert_sop_def)
    have bump: "unat (so_success_count x + 1) = Suc (unat (so_success_count x)) \<and> uint (so_success_count x + 1) = uint (so_success_count x) + 1"
      if "unat (so_success_count x) \<le> k" for x
    proof -
      have "unat (so_success_count x) + unat (1 :: u32) < 2 ^ 32" using that k by simp
      then have "unat (so_success_count x + 1) = unat (so_success_count x) + 1" using unat_add_no_overflow [of "so_success_count x" 1] by simp
      then show ?thesis by (metis Suc_eq_plus1 of_nat_Suc uint_nat add.commute)
    qed
    have upd: "holds_sop rd (Suc k) (?u x) (?v y)" if "holds_sop rd k x y" "?P y" for x y
      using that bump [of y] json t ok by (auto simp: holds_sop_def storable_def same_sop_def)
    have "list_all2 (holds_sop rd (Suc k)) (row_update (\<lambda>x. sop_key x = ?key) ?u rows) (update_first ?P ?v sops)"
    proof (rule update_rel [OF rel])
      show "(sop_key x = ?key) = ?P y" if "holds_sop rd k x y" for x y using that by (rule holds_sop_same)
      show "holds_sop rd (Suc k) (?u x) (?v y)" if "holds_sop rd k x y" "?P y" for x y using that by (rule upd)
      show "holds_sop rd (Suc k) x y" if "holds_sop rd k x y" for x y using that by (simp add: holds_sop_def)
    qed
    moreover have "keyed sop_key (row_update (\<lambda>x. sop_key x = ?key) ?u rows)" using rel(2) by (simp add: keyed_update)
    moreover have "row_lookup sop_key ?key (row_update (\<lambda>x. sop_key x = ?key) ?u rows) = Some (?u r)"
      using r(1) row_lookup_Some [OF r(1)] by (subst row_lookup_update) auto
    moreover have "same_sop tn ws (sd_id sop) s" using Some by (auto simp: find_Some_iff)
    moreover have "decode_sop rd tn ws (?u r) (so_success_count s + 1) = Inr (?v s)" "count_u32 (qw_success_count (?u r)) = Inr (so_success_count s + 1)"
      using decode_sop_holds [OF upd [OF r(2) \<open>same_sop tn ws (sd_id sop) s\<close>]] \<open>same_sop tn ws (sd_id sop) s\<close> by (simp_all add: same_sop_def)
    ultimately show "fst (store_sop wr no_faults tn ws sop t rows) = Inr (fst (mem_store_sop tn ws sop t sops)) \<and>
        sop_sim rd (Suc k) (snd (store_sop wr no_faults tn ws sop t rows)) (snd (mem_store_sop tn ws sop t sops))"
      using Some json(2) by (auto simp: store up mem_store_sop_def sop_sim_def decode_sop_def)
  qed
qed

text \<open>Histories of both backends.\<close>

type_synonym sop_write = "tenant_id \<times> workspace_id \<times> sop_definition \<times> timestamp"

definition durable_after :: "(sop_definition \<Rightarrow> string option) \<Rightarrow> sop_write list \<Rightarrow> sop_row list" where
  "durable_after wr ops = fold (\<lambda>(tn, ws, sop, t) rows. snd (store_sop wr no_faults tn ws sop t rows)) ops []"

definition memory_after :: "sop_write list \<Rightarrow> stored_sop list" where
  "memory_after ops = fold (\<lambda>(tn, ws, sop, t) sops. snd (mem_store_sop tn ws sop t sops)) ops []"

lemma histories_simulate:
  assumes "\<forall>(tn, ws, sop, t) \<in> set ops. storable wr rd sop t" "length ops < 2 ^ 32"
  shows "sop_sim rd (length ops) (durable_after wr ops) (memory_after ops)"
  using assms
proof (induction ops rule: rev_induct)
  case Nil
  then show ?case by (simp add: sop_sim_def durable_after_def memory_after_def)
next
  case (snoc x ops)
  obtain tn ws sop t where x: "x = (tn, ws, sop, t)" by (cases x) auto
  have "sop_sim rd (length ops) (durable_after wr ops) (memory_after ops)" using snoc by simp
  from store_sop_refines(2) [OF this, of wr sop t tn ws] snoc.prems show ?case
    by (simp add: x durable_after_def memory_after_def)
qed

text \<open>C30: The memory engine behaves the same with and without a durable store: after any history of fewer than \<open>2 ^ 32\<close> writes of valid
  procedures both backends answer a further write, every load and every listing alike.\<close>

theorem durable_sops_refine_memory:
  assumes "\<forall>(tn, ws, sop, t) \<in> set ops. storable wr rd sop t" "length ops + 1 < 2 ^ 32"
  shows "load_sop rd no_faults tn ws i (durable_after wr ops) = Inr (mem_load_sop tn ws i (memory_after ops))
    \<and> list_sops_by_intent rd no_faults tn ws intent (durable_after wr ops) = Inr (mem_query_sops tn ws intent (memory_after ops))
    \<and> (storable wr rd sop t \<longrightarrow>
         fst (store_sop wr no_faults tn ws sop t (durable_after wr ops)) = Inr (fst (mem_store_sop tn ws sop t (memory_after ops))))"
proof -
  have sim: "sop_sim rd (length ops) (durable_after wr ops) (memory_after ops)" by (rule histories_simulate) (use assms in auto)
  show ?thesis
    using load_sop_refines [OF sim] list_sops_refines [OF sim] store_sop_refines(1) [OF sim] assms(2) by simp
qed

definition demo_sop_reader :: "string \<Rightarrow> sop_definition option" where
  "demo_sop_reader s = (if s = ''{}'' then Some demo_sop else None)"

theorem durable_sops_refine_memory_witness:
  "\<exists>s. load_sop demo_sop_reader no_faults ''t'' ''w'' (sd_id demo_sop) (durable_after demo_sop_writer [(''t'', ''w'', demo_sop, 3), (''t'', ''w'', demo_sop, 5)])
     = Inr (Some s) \<and> so_success_count s = 2 \<and> so_created_at s = 3 \<and> so_updated_at s = 5"
proof -
  let ?ops = "[(''t'', ''w'', demo_sop, 3), (''t'', ''w'', demo_sop, 5)] :: sop_write list"
  have "sop_wf demo_sop" using demo_sop_valid validate_sop_iff by blast
  then have "\<forall>(tn, ws, sop, t) \<in> set ?ops. storable demo_sop_writer demo_sop_reader sop t"
    by (simp add: storable_def demo_sop_writer_def demo_sop_reader_def)
  then have "load_sop demo_sop_reader no_faults ''t'' ''w'' (sd_id demo_sop) (durable_after demo_sop_writer ?ops)
      = Inr (mem_load_sop ''t'' ''w'' (sd_id demo_sop) (memory_after ?ops))"
    by (rule durable_sops_refine_memory [THEN conjunct1]) simp
  moreover have "mem_load_sop ''t'' ''w'' (sd_id demo_sop) (memory_after ?ops)
      = Some \<lparr>so_sop = demo_sop, so_tenant_id = ''t'', so_workspace_id = ''w'', so_success_count = 2, so_created_at = 3, so_updated_at = 5\<rparr>"
    by (simp add: mem_load_sop_def memory_after_def mem_store_sop_def same_sop_def Let_def)
  ultimately show ?thesis by simp
qed

text \<open>
  The durable store takes a procedure without validating it: an invalid one is accepted, and from then on
  every listing of its scope fails. The lists in memory return it.
\<close>

lemma invalid_sop_blocks_listing:
  assumes "\<not> sop_wf sop" "Option.bind (wr sop) rd = Some sop" "uint t < 2 ^ 63"
  shows "\<exists>s. fst (store_sop wr no_faults tn ws sop t []) = Inr s"
    and "list_sops_by_intent rd no_faults tn ws None (snd (store_sop wr no_faults tn ws sop t [])) = Inl SessionCorruptRecord"
proof -
  obtain json where json: "wr sop = Some json" "rd json = Some sop" using assms(2) by (cases "wr sop") auto
  have t: "i64_of_u64 t = Some (uint t)" using assms(3) by (simp add: i64_of_u64_Some_iff)
  have v: "validate_sop sop \<noteq> Some (Inr ())" using assms(1) validate_sop_iff by blast
  show "\<exists>s. fst (store_sop wr no_faults tn ws sop t []) = Inr s"
    by (simp add: store_sop_def json t timestamp_i64_def no_faults_def upsert_sop_def row_lookup_def row_insert_def count_u32_def
        u32_of_i64_def session_timestamp_def Let_def i64_roundtrip [OF t])
  show "list_sops_by_intent rd no_faults tn ws None (snd (store_sop wr no_faults tn ws sop t [])) = Inl SessionCorruptRecord"
    using v by (simp add: store_sop_def list_sops_by_intent_def json t timestamp_i64_def no_faults_def upsert_sop_def row_lookup_def
        row_insert_def count_u32_def u32_of_i64_def decode_sop_def Let_def)
qed

text \<open>An archive of trimmed texts is read back as it was stored.\<close>

lemma archive_roundtrip:
  assumes "validate_archive a = Inr ()" "uint (sv_created_at a) < 2 ^ 63" "valid_id (sv_session_id a)"
    and "trim (sv_archive_id a) = sv_archive_id a" "trim (sv_summary a) = sv_summary a" "trim (sv_diff_stats a) = sv_diff_stats a"
    "trim (sv_receipt_digest a) = sv_receipt_digest a"
  shows "load_archive no_faults (sv_tenant_id a) (sv_workspace_id a) (sv_archive_id a) (snd (store_archive no_faults a rows)) = Inr (Some a)"
proof -
  have t: "i64_of_u64 (sv_created_at a) = Some (uint (sv_created_at a))" using assms(2) by (simp add: i64_of_u64_Some_iff)
  have trimmed: "short_text v \<Longrightarrow> check_memory_text f v = Inr (trim v)" "line_text v \<Longrightarrow> check_multiline_text f v = Inr (trim v)" for f v
    by (auto simp: check_memory_text_def check_multiline_text_def short_text_def line_text_def Let_def)
  have "short_text (sv_archive_id a)" "short_text (sv_summary a)" "line_text (sv_diff_stats a)" "short_text (sv_receipt_digest a)"
    using assms(1) by (auto simp: validate_archive_def)
  then have c: "check_memory_text f (sv_archive_id a) = Inr (sv_archive_id a)" "check_memory_text f (sv_summary a) = Inr (sv_summary a)"
    "check_multiline_text f (sv_diff_stats a) = Inr (sv_diff_stats a)" "check_memory_text f (sv_receipt_digest a) = Inr (sv_receipt_digest a)" for f
    using assms(4-7) by (simp_all add: trimmed)
  let ?r = "\<lparr>hw_archive_id = sv_archive_id a, hw_tenant_id = sv_tenant_id a, hw_workspace_id = sv_workspace_id a, hw_session_id = sv_session_id a,
      hw_summary = sv_summary a, hw_diff_stats = sv_diff_stats a, hw_receipt_digest = sv_receipt_digest a, hw_created_at = uint (sv_created_at a)\<rparr>"
  let ?key = "(sv_tenant_id a, sv_workspace_id a, sv_archive_id a)"
  have store: "snd (store_archive no_faults a rows) = upsert_archive ?r rows"
    by (simp add: store_archive_def assms(1) t timestamp_i64_def no_faults_def)
  have row: "row_lookup archive_key ?key (upsert_archive ?r rows) = Some ?r"
  proof (cases "row_lookup archive_key ?key rows")
    case None
    then show ?thesis by (simp add: upsert_archive_def)
  next
    case (Some x)
    then show ?thesis using row_lookup_Some [OF Some] by (simp add: upsert_archive_def) (subst row_lookup_update; auto)
  qed
  show ?thesis
    unfolding store load_archive_def row
    by (simp add: no_faults_def decode_archive_def session_timestamp_def i64_roundtrip [OF t] assms(3)
        new_archive_def c validate_archive_def Let_def)
qed

end
