(* ===== verification/Provider_Request.thy ===== *)
theory Provider_Request
  imports Effects Json_Value
begin

text \<open>
  Model requests, \<open>pandora-provider/src/manifest.rs\<close>, the data half of \<open>pandora-provider/src/client.rs\<close> and
  \<open>pandora-types/src/reasoning.rs\<close>: provider manifests, chat messages with their tool calls, the validated
  request and the canonical invocation a permit is issued for. \<open>serde_json\<close> is a parameter: \<open>jw\<close> writes
  and \<open>jr\<close> reads a JSON value, \<open>js\<close> writes the canonical invocation. A \<open>Duration\<close> is its number of nanoseconds.
\<close>

section \<open>Manifests\<close>

datatype manifest_error =
  ManifestEmptyField string
| ManifestInvalidIdentifier string
| ManifestFieldTooLong string
| InvalidEnvironmentName
| InvalidProtocol

type_synonym provider_id = string
type_synonym model_id = string

datatype provider_protocol = OpenAiCompatible | AnthropicMessages | GeminiGenerateContent

fun protocol_str :: "provider_protocol \<Rightarrow> string" where
  "protocol_str OpenAiCompatible = ''open_ai_compatible''"
| "protocol_str AnthropicMessages = ''anthropic_messages''"
| "protocol_str GeminiGenerateContent = ''gemini_generate_content''"

definition protocol_from_str :: "string \<Rightarrow> (manifest_error, provider_protocol) outcome" where
  "protocol_from_str v =
     (if v = ''open_ai_compatible'' \<or> v = ''openai'' then Inr OpenAiCompatible
      else if v = ''anthropic_messages'' \<or> v = ''anthropic'' then Inr AnthropicMessages
      else if v = ''gemini_generate_content'' \<or> v = ''gemini'' then Inr GeminiGenerateContent
      else Inl InvalidProtocol)"

record provider_manifest =
  mf_id :: provider_id
  mf_name :: string
  mf_protocol :: provider_protocol
  mf_base_url :: string
  mf_default_model :: model_id
  mf_api_key_env :: string

definition provider_id_byte :: "char \<Rightarrow> bool" where
  "provider_id_byte c \<longleftrightarrow>
     is_ascii_alphanumeric c \<or> c \<in> {CHR ''-'', CHR ''_'', CHR ''.'', CHR ''/'', CHR '':'', CHR ''@''}"

definition check_provider_id :: "string \<Rightarrow> string \<Rightarrow> (manifest_error, string) outcome" where
  "check_provider_id label v =
     (if blank v then Inl (ManifestEmptyField label)
      else if length v > 128 then Inl (ManifestFieldTooLong label)
      else if \<not> list_all provider_id_byte v then Inl (ManifestInvalidIdentifier label)
      else Inr v)"

definition new_provider_id :: "string \<Rightarrow> (manifest_error, provider_id) outcome" where
  "new_provider_id v = check_provider_id ''provider identifier'' v"

definition new_model_id :: "string \<Rightarrow> (manifest_error, model_id) outcome" where
  "new_model_id v = check_provider_id ''model identifier'' v"

definition manifest_text :: "string \<Rightarrow> string \<Rightarrow> nat \<Rightarrow> (manifest_error, string) outcome" where
  "manifest_text label v limit =
     (if blank v then Inl (ManifestEmptyField label)
      else if length v > limit then Inl (ManifestFieldTooLong label)
      else Inr v)"

definition is_environment_name :: "string \<Rightarrow> bool" where
  "is_environment_name v \<longleftrightarrow>
     v \<noteq> [] \<and> list_all (\<lambda>(i, c). c = CHR ''_'' \<or> ((65 :: nat) \<le> of_char c \<and> of_char c \<le> (90 :: nat)) \<or> (i > 0 \<and> is_ascii_digit c))
       (List.enumerate 0 v)"

definition new_manifest_with_protocol ::
  "string \<Rightarrow> string \<Rightarrow> provider_protocol \<Rightarrow> string \<Rightarrow> string \<Rightarrow> string \<Rightarrow> (manifest_error, provider_manifest) outcome" where
  "new_manifest_with_protocol i name protocol base_url model env =
     and_then (manifest_text ''provider name'' name 256) (\<lambda>name.
     and_then (manifest_text ''provider URL'' base_url 2048) (\<lambda>base_url.
     and_then (ensure (is_environment_name env) InvalidEnvironmentName) (\<lambda>_.
     and_then (new_provider_id i) (\<lambda>i.
     and_then (new_model_id model) (\<lambda>model.
       Inr \<lparr>mf_id = i, mf_name = name, mf_protocol = protocol, mf_base_url = base_url,
            mf_default_model = model, mf_api_key_env = env\<rparr>)))))"

definition new_manifest where
  "new_manifest i name base_url model env = new_manifest_with_protocol i name OpenAiCompatible base_url model env"

definition gemini_studio where
  "gemini_studio i model env =
     new_manifest_with_protocol i ''Google AI Studio'' GeminiGenerateContent
       ''https://generativelanguage.googleapis.com/v1beta'' model env"

definition vertex_ai_express where
  "vertex_ai_express i model env =
     new_manifest_with_protocol i ''Google Vertex AI Express'' GeminiGenerateContent
       ''https://aiplatform.googleapis.com/v1/publishers/google'' model env"

definition vertex_ai where
  "vertex_ai i project location model env =
     new_manifest_with_protocol i ''Google Vertex AI'' GeminiGenerateContent
       (''https://'' @ location @ ''-aiplatform.googleapis.com/v1/projects/'' @ project @ ''/locations/'' @ location
          @ ''/publishers/google'') model env"

section \<open>Reasoning effort\<close>

datatype reasoning_effort = NoEffort | LowEffort | MediumEffort | HighEffort

fun effort_str :: "reasoning_effort \<Rightarrow> string" where
  "effort_str NoEffort = ''none''"
| "effort_str LowEffort = ''low''"
| "effort_str MediumEffort = ''medium''"
| "effort_str HighEffort = ''high''"

fun anthropic_thinking_budget :: "reasoning_effort \<Rightarrow> u32 option" where
  "anthropic_thinking_budget NoEffort = None"
| "anthropic_thinking_budget LowEffort = Some 1024"
| "anthropic_thinking_budget MediumEffort = Some 4096"
| "anthropic_thinking_budget HighEffort = Some 16384"

fun openai_reasoning_effort :: "reasoning_effort \<Rightarrow> string option" where
  "openai_reasoning_effort NoEffort = None"
| "openai_reasoning_effort LowEffort = Some ''low''"
| "openai_reasoning_effort MediumEffort = Some ''medium''"
| "openai_reasoning_effort HighEffort = Some ''high''"

definition effort_from_str :: "string \<Rightarrow> (string, reasoning_effort) outcome" where
  "effort_from_str s =
     (let v = to_ascii_lowercase (trim s) in
      if v \<in> {''none'', ''off'', ''disabled'', ''0''} then Inr NoEffort
      else if v \<in> {''low'', ''fast'', ''1''} then Inr LowEffort
      else if v \<in> {''medium'', ''balanced'', ''2'', ''default''} then Inr MediumEffort
      else if v \<in> {''high'', ''deep'', ''extended'', ''3''} then Inr HighEffort
      else Inl (''invalid reasoning effort '' @ [CHR 0x27] @ v @ [CHR 0x27] @ '', expected one of: none, low, medium, high''))"

section \<open>Messages\<close>

datatype provider_error =
  InvalidManifest manifest_error
| CredentialUnavailable
| InvalidProviderRequest string
| UnsupportedEndpoint
| ProviderTransport
| HttpStatus u16
| ResponseTooLarge
| InvalidResponse
| InvalidToolArguments string
| DuplicateToolCallId string

definition is_retryable :: "provider_error \<Rightarrow> bool" where
  "is_retryable e =
     (case e of
        CredentialUnavailable \<Rightarrow> True
      | ProviderTransport \<Rightarrow> True
      | HttpStatus status \<Rightarrow> status = 408 \<or> status = 429 \<or> (500 \<le> status \<and> status \<le> 599)
      | _ \<Rightarrow> False)"

datatype message_role = SystemRole | UserRole | AssistantRole | ToolRole

record chat_tool_call =
  tc_id :: string
  tc_name :: string
  tc_arguments :: string

record chat_message =
  cm_role :: message_role
  cm_content :: string
  cm_tool_calls :: "chat_tool_call list"
  cm_tool_call_id :: "string option"

record tool_call =
  tl_id :: string
  tl_name :: string
  tl_arguments :: json

definition MAX_MESSAGE_BYTES :: nat where "MAX_MESSAGE_BYTES = 1048576"
definition MAX_MESSAGES :: nat where "MAX_MESSAGES = 128"
definition MAX_TOOLS :: nat where "MAX_TOOLS = 128"
definition MAX_OUTPUT_TOKENS :: u32 where "MAX_OUTPUT_TOKENS = 131072"
definition MAX_TOOL_CALL_ID_BYTES :: nat where "MAX_TOOL_CALL_ID_BYTES = 256"

text \<open>Nanoseconds.\<close>

definition DEFAULT_TIMEOUT :: nat where "DEFAULT_TIMEOUT = 120 * 10 ^ 9"
definition MAX_TIMEOUT :: nat where "MAX_TIMEOUT = 300 * 10 ^ 9"

definition validate_tool_call_id :: "string \<Rightarrow> (provider_error, unit) outcome" where
  "validate_tool_call_id v =
     (if length v > MAX_TOOL_CALL_ID_BYTES \<or> blank v \<or> has_control v
      then Inl (InvalidProviderRequest ''tool call ID is invalid'') else Inr ())"

fun is_object :: "json \<Rightarrow> bool" where
  "is_object (JObject _) = True"
| "is_object _ = False"

definition new_tool_call :: "string \<Rightarrow> string \<Rightarrow> json \<Rightarrow> (provider_error, tool_call) outcome" where
  "new_tool_call i name args =
     and_then (validate_tool_call_id i) (\<lambda>_.
     if blank name \<or> has_control name then Inl (InvalidProviderRequest ''tool name is invalid'')
     else if \<not> is_object args then Inl (InvalidToolArguments i)
     else Inr \<lparr>tl_id = i, tl_name = name, tl_arguments = args\<rparr>)"

definition new_chat_message :: "message_role \<Rightarrow> string \<Rightarrow> (provider_error, chat_message) outcome" where
  "new_chat_message role content =
     (if content = [] then Inl (InvalidProviderRequest ''message content cannot be empty'')
      else if length content > MAX_MESSAGE_BYTES then Inl (InvalidProviderRequest ''message content exceeds the size limit'')
      else Inr \<lparr>cm_role = role, cm_content = content, cm_tool_calls = [], cm_tool_call_id = None\<rparr>)"

definition chat_system where "chat_system = new_chat_message SystemRole"
definition chat_user where "chat_user = new_chat_message UserRole"
definition chat_assistant where "chat_assistant = new_chat_message AssistantRole"
definition chat_tool where "chat_tool = new_chat_message ToolRole"

definition encode_tool_call :: "(json \<Rightarrow> string option) \<Rightarrow> tool_call \<Rightarrow> (provider_error, chat_tool_call) outcome" where
  "encode_tool_call jw call =
     and_then (ok_or (jw (tl_arguments call)) (InvalidProviderRequest ''tool arguments could not be encoded'')) (\<lambda>args.
       Inr \<lparr>tc_id = tl_id call, tc_name = tl_name call, tc_arguments = args\<rparr>)"

definition assistant_tool_calls ::
  "(json \<Rightarrow> string option) \<Rightarrow> tool_call list \<Rightarrow> (provider_error, chat_message) outcome" where
  "assistant_tool_calls jw calls =
     (if calls = [] then Inl (InvalidProviderRequest ''assistant tool-call message cannot be empty'')
      else and_then (try_map (encode_tool_call jw) calls) (\<lambda>calls.
        Inr \<lparr>cm_role = AssistantRole, cm_content = [], cm_tool_calls = calls, cm_tool_call_id = None\<rparr>))"

definition tool_result :: "string \<Rightarrow> string \<Rightarrow> (provider_error, chat_message) outcome" where
  "tool_result i content =
     and_then (validate_tool_call_id i) (\<lambda>_.
     and_then (chat_tool (if content = [] then ''[empty tool result]'' else content)) (\<lambda>m.
       Inr (m\<lparr>cm_tool_call_id := Some i\<rparr>)))"

definition decode_tool_call :: "(string \<Rightarrow> json option) \<Rightarrow> chat_tool_call \<Rightarrow> (provider_error, tool_call) outcome" where
  "decode_tool_call jr call =
     and_then (ok_or (jr (tc_arguments call)) (InvalidToolArguments (tc_id call))) (\<lambda>args.
       new_tool_call (tc_id call) (tc_name call) args)"

definition message_tool_calls :: "(string \<Rightarrow> json option) \<Rightarrow> chat_message \<Rightarrow> (provider_error, tool_call list) outcome" where
  "message_tool_calls jr m = try_map (decode_tool_call jr) (cm_tool_calls m)"

section \<open>Tools and requests\<close>

record tool_schema =
  ts_name :: string
  ts_description :: string
  ts_input_schema :: json

definition new_tool_schema :: "string \<Rightarrow> string \<Rightarrow> json \<Rightarrow> (provider_error, tool_schema) outcome" where
  "new_tool_schema name description schema =
     (if name = [] \<or> length name > 128 then Inl (InvalidProviderRequest ''tool name is empty or too long'')
      else if \<not> list_all (\<lambda>c. is_ascii_alphanumeric c \<or> c \<in> {CHR ''-'', CHR ''_'', CHR ''.''}) name
      then Inl (InvalidProviderRequest ''tool name contains unsupported characters'')
      else if length description > 1024 then Inl (InvalidProviderRequest ''tool description exceeds the size limit'')
      else if \<not> is_object schema then Inl (InvalidProviderRequest ''tool input schema must be an object'')
      else Inr \<lparr>ts_name = name, ts_description = description, ts_input_schema = schema\<rparr>)"

record trace_metadata =
  tm_execution_id :: "execution_id option"
  tm_session_id :: "session_id option"

datatype prompt_cache_ttl = FiveMinutes | OneHour

fun ttl_str :: "prompt_cache_ttl \<Rightarrow> string" where
  "ttl_str FiveMinutes = ''5m''"
| "ttl_str OneHour = ''1h''"

record model_request =
  mr_provider_id :: provider_id
  mr_model_id :: model_id
  mr_messages :: "chat_message list"
  mr_tools :: "tool_schema list"
  mr_max_output_tokens :: u32
  mr_timeout :: nat
  mr_trace :: trace_metadata
  mr_prompt_cache_ttl :: "prompt_cache_ttl option"
  mr_reasoning_effort :: "reasoning_effort option"

fun distinct_tools :: "string list \<Rightarrow> tool_schema list \<Rightarrow> (provider_error, unit) outcome" where
  "distinct_tools names [] = Inr ()"
| "distinct_tools names (t # ts) =
     (if ts_name t \<in> set names then Inl (InvalidProviderRequest ''duplicate tool name'')
      else distinct_tools (ts_name t # names) ts)"

definition validate_model_request :: "model_request \<Rightarrow> (provider_error, unit) outcome" where
  "validate_model_request r =
     and_then (ensure (mr_messages r \<noteq> [] \<and> length (mr_messages r) \<le> MAX_MESSAGES)
       (InvalidProviderRequest ''message count is outside the allowed range'')) (\<lambda>_.
     and_then (ensure (sum_list (map (length \<circ> cm_content) (mr_messages r)) \<le> MAX_MESSAGE_BYTES)
       (InvalidProviderRequest ''total message content exceeds the size limit'')) (\<lambda>_.
     and_then (ensure (length (mr_tools r) \<le> MAX_TOOLS) (InvalidProviderRequest ''tool count exceeds the size limit'')) (\<lambda>_.
     and_then (distinct_tools [] (mr_tools r)) (\<lambda>_.
     and_then (ensure (mr_max_output_tokens r \<noteq> 0 \<and> mr_max_output_tokens r \<le> MAX_OUTPUT_TOKENS)
       (InvalidProviderRequest ''output token budget is outside the allowed range'')) (\<lambda>_.
       ensure (mr_timeout r \<noteq> 0 \<and> mr_timeout r \<le> MAX_TIMEOUT)
         (InvalidProviderRequest ''request timeout is outside the allowed range''))))))"

definition validated :: "model_request \<Rightarrow> (provider_error, model_request) outcome" where
  "validated r = and_then (validate_model_request r) (\<lambda>_. Inr r)"

definition new_model_request :: "provider_id \<Rightarrow> model_id \<Rightarrow> chat_message list \<Rightarrow> (provider_error, model_request) outcome" where
  "new_model_request p m messages =
     validated \<lparr>mr_provider_id = p, mr_model_id = m, mr_messages = messages, mr_tools = [], mr_max_output_tokens = 1024,
       mr_timeout = DEFAULT_TIMEOUT, mr_trace = \<lparr>tm_execution_id = None, tm_session_id = None\<rparr>,
       mr_prompt_cache_ttl = None, mr_reasoning_effort = None\<rparr>"

definition with_tools where "with_tools tools r = validated (r\<lparr>mr_tools := tools\<rparr>)"
definition with_max_output_tokens where "with_max_output_tokens n r = validated (r\<lparr>mr_max_output_tokens := n\<rparr>)"
definition with_timeout where "with_timeout t r = validated (r\<lparr>mr_timeout := t\<rparr>)"

definition for_provider :: "provider_id \<Rightarrow> model_id \<Rightarrow> model_request \<Rightarrow> model_request" where
  "for_provider p m r = r\<lparr>mr_provider_id := p, mr_model_id := m\<rparr>"

section \<open>The canonical invocation\<close>

record canonical_model_request =
  cq_provider_id :: string
  cq_model_id :: string
  cq_messages :: "chat_message list"
  cq_tools :: "tool_schema list"
  cq_max_output_tokens :: u32
  cq_timeout_millis :: nat
  cq_trace_execution_id :: "string option"
  cq_trace_session_id :: "string option"
  cq_prompt_cache_ttl :: "prompt_cache_ttl option"
  cq_reasoning_effort :: "string option"

record canonical_invocation =
  ci_provider_id :: string
  ci_protocol :: provider_protocol
  ci_base_url :: string
  ci_credential_reference :: string
  ci_request :: canonical_model_request

definition canonical_authorization_request :: "model_request \<Rightarrow> canonical_model_request" where
  "canonical_authorization_request r =
     \<lparr>cq_provider_id = mr_provider_id r, cq_model_id = mr_model_id r, cq_messages = mr_messages r, cq_tools = mr_tools r,
      cq_max_output_tokens = mr_max_output_tokens r, cq_timeout_millis = mr_timeout r div 10 ^ 6,
      cq_trace_execution_id = tm_execution_id (mr_trace r), cq_trace_session_id = tm_session_id (mr_trace r),
      cq_prompt_cache_ttl = mr_prompt_cache_ttl r, cq_reasoning_effort = map_option effort_str (mr_reasoning_effort r)\<rparr>"

definition canonical_invocation_of :: "provider_manifest \<Rightarrow> model_request \<Rightarrow> canonical_invocation" where
  "canonical_invocation_of m r =
     \<lparr>ci_provider_id = mf_id m, ci_protocol = mf_protocol m, ci_base_url = mf_base_url m,
      ci_credential_reference = mf_api_key_env m, ci_request = canonical_authorization_request r\<rparr>"

definition authorization_payload_for ::
  "(canonical_invocation \<Rightarrow> string option) \<Rightarrow> provider_manifest \<Rightarrow> model_request \<Rightarrow> (provider_error, string) outcome" where
  "authorization_payload_for js m r =
     and_then (ensure (mr_provider_id r = mf_id m)
       (InvalidProviderRequest ''provider request is not bound to the provider manifest'')) (\<lambda>_.
       ok_or (js (canonical_invocation_of m r))
         (InvalidProviderRequest ''provider request could not be encoded for authorization''))"

section \<open>Responses\<close>

record token_usage =
  tu_prompt_tokens :: u32
  tu_completion_tokens :: u32
  tu_cached_prompt_tokens :: u32
  tu_cache_write_prompt_tokens :: u32

definition new_usage :: "u32 \<Rightarrow> u32 \<Rightarrow> token_usage" where
  "new_usage p c = \<lparr>tu_prompt_tokens = p, tu_completion_tokens = c, tu_cached_prompt_tokens = 0, tu_cache_write_prompt_tokens = 0\<rparr>"

definition with_prompt_cache :: "u32 \<Rightarrow> u32 \<Rightarrow> token_usage \<Rightarrow> token_usage" where
  "with_prompt_cache cached written u = u\<lparr>tu_cached_prompt_tokens := cached, tu_cache_write_prompt_tokens := written\<rparr>"

definition total_tokens :: "token_usage \<Rightarrow> u32" where
  "total_tokens u = saturating_add (tu_prompt_tokens u) (tu_completion_tokens u)"

record model_response =
  re_text :: string
  re_tool_calls :: "tool_call list"
  re_usage :: token_usage

end
