(* ===== verification/Session_Journal.thy ===== *)
theory Session_Journal
  imports Session_Runs Provider_Request
begin

text \<open>
  The replay journal, \<open>pandora-runtime/src/session_journal.rs\<close> and the journal table of \<open>sessions.rs\<close>: steps with chained
  digests, rewinding a session to a step, forking a session at a step, and comparing two steps. A hash map is
  an association list with distinct keys. The effects on the working tree (\<open>git checkout\<close>, \<open>git worktree add\<close>,
  creating directories) ignore their outcome and are left out; the paths and names they are given are modelled. The
  prose of a comparison is the value \<open>tool_diff\<close> that it prints. Each call of the store has its own
  faults: \<open>fs 0\<close> to \<open>fs 2\<close> are the fixed calls of an operation, \<open>fs (3 + k)\<close> the \<open>k\<close>-th step it stores.
\<close>

section \<open>Steps\<close>

type_synonym environment = "(string \<times> string) list"

record journal_step =
  js_step_index :: u64
  js_session_id :: session_id
  js_tool_name :: "string option"
  js_tool_call_id :: "string option"
  js_arguments :: "json option"
  js_result :: "string option"
  js_workspace_diff :: string
  js_environment_state :: environment
  js_sha256_digest :: string
  js_timestamp :: timestamp

definition opt_text :: "string option \<Rightarrow> string" where
  "opt_text x = (case x of Some s \<Rightarrow> s | None \<Rightarrow> [])"

definition environment_bytes :: "environment \<Rightarrow> string" where
  "environment_bytes env =
     concat (map (\<lambda>k. k @ ''='' @ opt_text (map_of env k) @ '';'') (sort (map fst env)))"

text \<open>\<open>jw\<close> is \<open>Value::to_string\<close>.\<close>

definition step_bytes ::
  "(json \<Rightarrow> string) \<Rightarrow> u64 \<Rightarrow> session_id \<Rightarrow> string option \<Rightarrow> json option \<Rightarrow> string \<Rightarrow> environment \<Rightarrow> string option \<Rightarrow> string" where
  "step_bytes jw n sid tool args diff env prev =
     (let nl = [CHR 0x0A] in
      ''pandora-step-digest:v1'' @ nl @ show_nat (unat n) @ nl @ sid @ nl @ opt_text tool @ nl @ opt_text (map_option jw args) @ nl
        @ diff @ nl @ environment_bytes env @ nl @ opt_text prev)"

definition compute_step_digest ::
  "(string \<Rightarrow> string) \<Rightarrow> (json \<Rightarrow> string) \<Rightarrow> u64 \<Rightarrow> session_id \<Rightarrow> string option \<Rightarrow> json option \<Rightarrow> string \<Rightarrow> environment
     \<Rightarrow> string option \<Rightarrow> string" where
  "compute_step_digest sha jw n sid tool args diff env prev =
     ''sha256:'' @ hex_encode (sha (step_bytes jw n sid tool args diff env prev))"

definition capture_turn_step ::
  "(string \<Rightarrow> string) \<Rightarrow> (json \<Rightarrow> string) \<Rightarrow> session_id \<Rightarrow> u64 \<Rightarrow> string option \<Rightarrow> string option \<Rightarrow> json option \<Rightarrow> string option
     \<Rightarrow> string \<Rightarrow> environment \<Rightarrow> string option \<Rightarrow> timestamp \<Rightarrow> journal_step" where
  "capture_turn_step sha jw sid n tool call_id args result diff env prev t =
     \<lparr>js_step_index = n, js_session_id = sid, js_tool_name = tool, js_tool_call_id = call_id, js_arguments = args,
      js_result = result, js_workspace_diff = diff, js_environment_state = env,
      js_sha256_digest = compute_step_digest sha jw n sid tool args diff env prev, js_timestamp = t\<rparr>"

section \<open>The table\<close>

record journal_codec =
  jc_write :: "journal_step \<Rightarrow> string option"
  jc_read :: "string \<Rightarrow> journal_step option"

abbreviation journal_key :: "journal_row \<Rightarrow> string \<times> int" where
  "journal_key r \<equiv> (jw_session_id r, jw_step_index r)"

definition journal_row_of :: "journal_step \<Rightarrow> string \<Rightarrow> int \<Rightarrow> journal_row" where
  "journal_row_of s json t =
     \<lparr>jw_session_id = js_session_id s, jw_step_index = sint (js_step_index s), jw_step_json = json,
      jw_digest = js_sha256_digest s, jw_created_at = t\<rparr>"

definition upsert_journal :: "journal_row \<Rightarrow> journal_row list \<Rightarrow> journal_row list" where
  "upsert_journal r t =
     (if row_lookup journal_key (journal_key r) t = None then row_insert r t
      else row_update (\<lambda>x. journal_key x = journal_key r)
             (\<lambda>x. x\<lparr>jw_step_json := jw_step_json r, jw_digest := jw_digest r, jw_created_at := jw_created_at r\<rparr>) t)"

definition store_journal_step ::
  "journal_codec \<Rightarrow> faults \<Rightarrow> journal_step \<Rightarrow> session_db \<Rightarrow> (session_error, unit) outcome \<times> session_db" where
  "store_journal_step jc f s db =
     (case
        and_then (ok_or (jc_write jc s) SessionSerialization) (\<lambda>json.
        and_then (timestamp_i64 (js_timestamp s)) (\<lambda>t.
        and_then (ensure (\<not> f 0) SessionLockPoisoned) (\<lambda>_.
        and_then (ensure (\<not> f 1) SessionDatabase) (\<lambda>_. Inr (journal_row_of s json t))))) of
        Inl e \<Rightarrow> (Inl e, db)
      | Inr row \<Rightarrow> (Inr (), db\<lparr>db_journal := upsert_journal row (db_journal db)\<rparr>))"

definition journal_of :: "session_id \<Rightarrow> session_db \<Rightarrow> journal_row list" where
  "journal_of sid db = sort_key jw_step_index (filter (\<lambda>r. jw_session_id r = sid) (db_journal db))"

definition load_journal_steps ::
  "journal_codec \<Rightarrow> faults \<Rightarrow> session_id \<Rightarrow> session_db \<Rightarrow> (session_error, journal_step list) outcome" where
  "load_journal_steps jc f sid db =
     (if f 0 then Inl SessionLockPoisoned
      else if f 1 then Inl SessionDatabase
      else try_map (\<lambda>r. ok_or (jc_read jc (jw_step_json r)) SessionSerialization) (journal_of sid db))"

definition truncate_journal_after ::
  "faults \<Rightarrow> session_id \<Rightarrow> u64 \<Rightarrow> session_db \<Rightarrow> (session_error, nat) outcome \<times> session_db" where
  "truncate_journal_after f sid n db =
     (let cond = (\<lambda>r. jw_session_id r = sid \<and> jw_step_index r > sint n) in
      if f 0 then (Inl SessionLockPoisoned, db)
      else if f 1 then (Inl SessionDatabase, db)
      else (Inr (rows_changed cond (db_journal db)), db\<lparr>db_journal := filter (\<lambda>r. \<not> cond r) (db_journal db)\<rparr>))"

section \<open>The engine\<close>

definition default_scope :: session_caller where
  "default_scope = \<lparr>cl_principal_id = ''principal-default'', cl_tenant_id = ''tenant-default'', cl_workspace_id = ''workspace-default''\<rparr>"

text \<open>The environment of the engine: the hash, the writer of JSON values, the reader of tool arguments and the codecs.\<close>

record journal_env =
  je_sha :: "string \<Rightarrow> string"
  je_json :: "json \<Rightarrow> string"
  je_read_json :: "string \<Rightarrow> json option"
  je_codec :: journal_codec
  je_session :: "chat_message session_codec"

definition first_tool :: "journal_env \<Rightarrow> chat_message \<Rightarrow> string option" where
  "first_tool env m =
     (case ok (message_tool_calls (je_read_json env) m) of Some (c # _) \<Rightarrow> Some (tl_name c) | _ \<Rightarrow> None)"

fun synthesize_steps ::
  "journal_env \<Rightarrow> (nat \<Rightarrow> faults) \<Rightarrow> session_id \<Rightarrow> nat \<Rightarrow> string option \<Rightarrow> chat_message list \<Rightarrow> session_db
     \<Rightarrow> journal_step list \<times> session_db" where
  "synthesize_steps env fs sid n prev [] db = ([], db)"
| "synthesize_steps env fs sid n prev (m # ms) db =
     (let s = capture_turn_step (je_sha env) (je_json env) sid (of_nat n) (first_tool env m) None None (Some (cm_content m)) [] [] prev
                (100 + of_nat n);
          db = snd (store_journal_step (je_codec env) (fs (3 + n)) s db) in
      case synthesize_steps env fs sid (Suc n) (Some (js_sha256_digest s)) ms db of (ss, db) \<Rightarrow> (s # ss, db))"

definition load_or_synthesize_steps ::
  "journal_env \<Rightarrow> (nat \<Rightarrow> faults) \<Rightarrow> session_id \<Rightarrow> session_db \<Rightarrow> (session_error, journal_step list) outcome \<times> session_db" where
  "load_or_synthesize_steps env fs sid db =
     (case load_journal_steps (je_codec env) (fs 0) sid db of
        Inl e \<Rightarrow> (Inl e, db)
      | Inr steps \<Rightarrow>
          let (steps, db) =
            (if steps = [] then
               (case resume_session (je_session env) (fs 1) sid default_scope db of
                  Inr snap \<Rightarrow> synthesize_steps env fs sid 0 None (ss_agent_messages snap) db
                | Inl _ \<Rightarrow> (steps, db))
             else (steps, db)) in
          (if steps = [] then Inl SessionNotFound else Inr steps, db))"

record rewind_result =
  rw_session_id :: session_id
  rw_rolled_back_from_step :: u64
  rw_rolled_back_to_step :: u64
  rw_target_digest :: string
  rw_restored_environment :: environment
  rw_workspace_restored :: bool

definition step_at :: "u64 \<Rightarrow> journal_step list \<Rightarrow> journal_step option" where
  "step_at n steps = find (\<lambda>s. js_step_index s = n) steps"

definition max_step :: "journal_step list \<Rightarrow> u64" where
  "max_step steps = fold max (map js_step_index steps) 0"

text \<open>The workspace is given or not; with or without a repository in it, it is reported as restored.\<close>

definition rewind ::
  "journal_env \<Rightarrow> (nat \<Rightarrow> faults) \<Rightarrow> session_id \<Rightarrow> u64 \<Rightarrow> bool \<Rightarrow> session_db
     \<Rightarrow> (session_error, rewind_result) outcome \<times> session_db" where
  "rewind env fs sid target has_workspace db =
     (case load_or_synthesize_steps env fs sid db of
        (Inl e, db) \<Rightarrow> (Inl e, db)
      | (Inr steps, db) \<Rightarrow>
          (case step_at target steps of
             None \<Rightarrow> (Inl (InvalidStep (''target step '' @ show_nat (unat target) @ '' not found in recorded steps'')), db)
           | Some s \<Rightarrow>
               (case truncate_journal_after (fs 2) sid target db of
                  (Inl e, db) \<Rightarrow> (Inl e, db)
                | (Inr _, db) \<Rightarrow>
                    (Inr \<lparr>rw_session_id = sid, rw_rolled_back_from_step = max_step steps, rw_rolled_back_to_step = target,
                          rw_target_digest = js_sha256_digest s, rw_restored_environment = js_environment_state s,
                          rw_workspace_restored = has_workspace\<rparr>, db))))"

record fork_result =
  fk_parent_session_id :: session_id
  fk_forked_session_id :: session_id
  fk_at_step :: u64
  fk_worktree_path :: string
  fk_git_branch :: string
  fk_prompt :: string
  fk_created_at :: timestamp

definition clean_parent :: "session_id \<Rightarrow> string" where
  "clean_parent sid = take 16 (filter (\<lambda>c. is_ascii_alphanumeric c \<or> c = CHR ''-'') sid)"

definition fork_id :: "session_id \<Rightarrow> u64 \<Rightarrow> timestamp \<Rightarrow> string" where
  "fork_id sid n t = ''fork-'' @ clean_parent sid @ ''-s'' @ show_nat (unat n) @ ''-'' @ show_nat (unat t)"

text \<open>\<open>Path::join\<close> with a relative path.\<close>

definition path_join :: "string \<Rightarrow> string \<Rightarrow> string" where
  "path_join base s = (if base = [] \<or> last base = CHR ''/'' then base @ s else base @ ''/'' @ s)"

fun copy_steps ::
  "journal_codec \<Rightarrow> (nat \<Rightarrow> faults) \<Rightarrow> nat \<Rightarrow> session_id \<Rightarrow> journal_step list \<Rightarrow> session_db
     \<Rightarrow> (session_error, unit) outcome \<times> session_db" where
  "copy_steps jc fs k sid [] db = (Inr (), db)"
| "copy_steps jc fs k sid (s # ss) db =
     (case store_journal_step jc (fs (3 + k)) (s\<lparr>js_session_id := sid\<rparr>) db of
        (Inl e, db) \<Rightarrow> (Inl e, db)
      | (Inr _, db) \<Rightarrow> copy_steps jc fs (Suc k) sid ss db)"

text \<open>The stores that copy are numbered after those that may have synthesized the steps.\<close>

definition fork_session ::
  "journal_env \<Rightarrow> (nat \<Rightarrow> faults) \<Rightarrow> session_id \<Rightarrow> u64 \<Rightarrow> string \<Rightarrow> string \<Rightarrow> session_caller \<Rightarrow> timestamp \<Rightarrow> session_db
     \<Rightarrow> (session_error, fork_result) outcome \<times> session_db" where
  "fork_session env fs parent n prompt workspace cl t db =
     (case load_or_synthesize_steps env fs parent db of
        (Inl e, db) \<Rightarrow> (Inl e, db)
      | (Inr steps, db) \<Rightarrow>
          if \<not> list_ex (\<lambda>s. js_step_index s = n) steps
          then (Inl (InvalidStep (''step '' @ show_nat (unat n) @ '' not found in recorded steps'')), db)
          else
            (case corrupt (new_id (fork_id parent n t)) of
               Inl e \<Rightarrow> (Inl e, db)
             | Inr forked \<Rightarrow>
                 (case create_session (fs 2)
                    \<lparr>se_id = forked, se_principal_id = cl_principal_id cl, se_tenant_id = cl_tenant_id cl,
                     se_workspace_id = cl_workspace_id cl, se_created_at = t\<rparr> db of
                    (Inl e, db) \<Rightarrow> (Inl e, db)
                  | (Inr _, db) \<Rightarrow>
                      (case copy_steps (je_codec env) fs (length steps) forked (filter (\<lambda>s. js_step_index s \<le> n) steps) db of
                         (Inl e, db) \<Rightarrow> (Inl e, db)
                       | (Inr _, db) \<Rightarrow>
                           (Inr \<lparr>fk_parent_session_id = parent, fk_forked_session_id = forked, fk_at_step = n,
                                 fk_worktree_path = path_join (path_join (path_join workspace ''.pandora'') ''forks'') forked,
                                 fk_git_branch = ''pandora-fork/'' @ clean_parent parent @ ''/s'' @ show_nat (unat n),
                                 fk_prompt = prompt, fk_created_at = t\<rparr>, db)))))"

datatype tool_diff =
  IdenticalTool "string option"
| ChangedTool "string option" "json option" "string option" "json option"

record step_diff =
  df_session_id :: session_id
  df_step_a :: u64
  df_step_b :: u64
  df_digest_a :: string
  df_digest_b :: string
  df_tool_diff :: tool_diff
  df_workspace_diff :: string
  df_environment_diff :: "(string \<times> string option \<times> string option) list"

definition or_clean :: "string \<Rightarrow> string" where
  "or_clean s = (if s = [] then ''  (clean workspace)'' else s)"

definition diff_workspaces :: "u64 \<Rightarrow> u64 \<Rightarrow> string \<Rightarrow> string \<Rightarrow> string" where
  "diff_workspaces a b x y =
     (let na = show_nat (unat a); nb = show_nat (unat b); nl = [CHR 0x0A]; head = ''Diff Step '' @ na @ '' -> Step '' @ nb @ '':'' in
      if x = y then head @ '' No workspace changes between steps''
      else head @ nl @ ''--- Step '' @ na @ nl @ ''+++ Step '' @ nb @ nl @ or_clean x @ nl @ or_clean y)"

definition diff_environments :: "environment \<Rightarrow> environment \<Rightarrow> (string \<times> string option \<times> string option) list" where
  "diff_environments x y =
     map (\<lambda>k. (k, map_of x k, map_of y k))
       (filter (\<lambda>k. map_of x k \<noteq> map_of y k) (remdups (sort (map fst x @ map fst y))))"

definition diff_steps ::
  "journal_env \<Rightarrow> (nat \<Rightarrow> faults) \<Rightarrow> session_id \<Rightarrow> u64 \<Rightarrow> u64 \<Rightarrow> session_db
     \<Rightarrow> (session_error, step_diff) outcome \<times> session_db" where
  "diff_steps env fs sid a b db =
     (case load_or_synthesize_steps env fs sid db of
        (Inl e, db) \<Rightarrow> (Inl e, db)
      | (Inr steps, db) \<Rightarrow>
          (and_then (ok_or (step_at a steps) (InvalidStep (''step '' @ show_nat (unat a) @ '' not found''))) (\<lambda>x.
           and_then (ok_or (step_at b steps) (InvalidStep (''step '' @ show_nat (unat b) @ '' not found''))) (\<lambda>y.
             Inr \<lparr>df_session_id = sid, df_step_a = a, df_step_b = b, df_digest_a = js_sha256_digest x,
                  df_digest_b = js_sha256_digest y,
                  df_tool_diff =
                    (if js_tool_name x = js_tool_name y \<and> js_arguments x = js_arguments y then IdenticalTool (js_tool_name x)
                     else ChangedTool (js_tool_name x) (js_arguments x) (js_tool_name y) (js_arguments y)),
                  df_workspace_diff = diff_workspaces a b (js_workspace_diff x) (js_workspace_diff y),
                  df_environment_diff = diff_environments (js_environment_state x) (js_environment_state y)\<rparr>)), db))"

section \<open>The rows and the steps they hold\<close>

definition row_holds :: "journal_codec \<Rightarrow> journal_row \<Rightarrow> journal_step \<Rightarrow> bool" where
  "row_holds jc r s \<longleftrightarrow>
     jc_read jc (jw_step_json r) = Some s \<and> js_session_id s = jw_session_id r \<and> sint (js_step_index s) = jw_step_index r
   \<and> js_sha256_digest s = jw_digest r \<and> i64_of_u64 (js_timestamp s) = Some (jw_created_at r)"

definition journal_inv :: "journal_codec \<Rightarrow> session_db \<Rightarrow> bool" where
  "journal_inv jc db \<longleftrightarrow> keyed journal_key (db_journal db) \<and> (\<forall>r \<in> set (db_journal db). \<exists>s. row_holds jc r s)"

definition journal_codec_ok :: "journal_codec \<Rightarrow> bool" where
  "journal_codec_ok jc \<longleftrightarrow> (\<forall>s json. jc_write jc s = Some json \<longrightarrow> jc_read jc json = Some s)"

lemma journal_inv_empty: "journal_inv jc empty_session_db"
  by (simp add: journal_inv_def empty_session_db_def)

lemma store_journal_step_cases:
  obtains e where "store_journal_step jc f s db = (Inl e, db)"
  | json t where "jc_write jc s = Some json" "i64_of_u64 (js_timestamp s) = Some t"
    "store_journal_step jc f s db = (Inr (), db\<lparr>db_journal := upsert_journal (journal_row_of s json t) (db_journal db)\<rparr>)"
  unfolding store_journal_step_def
  by (cases "jc_write jc s"; cases "i64_of_u64 (js_timestamp s)"; cases "f 0"; cases "f 1") (simp_all add: timestamp_i64_def)

lemma store_journal_step_inv:
  assumes "journal_codec_ok jc" "journal_inv jc db"
  shows "journal_inv jc (snd (store_journal_step jc f s db))"
proof (cases rule: store_journal_step_cases [of jc f s db])
  case (1 e)
  then show ?thesis using assms(2) by simp
next
  case js: (2 json t)
  let ?r = "journal_row_of s json t"
  have read: "jc_read jc json = Some s" using assms(1) js(1) by (simp add: journal_codec_ok_def)
  show ?thesis
  proof (cases "row_lookup journal_key (journal_key ?r) (db_journal db) = None")
    case True
    then have "keyed journal_key (row_insert ?r (db_journal db))" using assms(2) keyed_insert by (auto simp: journal_inv_def)
    moreover have "row_holds jc ?r s" using read js(2) by (simp add: row_holds_def journal_row_of_def)
    ultimately show ?thesis using assms(2) True js(3) by (auto simp: journal_inv_def upsert_journal_def row_insert_def)
  next
    case False
    let ?u = "\<lambda>x. x\<lparr>jw_step_json := jw_step_json ?r, jw_digest := jw_digest ?r, jw_created_at := jw_created_at ?r\<rparr>"
    have "keyed journal_key (row_update (\<lambda>x. journal_key x = journal_key ?r) ?u (db_journal db))"
      using assms(2) by (auto simp: journal_inv_def keyed_update)
    moreover have "row_holds jc (?u x) s" if "journal_key x = journal_key ?r" for x
      using that read js(2) by (simp add: row_holds_def journal_row_of_def)
    ultimately show ?thesis using assms(2) False js(3) by (auto simp: journal_inv_def upsert_journal_def row_update_def)
  qed
qed

lemma truncate_inv: "journal_inv jc db \<Longrightarrow> journal_inv jc (snd (truncate_journal_after f sid n db))"
  by (auto simp: truncate_journal_after_def journal_inv_def keyed_def Let_def distinct_map_filter)

lemma try_map_filter:
  assumes "try_map read rows = Inr steps" "\<And>r s. r \<in> set rows \<Longrightarrow> read r = Inr s \<Longrightarrow> P r = Q s"
  shows "try_map read (filter P rows) = Inr (filter Q steps)"
  using assms
proof (induction rows arbitrary: steps)
  case (Cons r rows)
  then obtain s ss where s: "read r = Inr s" "try_map read rows = Inr ss" "steps = s # ss" by (auto split: sum.splits)
  then have "P r = Q s" using Cons.prems(2) [of r s] by simp
  then show ?case using s Cons.IH [OF s(2)] Cons.prems(2) by auto
qed simp

lemma journal_of_truncate:
  "journal_of j (db\<lparr>db_journal := filter (\<lambda>r. \<not> (jw_session_id r = sid \<and> jw_step_index r > n)) (db_journal db)\<rparr>)
     = (if j = sid then filter (\<lambda>r. \<not> jw_step_index r > n) (journal_of j db) else journal_of j db)"
proof (cases "j = sid")
  case True
  then show ?thesis by (simp add: journal_of_def filter_sort conj_commute cong: conj_cong)
next
  case False
  then have "filter (\<lambda>r. jw_session_id r = j) (filter (\<lambda>r. \<not> (jw_session_id r = sid \<and> jw_step_index r > n)) (db_journal db))
      = filter (\<lambda>r. jw_session_id r = j) (db_journal db)"
    unfolding filter_filter by (intro filter_cong) auto
  then show ?thesis using False by (simp add: journal_of_def)
qed

lemma journal_same_session: "same_session i db (db\<lparr>db_journal := t\<rparr>)"
  by (simp add: same_session_def)

section \<open>Forks\<close>

lemma fork_id_valid: "new_id (fork_id sid n t) = Inr (fork_id sid n t)"
proof -
  have "length (clean_parent sid) \<le> 16" by (simp add: clean_parent_def)
  then have "length (fork_id sid n t) \<le> 256"
    using show_nat_u64_length [of n] show_nat_u64_length [of t] by (simp add: fork_id_def del: show_nat.simps)
  moreover have "\<not> blank (fork_id sid n t)" by (rule not_blank_visible [of "CHR ''f''"]) (simp_all add: visible_def fork_id_def)
  ultimately show ?thesis by (simp add: valid_id_def)
qed

lemma loaded_rows:
  assumes "journal_inv jc db" "load_journal_steps jc no_faults sid db = Inr steps"
  shows "list_all2 (row_holds jc) (journal_of sid db) steps" "sorted_wrt (<) (map (sint \<circ> js_step_index) steps)"
proof -
  have rows: "list_all2 (row_holds jc) rows ss"
    if "try_map (\<lambda>r. ok_or (jc_read jc (jw_step_json r)) SessionSerialization) rows = Inr ss" "\<forall>r \<in> set rows. \<exists>s. row_holds jc r s" for rows ss
    using that
  proof (induction rows arbitrary: ss)
    case (Cons r rows)
    then obtain s' s rest where "row_holds jc r s'" "jc_read jc (jw_step_json r) = Some s"
      "try_map (\<lambda>r. ok_or (jc_read jc (jw_step_json r)) SessionSerialization) rows = Inr rest" "ss = s # rest"
      by (auto split: sum.splits)
    then show ?case using Cons.IH [of rest] Cons.prems(2) by (auto simp: row_holds_def)
  qed simp
  show l: "list_all2 (row_holds jc) (journal_of sid db) steps"
    using assms by (intro rows) (auto simp: load_journal_steps_def no_faults_def journal_of_def journal_inv_def)
  have "distinct (map jw_step_index (filter (\<lambda>r. jw_session_id r = sid) t))" if "keyed journal_key t" for t
    using that by (induction t) (auto simp: keyed_def image_iff)
  then have "distinct (map jw_step_index (journal_of sid db))" using assms(1) by (simp add: journal_inv_def journal_of_def distinct_map)
  then have "sorted_wrt (<) (map jw_step_index (journal_of sid db))" by (simp add: strict_sorted_iff journal_of_def)
  moreover have "map (sint \<circ> js_step_index) steps = map jw_step_index (journal_of sid db)"
    using l by (induction rule: list_all2_induct) (auto simp: row_holds_def)
  ultimately show "sorted_wrt (<) (map (sint \<circ> js_step_index) steps)" by simp
qed

text \<open>Copies under a name that has no rows yet are appended, and are read back in the same order.\<close>

lemma copy_steps_fresh:
  assumes "journal_codec_ok jc" "sorted_wrt (<) (map (sint \<circ> js_step_index) ss)"
    and "\<forall>s \<in> set ss. jc_write jc (s\<lparr>js_session_id := sid\<rparr>) \<noteq> None \<and> i64_of_u64 (js_timestamp s) \<noteq> None"
    and "\<forall>r \<in> set (db_journal db). jw_session_id r = sid \<longrightarrow> (\<forall>s \<in> set ss. jw_step_index r < sint (js_step_index s))"
  shows "\<exists>rows. copy_steps jc (\<lambda>_. no_faults) k sid ss db = (Inr (), db\<lparr>db_journal := db_journal db @ rows\<rparr>)
    \<and> list_all2 (row_holds jc) rows (map (\<lambda>s. s\<lparr>js_session_id := sid\<rparr>) ss)"
  using assms
proof (induction ss arbitrary: db k)
  case Nil
  then show ?case by (intro exI [of _ "[]"]) simp
next
  case (Cons s ss)
  let ?s = "s\<lparr>js_session_id := sid\<rparr>"
  obtain json t where jt: "jc_write jc ?s = Some json" "i64_of_u64 (js_timestamp s) = Some t" using Cons.prems(3) by auto
  let ?r = "journal_row_of ?s json t"
  let ?db = "db\<lparr>db_journal := db_journal db @ [?r]\<rparr>"
  have "row_lookup journal_key (journal_key ?r) (db_journal db) = None"
    using Cons.prems(4) unfolding row_lookup_None_iff by (force simp: journal_row_of_def)
  then have store: "store_journal_step jc no_faults ?s db = (Inr (), ?db)"
    using jt by (simp add: store_journal_step_def no_faults_def timestamp_i64_def upsert_journal_def row_insert_def)
  have holds: "row_holds jc ?r ?s" using jt Cons.prems(1) by (simp add: row_holds_def journal_row_of_def journal_codec_ok_def)
  have "\<exists>rows. copy_steps jc (\<lambda>_. no_faults) (Suc k) sid ss ?db = (Inr (), ?db\<lparr>db_journal := db_journal ?db @ rows\<rparr>)
      \<and> list_all2 (row_holds jc) rows (map (\<lambda>s. s\<lparr>js_session_id := sid\<rparr>) ss)"
    by (rule Cons.IH) (use Cons.prems in \<open>auto simp: journal_row_of_def\<close>)
  then obtain rows where "copy_steps jc (\<lambda>_. no_faults) (Suc k) sid ss ?db = (Inr (), ?db\<lparr>db_journal := db_journal ?db @ rows\<rparr>)"
    "list_all2 (row_holds jc) rows (map (\<lambda>s. s\<lparr>js_session_id := sid\<rparr>) ss)" by blast
  then show ?case using store holds by (intro exI [of _ "?r # rows"]) simp
qed

lemma read_rows:
  assumes "list_all2 (row_holds jc) rows ss"
  shows "try_map (\<lambda>r. ok_or (jc_read jc (jw_step_json r)) SessionSerialization) rows = Inr ss"
  using assms by (induction rule: list_all2_induct) (auto simp: row_holds_def)

text \<open>Steps appended for a session that had none are its journal, and no other session's journal changes.\<close>

lemma appended_steps:
  assumes "list_all2 (row_holds jc) rows ss" "\<forall>s \<in> set ss. js_session_id s = sid" "sorted_wrt (<) (map (sint \<circ> js_step_index) ss)"
    and "sid \<notin> jw_session_id ` set (db_journal db)" "journal_inv jc db"
  shows "load_journal_steps jc no_faults sid (db\<lparr>db_journal := db_journal db @ rows\<rparr>) = Inr ss"
    and "j \<noteq> sid \<Longrightarrow> load_journal_steps jc no_faults j (db\<lparr>db_journal := db_journal db @ rows\<rparr>) = load_journal_steps jc no_faults j db"
    and "journal_inv jc (db\<lparr>db_journal := db_journal db @ rows\<rparr>)"
proof -
  have own: "\<forall>r \<in> set rows. jw_session_id r = sid"
    using assms(1,2) by (induction rule: list_all2_induct) (auto simp: row_holds_def)
  have idx: "map jw_step_index rows = map (sint \<circ> js_step_index) ss"
    using assms(1) by (auto simp: list_all2_conv_all_nth row_holds_def intro!: nth_equalityI)
  have none: "filter (\<lambda>r. jw_session_id r = sid) (db_journal db) = []" using assms(4) by (force simp: filter_empty_conv image_iff)
  have "journal_of sid (db\<lparr>db_journal := db_journal db @ rows\<rparr>) = rows"
    using own idx assms(3) by (simp add: journal_of_def none sort_key_id_if_sorted strict_sorted_imp_sorted)
  then show "load_journal_steps jc no_faults sid (db\<lparr>db_journal := db_journal db @ rows\<rparr>) = Inr ss"
    using read_rows [OF assms(1)] by (simp add: load_journal_steps_def no_faults_def)
  show "load_journal_steps jc no_faults j (db\<lparr>db_journal := db_journal db @ rows\<rparr>) = load_journal_steps jc no_faults j db" if "j \<noteq> sid"
  proof -
    have "filter (\<lambda>r. jw_session_id r = j) rows = []" using own that by (auto simp: filter_empty_conv)
    then show ?thesis by (simp add: load_journal_steps_def journal_of_def)
  qed
  have "distinct (map jw_step_index rows)" using idx assms(3) by (simp add: strict_sorted_iff)
  then have "distinct (map journal_key rows)" by (simp add: distinct_map inj_on_def)
  then have "keyed journal_key (db_journal db @ rows)" using own assms(4,5) by (force simp: journal_inv_def keyed_def)
  moreover have "\<forall>r \<in> set rows. \<exists>s. row_holds jc r s" using assms(1) by (induction rule: list_all2_induct) auto
  ultimately show "journal_inv jc (db\<lparr>db_journal := db_journal db @ rows\<rparr>)" using assms(5) by (auto simp: journal_inv_def)
qed

section \<open>Rewinding\<close>

text \<open>The steps made from a transcript, and that storing them one by one is copying them.\<close>

lemma synthesize_steps_shape:
  assumes "synthesize_steps env fs sid n prev ms db = (ss, db')"
  shows "length ss = length ms \<and> (\<forall>i < length ss. js_session_id (ss ! i) = sid \<and> js_step_index (ss ! i) = of_nat (n + i)
    \<and> js_timestamp (ss ! i) = 100 + of_nat (n + i))"
  using assms
proof (induction env fs sid n prev ms db arbitrary: ss db' rule: synthesize_steps.induct)
  case (2 env fs sid n prev m ms db)
  then show ?case by (auto simp: Let_def capture_turn_step_def nth_Cons' less_Suc_eq_0_disj split: prod.splits)
qed simp

lemma synthesize_copies:
  assumes "synthesize_steps env (\<lambda>_. no_faults) sid n prev ms db = (ss, db')" "copy_steps (je_codec env) (\<lambda>_. no_faults) k sid ss db = (Inr (), db'')"
  shows "db'' = db'"
  using assms
proof (induction ms arbitrary: n prev db ss k)
  case (Cons m ms)
  let ?s = "capture_turn_step (je_sha env) (je_json env) sid (of_nat n) (first_tool env m) None None (Some (cm_content m)) [] [] prev (100 + of_nat n)"
  obtain rest where r: "synthesize_steps env (\<lambda>_. no_faults) sid (Suc n) (Some (js_sha256_digest ?s)) ms
      (snd (store_journal_step (je_codec env) no_faults ?s db)) = (rest, db')" "ss = ?s # rest"
    using Cons.prems(1) by (auto simp: Let_def split: prod.splits)
  have "?s\<lparr>js_session_id := sid\<rparr> = ?s" by (simp add: capture_turn_step_def)
  then have "copy_steps (je_codec env) (\<lambda>_. no_faults) (Suc k) sid rest (snd (store_journal_step (je_codec env) no_faults ?s db)) = (Inr (), db'')"
    using Cons.prems(2) r(2) by (auto split: prod.splits sum.splits)
  from Cons.IH [OF r(1) this] show ?case .
qed simp

lemma synthesized_steps_stored:
  assumes "journal_codec_ok (je_codec env)" "journal_inv (je_codec env) db" "sid \<notin> jw_session_id ` set (db_journal db)"
    and "synthesize_steps env (\<lambda>_. no_faults) sid 0 None ms db = (ss, db')"
    and "\<forall>s \<in> set ss. jc_write (je_codec env) s \<noteq> None" "length ss < 2 ^ 62"
  shows "load_journal_steps (je_codec env) no_faults sid db' = Inr ss \<and> journal_inv (je_codec env) db'
    \<and> (\<forall>j. j = sid \<or> load_journal_steps (je_codec env) no_faults j db' = load_journal_steps (je_codec env) no_faults j db)"
proof -
  note shape = synthesize_steps_shape [OF assms(4)]
  have same: "s\<lparr>js_session_id := sid\<rparr> = s" if "s \<in> set ss" for s using that shape by (auto simp: in_set_conv_nth)
  then have own: "map (\<lambda>s. s\<lparr>js_session_id := sid\<rparr>) ss = ss" by (simp add: map_idI)
  have idx: "sint (js_step_index (ss ! i)) = int i" "i64_of_u64 (js_timestamp (ss ! i)) \<noteq> None" if "i < length ss" for i
  proof -
    have i: "i < 2 ^ 62" using that assms(6) by simp
    then have u: "uint (of_nat i :: u64) = int i" "uint (100 + of_nat i :: u64) = 100 + int i"
      by (simp_all add: uint_word_ariths unsigned_of_nat take_bit_nat_eq_self)
    show "i64_of_u64 (js_timestamp (ss ! i)) \<noteq> None" using shape that u(2) i by (auto simp: i64_of_u64_def)
    show "sint (js_step_index (ss ! i)) = int i" using shape that u(1) i by (simp add: sint_uint signed_take_bit_int_eq_self)
  qed
  have sorted: "sorted_wrt (<) (map (sint \<circ> js_step_index) ss)" using idx(1) by (simp add: sorted_wrt_iff_nth_less)
  have "\<forall>s \<in> set ss. jc_write (je_codec env) (s\<lparr>js_session_id := sid\<rparr>) \<noteq> None \<and> i64_of_u64 (js_timestamp s) \<noteq> None"
    using assms(5) idx(2) same by (auto simp: in_set_conv_nth)
  then obtain rows where rows: "copy_steps (je_codec env) (\<lambda>_. no_faults) 0 sid ss db = (Inr (), db\<lparr>db_journal := db_journal db @ rows\<rparr>)"
      "list_all2 (row_holds (je_codec env)) rows ss"
    using copy_steps_fresh [OF assms(1) sorted, of sid db 0] assms(3) own by (auto simp: image_iff)
  have "db' = db\<lparr>db_journal := db_journal db @ rows\<rparr>" using synthesize_copies [OF assms(4) rows(1)] by simp
  moreover have "\<forall>s \<in> set ss. js_session_id s = sid" using shape by (auto simp: in_set_conv_nth)
  ultimately show ?thesis using appended_steps [OF rows(2) _ sorted assms(3,2)] by auto
qed

lemma load_or_synthesize_stored:
  assumes "journal_codec_ok (je_codec env)" "journal_inv (je_codec env) db"
    and "load_or_synthesize_steps env (\<lambda>_. no_faults) sid db = (Inr steps, db1)"
    and "\<forall>s \<in> set steps. jc_write (je_codec env) s \<noteq> None" "length steps < 2 ^ 62"
  shows "load_journal_steps (je_codec env) no_faults sid db1 = Inr steps \<and> journal_inv (je_codec env) db1
    \<and> (\<forall>j. j = sid \<or> load_journal_steps (je_codec env) no_faults j db1 = load_journal_steps (je_codec env) no_faults j db)"
proof (cases "load_journal_steps (je_codec env) no_faults sid db = Inr []")
  case True
  then have "list_all2 (row_holds (je_codec env)) (journal_of sid db) []" by (rule loaded_rows(1) [OF assms(2)])
  then have "filter (\<lambda>r. jw_session_id r = sid) (db_journal db) = []"
    using set_sort [of jw_step_index "filter (\<lambda>r. jw_session_id r = sid) (db_journal db)"] by (simp add: journal_of_def)
  then have "sid \<notin> jw_session_id ` set (db_journal db)" by (auto simp: filter_empty_conv)
  moreover obtain ms where "synthesize_steps env (\<lambda>_. no_faults) sid 0 None ms db = (steps, db1)"
    using assms(3) True by (auto simp: load_or_synthesize_steps_def Let_def split: sum.splits prod.splits if_splits)
  ultimately show ?thesis using synthesized_steps_stored [OF assms(1,2)] assms(4,5) by blast
next
  case False
  then show ?thesis using assms(2,3) by (auto simp: load_or_synthesize_steps_def Let_def split: sum.splits if_splits)
qed

lemma truncated_steps:
  assumes "journal_inv (je_codec env) db" "load_journal_steps (je_codec env) no_faults sid db = Inr steps"
    and "db' = db\<lparr>db_journal := filter (\<lambda>r. \<not> (jw_session_id r = sid \<and> jw_step_index r > sint n)) (db_journal db)\<rparr>"
  shows "load_journal_steps (je_codec env) no_faults sid db' = Inr (filter (\<lambda>s. sint (js_step_index s) \<le> sint n) steps)"
    and "j \<noteq> sid \<Longrightarrow> load_journal_steps (je_codec env) no_faults j db' = load_journal_steps (je_codec env) no_faults j db"
proof -
  let ?read = "\<lambda>r. ok_or (jc_read (je_codec env) (jw_step_json r)) SessionSerialization"
  have all: "try_map ?read (journal_of sid db) = Inr steps" using assms(2) by (simp add: load_journal_steps_def no_faults_def)
  have "\<not> jw_step_index r > sint n \<longleftrightarrow> sint (js_step_index s) \<le> sint n" if r: "r \<in> set (journal_of sid db)" "?read r = Inr s" for r s
  proof -
    obtain s' where "row_holds (je_codec env) r s'" using r(1) assms(1) by (auto simp: journal_of_def journal_inv_def)
    then show ?thesis using r(2) by (auto simp: row_holds_def)
  qed
  from try_map_filter [OF all this] show "load_journal_steps (je_codec env) no_faults sid db' = Inr (filter (\<lambda>s. sint (js_step_index s) \<le> sint n) steps)"
    by (simp only: assms(3) load_journal_steps_def no_faults_def journal_of_truncate if_True if_False simp_thms)
  show "load_journal_steps (je_codec env) no_faults j db' = load_journal_steps (je_codec env) no_faults j db" if "j \<noteq> sid"
    using that by (simp only: assms(3) load_journal_steps_def journal_of_truncate if_False simp_thms)
qed

text \<open>C28: Rewinding the journal of a session. The journal is the recorded one or, for a session that has none yet, the one made from
  its transcript, which is stored on the way; its steps are taken to be writable as JSON and fewer than \<open>2 ^ 62\<close>. A step
  that is not in it is refused, and the journal stays whole. Otherwise the journal afterwards holds exactly the steps up to
  the target, and the digest and the environment reported are those recorded there. The journal of no other session changes.\<close>

theorem rewind_exact:
  assumes "journal_codec_ok (je_codec env)" "journal_inv (je_codec env) db"
    and "load_or_synthesize_steps env (\<lambda>_. no_faults) sid db = (Inr steps, db1)"
    and "\<forall>s \<in> set steps. jc_write (je_codec env) s \<noteq> None" "length steps < 2 ^ 62"
  shows "case rewind env (\<lambda>_. no_faults) sid n w db of (res, db') \<Rightarrow>
    (case step_at n steps of
       None \<Rightarrow> (\<exists>m. res = Inl (InvalidStep m)) \<and> load_journal_steps (je_codec env) no_faults sid db' = Inr steps
     | Some s \<Rightarrow>
         (\<exists>r. res = Inr r \<and> rw_target_digest r = js_sha256_digest s \<and> rw_restored_environment r = js_environment_state s)
       \<and> load_journal_steps (je_codec env) no_faults sid db' = Inr (filter (\<lambda>s. sint (js_step_index s) \<le> sint n) steps))
  \<and> (\<forall>j. j = sid \<or> load_journal_steps (je_codec env) no_faults j db' = load_journal_steps (je_codec env) no_faults j db)
  \<and> journal_inv (je_codec env) db'"
proof -
  note st = load_or_synthesize_stored [OF assms]
  show ?thesis
  proof (cases "step_at n steps")
    case None
    then show ?thesis using st by (simp add: rewind_def assms(3))
  next
    case (Some s)
    let ?db = "db1\<lparr>db_journal := filter (\<lambda>r. \<not> (jw_session_id r = sid \<and> jw_step_index r > sint n)) (db_journal db1)\<rparr>"
    have trunc: "truncate_journal_after no_faults sid n db1 = (Inr (rows_changed (\<lambda>r. jw_session_id r = sid \<and> jw_step_index r > sint n) (db_journal db1)), ?db)"
      by (simp add: truncate_journal_after_def no_faults_def)
    obtain r where r: "rewind env (\<lambda>_. no_faults) sid n w db = (Inr r, ?db)" "rw_target_digest r = js_sha256_digest s"
      "rw_restored_environment r = js_environment_state s"
      by (simp add: rewind_def assms(3) Some trunc)
    have "journal_inv (je_codec env) ?db" using truncate_inv [of "je_codec env" db1 no_faults sid n] st trunc by simp
    moreover have "load_journal_steps (je_codec env) no_faults sid ?db = Inr (filter (\<lambda>s. sint (js_step_index s) \<le> sint n) steps)"
      using st by (intro truncated_steps(1) [OF _ _ refl]) simp_all
    moreover have "load_journal_steps (je_codec env) no_faults j ?db = load_journal_steps (je_codec env) no_faults j db" if "j \<noteq> sid" for j
      using truncated_steps(2) [of env db1 sid steps ?db n j] st that by auto
    ultimately show ?thesis unfolding r(1) prod.case Some option.case using r(2,3) by blast
  qed
qed

text \<open>What is rewound is the journal alone: the events, the evaluations and the transcript that a resume reads stay those from
  before, for every session.\<close>

lemma synthesize_journal: "\<exists>t. snd (synthesize_steps env fs sid n prev ms db) = db\<lparr>db_journal := t\<rparr>"
proof (induction env fs sid n prev ms db rule: synthesize_steps.induct)
  case (1 env fs sid n prev db)
  then show ?case by (intro exI [of _ "db_journal db"]) simp
next
  case (2 env fs sid n prev m ms db)
  let ?s = "capture_turn_step (je_sha env) (je_json env) sid (of_nat n) (first_tool env m) None None (Some (cm_content m)) [] [] prev (100 + of_nat n)"
  have "\<exists>t. snd (store_journal_step (je_codec env) (fs (3 + n)) ?s db) = db\<lparr>db_journal := t\<rparr>"
    by (cases rule: store_journal_step_cases [of "je_codec env" "fs (3 + n)" ?s db]) (auto intro: exI [of _ "db_journal db"])
  then obtain t where t: "snd (store_journal_step (je_codec env) (fs (3 + n)) ?s db) = db\<lparr>db_journal := t\<rparr>" ..
  obtain u where "snd (synthesize_steps env fs sid (Suc n) (Some (js_sha256_digest ?s)) ms (db\<lparr>db_journal := t\<rparr>)) = db\<lparr>db_journal := u\<rparr>"
    using 2 [OF refl t [symmetric]] by auto
  then show ?case by (intro exI [of _ u]) (auto simp: Let_def t split: prod.splits)
qed

lemma rewind_journal: "\<exists>t. snd (rewind env fs sid n w db) = db\<lparr>db_journal := t\<rparr>"
proof -
  obtain res db1 where l: "load_or_synthesize_steps env fs sid db = (res, db1)" by fastforce
  have "db1 = db \<or> (\<exists>ms. db1 = snd (synthesize_steps env fs sid 0 None ms db))"
    using l by (cases "load_journal_steps (je_codec env) (fs 0) sid db"; cases "resume_session (je_session env) (fs 1) sid default_scope db")
      (auto simp: load_or_synthesize_steps_def Let_def split: prod.splits if_splits, (metis snd_conv)+)
  then have "\<exists>t. db1 = db\<lparr>db_journal := t\<rparr>"
    using synthesize_journal [of env fs sid 0 None _ db] by (elim disjE exE) (auto intro: exI [of _ "db_journal db"])
  then show ?thesis by (auto simp: rewind_def l truncate_journal_after_def Let_def split: sum.splits option.splits)
qed

lemma rewind_keeps_resume:
  "resume_session c f i cl (snd (rewind env fs sid n w db)) = resume_session c f i cl db"
  using rewind_journal [of env fs sid n w db] resume_same [OF journal_same_session] by fastforce

text \<open>C29: Forking a journalled session at a recorded step opens a new session in the scope of the caller, whose journal is a copy of the
  parent's steps up to it under the new name; the journal of every other session, and all that a resume reads of one,
  is unchanged.\<close>

theorem fork_copies_prefix:
  assumes "journal_codec_ok (je_codec env)" "journal_inv (je_codec env) db"
    and "load_journal_steps (je_codec env) no_faults parent db = Inr steps" "n \<in> js_step_index ` set steps"
    and "row_lookup sw_id (fork_id parent n t) (db_sessions db) = None" "fork_id parent n t \<notin> jw_session_id ` set (db_journal db)"
    and "\<forall>s \<in> set steps. jc_write (je_codec env) (s\<lparr>js_session_id := fork_id parent n t\<rparr>) \<noteq> None" "i64_of_u64 t = Some created"
  shows "case fork_session env (\<lambda>_. no_faults) parent n prompt workspace cl t db of (res, db') \<Rightarrow>
    (\<exists>r. res = Inr r \<and> fk_forked_session_id r = fork_id parent n t)
  \<and> load_journal_steps (je_codec env) no_faults (fork_id parent n t) db'
      = Inr (map (\<lambda>s. s\<lparr>js_session_id := fork_id parent n t\<rparr>) (filter (\<lambda>s. js_step_index s \<le> n) steps))
  \<and> row_lookup sw_id (fork_id parent n t) (db_sessions db')
      = Some \<lparr>sw_id = fork_id parent n t, sw_principal_id = cl_principal_id cl, sw_tenant_id = cl_tenant_id cl,
              sw_workspace_id = cl_workspace_id cl, sw_created_at = created\<rparr>
  \<and> (\<forall>j. j = fork_id parent n t \<or> load_journal_steps (je_codec env) no_faults j db' = load_journal_steps (je_codec env) no_faults j db
       \<and> (\<forall>c f cl. resume_session c f j cl db' = resume_session c f j cl db))"
proof -
  let ?jc = "je_codec env" and ?id = "fork_id parent n t" and ?ss = "filter (\<lambda>s. js_step_index s \<le> n) steps"
  let ?ses = "\<lparr>se_id = ?id, se_principal_id = cl_principal_id cl, se_tenant_id = cl_tenant_id cl, se_workspace_id = cl_workspace_id cl,
      se_created_at = t\<rparr>"
  let ?db = "db\<lparr>db_sessions := row_insert (session_row_of ?ses created) (db_sessions db)\<rparr>"
  note rows = loaded_rows [OF assms(2,3)]
  have load: "load_or_synthesize_steps env (\<lambda>_. no_faults) parent db = (Inr steps, db)"
    using assms(3,4) by (auto simp: load_or_synthesize_steps_def)
  have create: "create_session no_faults ?ses db = (Inr (), ?db)"
    using assms(5,8) by (simp add: create_session_def no_faults_def timestamp_i64_def)
  have "sorted_wrt (<) (map (sint \<circ> js_step_index) ?ss)" using rows(2) by (simp add: sorted_wrt_map sorted_wrt_filter)
  moreover have "\<forall>s \<in> set steps. i64_of_u64 (js_timestamp s) \<noteq> None"
    using rows(1) by (induction rule: list_all2_induct) (auto simp: row_holds_def)
  moreover have "\<forall>r \<in> set (db_journal ?db). jw_session_id r = ?id \<longrightarrow> (\<forall>s \<in> set ?ss. jw_step_index r < sint (js_step_index s))"
    using assms(6) by (force simp: image_iff)
  ultimately obtain copies where copies:
    "copy_steps ?jc (\<lambda>_. no_faults) (length steps) ?id ?ss ?db = (Inr (), ?db\<lparr>db_journal := db_journal ?db @ copies\<rparr>)"
    "list_all2 (row_holds ?jc) copies (map (\<lambda>s. s\<lparr>js_session_id := ?id\<rparr>) ?ss)"
    using copy_steps_fresh [OF assms(1), of ?ss ?id ?db "length steps"] assms(7) by auto
  let ?db' = "?db\<lparr>db_journal := db_journal db @ copies\<rparr>"
  have "journal_inv ?jc ?db" "?id \<notin> jw_session_id ` set (db_journal ?db)" using assms(2,6) by (simp_all add: journal_inv_def)
  note app = appended_steps [OF copies(2) _ _ this(2,1)]
  have forked: "load_journal_steps ?jc no_faults ?id ?db' = Inr (map (\<lambda>s. s\<lparr>js_session_id := ?id\<rparr>) ?ss)"
    using app(1) \<open>sorted_wrt (<) (map (sint \<circ> js_step_index) ?ss)\<close> by (simp add: comp_def)
  have others: "load_journal_steps ?jc no_faults j ?db' = load_journal_steps ?jc no_faults j db" if "j \<noteq> ?id" for j
    using app(2) [OF _ _ that] \<open>sorted_wrt (<) (map (sint \<circ> js_step_index) ?ss)\<close>
    by (simp add: comp_def load_journal_steps_def journal_of_def)
  have same: "same_session j db ?db'" if "j \<noteq> ?id" for j
    using that by (auto simp: same_session_def session_row_of_def split: option.splits)
  have "fork_session env (\<lambda>_. no_faults) parent n prompt workspace cl t db
      = (Inr \<lparr>fk_parent_session_id = parent, fk_forked_session_id = ?id, fk_at_step = n,
           fk_worktree_path = path_join (path_join (path_join workspace ''.pandora'') ''forks'') ?id,
           fk_git_branch = ''pandora-fork/'' @ clean_parent parent @ ''/s'' @ show_nat (unat n), fk_prompt = prompt, fk_created_at = t\<rparr>, ?db')"
    using assms(4) by (auto simp: fork_session_def load fork_id_valid create copies(1) list_ex_iff simp del: new_id_Inr_iff show_nat.simps)
  then show ?thesis using forked others same assms(5) by (auto simp: resume_same session_row_of_def)
qed

section \<open>A journal of two steps\<close>

definition demo_first_step :: journal_step where
  "demo_first_step = \<lparr>js_step_index = 0, js_session_id = ''parent'', js_tool_name = None, js_tool_call_id = None, js_arguments = None,
     js_result = Some ''plan'', js_workspace_diff = [], js_environment_state = [], js_sha256_digest = ''d0'', js_timestamp = 1\<rparr>"

definition demo_second_step :: journal_step where
  "demo_second_step = demo_first_step\<lparr>js_step_index := 1, js_sha256_digest := ''d1''\<rparr>"

definition demo_forked :: session_id where
  "demo_forked = ''fork-parent-s0-7''"

definition demo_journal_codec :: journal_codec where
  "demo_journal_codec =
     (let table = [(''p0'', demo_first_step), (''p1'', demo_second_step), (''f0'', demo_first_step\<lparr>js_session_id := demo_forked\<rparr>),
        (''f1'', demo_second_step\<lparr>js_session_id := demo_forked\<rparr>)] in
      \<lparr>jc_write = map_of (map (\<lambda>(a, b). (b, a)) table), jc_read = map_of table\<rparr>)"

definition demo_journal_db :: session_db where
  "demo_journal_db = empty_session_db\<lparr>db_journal := [journal_row_of demo_first_step ''p0'' 1, journal_row_of demo_second_step ''p1'' 1]\<rparr>"

definition demo_journal_env :: journal_env where
  "demo_journal_env = \<lparr>je_sha = id, je_json = (\<lambda>_. []), je_read_json = (\<lambda>_. None), je_codec = demo_journal_codec,
     je_session = \<lparr>xc_write_event = (\<lambda>_. None), xc_read_event = (\<lambda>_. None), xc_write_message = (\<lambda>_. None), xc_read_message = (\<lambda>_. None)\<rparr>\<rparr>"

lemma demo_steps_differ: "demo_first_step \<noteq> demo_second_step" "demo_first_step \<noteq> demo_second_step\<lparr>js_session_id := i\<rparr>"
  "demo_first_step\<lparr>js_session_id := demo_forked\<rparr> \<noteq> demo_first_step" "demo_first_step\<lparr>js_session_id := demo_forked\<rparr> \<noteq> demo_second_step"
  "demo_second_step\<lparr>js_session_id := demo_forked\<rparr> \<noteq> demo_second_step" "demo_second_step\<lparr>js_session_id := demo_forked\<rparr> \<noteq> demo_first_step"
  "demo_second_step\<lparr>js_session_id := demo_forked\<rparr> \<noteq> demo_first_step\<lparr>js_session_id := demo_forked\<rparr>"
  by (simp_all add: demo_first_step_def demo_second_step_def demo_forked_def)

lemma demo_codec_ok: "journal_codec_ok demo_journal_codec"
  by (auto simp: journal_codec_ok_def demo_journal_codec_def Let_def demo_steps_differ split: if_splits)

lemma demo_journal_ok: "journal_inv demo_journal_codec demo_journal_db"
  "load_journal_steps demo_journal_codec no_faults ''parent'' demo_journal_db = Inr [demo_first_step, demo_second_step]"
proof -
  have "row_holds demo_journal_codec (journal_row_of demo_first_step ''p0'' 1) demo_first_step"
    "row_holds demo_journal_codec (journal_row_of demo_second_step ''p1'' 1) demo_second_step"
    by (simp_all add: row_holds_def journal_row_of_def demo_journal_codec_def Let_def i64_of_u64_def)
       (simp_all add: demo_first_step_def demo_second_step_def)
  then show "journal_inv demo_journal_codec demo_journal_db"
    by (auto simp: journal_inv_def demo_journal_db_def keyed_def) (simp add: journal_row_of_def demo_first_step_def demo_second_step_def)
  have "journal_of ''parent'' demo_journal_db = [journal_row_of demo_first_step ''p0'' 1, journal_row_of demo_second_step ''p1'' 1]"
    by (simp add: journal_of_def demo_journal_db_def) (simp add: journal_row_of_def demo_first_step_def demo_second_step_def)
  then show "load_journal_steps demo_journal_codec no_faults ''parent'' demo_journal_db = Inr [demo_first_step, demo_second_step]"
    by (simp add: load_journal_steps_def no_faults_def journal_row_of_def demo_journal_codec_def)
qed

theorem rewind_exact_witness:
  "\<exists>r db'. rewind demo_journal_env (\<lambda>_. no_faults) ''parent'' 0 True demo_journal_db = (Inr r, db') \<and> rw_target_digest r = ''d0''
     \<and> load_journal_steps demo_journal_codec no_faults ''parent'' db' = Inr [demo_first_step]"
proof -
  have e: "je_codec demo_journal_env = demo_journal_codec" by (simp add: demo_journal_env_def)
  have at: "step_at 0 [demo_first_step, demo_second_step] = Some demo_first_step" by (simp add: step_at_def demo_first_step_def)
  obtain res db' where r: "rewind demo_journal_env (\<lambda>_. no_faults) ''parent'' 0 True demo_journal_db = (res, db')" by fastforce
  have "filter (\<lambda>s. sint (js_step_index s) \<le> sint (0 :: u64)) [demo_first_step, demo_second_step] = [demo_first_step]"
    by (simp add: demo_first_step_def demo_second_step_def)
  moreover have "js_sha256_digest demo_first_step = ''d0''" by (simp add: demo_first_step_def)
  moreover have load: "load_or_synthesize_steps demo_journal_env (\<lambda>_. no_faults) ''parent'' demo_journal_db = (Inr [demo_first_step, demo_second_step], demo_journal_db)"
    using demo_journal_ok(2) by (simp add: load_or_synthesize_steps_def e)
  moreover have wr: "\<forall>s \<in> set [demo_first_step, demo_second_step]. jc_write demo_journal_codec s \<noteq> None"
    using demo_steps_differ by (simp add: demo_journal_codec_def Let_def)
  ultimately show ?thesis
    using rewind_exact [where env = demo_journal_env and n = 0 and w = True, unfolded e, OF demo_codec_ok demo_journal_ok(1) load wr] r at by auto
qed

theorem fork_copies_prefix_witness:
  "\<exists>r db'. fork_session demo_journal_env (\<lambda>_. no_faults) ''parent'' 0 ''try again'' ''/w'' default_scope 7 demo_journal_db = (Inr r, db')
     \<and> load_journal_steps demo_journal_codec no_faults ''fork-parent-s0-7'' db' = Inr [demo_first_step\<lparr>js_session_id := ''fork-parent-s0-7''\<rparr>]"
proof -
  have e: "je_codec demo_journal_env = demo_journal_codec" by (simp add: demo_journal_env_def)
  have i: "fork_id ''parent'' 0 7 = ''fork-parent-s0-7''" by code_simp
  obtain res db' where r: "fork_session demo_journal_env (\<lambda>_. no_faults) ''parent'' 0 ''try again'' ''/w'' default_scope 7 demo_journal_db = (res, db')"
    by fastforce
  have "filter (\<lambda>s. js_step_index s \<le> 0) [demo_first_step, demo_second_step] = [demo_first_step]"
    by (simp add: demo_first_step_def demo_second_step_def)
  moreover have "0 \<in> js_step_index ` set [demo_first_step, demo_second_step]" by (simp add: demo_first_step_def)
  moreover have "\<forall>s \<in> set [demo_first_step, demo_second_step]. jc_write demo_journal_codec (s\<lparr>js_session_id := ''fork-parent-s0-7''\<rparr>) \<noteq> None"
    using demo_steps_differ by (simp add: demo_journal_codec_def demo_forked_def Let_def)
  moreover have "row_lookup sw_id ''fork-parent-s0-7'' (db_sessions demo_journal_db) = None" "''fork-parent-s0-7'' \<notin> jw_session_id ` set (db_journal demo_journal_db)"
    by (simp_all add: demo_journal_db_def empty_session_db_def row_lookup_def journal_row_of_def demo_first_step_def demo_second_step_def)
  moreover have "i64_of_u64 7 = Some 7" by (simp add: i64_of_u64_def)
  ultimately show ?thesis
    using fork_copies_prefix [where env = demo_journal_env and n = 0 and t = 7 and parent = "''parent''" and prompt = "''try again''"
        and workspace = "''/w''" and cl = default_scope and created = 7, unfolded e i, OF demo_codec_ok demo_journal_ok] r by auto
qed

text \<open>The digest of a step joins names and values of the environment without escaping them, so two environments share their bytes.\<close>

lemma environment_bytes_ambiguous:
  "environment_bytes [(''A'', ''1;B=2'')] = environment_bytes [(''A'', ''1''), (''B'', ''2'')]"
  by (simp add: environment_bytes_def opt_text_def)

end
