(* ===== verification/Provider_Wire.thy ===== *)
theory Provider_Wire
  imports Provider_Request
begin

text \<open>
  The three wire protocols of \<open>pandora-provider/src/client.rs\<close>: the body each sends for a request, what each makes of a
  response, and the HTTP exchange around them. The structs a body is serialized from and a response is parsed into
  are records; \<open>serde_json\<close> and the HTTP client are parameters. A fixed \<open>type\<close> tag of a struct is left out.
\<close>

section \<open>Text\<close>

definition ends_with :: "string \<Rightarrow> string \<Rightarrow> bool" where
  "ends_with s p = starts_with (rev s) (rev p)"

text \<open>\<open>str::find\<close>: what precedes and what follows the first occurrence.\<close>

fun split_at_str :: "string \<Rightarrow> string \<Rightarrow> (string \<times> string) option" where
  "split_at_str p [] = (if p = [] then Some ([], []) else None)"
| "split_at_str p (c # cs) =
     (if starts_with (c # cs) p then Some ([], drop (length p) (c # cs))
      else map_option (\<lambda>(a, b). (c # a, b)) (split_at_str p cs))"

text \<open>\<open>str::lines\<close>: a line ends at a line feed and loses a carriage return before it.\<close>

definition strip_cr :: "string \<Rightarrow> string" where
  "strip_cr l = (if ends_with l [CHR 0x0D] then butlast l else l)"

fun lines_from :: "string \<Rightarrow> string \<Rightarrow> string list" where
  "lines_from acc [] = (if acc = [] then [] else [acc])"
| "lines_from acc (c # cs) = (if c = CHR 0x0A then strip_cr acc # lines_from [] cs else lines_from (acc @ [c]) cs)"

definition lines :: "string \<Rightarrow> string list" where
  "lines s = lines_from [] s"

fun find_map :: "('a \<Rightarrow> 'b option) \<Rightarrow> 'a list \<Rightarrow> 'b option" where
  "find_map f [] = None"
| "find_map f (x # xs) = (case f x of Some y \<Rightarrow> Some y | None \<Rightarrow> find_map f xs)"

section \<open>OpenAI\<close>

record openai_message =
  oa_role :: message_role
  oa_content :: "string option"
  oa_tool_calls :: "chat_tool_call list"
  oa_tool_call_id :: "string option"

record openai_request =
  or_model :: string
  or_messages :: "openai_message list"
  or_tools :: "tool_schema list"
  or_max_tokens :: u32
  or_reasoning_effort :: "string option"

definition openai_from_message :: "chat_message \<Rightarrow> openai_message" where
  "openai_from_message m =
     \<lparr>oa_role = cm_role m, oa_content = (if cm_tool_calls m = [] then Some (cm_content m) else None),
      oa_tool_calls = cm_tool_calls m, oa_tool_call_id = cm_tool_call_id m\<rparr>"

definition openai_from_request :: "model_request \<Rightarrow> openai_request" where
  "openai_from_request r =
     \<lparr>or_model = mr_model_id r, or_messages = map openai_from_message (mr_messages r), or_tools = mr_tools r,
      or_max_tokens = mr_max_output_tokens r,
      or_reasoning_effort = Option.bind (mr_reasoning_effort r) openai_reasoning_effort\<rparr>"

section \<open>Anthropic\<close>

datatype anthropic_role = AnthropicUser | AnthropicAssistant

datatype anthropic_block =
  TextBlock string
| ToolUseBlock string string json
| ToolResultBlock string string

datatype anthropic_content = AnthropicText string | AnthropicBlocks "anthropic_block list"

record anthropic_message =
  am_role :: anthropic_role
  am_content :: anthropic_content

record anthropic_system_block =
  sb_text :: string
  sb_cache_ttl :: string

datatype anthropic_system = SystemText string | SystemBlocks "anthropic_system_block list"

record anthropic_request =
  ar_model :: string
  ar_system :: "anthropic_system option"
  ar_messages :: "anthropic_message list"
  ar_tools :: "tool_schema list"
  ar_max_tokens :: u32
  ar_thinking :: "u32 option"

definition anthropic_from_message ::
  "(string \<Rightarrow> json option) \<Rightarrow> chat_message \<Rightarrow> (provider_error, anthropic_message) outcome" where
  "anthropic_from_message jr m =
     (case cm_role m of
        SystemRole \<Rightarrow> Inl (InvalidProviderRequest ''system messages must use the Anthropic system field'')
      | UserRole \<Rightarrow> Inr \<lparr>am_role = AnthropicUser, am_content = AnthropicText (cm_content m)\<rparr>
      | AssistantRole \<Rightarrow>
          and_then (message_tool_calls jr m) (\<lambda>calls.
            if calls = [] then Inr \<lparr>am_role = AnthropicAssistant, am_content = AnthropicText (cm_content m)\<rparr>
            else Inr \<lparr>am_role = AnthropicAssistant, am_content =
              AnthropicBlocks ((if cm_content m = [] then [] else [TextBlock (cm_content m)])
                @ map (\<lambda>c. ToolUseBlock (tl_id c) (tl_name c) (tl_arguments c)) calls)\<rparr>)
      | ToolRole \<Rightarrow>
          and_then (ok_or (cm_tool_call_id m) (InvalidProviderRequest ''Anthropic tool results require a tool call ID'')) (\<lambda>i.
            Inr \<lparr>am_role = AnthropicUser, am_content = AnthropicBlocks [ToolResultBlock i (cm_content m)]\<rparr>))"

definition blank_line :: string where
  "blank_line = [CHR 0x0A, CHR 0x0A]"

definition system_texts :: "model_request \<Rightarrow> string list" where
  "system_texts r = map cm_content (filter (\<lambda>m. cm_role m = SystemRole) (mr_messages r))"

definition conversation :: "model_request \<Rightarrow> chat_message list" where
  "conversation r = filter (\<lambda>m. cm_role m \<noteq> SystemRole) (mr_messages r)"

definition anthropic_from_request ::
  "(string \<Rightarrow> json option) \<Rightarrow> model_request \<Rightarrow> (provider_error, anthropic_request) outcome" where
  "anthropic_from_request jr r =
     and_then (try_map (anthropic_from_message jr) (conversation r)) (\<lambda>messages.
     if messages = [] then Inl (InvalidProviderRequest ''Anthropic requests require at least one conversation message'')
     else
       let system = (if system_texts r \<noteq> [] then Some (join_with blank_line (system_texts r)) else None);
           system = map_option (\<lambda>t. case mr_prompt_cache_ttl r of
             Some ttl \<Rightarrow> SystemBlocks [\<lparr>sb_text = t, sb_cache_ttl = ttl_str ttl\<rparr>]
           | None \<Rightarrow> SystemText t) system;
           thinking = Option.bind (mr_reasoning_effort r) anthropic_thinking_budget;
           max_tokens = (case thinking of
             Some budget \<Rightarrow> if mr_max_output_tokens r \<le> budget then budget + 1024 else mr_max_output_tokens r
           | None \<Rightarrow> mr_max_output_tokens r) in
       Inr \<lparr>ar_model = mr_model_id r, ar_system = system, ar_messages = messages, ar_tools = mr_tools r,
            ar_max_tokens = max_tokens, ar_thinking = thinking\<rparr>)"

section \<open>Gemini\<close>

datatype gemini_role = GeminiUser | GeminiModel

datatype gemini_part =
  GeminiText string
| GeminiFunctionCall string json
| GeminiFunctionResponse string json

record gemini_content =
  gc_role :: "gemini_role option"
  gc_parts :: "gemini_part list"

record gemini_request =
  gq_system_instruction :: "gemini_content option"
  gq_contents :: "gemini_content list"
  gq_tools :: "tool_schema list list"
  gq_max_output_tokens :: u32

text \<open>The name of the tool a result belongs to: searched from the end of the whole conversation.\<close>

definition called_name :: "chat_message list \<Rightarrow> string \<Rightarrow> string option" where
  "called_name ms i =
     find_map (\<lambda>m. map_option tc_name (find (\<lambda>c. tc_id c = i) (cm_tool_calls m))) (rev ms)"

definition gemini_from_message ::
  "(string \<Rightarrow> json option) \<Rightarrow> chat_message list \<Rightarrow> chat_message \<Rightarrow> (provider_error, gemini_content) outcome" where
  "gemini_from_message jr ms m =
     (case cm_role m of
        AssistantRole \<Rightarrow>
          and_then (message_tool_calls jr m) (\<lambda>calls.
            let parts = (if cm_content m = [] then [] else [GeminiText (cm_content m)])
                  @ map (\<lambda>c. GeminiFunctionCall (tl_name c) (tl_arguments c)) calls in
            if parts = [] then Inl (InvalidProviderRequest ''assistant messages must contain text or a tool call'')
            else Inr \<lparr>gc_role = Some GeminiModel, gc_parts = parts\<rparr>)
      | ToolRole \<Rightarrow>
          and_then (ok_or (cm_tool_call_id m) (InvalidProviderRequest ''Gemini tool results require a tool call ID'')) (\<lambda>i.
          and_then (ok_or (called_name ms i) (InvalidProviderRequest ''Gemini tool result has no matching tool call'')) (\<lambda>name.
            Inr \<lparr>gc_role = Some GeminiUser,
                 gc_parts = [GeminiFunctionResponse name (JObject [(''content'', JString (cm_content m))])]\<rparr>))
      | _ \<Rightarrow> Inr \<lparr>gc_role = Some GeminiUser, gc_parts = [GeminiText (cm_content m)]\<rparr>)"

definition gemini_from_request ::
  "(string \<Rightarrow> json option) \<Rightarrow> model_request \<Rightarrow> (provider_error, gemini_request) outcome" where
  "gemini_from_request jr r =
     and_then (try_map (gemini_from_message jr (mr_messages r)) (conversation r)) (\<lambda>contents.
     if contents = [] then Inl (InvalidProviderRequest ''Gemini requests require at least one conversation message'')
     else
       Inr \<lparr>gq_system_instruction =
              (if system_texts r \<noteq> [] then Some \<lparr>gc_role = None, gc_parts = [GeminiText (join_with blank_line (system_texts r))]\<rparr>
               else None),
            gq_contents = contents, gq_tools = (if mr_tools r = [] then [] else [mr_tools r]),
            gq_max_output_tokens = mr_max_output_tokens r\<rparr>)"

section \<open>Responses\<close>

definition MAX_RESPONSE_BYTES :: nat where "MAX_RESPONSE_BYTES = 8388608"
definition MAX_RESPONSE_TEXT_BYTES :: nat where "MAX_RESPONSE_TEXT_BYTES = 4194304"

definition wire_error :: "provider_error \<Rightarrow> provider_error" where
  "wire_error e = (case e of InvalidToolArguments i \<Rightarrow> InvalidToolArguments i | _ \<Rightarrow> InvalidResponse)"

definition default_usage :: token_usage where
  "default_usage = new_usage 0 0"

text \<open>OpenAI.\<close>

record openai_usage =
  ou_prompt_tokens :: u32
  ou_completion_tokens :: u32
  ou_cached_tokens :: "u32 option"

record openai_reply =
  om_content :: "string option"
  om_tool_calls :: "chat_tool_call list option"

record openai_response =
  os_choices :: "openai_reply list"
  os_usage :: "openai_usage option"

fun openai_calls ::
  "(string \<Rightarrow> json option) \<Rightarrow> string list \<Rightarrow> chat_tool_call list \<Rightarrow> (provider_error, tool_call list) outcome" where
  "openai_calls jr seen [] = Inr []"
| "openai_calls jr seen (c # cs) =
     and_then (map_err (\<lambda>_. InvalidResponse) (validate_tool_call_id (tc_id c))) (\<lambda>_.
     and_then (ensure (tc_id c \<notin> set seen) (DuplicateToolCallId (tc_id c))) (\<lambda>_.
     and_then (ok_or (jr (tc_arguments c)) (InvalidToolArguments (tc_id c))) (\<lambda>args.
     and_then (map_err wire_error (new_tool_call (tc_id c) (tc_name c) args)) (\<lambda>call.
     and_then (openai_calls jr (tc_id c # seen) cs) (\<lambda>calls. Inr (call # calls))))))"

text \<open>The text between tags, and the text around them.\<close>

lemma split_at_str_shorter: "split_at_str p s = Some (a, b) \<Longrightarrow> length a + length p + length b = length s"
proof (induction p s arbitrary: a b rule: split_at_str.induct)
  case (2 p c cs)
  show ?case
  proof (cases "starts_with (c # cs) p")
    case True
    then obtain t where t: "c # cs = p @ t" by (auto simp: starts_with_iff)
    have "a = []" "b = drop (length p) (c # cs)" using True "2.prems" by auto
    then show ?thesis using t by (metis append_eq_conv_conj length_append list.size(3) plus_nat.add_0)
  next
    case False
    then obtain a' where "split_at_str p cs = Some (a', b)" "a = c # a'" using "2.prems" by auto
    then show ?thesis using "2.IH" False by simp
  qed
qed (simp split: if_splits)

function tag_parts :: "string \<Rightarrow> string list \<times> string list" where
  "tag_parts s =
     (case split_at_str ''<tool_call>'' s of
        None \<Rightarrow> ([], if s = [] then [] else [s])
      | Some (before, rest) \<Rightarrow>
          (let outer = (if before = [] then [] else [before]) in
           case split_at_str ''</tool_call>'' rest of
             None \<Rightarrow> ([rest], outer)
           | Some (inner, rest') \<Rightarrow> (case tag_parts rest' of (inners, outers) \<Rightarrow> (inner # inners, outer @ outers))))"
  by pat_completeness auto

termination
  by (relation "measure length") (auto dest!: split_at_str_shorter)

definition unfence :: "string \<Rightarrow> string" where
  "unfence s =
     (let trimmed = trim s in
      if (starts_with trimmed ''```json'' \<or> starts_with trimmed ''```'') \<and> ends_with trimmed ''```'' then
        (let ls = lines trimmed in if length ls \<ge> 2 then join_with [CHR 0x0A] (butlast (tl ls)) else trimmed)
      else trimmed)"

definition json_field :: "string \<Rightarrow> json \<Rightarrow> json option" where
  "json_field k j = (case j of JObject es \<Rightarrow> map_of es k | _ \<Rightarrow> None)"

definition json_name :: "json \<Rightarrow> string option" where
  "json_name j = (case json_field ''name'' j of Some (JString s) \<Rightarrow> Some s | _ \<Rightarrow> None)"

definition push_text_call :: "json \<Rightarrow> tool_call list \<Rightarrow> tool_call list" where
  "push_text_call j calls =
     (case json_name j of
        None \<Rightarrow> calls
      | Some name \<Rightarrow>
          (let args = (case json_field ''arguments'' j of Some a \<Rightarrow> a | None \<Rightarrow> JObject []);
               i = ''call_'' @ replace_char CHR ''.'' CHR ''_'' name @ ''_'' @ show_nat (length calls + 1) in
           case new_tool_call i name args of Inr call \<Rightarrow> calls @ [call] | Inl _ \<Rightarrow> calls))"

definition push_item :: "json \<Rightarrow> tool_call list \<Rightarrow> tool_call list" where
  "push_item j calls =
     (if json_name j \<noteq> None then push_text_call j calls
      else case j of JArray js \<Rightarrow> fold push_text_call js calls | _ \<Rightarrow> calls)"

definition prose_line :: "string \<Rightarrow> bool" where
  "prose_line l \<longleftrightarrow>
     l \<noteq> [] \<and> \<not> starts_with l ''{'' \<and> \<not> ends_with l ''}'' \<and> \<not> starts_with l ''['' \<and> \<not> ends_with l '']'' \<and> \<not> starts_with l ''```''"

text \<open>Calls written out in the text of a response; \<open>stream\<close> is the iterator of \<open>serde_json\<close> over the values it can read.\<close>

definition extract_fallback_tool_calls :: "(string \<Rightarrow> json list) \<Rightarrow> string \<Rightarrow> tool_call list \<times> string" where
  "extract_fallback_tool_calls stream raw =
     (let (to_parse, remaining) =
            (if contains_str raw ''<tool_call>''
             then (case tag_parts raw of (inner, outer) \<Rightarrow> (join_with [CHR 0x0A] inner, trim (concat outer)))
             else (raw, raw));
          target = unfence to_parse;
          calls = fold push_item (stream target) [] in
      (calls, if calls \<noteq> [] \<and> filter prose_line (map trim (lines target)) = [] then [] else remaining))"

definition parse_openai_response ::
  "(string \<Rightarrow> openai_response option) \<Rightarrow> (string \<Rightarrow> json option) \<Rightarrow> (string \<Rightarrow> json list) \<Rightarrow> string
     \<Rightarrow> (provider_error, model_response) outcome" where
  "parse_openai_response read jr stream bytes =
     and_then (ensure (length bytes \<le> MAX_RESPONSE_BYTES) ResponseTooLarge) (\<lambda>_.
     and_then (ok_or (read bytes) InvalidResponse) (\<lambda>response.
     and_then (case os_choices response of [] \<Rightarrow> Inl InvalidResponse | c # _ \<Rightarrow> Inr c) (\<lambda>choice.
     let text = (case om_content choice of Some t \<Rightarrow> t | None \<Rightarrow> []) in
     and_then (ensure (length text \<le> MAX_RESPONSE_TEXT_BYTES) ResponseTooLarge) (\<lambda>_.
     and_then (openai_calls jr [] (case om_tool_calls choice of Some cs \<Rightarrow> cs | None \<Rightarrow> [])) (\<lambda>calls.
     let (calls, text) =
           (if calls = [] then
              (case extract_fallback_tool_calls stream text of (extracted, remainder) \<Rightarrow>
                 if extracted \<noteq> [] then (extracted, remainder) else (calls, text))
            else (calls, text));
         usage = (case os_usage response of
             Some u \<Rightarrow> with_prompt_cache (case ou_cached_tokens u of Some n \<Rightarrow> n | None \<Rightarrow> 0) 0
                         (new_usage (ou_prompt_tokens u) (ou_completion_tokens u))
           | None \<Rightarrow> default_usage) in
     Inr \<lparr>re_text = text, re_tool_calls = calls, re_usage = usage\<rparr>)))))"

text \<open>Anthropic.\<close>

datatype anthropic_response_block = ReplyText string | ReplyToolUse string string json

record anthropic_usage =
  au_input_tokens :: u32
  au_output_tokens :: u32
  au_cache_creation_input_tokens :: u32
  au_cache_read_input_tokens :: u32

record anthropic_response =
  as_content :: "anthropic_response_block list"
  as_usage :: "anthropic_usage option"

fun anthropic_blocks ::
  "string list \<Rightarrow> string \<Rightarrow> tool_call list \<Rightarrow> anthropic_response_block list \<Rightarrow> (provider_error, string \<times> tool_call list) outcome" where
  "anthropic_blocks seen text calls [] = Inr (text, calls)"
| "anthropic_blocks seen text calls (ReplyText b # bs) =
     (if length text + length b > MAX_RESPONSE_TEXT_BYTES then Inl ResponseTooLarge
      else anthropic_blocks seen (text @ b) calls bs)"
| "anthropic_blocks seen text calls (ReplyToolUse i name input # bs) =
     and_then (map_err (\<lambda>_. InvalidResponse) (validate_tool_call_id i)) (\<lambda>_.
     and_then (ensure (i \<notin> set seen) (DuplicateToolCallId i)) (\<lambda>_.
     and_then (map_err wire_error (new_tool_call i name input)) (\<lambda>call.
       anthropic_blocks (i # seen) text (calls @ [call]) bs)))"

definition parse_anthropic_response ::
  "(string \<Rightarrow> anthropic_response option) \<Rightarrow> string \<Rightarrow> (provider_error, model_response) outcome" where
  "parse_anthropic_response read bytes =
     and_then (ensure (length bytes \<le> MAX_RESPONSE_BYTES) ResponseTooLarge) (\<lambda>_.
     and_then (ok_or (read bytes) InvalidResponse) (\<lambda>response.
     and_then (anthropic_blocks [] [] [] (as_content response)) (\<lambda>(text, calls).
     let usage = (case as_usage response of
         Some u \<Rightarrow>
           with_prompt_cache (au_cache_read_input_tokens u) (au_cache_creation_input_tokens u)
             (new_usage (saturating_add (saturating_add (au_input_tokens u) (au_cache_creation_input_tokens u))
                (au_cache_read_input_tokens u)) (au_output_tokens u))
       | None \<Rightarrow> default_usage) in
     Inr \<lparr>re_text = text, re_tool_calls = calls, re_usage = usage\<rparr>)))"

text \<open>Gemini.\<close>

datatype gemini_response_part = PartText string bool | PartFunctionCall string json | PartOther json

record gemini_usage =
  gu_prompt_tokens :: u32
  gu_completion_tokens :: u32
  gu_cached_prompt_tokens :: u32

text \<open>A candidate is its content, which may be absent, as its list of parts.\<close>

record gemini_response =
  gs_candidates :: "gemini_response_part list option list"
  gs_usage :: "gemini_usage option"

fun gemini_parts ::
  "nat \<Rightarrow> string \<Rightarrow> string \<Rightarrow> tool_call list \<Rightarrow> gemini_response_part list
     \<Rightarrow> (provider_error, string \<times> string \<times> tool_call list) outcome" where
  "gemini_parts n text thoughts calls [] = Inr (text, thoughts, calls)"
| "gemini_parts n text thoughts calls (PartText b thought # ps) =
     (if thought then
        gemini_parts (Suc n) text (if length thoughts + length b \<le> MAX_RESPONSE_TEXT_BYTES then thoughts @ b else thoughts) calls ps
      else if length text + length b > MAX_RESPONSE_TEXT_BYTES then Inl ResponseTooLarge
      else gemini_parts (Suc n) (text @ b) thoughts calls ps)"
| "gemini_parts n text thoughts calls (PartFunctionCall name args # ps) =
     and_then (map_err wire_error (new_tool_call (''gemini-call-'' @ show_nat n) name args)) (\<lambda>call.
       gemini_parts (Suc n) text thoughts (calls @ [call]) ps)"
| "gemini_parts n text thoughts calls (PartOther _ # ps) = gemini_parts (Suc n) text thoughts calls ps"

definition parse_gemini_response ::
  "(string \<Rightarrow> gemini_response option) \<Rightarrow> string \<Rightarrow> (provider_error, model_response) outcome" where
  "parse_gemini_response read bytes =
     and_then (ensure (length bytes \<le> MAX_RESPONSE_BYTES) ResponseTooLarge) (\<lambda>_.
     and_then (ok_or (read bytes) InvalidResponse) (\<lambda>response.
     and_then (case gs_candidates response of Some parts # _ \<Rightarrow> Inr parts | _ \<Rightarrow> Inl InvalidResponse) (\<lambda>parts.
     and_then (gemini_parts 0 [] [] [] parts) (\<lambda>(text, thoughts, calls).
     let text = (if text = [] \<and> calls = [] \<and> thoughts \<noteq> [] then thoughts else text);
         usage = (case gs_usage response of
             Some u \<Rightarrow> with_prompt_cache (gu_cached_prompt_tokens u) 0 (new_usage (gu_prompt_tokens u) (gu_completion_tokens u))
           | None \<Rightarrow> default_usage) in
     Inr \<lparr>re_text = text, re_tool_calls = calls, re_usage = usage\<rparr>))))"

section \<open>The exchange\<close>

datatype wire_body =
  OpenAiBody openai_request
| AnthropicBody anthropic_request
| GeminiBody gemini_request

record http_call =
  hc_url :: string
  hc_timeout :: nat
  hc_headers :: "(string \<times> string) list"
  hc_body :: wire_body

text \<open>A response: its status, the announced length, and the stream of its body, \<open>None\<close> when reading fails.\<close>

record http_reply =
  hr_status :: u16
  hr_content_length :: "nat option"
  hr_body :: "string option"

definition read_limited :: "http_reply \<Rightarrow> (provider_error, string) outcome" where
  "read_limited h =
     and_then (ensure (case hr_content_length h of Some n \<Rightarrow> n \<le> MAX_RESPONSE_BYTES | None \<Rightarrow> True) ResponseTooLarge) (\<lambda>_.
     and_then (ok_or (hr_body h) ProviderTransport) (\<lambda>body.
     let bytes = take (MAX_RESPONSE_BYTES + 1) body in
     and_then (ensure (length bytes \<le> MAX_RESPONSE_BYTES) ResponseTooLarge) (\<lambda>_. Inr bytes)))"

definition trim_end_slashes :: "string \<Rightarrow> string" where
  "trim_end_slashes s = rev (dropWhile (\<lambda>c. c = CHR ''/'') (rev s))"

definition strip_prefix :: "string \<Rightarrow> string \<Rightarrow> string option" where
  "strip_prefix p s = (if starts_with s p then Some (drop (length p) s) else None)"

definition endpoint :: "provider_manifest \<Rightarrow> model_id \<Rightarrow> string" where
  "endpoint m model =
     (let base = trim_end_slashes (mf_base_url m) in
      case mf_protocol m of
        OpenAiCompatible \<Rightarrow> base @ ''/'' @ ''chat/completions''
      | AnthropicMessages \<Rightarrow> base @ ''/'' @ ''messages''
      | GeminiGenerateContent \<Rightarrow>
          (let name = (case strip_prefix ''models/'' model of Some n \<Rightarrow> n | None \<Rightarrow> model) in
           if ends_with base '':generateContent'' then base
           else base @ ''/models/'' @ name @ '':generateContent''))"

definition gemini_credential :: "string \<Rightarrow> (string \<times> string) list" where
  "gemini_credential key =
     (if starts_with key ''ya29.'' \<or> starts_with key ''Bearer '' then
        [(''Authorization'', ''Bearer '' @ (case strip_prefix ''Bearer '' key of Some t \<Rightarrow> t | None \<Rightarrow> key))]
      else [(''x-goog-api-key'', key)])"

record wire_codec =
  wc_read_json :: "string \<Rightarrow> json option"
  wc_json_stream :: "string \<Rightarrow> json list"
  wc_read_openai :: "string \<Rightarrow> openai_response option"
  wc_read_anthropic :: "string \<Rightarrow> anthropic_response option"
  wc_read_gemini :: "string \<Rightarrow> gemini_response option"

definition build_call ::
  "wire_codec \<Rightarrow> provider_manifest \<Rightarrow> string \<Rightarrow> model_request \<Rightarrow> (provider_error, http_call) outcome" where
  "build_call wc m key r =
     (let call = (\<lambda>headers body. \<lparr>hc_url = endpoint m (mr_model_id r), hc_timeout = mr_timeout r,
            hc_headers = headers, hc_body = body\<rparr>) in
      case mf_protocol m of
        OpenAiCompatible \<Rightarrow> Inr (call [(''Authorization'', ''Bearer '' @ key)] (OpenAiBody (openai_from_request r)))
      | AnthropicMessages \<Rightarrow>
          and_then (anthropic_from_request (wc_read_json wc) r) (\<lambda>body.
            Inr (call [(''x-api-key'', key), (''anthropic-version'', ''2023-06-01'')] (AnthropicBody body)))
      | GeminiGenerateContent \<Rightarrow>
          and_then (gemini_from_request (wc_read_json wc) r) (\<lambda>body. Inr (call (gemini_credential key) (GeminiBody body))))"

definition parse_reply :: "wire_codec \<Rightarrow> provider_manifest \<Rightarrow> string \<Rightarrow> (provider_error, model_response) outcome" where
  "parse_reply wc m bytes =
     (case mf_protocol m of
        OpenAiCompatible \<Rightarrow> parse_openai_response (wc_read_openai wc) (wc_read_json wc) (wc_json_stream wc) bytes
      | AnthropicMessages \<Rightarrow> parse_anthropic_response (wc_read_anthropic wc) bytes
      | GeminiGenerateContent \<Rightarrow> parse_gemini_response (wc_read_gemini wc) bytes)"

text \<open>\<open>send\<close> is the HTTP client, acting on the outside world; it follows no redirects.\<close>

definition http_complete ::
  "wire_codec \<Rightarrow> (http_call \<Rightarrow> 'w \<Rightarrow> http_reply option \<times> 'w) \<Rightarrow> provider_manifest \<Rightarrow> string \<Rightarrow> model_request \<Rightarrow> 'w
     \<Rightarrow> (provider_error, model_response) outcome \<times> 'w" where
  "http_complete wc send m key r w =
     (case
        and_then (validate_model_request r) (\<lambda>_.
        and_then (ensure (mr_provider_id r = mf_id m)
          (InvalidProviderRequest ''request provider does not match the client'')) (\<lambda>_.
          build_call wc m key r)) of
        Inl e \<Rightarrow> (Inl e, w)
      | Inr call \<Rightarrow>
          (case send call w of
             (None, w) \<Rightarrow> (Inl ProviderTransport, w)
           | (Some reply, w) \<Rightarrow>
               (and_then (read_limited reply) (\<lambda>bytes.
                and_then (ensure (200 \<le> hr_status reply \<and> hr_status reply < 300) (HttpStatus (hr_status reply))) (\<lambda>_.
                  parse_reply wc m bytes)), w)))"

section \<open>Tool calls\<close>

definition valid_call :: "tool_call \<Rightarrow> bool" where
  "valid_call c \<longleftrightarrow>
     length (tl_id c) \<le> MAX_TOOL_CALL_ID_BYTES \<and> \<not> blank (tl_id c) \<and> \<not> has_control (tl_id c)
   \<and> \<not> blank (tl_name c) \<and> \<not> has_control (tl_name c) \<and> is_object (tl_arguments c)"

lemma new_tool_call_iff:
  "new_tool_call i name args = Inr c \<longleftrightarrow> c = \<lparr>tl_id = i, tl_name = name, tl_arguments = args\<rparr> \<and> valid_call c"
  by (auto simp: new_tool_call_def validate_tool_call_id_def valid_call_def)

lemma openai_calls_ok:
  "openai_calls jr seen cs = Inr calls \<Longrightarrow>
     distinct (map tl_id calls) \<and> set (map tl_id calls) \<inter> set seen = {} \<and> list_all valid_call calls"
proof (induction cs arbitrary: seen calls)
  case (Cons c cs)
  then obtain args call rest where c: "tc_id c \<notin> set seen" "new_tool_call (tc_id c) (tc_name c) args = Inr call"
    "openai_calls jr (tc_id c # seen) cs = Inr rest" "calls = call # rest"
    by auto
  from Cons.IH [OF c(3)] c(1,2,4) show ?case by (auto simp: new_tool_call_iff)
qed auto

lemma anthropic_blocks_ok:
  assumes "anthropic_blocks seen t calls bs = Inr (t', calls')" "distinct (map tl_id calls)" "tl_id ` set calls \<subseteq> set seen"
    "list_all valid_call calls" "length t \<le> MAX_RESPONSE_TEXT_BYTES"
  shows "distinct (map tl_id calls') \<and> list_all valid_call calls' \<and> length t' \<le> MAX_RESPONSE_TEXT_BYTES"
  using assms
proof (induction bs arbitrary: seen t calls)
  case (Cons b bs)
  show ?case
  proof (cases b)
    case (ReplyText x)
    then show ?thesis using Cons by (auto split: if_splits)
  next
    case (ReplyToolUse i name input)
    then obtain call where c: "i \<notin> set seen" "new_tool_call i name input = Inr call"
      "anthropic_blocks (i # seen) t (calls @ [call]) bs = Inr (t', calls')"
      using Cons.prems(1) by auto
    then have "tl_id call = i" "valid_call call" by (auto simp: new_tool_call_iff)
    then show ?thesis using Cons.IH [OF c(3)] c(1) Cons.prems(2-) by auto
  qed
qed auto

lemma gemini_parts_ok:
  assumes "gemini_parts n t thoughts calls ps = Inr (t', thoughts', calls')" "distinct (map tl_id calls)"
    "tl_id ` set calls \<subseteq> (\<lambda>k. ''gemini-call-'' @ show_nat k) ` {..<n}"
    "list_all valid_call calls" "length t \<le> MAX_RESPONSE_TEXT_BYTES" "length thoughts \<le> MAX_RESPONSE_TEXT_BYTES"
  shows "distinct (map tl_id calls') \<and> list_all valid_call calls' \<and> length t' \<le> MAX_RESPONSE_TEXT_BYTES
    \<and> length thoughts' \<le> MAX_RESPONSE_TEXT_BYTES"
  using assms
proof (induction ps arbitrary: n t thoughts calls)
  case (Cons p ps)
  have more: "tl_id ` set calls \<subseteq> (\<lambda>k. ''gemini-call-'' @ show_nat k) ` {..<Suc n}"
    using Cons.prems(3) by (auto simp: lessThan_Suc)
  show ?case
  proof (cases p)
    case (PartText b thought)
    then show ?thesis using Cons more by (auto split: if_splits)
  next
    case (PartFunctionCall name args)
    then obtain call where c: "new_tool_call (''gemini-call-'' @ show_nat n) name args = Inr call"
      "gemini_parts (Suc n) t thoughts (calls @ [call]) ps = Inr (t', thoughts', calls')"
      using Cons.prems(1) by auto
    then have call: "tl_id call = ''gemini-call-'' @ show_nat n" "valid_call call" by (auto simp: new_tool_call_iff)
    have "tl_id call \<notin> tl_id ` set calls" using Cons.prems(3) unfolding call(1) by auto
    then show ?thesis using Cons.IH [OF c(2)] more call Cons.prems by (auto simp: lessThan_Suc)
  next
    case (PartOther j)
    then show ?thesis using Cons more by simp
  qed
qed auto

text \<open>A call found in text is numbered, so the identifiers differ after their last underscore.\<close>

lemma show_nat_no_underscore: "CHR ''_'' \<notin> set (show_nat n)"
proof (induction n rule: show_nat.induct)
  case (1 n)
  have "CHR ''_'' \<noteq> digit_char d" if "d < 10" for d
  proof
    assume "CHR ''_'' = digit_char d"
    then have "(of_char (digit_char d) :: nat) = of_char CHR ''_''" by (simp only:)
    then show False using that by simp
  qed
  note digit = this
  show ?case
  proof (cases "n < 10")
    case True
    then show ?thesis using digit [of n] by (subst show_nat.simps) simp
  next
    case False
    then show ?thesis using 1 digit [of "n mod 10"] by (subst show_nat.simps) simp
  qed
qed

lemma underscore_number: "a @ ''_'' @ show_nat m = b @ ''_'' @ show_nat n \<Longrightarrow> m = n"
proof -
  assume eq: "a @ ''_'' @ show_nat m = b @ ''_'' @ show_nat n"
  have "takeWhile (\<lambda>c. c \<noteq> CHR ''_'') (rev (a @ ''_'' @ show_nat k)) = rev (show_nat k)" for a k
    using show_nat_no_underscore [of k] takeWhile_append2 [of "rev (show_nat k)" "\<lambda>c. c \<noteq> CHR ''_''" "CHR ''_'' # rev a"] by auto
  then have "rev (show_nat m) = rev (show_nat n)" using eq by metis
  then show "m = n" by simp
qed

definition numbered :: "tool_call list \<Rightarrow> bool" where
  "numbered calls \<longleftrightarrow> list_all valid_call calls \<and> (\<forall>k < length calls. \<exists>a. tl_id (calls ! k) = a @ ''_'' @ show_nat (Suc k))"

lemma numbered_distinct: "numbered calls \<Longrightarrow> distinct (map tl_id calls)"
  unfolding distinct_conv_nth numbered_def by (metis Suc_inject length_map nth_map underscore_number)

lemma numbered_push:
  assumes n: "numbered calls"
  shows "numbered (push_text_call j calls)"
proof -
  show ?thesis
  proof (cases "push_text_call j calls = calls")
    case False
    then obtain name args call where call: "push_text_call j calls = calls @ [call]"
      "new_tool_call (''call_'' @ replace_char CHR ''.'' CHR ''_'' name @ ''_'' @ show_nat (length calls + 1)) name args = Inr call"
      by (auto simp: push_text_call_def Let_def split: option.splits sum.splits)
    then have "tl_id call = (''call_'' @ replace_char CHR ''.'' CHR ''_'' name) @ ''_'' @ show_nat (Suc (length calls))" "valid_call call"
      by (auto simp: new_tool_call_iff)
    then show ?thesis using n call(1) unfolding numbered_def
      by (auto simp: nth_append less_Suc_eq simp del: show_nat.simps)
  qed (use n in simp)
qed

lemma numbered_items: "numbered (fold push_item js [])"
proof -
  have each: "numbered calls \<Longrightarrow> numbered (fold push_text_call xs calls)" for xs calls
    by (induction xs arbitrary: calls) (auto intro: numbered_push)
  have "numbered calls \<Longrightarrow> numbered (push_item j calls)" for j calls
    by (auto simp: push_item_def intro: numbered_push each split: json.splits)
  then have "numbered calls \<Longrightarrow> numbered (fold push_item js calls)" for calls
    by (induction js arbitrary: calls) auto
  then show ?thesis by (simp add: numbered_def)
qed

section \<open>What a response may hold\<close>

lemma concat_outer: "tag_parts s = (inner, outer) \<Longrightarrow> length (concat outer) \<le> length s"
proof (induction s arbitrary: inner outer rule: tag_parts.induct)
  case (1 s)
  show ?case
  proof (cases "split_at_str ''<tool_call>'' s")
    case None
    then show ?thesis using "1.prems" by (auto split: if_splits)
  next
    case (Some x)
    then obtain a rest where s: "split_at_str ''<tool_call>'' s = Some (a, rest)" by (cases x) auto
    show ?thesis
    proof (cases "split_at_str ''</tool_call>'' rest")
      case None
      then show ?thesis using "1.prems" s split_at_str_shorter [OF s] by (auto split: if_splits)
    next
      case (Some y)
      then obtain b rest' where r: "split_at_str ''</tool_call>'' rest = Some (b, rest')" by (cases y) auto
      obtain ins outs where t: "tag_parts rest' = (ins, outs)" by fastforce
      have "length (concat outs) \<le> length rest'" using "1.IH" [OF s refl _ r refl t] by simp
      moreover have "outer = (if a = [] then [] else [a]) @ outs" using "1.prems" s r t by (auto simp: Let_def)
      ultimately show ?thesis using split_at_str_shorter [OF s] split_at_str_shorter [OF r] by (auto split: if_splits)
    qed
  qed
qed

lemma extract_ok:
  assumes "extract_fallback_tool_calls stream raw = (calls, rest)"
  shows "numbered calls" "length rest \<le> length raw"
proof -
  obtain to_parse remaining where p: "(if contains_str raw ''<tool_call>''
      then (case tag_parts raw of (inner, outer) \<Rightarrow> (join_with [CHR 0x0A] inner, trim (concat outer))) else (raw, raw)) = (to_parse, remaining)"
    by fastforce
  have "length remaining \<le> length raw"
  proof (cases "contains_str raw ''<tool_call>''")
    case True
    obtain inner outer where t: "tag_parts raw = (inner, outer)" by fastforce
    then have "remaining = trim (concat outer)" using p True by simp
    then show ?thesis using concat_outer [OF t] length_trim [of "concat outer"] by (auto intro: order_trans)
  qed (use p in auto)
  then show "numbered calls" "length rest \<le> length raw"
    using assms numbered_items unfolding extract_fallback_tool_calls_def p by (auto simp: Let_def)
qed

definition reply_ok :: "model_response \<Rightarrow> bool" where
  "reply_ok r \<longleftrightarrow>
     distinct (map tl_id (re_tool_calls r)) \<and> list_all valid_call (re_tool_calls r) \<and> length (re_text r) \<le> MAX_RESPONSE_TEXT_BYTES"

lemma parse_openai_ok:
  assumes "parse_openai_response read jr stream bytes = Inr r"
  shows "reply_ok r"
proof -
  obtain response choice calls where c: "read bytes = Some response"
    "(case os_choices response of [] \<Rightarrow> Inl InvalidResponse | c # _ \<Rightarrow> Inr c) = (Inr choice :: (provider_error, openai_reply) outcome)"
    "length (case om_content choice of Some t \<Rightarrow> t | None \<Rightarrow> []) \<le> MAX_RESPONSE_TEXT_BYTES"
    "openai_calls jr [] (case om_tool_calls choice of Some cs \<Rightarrow> cs | None \<Rightarrow> []) = Inr calls"
    using assms unfolding parse_openai_response_def by (auto simp: Let_def)
  let ?t = "case om_content choice of Some t \<Rightarrow> t | None \<Rightarrow> []"
  obtain extracted rest where e: "extract_fallback_tool_calls stream ?t = (extracted, rest)" by fastforce
  have r: "(re_tool_calls r, re_text r) = (if calls = [] \<and> extracted \<noteq> [] then (extracted, rest) else (calls, ?t))"
    using assms unfolding parse_openai_response_def by (simp add: c e Let_def split: if_splits) auto
  show ?thesis
  proof (cases "calls = [] \<and> extracted \<noteq> []")
    case True
    then show ?thesis using r extract_ok [OF e] c(3) numbered_distinct [of extracted]
      by (auto simp: reply_ok_def numbered_def)
  next
    case False
    then show ?thesis using r openai_calls_ok [OF c(4)] c(3) by (simp add: reply_ok_def if_not_P)
  qed
qed

lemma parse_anthropic_ok: "parse_anthropic_response read bytes = Inr r \<Longrightarrow> reply_ok r"
  by (auto simp: parse_anthropic_response_def reply_ok_def Let_def dest!: anthropic_blocks_ok)

lemma parse_gemini_ok: "parse_gemini_response read bytes = Inr r \<Longrightarrow> reply_ok r"
  by (auto simp: parse_gemini_response_def reply_ok_def Let_def dest!: gemini_parts_ok split: if_splits)

text \<open>C15: Whatever bytes a provider sends, an accepted response holds at most four mebibytes of text, and its tool calls have
  pairwise distinct, printable identifiers of at most 256 bytes, printable names and object arguments, also when they
  were recovered from the text.\<close>

theorem parsed_replies_wellformed:
  assumes "parse_reply wc m bytes = Inr r"
  shows "distinct (map tl_id (re_tool_calls r)) \<and> list_all valid_call (re_tool_calls r) \<and> length (re_text r) \<le> 4 * 1024 * 1024"
proof -
  have "reply_ok r" using assms parse_openai_ok parse_anthropic_ok parse_gemini_ok
    by (auto simp: parse_reply_def split: provider_protocol.splits)
  then show ?thesis by (simp add: reply_ok_def MAX_RESPONSE_TEXT_BYTES_def)
qed

definition demo_reply_codec :: wire_codec where
  "demo_reply_codec =
     \<lparr>wc_read_json = (\<lambda>_. None), wc_json_stream = (\<lambda>s. if s = ''{..}'' then [JObject [(''name'', JString ''fs.read'')]] else []),
      wc_read_openai = (\<lambda>_. Some \<lparr>os_choices = [\<lparr>om_content = Some ''<tool_call>{..}</tool_call>'', om_tool_calls = None\<rparr>], os_usage = None\<rparr>),
      wc_read_anthropic = (\<lambda>_. None), wc_read_gemini = (\<lambda>_. None)\<rparr>"

definition demo_manifest :: provider_manifest where
  "demo_manifest = \<lparr>mf_id = ''p'', mf_name = ''p'', mf_protocol = OpenAiCompatible, mf_base_url = ''https://p'', mf_default_model = ''m'',
     mf_api_key_env = ''KEY''\<rparr>"

definition demo_reply :: model_response where
  "demo_reply = \<lparr>re_text = [], re_tool_calls = [\<lparr>tl_id = ''call_fs_read_1'', tl_name = ''fs.read'', tl_arguments = JObject []\<rparr>],
     re_usage = default_usage\<rparr>"

lemma demo_extract: "extract_fallback_tool_calls (wc_json_stream demo_reply_codec) ''<tool_call>{..}</tool_call>'' = (re_tool_calls demo_reply, [])"
  unfolding demo_reply_codec_def demo_reply_def by code_simp

lemma demo_parse: "parse_reply demo_reply_codec demo_manifest [] = Inr demo_reply"
  using demo_extract
  by (simp add: parse_reply_def demo_manifest_def parse_openai_response_def MAX_RESPONSE_BYTES_def MAX_RESPONSE_TEXT_BYTES_def)
     (simp add: demo_reply_codec_def demo_reply_def)

theorem parsed_replies_wellformed_witness:
  "\<exists>r. parse_reply demo_reply_codec demo_manifest [] = Inr r \<and> map tl_id (re_tool_calls r) = [''call_fs_read_1''] \<and> list_all valid_call (re_tool_calls r)"
  using parsed_replies_wellformed [OF demo_parse] demo_parse by (auto simp: demo_reply_def)

section \<open>What is sent\<close>

lemma try_map_encode:
  assumes "try_map (encode_tool_call jw) calls = Inr cs" "\<forall>c \<in> set calls. valid_call c"
    and "\<forall>c \<in> set calls. \<forall>s. jw (tl_arguments c) = Some s \<longrightarrow> jr s = Some (tl_arguments c)"
  shows "try_map (decode_tool_call jr) cs = Inr calls"
  using assms
proof (induction calls arbitrary: cs)
  case (Cons c calls)
  obtain x rest where x: "encode_tool_call jw c = Inr x" "try_map (encode_tool_call jw) calls = Inr rest" "cs = x # rest"
    using Cons.prems(1) by (auto split: sum.splits)
  then obtain s where s: "jw (tl_arguments c) = Some s" "try_map (encode_tool_call jw) calls = Inr rest"
    "cs = \<lparr>tc_id = tl_id c, tc_name = tl_name c, tc_arguments = s\<rparr> # rest"
    by (auto simp: encode_tool_call_def)
  then have "jr s = Some (tl_arguments c)" "new_tool_call (tl_id c) (tl_name c) (tl_arguments c) = Inr c"
    using Cons.prems by (auto simp: new_tool_call_iff)
  then show ?case using Cons.IH [OF s(2)] Cons.prems s(3) by (simp add: decode_tool_call_def)
qed simp

text \<open>The tokens, the messages and the tools a body carries.\<close>

fun body_max_tokens :: "wire_body \<Rightarrow> u32" where
  "body_max_tokens (OpenAiBody b) = or_max_tokens b"
| "body_max_tokens (AnthropicBody b) = ar_max_tokens b"
| "body_max_tokens (GeminiBody b) = gq_max_output_tokens b"

fun body_tools :: "wire_body \<Rightarrow> tool_schema list" where
  "body_tools (OpenAiBody b) = or_tools b"
| "body_tools (AnthropicBody b) = ar_tools b"
| "body_tools (GeminiBody b) = concat (gq_tools b)"

text \<open>
  What a provider is shown by a body: the model, unless the address names it, the system text, unless it stands among the
  turns, and the turns. The bodies are read the way the protocols define them; nothing here refers to how the client
  writes them. Gemini has no identifiers for calls, and its results carry the name of the tool.
\<close>

datatype shown =
  ShownText message_role string
| ShownCalls string "tool_call list"
| ShownResult "string option" string
| Unreadable

record wire_view =
  vw_model :: "string option"
  vw_system :: "string option"
  vw_turns :: "shown list"

definition shown_reply :: "string \<Rightarrow> tool_call list \<Rightarrow> shown" where
  "shown_reply t calls = (if calls = [] then ShownText AssistantRole t else ShownCalls t calls)"

definition openai_shown :: "(string \<Rightarrow> json option) \<Rightarrow> openai_message \<Rightarrow> shown" where
  "openai_shown jr m =
     (let t = (case oa_content m of Some c \<Rightarrow> c | None \<Rightarrow> []) in
      case oa_role m of
        ToolRole \<Rightarrow> ShownResult (oa_tool_call_id m) t
      | AssistantRole \<Rightarrow> (case try_map (decode_tool_call jr) (oa_tool_calls m) of Inr calls \<Rightarrow> shown_reply t calls | Inl _ \<Rightarrow> Unreadable)
      | role \<Rightarrow> ShownText role t)"

fun block_text :: "anthropic_block \<Rightarrow> string" where
  "block_text (TextBlock t) = t"
| "block_text _ = []"

fun block_call :: "anthropic_block \<Rightarrow> tool_call list" where
  "block_call (ToolUseBlock i name args) = [\<lparr>tl_id = i, tl_name = name, tl_arguments = args\<rparr>]"
| "block_call _ = []"

definition anthropic_shown :: "anthropic_message \<Rightarrow> shown" where
  "anthropic_shown m =
     (case (am_role m, am_content m) of
        (AnthropicUser, AnthropicText t) \<Rightarrow> ShownText UserRole t
      | (AnthropicUser, AnthropicBlocks [ToolResultBlock i t]) \<Rightarrow> ShownResult (Some i) t
      | (AnthropicAssistant, AnthropicText t) \<Rightarrow> ShownText AssistantRole t
      | (AnthropicAssistant, AnthropicBlocks bs) \<Rightarrow> shown_reply (concat (map block_text bs)) (concat (map block_call bs))
      | _ \<Rightarrow> Unreadable)"

fun system_shown :: "anthropic_system \<Rightarrow> string" where
  "system_shown (SystemText t) = t"
| "system_shown (SystemBlocks bs) = concat (map sb_text bs)"

fun part_text :: "gemini_part \<Rightarrow> string" where
  "part_text (GeminiText t) = t"
| "part_text _ = []"

fun part_call :: "gemini_part \<Rightarrow> tool_call list" where
  "part_call (GeminiFunctionCall name args) = [\<lparr>tl_id = [], tl_name = name, tl_arguments = args\<rparr>]"
| "part_call _ = []"

definition gemini_shown :: "gemini_content \<Rightarrow> shown" where
  "gemini_shown c =
     (case (gc_role c, gc_parts c) of
        (Some GeminiUser, [GeminiText t]) \<Rightarrow> ShownText UserRole t
      | (Some GeminiUser, [GeminiFunctionResponse name (JObject [(k, JString t)])]) \<Rightarrow>
          if k = ''content'' then ShownResult (Some name) t else Unreadable
      | (Some GeminiModel, ps) \<Rightarrow> shown_reply (concat (map part_text ps)) (concat (map part_call ps))
      | _ \<Rightarrow> Unreadable)"

fun body_view :: "(string \<Rightarrow> json option) \<Rightarrow> wire_body \<Rightarrow> wire_view" where
  "body_view jr (OpenAiBody b) =
     \<lparr>vw_model = Some (or_model b), vw_system = None, vw_turns = map (openai_shown jr) (or_messages b)\<rparr>"
| "body_view jr (AnthropicBody b) =
     \<lparr>vw_model = Some (ar_model b), vw_system = map_option system_shown (ar_system b), vw_turns = map anthropic_shown (ar_messages b)\<rparr>"
| "body_view jr (GeminiBody b) =
     \<lparr>vw_model = None, vw_system = map_option (\<lambda>c. concat (map part_text (gc_parts c))) (gq_system_instruction b),
      vw_turns = map gemini_shown (gq_contents b)\<rparr>"

text \<open>What a request asks to be shown.\<close>

definition shown_of :: "(string \<Rightarrow> json option) \<Rightarrow> chat_message \<Rightarrow> shown" where
  "shown_of jr m =
     (case cm_role m of
        ToolRole \<Rightarrow> ShownResult (cm_tool_call_id m) (cm_content m)
      | AssistantRole \<Rightarrow> (case message_tool_calls jr m of Inr calls \<Rightarrow> shown_reply (cm_content m) calls | Inl _ \<Rightarrow> Unreadable)
      | role \<Rightarrow> ShownText role (cm_content m))"

fun without_ids :: "chat_message list \<Rightarrow> shown \<Rightarrow> shown" where
  "without_ids ms (ShownCalls t calls) = ShownCalls t (map (\<lambda>c. c\<lparr>tl_id := []\<rparr>) calls)"
| "without_ids ms (ShownResult i t) = ShownResult (Option.bind i (called_name ms)) t"
| "without_ids ms x = x"

definition joined_system :: "model_request \<Rightarrow> string option" where
  "joined_system r = (if system_texts r = [] then None else Some (join_with blank_line (system_texts r)))"

definition request_view :: "provider_protocol \<Rightarrow> (string \<Rightarrow> json option) \<Rightarrow> model_request \<Rightarrow> wire_view" where
  "request_view protocol jr r =
     (case protocol of
        OpenAiCompatible \<Rightarrow> \<lparr>vw_model = Some (mr_model_id r), vw_system = None, vw_turns = map (shown_of jr) (mr_messages r)\<rparr>
      | AnthropicMessages \<Rightarrow>
          \<lparr>vw_model = Some (mr_model_id r), vw_system = joined_system r, vw_turns = map (shown_of jr) (conversation r)\<rparr>
      | GeminiGenerateContent \<Rightarrow>
          \<lparr>vw_model = None, vw_system = joined_system r,
           vw_turns = map (\<lambda>m. without_ids (mr_messages r) (shown_of jr m)) (conversation r)\<rparr>)"

text \<open>Messages as their constructors build them: calls only in an assistant message, which then has no text.\<close>

definition built_message :: "chat_message \<Rightarrow> bool" where
  "built_message m \<longleftrightarrow> cm_tool_calls m = [] \<or> cm_role m = AssistantRole \<and> cm_content m = []"

text \<open>The requests a protocol can express.\<close>

definition expressible :: "provider_protocol \<Rightarrow> (string \<Rightarrow> json option) \<Rightarrow> model_request \<Rightarrow> bool" where
  "expressible protocol jr r \<longleftrightarrow>
     (case protocol of
        OpenAiCompatible \<Rightarrow> True
      | AnthropicMessages \<Rightarrow>
          conversation r \<noteq> []
        \<and> (\<forall>m \<in> set (conversation r).
             (cm_role m = AssistantRole \<longrightarrow> is_ok (message_tool_calls jr m)) \<and> (cm_role m = ToolRole \<longrightarrow> cm_tool_call_id m \<noteq> None))
      | GeminiGenerateContent \<Rightarrow>
          conversation r \<noteq> []
        \<and> (\<forall>m \<in> set (conversation r).
             (cm_role m = AssistantRole \<longrightarrow> is_ok (message_tool_calls jr m) \<and> (cm_content m \<noteq> [] \<or> cm_tool_calls m \<noteq> []))
           \<and> (cm_role m = ToolRole \<longrightarrow> Option.bind (cm_tool_call_id m) (called_name (mr_messages r)) \<noteq> None)))"

lemma openai_message_shown: "built_message m \<Longrightarrow> openai_shown jr (openai_from_message m) = shown_of jr m"
  by (cases "cm_tool_calls m = []"; cases "cm_role m")
     (auto simp: openai_shown_def openai_from_message_def shown_of_def message_tool_calls_def built_message_def split: sum.split)

lemma blocks_shown:
  "concat (map block_text (map (\<lambda>c. ToolUseBlock (tl_id c) (tl_name c) (tl_arguments c)) calls)) = []"
  "concat (map block_call (map (\<lambda>c. ToolUseBlock (tl_id c) (tl_name c) (tl_arguments c)) calls)) = calls"
  "concat (map part_text (map (\<lambda>c. GeminiFunctionCall (tl_name c) (tl_arguments c)) calls)) = []"
  "concat (map part_call (map (\<lambda>c. GeminiFunctionCall (tl_name c) (tl_arguments c)) calls)) = map (\<lambda>c. c\<lparr>tl_id := []\<rparr>) calls"
  by (induction calls) simp_all

lemma anthropic_message_shown:
  assumes "anthropic_from_message jr m = Inr x"
  shows "anthropic_shown x = shown_of jr m"
proof (cases "cm_role m")
  case AssistantRole
  then obtain calls where c: "message_tool_calls jr m = Inr calls" using assms by (auto simp: anthropic_from_message_def)
  show ?thesis
  proof (cases "calls = []")
    case True
    then show ?thesis using assms AssistantRole c by (auto simp: anthropic_from_message_def anthropic_shown_def shown_of_def shown_reply_def)
  next
    case False
    let ?bs = "(if cm_content m = [] then [] else [TextBlock (cm_content m)])
      @ map (\<lambda>c. ToolUseBlock (tl_id c) (tl_name c) (tl_arguments c)) calls"
    have "x = \<lparr>am_role = AnthropicAssistant, am_content = AnthropicBlocks ?bs\<rparr>"
      using assms AssistantRole c False by (simp add: anthropic_from_message_def)
    moreover have "concat (map block_text ?bs) = cm_content m" "concat (map block_call ?bs) = calls"
      using blocks_shown(1,2) [of calls] by simp_all
    ultimately show ?thesis by (simp add: anthropic_shown_def shown_of_def AssistantRole c)
  qed
qed (use assms in \<open>auto simp: anthropic_from_message_def anthropic_shown_def shown_of_def\<close>)

lemma gemini_message_shown:
  assumes "gemini_from_message jr ms m = Inr x" "cm_role m \<noteq> SystemRole"
  shows "gemini_shown x = without_ids ms (shown_of jr m)"
proof (cases "cm_role m")
  case AssistantRole
  then obtain calls where c: "message_tool_calls jr m = Inr calls" using assms by (auto simp: gemini_from_message_def)
  let ?ps = "(if cm_content m = [] then [] else [GeminiText (cm_content m)])
    @ map (\<lambda>c. GeminiFunctionCall (tl_name c) (tl_arguments c)) calls"
  have "x = \<lparr>gc_role = Some GeminiModel, gc_parts = ?ps\<rparr>"
    using assms AssistantRole c by (auto simp: gemini_from_message_def Let_def split: if_splits)
  moreover have "concat (map part_text ?ps) = cm_content m" "concat (map part_call ?ps) = map (\<lambda>c. c\<lparr>tl_id := []\<rparr>) calls"
    using blocks_shown(3,4) [of calls] by simp_all
  ultimately have "gemini_shown x = shown_reply (cm_content m) (map (\<lambda>c. c\<lparr>tl_id := []\<rparr>) calls)"
    by (simp only: gemini_shown_def gemini_content.select_convs prod.case option.case gemini_role.case)
  then show ?thesis by (simp add: shown_of_def shown_reply_def AssistantRole c)
qed (use assms in \<open>auto simp: gemini_from_message_def gemini_shown_def shown_of_def\<close>)

lemma try_map_shown:
  "try_map f xs = Inr ys \<Longrightarrow> (\<And>x y. x \<in> set xs \<Longrightarrow> f x = Inr y \<Longrightarrow> g y = h x) \<Longrightarrow> map g ys = map h xs"
  by (induction xs arbitrary: ys) (auto split: sum.splits)

lemma try_map_is_ok: "is_ok (try_map f xs) \<longleftrightarrow> (\<forall>x \<in> set xs. is_ok (f x))"
  by (induction xs) (auto simp: is_ok_def split: sum.splits)

text \<open>The budget a model call may spend: the thinking budget of Anthropic's protocol lifts a smaller one.\<close>

definition spendable :: "provider_manifest \<Rightarrow> model_request \<Rightarrow> u32" where
  "spendable m r =
     (case (mf_protocol m, Option.bind (mr_reasoning_effort r) anthropic_thinking_budget) of
        (AnthropicMessages, Some b) \<Rightarrow> if mr_max_output_tokens r \<le> b then b + 1024 else mr_max_output_tokens r
      | _ \<Rightarrow> mr_max_output_tokens r)"

lemma build_call_iff: "is_ok (build_call wc m key r) \<longleftrightarrow> expressible (mf_protocol m) (wc_read_json wc) r"
proof -
  let ?jr = "wc_read_json wc"
  have an: "is_ok (anthropic_from_request ?jr r) \<longleftrightarrow>
      conversation r \<noteq> [] \<and> (\<forall>x \<in> set (conversation r). is_ok (anthropic_from_message ?jr x))"
    using try_map_is_ok [of "anthropic_from_message ?jr" "conversation r"] try_map_length [of "anthropic_from_message ?jr" "conversation r"]
    by (cases "try_map (anthropic_from_message ?jr) (conversation r)") (auto simp: anthropic_from_request_def is_ok_def Let_def)
  have ge: "is_ok (gemini_from_request ?jr r) \<longleftrightarrow>
      conversation r \<noteq> [] \<and> (\<forall>x \<in> set (conversation r). is_ok (gemini_from_message ?jr (mr_messages r) x))"
    using try_map_is_ok [of "gemini_from_message ?jr (mr_messages r)" "conversation r"]
      try_map_length [of "gemini_from_message ?jr (mr_messages r)" "conversation r"]
    by (cases "try_map (gemini_from_message ?jr (mr_messages r)) (conversation r)") (auto simp: gemini_from_request_def is_ok_def)
  have calls: "message_tool_calls ?jr x = Inr [] \<longleftrightarrow> cm_tool_calls x = []" for x
    using try_map_length [of "decode_tool_call ?jr" "cm_tool_calls x"] by (auto simp: message_tool_calls_def)
  have am: "is_ok (anthropic_from_message ?jr x) \<longleftrightarrow> (cm_role x = AssistantRole \<longrightarrow> is_ok (message_tool_calls ?jr x))
      \<and> (cm_role x = ToolRole \<longrightarrow> cm_tool_call_id x \<noteq> None)" if "cm_role x \<noteq> SystemRole" for x
    using that by (cases "cm_role x"; cases "message_tool_calls ?jr x"; cases "cm_tool_call_id x") (auto simp: anthropic_from_message_def is_ok_def)
  have gm: "is_ok (gemini_from_message ?jr ms x) \<longleftrightarrow>
      (cm_role x = AssistantRole \<longrightarrow> is_ok (message_tool_calls ?jr x) \<and> (cm_content x \<noteq> [] \<or> cm_tool_calls x \<noteq> []))
      \<and> (cm_role x = ToolRole \<longrightarrow> Option.bind (cm_tool_call_id x) (called_name ms) \<noteq> None)" if "cm_role x \<noteq> SystemRole" for x ms
    using that calls [of x]
    by (cases "cm_role x"; cases "message_tool_calls ?jr x"; cases "cm_tool_call_id x")
       (auto simp: gemini_from_message_def is_ok_def Let_def ok_or_def split: option.splits)
  have conv: "x \<in> set (conversation r) \<Longrightarrow> cm_role x \<noteq> SystemRole" for x by (simp add: conversation_def)
  show ?thesis
  proof (cases "mf_protocol m")
    case OpenAiCompatible
    then show ?thesis by (simp add: build_call_def expressible_def is_ok_def)
  next
    case AnthropicMessages
    then have "is_ok (build_call wc m key r) = is_ok (anthropic_from_request ?jr r)"
      by (cases "anthropic_from_request ?jr r") (simp_all add: build_call_def is_ok_def)
    then show ?thesis using AnthropicMessages an am conv by (auto simp: expressible_def)
  next
    case GeminiGenerateContent
    then have "is_ok (build_call wc m key r) = is_ok (gemini_from_request ?jr r)"
      by (cases "gemini_from_request ?jr r") (simp_all add: build_call_def is_ok_def)
    then show ?thesis using GeminiGenerateContent ge gm conv by (auto simp: expressible_def)
  qed
qed

lemma build_call_view:
  assumes "build_call wc m key r = Inr call" "list_all built_message (mr_messages r)"
  shows "body_view (wc_read_json wc) (hc_body call) = request_view (mf_protocol m) (wc_read_json wc) r"
proof (cases "mf_protocol m")
  case OpenAiCompatible
  then have "hc_body call = OpenAiBody (openai_from_request r)" using assms(1) by (auto simp: build_call_def)
  then show ?thesis using OpenAiCompatible assms(2) openai_message_shown
    by (auto simp: openai_from_request_def request_view_def list_all_iff)
next
  case AnthropicMessages
  then obtain b where b: "anthropic_from_request (wc_read_json wc) r = Inr b" "hc_body call = AnthropicBody b"
    using assms(1) by (auto simp: build_call_def)
  then obtain ms where ms: "try_map (anthropic_from_message (wc_read_json wc)) (conversation r) = Inr ms" "ar_messages b = ms"
    by (auto simp: anthropic_from_request_def Let_def split: if_splits)
  have "map anthropic_shown ms = map (shown_of (wc_read_json wc)) (conversation r)"
    by (rule try_map_shown [OF ms(1) anthropic_message_shown])
  moreover have "ar_model b = mr_model_id r" "map_option system_shown (ar_system b) = joined_system r"
    using b(1) ms(1)
    by (cases "mr_prompt_cache_ttl r"; auto simp: joined_system_def anthropic_from_request_def Let_def option.map_comp split: if_splits)+
  ultimately show ?thesis using b(2) ms(2) AnthropicMessages by (simp add: request_view_def)
next
  case GeminiGenerateContent
  then obtain b where b: "gemini_from_request (wc_read_json wc) r = Inr b" "hc_body call = GeminiBody b"
    using assms(1) by (auto simp: build_call_def)
  then obtain ms where ms: "try_map (gemini_from_message (wc_read_json wc) (mr_messages r)) (conversation r) = Inr ms" "gq_contents b = ms"
    by (auto simp: gemini_from_request_def split: if_splits)
  have "map gemini_shown ms = map (\<lambda>m. without_ids (mr_messages r) (shown_of (wc_read_json wc) m)) (conversation r)"
    by (rule try_map_shown [OF ms(1)]) (auto intro: gemini_message_shown simp: conversation_def)
  moreover have "map_option (\<lambda>c. concat (map part_text (gc_parts c))) (gq_system_instruction b) = joined_system r"
    using b(1) ms(1) by (auto simp: joined_system_def gemini_from_request_def split: if_splits)
  ultimately show ?thesis using b(2) ms(2) GeminiGenerateContent by (simp add: request_view_def)
qed

lemma build_call_ok:
  assumes "build_call wc m key r = Inr call"
  shows "hc_url call = endpoint m (mr_model_id r)" "hc_timeout call = mr_timeout r" "body_tools (hc_body call) = mr_tools r"
    "body_max_tokens (hc_body call) = spendable m r"
  using assms
  by (auto simp: build_call_def spendable_def openai_from_request_def anthropic_from_request_def gemini_from_request_def
      Let_def split: provider_protocol.splits if_splits option.splits)


definition demo_question :: model_request where
  "demo_question = \<lparr>mr_provider_id = ''p'', mr_model_id = ''m'',
     mr_messages = [\<lparr>cm_role = UserRole, cm_content = ''hi'', cm_tool_calls = [], cm_tool_call_id = None\<rparr>], mr_tools = [],
     mr_max_output_tokens = 1024, mr_timeout = 1, mr_trace = \<lparr>tm_execution_id = None, tm_session_id = None\<rparr>,
     mr_prompt_cache_ttl = None, mr_reasoning_effort = Some HighEffort\<rparr>"


text \<open>The calls of an assistant message are read back as they were written, given a JSON codec that reads what it wrote.\<close>

lemma tool_calls_roundtrip:
  assumes "assistant_tool_calls jw calls = Inr m" "\<forall>c \<in> set calls. valid_call c"
    and "\<forall>c \<in> set calls. \<forall>s. jw (tl_arguments c) = Some s \<longrightarrow> jr s = Some (tl_arguments c)"
  shows "message_tool_calls jr m = Inr calls"
  using assms(1) try_map_encode [OF _ assms(2,3)]
  by (auto simp: assistant_tool_calls_def message_tool_calls_def split: if_splits)

text \<open>
  Gemini numbers the calls of each response from zero, and the name of a tool result is looked up from the end of the
  conversation: in two rounds with one call each, the result of the first call is sent under the name of the second.
\<close>

lemma gemini_result_misnamed:
  assumes "parse_gemini_response read1 bytes1 = Inr r1" "re_tool_calls r1 = [c1]" "tl_id c1 = ''gemini-call-0''"
    and "parse_gemini_response read2 bytes2 = Inr r2" "re_tool_calls r2 = [c2]" "tl_id c2 = ''gemini-call-0''"
    and "assistant_tool_calls jw [c1] = Inr a1" "tool_result (tl_id c1) out1 = Inr t1"
    and "assistant_tool_calls jw [c2] = Inr a2" "tool_result (tl_id c2) out2 = Inr t2"
    and "mr_messages r = [u, a1, t1, a2, t2]" "cm_role u = UserRole" "gemini_from_request jr r = Inr body"
  shows "gc_parts (gq_contents body ! 2) = [GeminiFunctionResponse (tl_name c2) (JObject [(''content'', JString (cm_content t1))])]"
proof -
  have a: "cm_tool_calls a2 = [\<lparr>tc_id = ''gemini-call-0'', tc_name = tl_name c2, tc_arguments = s\<rparr>]"
    if "jw (tl_arguments c2) = Some s" for s
    using assms(6,9) that by (auto simp: assistant_tool_calls_def encode_tool_call_def split: if_splits)
  obtain s where s: "jw (tl_arguments c2) = Some s" using assms(9) by (auto simp: assistant_tool_calls_def encode_tool_call_def ok_or_def split: option.splits)
  have roles: "cm_role a1 = AssistantRole" "cm_role a2 = AssistantRole" "cm_role t1 = ToolRole" "cm_role t2 = ToolRole"
    "cm_tool_call_id t1 = Some ''gemini-call-0''" "cm_tool_calls t2 = []"
    using assms(3,7-10) by (auto simp: assistant_tool_calls_def tool_result_def chat_tool_def new_chat_message_def split: if_splits)
  have name: "called_name (mr_messages r) ''gemini-call-0'' = Some (tl_name c2)"
    by (simp add: called_name_def assms(11) roles a [OF s])
  obtain cs where cs: "try_map (gemini_from_message jr (mr_messages r)) [u, a1, t1, a2, t2] = Inr cs" "gq_contents body = cs"
    using assms(13) by (auto simp: gemini_from_request_def conversation_def assms(11,12) roles split: if_splits)
  have "gemini_from_message jr (mr_messages r) t1
      = Inr \<lparr>gc_role = Some GeminiUser, gc_parts = [GeminiFunctionResponse (tl_name c2) (JObject [(''content'', JString (cm_content t1))])]\<rparr>"
    by (simp add: gemini_from_message_def roles name)
  then show ?thesis using cs by (auto split: sum.splits)
qed

end
