(* ===== verification/Provider_Invocation.thy ===== *)
theory Provider_Invocation
  imports Execution_Controller Provider_Wire
begin

text \<open>
  Model calls under governance: \<open>invoke_provider\<close> of \<open>pandora-runtime/src/execution_controller.rs\<close>, the executor of
  \<open>pandora-runtime/src/executors/provider.rs\<close> and the failover of \<open>pandora-provider/src/failover.rs\<close>. A provider is its manifest
  and its completion, a function of the outside world; \<open>http_complete\<close> of \<open>Provider_Wire\<close> is one. SHA-256, \<open>serde_json\<close>,
  the receipt allocator, the clock and the assembly of the execution profile from the running installation are the
  fields of \<open>call_env\<close>.
\<close>

section \<open>The executor\<close>

record 'w provider =
  pv_manifest :: provider_manifest
  pv_complete :: "model_request \<Rightarrow> 'w \<Rightarrow> (provider_error, model_response) outcome \<times> 'w"

record 'w call_env =
  iv_sha :: "string \<Rightarrow> string"
  iv_js :: "canonical_request \<Rightarrow> string"
  iv_payload :: "canonical_invocation \<Rightarrow> string option"
  iv_manifest_json :: "provider_manifest \<Rightarrow> string option"
  iv_version :: string
  iv_assemble :: "u32 \<Rightarrow> string \<Rightarrow> profile_binding list \<Rightarrow> (profile_error, execution_profile) outcome"
  iv_receipt :: "'w \<Rightarrow> receipt_id \<times> 'w"
  iv_elapsed :: "'w \<Rightarrow> 'w \<Rightarrow> u64"

record call_metrics =
  mt_provider_id :: string
  mt_model_id :: string
  mt_elapsed_ms :: u64
  mt_input_tokens :: u32
  mt_output_tokens :: u32
  mt_cached_input_tokens :: u32
  mt_cache_write_input_tokens :: u32
  mt_succeeded :: bool

record provider_result =
  pz_result :: "(provider_error, model_response) outcome"
  pz_receipts :: "effect_receipt list"
  pz_metrics :: "call_metrics list"

fun provider_error_code :: "provider_error \<Rightarrow> string" where
  "provider_error_code (InvalidManifest _) = ''invalid_manifest''"
| "provider_error_code CredentialUnavailable = ''credential_unavailable''"
| "provider_error_code (InvalidProviderRequest _) = ''invalid_request''"
| "provider_error_code UnsupportedEndpoint = ''unsupported_endpoint''"
| "provider_error_code ProviderTransport = ''transport''"
| "provider_error_code (HttpStatus _) = ''http_status''"
| "provider_error_code ResponseTooLarge = ''response_too_large''"
| "provider_error_code InvalidResponse = ''invalid_response''"
| "provider_error_code (InvalidToolArguments _) = ''invalid_tool_arguments''"
| "provider_error_code (DuplicateToolCallId _) = ''duplicate_tool_call_id''"

text \<open>A manifest with a blank credential reference, which the constructor refuses, makes the code panic.\<close>

definition request_matches :: "'w call_env \<Rightarrow> consumed_permit \<Rightarrow> provider_manifest \<Rightarrow> model_request \<Rightarrow> bool" where
  "request_matches env permit m r \<longleftrightarrow>
     rq_capability (cp_request permit) = ProviderInvoke \<and> rq_operation (cp_request permit) = Invoke
   \<and> rq_resource_scope (cp_request permit) = NoScope
   \<and> (case ok (new_secret_reference (mf_api_key_env m)) of
        Some credential \<Rightarrow> rq_target (cp_request permit) = ProviderTarget (mf_id m) credential
      | None \<Rightarrow> False)
   \<and> mr_provider_id r = mf_id m
   \<and> (case ok (authorization_payload_for (iv_payload env) m r) of
        Some payload \<Rightarrow> payload_digest_matches (iv_sha env) (cp_request permit) payload
      | None \<Rightarrow> False)"

definition executor_complete ::
  "'w call_env \<Rightarrow> consumed_permit \<Rightarrow> 'w provider \<Rightarrow> model_request \<Rightarrow> timestamp \<Rightarrow> 'w \<Rightarrow> provider_result \<times> 'w" where
  "executor_complete env permit p r now w =
     (let (result, w1) =
            (if request_matches env permit (pv_manifest p) r then pv_complete p r w
             else (Inl (InvalidProviderRequest ''provider request does not match the authorization permit''), w));
          outcome = (case result of Inr _ \<Rightarrow> Succeeded | Inl e \<Rightarrow> Failed (provider_error_code e));
          u = (case result of Inr x \<Rightarrow> re_usage x | Inl _ \<Rightarrow> default_usage);
          (rid, w2) = iv_receipt env w1 in
      (\<lparr>pz_result = result,
        pz_receipts = [\<lparr>rc_receipt_id = rid, rc_permit_id = pm_permit_id (cp_permit permit),
          rc_request_digest = pm_request_digest (cp_permit permit), rc_completed_at = now, rc_outcome = outcome\<rparr>],
        pz_metrics = [\<lparr>mt_provider_id = mf_id (pv_manifest p), mt_model_id = mr_model_id r, mt_elapsed_ms = iv_elapsed env w w2,
          mt_input_tokens = tu_prompt_tokens u, mt_output_tokens = tu_completion_tokens u,
          mt_cached_input_tokens = tu_cached_prompt_tokens u, mt_cache_write_input_tokens = tu_cache_write_prompt_tokens u,
          mt_succeeded = is_ok result\<rparr>]\<rparr>, w2))"

section \<open>The controller\<close>

definition hash_artifact :: "(string \<Rightarrow> string) \<Rightarrow> string \<Rightarrow> string" where
  "hash_artifact sha bytes = ''sha256:'' @ hex_encode (sha bytes)"

definition evidence_binding ::
  "(string \<Rightarrow> string) \<Rightarrow> binding_kind \<Rightarrow> string \<Rightarrow> string option \<Rightarrow> string \<Rightarrow> (runtime_error, profile_binding) outcome" where
  "evidence_binding sha kind i version evidence =
     map_err ExecutionProfileFailure (new_binding kind i version (hash_artifact sha evidence))"

definition provider_profile_bindings ::
  "'w call_env \<Rightarrow> provider_manifest \<Rightarrow> model_id \<Rightarrow> (runtime_error, profile_binding list) outcome" where
  "provider_profile_bindings env m model =
     and_then (ok_or (iv_manifest_json env m) (InvalidIntent ''provider manifest could not be encoded for the profile'')) (\<lambda>evidence.
     and_then (evidence_binding (iv_sha env) Provider (mf_id m) None evidence) (\<lambda>b1.
     and_then (evidence_binding (iv_sha env) Model model None model) (\<lambda>b2.
     and_then (evidence_binding (iv_sha env) Gene ''provider.invoke'' (Some (iv_version env)) ''provider.invoke'') (\<lambda>b3.
       Inr [b1, b2, b3]))))"

text \<open>The operation request of a model call.\<close>

definition provider_request ::
  "'w call_env \<Rightarrow> provider_manifest \<Rightarrow> model_id \<Rightarrow> string \<Rightarrow> session \<Rightarrow> execution_id \<Rightarrow> u32
     \<Rightarrow> (runtime_error, operation_request) outcome" where
  "provider_request env m model payload ses eid version =
     and_then (provider_profile_bindings env m model) (\<lambda>bindings.
     and_then (map_err ExecutionProfileFailure (iv_assemble env version ''provider'' bindings)) (\<lambda>profile.
     and_then (map_err RequestFailure (new_secret_reference (mf_api_key_env m))) (\<lambda>credential.
     and_then (map_err RequestFailure (new_request (iv_sha env) (iv_js env) eid (se_id ses) (se_principal_id ses) profile
       ''provider.invoke'' None ProviderInvoke Invoke (ProviderTarget (mf_id m) credential) NoScope)) (\<lambda>r.
       map_err RequestFailure (with_payload_digest (iv_sha env) (iv_js env) r payload)))))"

definition invoke_provider_once ::
  "'w call_env \<Rightarrow> 'w provider \<Rightarrow> model_request \<Rightarrow> session \<Rightarrow> timestamp \<Rightarrow> 'w controller
     \<Rightarrow> (runtime_error, provider_result) outcome \<times> 'w controller" where
  "invoke_provider_once env p r ses now ct =
     (case authorization_payload_for (iv_payload env) (pv_manifest p) r of
        Inl e \<Rightarrow> (Inl (ProviderFailure (provider_error_code e)), ct)
      | Inr payload \<Rightarrow>
          let n = ct_next_execution ct; ct = ct\<lparr>ct_next_execution := n + 1\<rparr> in
          (case
             and_then (map_err (\<lambda>_. InvalidIntent ''could not allocate provider execution ID'')
               (new_id (''provider-execution-'' @ show_nat (unat n)))) (\<lambda>eid.
               provider_request env (pv_manifest p) (mr_model_id r) payload ses eid (pc_policy_version (ct_policy ct))) of
             Inl e \<Rightarrow> (Inl e, ct)
           | Inr op \<Rightarrow>
               (case authorize_provider_request op now ct of
                  (Inl e, ct) \<Rightarrow> (Inl e, ct)
                | (Inr consumed, ct) \<Rightarrow>
                    (case executor_complete env consumed p r now (ct_world ct) of
                       (z, w) \<Rightarrow> (Inr z, ct\<lparr>ct_world := w\<rparr>)))))"

definition prepend_call :: "provider_result \<Rightarrow> provider_result \<Rightarrow> provider_result" where
  "prepend_call primary z =
     z\<lparr>pz_receipts := last (pz_receipts primary) # pz_receipts z, pz_metrics := last (pz_metrics primary) # pz_metrics z\<rparr>"

definition invoke_provider ::
  "'w call_env \<Rightarrow> 'w provider \<Rightarrow> 'w provider option \<Rightarrow> model_request \<Rightarrow> session \<Rightarrow> timestamp \<Rightarrow> 'w controller
     \<Rightarrow> (runtime_error, provider_result) outcome \<times> 'w controller" where
  "invoke_provider env p fallback r ses now ct =
     (case invoke_provider_once env p r ses now ct of
        (Inl e, ct) \<Rightarrow> (Inl e, ct)
      | (Inr primary, ct) \<Rightarrow>
          (case (fallback, pz_result primary) of
             (Some q, Inl e) \<Rightarrow>
               if is_retryable e then
                 (case invoke_provider_once env q
                    (for_provider (mf_id (pv_manifest q)) (mf_default_model (pv_manifest q)) r) ses now ct of
                    (Inl _, ct) \<Rightarrow> (Inr primary, ct)
                  | (Inr z, ct) \<Rightarrow> (Inr (prepend_call primary z), ct))
               else (Inr primary, ct)
           | _ \<Rightarrow> (Inr primary, ct)))"

section \<open>Every model call is governed\<close>

lemma authorization_payload_ok:
  "authorization_payload_for js m r = Inr payload \<longleftrightarrow> mr_provider_id r = mf_id m \<and> js (canonical_invocation_of m r) = Some payload"
  by (auto simp: authorization_payload_for_def)

lemma with_payload_digest_ok:
  assumes "with_payload_digest sha js r payload = Inr r'"
  shows "payload_digest_matches sha r' payload" "rq_capability r' = rq_capability r" "rq_operation r' = rq_operation r"
    "rq_target r' = rq_target r" "rq_resource_scope r' = rq_resource_scope r" "rq_session_id r' = rq_session_id r"
    "rq_principal_id r' = rq_principal_id r"
  using assms by (auto simp: with_payload_digest_def payload_digest_matches_def Let_def)

lemma new_request_ok:
  assumes "new_request sha js eid sid pid prof gid aid cap oper target scope = Inr r"
  shows "rq_capability r = cap" "rq_operation r = oper" "rq_target r = target" "rq_resource_scope r = scope"
    "rq_session_id r = sid" "rq_principal_id r = pid"
  using assms by (auto simp: new_request_def Let_def)

lemma provider_request_ok:
  assumes "provider_request env m model payload ses eid version = Inr r"
  shows "payload_digest_matches (iv_sha env) r payload" "rq_capability r = ProviderInvoke" "rq_operation r = Invoke"
    "rq_target r = ProviderTarget (mf_id m) (mf_api_key_env m)" "rq_resource_scope r = NoScope"
    "new_secret_reference (mf_api_key_env m) = Inr (mf_api_key_env m)" "rq_session_id r = se_id ses" "rq_principal_id r = se_principal_id ses"
proof -
  have secret: "new_secret_reference v = Inr c \<longleftrightarrow> c = v \<and> \<not> blank v" for v c
    by (auto simp: new_secret_reference_def validate_field_def)
  obtain profile r0 where r: "\<not> blank (mf_api_key_env m)"
    "new_request (iv_sha env) (iv_js env) eid (se_id ses) (se_principal_id ses) profile ''provider.invoke'' None ProviderInvoke Invoke
       (ProviderTarget (mf_id m) (mf_api_key_env m)) NoScope = Inr r0"
    "with_payload_digest (iv_sha env) (iv_js env) r0 payload = Inr r"
    using assms by (auto simp: provider_request_def secret)
  show "payload_digest_matches (iv_sha env) r payload" "rq_capability r = ProviderInvoke" "rq_operation r = Invoke"
    "rq_target r = ProviderTarget (mf_id m) (mf_api_key_env m)" "rq_resource_scope r = NoScope"
    "rq_session_id r = se_id ses" "rq_principal_id r = se_principal_id ses"
    using with_payload_digest_ok [OF r(3)] new_request_ok [OF r(2)] by simp_all
  show "new_secret_reference (mf_api_key_env m) = Inr (mf_api_key_env m)" using r(1) by (simp add: secret)
qed

text \<open>
  A call under its own permit: the gate admitted, under a fresh permit, a request of this session for exactly this
  invocation; the provider was called once on it; and its receipt names that permit.
\<close>

definition governed_call ::
  "'w call_env \<Rightarrow> 'w provider \<Rightarrow> model_request \<Rightarrow> session \<Rightarrow> timestamp \<Rightarrow> 'w controller \<Rightarrow> 'w controller \<Rightarrow> provider_result \<Rightarrow> bool" where
  "governed_call env p r ses now ct ct' z \<longleftrightarrow>
     (\<exists>op c payload.
        executed_step None now ct ct' op c
      \<and> rq_capability op = ProviderInvoke \<and> rq_session_id op = se_id ses \<and> rq_principal_id op = se_principal_id ses
      \<and> rq_target op = ProviderTarget (mf_id (pv_manifest p)) (mf_api_key_env (pv_manifest p))
      \<and> iv_payload env (canonical_invocation_of (pv_manifest p) r) = Some payload \<and> payload_digest_matches (iv_sha env) op payload
      \<and> pz_result z = fst (pv_complete p r (ct_world ct))
      \<and> ct_world ct' = snd (iv_receipt env (snd (pv_complete p r (ct_world ct))))
      \<and> map rc_permit_id (pz_receipts z) = [pm_permit_id (cp_permit c)]
      \<and> map rc_request_digest (pz_receipts z) = [rq_request_digest op])"

lemma executor_matching:
  assumes "request_matches env c (pv_manifest p) r" "executor_complete env c p r now w = (z, w')"
  shows "pz_result z = fst (pv_complete p r w)" "w' = snd (iv_receipt env (snd (pv_complete p r w)))"
    "map rc_permit_id (pz_receipts z) = [pm_permit_id (cp_permit c)]"
    "map rc_request_digest (pz_receipts z) = [pm_request_digest (cp_permit c)]"
  using assms by (auto simp: executor_complete_def Let_def split: prod.splits)

lemma executed_step_world: "executed_step a now ct (ct'\<lparr>ct_world := w\<rparr>) r c = executed_step a now ct ct' r c"
  "executed_step a now (ct\<lparr>ct_next_execution := n\<rparr>) ct' r c = executed_step a now ct ct' r c"
  by (simp_all add: executed_step_def governed_def needs_approval_def enabled_def)

lemma evolves_world: "evolves a (b\<lparr>ct_world := w\<rparr>) = evolves a b" "evolves (a\<lparr>ct_next_execution := n\<rparr>) b = evolves a b"
  by (simp_all add: evolves_def same_rules_def)

lemma authorize_provider_world: "ct_world (snd (authorize_provider_request r now ct)) = ct_world ct"
  by (auto simp: authorize_provider_request_def Let_def split: option.splits parliament_decision.splits prod.splits sum.splits)

lemma provider_admit_eq:
  "snd (provider_admit x r now ct) = snd (authorize_provider_request r now ct)"
  "fst (provider_admit x r now ct) = ok (fst (authorize_provider_request r now ct))"
  by (simp_all add: provider_admit_def split: prod.splits)

lemma invoke_once_ok:
  assumes "invoke_provider_once env p r ses now ct = (Inr z, ct')"
  shows "governed_call env p r ses now ct ct' z" "evolves ct ct'"
proof -
  let ?ct = "ct\<lparr>ct_next_execution := ct_next_execution ct + 1\<rparr>" and ?m = "pv_manifest p"
  obtain payload eid op c ct1 w where
    payload: "authorization_payload_for (iv_payload env) ?m r = Inr payload" and
    op: "provider_request env ?m (mr_model_id r) payload ses eid (pc_policy_version (ct_policy ct)) = Inr op" and
    gate: "authorize_provider_request op now ?ct = (Inr c, ct1)" and
    done': "executor_complete env c p r now (ct_world ct1) = (z, w)" and ct': "ct' = ct1\<lparr>ct_world := w\<rparr>"
    using assms by (auto simp: invoke_provider_once_def Let_def split: sum.splits prod.splits)
  have step: "executed_step None now ct ct1 op c"
    using provider_admit_gate(2) [of "()" op now ?ct c] unfolding provider_admit_eq gate by (simp add: executed_step_world)
  then have c: "cp_request c = op" "pm_request_digest (cp_permit c) = rq_request_digest op" by (simp_all add: executed_step_def)
  have "mr_provider_id r = mf_id ?m" using payload by (simp add: authorization_payload_ok)
  then have "request_matches env c ?m r"
    using provider_request_ok [OF op] c by (simp add: request_matches_def payload)
  note ex = executor_matching [OF this done']
  have world: "ct_world ct1 = ct_world ct" using authorize_provider_world [of op now ?ct] gate by simp
  show "governed_call env p r ses now ct ct' z"
    unfolding governed_call_def
    by (rule exI [of _ op], rule exI [of _ c], rule exI [of _ payload])
       (use step provider_request_ok [OF op] payload ex c(2) world in \<open>simp add: ct' executed_step_world authorization_payload_ok\<close>)
  show "evolves ct ct'"
    using provider_admit_gate(1) [of ?ct "()" op now] unfolding provider_admit_eq gate ct' evolves_world by simp
qed

lemma invoke_once_error:
  assumes "invoke_provider_once env p r ses now ct = (Inl e, ct')"
  shows "ct_world ct' = ct_world ct" "evolves ct ct'"
proof -
  let ?ct = "ct\<lparr>ct_next_execution := ct_next_execution ct + 1\<rparr>"
  have base: "ct_world ?ct = ct_world ct" "evolves ct ?ct" "evolves ct ct"
    by (auto intro!: evolves_authority simp: same_authority_def)
  have gate: "ct_world (snd (authorize_provider_request op now ?ct)) = ct_world ct" "evolves ct (snd (authorize_provider_request op now ?ct))" for op
    using authorize_provider_world [of op now ?ct] provider_admit_gate(1) [of ?ct "()" op now]
    unfolding provider_admit_eq evolves_world by simp_all
  have "ct' = ct \<or> ct' = ?ct \<or> (\<exists>op. ct' = snd (authorize_provider_request op now ?ct))"
    using assms by (auto simp: invoke_provider_once_def Let_def split: sum.splits prod.splits) (metis snd_conv)+
  then show "ct_world ct' = ct_world ct" "evolves ct ct'" using base gate by auto
qed

lemma governed_call_permit:
  assumes "governed_call env p r ses now ct ct' z"
  shows "\<exists>k. map rc_permit_id (pz_receipts z) = [k] \<and> rm_store (ct_monitor ct) k = None \<and> permit_spent (rm_store (ct_monitor ct')) k"
  using assms by (auto simp: governed_call_def executed_step_def)

text \<open>C12: Whatever a model invocation does, each provider is called at most once and only under a permit of its own that the gate
  issued for exactly this invocation, credential and session; the fallback is called only after a retryable failure of
  the primary; there is one receipt per call, with distinct permits; and when an error is returned no provider was called.\<close>

theorem provider_calls_governed:
  "case invoke_provider env p fallback r ses now ct of (out, ct') \<Rightarrow>
     evolves ct ct'
   \<and> (case out of
        Inl e \<Rightarrow> ct_world ct' = ct_world ct
      | Inr z \<Rightarrow>
          (\<exists>ct1 z1. governed_call env p r ses now ct ct1 z1
             \<and> (z = z1 \<and> ct_world ct' = ct_world ct1
                \<or> (\<exists>e q z2. pz_result z1 = Inl e \<and> is_retryable e \<and> fallback = Some q
                     \<and> governed_call env q (for_provider (mf_id (pv_manifest q)) (mf_default_model (pv_manifest q)) r) ses now ct1 ct' z2
                     \<and> pz_result z = pz_result z2 \<and> pz_receipts z = pz_receipts z1 @ pz_receipts z2
                     \<and> distinct (map rc_permit_id (pz_receipts z))))))"
proof -
  obtain out1 ct1 where one: "invoke_provider_once env p r ses now ct = (out1, ct1)" by fastforce
  show ?thesis
  proof (cases out1)
    case (Inl e)
    then show ?thesis using one invoke_once_error [of env p r ses now ct] by (simp add: invoke_provider_def)
  next
    case (Inr z1)
    note g1 = invoke_once_ok [OF one [unfolded Inr]]
    show ?thesis
    proof (cases "\<exists>q e. fallback = Some q \<and> pz_result z1 = Inl e \<and> is_retryable e")
      case False
      then have "invoke_provider env p fallback r ses now ct = (Inr z1, ct1)"
        using one Inr by (auto simp: invoke_provider_def split: option.splits sum.splits)
      then show ?thesis using g1 by auto
    next
      case True
      then obtain q e where q: "fallback = Some q" "pz_result z1 = Inl e" "is_retryable e" by blast
      let ?r = "for_provider (mf_id (pv_manifest q)) (mf_default_model (pv_manifest q)) r"
      obtain out2 ct2 where two: "invoke_provider_once env q ?r ses now ct1 = (out2, ct2)" by fastforce
      show ?thesis
      proof (cases out2)
        case (Inl e2)
        then have "invoke_provider env p fallback r ses now ct = (Inr z1, ct2)" using one Inr q two by (simp add: invoke_provider_def)
        then show ?thesis using g1 invoke_once_error [OF two [unfolded Inl]] evolves_trans by auto
      next
        case (Inr z2)
        note g2 = invoke_once_ok [OF two [unfolded Inr]]
        obtain k1 where k1: "map rc_permit_id (pz_receipts z1) = [k1]" "permit_spent (rm_store (ct_monitor ct1)) k1"
          using governed_call_permit [OF g1(1)] by auto
        obtain k2 where k2: "map rc_permit_id (pz_receipts z2) = [k2]" "rm_store (ct_monitor ct1) k2 = None"
          using governed_call_permit [OF g2(1)] by auto
        note rc = k1(1) k2(1) k1(2) k2(2)
        have "k1 \<noteq> k2" using k1 k2 by (auto simp: permit_spent_def)
        moreover have "pz_receipts z1 = [last (pz_receipts z1)]" using rc(1) by (cases "pz_receipts z1") auto
        moreover have "invoke_provider env p fallback r ses now ct = (Inr (prepend_call z1 z2), ct2)"
          using one \<open>out1 = Inr z1\<close> q two Inr by (simp add: invoke_provider_def)
        moreover have "evolves ct ct2" using g1(2) g2(2) by (rule evolves_trans)
        moreover have "pz_receipts (prepend_call z1 z2) = pz_receipts z1 @ pz_receipts z2" "pz_result (prepend_call z1 z2) = pz_result z2"
          using \<open>pz_receipts z1 = [last (pz_receipts z1)]\<close> by (simp_all add: prepend_call_def)
        moreover have "distinct (map rc_permit_id (pz_receipts z1 @ pz_receipts z2))" using rc calculation(1) by simp
        ultimately show ?thesis using g1(1) g2(1) q by (auto simp del: distinct_map map_append)
      qed
    qed
  qed
qed

text \<open>Two invocations that a permit may not tell apart: the same endpoint, credential and content, with the timeout read in milliseconds.\<close>

definition same_invocation :: "provider_manifest \<Rightarrow> model_request \<Rightarrow> provider_manifest \<Rightarrow> model_request \<Rightarrow> bool" where
  "same_invocation m r m' r' \<longleftrightarrow>
     mf_id m = mf_id m' \<and> mf_protocol m = mf_protocol m' \<and> mf_base_url m = mf_base_url m' \<and> mf_api_key_env m = mf_api_key_env m'
   \<and> mr_provider_id r = mr_provider_id r' \<and> mr_model_id r = mr_model_id r' \<and> mr_messages r = mr_messages r' \<and> mr_tools r = mr_tools r'
   \<and> mr_max_output_tokens r = mr_max_output_tokens r' \<and> mr_timeout r div 10 ^ 6 = mr_timeout r' div 10 ^ 6
   \<and> mr_trace r = mr_trace r' \<and> mr_prompt_cache_ttl r = mr_prompt_cache_ttl r' \<and> mr_reasoning_effort r = mr_reasoning_effort r'"

lemma effort_str_inject [simp]: "effort_str a = effort_str b \<longleftrightarrow> a = b"
  by (cases a; cases b) simp_all

lemma map_effort_inject: "map_option effort_str x = map_option effort_str y \<longleftrightarrow> x = y"
  by (cases x; cases y) auto

lemma canonical_invocation_inject: "canonical_invocation_of m r = canonical_invocation_of m' r' \<longleftrightarrow> same_invocation m r m' r'"
proof -
  have "mr_trace r = mr_trace r' \<longleftrightarrow>
      tm_execution_id (mr_trace r) = tm_execution_id (mr_trace r') \<and> tm_session_id (mr_trace r) = tm_session_id (mr_trace r')"
    by (cases "mr_trace r"; cases "mr_trace r'") simp
  then show ?thesis
    unfolding canonical_invocation_of_def canonical_authorization_request_def same_invocation_def
      canonical_invocation.ext_inject canonical_model_request.ext_inject map_effort_inject simp_thms(6) by satx
qed

lemma payload_digest_matchesD:
  "payload_digest_matches sha r x \<Longrightarrow> rq_payload_digest r = Some (''pandora-payload-v1'' @ '':sha256:'' @ hex_encode (sha x))"
  by (auto simp: payload_digest_matches_def ok_def split: option.splits sum.splits dest: digest_bytes_ok)

text \<open>C13: A permit that admits one invocation admits another only if it goes to the same endpoint with the same credential and says
  the same, up to less than a millisecond of the timeout, given a JSON writer and a hash that do not identify the two.\<close>

theorem permit_binds_invocation:
  assumes "request_matches env c m r" "request_matches env c m' r'"
    and "iv_payload env (canonical_invocation_of m r) = iv_payload env (canonical_invocation_of m' r') \<longrightarrow>
           canonical_invocation_of m r = canonical_invocation_of m' r'"
    and "\<forall>x y. iv_payload env (canonical_invocation_of m r) = Some x \<and> iv_payload env (canonical_invocation_of m' r') = Some y
           \<and> iv_sha env x = iv_sha env y \<longrightarrow> x = y"
  shows "same_invocation m r m' r'"
proof -
  obtain x y where xy: "authorization_payload_for (iv_payload env) m r = Inr x" "payload_digest_matches (iv_sha env) (cp_request c) x"
    "authorization_payload_for (iv_payload env) m' r' = Inr y" "payload_digest_matches (iv_sha env) (cp_request c) y"
    using assms(1,2) by (auto simp: request_matches_def ok_def split: option.splits sum.splits)
  have "iv_sha env x = iv_sha env y"
    using payload_digest_matchesD [OF xy(2)] payload_digest_matchesD [OF xy(4)] by simp
  then have "x = y" using xy(1,3) assms(4) unfolding authorization_payload_ok by blast
  then have "canonical_invocation_of m r = canonical_invocation_of m' r'" using xy(1,3) assms(3) unfolding authorization_payload_ok by simp
  then show ?thesis unfolding canonical_invocation_inject .
qed

definition demo_call_env :: "unit call_env" where
  "demo_call_env = \<lparr>iv_sha = demo_sha, iv_js = demo_json, iv_payload = (\<lambda>ci. Some (ci_base_url ci)), iv_manifest_json = (\<lambda>_. None),
     iv_version = ''1'', iv_assemble = (\<lambda>_ _ _. Inl MissingExecutor), iv_receipt = (\<lambda>w. (''r'', w)), iv_elapsed = (\<lambda>_ _. 0)\<rparr>"

definition demo_call_permit :: consumed_permit where
  "demo_call_permit =
     (let r = (demo_request ''a'')\<lparr>rq_capability := ProviderInvoke, rq_operation := Invoke, rq_resource_scope := NoScope,
        rq_target := ProviderTarget ''p'' ''KEY'',
        rq_payload_digest := Some (''pandora-payload-v1'' @ '':sha256:'' @ hex_encode (demo_sha ''https://p''))\<rparr> in
      \<lparr>cp_permit = issue ''permit'' r 1 1 0 60, cp_request = r, cp_consumed_at = 0\<rparr>)"

theorem permit_binds_invocation_witness:
  "request_matches demo_call_env demo_call_permit demo_manifest demo_question
   \<and> request_matches demo_call_env demo_call_permit demo_manifest (demo_question\<lparr>mr_timeout := 2\<rparr>)
   \<and> same_invocation demo_manifest demo_question demo_manifest (demo_question\<lparr>mr_timeout := 2\<rparr>)"
proof -
  let ?q = "demo_question\<lparr>mr_timeout := 2\<rparr>"
  have "\<not> blank ''KEY''" by (rule not_blank_visible [of "CHR ''K''"]) (simp_all add: visible_def)
  then have key: "new_secret_reference ''KEY'' = Inr ''KEY''" by (simp add: new_secret_reference_def validate_field_def)
  have db: "digest_bytes demo_sha ''pandora-payload-v1'' ''https://p''
      = Inr (''pandora-payload-v1'' @ '':sha256:'' @ hex_encode (demo_sha ''https://p''))"
    by (rule digest_bytes_total [OF length_demo_sha]) (simp_all add: visible_def)
  have m: "request_matches demo_call_env demo_call_permit demo_manifest demo_question"
    "request_matches demo_call_env demo_call_permit demo_manifest ?q"
    using key db
    by (simp_all add: request_matches_def demo_call_env_def demo_call_permit_def demo_manifest_def demo_question_def Let_def
        authorization_payload_for_def canonical_invocation_of_def payload_digest_matches_def)
  have "same_invocation demo_manifest demo_question demo_manifest ?q"
    by (rule permit_binds_invocation [OF m]) (auto simp: demo_question_def demo_call_env_def canonical_invocation_of_def
        canonical_authorization_request_def)
  then show ?thesis using m by blast
qed

text \<open>
  A manifest accepts an at sign in the name of a model, the binding of an execution profile does not: such a model is
  accepted when it is configured, and no invocation of it ever reaches its provider.
\<close>

lemma at_sign_model_refused:
  assumes "CHR ''@'' \<in> set (mr_model_id r)"
  shows "\<exists>e ct'. invoke_provider env p None r ses now ct = (Inl e, ct') \<and> ct_world ct' = ct_world ct"
proof -
  have "\<not> list_all identifier_byte (mr_model_id r)"
    using assms by (auto simp: list_all_iff identifier_byte_def is_ascii_alphanumeric_def is_ascii_digit_def intro!: bexI [of _ "CHR ''@''"])
  then have "new_binding Model (mr_model_id r) v d \<noteq> Inr b" for v d b
    by (auto simp: new_binding_def validate_identifier_def validate_text_def split: if_splits)
  then have "provider_request env m (mr_model_id r) payload ses eid version \<noteq> Inr op" for m payload eid version op
    by (auto simp: provider_request_def provider_profile_bindings_def evidence_binding_def)
  then have "\<exists>e ct'. invoke_provider_once env p r ses now ct = (Inl e, ct')"
    by (auto simp: invoke_provider_once_def Let_def split: sum.splits prod.splits)
  then obtain e ct' where "invoke_provider_once env p r ses now ct = (Inl e, ct')" by blast
  then show ?thesis using invoke_once_error(1) by (fastforce simp: invoke_provider_def)
qed

lemma at_sign_model_accepted: "new_model_id ''m@1'' = Inr ''m@1''"
  by code_simp

end
