(* ===== verification/Context_Engine.thy ===== *)
theory Context_Engine
  imports Memory_Record Execution_Profile Sql_Table
begin

text \<open>
  The context of a model call: the contracts of \<open>pandora-types/src/context.rs\<close> up to the assembly, the selection and the
  cache of \<open>pandora-runtime/src/context_engine.rs\<close>, the fragments of a feature map (\<open>pandora-types/src/feature_map.rs\<close>) and
  \<open>pandora-runtime/src/context_recovery.rs\<close>. SHA-256 is the argument \<open>sha\<close>. The cache file is what a reader makes of it, \<open>None\<close>
  when it is missing, corrupt, too large or of another version; its serialized size and the sizes of the
  structures in memory are parameters.
\<close>

section \<open>Characters\<close>

text \<open>The characters of a UTF-8 text, each with its continuation bytes.\<close>

function utf8_chars :: "string \<Rightarrow> string list" where
  "utf8_chars [] = []"
| "utf8_chars (c # cs) = (c # takeWhile utf8_cont cs) # utf8_chars (dropWhile utf8_cont cs)"
  by pat_completeness auto
termination
  by (relation "measure length") (auto simp: le_imp_less_Suc length_dropWhile_le)

lemma concat_utf8_chars [simp]: "concat (utf8_chars s) = s"
  by (induction s rule: utf8_chars.induct) simp_all

definition checked_sub :: "'a::len word \<Rightarrow> 'a word \<Rightarrow> 'a word option" where
  "checked_sub a b = (if b \<le> a then Some (a - b) else None)"

lemma checked_sub_Some_iff [word_bounds]: "checked_sub a b = Some c \<longleftrightarrow> unat a = unat b + unat c"
  by (auto simp: checked_sub_def word_le_nat_alt unat_sub_if' word_unat_eq_iff)

section \<open>Contracts\<close>

fun class_rank :: "context_classification \<Rightarrow> nat" where
  "class_rank PublicContext = 0"
| "class_rank InternalContext = 1"
| "class_rank SensitiveContext = 2"
| "class_rank SecretContext = 3"

instantiation context_classification :: linorder
begin

definition less_eq_context_classification :: "context_classification \<Rightarrow> context_classification \<Rightarrow> bool" where
  "less_eq_context_classification a b \<longleftrightarrow> class_rank a \<le> class_rank b"

definition less_context_classification :: "context_classification \<Rightarrow> context_classification \<Rightarrow> bool" where
  "less_context_classification a b \<longleftrightarrow> class_rank a < class_rank b"

instance
proof
  fix a b :: context_classification
  assume "a \<le> b" "b \<le> a"
  then show "a = b" by (cases a; cases b) (simp_all add: less_eq_context_classification_def)
qed (auto simp: less_eq_context_classification_def less_context_classification_def)

end

definition cacheable_class :: "context_classification \<Rightarrow> bool" where
  "cacheable_class c \<longleftrightarrow> c \<in> {PublicContext, InternalContext}"

datatype context_source = Constitutional | ActivePlan | L1Evidence | Retrieved | Conversation

fun source_str :: "context_source \<Rightarrow> string" where
  "source_str Constitutional = ''constitutional''"
| "source_str ActivePlan = ''active_plan''"
| "source_str L1Evidence = ''l1_evidence''"
| "source_str Retrieved = ''retrieved''"
| "source_str Conversation = ''conversation''"

datatype context_trust = ConstitutionalTrust | Verified | Admitted | Unverified

fun trust_str :: "context_trust \<Rightarrow> string" where
  "trust_str ConstitutionalTrust = ''constitutional''"
| "trust_str Verified = ''verified''"
| "trust_str Admitted = ''admitted''"
| "trust_str Unverified = ''unverified''"

datatype origin_kind =
  RuntimeOrigin | MemoryOrigin | SkillOrigin | UserSelectionOrigin | ToolOrigin | McpOrigin | PackageOrigin | RepositoryOrigin
| DocumentOrigin | IssueOrigin | DesignOrigin | AgentHandoffOrigin | ExternalOrigin

fun origin_kind_str :: "origin_kind \<Rightarrow> string" where
  "origin_kind_str RuntimeOrigin = ''runtime''"
| "origin_kind_str MemoryOrigin = ''memory''"
| "origin_kind_str SkillOrigin = ''skill''"
| "origin_kind_str UserSelectionOrigin = ''user_selection''"
| "origin_kind_str ToolOrigin = ''tool''"
| "origin_kind_str McpOrigin = ''mcp''"
| "origin_kind_str PackageOrigin = ''package''"
| "origin_kind_str RepositoryOrigin = ''repository''"
| "origin_kind_str DocumentOrigin = ''document''"
| "origin_kind_str IssueOrigin = ''issue''"
| "origin_kind_str DesignOrigin = ''design''"
| "origin_kind_str AgentHandoffOrigin = ''agent_handoff''"
| "origin_kind_str ExternalOrigin = ''external''"

definition is_external :: "origin_kind \<Rightarrow> bool" where
  "is_external k \<longleftrightarrow> k \<notin> {RuntimeOrigin, MemoryOrigin, SkillOrigin}"

definition infer_origin :: "string \<Rightarrow> origin_kind" where
  "infer_origin producer =
     (let p = to_ascii_lowercase producer; has = contains_str p in
      if starts_with p ''pandora-runtime'' then RuntimeOrigin
      else if starts_with p ''pandora-memory'' then MemoryOrigin
      else if starts_with p ''pandora-skill'' then SkillOrigin
      else if has ''user-selection'' \<or> has ''local-selection'' \<or> has ''attachment'' then UserSelectionOrigin
      else if has ''handoff'' then AgentHandoffOrigin
      else if has ''mcp'' then McpOrigin
      else if has ''package'' \<or> has ''gene'' then PackageOrigin
      else if has ''repository'' \<or> has ''repo'' then RepositoryOrigin
      else if has ''document'' \<or> has ''file'' then DocumentOrigin
      else if has ''issue'' then IssueOrigin
      else if has ''design'' then DesignOrigin
      else if has ''tool'' then ToolOrigin
      else ExternalOrigin)"

datatype context_contract_error =
  ContextEmptyField string
| ContextFieldTooLong string
| ContextControlCharacter string

definition context_text :: "string \<Rightarrow> string \<Rightarrow> (context_contract_error, string) outcome" where
  "context_text field value =
     (if trim value = [] then Inl (ContextEmptyField field)
      else if length value > 4096 then Inl (ContextFieldTooLong field)
      else if has_control value then Inl (ContextControlCharacter field)
      else Inr (trim value))"

definition origin_text :: "string \<Rightarrow> string \<Rightarrow> (context_contract_error, string) outcome" where
  "origin_text field value =
     and_then (context_text field value) (\<lambda>v. if length v > 512 then Inl (ContextFieldTooLong field) else Inr v)"

record context_origin =
  og_producer :: "string option"
  og_reference :: "string option"
  og_kind :: origin_kind

definition new_origin_with_kind :: "string \<Rightarrow> string \<Rightarrow> origin_kind \<Rightarrow> (context_contract_error, context_origin) outcome" where
  "new_origin_with_kind producer reference kind =
     and_then (origin_text ''origin producer'' producer) (\<lambda>p.
     and_then (origin_text ''origin reference'' reference) (\<lambda>r.
       Inr \<lparr>og_producer = Some p, og_reference = Some r, og_kind = kind\<rparr>))"

definition new_origin :: "string \<Rightarrow> string \<Rightarrow> (context_contract_error, context_origin) outcome" where
  "new_origin producer reference = new_origin_with_kind producer reference (infer_origin producer)"

definition incomplete_origin :: context_origin where
  "incomplete_origin = \<lparr>og_producer = None, og_reference = None, og_kind = ExternalOrigin\<rparr>"

definition origin_complete :: "context_origin \<Rightarrow> bool" where
  "origin_complete og \<longleftrightarrow> og_producer og \<noteq> None \<and> og_reference og \<noteq> None"

record context_cache_key =
  ck_tenant_id :: tenant_id
  ck_workspace_id :: workspace_id
  ck_session_id :: session_id
  ck_provider :: string
  ck_model :: string
  ck_policy_version :: u32
  ck_projection_version :: u32
  ck_token_budget :: u32
  ck_boundary :: context_classification

record context_request =
  xr_tenant_id :: tenant_id
  xr_workspace_id :: workspace_id
  xr_session_id :: session_id
  xr_provider :: string
  xr_model :: string
  xr_policy_version :: u32
  xr_token_budget :: u32
  xr_now :: timestamp
  xr_boundary :: context_classification

definition CONTEXT_PROJECTION_VERSION :: u32 where "CONTEXT_PROJECTION_VERSION = 2"

definition new_context_request ::
  "tenant_id \<Rightarrow> workspace_id \<Rightarrow> session_id \<Rightarrow> string \<Rightarrow> string \<Rightarrow> u32 \<Rightarrow> u32 \<Rightarrow> timestamp
     \<Rightarrow> (context_contract_error, context_request) outcome" where
  "new_context_request tn ws sid provider model pv budget now =
     and_then (context_text ''provider'' provider) (\<lambda>provider.
     and_then (context_text ''model'' model) (\<lambda>model.
       Inr \<lparr>xr_tenant_id = tn, xr_workspace_id = ws, xr_session_id = sid, xr_provider = provider, xr_model = model,
            xr_policy_version = pv, xr_token_budget = budget, xr_now = now, xr_boundary = InternalContext\<rparr>))"

definition with_classification_boundary :: "context_classification \<Rightarrow> context_request \<Rightarrow> context_request" where
  "with_classification_boundary b r = r\<lparr>xr_boundary := b\<rparr>"

definition cache_key :: "context_request \<Rightarrow> context_cache_key" where
  "cache_key r =
     \<lparr>ck_tenant_id = xr_tenant_id r, ck_workspace_id = xr_workspace_id r, ck_session_id = xr_session_id r,
      ck_provider = xr_provider r, ck_model = xr_model r, ck_policy_version = xr_policy_version r,
      ck_projection_version = CONTEXT_PROJECTION_VERSION, ck_token_budget = xr_token_budget r, ck_boundary = xr_boundary r\<rparr>"

record context_fragment =
  fg_id :: string
  fg_source :: context_source
  fg_trust :: context_trust
  fg_classification :: context_classification
  fg_priority :: u8
  fg_content :: string
  fg_content_digest :: string
  fg_token_cost :: u32
  fg_expires_at :: "timestamp option"
  fg_origin :: context_origin

definition sha256_text :: "(string \<Rightarrow> string) \<Rightarrow> string \<Rightarrow> string" where
  "sha256_text sha v = ''sha256:'' @ hex_encode (sha v)"

definition new_fragment_with_origin ::
  "(string \<Rightarrow> string) \<Rightarrow> string \<Rightarrow> context_source \<Rightarrow> context_trust \<Rightarrow> context_classification \<Rightarrow> u8 \<Rightarrow> string \<Rightarrow> u32
     \<Rightarrow> timestamp option \<Rightarrow> context_origin \<Rightarrow> (context_contract_error, context_fragment) outcome" where
  "new_fragment_with_origin sha i source trust classification priority content tokens expires origin =
     and_then (context_text ''fragment id'' i) (\<lambda>i.
     if CHR 0x00 \<in> set content then Inl (ContextControlCharacter ''content'')
     else Inr \<lparr>fg_id = i, fg_source = source, fg_trust = trust, fg_classification = classification, fg_priority = priority,
               fg_content = content, fg_content_digest = sha256_text sha content, fg_token_cost = tokens,
               fg_expires_at = expires, fg_origin = origin\<rparr>)"

definition new_fragment where
  "new_fragment sha i source trust classification priority content tokens expires =
     new_fragment_with_origin sha i source trust classification priority content tokens expires incomplete_origin"

definition fragment_expired :: "timestamp \<Rightarrow> context_fragment \<Rightarrow> bool" where
  "fragment_expired now fg = (case fg_expires_at fg of Some t \<Rightarrow> t \<le> now | None \<Rightarrow> False)"

record fragment_manifest =
  fm_id :: string
  fm_source :: context_source
  fm_trust :: context_trust
  fm_classification :: context_classification
  fm_priority :: u8
  fm_content_digest :: string
  fm_token_cost :: u32
  fm_expires_at :: "timestamp option"
  fm_origin :: context_origin

definition fragment_manifest_of :: "context_fragment \<Rightarrow> fragment_manifest" where
  "fragment_manifest_of fg =
     \<lparr>fm_id = fg_id fg, fm_source = fg_source fg, fm_trust = fg_trust fg, fm_classification = fg_classification fg,
      fm_priority = fg_priority fg, fm_content_digest = fg_content_digest fg, fm_token_cost = fg_token_cost fg,
      fm_expires_at = fg_expires_at fg, fm_origin = fg_origin fg\<rparr>"

definition optional_digest_text :: "string option \<Rightarrow> string" where
  "optional_digest_text v = (case v of Some v \<Rightarrow> CHR 0x01 # digest_text v | None \<Rightarrow> [CHR 0x00])"

definition fragment_bytes :: "fragment_manifest \<Rightarrow> string" where
  "fragment_bytes m =
     digest_text (fm_id m) @ digest_text (source_str (fm_source m)) @ digest_text (trust_str (fm_trust m))
   @ digest_text (classification_str (fm_classification m)) @ [char_of (unat (fm_priority m))]
   @ digest_text (fm_content_digest m) @ be_bytes 4 (unat (fm_token_cost m))
   @ (case fm_expires_at m of Some t \<Rightarrow> CHR 0x01 # be_bytes 8 (unat t) | None \<Rightarrow> [CHR 0x00])
   @ optional_digest_text (og_producer (fm_origin m)) @ optional_digest_text (og_reference (fm_origin m))"

definition manifest_bytes :: "fragment_manifest list \<Rightarrow> string" where
  "manifest_bytes ms =
     ''pandora-context-manifest'' @ be_bytes 4 (unat CONTEXT_PROJECTION_VERSION)
   @ be_bytes 8 (min (length ms) (2 ^ 64 - 1)) @ concat (map fragment_bytes ms)"

definition digest_manifest :: "(string \<Rightarrow> string) \<Rightarrow> fragment_manifest list \<Rightarrow> string" where
  "digest_manifest sha ms = sha256_text sha (manifest_bytes ms)"

record context_manifest =
  mn_fragments :: "fragment_manifest list"
  mn_digest :: string
  mn_provenance_complete :: bool

definition manifest_from_fragments :: "(string \<Rightarrow> string) \<Rightarrow> context_fragment list \<Rightarrow> context_manifest" where
  "manifest_from_fragments sha fgs =
     (let ms = map fragment_manifest_of fgs in
      \<lparr>mn_fragments = ms, mn_digest = digest_manifest sha ms,
       mn_provenance_complete = list_all (\<lambda>m. origin_complete (fm_origin m)) ms\<rparr>)"

record context_entry =
  en_id :: string
  en_source :: context_source
  en_trust :: context_trust
  en_classification :: context_classification
  en_content :: string
  en_token_cost :: u32
  en_compressed :: bool

datatype cache_disposition = CacheHit | CacheMiss | CacheBypass

record context_receipt =
  cx_included_ids :: "string list"
  cx_dropped_ids :: "string list"
  cx_token_cost :: u32
  cx_cacheable :: bool
  cx_manifest_digest :: "string option"
  cx_projection_version :: u32
  cx_provenance_complete :: bool
  cx_disposition :: cache_disposition

definition receipt_with_evidence ::
  "string list \<Rightarrow> string list \<Rightarrow> u32 \<Rightarrow> bool \<Rightarrow> context_manifest \<Rightarrow> cache_disposition \<Rightarrow> context_receipt" where
  "receipt_with_evidence included dropped cost cacheable m d =
     \<lparr>cx_included_ids = included, cx_dropped_ids = dropped, cx_token_cost = cost, cx_cacheable = cacheable,
      cx_manifest_digest = Some (mn_digest m), cx_projection_version = CONTEXT_PROJECTION_VERSION,
      cx_provenance_complete = mn_provenance_complete m, cx_disposition = d\<rparr>"

record context_assembly =
  cy_entries :: "context_entry list"
  cy_text :: string
  cy_receipt :: context_receipt
  cy_cache_key :: context_cache_key

definition with_disposition :: "cache_disposition \<Rightarrow> context_assembly \<Rightarrow> context_assembly" where
  "with_disposition d a = a\<lparr>cy_receipt := (cy_receipt a)\<lparr>cx_disposition := d\<rparr>\<rparr>"

section \<open>Selection\<close>

datatype context_error = TokenBudgetOverflow | CacheUnavailable

fun source_rank :: "context_source \<Rightarrow> nat" where
  "source_rank Constitutional = 0"
| "source_rank ActivePlan = 1"
| "source_rank L1Evidence = 2"
| "source_rank Retrieved = 3"
| "source_rank Conversation = 4"

definition order_candidates :: "context_fragment list \<Rightarrow> context_fragment list" where
  "order_candidates = sort_key (\<lambda>fg. (source_rank (fg_source fg), - int (unat (fg_priority fg)), fg_id fg))"

definition redact :: "context_fragment \<Rightarrow> string" where
  "redact fg = (if fg_classification fg = SecretContext then ''[redacted]'' else fg_content fg)"

definition ellipsis :: string where
  "ellipsis = [char_of (0xE2 :: nat), char_of (0x80 :: nat), char_of (0xA6 :: nat)]"

definition compress :: "context_fragment \<Rightarrow> u32 \<Rightarrow> string \<times> u32" where
  "compress fg remaining =
     (if remaining = 0 then ([], 0)
      else
        let content = redact fg;
            shortened = concat (take (unat remaining * 4) (utf8_chars content));
            shortened = (if length shortened < length content then shortened @ ellipsis else shortened) in
        if shortened = [] then (shortened, 0) else (shortened, remaining))"

record selection =
  sl_seen :: "string list"
  sl_dropped :: "string list"
  sl_entries :: "context_entry list"
  sl_cost :: u32
  sl_cacheable :: bool

definition drop_fragment :: "context_fragment \<Rightarrow> selection \<Rightarrow> selection" where
  "drop_fragment fg s = s\<lparr>sl_dropped := sl_dropped s @ [fg_id fg]\<rparr>"

definition inadmissible :: "context_request \<Rightarrow> context_fragment \<Rightarrow> bool" where
  "inadmissible r fg \<longleftrightarrow>
     fragment_expired (xr_now r) fg \<or> fg_trust fg = Unverified \<or> fg_classification fg > xr_boundary r"

definition select_step :: "context_request \<Rightarrow> context_fragment \<Rightarrow> selection \<Rightarrow> (context_error, selection) outcome" where
  "select_step r fg s =
     (if inadmissible r fg \<or> fg_id fg \<in> set (sl_seen s) then Inr (drop_fragment fg s)
      else
        let s = s\<lparr>sl_seen := fg_id fg # sl_seen s\<rparr> in
        and_then (ok_or (checked_sub (xr_token_budget r) (sl_cost s)) TokenBudgetOverflow) (\<lambda>remaining.
        if remaining = 0 then Inr (drop_fragment fg s)
        else
          let fits = fg_token_cost fg \<le> remaining;
              (content, tokens) = (if fits then (redact fg, fg_token_cost fg) else compress fg remaining) in
          if \<not> fits \<and> tokens = 0 then Inr (drop_fragment fg s)
          else
            and_then (ok_or (checked_add (sl_cost s) tokens) TokenBudgetOverflow) (\<lambda>used.
              Inr (s\<lparr>sl_cost := used, sl_cacheable := sl_cacheable s \<and> cacheable_class (fg_classification fg),
                     sl_entries := sl_entries s @
                       [\<lparr>en_id = fg_id fg, en_source = fg_source fg, en_trust = fg_trust fg,
                         en_classification = fg_classification fg, en_content = content, en_token_cost = tokens,
                         en_compressed = \<not> fits\<rparr>]\<rparr>))))"

fun select_fragments :: "context_request \<Rightarrow> context_fragment list \<Rightarrow> selection \<Rightarrow> (context_error, selection) outcome" where
  "select_fragments r [] s = Inr s"
| "select_fragments r (fg # fgs) s = and_then (select_step r fg s) (select_fragments r fgs)"

definition static_source :: "context_source \<Rightarrow> bool" where
  "static_source x \<longleftrightarrow> x \<in> {Constitutional, ActivePlan}"

definition cache_candidate :: "(string \<Rightarrow> string) \<Rightarrow> context_fragment list \<Rightarrow> bool" where
  "cache_candidate sha cands \<longleftrightarrow>
     list_all (\<lambda>fg. cacheable_class (fg_classification fg) \<and> static_source (fg_source fg)) cands
   \<and> mn_provenance_complete (manifest_from_fragments sha cands)"

text \<open>The projection of ordered candidates, which a cache may stand for.\<close>

definition project :: "(string \<Rightarrow> string) \<Rightarrow> context_request \<Rightarrow> context_fragment list \<Rightarrow> (context_error, context_assembly) outcome" where
  "project sha r cands =
     and_then (select_fragments r cands
       \<lparr>sl_seen = [], sl_dropped = [], sl_entries = [], sl_cost = 0, sl_cacheable = cache_candidate sha cands\<rparr>) (\<lambda>s.
       Inr \<lparr>cy_entries = sl_entries s, cy_text = join_with [CHR 0x0A] (map en_content (sl_entries s)),
            cy_receipt = receipt_with_evidence (map en_id (sl_entries s)) (sl_dropped s) (sl_cost s) (sl_cacheable s)
              (manifest_from_fragments sha cands) (if cache_candidate sha cands then CacheMiss else CacheBypass),
            cy_cache_key = cache_key r\<rparr>)"

section \<open>The cache\<close>

record cache_entry =
  ch_key :: context_cache_key
  ch_manifest_digest :: string
  ch_assembled_at :: timestamp
  ch_valid_until :: "timestamp option"
  ch_assembly :: context_assembly

record cache_file =
  cl_version :: u32
  cl_entries :: "cache_entry list"

record context_engine =
  ce_entries :: "cache_entry list"
  ce_hits :: u64
  ce_misses :: u64
  ce_persistent :: bool
  ce_file :: "cache_file option"

record cache_env =
  ze_sha :: "string \<Rightarrow> string"
  ze_file_bytes :: "cache_file \<Rightarrow> nat option"
  ze_assembly_size :: nat
  ze_cache_entry_size :: nat
  ze_entry_size :: nat
  ze_string_size :: nat

definition MAX_CONTEXT_CACHE_ENTRIES :: nat where "MAX_CONTEXT_CACHE_ENTRIES = 64"
definition MAX_CONTEXT_CACHE_ENTRY_BYTES :: nat where "MAX_CONTEXT_CACHE_ENTRY_BYTES = 65536"
definition MAX_CONTEXT_CACHE_FILE_BYTES :: nat where "MAX_CONTEXT_CACHE_FILE_BYTES = 4194304"
definition CONTEXT_CACHE_FILE_VERSION :: u32 where "CONTEXT_CACHE_FILE_VERSION = 1"

definition new_engine :: context_engine where
  "new_engine = \<lparr>ce_entries = [], ce_hits = 0, ce_misses = 0, ce_persistent = False, ce_file = None\<rparr>"

definition engine_with_file :: "cache_file option \<Rightarrow> context_engine" where
  "engine_with_file file = new_engine\<lparr>ce_persistent := True, ce_file := file\<rparr>"

text \<open>\<open>unusable\<close>: the path is a directory, or its parent cannot be made.\<close>

definition open_engine :: "bool \<Rightarrow> cache_file option \<Rightarrow> (context_error, context_engine) outcome" where
  "open_engine unusable file = (if unusable then Inl CacheUnavailable else Inr (engine_with_file file))"

text \<open>The sum saturates in the code, far above the bound it is compared with.\<close>

definition cached_assembly_bytes :: "cache_env \<Rightarrow> context_assembly \<Rightarrow> nat" where
  "cached_assembly_bytes env a =
     ze_assembly_size env + ze_cache_entry_size env + length (cy_text a)
   + sum_list (map (\<lambda>e. ze_entry_size env + length (en_id e) + length (en_content e)) (cy_entries a))
   + sum_list (map (\<lambda>i. ze_string_size env + length i) (cx_included_ids (cy_receipt a) @ cx_dropped_ids (cy_receipt a)))
   + (case cx_manifest_digest (cy_receipt a) of Some d \<Rightarrow> 2 * length d | None \<Rightarrow> 0)
   + 2 * (let k = cy_cache_key a in
          length (ck_tenant_id k) + length (ck_workspace_id k) + length (ck_session_id k) + length (ck_provider k)
          + length (ck_model k))"

definition cache_safe :: "context_assembly \<Rightarrow> bool" where
  "cache_safe a \<longleftrightarrow>
     cx_cacheable (cy_receipt a) \<and> cx_provenance_complete (cy_receipt a)
   \<and> list_all (\<lambda>e. cacheable_class (en_classification e) \<and> static_source (en_source e)) (cy_entries a)"

definition valid_at :: "timestamp \<Rightarrow> cache_entry \<Rightarrow> bool" where
  "valid_at now e \<longleftrightarrow> ch_assembled_at e \<le> now \<and> (case ch_valid_until e of Some t \<Rightarrow> now < t | None \<Rightarrow> True)"

definition load_cache :: "cache_env \<Rightarrow> cache_file option \<Rightarrow> cache_file option" where
  "load_cache env file =
     (case file of
        None \<Rightarrow> None
      | Some c \<Rightarrow>
          if (case ze_file_bytes env c of Some n \<Rightarrow> n > MAX_CONTEXT_CACHE_FILE_BYTES | None \<Rightarrow> True)
             \<or> cl_version c \<noteq> CONTEXT_CACHE_FILE_VERSION \<or> length (cl_entries c) > MAX_CONTEXT_CACHE_ENTRIES
          then None else Some c)"

definition cache_get ::
  "cache_env \<Rightarrow> cache_file option \<Rightarrow> context_cache_key \<Rightarrow> string \<Rightarrow> timestamp \<Rightarrow> context_assembly option" where
  "cache_get env file key digest now =
     (case load_cache env file of
        None \<Rightarrow> None
      | Some c \<Rightarrow>
          (case find (\<lambda>e. ch_key e = key \<and> ch_manifest_digest e = digest \<and> valid_at now e) (cl_entries c) of
             None \<Rightarrow> None
           | Some e \<Rightarrow>
               if cy_cache_key (ch_assembly e) \<noteq> key \<or> \<not> cache_safe (ch_assembly e) then None
               else Some (with_disposition CacheHit (ch_assembly e))))"

definition cache_put :: "cache_env \<Rightarrow> bool \<Rightarrow> bool \<Rightarrow> cache_entry \<Rightarrow> cache_file option \<Rightarrow> cache_file option" where
  "cache_put env read_fails write_fails e file =
     (if \<not> cache_safe (ch_assembly e) \<or> cached_assembly_bytes env (ch_assembly e) > MAX_CONTEXT_CACHE_ENTRY_BYTES then file
      else
        let c = (case if read_fails then None else load_cache env file of
                   Some c \<Rightarrow> c
                 | None \<Rightarrow> \<lparr>cl_version = CONTEXT_CACHE_FILE_VERSION, cl_entries = []\<rparr>);
            es = filter (\<lambda>x. ch_key x \<noteq> ch_key e) (cl_entries c) @ [e];
            es = (if length es > MAX_CONTEXT_CACHE_ENTRIES then tl es else es);
            c = \<lparr>cl_version = CONTEXT_CACHE_FILE_VERSION, cl_entries = es\<rparr> in
        case ze_file_bytes env c of
          None \<Rightarrow> file
        | Some n \<Rightarrow> if n > MAX_CONTEXT_CACHE_FILE_BYTES \<or> write_fails then file else Some c)"

definition earliest_expiry :: "timestamp \<Rightarrow> context_fragment list \<Rightarrow> timestamp option" where
  "earliest_expiry now cands =
     (let ts = filter (\<lambda>t. now < t) (List.map_filter fg_expires_at cands) in if ts = [] then None else Some (Min (set ts)))"

definition entry_for :: "(string \<Rightarrow> string) \<Rightarrow> context_request \<Rightarrow> context_fragment list \<Rightarrow> context_assembly \<Rightarrow> cache_entry" where
  "entry_for sha r cands a =
     \<lparr>ch_key = cache_key r, ch_manifest_digest = mn_digest (manifest_from_fragments sha cands), ch_assembled_at = xr_now r,
      ch_valid_until = earliest_expiry (xr_now r) cands, ch_assembly = a\<rparr>"

text \<open>
  The two lookups. \<open>f 0\<close>, \<open>f 2\<close>, \<open>f 3\<close> and \<open>f 6\<close> are poisoned locks, \<open>f 1\<close> and \<open>f 4\<close> reads of the file that fail, \<open>f 5\<close>
  a failed write; the code goes on without the cache in each case.
\<close>

definition memory_lookup ::
  "faults \<Rightarrow> context_request \<Rightarrow> string \<Rightarrow> context_engine \<Rightarrow> context_assembly option \<times> context_engine" where
  "memory_lookup f r digest en =
     (if f 0 then (None, en)
      else case find (\<lambda>e. ch_key e = cache_key r \<and> ch_manifest_digest e = digest) (ce_entries en) of
        None \<Rightarrow> (None, en)
      | Some e \<Rightarrow>
          if valid_at (xr_now r) e
          then (Some (with_disposition CacheHit (ch_assembly e)), en\<lparr>ce_hits := saturating_add (ce_hits en) 1\<rparr>)
          else (None, en\<lparr>ce_entries := remove1 e (ce_entries en)\<rparr>))"

definition file_lookup ::
  "cache_env \<Rightarrow> faults \<Rightarrow> context_request \<Rightarrow> context_fragment list \<Rightarrow> context_engine \<Rightarrow> context_assembly option \<times> context_engine" where
  "file_lookup env f r cands en =
     (case if ce_persistent en \<and> \<not> f 1
           then cache_get env (ce_file en) (cache_key r) (mn_digest (manifest_from_fragments (ze_sha env) cands)) (xr_now r)
           else None of
        None \<Rightarrow> (None, en)
      | Some a \<Rightarrow>
          (Some a,
           if f 2 then en
           else
             let es = ce_entries en @ [entry_for (ze_sha env) r cands a] in
             en\<lparr>ce_hits := saturating_add (ce_hits en) 1,
                ce_entries := (if length es > MAX_CONTEXT_CACHE_ENTRIES then tl es else es)\<rparr>))"

definition store_assembly ::
  "cache_env \<Rightarrow> faults \<Rightarrow> cache_entry \<Rightarrow> context_engine \<Rightarrow> context_engine" where
  "store_assembly env f e en =
     (if cache_safe (ch_assembly e) \<and> cached_assembly_bytes env (ch_assembly e) \<le> MAX_CONTEXT_CACHE_ENTRY_BYTES then
        let en = (if ce_persistent en then en\<lparr>ce_file := cache_put env (f 4) (f 5) e (ce_file en)\<rparr> else en) in
        if f 6 then en
        else en\<lparr>ce_entries :=
          (if length (ce_entries en) \<ge> MAX_CONTEXT_CACHE_ENTRIES then tl (ce_entries en) else ce_entries en) @ [e]\<rparr>
      else en)"

definition assemble ::
  "cache_env \<Rightarrow> faults \<Rightarrow> context_request \<Rightarrow> context_fragment list \<Rightarrow> context_engine
     \<Rightarrow> (context_error, context_assembly) outcome \<times> context_engine" where
  "assemble env f r fragments en =
     (let cands = order_candidates fragments in
      if \<not> cache_candidate (ze_sha env) cands then (project (ze_sha env) r cands, en)
      else
        case memory_lookup f r (mn_digest (manifest_from_fragments (ze_sha env) cands)) en of
          (Some a, en) \<Rightarrow> (Inr a, en)
        | (None, en) \<Rightarrow>
            (case file_lookup env f r cands en of
               (Some a, en) \<Rightarrow> (Inr a, en)
             | (None, en) \<Rightarrow>
                 let en = (if f 3 then en else en\<lparr>ce_misses := saturating_add (ce_misses en) 1\<rparr>) in
                 case project (ze_sha env) r cands of
                   Inl e \<Rightarrow> (Inl e, en)
                 | Inr a \<Rightarrow> (Inr a, store_assembly env f (entry_for (ze_sha env) r cands a) en)))"

definition cache_stats :: "bool \<Rightarrow> context_engine \<Rightarrow> u64 \<times> u64 \<times> nat" where
  "cache_stats poisoned en = (if poisoned then (0, 0, 0) else (ce_hits en, ce_misses en, length (ce_entries en)))"

section \<open>Feature maps and recovery\<close>

record feature_entry =
  fe_name :: string
  fe_entry_point :: string
  fe_description :: string
  fe_invariants :: "string list"
  fe_dependencies :: "string list"

record feature_map =
  fp_version :: u32
  fp_features :: "feature_entry list"

definition validate_feature_map :: "feature_map \<Rightarrow> (string, unit) outcome" where
  "validate_feature_map m =
     (if fp_version m = 0 then Inl ''feature map version must be greater than zero''
      else if fp_features m = [] then Inl ''feature map must contain at least one feature''
      else try_all (\<lambda>e.
        if blank (fe_name e) then Inl ''feature name cannot be empty''
        else if blank (fe_entry_point e) then Inl ''feature entry point cannot be empty'' else Inr ()) (fp_features m))"

definition feature_content :: "feature_entry \<Rightarrow> string" where
  "feature_content e =
     ''Subsystem '' @ [CHR 0x27] @ fe_name e @ [CHR 0x27] @ '' ['' @ fe_entry_point e @ '']: '' @ fe_description e
   @ [CHR 0x0A] @ ''Invariants:'' @ [CHR 0x0A] @ join_with [CHR 0x0A] (map (\<lambda>x. ''- '' @ x) (fe_invariants e))"

definition feature_priority :: "nat \<Rightarrow> u8" where
  "feature_priority i = word_of_nat (80 - i mod 256)"

text \<open>\<open>lower\<close> is \<open>str::to_lowercase\<close>, with Unicode's tables.\<close>

definition feature_matches :: "(string \<Rightarrow> string) \<Rightarrow> string \<Rightarrow> feature_entry \<Rightarrow> bool" where
  "feature_matches lower prompt e \<longleftrightarrow>
     contains_str (lower prompt) (lower (fe_name e)) \<or> list_ex (\<lambda>d. contains_str (lower prompt) (lower d)) (fe_dependencies e)"

definition feature_fragment :: "(string \<Rightarrow> string) \<Rightarrow> (string \<Rightarrow> string) \<Rightarrow> string \<Rightarrow> nat \<Rightarrow> feature_entry \<Rightarrow> context_fragment list" where
  "feature_fragment sha lower prompt i e =
     (if feature_matches lower prompt e then
        (case new_fragment sha (''feature-'' @ lower (fe_name e)) ActivePlan Verified InternalContext (feature_priority i)
                (feature_content e) 50 None of
           Inl _ \<Rightarrow> []
         | Inr fg \<Rightarrow> [fg])
      else [])"

definition fragments_from_feature_map ::
  "(string \<Rightarrow> string) \<Rightarrow> (string \<Rightarrow> string) \<Rightarrow> feature_map \<Rightarrow> string \<Rightarrow> context_fragment list" where
  "fragments_from_feature_map sha lower m prompt =
     concat (map (\<lambda>(i, e). feature_fragment sha lower prompt i e) (enumerate 0 (fp_features m)))"

datatype recovery_step = PruneLowValue | RestoreCore | RebuildFromL1 | RetrieveFreshEvidence | ReduceScope | PauseRecovery

record recovery_input =
  ri_has_verified_l1 :: bool
  ri_has_fresh_evidence :: bool
  ri_fresh_evidence_is_trusted :: bool
  ri_can_reduce_scope :: bool

definition plan_recovery :: "recovery_input \<Rightarrow> recovery_step list \<times> bool" where
  "plan_recovery x =
     (let steps = [PruneLowValue, RestoreCore, RebuildFromL1] in
      if ri_has_verified_l1 x then (steps, False)
      else
        let steps = steps @ [RetrieveFreshEvidence] in
        if ri_has_fresh_evidence x \<and> ri_fresh_evidence_is_trusted x then (steps, False)
        else
          let steps = steps @ [ReduceScope] in
          if ri_can_reduce_scope x then (steps, False) else (steps @ [PauseRecovery], True))"

section \<open>What is selected\<close>

text \<open>What may be shown of a fragment, which fragments may be shown, and in which order; stated apart from the code's own tests.\<close>

definition presentable :: "context_fragment \<Rightarrow> string" where
  "presentable fg = (case fg_classification fg of SecretContext \<Rightarrow> ''[redacted]'' | _ \<Rightarrow> fg_content fg)"

definition admissible :: "context_request \<Rightarrow> context_fragment \<Rightarrow> bool" where
  "admissible r fg \<longleftrightarrow>
     (case fg_expires_at fg of Some t \<Rightarrow> xr_now r < t | None \<Rightarrow> True)
   \<and> fg_trust fg \<in> {ConstitutionalTrust, Verified, Admitted} \<and> class_rank (fg_classification fg) \<le> class_rank (xr_boundary r)"

fun precedes :: "context_source \<Rightarrow> context_source list" where
  "precedes Constitutional = []"
| "precedes ActivePlan = [Constitutional]"
| "precedes L1Evidence = [Constitutional, ActivePlan]"
| "precedes Retrieved = [Constitutional, ActivePlan, L1Evidence]"
| "precedes Conversation = [Constitutional, ActivePlan, L1Evidence, Retrieved]"

lemma redact_presentable: "redact fg = presentable fg"
  by (simp add: redact_def presentable_def split: context_classification.split)

lemma admissible_iff: "admissible r fg \<longleftrightarrow> \<not> inadmissible r fg"
  by (cases "fg_trust fg")
     (auto simp: admissible_def inadmissible_def fragment_expired_def less_context_classification_def not_le not_less split: option.splits)

lemma rank_precedes: "source_rank a \<le> source_rank b \<Longrightarrow> a = b \<or> a \<in> set (precedes b)"
  by (cases a; cases b) simp_all

text \<open>An entry stands for a fragment: its presentable text, or an opening part of it that took what was left of the budget.\<close>

definition entry_of :: "context_fragment \<Rightarrow> context_entry \<Rightarrow> bool" where
  "entry_of fg e \<longleftrightarrow>
     en_id e = fg_id fg \<and> en_source e = fg_source fg \<and> en_trust e = fg_trust fg \<and> en_classification e = fg_classification fg
   \<and> (if en_compressed e
      then en_token_cost e < fg_token_cost fg
         \<and> (\<exists>n. en_content e = concat (take n (utf8_chars (presentable fg))) \<or> en_content e = concat (take n (utf8_chars (presentable fg))) @ ellipsis)
      else en_content e = presentable fg \<and> en_token_cost e = fg_token_cost fg)"

definition selection_inv :: "context_request \<Rightarrow> context_fragment list \<Rightarrow> selection \<Rightarrow> bool" where
  "selection_inv r done' s \<longleftrightarrow>
     mset (map en_id (sl_entries s)) + mset (sl_dropped s) = mset (map fg_id done')
   \<and> distinct (map en_id (sl_entries s)) \<and> en_id ` set (sl_entries s) \<subseteq> set (sl_seen s)
   \<and> sum_list (map (unat \<circ> en_token_cost) (sl_entries s)) = unat (sl_cost s) \<and> sl_cost s \<le> xr_token_budget r
   \<and> (\<forall>e \<in> set (sl_entries s). \<exists>fg \<in> set done'. \<not> inadmissible r fg \<and> entry_of fg e)"

definition selected_entry :: "context_request \<Rightarrow> context_fragment \<Rightarrow> selection \<Rightarrow> context_entry \<Rightarrow> bool" where
  "selected_entry r fg s e \<longleftrightarrow>
     \<not> inadmissible r fg \<and> fg_id fg \<notin> set (sl_seen s) \<and> entry_of fg e
   \<and> unat (sl_cost s) + unat (en_token_cost e) \<le> unat (xr_token_budget r)"

lemma compress_entry:
  assumes "compress fg remaining = (content, tokens)" "tokens \<noteq> 0"
  shows "tokens = remaining"
    "\<exists>n. content = concat (take n (utf8_chars (presentable fg))) \<or> content = concat (take n (utf8_chars (presentable fg))) @ ellipsis"
  using assms by (auto simp: redact_presentable compress_def Let_def split: if_splits)

lemma select_step_cases:
  assumes "sl_cost s \<le> xr_token_budget r"
  obtains (dropped) t where "select_step r fg s = Inr (drop_fragment fg t)" "t = s \<or> t = s\<lparr>sl_seen := fg_id fg # sl_seen s\<rparr>"
  | (taken) e used c where "selected_entry r fg s e" "unat used = unat (sl_cost s) + unat (en_token_cost e)"
      "select_step r fg s = Inr (s\<lparr>sl_seen := fg_id fg # sl_seen s, sl_cost := used, sl_cacheable := c, sl_entries := sl_entries s @ [e]\<rparr>)"
proof (cases "inadmissible r fg \<or> fg_id fg \<in> set (sl_seen s)")
  case True
  then show ?thesis using dropped [of s] by (auto simp: select_step_def)
next
  case new: False
  let ?s = "s\<lparr>sl_seen := fg_id fg # sl_seen s\<rparr>" and ?left = "xr_token_budget r - sl_cost s"
  have left: "checked_sub (xr_token_budget r) (sl_cost s) = Some ?left" using assms by (simp add: checked_sub_def)
  have room: "unat (xr_token_budget r) = unat (sl_cost s) + unat ?left" using left by (simp add: word_bounds)
  obtain content tokens where choice:
    "(if fg_token_cost fg \<le> ?left then (redact fg, fg_token_cost fg) else compress fg ?left) = (content, tokens)" by fastforce
  show ?thesis
  proof (cases "?left = 0 \<or> (\<not> fg_token_cost fg \<le> ?left \<and> tokens = 0)")
    case True
    then show ?thesis using new left choice dropped [of ?s] by (auto simp: select_step_def Let_def)
  next
    case False
    let ?e = "\<lparr>en_id = fg_id fg, en_source = fg_source fg, en_trust = fg_trust fg, en_classification = fg_classification fg,
      en_content = content, en_token_cost = tokens, en_compressed = \<not> fg_token_cost fg \<le> ?left\<rparr>"
    have fits: "tokens \<le> ?left" and entry: "entry_of fg ?e"
      using choice False compress_entry [of fg ?left content tokens] by (auto simp: entry_of_def redact_presentable split: if_splits)
    have sum: "unat (sl_cost s) + unat tokens \<le> unat (xr_token_budget r)" using fits room by (simp add: word_le_nat_alt)
    then have "unat (sl_cost s) + unat tokens < 2 ^ 32" using unat_less_2p [of "xr_token_budget r"] by simp
    then obtain used where used: "checked_add (sl_cost s) tokens = Some used" by (simp add: checked_add_def)
    then have "unat used = unat (sl_cost s) + unat tokens" by (simp add: word_bounds)
    then show ?thesis using new left choice False used sum entry taken [of ?e used]
      by (auto simp: select_step_def Let_def selected_entry_def)
  qed
qed

lemma drop_fragment_inv: "selection_inv r xs s \<Longrightarrow> selection_inv r (xs @ [fg]) (drop_fragment fg s)"
  by (auto simp: selection_inv_def drop_fragment_def)

lemma seen_inv: "selection_inv r xs s \<Longrightarrow> selection_inv r xs (s\<lparr>sl_seen := i # sl_seen s\<rparr>)"
  by (auto simp: selection_inv_def)

lemma take_entry_inv:
  assumes "selection_inv r xs s" "selected_entry r fg s e" "unat used = unat (sl_cost s) + unat (en_token_cost e)"
  shows "selection_inv r (xs @ [fg])
    (s\<lparr>sl_seen := fg_id fg # sl_seen s, sl_cost := used, sl_cacheable := c, sl_entries := sl_entries s @ [e]\<rparr>)"
  using assms by (auto simp: selection_inv_def selected_entry_def entry_of_def word_le_nat_alt)

lemma select_fragments_inv:
  assumes "selection_inv r xs s"
  shows "\<exists>s'. select_fragments r fgs s = Inr s' \<and> selection_inv r (xs @ fgs) s'"
  using assms
proof (induction fgs arbitrary: xs s)
  case (Cons fg fgs)
  have "sl_cost s \<le> xr_token_budget r" using Cons.prems by (simp add: selection_inv_def)
  then obtain s1 where "select_step r fg s = Inr s1" "selection_inv r (xs @ [fg]) s1"
    by (cases rule: select_step_cases [of s r fg]) (use Cons.prems in \<open>auto intro!: drop_fragment_inv seen_inv take_entry_inv\<close>)
  then show ?case using Cons.IH [of "xs @ [fg]" s1] by simp
qed simp

lemma select_fragments_sorted:
  assumes "selection_inv r xs s" "select_fragments r fgs s = Inr s'"
    and "sorted (map (source_rank \<circ> en_source) (sl_entries s) @ map (source_rank \<circ> fg_source) fgs)"
  shows "sorted (map (source_rank \<circ> en_source) (sl_entries s'))"
  using assms
proof (induction fgs arbitrary: xs s)
  case (Cons fg fgs)
  have "sl_cost s \<le> xr_token_budget r" using Cons.prems by (simp add: selection_inv_def)
  then show ?case
  proof (cases rule: select_step_cases [of s r fg])
    case (dropped t)
    then have "selection_inv r (xs @ [fg]) (drop_fragment fg t)" using Cons.prems(1) by (auto intro!: drop_fragment_inv seen_inv)
    moreover have "sl_entries (drop_fragment fg t) = sl_entries s" using dropped(2) by (auto simp: drop_fragment_def)
    ultimately show ?thesis using Cons.IH [of "xs @ [fg]" "drop_fragment fg t"] Cons.prems dropped by (simp add: sorted_append)
  next
    case (taken e used c)
    let ?s = "s\<lparr>sl_seen := fg_id fg # sl_seen s, sl_cost := used, sl_cacheable := c, sl_entries := sl_entries s @ [e]\<rparr>"
    have "en_source e = fg_source fg" using taken by (simp add: selected_entry_def entry_of_def)
    then show ?thesis using Cons.IH [of "xs @ [fg]" ?s] Cons.prems taken take_entry_inv [OF Cons.prems(1) taken(1,2), of c] by simp
  qed
qed simp

lemma sorted_order_candidates: "sorted (map (source_rank \<circ> fg_source) (order_candidates fgs))"
proof -
  let ?k = "\<lambda>fg. (source_rank (fg_source fg), - int (unat (fg_priority fg)), fg_id fg)"
  have "sorted (map ?k (order_candidates fgs))" by (simp add: order_candidates_def)
  then show ?thesis unfolding sorted_map by (rule sorted_wrt_mono_rel [rotated]) (auto simp: less_eq_prod_def less_prod_def)
qed

definition selection_sound :: "context_request \<Rightarrow> context_fragment list \<Rightarrow> context_assembly \<Rightarrow> bool" where
  "selection_sound r fragments a \<longleftrightarrow>
     (let es = cy_entries a; rc = cy_receipt a in
      cx_included_ids rc = map en_id es \<and> distinct (map en_id es)
    \<and> mset (cx_included_ids rc) + mset (cx_dropped_ids rc) = mset (map fg_id fragments)
    \<and> sum_list (map (unat \<circ> en_token_cost) es) = unat (cx_token_cost rc) \<and> cx_token_cost rc \<le> xr_token_budget r
    \<and> sorted_wrt (\<lambda>e e'. en_source e = en_source e' \<or> en_source e \<in> set (precedes (en_source e'))) es
    \<and> (\<forall>e \<in> set es. \<exists>fg \<in> set fragments. admissible r fg \<and> entry_of fg e)
    \<and> cy_text a = join_with [CHR 0x0A] (map en_content es))"

lemma project_sound:
  "\<exists>a. project sha r (order_candidates fragments) = Inr a \<and> cy_cache_key a = cache_key r \<and> selection_sound r fragments a"
proof -
  let ?s = "\<lparr>sl_seen = [], sl_dropped = [], sl_entries = [], sl_cost = 0, sl_cacheable = cache_candidate sha (order_candidates fragments)\<rparr>"
  have start: "selection_inv r [] ?s" by (simp add: selection_inv_def)
  obtain s where s: "select_fragments r (order_candidates fragments) ?s = Inr s" "selection_inv r (order_candidates fragments) s"
    using select_fragments_inv [OF start] by auto
  have "sorted (map (source_rank \<circ> en_source) (sl_entries s))"
    using select_fragments_sorted [OF start s(1)] sorted_order_candidates by simp
  then have "sorted_wrt (\<lambda>e e'. en_source e = en_source e' \<or> en_source e \<in> set (precedes (en_source e'))) (sl_entries s)"
    unfolding sorted_map by (rule sorted_wrt_mono_rel [rotated]) (auto dest: rank_precedes)
  moreover have "set (order_candidates fragments) = set fragments" "mset (order_candidates fragments) = mset fragments"
    by (simp_all add: order_candidates_def)
  moreover from this(2) have "mset (map fg_id (order_candidates fragments)) = mset (map fg_id fragments)" by simp
  ultimately show ?thesis using s
    by (simp add: project_def selection_inv_def selection_sound_def admissible_iff receipt_with_evidence_def Let_def del: mset_map)
qed

section \<open>The cache is exact\<close>

text \<open>Fragments that differ in the kind of their origin only, which neither the manifest nor the projection reads.\<close>

definition same_fragment :: "context_fragment \<Rightarrow> context_fragment \<Rightarrow> bool" where
  "same_fragment x y \<longleftrightarrow>
     (let plain = \<lambda>fg. fg\<lparr>fg_origin := (fg_origin fg)\<lparr>og_kind := ExternalOrigin\<rparr>\<rparr> in plain x = plain y)"

lemma same_fragment_iff:
  "same_fragment x y \<longleftrightarrow>
     fg_id x = fg_id y \<and> fg_source x = fg_source y \<and> fg_trust x = fg_trust y \<and> fg_classification x = fg_classification y
   \<and> fg_priority x = fg_priority y \<and> fg_content x = fg_content y \<and> fg_content_digest x = fg_content_digest y
   \<and> fg_token_cost x = fg_token_cost y \<and> fg_expires_at x = fg_expires_at y
   \<and> og_producer (fg_origin x) = og_producer (fg_origin y) \<and> og_reference (fg_origin x) = og_reference (fg_origin y)"
  by (cases x; cases y; cases "fg_origin x"; cases "fg_origin y") (auto simp: same_fragment_def)

lemma source_str_inject [simp]: "source_str a = source_str b \<longleftrightarrow> a = b"
  by (cases a; cases b) simp_all

lemma trust_str_inject [simp]: "trust_str a = trust_str b \<longleftrightarrow> a = b"
  by (cases a; cases b) simp_all

lemma classification_str_inject [simp]: "classification_str a = classification_str b \<longleftrightarrow> a = b"
  by (cases a; cases b) simp_all

lemma strs_fit: "fits64 (source_str a) \<and> fits64 (trust_str b) \<and> fits64 (classification_str c)"
  by (cases a; cases b; cases c) (simp_all add: fits64_def)

definition origin_fits :: "context_origin \<Rightarrow> bool" where
  "origin_fits og \<longleftrightarrow> (\<forall>t. og_producer og = Some t \<or> og_reference og = Some t \<longrightarrow> fits64 t)"

text \<open>What the constructor guarantees, and that lengths are lengths of a machine.\<close>

definition fragment_wf :: "(string \<Rightarrow> string) \<Rightarrow> context_fragment \<Rightarrow> bool" where
  "fragment_wf sha fg \<longleftrightarrow>
     fg_content_digest fg = sha256_text sha (fg_content fg) \<and> fits64 (fg_id fg) \<and> fits64 (fg_content_digest fg) \<and> origin_fits (fg_origin fg)"

lemma be_bytes_append_eq:
  assumes "m < 256 ^ k" "n < 256 ^ k"
  shows "be_bytes k m @ x = be_bytes k n @ y \<longleftrightarrow> m = n \<and> x = y"
  using assms be_bytes_inject [of m k n] by (auto simp: append_eq_append_conv)

lemma word_bytes_append_eq:
  fixes c d :: u32 and e g :: u64
  shows "be_bytes 4 (unat c) @ x = be_bytes 4 (unat d) @ y \<longleftrightarrow> c = d \<and> x = y"
    "be_bytes 8 (unat e) @ x = be_bytes 8 (unat g) @ y \<longleftrightarrow> e = g \<and> x = y"
  using unat_less_2p [of c] unat_less_2p [of d] unat_less_2p [of e] unat_less_2p [of g]
  by (subst be_bytes_append_eq; simp add: word_unat_eq_iff)+

lemma byte_inject: "unat a mod 256 = unat b mod 256 \<longleftrightarrow> a = b" for a b :: u8
  using unat_less_2p [of a] unat_less_2p [of b] by (simp add: word_unat_eq_iff)

lemma optional_digest_append_eq:
  assumes "\<forall>t. u = Some t \<longrightarrow> fits64 t" "\<forall>t. v = Some t \<longrightarrow> fits64 t"
  shows "optional_digest_text u @ x = optional_digest_text v @ y \<longleftrightarrow> u = v \<and> x = y"
  using assms by (cases u; cases v) (auto simp: optional_digest_text_def digest_text_append_eq)

lemma expiry_append_eq:
  fixes u v :: "timestamp option"
  shows "(case u of Some t \<Rightarrow> CHR 0x01 # be_bytes 8 (unat t) | None \<Rightarrow> [CHR 0x00]) @ x
       = (case v of Some t \<Rightarrow> CHR 0x01 # be_bytes 8 (unat t) | None \<Rightarrow> [CHR 0x00]) @ y \<longleftrightarrow> u = v \<and> x = y"
  by (cases u; cases v) (auto simp: word_bytes_append_eq)

lemma fragment_bytes_append_eq:
  assumes "fragment_wf sha a" "fragment_wf sha b"
    and "fragment_bytes (fragment_manifest_of a) @ x = fragment_bytes (fragment_manifest_of b) @ y"
  shows "fragment_manifest_of a = (fragment_manifest_of b)\<lparr>fm_origin := fg_origin a\<rparr>
    \<and> og_producer (fg_origin a) = og_producer (fg_origin b) \<and> og_reference (fg_origin a) = og_reference (fg_origin b) \<and> x = y"
proof -
  have fit: "fits64 (fg_id a)" "fits64 (fg_id b)" "fits64 (fg_content_digest a)" "fits64 (fg_content_digest b)"
    and opt: "\<forall>t. og_producer (fg_origin a) = Some t \<longrightarrow> fits64 t" "\<forall>t. og_producer (fg_origin b) = Some t \<longrightarrow> fits64 t"
      "\<forall>t. og_reference (fg_origin a) = Some t \<longrightarrow> fits64 t" "\<forall>t. og_reference (fg_origin b) = Some t \<longrightarrow> fits64 t"
    using assms(1,2) by (auto simp: fragment_wf_def origin_fits_def)
  show ?thesis using assms(3) fit
    by (simp add: fragment_bytes_def fragment_manifest_of_def digest_text_append_eq strs_fit byte_inject word_bytes_append_eq expiry_append_eq
        optional_digest_append_eq [OF opt(1,2)] optional_digest_append_eq [OF opt(3,4)])
qed

lemma concat_fragment_bytes:
  assumes "length xs = length ys" "\<forall>fg \<in> set xs \<union> set ys. fragment_wf sha fg"
    and "concat (map (fragment_bytes \<circ> fragment_manifest_of) xs) = concat (map (fragment_bytes \<circ> fragment_manifest_of) ys)"
  shows "list_all2 (\<lambda>a b. fragment_manifest_of a = (fragment_manifest_of b)\<lparr>fm_origin := fg_origin a\<rparr>
    \<and> og_producer (fg_origin a) = og_producer (fg_origin b) \<and> og_reference (fg_origin a) = og_reference (fg_origin b)) xs ys"
  using assms
proof (induction rule: list_induct2)
  case (Cons a xs b ys)
  then show ?case using fragment_bytes_append_eq [of sha a b "concat (map (fragment_bytes \<circ> fragment_manifest_of) xs)"
      "concat (map (fragment_bytes \<circ> fragment_manifest_of) ys)"] by (simp add: comp_def)
qed simp

text \<open>The texts that are hashed for a list of candidates.\<close>

definition hashed :: "context_fragment list \<Rightarrow> string set" where
  "hashed cands = insert (manifest_bytes (map fragment_manifest_of cands)) (fg_content ` set cands)"

lemma sha256_text_inject: "sha256_text sha a = sha256_text sha b \<longleftrightarrow> sha a = sha b"
  by (simp add: sha256_text_def hex_encode_inject)

lemma manifest_digest_inject:
  assumes "inj_on sha (hashed xs \<union> hashed ys)" "\<forall>fg \<in> set xs \<union> set ys. fragment_wf sha fg"
    and "length xs < 2 ^ 64" "length ys < 2 ^ 64"
    and "mn_digest (manifest_from_fragments sha xs) = mn_digest (manifest_from_fragments sha ys)"
  shows "list_all2 same_fragment xs ys"
proof -
  have inj: "a = b" if "sha a = sha b" "a \<in> hashed xs" "b \<in> hashed ys" for a b
    using assms(1) that by (auto dest: inj_onD)
  have "manifest_bytes (map fragment_manifest_of xs) = manifest_bytes (map fragment_manifest_of ys)"
    by (rule inj) (use assms(5) in \<open>simp_all add: manifest_from_fragments_def Let_def digest_manifest_def sha256_text_inject hashed_def\<close>)
  then have "be_bytes 8 (length xs) @ concat (map (fragment_bytes \<circ> fragment_manifest_of) xs)
      = be_bytes 8 (length ys) @ concat (map (fragment_bytes \<circ> fragment_manifest_of) ys)"
    using assms(3,4) by (simp add: manifest_bytes_def)
  then have len: "length xs = length ys"
    and bytes: "concat (map (fragment_bytes \<circ> fragment_manifest_of) xs) = concat (map (fragment_bytes \<circ> fragment_manifest_of) ys)"
    using assms(3,4) be_bytes_append_eq [of "length xs" 8 "length ys"] by auto
  have "fg_content a = fg_content b" if "a \<in> set xs" "b \<in> set ys" "fg_content_digest a = fg_content_digest b" for a b
    by (rule inj) (use that assms(2) in \<open>auto simp: fragment_wf_def sha256_text_inject hashed_def\<close>)
  then show ?thesis using concat_fragment_bytes [OF len assms(2) bytes]
    by (auto simp: list_all2_conv_all_nth same_fragment_iff fragment_manifest_of_def)
qed

text \<open>The projection depends on its candidates up to the kind of their origin, on the cache key, and on which candidates have expired.\<close>

lemma select_step_cong:
  assumes "same_fragment a b" "cache_key r = cache_key q" "fragment_expired (xr_now r) a = fragment_expired (xr_now q) b"
  shows "select_step r a s = select_step q b s"
proof -
  have eqs: "fg_id a = fg_id b" "fg_source a = fg_source b" "fg_trust a = fg_trust b" "fg_classification a = fg_classification b"
    "fg_token_cost a = fg_token_cost b" "xr_token_budget r = xr_token_budget q" "redact a = redact b"
    using assms by (simp_all add: redact_def same_fragment_iff cache_key_def)
  have adm: "inadmissible r a = inadmissible q b" using assms by (simp add: inadmissible_def same_fragment_iff cache_key_def)
  have "compress a n = compress b n" for n using eqs(7) by (simp add: compress_def)
  then have packed: "compress a = compress b" by blast
  show ?thesis unfolding select_step_def drop_fragment_def eqs adm packed by (rule refl)
qed

lemma select_fragments_cong:
  assumes "list_all2 (\<lambda>a b. same_fragment a b \<and> fragment_expired (xr_now r) a = fragment_expired (xr_now q) b) xs ys"
    and "cache_key r = cache_key q"
  shows "select_fragments r xs s = select_fragments q ys s"
  using assms(1)
proof (induction xs ys arbitrary: s rule: list_all2_induct)
  case (Cons a xs b ys)
  have "select_step r a s = select_step q b s" using Cons.hyps(1) assms(2) by (auto intro: select_step_cong)
  then show ?case using Cons.IH by (cases "select_step q b s") simp_all
qed simp

lemma manifest_cong:
  assumes "list_all2 same_fragment xs ys"
  shows "mn_provenance_complete (manifest_from_fragments sha xs) = mn_provenance_complete (manifest_from_fragments sha ys)"
    "cache_candidate sha xs = cache_candidate sha ys"
    "mn_digest (manifest_from_fragments sha xs) = mn_digest (manifest_from_fragments sha ys)"
    "earliest_expiry now xs = earliest_expiry now ys"
proof -
  show prov: "mn_provenance_complete (manifest_from_fragments sha xs) = mn_provenance_complete (manifest_from_fragments sha ys)"
    using assms by (induction rule: list_all2_induct)
      (simp_all add: manifest_from_fragments_def Let_def fragment_manifest_of_def origin_complete_def same_fragment_iff)
  have "list_all (\<lambda>fg. cacheable_class (fg_classification fg) \<and> static_source (fg_source fg)) xs
      = list_all (\<lambda>fg. cacheable_class (fg_classification fg) \<and> static_source (fg_source fg)) ys"
    using assms by (induction rule: list_all2_induct) (simp_all add: same_fragment_iff)
  then show "cache_candidate sha xs = cache_candidate sha ys" using prov by (simp add: cache_candidate_def)
  have "map fragment_bytes (map fragment_manifest_of xs) = map fragment_bytes (map fragment_manifest_of ys)"
    using assms by (induction rule: list_all2_induct) (simp_all add: fragment_bytes_def fragment_manifest_of_def same_fragment_iff)
  then show "mn_digest (manifest_from_fragments sha xs) = mn_digest (manifest_from_fragments sha ys)"
    using list_all2_lengthD [OF assms] by (simp add: manifest_from_fragments_def Let_def digest_manifest_def manifest_bytes_def comp_def)
  have "List.map_filter fg_expires_at xs = List.map_filter fg_expires_at ys"
    using assms by (induction rule: list_all2_induct) (simp_all add: same_fragment_iff List.map_filter_def)
  then show "earliest_expiry now xs = earliest_expiry now ys" by (simp add: earliest_expiry_def)
qed

lemma project_cong:
  assumes "list_all2 same_fragment xs ys" "cache_key r = cache_key q"
    and "\<forall>fg \<in> set ys. fragment_expired (xr_now r) fg = fragment_expired (xr_now q) fg"
  shows "project sha r xs = project sha q ys"
proof -
  have "list_all2 (\<lambda>a b. same_fragment a b \<and> fragment_expired (xr_now r) a = fragment_expired (xr_now q) b) xs ys"
    using assms(1,3) by (auto simp: list_all2_conv_all_nth fragment_expired_def same_fragment_iff)
  then have "select_fragments r xs = select_fragments q ys" using select_fragments_cong assms(2) by blast
  then show ?thesis using assms(2) manifest_cong(1-3) [OF assms(1)]
    by (simp add: project_def receipt_with_evidence_def)
qed

lemma expiry_stable:
  assumes "fg \<in> set cands" "t \<le> u" "case earliest_expiry t cands of Some e \<Rightarrow> u < e | None \<Rightarrow> True"
  shows "fragment_expired t fg = fragment_expired u fg"
proof (cases "fg_expires_at fg")
  case (Some e)
  have "u < e" if "t < e"
  proof -
    let ?ts = "filter (\<lambda>e. t < e) (List.map_filter fg_expires_at cands)"
    have "e \<in> set ?ts" using assms(1) Some that by (force simp: List.map_filter_def)
    then have "earliest_expiry t cands = Some (Min (set ?ts))" "Min (set ?ts) \<le> e"
      by (auto simp: earliest_expiry_def Let_def filter_empty_conv intro!: Min_le)
    then show ?thesis using assms(3) by auto
  qed
  then have "e \<le> t \<longleftrightarrow> e \<le> u" using assms(2) by (meson not_le order.trans)
  then show ?thesis using Some by (simp add: fragment_expired_def)
qed (simp add: fragment_expired_def)

text \<open>
  A cached entry is exact when it holds what the projection gave for some request and candidates, with the time and
  the expiry of that request. \<open>known\<close> are the ordered candidates that were ever assembled.
\<close>

definition exact_entry :: "(string \<Rightarrow> string) \<Rightarrow> context_fragment list set \<Rightarrow> cache_entry \<Rightarrow> bool" where
  "exact_entry sha known e \<longleftrightarrow>
     (\<exists>r cands a d. cands \<in> known \<and> project sha r cands = Inr a \<and> e = entry_for sha r cands (with_disposition d a))"

definition exact_engine :: "cache_env \<Rightarrow> context_fragment list set \<Rightarrow> context_engine \<Rightarrow> bool" where
  "exact_engine env known en \<longleftrightarrow>
     (\<forall>e \<in> set (ce_entries en). exact_entry (ze_sha env) known e)
   \<and> (\<forall>c. ce_file en = Some c \<longrightarrow> (\<forall>e \<in> set (cl_entries c). exact_entry (ze_sha env) known e))
   \<and> length (ce_entries en) \<le> MAX_CONTEXT_CACHE_ENTRIES"

definition no_collisions :: "(string \<Rightarrow> string) \<Rightarrow> context_fragment list set \<Rightarrow> bool" where
  "no_collisions sha known \<longleftrightarrow>
     inj_on sha (\<Union> (hashed ` known)) \<and> (\<forall>cands \<in> known. length cands < 2 ^ 64 \<and> (\<forall>fg \<in> set cands. fragment_wf sha fg))"

lemma with_disposition_again [simp]: "with_disposition d (with_disposition x a) = with_disposition d a"
  by (simp add: with_disposition_def)

lemma exact_hit:
  assumes "no_collisions sha known" "exact_entry sha known e" "cands \<in> known"
    and "ch_key e = cache_key r" "ch_manifest_digest e = mn_digest (manifest_from_fragments sha cands)" "valid_at (xr_now r) e"
  shows "\<exists>a d. project sha r cands = Inr a \<and> ch_assembly e = with_disposition d a"
proof -
  obtain q xs a d where e: "xs \<in> known" "project sha q xs = Inr a" "e = entry_for sha q xs (with_disposition d a)"
    using assms(2) by (auto simp: exact_entry_def)
  have "inj_on sha (hashed xs \<union> hashed cands)"
    using assms(1,3) e(1) unfolding no_collisions_def by (auto intro: inj_on_subset)
  moreover have "\<forall>fg \<in> set xs \<union> set cands. fragment_wf sha fg" "length xs < 2 ^ 64" "length cands < 2 ^ 64"
    using assms(1,3) e(1) by (auto simp: no_collisions_def)
  ultimately have same: "list_all2 same_fragment xs cands"
    using manifest_digest_inject [of sha xs cands] assms(5) e(3) by (simp add: entry_for_def)
  have valid: "xr_now q \<le> xr_now r" "case earliest_expiry (xr_now q) cands of Some x \<Rightarrow> xr_now r < x | None \<Rightarrow> True"
    using assms(6) e(3) manifest_cong(4) [OF same] by (simp_all add: valid_at_def entry_for_def)
  have "project sha q xs = project sha r cands"
    by (rule project_cong [OF same]) (use assms(4) e(3) expiry_stable [OF _ valid] in \<open>auto simp: entry_for_def\<close>)
  then have "project sha r cands = Inr a" using e(2) by simp
  then show ?thesis using e(3) by (auto simp: entry_for_def)
qed

lemma exact_entry_for:
  "cands \<in> known \<Longrightarrow> project sha r cands = Inr a \<Longrightarrow> exact_entry sha known (entry_for sha r cands (with_disposition d a))"
  by (auto simp: exact_entry_def)

lemma with_own_disposition: "with_disposition (cx_disposition (cy_receipt a)) a = a"
  by (simp add: with_disposition_def)

lemma exact_pushed:
  assumes "exact_engine env known en" "exact_entry (ze_sha env) known e"
  shows "set (ce_entries en @ [e]) \<subseteq> Collect (exact_entry (ze_sha env) known)"
  using assms by (auto simp: exact_engine_def)

lemma find_found: "find P xs = Some x \<Longrightarrow> x \<in> set xs \<and> P x"
  by (auto simp: find_Some_iff)

lemma in_set_tl_append: "x \<in> set (tl (xs @ [e])) \<Longrightarrow> x \<in> set xs \<or> x = e"
  by (cases xs) auto

lemma memory_lookup_exact:
  assumes "no_collisions (ze_sha env) known" "exact_engine env known en" "cands \<in> known"
    and "memory_lookup f r (mn_digest (manifest_from_fragments (ze_sha env) cands)) en = (res, en')"
  shows "exact_engine env known en'" "res = Some b \<Longrightarrow> \<exists>a d. project (ze_sha env) r cands = Inr a \<and> b = with_disposition d a"
proof -
  let ?d = "mn_digest (manifest_from_fragments (ze_sha env) cands)"
  show "exact_engine env known en'"
    using assms(2,4) by (auto simp: memory_lookup_def exact_engine_def length_remove1 dest: notin_set_remove1 split: if_splits option.splits)
  show "\<exists>a d. project (ze_sha env) r cands = Inr a \<and> b = with_disposition d a" if hit: "res = Some b"
  proof -
    obtain e where e: "e \<in> set (ce_entries en)" "ch_key e = cache_key r" "ch_manifest_digest e = ?d" "valid_at (xr_now r) e"
      "b = with_disposition CacheHit (ch_assembly e)"
      using hit assms(4) by (auto simp: memory_lookup_def split: if_splits option.splits dest!: find_found)
    then have "exact_entry (ze_sha env) known e" using assms(2) by (simp add: exact_engine_def)
    from exact_hit [OF assms(1) this assms(3) e(2-4)] show ?thesis using e(5) by auto
  qed
qed

lemma load_cache_Some: "load_cache env file = Some c \<Longrightarrow> file = Some c \<and> length (cl_entries c) \<le> MAX_CONTEXT_CACHE_ENTRIES"
  by (auto simp: load_cache_def split: option.splits if_splits)

lemma cache_get_exact:
  assumes "no_collisions (ze_sha env) known" "exact_engine env known en" "cands \<in> known"
    and "cache_get env (ce_file en) (cache_key r) (mn_digest (manifest_from_fragments (ze_sha env) cands)) (xr_now r) = Some b"
  shows "\<exists>a d. project (ze_sha env) r cands = Inr a \<and> b = with_disposition d a"
proof -
  obtain c e where c: "load_cache env (ce_file en) = Some c" and e: "e \<in> set (cl_entries c)" "ch_key e = cache_key r"
    "ch_manifest_digest e = mn_digest (manifest_from_fragments (ze_sha env) cands)" "valid_at (xr_now r) e"
    "b = with_disposition CacheHit (ch_assembly e)"
    using assms(4) by (auto simp: cache_get_def split: if_splits option.splits dest!: find_found)
  then have "exact_entry (ze_sha env) known e" using assms(2) load_cache_Some [OF c] by (auto simp: exact_engine_def)
  from exact_hit [OF assms(1) this assms(3) e(2-4)] show ?thesis using e(5) by auto
qed

lemma file_lookup_exact:
  assumes "no_collisions (ze_sha env) known" "exact_engine env known en" "cands \<in> known" "file_lookup env f r cands en = (res, en')"
  shows "exact_engine env known en'" "res = Some b \<Longrightarrow> \<exists>a d. project (ze_sha env) r cands = Inr a \<and> b = with_disposition d a"
proof -
  let ?got = "cache_get env (ce_file en) (cache_key r) (mn_digest (manifest_from_fragments (ze_sha env) cands)) (xr_now r)"
  have "exact_engine env known en' \<and> (\<forall>b. res = Some b \<longrightarrow> (\<exists>a d. project (ze_sha env) r cands = Inr a \<and> b = with_disposition d a))"
  proof (cases "ce_persistent en \<and> \<not> f 1 \<and> ?got \<noteq> None")
    case False
    then have "res = None" "en' = en" using assms(4) by (auto simp: file_lookup_def split: if_splits)
    then show ?thesis using assms(2) by simp
  next
    case True
    then obtain x where x: "?got = Some x" by auto
    obtain a d where a: "project (ze_sha env) r cands = Inr a" "x = with_disposition d a"
      using cache_get_exact [OF assms(1-3) x] by blast
    then have "exact_entry (ze_sha env) known (entry_for (ze_sha env) r cands x)" using assms(3) by (simp add: exact_entry_for)
    then have "exact_engine env known en'" "res = Some x"
      using True x assms(2,4) by (auto simp: file_lookup_def Let_def exact_engine_def dest!: in_set_tl_append split: if_splits)
    then show ?thesis using a by auto
  qed
  then show "exact_engine env known en'" "res = Some b \<Longrightarrow> \<exists>a d. project (ze_sha env) r cands = Inr a \<and> b = with_disposition d a"
    by auto
qed

lemma cache_put_entries:
  assumes "cache_put env rf wr e file = Some c" "x \<in> set (cl_entries c)"
  shows "x = e \<or> (\<exists>c0. file = Some c0 \<and> x \<in> set (cl_entries c0))"
  using assms
  by (auto simp: cache_put_def Let_def split: if_splits option.splits dest!: load_cache_Some dest!: in_set_tl_append)

lemma store_assembly_exact:
  assumes "exact_engine env known en" "exact_entry (ze_sha env) known e"
  shows "exact_engine env known (store_assembly env f e en)"
proof -
  let ?file = "if ce_persistent en then cache_put env (f 4) (f 5) e (ce_file en) else ce_file en"
  have stored: "\<forall>c. ?file = Some c \<longrightarrow> (\<forall>x \<in> set (cl_entries c). exact_entry (ze_sha env) known x)"
    using assms by (cases "ce_persistent en") (auto simp: exact_engine_def dest!: cache_put_entries)
  show ?thesis using assms stored
    by (auto simp: store_assembly_def Let_def exact_engine_def MAX_CONTEXT_CACHE_ENTRIES_def dest: list.set_sel(2) [rotated] split: if_splits)
qed

text \<open>The answer of the engine is the projection, whatever the cache holds and whatever fails, but for the disposition.\<close>

lemma assemble_exact:
  assumes "no_collisions (ze_sha env) known" "exact_engine env known en" "order_candidates fragments \<in> known"
    and "assemble env f r fragments en = (res, en')"
  shows "exact_engine env known en'"
    "\<exists>a d. project (ze_sha env) r (order_candidates fragments) = Inr a \<and> res = Inr (with_disposition d a)"
proof -
  let ?sha = "ze_sha env" and ?cands = "order_candidates fragments"
  let ?d = "mn_digest (manifest_from_fragments ?sha ?cands)"
  obtain a where a: "project ?sha r ?cands = Inr a" using project_sound by blast
  obtain m en1 where m: "memory_lookup f r ?d en = (m, en1)" by fastforce
  obtain n en2 where n: "file_lookup env f r ?cands en1 = (n, en2)" by fastforce
  note mem = memory_lookup_exact [OF assms(1-3) m]
  note fil = file_lookup_exact [OF assms(1) mem(1) assms(3) n]
  have miss: "exact_engine env known (if f 3 then en2 else en2\<lparr>ce_misses := k\<rparr>)" for k using fil(1) by (simp add: exact_engine_def)
  have own: "exact_entry ?sha known (entry_for ?sha r ?cands a)"
    using exact_entry_for [OF assms(3) a, of "cx_disposition (cy_receipt a)"] by (simp add: with_own_disposition)
  have "exact_engine env known en' \<and> (\<exists>a d. project ?sha r ?cands = Inr a \<and> res = Inr (with_disposition d a))"
  proof (cases "cache_candidate ?sha ?cands")
    case False
    then have "res = Inr a" "en' = en" using assms(4) a by (simp_all add: assemble_def Let_def)
    then show ?thesis using assms(2) a by (auto intro: exI [of _ a] exI [of _ "cx_disposition (cy_receipt a)"] simp: with_own_disposition)
  next
    case True
    show ?thesis
    proof (cases "m = None \<and> n = None")
      case none: True
      then have "res = Inr a" "exact_engine env known en'"
        using assms(4) True m n a store_assembly_exact [OF miss own, of f]
        by (auto simp: assemble_def Let_def split: if_splits)
      then show ?thesis using a by (auto intro: exI [of _ a] exI [of _ "cx_disposition (cy_receipt a)"] simp: with_own_disposition)
    next
      case False
      then show ?thesis using assms(4) True m n mem fil by (auto simp: assemble_def Let_def split: option.splits)
    qed
  qed
  then show "exact_engine env known en'"
    "\<exists>a d. project ?sha r ?cands = Inr a \<and> res = Inr (with_disposition d a)" by auto
qed

section \<open>Properties\<close>

text \<open>What happens to an engine: assemblies, and restarts that keep the cache file only.\<close>

datatype context_op = Assemble faults context_request "context_fragment list" | Restart

fun run_engine ::
  "cache_env \<Rightarrow> context_op list \<Rightarrow> context_engine
     \<Rightarrow> (context_request \<times> context_fragment list \<times> (context_error, context_assembly) outcome) list" where
  "run_engine env [] en = []"
| "run_engine env (Assemble f r fgs # ops) en =
     (case assemble env f r fgs en of (res, en) \<Rightarrow> (r, fgs, res) # run_engine env ops en)"
| "run_engine env (Restart # ops) en =
     run_engine env ops (if ce_persistent en then engine_with_file (ce_file en) else new_engine)"

fun asked :: "context_op list \<Rightarrow> context_fragment list set" where
  "asked [] = {}"
| "asked (Assemble f r fgs # ops) = insert (order_candidates fgs) (asked ops)"
| "asked (Restart # ops) = asked ops"

lemma new_engine_exact [simp]: "exact_engine env known new_engine" "exact_engine env known (engine_with_file None)"
  by (simp_all add: exact_engine_def new_engine_def engine_with_file_def)

lemma restart_exact:
  "exact_engine env known en \<Longrightarrow> exact_engine env known (if ce_persistent en then engine_with_file (ce_file en) else new_engine)"
  by (simp add: exact_engine_def new_engine_def engine_with_file_def)

lemma run_engine_exact:
  assumes "no_collisions (ze_sha env) known" "exact_engine env known en" "asked ops \<subseteq> known"
  shows "list_all (\<lambda>(r, fgs, res). \<exists>a d. project (ze_sha env) r (order_candidates fgs) = Inr a \<and> res = Inr (with_disposition d a))
    (run_engine env ops en)"
  using assms
proof (induction ops arbitrary: en)
  case (Cons x ops)
  show ?case
  proof (cases x)
    case (Assemble f r fgs)
    obtain res en' where step: "assemble env f r fgs en = (res, en')" by fastforce
    have "order_candidates fgs \<in> known" using Cons.prems(3) Assemble by simp
    note exact = assemble_exact [OF Cons.prems(1,2) this step]
    show ?thesis using Cons.IH [OF Cons.prems(1) exact(1)] exact(2) Cons.prems(3) Assemble step by simp
  next
    case Restart
    then show ?thesis using Cons.IH [OF Cons.prems(1) restart_exact [OF Cons.prems(2)]] Cons.prems(3) by simp
  qed
qed simp

text \<open>C17: An engine that starts without cached contexts, in memory or with a cache file, answers every request with exactly the
  projection of the fragments it was given, at the time it was asked, up to the note whether the cache was hit: over any sequence
  of assemblies and restarts, with any failures of locks and files, given a hash without collisions on the hashed texts.\<close>

theorem cached_context_exact:
  assumes "no_collisions (ze_sha env) (asked ops)" "en \<in> {new_engine, engine_with_file None}"
  shows "list_all (\<lambda>(r, fgs, res). \<exists>a d. project (ze_sha env) r (order_candidates fgs) = Inr a \<and> res = Inr (with_disposition d a))
    (run_engine env ops en)"
  using run_engine_exact [OF assms(1), of en ops] assms(2) by auto

definition demo_fragment :: context_fragment where
  "demo_fragment = \<lparr>fg_id = ''c'', fg_source = Constitutional, fg_trust = ConstitutionalTrust, fg_classification = InternalContext,
     fg_priority = 2, fg_content = ''act well'', fg_content_digest = sha256_text (\<lambda>x. x) ''act well'', fg_token_cost = 2,
     fg_expires_at = Some 90, fg_origin = \<lparr>og_producer = Some ''pandora-runtime'', og_reference = Some ''c'', og_kind = RuntimeOrigin\<rparr>\<rparr>"

definition demo_context_request :: "timestamp \<Rightarrow> context_request" where
  "demo_context_request now = \<lparr>xr_tenant_id = ''t'', xr_workspace_id = ''w'', xr_session_id = ''s'', xr_provider = ''p'', xr_model = ''m'',
     xr_policy_version = 1, xr_token_budget = 100, xr_now = now, xr_boundary = SensitiveContext\<rparr>"

definition demo_cache_env :: cache_env where
  "demo_cache_env = \<lparr>ze_sha = (\<lambda>x. x), ze_file_bytes = (\<lambda>_. Some 100), ze_assembly_size = 1, ze_cache_entry_size = 1, ze_entry_size = 1,
     ze_string_size = 1\<rparr>"

definition demo_context_ops :: "context_op list" where
  "demo_context_ops =
     [Assemble no_faults (demo_context_request 10) [demo_fragment], Assemble no_faults (demo_context_request 20) [demo_fragment], Restart,
      Assemble no_faults (demo_context_request 30) [demo_fragment], Assemble no_faults (demo_context_request 95) [demo_fragment]]"

theorem cached_context_exact_witness:
  "length (run_engine demo_cache_env demo_context_ops (engine_with_file None)) = 4
   \<and> list_all (\<lambda>(r, fgs, res). \<exists>a d. project (\<lambda>x. x) r (order_candidates fgs) = Inr a \<and> res = Inr (with_disposition d a))
       (run_engine demo_cache_env demo_context_ops (engine_with_file None))"
proof
  show "length (run_engine demo_cache_env demo_context_ops (engine_with_file None)) = 4"
    by (simp add: demo_context_ops_def split: prod.splits)
  have "asked demo_context_ops = {[demo_fragment]}" by (simp add: demo_context_ops_def order_candidates_def)
  moreover have "fragment_wf (\<lambda>x. x) demo_fragment"
    by (auto simp: fragment_wf_def demo_fragment_def fits64_def origin_fits_def sha256_text_def)
  ultimately have "no_collisions (ze_sha demo_cache_env) (asked demo_context_ops)" by (simp add: no_collisions_def demo_cache_env_def)
  from cached_context_exact [OF this, of "engine_with_file None"]
  show "list_all (\<lambda>(r, fgs, res). \<exists>a d. project (\<lambda>x. x) r (order_candidates fgs) = Inr a \<and> res = Inr (with_disposition d a))
       (run_engine demo_cache_env demo_context_ops (engine_with_file None))" by (simp add: demo_cache_env_def)
qed

text \<open>C18: The projection never fails. It keeps within the token budget it charges, takes no identifier twice and accounts for every
  fragment it was given. What it includes has not expired, is constitutional, verified or admitted, and lies within the
  classification boundary; of a secret only a placeholder is shown, of every other fragment its text or an opening part of
  it; constitutional text comes before plans, evidence, retrieved text and conversation, in this order. The text handed to
  the model is exactly what was included, line by line.\<close>

theorem context_selection_sound:
  "\<exists>a. project sha r (order_candidates fragments) = Inr a \<and> cy_cache_key a = cache_key r \<and> selection_sound r fragments a"
  by (rule project_sound)

text \<open>
  Fragments of a feature map are a file of the workspace: they count fifty tokens whatever their length, are taken as
  verified, and their origin is unknown, so that a context with one of them is never cached.
\<close>

lemma in_case_ok: "x \<in> set (case r of Inl _ \<Rightarrow> [] | Inr y \<Rightarrow> [y]) \<longleftrightarrow> r = Inr x"
  by (cases r) auto

lemma feature_fragments_unaccounted:
  assumes "fg \<in> set (fragments_from_feature_map sha lower m prompt)"
  shows "fg_token_cost fg = 50 \<and> fg_trust fg = Verified \<and> fg_source fg = ActivePlan \<and> \<not> origin_complete (fg_origin fg)"
proof -
  obtain i e where "fg \<in> set (feature_fragment sha lower prompt i e)" using assms by (auto simp: fragments_from_feature_map_def)
  then have fg: "fg \<in> set (case new_fragment sha (''feature-'' @ lower (fe_name e)) ActivePlan Verified InternalContext
      (feature_priority i) (feature_content e) 50 None of Inl _ \<Rightarrow> [] | Inr x \<Rightarrow> [x])"
    by (cases "feature_matches lower prompt e") (simp_all only: feature_fragment_def if_True if_False list.set empty_iff)
  then have "new_fragment sha (''feature-'' @ lower (fe_name e)) ActivePlan Verified InternalContext (feature_priority i)
      (feature_content e) 50 None = Inr fg"
    by (simp only: in_case_ok)
  then show ?thesis by (auto simp: new_fragment_def new_fragment_with_origin_def incomplete_origin_def origin_complete_def split: if_splits)
qed

lemma feature_fragment_uncached: "fg \<in> set cands \<Longrightarrow> \<not> origin_complete (fg_origin fg) \<Longrightarrow> \<not> cache_candidate sha cands"
  by (auto simp: cache_candidate_def manifest_from_fragments_def Let_def list_all_iff fragment_manifest_of_def)

lemma recovery_pauses_last:
  "snd (plan_recovery x) \<longleftrightarrow>
     \<not> ri_has_verified_l1 x \<and> \<not> (ri_has_fresh_evidence x \<and> ri_fresh_evidence_is_trusted x) \<and> \<not> ri_can_reduce_scope x"
  "snd (plan_recovery x) \<longleftrightarrow> last (fst (plan_recovery x)) = PauseRecovery"
  by (auto simp: plan_recovery_def Let_def)

end
