(* ===== verification/Spec2Isabelle.thy ===== *)
theory Spec2Isabelle
  imports Mcp_Start Orchestration Run_Loop Kanban Job_Store Human_Review Run_Rollout Session_Properties Sop_Store Session_Journal
    Provider_Invocation Content_Guard
begin

text \<open>
  \<^bold>\<open>Pandora: the governed core of an agent runtime.\<close>

  Pandora runs agents under a policy. An agent's plan is a list of operation requests. Before a request has any
  effect it passes lifecycle hooks, Parliament's decision under the governance policy and the reference monitor,
  which issues a one-shot permit; a request that needs a person's consent is redeemed against an approval. The
  execution controller drives this loop, calls the executors and collects events and receipts. The run is then
  evaluated, reduced to a hash-chained rollout and appended to the session store, which also holds the agent's
  memory, procedures and journals. Calls to a language model pass the same gate before a request goes to a provider.
  Around the core stand the job queue, the kanban board, orchestration plans, run loops and human review.

  \<^bold>\<open>Theories and sources\<close> (paths under \<open>src/crates\<close>).

  \<^item> \<open>Pandora_Prelude\<close>, \<open>Rust_Text\<close>: results as sums (\<open>and_then\<close> is the question mark operator), 64-bit integers as words
    with checked and saturating arithmetic, columns of a database as 64-bit integers, hexadecimal and big-endian
    text, and the parts of the standard library's text functions the code uses, on UTF-8 bytes.
  \<^item> \<open>One_Shot\<close>, \<open>Bounded_Runs\<close>, \<open>Sql_Table\<close>: the contracts several components share, as locales: tickets redeemed at most
    once, counters that stay below a bound, tables with a primary key. They are interpreted on the permit store,
    the monitor, the controller, the approval, job and review stores, the run loop and the tables themselves.
  \<^item> \<open>Identifiers\<close>, \<open>Execution_Profile\<close>, \<open>Effects\<close>, \<open>Governance\<close>: \<open>pandora-types/src/{ids,capability,execution_profile,effect,governance}.rs\<close>
    and \<open>pandora-runtime/src/parliament.rs\<close>: requests and their digests, profiles, policies and decisions.
  \<^item> \<open>Permit_Store\<close>, \<open>Approvals\<close>, \<open>Reference_Monitor\<close>, \<open>Hooks\<close>: the files of the same names in \<open>pandora-runtime/src\<close>. The state of
    each is a map, a table or a record; every method that changes it is one function of it.
  \<^item> \<open>Events\<close>, \<open>Effect_Execution\<close>, \<open>Execution_Controller\<close>: \<open>execution_controller.rs\<close>, the request loop of a run with its gate,
    the dispatch to executors, approved runs and the gates for MCP and provider requests.
  \<^item> \<open>Json_Value\<close>, \<open>Mcp_Catalog\<close>, \<open>Mcp_Start\<close>: \<open>mcp_catalog.rs\<close>, \<open>mcp.rs\<close> and the start of tool servers in the controller.
  \<^item> \<open>Rollout\<close>, \<open>Rollout_Reducer\<close>, \<open>Run_Rollout\<close>: \<open>rollout.rs\<close>, \<open>rollout_reducer.rs\<close>, and the composition of a run with its reduction.
  \<^item> \<open>Evaluation\<close>, \<open>Session_Store\<close>, \<open>Memory_Record\<close>, \<open>Memory_Store\<close>: \<open>evaluation.rs\<close>, \<open>evaluation_engine.rs\<close>, \<open>sessions.rs\<close>, \<open>memory.rs\<close>: sessions,
    event logs, evaluations, rollout summaries, transcripts and durable memory as tables of one database.
  \<^item> \<open>Session_Runs\<close>, \<open>Session_Demo\<close>, \<open>Session_Properties\<close>: histories of that database, as an inductive set of reachable states, the
    locale of isolated objects with its interpretation on the sessions, and the properties of histories.
  \<^item> \<open>Sop\<close>, \<open>Sop_Store\<close>: the procedures, capsules and archives of \<open>memory.rs\<close>, \<open>memory_engine.rs\<close> and \<open>sessions.rs\<close>: validation and
    execution order of a procedure, capsules with their digest, and the two backends, in memory and durable.
  \<^item> \<open>Session_Journal\<close>: \<open>session_journal.rs\<close>, the steps of a session with their digests, rewinding and forking.
  \<^item> \<open>Provider_Request\<close>, \<open>Provider_Wire\<close>, \<open>Provider_Invocation\<close>: \<open>manifest.rs\<close>, \<open>client.rs\<close> and \<open>failover.rs\<close> of \<open>pandora-provider\<close>,
    \<open>reasoning.rs\<close>, \<open>executors/provider.rs\<close> and the provider calls of \<open>execution_controller.rs\<close>: model requests and their canonical
    form, the request and response bodies of the three wire formats, and the governed call.
  \<^item> \<open>Context_Engine\<close>: \<open>context.rs\<close>, \<open>context_engine.rs\<close>, \<open>context_recovery.rs\<close>, \<open>feature_map.rs\<close>: the fragments a model call is shown,
    their selection under a token budget, and the caches of assembled contexts.
  \<^item> \<open>Content_Guard\<close>: \<open>content_guard.rs\<close>, which withholds text that reads like an instruction and frames all other tool output as untrusted.
  \<^item> \<open>Orchestration\<close>, \<open>Run_Loop\<close>, \<open>Kanban\<close>, \<open>Job_Store\<close>, \<open>Human_Review\<close>: \<open>orchestration.rs\<close>, \<open>run_loop.rs\<close>, \<open>kanban.rs\<close> and
    \<open>kanban_engine.rs\<close>, \<open>jobs.rs\<close> and \<open>job_store.rs\<close>, \<open>human_review.rs\<close>.

  \<^bold>\<open>How the code is modelled.\<close> A struct is a record, an enum a datatype, a method a function from the old state to a result
  and the new state. An error return is a left injection and leaves the state as the code leaves it. A SQLite table is
  the list of its rows in insertion order; a transaction that fails leaves the database as it was. The argument
  \<open>f :: faults\<close> of a store's operation says which of its database calls fail, \<open>f 0\<close> that its mutex is poisoned, so
  a property that holds for every \<open>f\<close> covers every failure. The operations of the permit, approval, job,
  review and session stores hold a mutex or an immediate transaction, hence concurrent callers are covered by quantifying over
  all sequences of operations. The kanban engine does neither: it opens a connection for each statement, so its
  operations are modelled as they run alone, and sequences of them as one after the other. The same goes for what is composed of
  several operations of a store, such as rewinding and forking a journal or a run of the controller; steps of runs that interleave
  are considered for the permits, which is where it matters.

  \<^bold>\<open>Parameters.\<close> SHA-256, \<open>serde_json\<close>, the executors of effects, MCP transports, the HTTP client, the receipt
  allocator, the assembly of a profile and the planning of genes are arguments. What is asked of them is a named hypothesis: a collision-free hash on the texts in question, a codec
  that reads what it wrote (\<open>codec_ok\<close>, \<open>ids_codec_ok\<close>), executors that answer with a fresh receipt for the request of
  their permit (\<open>honest_executors\<close>). Every property with such a hypothesis has a witness with concrete functions.

  \<^bold>\<open>What is shown.\<close> For the gate: no effect without hooks, decision, permit and approval, permits and approvals spent once,
  a run that is allowed completes, and what a run does to monitor and approvals is a sequence of their own operations.
  For evidence: digests bind requests, profiles, catalogs and rollouts; a run within the bounds of the reducer reduces to a rollout that verifies.
  For the session store: scopes are isolated, appended executions are read back whole or page by page, revoked memories
  stay away, recorded ones are recalled, promotion needs approval, capacities hold, pruning is exact. For the engines
  around the core: jobs are claimed once and finished by their owner, plans are accepted exactly when well-formed
  and their schedules complete, run loops end within their bounds, reviews resume only with a cause. For model
  calls: a request reaches a provider only through the gate and under a permit for exactly that invocation, the wire
  body carries it faithfully, and a parsed reply is well-formed; a context is assembled within its bounds, and one
  from the cache is the one that would have been assembled; tool output that spells an instruction is withheld. For procedures and journals: the durable store
  refines the one in memory, a rewind keeps exactly the prefix of the journal asked for (and, unlike its documentation, nothing but
  the journal is rewound), a fork copies it. A tool server is started only under permits, and falls back to the legacy protocol only when a probe found one.

  \<^bold>\<open>Bounds.\<close> Loops are structural recursions, or have a measure. The paging loop of a client has fuel; one page more than there
  are stored events is enough. A submission retries 25 times, the constant of the code. Counters that may run
  out (nonces, permit expiry, row identifiers below \<open>2 ^ 63\<close>, attempts below \<open>2 ^ 32\<close>) appear as hypotheses where a
  statement promises success.

  \<^bold>\<open>Not modelled.\<close> Opening database files, schema migrations and file permissions; network services, the fleet, the sandbox's system calls and terminal drawing, which are input and output around the core; search, evolution and
  scoring engines, which compute with floating-point numbers; the virtual file system of contexts; the planning tables of the built-in harnesses. Of the
  provider crate proxies, the parsing of endpoint addresses, streaming, structured output and the inference policy; of
  \<open>sessions.rs\<close> the tables of mesh peers, personas, messages and connectors.
\<close>

end
